(* ===== verification/Voodoo_Prelude.thy ===== *)
theory Voodoo_Prelude
  imports Main "HOL-Library.Word" "HOL-Library.Monad_Syntax"
begin

text \<open>
  Shared vocabulary of the development: fixed-width arithmetic written out on
  natural numbers (the C++ sources compute on \<open>uint32_t\<close> and \<open>uint64_t\<close>), checked
  reads of vectors, and the generic facts on lists and options that the component
  theories use.  In the component models a result of type \<open>'a option\<close> whose value is
  \<open>None\<close> stands for undefined behaviour of the C++ program (an index out of range, a
  downcast to the wrong type, a division by zero); the theorems show it does not occur.
\<close>

named_theorems wrap_simps \<open>wrap-around arithmetic below the bound\<close>
named_theorems frame_simps \<open>what an operation leaves unchanged\<close>

unbundle bit_operations_syntax

type_synonym byte = "8 word"

subsection \<open>Unsigned arithmetic with wrap-around\<close>

definition u32 :: "nat \<Rightarrow> nat" where
  "u32 n = n mod 2 ^ 32"

definition add32 :: "nat \<Rightarrow> nat \<Rightarrow> nat" where
  "add32 a b = (a + b) mod 2 ^ 32"

definition sub32 :: "nat \<Rightarrow> nat \<Rightarrow> nat" where
  "sub32 a b = (a + (2 ^ 32 - b mod 2 ^ 32)) mod 2 ^ 32"

definition add64 :: "nat \<Rightarrow> nat \<Rightarrow> nat" where
  "add64 a b = (a + b) mod 2 ^ 64"

lemma u32_id [wrap_simps]: "n < 2 ^ 32 \<Longrightarrow> u32 n = n"
  by (simp add: u32_def)

lemma u32_less [simp]: "u32 n < 4294967296"
  by (simp add: u32_def)

lemma add32_less [simp]: "add32 a b < 4294967296"
  by (simp add: add32_def)

lemma sub32_less [simp]: "sub32 a b < 4294967296"
  by (simp add: sub32_def)

lemma add64_less [simp]: "add64 a b < 18446744073709551616"
  by (simp add: add64_def)

lemma add32_id [wrap_simps]: "a + b < 2 ^ 32 \<Longrightarrow> add32 a b = a + b"
  by (simp add: add32_def)

lemma add64_id [wrap_simps]: "a + b < 2 ^ 64 \<Longrightarrow> add64 a b = a + b"
  by (simp add: add64_def)

lemma sub32_id [wrap_simps]: "b \<le> a \<Longrightarrow> a < 2 ^ 32 \<Longrightarrow> sub32 a b = a - b"
proof -
  assume "b \<le> a" "a < 2 ^ 32"
  then have "a + (2 ^ 32 - b mod 2 ^ 32) = (a - b) + 2 ^ 32" and "a - b < 2 ^ 32"
    by simp_all
  then show ?thesis by (simp add: sub32_def)
qed

subsection \<open>Checked vector access\<close>

definition nth_opt :: "'a list \<Rightarrow> nat \<Rightarrow> 'a option" where
  "nth_opt xs i = (if i < length xs then Some (xs ! i) else None)"

lemma nth_opt_Some_iff: "nth_opt xs i = Some x \<longleftrightarrow> i < length xs \<and> xs ! i = x"
  by (auto simp: nth_opt_def)

lemma nth_opt_in [simp]: "i < length xs \<Longrightarrow> nth_opt xs i = Some (xs ! i)"
  by (simp add: nth_opt_def)

lemma nth_opt_None_iff [simp]: "nth_opt xs i = None \<longleftrightarrow> length xs \<le> i"
  by (simp add: nth_opt_def)

definition checked_mod :: "nat \<Rightarrow> nat \<Rightarrow> nat option" where
  "checked_mod a b = (if b = 0 then None else Some (a mod b))"

lemma checked_mod_pos [simp]: "0 < b \<Longrightarrow> checked_mod a b = Some (a mod b)"
  by (simp add: checked_mod_def)

subsection \<open>Options and lists\<close>

lemma option_bind_Some_iff:
  "Option.bind m f = Some y \<longleftrightarrow> (\<exists>x. m = Some x \<and> f x = Some y)"
  by (cases m) auto

lemma last_in_set_ne: "xs \<noteq> [] \<Longrightarrow> last xs \<in> set xs"
  by simp

lemma set_butlast_distinct: "xs \<noteq> [] \<Longrightarrow> distinct xs \<Longrightarrow> set (butlast xs) = set xs - {last xs}"
  by (induction xs rule: rev_induct) auto

end
