(* ===== verification/Whp_Types.thy ===== *)
theory Whp_Types
  imports Voodoo_Prelude
begin

text \<open>
  The data of HolePunch's system core (\<open>WASMHolePunch/src/system/core.cc\<close> and
  \<open>include/whp/c/types.h\<close>): result codes, signals, messages, pipes, traps, data pipes,
  shared buffers, the handle table and the process-wide \<open>Core\<close>.

  A \<open>std::shared_ptr\<close> that two handles really share (the \<open>PipeState\<close> of the two ends
  of a message pipe, the \<open>DataPipeState\<close> of a producer and a consumer, a duplicated
  \<open>SharedBufferObj\<close>) is an index into a store kept in \<open>Core\<close> (\<open>pipe_heap\<close>,
  \<open>data_heap\<close>, \<open>buf_heap\<close>); an object with one owner at a time (a message, a trap, a
  platform handle) is a value held by its owner.  A function pointer is the number of a
  function, \<open>None\<close> for a null pointer.  Handles are natural numbers; \<open>Alloc\<close> truncates
  to 32 bits where the source casts.
\<close>

type_synonym WhpHandle = nat
type_synonym WhpHandleSignals = "32 word"
type_synonym fnptr = "nat option"
type_synonym uintptr = nat

datatype WhpResult =
    WHP_RESULT_OK | WHP_RESULT_CANCELLED | WHP_RESULT_UNKNOWN
  | WHP_RESULT_INVALID_ARGUMENT | WHP_RESULT_DEADLINE_EXCEEDED | WHP_RESULT_NOT_FOUND
  | WHP_RESULT_ALREADY_EXISTS | WHP_RESULT_PERMISSION_DENIED
  | WHP_RESULT_RESOURCE_EXHAUSTED | WHP_RESULT_FAILED_PRECONDITION | WHP_RESULT_ABORTED
  | WHP_RESULT_OUT_OF_RANGE | WHP_RESULT_UNIMPLEMENTED | WHP_RESULT_INTERNAL
  | WHP_RESULT_UNAVAILABLE | WHP_RESULT_DATA_LOSS | WHP_RESULT_BUSY
  | WHP_RESULT_SHOULD_WAIT

subsection \<open>Signals\<close>

definition SIGNAL_READABLE :: WhpHandleSignals where "SIGNAL_READABLE = 1"

definition SIGNAL_WRITABLE :: WhpHandleSignals where "SIGNAL_WRITABLE = 2"

definition SIGNAL_PEER_CLOSED :: WhpHandleSignals where "SIGNAL_PEER_CLOSED = 4"

lemmas signal_defs = SIGNAL_READABLE_def SIGNAL_WRITABLE_def SIGNAL_PEER_CLOSED_def

record WhpHandleSignalsState =
  satisfied_signals :: WhpHandleSignals
  satisfiable_signals :: WhpHandleSignals

definition no_signals :: WhpHandleSignalsState where
  "no_signals = \<lparr>satisfied_signals = 0, satisfiable_signals = 0\<rparr>"

datatype TriggerCondition = SIGNALS_SATISFIED | SIGNALS_UNSATISFIABLE

subsection \<open>Handle kinds and objects\<close>

datatype HandleKind =
    KFree | KMessagePipe | KMessage | KTrap | KDataPipeProducer | KDataPipeConsumer
  | KSharedBuffer | KPlatform

datatype PlatformHandleType =
    PLATFORM_INVALID | PLATFORM_FILE_DESCRIPTOR | PLATFORM_WINDOWS_HANDLE
  | PLATFORM_MACH_PORT

record PlatformObj =
  plat_type :: PlatformHandleType
  plat_value :: nat
  plat_owned :: bool

record MessageObj =
  msg_bytes :: "byte list"
  msg_handles :: "WhpHandle list"
  msg_committed :: bool
  msg_context :: uintptr
  msg_serializer :: fnptr
  msg_destructor :: fnptr

definition new_message :: MessageObj where
  "new_message = \<lparr>msg_bytes = [], msg_handles = [], msg_committed = False,
     msg_context = 0, msg_serializer = None, msg_destructor = None\<rparr>"

record PipeEnd =
  pe_state :: nat
  pe_end :: nat

text \<open>The two-element arrays \<open>queues\<close>, \<open>closed\<close>, \<open>quota_count\<close> and \<open>quota_bytes\<close> are
  functions of the end's number, 0 or 1.\<close>

record PipeState =
  queues :: "nat \<Rightarrow> MessageObj list"
  closed :: "nat \<Rightarrow> bool"
  quota_count :: "nat \<Rightarrow> nat"
  quota_bytes :: "nat \<Rightarrow> nat"

definition new_pipe :: PipeState where
  "new_pipe = \<lparr>queues = (\<lambda>_. []), closed = (\<lambda>_. False),
     quota_count = (\<lambda>_. 2 ^ 64 - 1), quota_bytes = (\<lambda>_. 2 ^ 64 - 1)\<rparr>"

text \<open>\<open>QueueBytes\<close> adds the sizes in a \<open>uint64_t\<close>.\<close>

fun QueueBytes :: "MessageObj list \<Rightarrow> nat" where
  "QueueBytes q = fold (\<lambda>m n. add64 n (length (msg_bytes m))) q 0"

record TrapTrigger =
  trig_watched :: WhpHandle
  trig_signals :: WhpHandleSignals
  trig_condition :: TriggerCondition
  trig_context :: uintptr

record TrapObj =
  trap_handler :: fnptr
  trap_triggers :: "TrapTrigger list"
  trap_armed :: bool

record WhpTrapEvent =
  ev_trigger_context :: uintptr
  ev_result :: WhpResult
  ev_signals_state :: WhpHandleSignalsState

record PendingEvent =
  pend_handler :: nat
  pend_event :: WhpTrapEvent

record DataPipeState =
  element_size :: nat
  capacity :: nat
  buf :: "byte list"
  rpos :: nat
  wpos :: nat
  available :: nat
  producer_closed :: bool
  consumer_closed :: bool
  two_phase_write :: "nat option"
  two_phase_write_max :: nat
  two_phase_read :: "nat option"
  two_phase_read_max :: nat

record DataPipeEnd =
  de_state :: nat
  de_producer :: bool

datatype AccessMode = ACCESS_UNSAFE | ACCESS_READ_ONLY | ACCESS_WRITABLE

record SharedBufferObj =
  sb_bytes :: "byte list"
  sb_size :: nat
  sb_plat :: "(PlatformHandleType \<times> nat) list"
  sb_plat_owns :: bool
  sb_guid_high :: nat
  sb_guid_low :: nat
  sb_access_mode :: AccessMode
  sb_os_base :: "nat option"
  sb_os_mapped_size :: nat

text \<open>The pointee of a slot's \<open>std::shared_ptr<void>\<close>; the slot's kind says which
  \<open>static_cast\<close> the code applies to it.\<close>

datatype Obj =
    NullObj
  | OPipeEnd PipeEnd
  | OMessage MessageObj
  | OTrap TrapObj
  | ODataPipeEnd DataPipeEnd
  | OSharedBuffer nat
  | OPlatform PlatformObj

record Slot =
  sl_kind :: HandleKind
  sl_obj :: Obj

definition free_slot :: Slot where
  "free_slot = \<lparr>sl_kind = KFree, sl_obj = NullObj\<rparr>"

text \<open>An address handed out by \<open>WhpMapBuffer\<close>: inside a buffer's own bytes, or inside the
  view the operating system mapped.\<close>

datatype Address = BytesAddr nat nat | OsAddr nat

record MappedRegion =
  mr_buf :: nat
  mr_refs :: nat

record Core =
  slots :: "Slot list"
  free_list :: "WhpHandle list"
  traps :: "WhpHandle list"
  maps :: "(Address \<times> MappedRegion) list"
  inited :: bool
  pending_events :: "PendingEvent list"
  pipe_heap :: "PipeState list"
  data_heap :: "DataPipeState list"
  buf_heap :: "SharedBufferObj list"
  native_closed :: "(PlatformHandleType \<times> nat) list"

text \<open>\<open>Core::Core()\<close>: one slot, never used.\<close>

definition initial_core :: Core where
  "initial_core = \<lparr>slots = [free_slot], free_list = [], traps = [], maps = [],
     inited = False, pending_events = [], pipe_heap = [], data_heap = [], buf_heap = [],
     native_closed = []\<rparr>"

subsection \<open>Downcasts\<close>

fun as_pipe_end :: "Obj \<Rightarrow> PipeEnd option" where
  "as_pipe_end (OPipeEnd e) = Some e"
| "as_pipe_end _ = None"

fun as_message :: "Obj \<Rightarrow> MessageObj option" where
  "as_message (OMessage m) = Some m"
| "as_message _ = None"

fun as_trap :: "Obj \<Rightarrow> TrapObj option" where
  "as_trap (OTrap t) = Some t"
| "as_trap _ = None"

fun as_data_end :: "Obj \<Rightarrow> DataPipeEnd option" where
  "as_data_end (ODataPipeEnd e) = Some e"
| "as_data_end _ = None"

fun as_buffer :: "Obj \<Rightarrow> nat option" where
  "as_buffer (OSharedBuffer b) = Some b"
| "as_buffer _ = None"

fun as_platform :: "Obj \<Rightarrow> PlatformObj option" where
  "as_platform (OPlatform p) = Some p"
| "as_platform _ = None"

lemma as_obj_Some_iff [simp]:
  "as_pipe_end ob = Some e \<longleftrightarrow> ob = OPipeEnd e"
  "as_message ob = Some m \<longleftrightarrow> ob = OMessage m"
  "as_trap ob = Some t \<longleftrightarrow> ob = OTrap t"
  "as_data_end ob = Some d \<longleftrightarrow> ob = ODataPipeEnd d"
  "as_buffer ob = Some b \<longleftrightarrow> ob = OSharedBuffer b"
  "as_platform ob = Some p \<longleftrightarrow> ob = OPlatform p"
  by (cases ob; auto)+

lemma QueueBytes_Nil [simp]: "QueueBytes [] = 0"
  by simp

lemma QueueBytes_snoc: "QueueBytes (q @ [m]) = add64 (QueueBytes q) (length (msg_bytes m))"
  by simp

end
