(* ===== verification/Handle_Table.thy ===== *)
theory Handle_Table
  imports Voodoo_Prelude
begin

text \<open>
  The contract shared by the tables of this code base that hand out small integers for
  objects: HolePunch's handle table and SafeSpace's pointer tables.  A client allocates an
  entry, looks it up by its handle and frees it; it relies on the handle being fresh and
  non-zero, on other handles keeping their meaning, and on a freed handle meaning nothing.
\<close>

locale handle_table =
  fixes inv :: "'t \<Rightarrow> bool"
    and room :: "'t \<Rightarrow> bool"
    and lookup :: "'t \<Rightarrow> nat \<Rightarrow> 'o option"
    and alloc :: "'o \<Rightarrow> 't \<Rightarrow> (nat \<times> 't) option"
    and free :: "nat \<Rightarrow> 't \<Rightarrow> 't option"
    and valid :: "'o \<Rightarrow> bool"
  assumes alloc_ok: "inv t \<Longrightarrow> room t \<Longrightarrow> valid x \<Longrightarrow>
      \<exists>h t'. alloc x t = Some (h, t') \<and> h \<noteq> 0 \<and> lookup t h = None \<and> inv t' \<and>
             lookup t' = (lookup t)(h \<mapsto> x)"
    and free_ok: "inv t \<Longrightarrow> lookup t h = Some x \<Longrightarrow>
      \<exists>t'. free h t = Some t' \<and> inv t' \<and> lookup t' = (lookup t)(h := None)"
    and null_handle: "inv t \<Longrightarrow> lookup t 0 = None"
begin

lemma alloc_fresh:
  assumes "inv t" "room t" "valid x" "alloc x t = Some (h, t')"
  shows "h \<noteq> 0 \<and> lookup t h = None \<and> inv t' \<and> lookup t' = (lookup t)(h \<mapsto> x)"
  using alloc_ok [OF assms(1-3)] assms(4) by auto

lemma free_effect:
  assumes "inv t" "lookup t h = Some x" "free h t = Some t'"
  shows "inv t' \<and> lookup t' = (lookup t)(h := None)"
  using free_ok [OF assms(1,2)] assms(3) by auto

text \<open>Freeing what was just allocated restores every lookup.\<close>

lemma alloc_free_id:
  assumes "inv t" "room t" "valid x" "alloc x t = Some (h, t')"
  shows "\<exists>t''. free h t' = Some t'' \<and> inv t'' \<and> lookup t'' = lookup t"
proof -
  from alloc_fresh [OF assms] have new: "lookup t h = None" "inv t'" "lookup t' = (lookup t)(h \<mapsto> x)"
    by auto
  then have "lookup t' h = Some x" by simp
  from free_ok [OF new(2) this] obtain t'' where
    "free h t' = Some t''" "inv t''" "lookup t'' = (lookup t')(h := None)" by auto
  with new show ?thesis by (auto simp: fun_upd_idem)
qed

text \<open>Two allocations in a row never return the same handle.\<close>

lemma alloc_twice_distinct:
  assumes "inv t" "room t" "valid x" "alloc x t = Some (h, t')"
    and "room t'" "valid y" "alloc y t' = Some (k, t'')"
  shows "h \<noteq> k \<and> lookup t'' h = Some x \<and> lookup t'' k = Some y"
proof -
  from alloc_fresh [OF assms(1-4)] have a: "inv t'" "lookup t' = (lookup t)(h \<mapsto> x)"
    by auto
  from alloc_fresh [OF a(1) assms(5-7)] have b: "lookup t' k = None"
    "lookup t'' = (lookup t')(k \<mapsto> y)" by auto
  from a b show ?thesis by auto
qed

end

end
