(* ===== verification/Whp_Handles.thy ===== *)
theory Whp_Handles
  imports Whp_Types Handle_Table
begin

text \<open>
  The handle table of \<open>Core\<close>: \<open>Alloc\<close>, \<open>Lookup\<close> and \<open>Free\<close>.  The invariant
  \<open>table_inv\<close> says that slot 0 is never used, that the free list holds exactly the free
  slots and each of them once, and that a free slot holds no object.  Under it the table
  satisfies the contract \<open>handle_table\<close>.
\<close>

subsection \<open>Operations\<close>

definition Lookup :: "Core \<Rightarrow> WhpHandle \<Rightarrow> Slot option" where
  "Lookup c h =
     (if h = 0 \<or> length (slots c) \<le> h \<or> sl_kind (slots c ! h) = KFree then None
      else Some (slots c ! h))"

definition Alloc :: "HandleKind \<Rightarrow> Obj \<Rightarrow> Core \<Rightarrow> (WhpHandle \<times> Core) option" where
  "Alloc kind ob c =
     (if free_list c \<noteq> []
      then (let h = last (free_list c)
            in if h < length (slots c)
               then Some (h, c\<lparr>free_list := butlast (free_list c),
                               slots := (slots c)[h := \<lparr>sl_kind = kind, sl_obj = ob\<rparr>]\<rparr>)
               else None)
      else Some (u32 (length (slots c)),
                 c\<lparr>slots := slots c @ [\<lparr>sl_kind = kind, sl_obj = ob\<rparr>]\<rparr>))"

definition Free :: "WhpHandle \<Rightarrow> Core \<Rightarrow> Core" where
  "Free h c =
     (if h = 0 \<or> length (slots c) \<le> h then c
      else c\<lparr>slots := (slots c)[h := free_slot], free_list := free_list c @ [h]\<rparr>)"

text \<open>Writing through the pointer \<open>Lookup\<close> returned: \<open>slot->obj\<close> changes in place.\<close>

definition set_obj :: "WhpHandle \<Rightarrow> Obj \<Rightarrow> Core \<Rightarrow> Core" where
  "set_obj h ob c = c\<lparr>slots := (slots c)[h := (slots c ! h)\<lparr>sl_obj := ob\<rparr>]\<rparr>"

definition table_inv :: "Core \<Rightarrow> bool" where
  "table_inv c \<longleftrightarrow>
     slots c \<noteq> [] \<and> slots c ! 0 = free_slot \<and>
     (\<forall>h < length (slots c). sl_kind (slots c ! h) = KFree \<longrightarrow> slots c ! h = free_slot) \<and>
     distinct (free_list c) \<and>
     set (free_list c) = {h. 0 < h \<and> h < length (slots c) \<and> sl_kind (slots c ! h) = KFree}"

text \<open>The table can still grow by \<open>n\<close> entries without \<open>slots.size()\<close> leaving 32 bits.\<close>

definition handle_room :: "nat \<Rightarrow> Core \<Rightarrow> bool" where
  "handle_room n c \<longleftrightarrow> length (slots c) + n < 2 ^ 32"

subsection \<open>What the operations do to lookups\<close>

lemma free_slot_sel [simp]: "sl_kind free_slot = KFree" "sl_obj free_slot = NullObj"
  by (simp_all add: free_slot_def)

lemma table_invI:
  assumes "slots c \<noteq> []" "slots c ! 0 = free_slot"
    and "\<And>h. h < length (slots c) \<Longrightarrow> sl_kind (slots c ! h) = KFree \<Longrightarrow> slots c ! h = free_slot"
    and "distinct (free_list c)"
    and "\<And>h. h \<in> set (free_list c) \<longleftrightarrow>
      0 < h \<and> h < length (slots c) \<and> sl_kind (slots c ! h) = KFree"
  shows "table_inv c"
  using assms unfolding table_inv_def by blast

lemma table_inv_initial [simp]: "table_inv initial_core"
  by (auto simp: table_inv_def initial_core_def free_slot_def)

lemma Lookup_0 [simp]: "Lookup c 0 = None"
  by (simp add: Lookup_def)

lemma Lookup_Some_iff:
  "Lookup c h = Some s \<longleftrightarrow>
     0 < h \<and> h < length (slots c) \<and> slots c ! h = s \<and> sl_kind s \<noteq> KFree"
  by (auto simp: Lookup_def)

lemma Lookup_kind: "Lookup c h = Some s \<Longrightarrow> sl_kind s \<noteq> KFree"
  by (simp add: Lookup_Some_iff)

lemma Lookup_Free:
  assumes "table_inv c" "Lookup c h = Some s"
  shows "Lookup (Free h c) = (Lookup c)(h := None)"
  using assms by (auto simp: fun_eq_iff Lookup_def Free_def free_slot_def nth_list_update)

lemma table_inv_Free:
  assumes "table_inv c" "Lookup c h = Some s"
  shows "table_inv (Free h c)"
proof -
  from assms(2) have h: "0 < h" "h < length (slots c)" "sl_kind (slots c ! h) \<noteq> KFree"
    by (auto simp: Lookup_Some_iff)
  have eq: "slots (Free h c) = (slots c)[h := free_slot]"
    "free_list (Free h c) = free_list c @ [h]"
    using h by (simp_all add: Free_def)
  show ?thesis
  proof (rule table_invI)
    show "distinct (free_list (Free h c))"
      using assms(1) h by (simp add: eq table_inv_def)
  qed (use assms(1) h in \<open>auto simp: eq table_inv_def nth_list_update\<close>)
qed

lemma set_obj_Lookup:
  assumes "Lookup c h = Some s"
  shows "Lookup (set_obj h ob c) = (Lookup c)(h \<mapsto> s\<lparr>sl_obj := ob\<rparr>)"
  using assms by (auto simp: fun_eq_iff Lookup_def set_obj_def nth_list_update split: if_splits)

lemma table_inv_set_obj:
  assumes "table_inv c" "Lookup c h = Some s"
  shows "table_inv (set_obj h ob c)"
proof -
  from assms(2) have h: "0 < h" "h < length (slots c)" "sl_kind (slots c ! h) \<noteq> KFree"
    by (auto simp: Lookup_Some_iff)
  with assms(1) show ?thesis
    by (intro table_invI) (auto simp: table_inv_def set_obj_def nth_list_update)
qed

lemma Alloc_ok:
  assumes inv: "table_inv c" and room: "handle_room 0 c" and kind: "kind \<noteq> KFree"
  obtains h c' where "Alloc kind ob c = Some (h, c')" "h \<noteq> 0" "Lookup c h = None"
    "table_inv c'" "Lookup c' = (Lookup c)(h \<mapsto> \<lparr>sl_kind = kind, sl_obj = ob\<rparr>)"
    "length (slots c') \<le> Suc (length (slots c))"
    "\<exists>sl fl. c' = c\<lparr>slots := sl, free_list := fl\<rparr>"
proof (cases "free_list c = []")
  case True
  let ?n = "length (slots c)"
  let ?c = "c\<lparr>slots := slots c @ [\<lparr>sl_kind = kind, sl_obj = ob\<rparr>]\<rparr>"
  have n: "u32 ?n = ?n" using room by (simp add: handle_room_def wrap_simps)
  have "Alloc kind ob c = Some (?n, ?c)" using True n by (simp add: Alloc_def)
  moreover have "?n \<noteq> 0" using inv by (simp add: table_inv_def)
  moreover have "Lookup c ?n = None" by (simp add: Lookup_def)
  moreover have "table_inv ?c"
    using inv True kind
    by (intro table_invI) (auto simp: table_inv_def nth_append less_Suc_eq)
  moreover have "Lookup ?c = (Lookup c)(?n \<mapsto> \<lparr>sl_kind = kind, sl_obj = ob\<rparr>)"
    using kind inv by (auto simp: fun_eq_iff Lookup_def nth_append table_inv_def)
  moreover have "\<exists>sl fl. ?c = c\<lparr>slots := sl, free_list := fl\<rparr>"
    by (intro exI [of _ "slots ?c"] exI [of _ "free_list c"]) simp
  ultimately show ?thesis by (intro that [of ?n ?c]) simp_all
next
  case False
  define h where "h = last (free_list c)"
  let ?s = "\<lparr>sl_kind = kind, sl_obj = ob\<rparr>"
  define fl where "fl = butlast (free_list c)"
  let ?c = "c\<lparr>free_list := fl, slots := (slots c)[h := ?s]\<rparr>"
  have free: "\<And>k. k \<in> set (free_list c) \<longleftrightarrow>
      0 < k \<and> k < length (slots c) \<and> sl_kind (slots c ! k) = KFree"
    using inv by (auto simp: table_inv_def)
  have base: "slots c ! 0 = free_slot"
    "\<And>k. k < length (slots c) \<Longrightarrow> sl_kind (slots c ! k) = KFree \<Longrightarrow> slots c ! k = free_slot"
    using inv by (auto simp: table_inv_def)
  have "h \<in> set (free_list c)" using False by (simp add: h_def)
  then have h: "0 < h" "h < length (slots c)" "sl_kind (slots c ! h) = KFree"
    using free by simp_all
  have fl: "set fl = set (free_list c) - {h}" and dist: "distinct fl"
    using inv False
    by (simp_all add: table_inv_def set_butlast_distinct distinct_butlast fl_def h_def)
  have "Alloc kind ob c = Some (h, ?c)"
    using False h by (simp add: Alloc_def Let_def h_def fl_def)
  moreover have "h \<noteq> 0" using h by simp
  moreover have "Lookup c h = None" using h by (simp add: Lookup_def)
  moreover have "table_inv ?c"
  proof (rule table_invI)
    show "\<And>k. k \<in> set (free_list ?c) \<longleftrightarrow>
        0 < k \<and> k < length (slots ?c) \<and> sl_kind (slots ?c ! k) = KFree"
      using kind h by (auto simp: fl free nth_list_update)
    show "slots ?c \<noteq> []" using h by auto
    show "slots ?c ! 0 = free_slot" using base(1) h by simp
    show "\<And>k. k < length (slots ?c) \<Longrightarrow> sl_kind (slots ?c ! k) = KFree \<Longrightarrow> slots ?c ! k = free_slot"
      using base(2) kind h(2) by (simp add: nth_list_update split: if_splits)
    show "distinct (free_list ?c)" using dist by simp
  qed
  moreover have "Lookup ?c = (Lookup c)(h \<mapsto> ?s)"
    using h kind by (auto simp: fun_eq_iff Lookup_def nth_list_update)
  moreover have "\<exists>sl fl. ?c = c\<lparr>slots := sl, free_list := fl\<rparr>"
    by (intro exI [of _ "slots ?c"] exI [of _ "free_list ?c"]) simp
  ultimately show ?thesis by (intro that [of h ?c]) simp_all
qed

lemma slot_eta: "\<lparr>sl_kind = sl_kind (s :: Slot), sl_obj = sl_obj s\<rparr> = s"
  by (cases s) simp

text \<open>The handle table keeps the contract of the shared interface.\<close>

interpretation whp: handle_table
  table_inv "handle_room 0" Lookup
  "\<lambda>s c. Alloc (sl_kind s) (sl_obj s) c" "\<lambda>h c. Some (Free h c)"
  "\<lambda>s. sl_kind s \<noteq> KFree"
proof unfold_locales
  fix t :: Core and x :: Slot
  assume a: "table_inv t" "handle_room 0 t" "sl_kind x \<noteq> KFree"
  obtain h c' where "Alloc (sl_kind x) (sl_obj x) t = Some (h, c')" "h \<noteq> 0" "Lookup t h = None"
    "table_inv c'" "Lookup c' = (Lookup t)(h \<mapsto> \<lparr>sl_kind = sl_kind x, sl_obj = sl_obj x\<rparr>)"
    by (rule Alloc_ok [OF a])
  then show "\<exists>h t'. Alloc (sl_kind x) (sl_obj x) t = Some (h, t') \<and> h \<noteq> 0 \<and>
      Lookup t h = None \<and> table_inv t' \<and> Lookup t' = (Lookup t)(h \<mapsto> x)"
    by (intro exI [of _ h] exI [of _ c']) (simp add: slot_eta)
qed (auto simp: Lookup_Free table_inv_Free)

end
