(* ===== verification/Whp_Signals.thy ===== *)
theory Whp_Signals
  imports Whp_Handles
begin

text \<open>
  Signal states of handles and the collection of trap events (\<open>PipeSignals\<close>,
  \<open>DataPipeSignals\<close>, \<open>SignalsMatch\<close>, \<open>QueryLocked\<close> and \<open>CollectTrapEvents\<close> of
  \<open>core.cc\<close>).  \<open>None\<close> is undefined behaviour: a downcast to the wrong type or a
  dangling state.
\<close>

definition PipeSignals :: "PipeState \<Rightarrow> nat \<Rightarrow> WhpHandleSignalsState" where
  "PipeSignals ps me =
     (let peer = 1 - me;
          peer_closed = closed ps peer;
          have_msg = queues ps me \<noteq> [];
          sat0 = (if have_msg then SIGNAL_READABLE else 0)
      in if \<not> peer_closed
         then \<lparr>satisfied_signals = sat0 OR SIGNAL_WRITABLE,
               satisfiable_signals = SIGNAL_WRITABLE OR SIGNAL_READABLE OR SIGNAL_PEER_CLOSED\<rparr>
         else \<lparr>satisfied_signals = sat0 OR SIGNAL_PEER_CLOSED,
               satisfiable_signals =
                 SIGNAL_PEER_CLOSED OR (if have_msg then SIGNAL_READABLE else 0)\<rparr>)"

definition DataPipeSignals :: "DataPipeState \<Rightarrow> bool \<Rightarrow> WhpHandleSignalsState" where
  "DataPipeSignals s producer =
     (if producer
      then \<lparr>satisfied_signals =
              (if \<not> consumer_closed s \<and> available s < capacity s then SIGNAL_WRITABLE else 0) OR
              (if \<not> consumer_closed s then 0 else SIGNAL_PEER_CLOSED),
            satisfiable_signals =
              (if \<not> consumer_closed s then SIGNAL_WRITABLE OR SIGNAL_PEER_CLOSED
               else SIGNAL_PEER_CLOSED)\<rparr>
      else \<lparr>satisfied_signals =
              (if 0 < available s then SIGNAL_READABLE else 0) OR
              (if \<not> producer_closed s then 0 else SIGNAL_PEER_CLOSED),
            satisfiable_signals =
              (if \<not> producer_closed s then SIGNAL_READABLE OR SIGNAL_PEER_CLOSED
               else SIGNAL_PEER_CLOSED OR (if 0 < available s then SIGNAL_READABLE else 0))\<rparr>)"

definition SignalsMatch :: "WhpHandleSignalsState \<Rightarrow> WhpHandleSignals \<Rightarrow> TriggerCondition \<Rightarrow> bool" where
  "SignalsMatch st want condition =
     (if condition = SIGNALS_UNSATISFIABLE then satisfiable_signals st AND want = 0
      else satisfied_signals st AND want = want)"

definition QueryLocked :: "Core \<Rightarrow> WhpHandle \<Rightarrow> WhpHandleSignalsState option" where
  "QueryLocked c h =
     (case Lookup c h of
        None \<Rightarrow> Some no_signals
      | Some s \<Rightarrow>
          (if sl_kind s = KMessagePipe then do {
             e \<leftarrow> as_pipe_end (sl_obj s);
             ps \<leftarrow> nth_opt (pipe_heap c) (pe_state e);
             Some (PipeSignals ps (pe_end e)) }
           else if sl_kind s = KDataPipeProducer \<or> sl_kind s = KDataPipeConsumer then do {
             e \<leftarrow> as_data_end (sl_obj s);
             ds \<leftarrow> nth_opt (data_heap c) (de_state e);
             Some (DataPipeSignals ds (de_producer e)) }
           else Some no_signals))"

text \<open>The inner loop of \<open>CollectTrapEvents\<close>: the first trigger, in order of addition, whose
  condition holds of its watched handle.\<close>

fun first_match :: "Core \<Rightarrow> TrapTrigger list \<Rightarrow> (TrapTrigger \<times> WhpHandleSignalsState) option option" where
  "first_match c [] = Some None"
| "first_match c (tr # trs) = do {
     st \<leftarrow> QueryLocked c (trig_watched tr);
     if SignalsMatch st (trig_signals tr) (trig_condition tr) then Some (Some (tr, st))
     else first_match c trs }"

definition trap_event :: "TrapTrigger \<Rightarrow> WhpHandleSignalsState \<Rightarrow> WhpTrapEvent" where
  "trap_event tr st =
     \<lparr>ev_trigger_context = trig_context tr,
      ev_result =
        (if trig_condition tr = SIGNALS_UNSATISFIABLE \<or>
            satisfiable_signals st AND trig_signals tr = 0
         then WHP_RESULT_FAILED_PRECONDITION else WHP_RESULT_OK),
      ev_signals_state = st\<rparr>"

text \<open>One iteration of the outer loop: disarm the trap and queue its event.\<close>

definition collect_trap :: "WhpHandle \<Rightarrow> Core \<Rightarrow> Core option" where
  "collect_trap th c =
     (case Lookup c th of
        None \<Rightarrow> Some c
      | Some s \<Rightarrow>
          if sl_kind s \<noteq> KTrap then Some c
          else do {
            t \<leftarrow> as_trap (sl_obj s);
            (case trap_handler t of
               None \<Rightarrow> Some c
             | Some f \<Rightarrow>
                 if \<not> trap_armed t then Some c
                 else do {
                   m \<leftarrow> first_match c (trap_triggers t);
                   (case m of
                      None \<Rightarrow> Some c
                    | Some (tr, st) \<Rightarrow>
                        Some ((set_obj th (OTrap (t\<lparr>trap_armed := False\<rparr>)) c)
                          \<lparr>pending_events := pending_events c @
                             [\<lparr>pend_handler = f, pend_event = trap_event tr st\<rparr>]\<rparr>)) }) })"

fun collect_traps :: "WhpHandle list \<Rightarrow> Core \<Rightarrow> Core option" where
  "collect_traps [] c = Some c"
| "collect_traps (th # ths) c = do { c' \<leftarrow> collect_trap th c; collect_traps ths c' }"

definition CollectTrapEvents :: "Core \<Rightarrow> Core option" where
  "CollectTrapEvents c = collect_traps (traps c) c"

subsection \<open>Signals of a message pipe end\<close>

lemma PipeSignals_readable:
  "satisfied_signals (PipeSignals ps e) AND SIGNAL_READABLE \<noteq> 0 \<longleftrightarrow> queues ps e \<noteq> []"
  by (auto simp: PipeSignals_def Let_def signal_defs)

lemma PipeSignals_writable:
  "satisfied_signals (PipeSignals ps e) AND SIGNAL_WRITABLE \<noteq> 0 \<longleftrightarrow> \<not> closed ps (1 - e)"
  by (auto simp: PipeSignals_def Let_def signal_defs)

lemma PipeSignals_peer_closed:
  "satisfied_signals (PipeSignals ps e) AND SIGNAL_PEER_CLOSED \<noteq> 0 \<longleftrightarrow> closed ps (1 - e)"
  by (auto simp: PipeSignals_def Let_def signal_defs)

lemma PipeSignals_satisfiable:
  "satisfied_signals (PipeSignals ps e) AND satisfiable_signals (PipeSignals ps e) =
   satisfied_signals (PipeSignals ps e)"
  by (auto simp: PipeSignals_def Let_def signal_defs)

lemma DataPipeSignals_satisfiable:
  "satisfied_signals (DataPipeSignals s p) AND satisfiable_signals (DataPipeSignals s p) =
   satisfied_signals (DataPipeSignals s p)"
  by (auto simp: DataPipeSignals_def Let_def signal_defs)

end
