(* ===== verification/Fifo_Channel.thy ===== *)
theory Fifo_Channel
  imports Voodoo_Prelude
begin

text \<open>
  The contract of a first-in-first-out channel, which both HolePunch's data pipes (of bytes)
  and its message pipes (of messages) promise: what \<open>get\<close> returns is a prefix of the
  contents, what \<open>put\<close> accepts is appended to them.  From the two laws follows the
  property of whole sessions: nothing is lost, duplicated or reordered, whatever the
  interleaving of the two ends.
\<close>

datatype 'a channel_op = Put "'a list" | Get nat

text \<open>A session: the elements accepted, the elements delivered, and the final state.\<close>

fun session :: "('a list \<Rightarrow> 's \<Rightarrow> (nat \<times> 's) option) \<Rightarrow> (nat \<Rightarrow> 's \<Rightarrow> ('a list \<times> 's) option) \<Rightarrow>
    'a channel_op list \<Rightarrow> 's \<Rightarrow> ('a list \<times> 'a list \<times> 's) option" where
  "session put get [] s = Some ([], [], s)"
| "session put get (Put xs # ops) s = do {
     (n, s1) \<leftarrow> put xs s;
     (acc, del, s2) \<leftarrow> session put get ops s1;
     Some (take n xs @ acc, del, s2) }"
| "session put get (Get n # ops) s = do {
     (ys, s1) \<leftarrow> get n s;
     (acc, del, s2) \<leftarrow> session put get ops s1;
     Some (acc, ys @ del, s2) }"

locale fifo_channel =
  fixes inv :: "'s \<Rightarrow> bool"
    and contents :: "'s \<Rightarrow> 'a list"
    and put :: "'a list \<Rightarrow> 's \<Rightarrow> (nat \<times> 's) option"
    and get :: "nat \<Rightarrow> 's \<Rightarrow> ('a list \<times> 's) option"
  assumes put_law: "inv s \<Longrightarrow>
      \<exists>n s'. put xs s = Some (n, s') \<and> n \<le> length xs \<and> inv s' \<and>
             contents s' = contents s @ take n xs"
    and get_law: "inv s \<Longrightarrow>
      \<exists>ys s'. get k s = Some (ys, s') \<and> length ys \<le> k \<and> inv s' \<and>
              contents s = ys @ contents s'"
begin

lemma session_total: "inv s \<Longrightarrow> \<exists>acc del s'. session put get ops s = Some (acc, del, s')"
proof (induction ops arbitrary: s)
  case Nil
  then show ?case by simp
next
  case (Cons oper ops)
  show ?case
  proof (cases oper)
    case (Put xs)
    obtain n s1 where "put xs s = Some (n, s1)" "inv s1" using put_law [OF Cons.prems] by blast
    moreover obtain r where "session put get ops s1 = Some r" using Cons.IH [OF \<open>inv s1\<close>] by blast
    ultimately show ?thesis using Put by (cases r) simp
  next
    case (Get k)
    obtain ys s1 where "get k s = Some (ys, s1)" "inv s1" using get_law [OF Cons.prems] by blast
    moreover obtain r where "session put get ops s1 = Some r" using Cons.IH [OF \<open>inv s1\<close>] by blast
    ultimately show ?thesis using Get by (cases r) simp
  qed
qed

lemma session_fifo:
  "inv s \<Longrightarrow> session put get ops s = Some (acc, del, s') \<Longrightarrow>
   inv s' \<and> contents s @ acc = del @ contents s'"
proof (induction ops arbitrary: s acc del)
  case Nil
  then show ?case by simp
next
  case (Cons oper ops)
  show ?case
  proof (cases oper)
    case (Put xs)
    obtain n s1 where p: "put xs s = Some (n, s1)" "inv s1"
      "contents s1 = contents s @ take n xs" using put_law [OF Cons.prems(1)] by blast
    with Cons.prems(2) Put obtain acc1 where
      "session put get ops s1 = Some (acc1, del, s')" "acc = take n xs @ acc1"
      by (auto simp: option_bind_Some_iff)
    with Cons.IH [OF p(2)] p(3) show ?thesis by auto
  next
    case (Get k)
    obtain ys s1 where g: "get k s = Some (ys, s1)" "inv s1" "contents s = ys @ contents s1"
      using get_law [OF Cons.prems(1)] by blast
    with Cons.prems(2) Get obtain del1 where
      "session put get ops s1 = Some (acc, del1, s')" "del = ys @ del1"
      by (auto simp: option_bind_Some_iff)
    with Cons.IH [OF g(2)] g(3) show ?thesis by auto
  qed
qed

end

end
