(* ===== verification/Data_Ring.thy ===== *)
theory Data_Ring
  imports Whp_Types Fifo_Channel
begin

text \<open>
  The ring buffer of a data pipe: what \<open>WhpWriteData\<close>, \<open>WhpReadData\<close> and the two-phase
  calls do to the shared \<open>DataPipeState\<close>, once the handle is resolved.  All counters are
  \<open>uint32_t\<close>; \<open>add32\<close> and \<open>sub32\<close> wrap.  \<open>None\<close> is undefined behaviour: a buffer
  index out of range, a modulus by zero, or a caller's array shorter than the count it
  passed.
\<close>

subsection \<open>Operations\<close>

definition new_data_pipe :: "(nat \<times> nat) option \<Rightarrow> DataPipeState" where
  "new_data_pipe options =
     (let es = (case options of Some (e, _) \<Rightarrow> if e \<noteq> 0 then e else 1 | None \<Rightarrow> 1);
          cap = (case options of Some (_, n) \<Rightarrow> if n \<noteq> 0 then n else 65536 | None \<Rightarrow> 65536)
      in \<lparr>element_size = es, capacity = cap, buf = replicate cap 0, rpos = 0, wpos = 0,
          available = 0, producer_closed = False, consumer_closed = False,
          two_phase_write = None, two_phase_write_max = 0,
          two_phase_read = None, two_phase_read_max = 0\<rparr>)"

text \<open>The copying loops.\<close>

fun ring_store :: "byte list \<Rightarrow> DataPipeState \<Rightarrow> DataPipeState option" where
  "ring_store [] s = Some s"
| "ring_store (x # xs) s =
     (if wpos s < length (buf s)
      then do {
        w' \<leftarrow> checked_mod (add32 (wpos s) 1) (capacity s);
        ring_store xs (s\<lparr>buf := (buf s)[wpos s := x], wpos := w'\<rparr>) }
      else None)"

fun ring_load :: "nat \<Rightarrow> DataPipeState \<Rightarrow> (byte list \<times> DataPipeState) option" where
  "ring_load 0 s = Some ([], s)"
| "ring_load (Suc n) s = do {
     x \<leftarrow> nth_opt (buf s) (rpos s);
     r' \<leftarrow> checked_mod (add32 (rpos s) 1) (capacity s);
     (xs, s') \<leftarrow> ring_load n (s\<lparr>rpos := r'\<rparr>);
     Some (x # xs, s') }"

text \<open>\<open>n -= n % element_size\<close>.\<close>

definition whole_elements :: "nat \<Rightarrow> DataPipeState \<Rightarrow> nat option" where
  "whole_elements n s = do { k \<leftarrow> checked_mod n (element_size s); Some (n - k) }"

text \<open>The result, the count written back to \<open>*num_bytes\<close>, and the state.\<close>

definition data_write :: "byte list \<Rightarrow> nat \<Rightarrow> DataPipeState \<Rightarrow> (WhpResult \<times> nat \<times> DataPipeState) option" where
  "data_write elements want s =
     (if consumer_closed s then Some (WHP_RESULT_FAILED_PRECONDITION, want, s)
      else do {
        odd \<leftarrow> checked_mod want (element_size s);
        if odd \<noteq> 0 then Some (WHP_RESULT_INVALID_ARGUMENT, want, s)
        else do {
          n \<leftarrow> whole_elements (min want (sub32 (capacity s) (available s))) s;
          if n = 0 then Some (WHP_RESULT_SHOULD_WAIT, 0, s)
          else if length elements < n then None
          else do {
            s' \<leftarrow> ring_store (take n elements) s;
            Some (WHP_RESULT_OK, n, s'\<lparr>available := add32 (available s) n\<rparr>) } } })"

definition data_read :: "nat \<Rightarrow> DataPipeState \<Rightarrow> (WhpResult \<times> nat \<times> byte list \<times> DataPipeState) option" where
  "data_read want s = do {
     odd \<leftarrow> checked_mod want (element_size s);
     if odd \<noteq> 0 then Some (WHP_RESULT_INVALID_ARGUMENT, want, [], s)
     else do {
       n \<leftarrow> whole_elements (min want (available s)) s;
       if n = 0 then
         Some (if producer_closed s then WHP_RESULT_FAILED_PRECONDITION
               else WHP_RESULT_SHOULD_WAIT, 0, [], s)
       else do {
         (xs, s') \<leftarrow> ring_load n s;
         Some (WHP_RESULT_OK, n, xs, s'\<lparr>available := sub32 (available s) n\<rparr>) } } }"

definition data_begin_write :: "nat \<Rightarrow> DataPipeState \<Rightarrow> (WhpResult \<times> nat \<times> DataPipeState) option" where
  "data_begin_write num_bytes s =
     (if two_phase_write s \<noteq> None then Some (WHP_RESULT_BUSY, num_bytes, s)
      else do {
        n \<leftarrow> whole_elements
               (min (min (sub32 (capacity s) (available s)) (sub32 (capacity s) (wpos s))) num_bytes) s;
        if n = 0 then Some (WHP_RESULT_SHOULD_WAIT, num_bytes, s)
        else Some (WHP_RESULT_OK, n,
                   s\<lparr>two_phase_write := Some (wpos s), two_phase_write_max := n\<rparr>) })"

definition data_end_write :: "nat \<Rightarrow> DataPipeState \<Rightarrow> (WhpResult \<times> DataPipeState) option" where
  "data_end_write n s =
     (if two_phase_write s = None then Some (WHP_RESULT_FAILED_PRECONDITION, s)
      else do {
        odd \<leftarrow> checked_mod n (element_size s);
        if two_phase_write_max s < n \<or> odd \<noteq> 0
        then Some (WHP_RESULT_INVALID_ARGUMENT, s\<lparr>two_phase_write := None\<rparr>)
        else do {
          w' \<leftarrow> checked_mod (add32 (wpos s) n) (capacity s);
          Some (WHP_RESULT_OK, s\<lparr>wpos := w', available := add32 (available s) n,
                                 two_phase_write := None\<rparr>) } })"

definition data_begin_read :: "nat \<Rightarrow> DataPipeState \<Rightarrow> (WhpResult \<times> nat \<times> DataPipeState) option" where
  "data_begin_read num_bytes s =
     (if two_phase_read s \<noteq> None then Some (WHP_RESULT_BUSY, num_bytes, s)
      else do {
        n \<leftarrow> whole_elements
               (min (min (available s) (sub32 (capacity s) (rpos s))) num_bytes) s;
        if n = 0 then
          Some (if producer_closed s then WHP_RESULT_FAILED_PRECONDITION
                else WHP_RESULT_SHOULD_WAIT, num_bytes, s)
        else Some (WHP_RESULT_OK, n,
                   s\<lparr>two_phase_read := Some (rpos s), two_phase_read_max := n\<rparr>) })"

definition data_end_read :: "nat \<Rightarrow> DataPipeState \<Rightarrow> (WhpResult \<times> DataPipeState) option" where
  "data_end_read n s =
     (if two_phase_read s = None then Some (WHP_RESULT_FAILED_PRECONDITION, s)
      else do {
        odd \<leftarrow> checked_mod n (element_size s);
        if two_phase_read_max s < n \<or> odd \<noteq> 0
        then Some (WHP_RESULT_INVALID_ARGUMENT, s\<lparr>two_phase_read := None\<rparr>)
        else do {
          r' \<leftarrow> checked_mod (add32 (rpos s) n) (capacity s);
          Some (WHP_RESULT_OK, s\<lparr>rpos := r', available := sub32 (available s) n,
                                 two_phase_read := None\<rparr>) } })"

text \<open>What the client does between \<open>WhpBeginWriteData\<close> and \<open>WhpEndWriteData\<close>: stores
  through the pointer it was given.\<close>

definition client_fill :: "nat \<Rightarrow> byte list \<Rightarrow> DataPipeState \<Rightarrow> DataPipeState" where
  "client_fill off xs s =
     s\<lparr>buf := take off (buf s) @ xs @ drop (off + length xs) (buf s)\<rparr>"

subsection \<open>Memory safety and the ring invariant\<close>

text \<open>A window handed out by a two-phase call lies inside the buffer.\<close>

definition window_ok :: "nat option \<Rightarrow> nat \<Rightarrow> nat \<Rightarrow> bool" where
  "window_ok win max_bytes cap = (case win of None \<Rightarrow> True | Some off \<Rightarrow> off + max_bytes \<le> cap)"

lemma window_ok_simps [simp]:
  "window_ok None n cap" "window_ok (Some off) n cap \<longleftrightarrow> off + n \<le> cap"
  by (simp_all add: window_ok_def)

definition ring_safe :: "DataPipeState \<Rightarrow> bool" where
  "ring_safe s \<longleftrightarrow> 0 < element_size s \<and> 0 < capacity s \<and> capacity s < 2 ^ 32 \<and>
     length (buf s) = capacity s \<and> rpos s < capacity s \<and> wpos s < capacity s \<and>
     available s < 2 ^ 32 \<and>
     window_ok (two_phase_write s) (two_phase_write_max s) (capacity s) \<and>
     window_ok (two_phase_read s) (two_phase_read_max s) (capacity s)"

definition ring_inv :: "DataPipeState \<Rightarrow> bool" where
  "ring_inv s \<longleftrightarrow> ring_safe s \<and> available s \<le> capacity s \<and>
     wpos s = (rpos s + available s) mod capacity s"

text \<open>The bytes written and not yet read, oldest first.\<close>

definition ring_contents :: "DataPipeState \<Rightarrow> byte list" where
  "ring_contents s = map (\<lambda>i. buf s ! ((rpos s + i) mod capacity s)) [0..<available s]"

lemma ring_safe_new [simp]:
  "(\<forall>e n. options = Some (e, n) \<longrightarrow> n < 2 ^ 32) \<Longrightarrow> ring_safe (new_data_pipe options)"
  by (auto simp: ring_safe_def new_data_pipe_def Let_def split: option.splits)

lemma ring_inv_new:
  "(\<forall>e n. options = Some (e, n) \<longrightarrow> n < 2 ^ 32) \<Longrightarrow>
   ring_inv (new_data_pipe options) \<and> ring_contents (new_data_pipe options) = []"
  by (auto simp: ring_inv_def ring_safe_def ring_contents_def new_data_pipe_def Let_def
      split: option.splits)

lemma ring_safe_step: "ring_safe s \<Longrightarrow> i < capacity s \<Longrightarrow>
    checked_mod (add32 i 1) (capacity s) = Some (Suc i mod capacity s)"
  by (simp add: ring_safe_def wrap_simps)

lemma whole_elements_safe: "ring_safe s \<Longrightarrow>
    whole_elements n s = Some (n - n mod element_size s)"
  by (simp add: whole_elements_def ring_safe_def)

text \<open>A store of at most the free space keeps the old contents and appends the new bytes.\<close>

lemma ring_store_spec:
  "ring_safe s \<Longrightarrow>
   \<exists>b. ring_store xs s = Some (s\<lparr>buf := b, wpos := (wpos s + length xs) mod capacity s\<rparr>) \<and>
       length b = capacity s \<and>
       (length xs \<le> capacity s \<longrightarrow>
          (\<forall>i < length xs. b ! ((wpos s + i) mod capacity s) = xs ! i) \<and>
          (\<forall>j < capacity s. (\<forall>i < length xs. j \<noteq> (wpos s + i) mod capacity s) \<longrightarrow> b ! j = buf s ! j))"
proof (induction xs arbitrary: s)
  case Nil
  then have "wpos s mod capacity s = wpos s" by (simp add: ring_safe_def)
  with Nil show ?case by (intro exI [of _ "buf s"]) (simp add: ring_safe_def)
next
  case (Cons x xs)
  let ?c = "capacity s"
  let ?s = "s\<lparr>buf := (buf s)[wpos s := x], wpos := Suc (wpos s) mod ?c\<rparr>"
  have safe: "ring_safe ?s" using Cons.prems by (simp add: ring_safe_def)
  have step: "ring_store (x # xs) s = ring_store xs ?s"
    using Cons.prems ring_safe_step [OF Cons.prems, of "wpos s"] by (simp add: ring_safe_def)
  have w: "wpos s < ?c" "length (buf s) = ?c" using Cons.prems by (simp_all add: ring_safe_def)
  have shift: "(Suc (wpos s) mod ?c + i) mod ?c = (wpos s + Suc i) mod ?c" for i
    by (simp add: mod_add_left_eq)
  obtain b where b: "ring_store xs ?s =
        Some (?s\<lparr>buf := b, wpos := (wpos ?s + length xs) mod capacity ?s\<rparr>)"
      "length b = capacity ?s"
      and bc: "length xs \<le> capacity ?s \<longrightarrow>
          (\<forall>i < length xs. b ! ((wpos ?s + i) mod capacity ?s) = xs ! i) \<and>
          (\<forall>j < capacity ?s. (\<forall>i < length xs. j \<noteq> (wpos ?s + i) mod capacity ?s) \<longrightarrow> b ! j = buf ?s ! j)"
    using Cons.IH [OF safe] by blast
  have r: "ring_store (x # xs) s = Some (s\<lparr>buf := b, wpos := (wpos s + length (x # xs)) mod ?c\<rparr>)"
    using b(1) by (simp add: step shift del: ring_store.simps)
  moreover have "(\<forall>i < length (x # xs). b ! ((wpos s + i) mod ?c) = (x # xs) ! i) \<and>
      (\<forall>j < ?c. (\<forall>i < length (x # xs). j \<noteq> (wpos s + i) mod ?c) \<longrightarrow> b ! j = buf s ! j)"
    if le: "length (x # xs) \<le> ?c"
  proof (intro conjI allI impI)
    have new: "\<And>i. i < length xs \<Longrightarrow> b ! ((wpos s + Suc i) mod ?c) = xs ! i"
      and old: "\<And>j. j < ?c \<Longrightarrow> (\<And>i. i < length xs \<Longrightarrow> j \<noteq> (wpos s + Suc i) mod ?c) \<Longrightarrow>
        b ! j = (buf s)[wpos s := x] ! j"
      using bc le by (auto simp: shift)
    have apart: "wpos s \<noteq> (wpos s + Suc i) mod ?c" if "i < length xs" for i
    proof
      assume "wpos s = (wpos s + Suc i) mod ?c"
      then have "(wpos s + Suc i) mod ?c = (wpos s + 0) mod ?c" using w(1) by simp
      then have "Suc i mod ?c = 0 mod ?c"
        by (metis add.commute add_diff_cancel_left' mod_0 mod_eq_dvd_iff_nat le_add1 dvd_imp_mod_0 add_0)
      then show False using that le by simp
    qed
    fix i assume "i < length (x # xs)"
    then show "b ! ((wpos s + i) mod ?c) = (x # xs) ! i"
      using new old [of "wpos s"] apart w by (cases i) auto
  next
    fix j assume j: "j < ?c" "\<forall>i < length (x # xs). j \<noteq> (wpos s + i) mod ?c"
    then have "j \<noteq> wpos s" and "\<And>i. i < length xs \<Longrightarrow> j \<noteq> (wpos s + Suc i) mod ?c"
      using w by force+
    then show "b ! j = buf s ! j"
      using bc le j(1) by (auto simp: shift)
  qed
  ultimately show ?case using b(2) by (intro exI [of _ b]) simp
qed

lemma ring_load_spec:
  "ring_safe s \<Longrightarrow>
   ring_load n s = Some (map (\<lambda>i. buf s ! ((rpos s + i) mod capacity s)) [0..<n],
                         s\<lparr>rpos := (rpos s + n) mod capacity s\<rparr>)"
proof (induction n arbitrary: s)
  case 0
  then have "rpos s mod capacity s = rpos s" by (simp add: ring_safe_def)
  then show ?case by simp
next
  case (Suc n)
  let ?c = "capacity s"
  let ?s = "s\<lparr>rpos := Suc (rpos s) mod ?c\<rparr>"
  have safe: "ring_safe ?s" using Suc.prems by (simp add: ring_safe_def)
  have shift: "(Suc (rpos s) mod ?c + i) mod ?c = (rpos s + Suc i) mod ?c" for i
    by (simp add: mod_add_left_eq)
  have upt: "[0..<Suc n] = 0 # map Suc [0..<n]"
    by (simp only: map_Suc_upt upt_conv_Cons [of 0 "Suc n"] zero_less_Suc simp_thms)
  have "rpos s < length (buf s)" "rpos s < ?c" "rpos s mod ?c = rpos s"
    using Suc.prems by (simp_all add: ring_safe_def)
  then show ?case
    using ring_safe_step [OF Suc.prems, of "rpos s"] Suc.IH [OF safe]
    by (simp add: upt shift comp_def del: upt_Suc)
qed

subsection \<open>Refinement to a queue of bytes\<close>

lemma ring_index_inj:
  fixes a i j c :: nat
  assumes "(a + i) mod c = (a + j) mod c" "i < c" "j < c"
  shows "i = j"
proof -
  have half: "i = j" if "(a + i) mod c = (a + j) mod c" "i < c" "j \<le> i" for i j :: nat
  proof -
    have "c dvd (a + i) - (a + j)" using that by (subst mod_eq_dvd_iff_nat [symmetric]) simp_all
    then have "c dvd i - j" by simp
    then show ?thesis using that by (metis diff_is_0_eq dvd_imp_le le_antisym less_imp_diff_less
          linorder_not_le neq0_conv)
  qed
  show ?thesis using half [of i j] half [of j i] assms by (cases "j \<le> i") auto
qed

lemma ring_shift: "n \<le> a \<Longrightarrow> ((r + n) mod c + (a - n)) mod c = (r + a) mod (c :: nat)"
  by (simp only: mod_add_left_eq add.assoc le_add_diff_inverse)

lemma ring_contents_store:
  assumes inv: "ring_inv s" and n: "available s + length xs \<le> capacity s"
    and st: "ring_store xs s = Some s'"
  shows "ring_inv (s'\<lparr>available := add32 (available s) (length xs)\<rparr>)"
    and "ring_contents (s'\<lparr>available := add32 (available s) (length xs)\<rparr>) = ring_contents s @ xs"
proof -
  let ?c = "capacity s"
  have safe: "ring_safe s" and av: "available s \<le> ?c" and w: "wpos s = (rpos s + available s) mod ?c"
    using inv by (auto simp: ring_inv_def)
  obtain b where s': "s' = s\<lparr>buf := b, wpos := (wpos s + length xs) mod ?c\<rparr>"
    and lb: "length b = ?c"
    and new: "\<And>i. i < length xs \<Longrightarrow> b ! ((wpos s + i) mod ?c) = xs ! i"
    and old: "\<And>j. j < ?c \<Longrightarrow> (\<And>i. i < length xs \<Longrightarrow> j \<noteq> (wpos s + i) mod ?c) \<Longrightarrow> b ! j = buf s ! j"
    using ring_store_spec [OF safe, of xs] n st by auto
  have add: "add32 (available s) (length xs) = available s + length xs"
    using n safe by (intro add32_id) (simp add: ring_safe_def)
  have wi: "(wpos s + i) mod ?c = (rpos s + (available s + i)) mod ?c" for i
    by (simp add: w mod_add_left_eq add.assoc)
  show "ring_inv (s'\<lparr>available := add32 (available s) (length xs)\<rparr>)"
    using safe n lb by (simp add: ring_inv_def ring_safe_def s' add wi)
  have keep: "b ! ((rpos s + i) mod ?c) = buf s ! ((rpos s + i) mod ?c)" if "i < available s" for i
  proof (rule old)
    show "(rpos s + i) mod ?c < ?c" using safe by (simp add: ring_safe_def)
    fix k assume "k < length xs"
    with that n show "(rpos s + i) mod ?c \<noteq> (wpos s + k) mod ?c"
      unfolding wi by (auto dest: ring_index_inj)
  qed
  have "map (\<lambda>i. b ! ((rpos s + i) mod ?c)) [available s..<available s + length xs] = xs"
  proof (rule nth_equalityI)
    fix i assume "i < length (map (\<lambda>i. b ! ((rpos s + i) mod ?c)) [available s..<available s + length xs])"
    then have i: "i < length xs" by simp
    from new [OF i] have "b ! ((rpos s + (available s + i)) mod ?c) = xs ! i" by (simp only: wi)
    with i show "map (\<lambda>i. b ! ((rpos s + i) mod ?c)) [available s..<available s + length xs] ! i = xs ! i"
      by simp
  qed simp
  then show "ring_contents (s'\<lparr>available := add32 (available s) (length xs)\<rparr>) = ring_contents s @ xs"
    using keep upt_add_eq_append [of 0 "available s" "length xs"]
    by (simp add: ring_contents_def s' add)
qed

lemma ring_contents_load:
  assumes inv: "ring_inv s" and n: "n \<le> available s"
  shows "\<exists>s'. ring_load n s = Some (take n (ring_contents s), s') \<and>
     ring_inv (s'\<lparr>available := sub32 (available s) n\<rparr>) \<and>
     ring_contents (s'\<lparr>available := sub32 (available s) n\<rparr>) = drop n (ring_contents s) \<and>
     s' = s\<lparr>rpos := (rpos s + n) mod capacity s\<rparr>"
proof -
  let ?c = "capacity s"
  let ?s = "s\<lparr>rpos := (rpos s + n) mod ?c\<rparr>"
  have safe: "ring_safe s" using inv by (simp add: ring_inv_def)
  have sub: "sub32 (available s) n = available s - n"
    using n safe by (intro sub32_id) (simp_all add: ring_safe_def)
  have "ring_load n s = Some (take n (ring_contents s), ?s)"
    using n by (simp add: ring_load_spec [OF safe] ring_contents_def take_map)
  moreover have "ring_inv (?s\<lparr>available := sub32 (available s) n\<rparr>)"
    using inv n ring_shift [OF n, of "rpos s" ?c, symmetric]
    by (auto simp: ring_inv_def ring_safe_def sub)
  moreover have "ring_contents (?s\<lparr>available := sub32 (available s) n\<rparr>) = drop n (ring_contents s)"
    using n by (simp add: ring_contents_def sub drop_map mod_add_left_eq add.assoc)
      (rule nth_equalityI, simp_all add: add.assoc)
  ultimately show ?thesis by blast
qed

lemma length_ring_contents [simp]: "length (ring_contents s) = available s"
  by (simp add: ring_contents_def)

text \<open>How much a write of \<open>want\<close> bytes takes: as many whole elements as fit.\<close>

definition fits :: "nat \<Rightarrow> DataPipeState \<Rightarrow> nat" where
  "fits want s = (let n = min want (capacity s - available s) in n - n mod element_size s)"

lemma fits_le: "fits want s \<le> want" "available s \<le> capacity s \<Longrightarrow> available s + fits want s \<le> capacity s"
  by (auto simp: fits_def Let_def min_def)

lemma data_write_spec:
  assumes inv: "ring_inv s" and len: "want \<le> length elements"
  shows "if consumer_closed s then data_write elements want s = Some (WHP_RESULT_FAILED_PRECONDITION, want, s)
         else if want mod element_size s \<noteq> 0 then data_write elements want s = Some (WHP_RESULT_INVALID_ARGUMENT, want, s)
         else if fits want s = 0 then data_write elements want s = Some (WHP_RESULT_SHOULD_WAIT, 0, s)
         else \<exists>s'. data_write elements want s = Some (WHP_RESULT_OK, fits want s, s') \<and> ring_inv s' \<and>
                ring_contents s' = ring_contents s @ take (fits want s) elements"
proof -
  let ?n = "fits want s"
  have safe: "ring_safe s" and av: "available s \<le> capacity s" using inv by (auto simp: ring_inv_def)
  have n: "whole_elements (min want (sub32 (capacity s) (available s))) s = Some ?n"
    using safe av by (simp add: whole_elements_safe fits_def Let_def sub32_id ring_safe_def)
  have es: "0 < element_size s" using safe by (simp add: ring_safe_def)
  have le: "?n \<le> length elements" using fits_le(1) len by (rule order_trans)
  obtain s1 where st: "ring_store (take ?n elements) s = Some s1"
    using ring_store_spec [OF safe] by blast
  have tn: "length (take ?n elements) = ?n" using le by simp
  note fin = ring_contents_store [OF inv _ st, unfolded tn, OF fits_le(2) [OF av]]
  show ?thesis
    using n es le st fin by (auto simp: data_write_def)
qed

definition avail_whole :: "nat \<Rightarrow> DataPipeState \<Rightarrow> nat" where
  "avail_whole want s = (let n = min want (available s) in n - n mod element_size s)"

lemma data_read_spec:
  assumes inv: "ring_inv s"
  shows "if want mod element_size s \<noteq> 0 then data_read want s = Some (WHP_RESULT_INVALID_ARGUMENT, want, [], s)
         else if avail_whole want s = 0 then
           data_read want s = Some (if producer_closed s then WHP_RESULT_FAILED_PRECONDITION
                                    else WHP_RESULT_SHOULD_WAIT, 0, [], s)
         else \<exists>s'. data_read want s = Some (WHP_RESULT_OK, avail_whole want s,
                                   take (avail_whole want s) (ring_contents s), s') \<and> ring_inv s' \<and>
                ring_contents s' = drop (avail_whole want s) (ring_contents s)"
proof -
  let ?n = "avail_whole want s"
  have safe: "ring_safe s" using inv by (simp add: ring_inv_def)
  then have es: "0 < element_size s" by (simp add: ring_safe_def)
  have n: "whole_elements (min want (available s)) s = Some ?n"
    using safe by (simp add: whole_elements_safe avail_whole_def Let_def)
  have le: "?n \<le> available s" by (auto simp: avail_whole_def Let_def min_def)
  show ?thesis
    using n es ring_contents_load [OF inv le] by (auto simp: data_read_def)
qed

definition ring_put :: "byte list \<Rightarrow> DataPipeState \<Rightarrow> (nat \<times> DataPipeState) option" where
  "ring_put xs s = do {
     (r, n, s') \<leftarrow> data_write xs (length xs) s;
     Some (if r = WHP_RESULT_OK then n else 0, s') }"

definition ring_get :: "nat \<Rightarrow> DataPipeState \<Rightarrow> (byte list \<times> DataPipeState) option" where
  "ring_get k s = do { (r, n, xs, s') \<leftarrow> data_read k s; Some (xs, s') }"

interpretation ring: fifo_channel ring_inv ring_contents ring_put ring_get
proof unfold_locales
  fix s :: DataPipeState and xs :: "byte list"
  assume inv: "ring_inv s"
  show "\<exists>n s'. ring_put xs s = Some (n, s') \<and> n \<le> length xs \<and> ring_inv s' \<and>
      ring_contents s' = ring_contents s @ take n xs"
    using data_write_spec [OF inv order_refl, of xs] inv fits_le(1) [of "length xs" s]
    by (auto simp: ring_put_def split: if_splits)
next
  fix s :: DataPipeState and k :: nat
  assume inv: "ring_inv s"
  have "avail_whole k s \<le> k" by (auto simp: avail_whole_def Let_def min_def)
  then show "\<exists>ys s'. ring_get k s = Some (ys, s') \<and> length ys \<le> k \<and> ring_inv s' \<and>
      ring_contents s = ys @ ring_contents s'"
    using data_read_spec [OF inv, of k] inv by (auto simp: ring_get_def split: if_splits)
qed

subsection \<open>Two-phase transfers\<close>

text \<open>A two-phase write with nothing in between: the client's bytes are appended.\<close>

lemma data_begin_write_OK:
  assumes "ring_safe s" "data_begin_write want s = Some (WHP_RESULT_OK, n, s1)"
  shows "s1 = s\<lparr>two_phase_write := Some (wpos s), two_phase_write_max := n\<rparr> \<and>
    n \<le> sub32 (capacity s) (available s) \<and> n \<le> sub32 (capacity s) (wpos s)"
proof -
  define k where "k = min (min (sub32 (capacity s) (available s)) (sub32 (capacity s) (wpos s))) want"
  have "s1 = s\<lparr>two_phase_write := Some (wpos s), two_phase_write_max := n\<rparr>"
    "n = k - k mod element_size s"
    using assms(2)
    by (auto simp: data_begin_write_def whole_elements_safe [OF assms(1)] k_def [symmetric]
        split: if_splits)
  moreover have "k \<le> sub32 (capacity s) (available s)" "k \<le> sub32 (capacity s) (wpos s)"
    by (simp_all add: k_def)
  ultimately show ?thesis by (auto intro: diff_le_self [THEN order_trans])
qed

lemma data_begin_read_OK:
  assumes "ring_safe s" "data_begin_read want s = Some (WHP_RESULT_OK, n, s1)"
  shows "s1 = s\<lparr>two_phase_read := Some (rpos s), two_phase_read_max := n\<rparr> \<and>
    n \<le> available s \<and> n \<le> sub32 (capacity s) (rpos s)"
proof -
  define k where "k = min (min (available s) (sub32 (capacity s) (rpos s))) want"
  have "s1 = s\<lparr>two_phase_read := Some (rpos s), two_phase_read_max := n\<rparr>"
    "n = k - k mod element_size s"
    using assms(2)
    by (auto simp: data_begin_read_def whole_elements_safe [OF assms(1)] k_def [symmetric]
        split: if_splits)
  moreover have "k \<le> available s" "k \<le> sub32 (capacity s) (rpos s)"
    by (simp_all add: k_def)
  ultimately show ?thesis by (auto intro: diff_le_self [THEN order_trans])
qed

lemma two_phase_write_append:
  assumes inv: "ring_inv s" and b: "data_begin_write want s = Some (WHP_RESULT_OK, n, s1)"
    and len: "length xs = m" "m \<le> n" "m mod element_size s = 0"
  shows "\<exists>s2. data_end_write m (client_fill (wpos s) xs s1) = Some (WHP_RESULT_OK, s2) \<and>
    ring_inv s2 \<and> ring_contents s2 = ring_contents s @ xs \<and> two_phase_write s2 = None"
proof -
  let ?c = "capacity s"
  have safe: "ring_safe s" and av: "available s \<le> ?c" and w: "wpos s = (rpos s + available s) mod ?c"
    using inv by (auto simp: ring_inv_def)
  have sub: "sub32 ?c (available s) = ?c - available s" "sub32 ?c (wpos s) = ?c - wpos s"
    using safe av by (simp_all add: sub32_id ring_safe_def)
  have s1: "s1 = s\<lparr>two_phase_write := Some (wpos s), two_phase_write_max := n\<rparr>"
    and n: "n \<le> ?c - available s" "n \<le> ?c - wpos s" and es: "0 < element_size s"
    using data_begin_write_OK [OF safe b] safe by (simp_all add: sub ring_safe_def)
  let ?b = "take (wpos s) (buf s) @ xs @ drop (wpos s + m) (buf s)"
  have lb: "length (buf s) = ?c" "wpos s < ?c" "?c < 2 ^ 32" using safe by (simp_all add: ring_safe_def)
  have room: "available s + m \<le> ?c" "wpos s + m \<le> ?c" using n len(2) lb(2) av by simp_all
  let ?s2 = "s\<lparr>two_phase_write_max := n, buf := ?b, wpos := (wpos s + m) mod ?c,
               available := available s + m, two_phase_write := None\<rparr>"
  have add: "add32 (wpos s) m = wpos s + m" "add32 (available s) m = available s + m"
    using room lb by (simp_all add: add32_id)
  have "data_end_write m (client_fill (wpos s) xs s1) = Some (WHP_RESULT_OK, ?s2)"
    using len es lb by (simp add: data_end_write_def client_fill_def s1 add)
  moreover have "ring_inv ?s2"
    using safe room lb len
    by (simp add: ring_inv_def ring_safe_def w mod_add_left_eq add.assoc)
  moreover have "ring_contents ?s2 = ring_contents s @ xs"
  proof -
    have wi: "wpos s + i = (rpos s + (available s + i)) mod ?c" if "i < m" for i
    proof -
      have "wpos s + i = (wpos s + i) mod ?c" using that room by simp
      then show ?thesis by (simp add: w mod_add_left_eq add.assoc)
    qed
    have keep: "?b ! ((rpos s + i) mod ?c) = buf s ! ((rpos s + i) mod ?c)" if "i < available s" for i
    proof -
      let ?j = "(rpos s + i) mod ?c"
      have "?j < ?c" using lb by simp
      moreover have "?j \<noteq> wpos s + k" if "k < m" for k
        using ring_index_inj [of "rpos s" i ?c "available s + k"] wi [OF that]
          \<open>i < available s\<close> room(1) that by auto
      then have "?j < wpos s \<or> wpos s + m \<le> ?j"
        by (metis le_add_diff_inverse nat_add_left_cancel_less not_le)
      ultimately show ?thesis using lb(1) len(1) room(2) by (auto simp: nth_append)
    qed
    have "map (\<lambda>i. ?b ! ((rpos s + i) mod ?c)) [available s..<available s + m] = xs"
    proof (rule nth_equalityI)
      fix i assume "i < length (map (\<lambda>i. ?b ! ((rpos s + i) mod ?c)) [available s..<available s + m])"
      then have i: "i < m" by simp
      have "?b ! (wpos s + i) = xs ! i" using i lb(1,2) len(1) room(2) by (simp add: nth_append)
      then have "?b ! ((rpos s + (available s + i)) mod ?c) = xs ! i"
        by (simp only: wi [OF i, symmetric])
      with i show "map (\<lambda>i. ?b ! ((rpos s + i) mod ?c)) [available s..<available s + m] ! i = xs ! i"
        by simp
    qed (simp add: len)
    then show ?thesis using keep upt_add_eq_append [of 0 "available s" m]
      by (simp add: ring_contents_def)
  qed
  ultimately show ?thesis by (intro exI [of _ ?s2]) simp
qed

text \<open>The region \<open>WhpBeginReadData\<close> exposes holds the oldest bytes, and ending the read
  consumes what the client says it took.\<close>

lemma two_phase_read_prefix:
  assumes inv: "ring_inv s" and b: "data_begin_read want s = Some (WHP_RESULT_OK, n, s1)"
    and m: "m \<le> n" "m mod element_size s = 0"
  shows "take n (drop (rpos s) (buf s1)) = take n (ring_contents s) \<and>
    (\<exists>s2. data_end_read m s1 = Some (WHP_RESULT_OK, s2) \<and> ring_inv s2 \<and>
      ring_contents s2 = drop m (ring_contents s) \<and> two_phase_read s2 = None)"
proof -
  let ?c = "capacity s"
  have safe: "ring_safe s" and av: "available s \<le> ?c" and w: "wpos s = (rpos s + available s) mod ?c"
    using inv by (auto simp: ring_inv_def)
  have lb: "length (buf s) = ?c" "rpos s < ?c" "?c < 2 ^ 32" "0 < element_size s"
    using safe by (simp_all add: ring_safe_def)
  have sub: "sub32 ?c (rpos s) = ?c - rpos s" using lb by (simp add: sub32_id)
  have s1: "s1 = s\<lparr>two_phase_read := Some (rpos s), two_phase_read_max := n\<rparr>"
    and n: "n \<le> available s" "n \<le> ?c - rpos s"
    using data_begin_read_OK [OF safe b] by (simp_all add: sub)
  have "take n (drop (rpos s) (buf s1)) = take n (ring_contents s)"
    using n lb by (intro nth_equalityI) (auto simp: s1 ring_contents_def)
  moreover
  let ?s2 = "s\<lparr>two_phase_read_max := n, rpos := (rpos s + m) mod ?c,
               available := available s - m, two_phase_read := None\<rparr>"
  have ma: "m \<le> available s" using m n by simp
  have add: "add32 (rpos s) m = rpos s + m" "sub32 (available s) m = available s - m"
    using m n lb av by (simp_all add: add32_id sub32_id)
  have "data_end_read m s1 = Some (WHP_RESULT_OK, ?s2)"
    using m lb by (simp add: data_end_read_def s1 add)
  moreover have "ring_inv ?s2"
    using safe av lb w ma ring_shift [OF ma, of "rpos s" ?c, symmetric]
    by (auto simp: ring_inv_def ring_safe_def)
  moreover have "ring_contents ?s2 = drop m (ring_contents s)"
    using ma by (intro nth_equalityI)
      (auto simp: ring_contents_def mod_add_left_eq add.assoc)
  ultimately show ?thesis by (intro conjI exI [of _ ?s2]) simp_all
qed

subsection \<open>Memory safety of every operation\<close>

text \<open>Whatever the order of the calls, the positions stay inside the buffer.\<close>

lemma ring_safe_ops:
  assumes safe: "ring_safe s"
  shows "want \<le> length elements \<Longrightarrow>
      \<exists>r n s'. data_write elements want s = Some (r, n, s') \<and> ring_safe s'"
    and "\<exists>r n xs s'. data_read want s = Some (r, n, xs, s') \<and> ring_safe s'"
    and "\<exists>r n s'. data_begin_write want s = Some (r, n, s') \<and> ring_safe s'"
    and "\<exists>r s'. data_end_write want s = Some (r, s') \<and> ring_safe s'"
    and "\<exists>r n s'. data_begin_read want s = Some (r, n, s') \<and> ring_safe s'"
    and "\<exists>r s'. data_end_read want s = Some (r, s') \<and> ring_safe s'"
proof -
  have es: "0 < element_size s" "0 < capacity s" using safe by (simp_all add: ring_safe_def)
  note simps = whole_elements_safe [OF safe] es
  show "\<exists>r n s'. data_write elements want s = Some (r, n, s') \<and> ring_safe s'"
    if "want \<le> length elements"
  proof -
    define n where "n = (let k = min want (sub32 (capacity s) (available s)) in k - k mod element_size s)"
    have "n \<le> length elements" using that by (auto simp: n_def Let_def min_def)
    moreover obtain b where "ring_store (take n elements) s =
        Some (s\<lparr>buf := b, wpos := (wpos s + length (take n elements)) mod capacity s\<rparr>)"
      "length b = capacity s"
      using ring_store_spec [OF safe, of "take n elements"] by blast
    ultimately show ?thesis
      using safe by (simp add: data_write_def simps n_def [symmetric, unfolded Let_def] ring_safe_def)
  qed
  show "\<exists>r n xs s'. data_read want s = Some (r, n, xs, s') \<and> ring_safe s'"
    using safe by (simp add: data_read_def simps ring_load_spec [OF safe]) (simp add: ring_safe_def)
  show "\<exists>r n s'. data_begin_write want s = Some (r, n, s') \<and> ring_safe s'"
  proof -
    have "\<exists>r n s'. data_begin_write want s = Some (r, n, s')"
      by (simp add: data_begin_write_def simps)
    then obtain r n s' where b: "data_begin_write want s = Some (r, n, s')" by blast
    have "ring_safe s'"
    proof (cases "r = WHP_RESULT_OK")
      case True
      with data_begin_write_OK [OF safe b [unfolded True]] safe show ?thesis
        by (auto simp: ring_safe_def sub32_id)
    next
      case False
      with b safe show ?thesis by (auto simp: data_begin_write_def simps split: if_splits)
    qed
    with b show ?thesis by blast
  qed
  show "\<exists>r s'. data_end_write want s = Some (r, s') \<and> ring_safe s'"
    using safe by (simp add: data_end_write_def simps) (simp add: ring_safe_def)
  show "\<exists>r n s'. data_begin_read want s = Some (r, n, s') \<and> ring_safe s'"
  proof -
    have "\<exists>r n s'. data_begin_read want s = Some (r, n, s')"
      by (simp add: data_begin_read_def simps)
    then obtain r n s' where b: "data_begin_read want s = Some (r, n, s')" by blast
    have "ring_safe s'"
    proof (cases "r = WHP_RESULT_OK")
      case True
      with data_begin_read_OK [OF safe b [unfolded True]] safe show ?thesis
        by (auto simp: ring_safe_def sub32_id)
    next
      case False
      with b safe show ?thesis by (auto simp: data_begin_read_def simps split: if_splits)
    qed
    with b show ?thesis by blast
  qed
  show "\<exists>r s'. data_end_read want s = Some (r, s') \<and> ring_safe s'"
    using safe by (simp add: data_end_read_def simps) (simp add: ring_safe_def)
qed

lemma ring_safe_client_fill:
  assumes "ring_safe s" "two_phase_write s = Some off" "length xs \<le> two_phase_write_max s"
  shows "ring_safe (client_fill off xs s)"
  using assms by (auto simp: ring_safe_def client_fill_def)

end
