(* ===== verification/Whp_Api.thy ===== *)
theory Whp_Api
  imports Whp_Signals Data_Ring
begin

text \<open>
  The C API of HolePunch's system core (\<open>core.cc\<close>, \<open>extern "C"\<close> part) except the shared
  buffer and platform handle calls, which are in \<open>Whp_Buffers\<close>: closing handles,
  messages, message pipes, traps, data pipes.

  Every function takes the \<open>Core\<close> and returns the result code, the values of its out
  parameters and the new \<open>Core\<close>; \<open>None\<close> is undefined behaviour.  A \<open>bool\<close> parameter
  named after a pointer says that the pointer is not null.  Each call runs under
  \<open>Core::mu\<close>, so a call is one atomic step, except where it calls out to a client's
  function with the lock released: the client functions are the parameters \<open>run_*\<close> of the
  environment, arbitrary functions on the core (they may call this API, and other threads
  may run meanwhile).
\<close>

datatype Host = HostWindows | HostApple | HostPosix

record Env =
  host :: Host
  run_serializer :: "nat \<Rightarrow> uintptr \<Rightarrow> WhpHandle \<Rightarrow> Core \<Rightarrow> Core"
  run_destructor :: "nat \<Rightarrow> uintptr \<Rightarrow> Core \<Rightarrow> Core"
  run_handler :: "nat \<Rightarrow> WhpTrapEvent \<Rightarrow> Core \<Rightarrow> Core"

subsection \<open>Native handles and the destructor of a shared buffer\<close>

text \<open>Which values \<open>CloseNativePlatform\<close> hands to the operating system; the calls are
  recorded in \<open>native_closed\<close>.\<close>

definition closes_native :: "Host \<Rightarrow> PlatformHandleType \<Rightarrow> nat \<Rightarrow> bool" where
  "closes_native hst ty v =
     (case ty of
        PLATFORM_WINDOWS_HANDLE \<Rightarrow> hst = HostWindows \<and> v \<noteq> 0 \<and> v \<noteq> 2 ^ 64 - 1
      | PLATFORM_FILE_DESCRIPTOR \<Rightarrow> hst \<noteq> HostWindows \<and> u32 v < 2 ^ 31
      | PLATFORM_MACH_PORT \<Rightarrow> hst = HostApple
      | PLATFORM_INVALID \<Rightarrow> False)"

definition CloseNativePlatform :: "Host \<Rightarrow> PlatformHandleType \<Rightarrow> nat \<Rightarrow> Core \<Rightarrow> Core" where
  "CloseNativePlatform hst ty v c =
     (if closes_native hst ty v then c\<lparr>native_closed := native_closed c @ [(ty, v)]\<rparr> else c)"

text \<open>\<open>SharedBufferObj::~SharedBufferObj\<close> runs when the last \<open>shared_ptr\<close> goes away: no
  handle and no mapping refers to the buffer.\<close>

definition buffer_referenced :: "nat \<Rightarrow> Core \<Rightarrow> bool" where
  "buffer_referenced b c \<longleftrightarrow>
     list_ex (\<lambda>s. sl_obj s = OSharedBuffer b) (slots c) \<or> list_ex (\<lambda>(_, m). mr_buf m = b) (maps c)"

definition drop_buffer :: "Host \<Rightarrow> nat \<Rightarrow> Core \<Rightarrow> Core option" where
  "drop_buffer hst b c =
     (if buffer_referenced b c then Some c
      else do {
        o1 \<leftarrow> nth_opt (buf_heap c) b;
        let c1 = c\<lparr>buf_heap := (buf_heap c)[b := o1\<lparr>sb_os_base := None, sb_os_mapped_size := 0,
                                                     sb_plat_owns := False\<rparr>]\<rparr>;
        Some (if sb_plat_owns o1
              then fold (\<lambda>(ty, v). CloseNativePlatform hst ty v) (sb_plat o1) c1
              else c1) })"

subsection \<open>Closing\<close>

definition close_object :: "Env \<Rightarrow> WhpHandle \<Rightarrow> Slot \<Rightarrow> Core \<Rightarrow> (Core \<times> (nat \<times> uintptr) option) option" where
  "close_object env h s c =
     (case sl_kind s of
        KMessagePipe \<Rightarrow> do {
          e \<leftarrow> as_pipe_end (sl_obj s);
          ps \<leftarrow> nth_opt (pipe_heap c) (pe_state e);
          Some (c\<lparr>pipe_heap := (pipe_heap c)[pe_state e := ps\<lparr>closed := (closed ps)(pe_end e := True)\<rparr>]\<rparr>,
                None) }
      | KDataPipeProducer \<Rightarrow> do {
          e \<leftarrow> as_data_end (sl_obj s);
          ds \<leftarrow> nth_opt (data_heap c) (de_state e);
          Some (c\<lparr>data_heap := (data_heap c)[de_state e := ds\<lparr>producer_closed := True\<rparr>]\<rparr>, None) }
      | KDataPipeConsumer \<Rightarrow> do {
          e \<leftarrow> as_data_end (sl_obj s);
          ds \<leftarrow> nth_opt (data_heap c) (de_state e);
          Some (c\<lparr>data_heap := (data_heap c)[de_state e := ds\<lparr>consumer_closed := True\<rparr>]\<rparr>, None) }
      | KTrap \<Rightarrow> do {
          t \<leftarrow> as_trap (sl_obj s);
          let contexts = map trig_context (trap_triggers t);
          Some (c\<lparr>pending_events :=
                    filter (\<lambda>e. ev_trigger_context (pend_event e) \<notin> set contexts) (pending_events c),
                  traps := removeAll h (traps c)\<rparr>, None) }
      | KMessage \<Rightarrow> do {
          m \<leftarrow> as_message (sl_obj s);
          Some (set_obj h (OMessage (m\<lparr>msg_destructor := None, msg_serializer := None\<rparr>)) c,
                map_option (\<lambda>f. (f, msg_context m)) (msg_destructor m)) }
      | KPlatform \<Rightarrow> do {
          p \<leftarrow> as_platform (sl_obj s);
          Some (if plat_owned p
                then CloseNativePlatform (host env) (plat_type p) (plat_value p)
                       (set_obj h (OPlatform (p\<lparr>plat_owned := False\<rparr>)) c)
                else c, None) }
      | _ \<Rightarrow> Some (c, None))"

definition run_dtor :: "Env \<Rightarrow> (nat \<times> uintptr) option \<Rightarrow> Core \<Rightarrow> Core" where
  "run_dtor env d c = (case d of None \<Rightarrow> c | Some (f, ctx) \<Rightarrow> run_destructor env f ctx c)"

text \<open>\<open>c.Free(handle)\<close> also drops the slot's reference to its object.\<close>

definition free_and_drop :: "Env \<Rightarrow> WhpHandle \<Rightarrow> Slot \<Rightarrow> Core \<Rightarrow> Core option" where
  "free_and_drop env h s c =
     (case sl_obj s of
        OSharedBuffer b \<Rightarrow> drop_buffer (host env) b (Free h c)
      | _ \<Rightarrow> Some (Free h c))"

definition WhpClose :: "Env \<Rightarrow> WhpHandle \<Rightarrow> Core \<Rightarrow> (WhpResult \<times> Core) option" where
  "WhpClose env h c =
     (case Lookup c h of
        None \<Rightarrow> Some (WHP_RESULT_INVALID_ARGUMENT, c)
      | Some s \<Rightarrow> do {
          (c1, dtor) \<leftarrow> close_object env h s c;
          c2 \<leftarrow> free_and_drop env h s c1;
          c3 \<leftarrow> CollectTrapEvents c2;
          Some (WHP_RESULT_OK, run_dtor env dtor c3) })"

definition WhpInit :: "Core \<Rightarrow> WhpResult \<times> Core" where
  "WhpInit c = (WHP_RESULT_OK, c\<lparr>inited := True\<rparr>)"

definition WhpPumpEvents :: "Env \<Rightarrow> Core \<Rightarrow> WhpResult \<times> Core" where
  "WhpPumpEvents env c =
     (WHP_RESULT_OK,
      fold (\<lambda>e. run_handler env (pend_handler e) (pend_event e)) (pending_events c)
           (c\<lparr>pending_events := []\<rparr>))"

definition WhpQueryHandleSignalsState ::
    "WhpHandle \<Rightarrow> bool \<Rightarrow> Core \<Rightarrow> (WhpResult \<times> WhpHandleSignalsState option) option" where
  "WhpQueryHandleSignalsState h state_ptr c =
     (if \<not> state_ptr \<or> Lookup c h = None then Some (WHP_RESULT_INVALID_ARGUMENT, None)
      else do { st \<leftarrow> QueryLocked c h; Some (WHP_RESULT_OK, Some st) })"

subsection \<open>Messages\<close>

text \<open>The prologue of the message calls: the handle must name a message.\<close>

definition message_of :: "WhpHandle \<Rightarrow> Core \<Rightarrow> MessageObj option option" where
  "message_of h c =
     (case Lookup c h of
        None \<Rightarrow> Some None
      | Some s \<Rightarrow> if sl_kind s \<noteq> KMessage then Some None
                  else do { m \<leftarrow> as_message (sl_obj s); Some (Some m) })"

definition WhpCreateMessage :: "bool \<Rightarrow> Core \<Rightarrow> (WhpResult \<times> WhpHandle option \<times> Core) option" where
  "WhpCreateMessage message_ptr c =
     (if \<not> message_ptr then Some (WHP_RESULT_INVALID_ARGUMENT, None, c)
      else do {
        (h, c') \<leftarrow> Alloc KMessage (OMessage new_message) c;
        Some (WHP_RESULT_OK, Some h, c') })"

definition WhpDestroyMessage :: "Env \<Rightarrow> WhpHandle \<Rightarrow> Core \<Rightarrow> (WhpResult \<times> Core) option" where
  "WhpDestroyMessage env message c = WhpClose env message c"

text \<open>\<open>handles\<close> are the \<open>num_handles\<close> handles passed (none for a null array);
  \<open>commit_size\<close> is the flag of \<open>options\<close>.  The out value is \<open>*buffer_size\<close>; the buffer
  itself is the message's \<open>msg_bytes\<close>.\<close>

definition WhpAppendMessageData ::
    "WhpHandle \<Rightarrow> nat \<Rightarrow> WhpHandle list \<Rightarrow> bool \<Rightarrow> Core \<Rightarrow> (WhpResult \<times> nat option \<times> Core) option" where
  "WhpAppendMessageData message additional handles commit_size c = do {
     mo \<leftarrow> message_of message c;
     (case mo of
        None \<Rightarrow> Some (WHP_RESULT_INVALID_ARGUMENT, None, c)
      | Some m \<Rightarrow>
          if msg_committed m \<and> additional \<noteq> 0
          then Some (WHP_RESULT_FAILED_PRECONDITION, None, c)
          else (let m' = m\<lparr>msg_bytes := msg_bytes m @ replicate additional 0,
                           msg_handles := msg_handles m @ handles,
                           msg_committed := msg_committed m \<or> commit_size\<rparr>
                in Some (WHP_RESULT_OK, Some (u32 (length (msg_bytes m'))),
                         set_obj message (OMessage m') c))) }"

text \<open>\<open>num_handles\<close>: \<open>None\<close> for a null pointer, \<open>Some n\<close> when it points to \<open>n\<close>.
  The out values are \<open>*num_bytes\<close>, the byte buffer, the handles copied and the new
  \<open>*num_handles\<close>.\<close>

definition WhpGetMessageData ::
    "WhpHandle \<Rightarrow> bool \<Rightarrow> nat option \<Rightarrow> Core \<Rightarrow>
     (WhpResult \<times> nat option \<times> byte list option \<times> WhpHandle list option \<times> nat option \<times> Core) option" where
  "WhpGetMessageData message handles_ptr num_handles c = do {
     mo \<leftarrow> message_of message c;
     (case mo of
        None \<Rightarrow> Some (WHP_RESULT_INVALID_ARGUMENT, None, None, None, num_handles, c)
      | Some m \<Rightarrow>
          (let have_handles = u32 (length (msg_handles m));
               nbytes = u32 (length (msg_bytes m))
           in if num_handles \<noteq> None \<and> \<not> handles_ptr \<and> 0 < have_handles
              then Some (WHP_RESULT_RESOURCE_EXHAUSTED, Some nbytes, None, None, Some have_handles, c)
              else if handles_ptr \<and> (case num_handles of None \<Rightarrow> False | Some n \<Rightarrow> n < have_handles)
              then Some (WHP_RESULT_RESOURCE_EXHAUSTED, None, None, None, Some have_handles, c)
              else if handles_ptr \<and> num_handles \<noteq> None
              then Some (WHP_RESULT_OK, Some nbytes, Some (msg_bytes m),
                         Some (take have_handles (msg_handles m)), Some have_handles,
                         set_obj message (OMessage (m\<lparr>msg_handles := []\<rparr>)) c)
              else Some (WHP_RESULT_OK, Some nbytes, Some (msg_bytes m), None,
                         map_option (\<lambda>_. 0) num_handles, c))) }"

text \<open>The second critical section: the message is committed and its context released.\<close>

definition serialize_finish :: "Env \<Rightarrow> WhpHandle \<Rightarrow> Core \<Rightarrow> (WhpResult \<times> Core) option" where
  "serialize_finish env message c = do {
     mo \<leftarrow> message_of message c;
     (case mo of
        None \<Rightarrow> Some (WHP_RESULT_INVALID_ARGUMENT, c)
      | Some m \<Rightarrow>
          Some (WHP_RESULT_OK,
                run_dtor env (map_option (\<lambda>f. (f, msg_context m)) (msg_destructor m))
                  (set_obj message
                     (OMessage (m\<lparr>msg_committed := True, msg_destructor := None,
                                  msg_context := 0, msg_serializer := None\<rparr>)) c))) }"

definition WhpSerializeMessage :: "Env \<Rightarrow> WhpHandle \<Rightarrow> Core \<Rightarrow> (WhpResult \<times> Core) option" where
  "WhpSerializeMessage env message c = do {
     mo \<leftarrow> message_of message c;
     (case mo of
        None \<Rightarrow> Some (WHP_RESULT_INVALID_ARGUMENT, c)
      | Some m \<Rightarrow>
          if msg_committed m \<and> msg_serializer m = None then Some (WHP_RESULT_OK, c)
          else (let c1 = set_obj message (OMessage (m\<lparr>msg_serializer := None\<rparr>)) c;
                    c2 = (case msg_serializer m of
                            None \<Rightarrow> c1
                          | Some f \<Rightarrow> run_serializer env f (msg_context m) message c1)
                in serialize_finish env message c2)) }"

definition WhpReserveMessageCapacity ::
    "WhpHandle \<Rightarrow> nat \<Rightarrow> Core \<Rightarrow> (WhpResult \<times> nat option \<times> Core) option" where
  "WhpReserveMessageCapacity message payload_size c = do {
     mo \<leftarrow> message_of message c;
     (case mo of
        None \<Rightarrow> Some (WHP_RESULT_INVALID_ARGUMENT, None, c)
      | Some m \<Rightarrow>
          if msg_committed m
          then Some (WHP_RESULT_FAILED_PRECONDITION, Some (u32 (length (msg_bytes m))), c)
          else (let m' = m\<lparr>msg_bytes := msg_bytes m @ replicate (payload_size - length (msg_bytes m)) 0\<rparr>
                in Some (WHP_RESULT_OK, Some (u32 (length (msg_bytes m'))),
                         set_obj message (OMessage m') c))) }"

definition WhpSetMessageContext ::
    "Env \<Rightarrow> WhpHandle \<Rightarrow> uintptr \<Rightarrow> fnptr \<Rightarrow> fnptr \<Rightarrow> Core \<Rightarrow> (WhpResult \<times> Core) option" where
  "WhpSetMessageContext env message ctx ser dtor c = do {
     mo \<leftarrow> message_of message c;
     (case mo of
        None \<Rightarrow> Some (WHP_RESULT_INVALID_ARGUMENT, c)
      | Some m \<Rightarrow>
          Some (WHP_RESULT_OK,
                run_dtor env (map_option (\<lambda>f. (f, msg_context m)) (msg_destructor m))
                  (set_obj message
                     (OMessage (m\<lparr>msg_context := ctx, msg_serializer := ser, msg_destructor := dtor\<rparr>)) c))) }"

definition WhpGetMessageContext :: "WhpHandle \<Rightarrow> bool \<Rightarrow> Core \<Rightarrow> (WhpResult \<times> uintptr option) option" where
  "WhpGetMessageContext message context_ptr c =
     (if \<not> context_ptr then Some (WHP_RESULT_INVALID_ARGUMENT, None)
      else do {
        mo \<leftarrow> message_of message c;
        Some (case mo of None \<Rightarrow> (WHP_RESULT_INVALID_ARGUMENT, None)
                       | Some m \<Rightarrow> (WHP_RESULT_OK, Some (msg_context m))) })"

subsection \<open>Message pipes\<close>

definition pipe_end_of :: "WhpHandle \<Rightarrow> Core \<Rightarrow> (PipeEnd \<times> PipeState) option option" where
  "pipe_end_of h c =
     (case Lookup c h of
        None \<Rightarrow> Some None
      | Some s \<Rightarrow> if sl_kind s \<noteq> KMessagePipe then Some None
                  else do {
                    e \<leftarrow> as_pipe_end (sl_obj s);
                    ps \<leftarrow> nth_opt (pipe_heap c) (pe_state e);
                    Some (Some (e, ps)) })"

definition WhpCreateMessagePipe :: "bool \<Rightarrow> bool \<Rightarrow> Core \<Rightarrow>
    (WhpResult \<times> (WhpHandle \<times> WhpHandle) option \<times> Core) option" where
  "WhpCreateMessagePipe handle0_ptr handle1_ptr c =
     (if \<not> handle0_ptr \<or> \<not> handle1_ptr then Some (WHP_RESULT_INVALID_ARGUMENT, None, c)
      else do {
        let sid = length (pipe_heap c);
        let c0 = c\<lparr>pipe_heap := pipe_heap c @ [new_pipe]\<rparr>;
        (h0, c1) \<leftarrow> Alloc KMessagePipe (OPipeEnd \<lparr>pe_state = sid, pe_end = 0\<rparr>) c0;
        (h1, c2) \<leftarrow> Alloc KMessagePipe (OPipeEnd \<lparr>pe_state = sid, pe_end = 1\<rparr>) c1;
        Some (WHP_RESULT_OK, Some (h0, h1), c2) })"

definition set_pipe :: "nat \<Rightarrow> PipeState \<Rightarrow> Core \<Rightarrow> Core" where
  "set_pipe sid ps c = c\<lparr>pipe_heap := (pipe_heap c)[sid := ps]\<rparr>"

text \<open>The second critical section of \<open>WhpWriteMessage\<close>, after serialization.\<close>

definition write_locked :: "WhpHandle \<Rightarrow> WhpHandle \<Rightarrow> Core \<Rightarrow> (WhpResult \<times> Core) option" where
  "write_locked pipe message c = do {
     pe \<leftarrow> pipe_end_of pipe c;
     mo \<leftarrow> message_of message c;
     (case (pe, mo) of
        (Some (e, ps), Some m) \<Rightarrow>
          (let peer = 1 - pe_end e; inbound = queues ps peer
           in if closed ps peer \<or> closed ps (pe_end e)
              then do {
                c' \<leftarrow> CollectTrapEvents (Free message c);
                Some (WHP_RESULT_FAILED_PRECONDITION, c') }
              else if quota_count ps peer \<le> length inbound \<or>
                      quota_bytes ps peer < add64 (QueueBytes inbound) (length (msg_bytes m))
              then Some (WHP_RESULT_RESOURCE_EXHAUSTED, c)
              else do {
                c' \<leftarrow> CollectTrapEvents
                  (Free message
                     (set_pipe (pe_state e)
                        (ps\<lparr>queues := (queues ps)(peer := inbound @ [m\<lparr>msg_committed := True\<rparr>])\<rparr>) c));
                Some (WHP_RESULT_OK, c') })
      | _ \<Rightarrow> Some (WHP_RESULT_INVALID_ARGUMENT, c)) }"

definition WhpWriteMessage :: "Env \<Rightarrow> WhpHandle \<Rightarrow> WhpHandle \<Rightarrow> Core \<Rightarrow> (WhpResult \<times> Core) option" where
  "WhpWriteMessage env pipe message c = do {
     (ser, c1) \<leftarrow> WhpSerializeMessage env message c;
     if ser \<noteq> WHP_RESULT_OK then Some (ser, c1) else write_locked pipe message c1 }"

definition WhpReadMessage :: "WhpHandle \<Rightarrow> bool \<Rightarrow> Core \<Rightarrow> (WhpResult \<times> WhpHandle option \<times> Core) option" where
  "WhpReadMessage pipe message_ptr c =
     (if \<not> message_ptr then Some (WHP_RESULT_INVALID_ARGUMENT, None, c)
      else do {
        pe \<leftarrow> pipe_end_of pipe c;
        (case pe of
           None \<Rightarrow> Some (WHP_RESULT_INVALID_ARGUMENT, None, c)
         | Some (e, ps) \<Rightarrow>
             (case queues ps (pe_end e) of
                [] \<Rightarrow> Some (if closed ps (1 - pe_end e) then WHP_RESULT_FAILED_PRECONDITION
                            else WHP_RESULT_SHOULD_WAIT, None, c)
              | m # rest \<Rightarrow> do {
                  (h, c') \<leftarrow> Alloc KMessage (OMessage m)
                    (set_pipe (pe_state e) (ps\<lparr>queues := (queues ps)(pe_end e := rest)\<rparr>) c);
                  Some (WHP_RESULT_OK, Some h, c') })) })"

datatype QuotaType = MAX_UNREAD_MESSAGE_COUNT | MAX_UNREAD_MESSAGE_SIZE | QUOTA_OTHER

definition WhpSetQuota :: "WhpHandle \<Rightarrow> QuotaType \<Rightarrow> nat \<Rightarrow> Core \<Rightarrow> (WhpResult \<times> Core) option" where
  "WhpSetQuota h ty limit c = do {
     pe \<leftarrow> pipe_end_of h c;
     (case pe of
        None \<Rightarrow> Some (WHP_RESULT_INVALID_ARGUMENT, c)
      | Some (e, ps) \<Rightarrow>
          (case ty of
             MAX_UNREAD_MESSAGE_COUNT \<Rightarrow>
               Some (WHP_RESULT_OK,
                     set_pipe (pe_state e) (ps\<lparr>quota_count := (quota_count ps)(pe_end e := limit)\<rparr>) c)
           | MAX_UNREAD_MESSAGE_SIZE \<Rightarrow>
               Some (WHP_RESULT_OK,
                     set_pipe (pe_state e) (ps\<lparr>quota_bytes := (quota_bytes ps)(pe_end e := limit)\<rparr>) c)
           | QUOTA_OTHER \<Rightarrow> Some (WHP_RESULT_INVALID_ARGUMENT, c))) }"

definition WhpQueryQuota :: "WhpHandle \<Rightarrow> QuotaType \<Rightarrow> bool \<Rightarrow> bool \<Rightarrow> Core \<Rightarrow>
    (WhpResult \<times> (nat \<times> nat) option) option" where
  "WhpQueryQuota h ty limit_ptr usage_ptr c =
     (if \<not> limit_ptr \<or> \<not> usage_ptr then Some (WHP_RESULT_INVALID_ARGUMENT, None)
      else do {
        pe \<leftarrow> pipe_end_of h c;
        Some (case pe of
           None \<Rightarrow> (WHP_RESULT_INVALID_ARGUMENT, None)
         | Some (e, ps) \<Rightarrow>
             (let q = queues ps (pe_end e)
              in case ty of
                   MAX_UNREAD_MESSAGE_COUNT \<Rightarrow>
                     (WHP_RESULT_OK, Some (quota_count ps (pe_end e), length q))
                 | MAX_UNREAD_MESSAGE_SIZE \<Rightarrow>
                     (WHP_RESULT_OK, Some (quota_bytes ps (pe_end e), QueueBytes q))
                 | QUOTA_OTHER \<Rightarrow> (WHP_RESULT_INVALID_ARGUMENT, None))) })"

text \<open>The search for the two peers scans the table in order of handles; the last match
  wins.\<close>

definition is_peer :: "PipeEnd \<Rightarrow> Slot \<Rightarrow> bool" where
  "is_peer e s = (case sl_obj s of
     OPipeEnd e' \<Rightarrow> pe_state e' = pe_state e \<and> pe_end e' \<noteq> pe_end e | _ \<Rightarrow> False)"

definition find_peer :: "WhpHandle \<Rightarrow> WhpHandle \<Rightarrow> PipeEnd \<Rightarrow> Core \<Rightarrow> WhpHandle option" where
  "find_peer handle0 handle1 e c =
     fold (\<lambda>i found.
       if i = handle0 \<or> i = handle1 then found
       else (case Lookup c i of
               None \<Rightarrow> found
             | Some s \<Rightarrow> if sl_kind s = KMessagePipe \<and> is_peer e s then Some i else found))
       [1..<length (slots c)] None"

text \<open>The new pipe: its end 0 is the peer of \<open>e0\<close>, its end 1 the peer of \<open>e1\<close>.\<close>

definition fused_pipe :: "PipeEnd \<Rightarrow> PipeState \<Rightarrow> PipeEnd \<Rightarrow> PipeState \<Rightarrow> PipeState" where
  "fused_pipe e0 ps0 e1 ps1 =
     (let q0 = 1 - pe_end e0; q1 = 1 - pe_end e1
      in \<lparr>queues = (\<lambda>i. if i = 0 then queues ps0 q0 @ queues ps1 (pe_end e1)
                       else queues ps1 q1 @ queues ps0 (pe_end e0)),
          closed = (\<lambda>_. False),
          quota_count = (\<lambda>i. if i = 0 then quota_count ps0 q0 else quota_count ps1 q1),
          quota_bytes = (\<lambda>i. if i = 0 then quota_bytes ps0 q0 else quota_bytes ps1 q1)\<rparr>)"

definition WhpFuseMessagePipes :: "WhpHandle \<Rightarrow> WhpHandle \<Rightarrow> Core \<Rightarrow> (WhpResult \<times> Core) option" where
  "WhpFuseMessagePipes handle0 handle1 c = do {
     pe0 \<leftarrow> pipe_end_of handle0 c;
     pe1 \<leftarrow> pipe_end_of handle1 c;
     (case (pe0, pe1) of
        (Some (e0, ps0), Some (e1, ps1)) \<Rightarrow>
          if handle0 = handle1 \<or> pe_state e0 = pe_state e1
          then Some (WHP_RESULT_INVALID_ARGUMENT, c)
          else
            (case (find_peer handle0 handle1 e0 c, find_peer handle0 handle1 e1 c) of
               (Some p0, Some p1) \<Rightarrow>
                 (let fid = length (pipe_heap c);
                      fused = fused_pipe e0 ps0 e1 ps1;
                      c1 = c\<lparr>pipe_heap := pipe_heap c @ [fused]\<rparr>;
                      c2 = set_obj p0 (OPipeEnd \<lparr>pe_state = fid, pe_end = 0\<rparr>) c1;
                      c3 = set_obj p1 (OPipeEnd \<lparr>pe_state = fid, pe_end = 1\<rparr>) c2
                  in do {
                    c4 \<leftarrow> CollectTrapEvents (Free handle1 (Free handle0 c3));
                    Some (WHP_RESULT_OK, c4) })
             | _ \<Rightarrow> Some (WHP_RESULT_FAILED_PRECONDITION, c))
      | _ \<Rightarrow> Some (WHP_RESULT_INVALID_ARGUMENT, c)) }"

subsection \<open>Traps\<close>

definition trap_of :: "WhpHandle \<Rightarrow> Core \<Rightarrow> TrapObj option option" where
  "trap_of h c =
     (case Lookup c h of
        None \<Rightarrow> Some None
      | Some s \<Rightarrow> if sl_kind s \<noteq> KTrap then Some None
                  else do { t \<leftarrow> as_trap (sl_obj s); Some (Some t) })"

definition WhpCreateTrap :: "fnptr \<Rightarrow> bool \<Rightarrow> Core \<Rightarrow> (WhpResult \<times> WhpHandle option \<times> Core) option" where
  "WhpCreateTrap handler trap_ptr c =
     (if handler = None \<or> \<not> trap_ptr then Some (WHP_RESULT_INVALID_ARGUMENT, None, c)
      else do {
        (h, c') \<leftarrow> Alloc KTrap (OTrap \<lparr>trap_handler = handler, trap_triggers = [], trap_armed = False\<rparr>) c;
        Some (WHP_RESULT_OK, Some h, c'\<lparr>traps := traps c' @ [h]\<rparr>) })"

definition WhpAddTrigger :: "WhpHandle \<Rightarrow> WhpHandle \<Rightarrow> WhpHandleSignals \<Rightarrow> TriggerCondition \<Rightarrow> uintptr \<Rightarrow>
    Core \<Rightarrow> (WhpResult \<times> Core) option" where
  "WhpAddTrigger trap h signals condition ctx c = do {
     to \<leftarrow> trap_of trap c;
     (case to of
        None \<Rightarrow> Some (WHP_RESULT_INVALID_ARGUMENT, c)
      | Some t \<Rightarrow>
          if Lookup c h = None then Some (WHP_RESULT_INVALID_ARGUMENT, c)
          else Some (WHP_RESULT_OK,
                 set_obj trap (OTrap (t\<lparr>trap_triggers := trap_triggers t @
                   [\<lparr>trig_watched = h, trig_signals = signals, trig_condition = condition,
                     trig_context = ctx\<rparr>]\<rparr>)) c)) }"

definition WhpRemoveTrigger :: "WhpHandle \<Rightarrow> uintptr \<Rightarrow> Core \<Rightarrow> (WhpResult \<times> Core) option" where
  "WhpRemoveTrigger trap ctx c = do {
     to \<leftarrow> trap_of trap c;
     (case to of
        None \<Rightarrow> Some (WHP_RESULT_INVALID_ARGUMENT, c)
      | Some t \<Rightarrow>
          if \<not> list_ex (\<lambda>tr. trig_context tr = ctx) (trap_triggers t)
          then Some (WHP_RESULT_NOT_FOUND, c)
          else
            (let c1 = set_obj trap (OTrap (t\<lparr>trap_triggers :=
                        filter (\<lambda>tr. trig_context tr \<noteq> ctx) (trap_triggers t)\<rparr>)) c
             in Some (WHP_RESULT_OK,
                  (case trap_handler t of
                     None \<Rightarrow> c1
                   | Some f \<Rightarrow>
                       c1\<lparr>pending_events := pending_events c1 @
                          [\<lparr>pend_handler = f,
                            pend_event = \<lparr>ev_trigger_context = ctx, ev_result = WHP_RESULT_CANCELLED,
                                          ev_signals_state = no_signals\<rparr>\<rparr>]\<rparr>)))) }"

fun blocking_triggers :: "Core \<Rightarrow> TrapTrigger list \<Rightarrow> (TrapTrigger \<times> WhpHandleSignalsState) list option" where
  "blocking_triggers c [] = Some []"
| "blocking_triggers c (tr # trs) = do {
     st \<leftarrow> QueryLocked c (trig_watched tr);
     rest \<leftarrow> blocking_triggers c trs;
     Some (if SignalsMatch st (trig_signals tr) (trig_condition tr) then (tr, st) # rest else rest) }"

text \<open>\<open>num_blocking\<close> is \<open>*num_blocking_events\<close> (\<open>None\<close> for a null pointer); the out
  values are the new count and the events written to \<open>blocking_events\<close>.\<close>

definition WhpArmTrap :: "WhpHandle \<Rightarrow> nat option \<Rightarrow> bool \<Rightarrow> Core \<Rightarrow>
    (WhpResult \<times> nat option \<times> WhpTrapEvent list \<times> Core) option" where
  "WhpArmTrap trap num_blocking events_ptr c = do {
     to \<leftarrow> trap_of trap c;
     (case to of
        None \<Rightarrow> Some (WHP_RESULT_INVALID_ARGUMENT, num_blocking, [], c)
      | Some t \<Rightarrow> do {
          bs \<leftarrow> blocking_triggers c (trap_triggers t);
          if bs \<noteq> []
          then Some (WHP_RESULT_FAILED_PRECONDITION,
                     map_option (\<lambda>_. u32 (length bs)) num_blocking,
                     (case num_blocking of
                        None \<Rightarrow> []
                      | Some n \<Rightarrow>
                          if events_ptr
                          then map (\<lambda>(tr, st). \<lparr>ev_trigger_context = trig_context tr,
                                 ev_result = WHP_RESULT_OK, ev_signals_state = st\<rparr>) (take n bs)
                          else []), c)
          else Some (WHP_RESULT_OK, num_blocking, [],
                     set_obj trap (OTrap (t\<lparr>trap_armed := True\<rparr>)) c) }) }"

subsection \<open>Data pipes\<close>

definition data_end_of :: "HandleKind \<Rightarrow> WhpHandle \<Rightarrow> Core \<Rightarrow> (DataPipeEnd \<times> DataPipeState) option option" where
  "data_end_of kind h c =
     (case Lookup c h of
        None \<Rightarrow> Some None
      | Some s \<Rightarrow> if sl_kind s \<noteq> kind then Some None
                  else do {
                    e \<leftarrow> as_data_end (sl_obj s);
                    ds \<leftarrow> nth_opt (data_heap c) (de_state e);
                    Some (Some (e, ds)) })"

definition set_data :: "nat \<Rightarrow> DataPipeState \<Rightarrow> Core \<Rightarrow> Core" where
  "set_data did ds c = c\<lparr>data_heap := (data_heap c)[did := ds]\<rparr>"

definition WhpCreateDataPipe :: "(nat \<times> nat) option \<Rightarrow> bool \<Rightarrow> bool \<Rightarrow> Core \<Rightarrow>
    (WhpResult \<times> (WhpHandle \<times> WhpHandle) option \<times> Core) option" where
  "WhpCreateDataPipe options producer_ptr consumer_ptr c =
     (if \<not> producer_ptr \<or> \<not> consumer_ptr then Some (WHP_RESULT_INVALID_ARGUMENT, None, c)
      else do {
        let did = length (data_heap c);
        let c0 = c\<lparr>data_heap := data_heap c @ [new_data_pipe options]\<rparr>;
        (p, c1) \<leftarrow> Alloc KDataPipeProducer (ODataPipeEnd \<lparr>de_state = did, de_producer = True\<rparr>) c0;
        (q, c2) \<leftarrow> Alloc KDataPipeConsumer (ODataPipeEnd \<lparr>de_state = did, de_producer = False\<rparr>) c1;
        Some (WHP_RESULT_OK, Some (p, q), c2) })"

text \<open>Trap events are collected only where the code collects them, on success.\<close>

definition collect_if :: "bool \<Rightarrow> Core \<Rightarrow> Core option" where
  "collect_if b c = (if b then CollectTrapEvents c else Some c)"

definition WhpWriteData :: "WhpHandle \<Rightarrow> byte list \<Rightarrow> nat option \<Rightarrow> Core \<Rightarrow>
    (WhpResult \<times> nat option \<times> Core) option" where
  "WhpWriteData producer elements num_bytes c =
     (case num_bytes of
        None \<Rightarrow> Some (WHP_RESULT_INVALID_ARGUMENT, None, c)
      | Some want \<Rightarrow> do {
          de \<leftarrow> data_end_of KDataPipeProducer producer c;
          (case de of
             None \<Rightarrow> Some (WHP_RESULT_INVALID_ARGUMENT, num_bytes, c)
           | Some (e, s) \<Rightarrow> do {
               (r, n, s') \<leftarrow> data_write elements want s;
               c' \<leftarrow> collect_if (r = WHP_RESULT_OK) (set_data (de_state e) s' c);
               Some (r, Some n, c') }) })"

definition WhpReadData :: "WhpHandle \<Rightarrow> nat option \<Rightarrow> Core \<Rightarrow>
    (WhpResult \<times> nat option \<times> byte list \<times> Core) option" where
  "WhpReadData consumer num_bytes c =
     (case num_bytes of
        None \<Rightarrow> Some (WHP_RESULT_INVALID_ARGUMENT, None, [], c)
      | Some want \<Rightarrow> do {
          de \<leftarrow> data_end_of KDataPipeConsumer consumer c;
          (case de of
             None \<Rightarrow> Some (WHP_RESULT_INVALID_ARGUMENT, num_bytes, [], c)
           | Some (e, s) \<Rightarrow> do {
               (r, n, xs, s') \<leftarrow> data_read want s;
               c' \<leftarrow> collect_if (r = WHP_RESULT_OK) (set_data (de_state e) s' c);
               Some (r, Some n, xs, c') }) })"

definition WhpBeginWriteData :: "WhpHandle \<Rightarrow> bool \<Rightarrow> nat option \<Rightarrow> Core \<Rightarrow>
    (WhpResult \<times> nat option \<times> Core) option" where
  "WhpBeginWriteData producer buffer_ptr num_bytes c =
     (case num_bytes of
        None \<Rightarrow> Some (WHP_RESULT_INVALID_ARGUMENT, None, c)
      | Some want \<Rightarrow>
          if \<not> buffer_ptr then Some (WHP_RESULT_INVALID_ARGUMENT, num_bytes, c)
          else do {
            de \<leftarrow> data_end_of KDataPipeProducer producer c;
            (case de of
               None \<Rightarrow> Some (WHP_RESULT_INVALID_ARGUMENT, num_bytes, c)
             | Some (e, s) \<Rightarrow> do {
                 (r, n, s') \<leftarrow> data_begin_write want s;
                 Some (r, Some n, set_data (de_state e) s' c) }) })"

definition WhpEndWriteData :: "WhpHandle \<Rightarrow> nat \<Rightarrow> Core \<Rightarrow> (WhpResult \<times> Core) option" where
  "WhpEndWriteData producer n c = do {
     de \<leftarrow> data_end_of KDataPipeProducer producer c;
     (case de of
        None \<Rightarrow> Some (WHP_RESULT_INVALID_ARGUMENT, c)
      | Some (e, s) \<Rightarrow> do {
          (r, s') \<leftarrow> data_end_write n s;
          c' \<leftarrow> collect_if (r = WHP_RESULT_OK) (set_data (de_state e) s' c);
          Some (r, c') }) }"

definition WhpBeginReadData :: "WhpHandle \<Rightarrow> bool \<Rightarrow> nat option \<Rightarrow> Core \<Rightarrow>
    (WhpResult \<times> nat option \<times> Core) option" where
  "WhpBeginReadData consumer buffer_ptr num_bytes c =
     (case num_bytes of
        None \<Rightarrow> Some (WHP_RESULT_INVALID_ARGUMENT, None, c)
      | Some want \<Rightarrow>
          if \<not> buffer_ptr then Some (WHP_RESULT_INVALID_ARGUMENT, num_bytes, c)
          else do {
            de \<leftarrow> data_end_of KDataPipeConsumer consumer c;
            (case de of
               None \<Rightarrow> Some (WHP_RESULT_INVALID_ARGUMENT, num_bytes, c)
             | Some (e, s) \<Rightarrow> do {
                 (r, n, s') \<leftarrow> data_begin_read want s;
                 Some (r, Some n, set_data (de_state e) s' c) }) })"

definition WhpEndReadData :: "WhpHandle \<Rightarrow> nat \<Rightarrow> Core \<Rightarrow> (WhpResult \<times> Core) option" where
  "WhpEndReadData consumer n c = do {
     de \<leftarrow> data_end_of KDataPipeConsumer consumer c;
     (case de of
        None \<Rightarrow> Some (WHP_RESULT_INVALID_ARGUMENT, c)
      | Some (e, s) \<Rightarrow> do {
          (r, s') \<leftarrow> data_end_read n s;
          c' \<leftarrow> collect_if (r = WHP_RESULT_OK) (set_data (de_state e) s' c);
          Some (r, c') }) }"

end
