(* ===== verification/Whp_Invariant.thy ===== *)
theory Whp_Invariant
  imports Whp_Api
begin

text \<open>
  The invariant of HolePunch's core and that the building blocks of the API keep it.
  \<open>core_inv\<close> says: the handle table is well formed; every handle's object has the type its
  kind promises and refers to states that exist (so no \<open>static_cast\<close> of the source is
  wrong and no state dangles); each end of a message pipe belongs to at most one handle, an
  end that belongs to a handle is open, and its peer is marked closed exactly when no handle
  owns the peer; the trap list holds exactly the trap handles; the positions of every data
  pipe are inside its buffer; every mapping refers to a buffer that exists.
\<close>

definition wf_at :: "nat \<Rightarrow> nat \<Rightarrow> nat \<Rightarrow> Slot \<Rightarrow> bool" where
  "wf_at n_pipes n_data n_bufs s =
     (case sl_obj s of
        NullObj \<Rightarrow> False
      | OPipeEnd e \<Rightarrow> sl_kind s = KMessagePipe \<and> pe_state e < n_pipes \<and> pe_end e < 2
      | OMessage m \<Rightarrow> sl_kind s = KMessage
      | OTrap t \<Rightarrow> sl_kind s = KTrap
      | ODataPipeEnd d \<Rightarrow>
          sl_kind s = (if de_producer d then KDataPipeProducer else KDataPipeConsumer) \<and>
          de_state d < n_data
      | OSharedBuffer b \<Rightarrow> sl_kind s = KSharedBuffer \<and> b < n_bufs
      | OPlatform p \<Rightarrow> sl_kind s = KPlatform)"

definition wf_slot :: "Core \<Rightarrow> Slot \<Rightarrow> bool" where
  "wf_slot c s = wf_at (length (pipe_heap c)) (length (data_heap c)) (length (buf_heap c)) s"

lemma wf_at_mono:
  "wf_at np nd nb s \<Longrightarrow> np \<le> np' \<Longrightarrow> nd \<le> nd' \<Longrightarrow> nb \<le> nb' \<Longrightarrow> wf_at np' nd' nb' s"
  by (auto simp: wf_at_def split: Obj.splits)

definition types_ok :: "Core \<Rightarrow> bool" where
  "types_ok c \<longleftrightarrow> (\<forall>h s. Lookup c h = Some s \<longrightarrow> wf_slot c s)"

text \<open>\<open>owner c h sid e\<close>: handle \<open>h\<close> is end \<open>e\<close> of pipe \<open>sid\<close>.\<close>

definition owner :: "Core \<Rightarrow> WhpHandle \<Rightarrow> nat \<Rightarrow> nat \<Rightarrow> bool" where
  "owner c h sid e \<longleftrightarrow>
     map_option sl_obj (Lookup c h) = Some (OPipeEnd \<lparr>pe_state = sid, pe_end = e\<rparr>)"

definition ends_ok :: "Core \<Rightarrow> bool" where
  "ends_ok c \<longleftrightarrow>
     (\<forall>h h' sid e. owner c h sid e \<longrightarrow> owner c h' sid e \<longrightarrow> h = h') \<and>
     (\<forall>h sid e. owner c h sid e \<longrightarrow>
        \<not> closed (pipe_heap c ! sid) e \<and>
        (closed (pipe_heap c ! sid) (1 - e) \<longleftrightarrow> \<not> (\<exists>h'. owner c h' sid (1 - e))))"

definition traps_ok :: "Core \<Rightarrow> bool" where
  "traps_ok c \<longleftrightarrow> distinct (traps c) \<and>
     (\<forall>h. h \<in> set (traps c) \<longleftrightarrow> map_option sl_kind (Lookup c h) = Some KTrap)"

definition stores_ok :: "Core \<Rightarrow> bool" where
  "stores_ok c \<longleftrightarrow> list_all ring_safe (data_heap c) \<and>
     list_all (\<lambda>(_, m). mr_buf m < length (buf_heap c)) (maps c)"

definition core_inv :: "Core \<Rightarrow> bool" where
  "core_inv c \<longleftrightarrow> table_inv c \<and> types_ok c \<and> ends_ok c \<and> traps_ok c \<and> stores_ok c"

lemmas core_inv_defs = core_inv_def types_ok_def ends_ok_def traps_ok_def stores_ok_def

lemma core_inv_initial: "core_inv initial_core"
proof -
  have "Lookup initial_core h = None" for h by (auto simp: initial_core_def Lookup_def)
  then show ?thesis
    by (simp add: core_inv_defs owner_def) (simp add: initial_core_def)
qed

subsection \<open>Fields that lookups do not read\<close>

lemma Lookup_frame [simp, frame_simps]:
  "Lookup (c\<lparr>pending_events := ev\<rparr>) = Lookup c"
  "Lookup (c\<lparr>traps := ts\<rparr>) = Lookup c"
  "Lookup (c\<lparr>maps := mp\<rparr>) = Lookup c"
  "Lookup (c\<lparr>inited := b\<rparr>) = Lookup c"
  "Lookup (c\<lparr>pipe_heap := ph\<rparr>) = Lookup c"
  "Lookup (c\<lparr>data_heap := dh\<rparr>) = Lookup c"
  "Lookup (c\<lparr>buf_heap := bh\<rparr>) = Lookup c"
  "Lookup (c\<lparr>native_closed := nc\<rparr>) = Lookup c"
  "Lookup (set_pipe sid ps c) = Lookup c"
  "Lookup (set_data did ds c) = Lookup c"
  by (simp_all add: fun_eq_iff Lookup_def set_pipe_def set_data_def)

lemma table_inv_frame [simp, frame_simps]:
  "table_inv (c\<lparr>pending_events := ev\<rparr>) = table_inv c"
  "table_inv (c\<lparr>traps := ts\<rparr>) = table_inv c"
  "table_inv (c\<lparr>maps := mp\<rparr>) = table_inv c"
  "table_inv (c\<lparr>inited := b\<rparr>) = table_inv c"
  "table_inv (c\<lparr>pipe_heap := ph\<rparr>) = table_inv c"
  "table_inv (c\<lparr>data_heap := dh\<rparr>) = table_inv c"
  "table_inv (c\<lparr>buf_heap := bh\<rparr>) = table_inv c"
  "table_inv (c\<lparr>native_closed := nc\<rparr>) = table_inv c"
  "table_inv (set_pipe sid ps c) = table_inv c"
  "table_inv (set_data did ds c) = table_inv c"
  by (simp_all add: table_inv_def set_pipe_def set_data_def)

lemma owner_frame [simp, frame_simps]:
  "owner (c\<lparr>pending_events := ev\<rparr>) = owner c"
  "owner (c\<lparr>traps := ts\<rparr>) = owner c"
  "owner (c\<lparr>maps := mp\<rparr>) = owner c"
  "owner (c\<lparr>inited := b\<rparr>) = owner c"
  "owner (c\<lparr>pipe_heap := ph\<rparr>) = owner c"
  "owner (c\<lparr>data_heap := dh\<rparr>) = owner c"
  "owner (c\<lparr>buf_heap := bh\<rparr>) = owner c"
  "owner (c\<lparr>native_closed := nc\<rparr>) = owner c"
  "owner (set_pipe sid ps c) = owner c"
  "owner (set_data did ds c) = owner c"
  by (simp_all add: fun_eq_iff owner_def)

lemma core_inv_frame [simp, frame_simps]:
  "core_inv (c\<lparr>pending_events := ev\<rparr>) = core_inv c"
  "core_inv (c\<lparr>inited := b\<rparr>) = core_inv c"
  "core_inv (c\<lparr>native_closed := nc\<rparr>) = core_inv c"
  by (simp_all add: core_inv_defs wf_slot_def)

lemma core_inv_wf: "core_inv c \<Longrightarrow> Lookup c h = Some s \<Longrightarrow> wf_slot c s"
  by (simp add: core_inv_defs)

lemma core_inv_table: "core_inv c \<Longrightarrow> table_inv c"
  by (simp add: core_inv_def)

text \<open>What the kind of a slot says of its object.\<close>

lemma wf_slot_kindD:
  assumes "wf_slot c s"
  shows "sl_kind s = KMessagePipe \<Longrightarrow> \<exists>e. sl_obj s = OPipeEnd e \<and> pe_state e < length (pipe_heap c) \<and> pe_end e < 2"
    and "sl_kind s = KMessage \<Longrightarrow> \<exists>m. sl_obj s = OMessage m"
    and "sl_kind s = KTrap \<Longrightarrow> \<exists>t. sl_obj s = OTrap t"
    and "sl_kind s = KDataPipeProducer \<Longrightarrow>
      \<exists>d. sl_obj s = ODataPipeEnd d \<and> de_state d < length (data_heap c) \<and> de_producer d"
    and "sl_kind s = KDataPipeConsumer \<Longrightarrow>
      \<exists>d. sl_obj s = ODataPipeEnd d \<and> de_state d < length (data_heap c) \<and> \<not> de_producer d"
    and "sl_kind s = KSharedBuffer \<Longrightarrow> \<exists>b. sl_obj s = OSharedBuffer b \<and> b < length (buf_heap c)"
    and "sl_kind s = KPlatform \<Longrightarrow> \<exists>p. sl_obj s = OPlatform p"
  using assms by (auto simp: wf_slot_def wf_at_def split: Obj.splits if_splits)

subsection \<open>Changes that keep the invariant\<close>

text \<open>Replacing the object of a message, a trap or a platform handle by another of its kind.\<close>

definition plain :: "Obj \<Rightarrow> bool" where
  "plain ob = (case ob of OPipeEnd _ \<Rightarrow> False | _ \<Rightarrow> True)"

lemma owner_set_obj:
  assumes "Lookup c h = Some s" "plain (sl_obj s)" "plain ob"
  shows "owner (set_obj h ob c) = owner c"
  using assms
  by (auto simp: fun_eq_iff owner_def set_obj_Lookup plain_def split: Obj.splits)

lemma set_obj_fields [simp]:
  "pipe_heap (set_obj h ob c) = pipe_heap c" "data_heap (set_obj h ob c) = data_heap c"
  "buf_heap (set_obj h ob c) = buf_heap c" "maps (set_obj h ob c) = maps c"
  "traps (set_obj h ob c) = traps c" "pending_events (set_obj h ob c) = pending_events c"
  "length (slots (set_obj h ob c)) = length (slots c)" "free_list (set_obj h ob c) = free_list c"
  "native_closed (set_obj h ob c) = native_closed c"
  by (simp_all add: set_obj_def)

lemma core_inv_set_obj:
  assumes inv: "core_inv c" and h: "Lookup c h = Some s"
    and ob: "plain (sl_obj s)" "plain ob" "wf_slot c (s\<lparr>sl_obj := ob\<rparr>)"
  shows "core_inv (set_obj h ob c)"
  using inv table_inv_set_obj [OF core_inv_table [OF inv] h] h ob
  by (simp add: core_inv_defs owner_set_obj [OF h] set_obj_Lookup [OF h] wf_slot_def)

lemma core_inv_set_message:
  assumes "core_inv c" "Lookup c h = Some s" "sl_kind s = KMessage"
  shows "core_inv (set_obj h (OMessage m) c)"
  using assms wf_slot_kindD(2) [OF core_inv_wf [OF assms(1,2)]]
  by (intro core_inv_set_obj) (auto simp: wf_slot_def wf_at_def plain_def)

lemma core_inv_set_trap:
  assumes "core_inv c" "Lookup c h = Some s" "sl_kind s = KTrap"
  shows "core_inv (set_obj h (OTrap t) c)"
  using assms wf_slot_kindD(3) [OF core_inv_wf [OF assms(1,2)]]
  by (intro core_inv_set_obj) (auto simp: wf_slot_def wf_at_def plain_def)

lemma core_inv_set_platform:
  assumes "core_inv c" "Lookup c h = Some s" "sl_kind s = KPlatform"
  shows "core_inv (set_obj h (OPlatform p) c)"
  using assms wf_slot_kindD(7) [OF core_inv_wf [OF assms(1,2)]]
  by (intro core_inv_set_obj) (auto simp: wf_slot_def wf_at_def plain_def)

text \<open>Writing back a pipe whose \<open>closed\<close> flags did not change, and a safe data pipe.\<close>

lemma core_inv_set_pipe:
  assumes "core_inv c" "sid < length (pipe_heap c)" "closed ps = closed (pipe_heap c ! sid)"
  shows "core_inv (set_pipe sid ps c)"
proof -
  have "closed ((pipe_heap c)[sid := ps] ! i) = closed (pipe_heap c ! i)" for i
    using assms by (cases "i = sid") auto
  with assms(1) show ?thesis
    by (simp add: core_inv_defs wf_slot_def) (simp add: set_pipe_def)
qed

lemma core_inv_set_data:
  assumes "core_inv c" "ring_safe ds"
  shows "core_inv (set_data did ds c)"
proof -
  have "list_all ring_safe ((data_heap c)[did := ds])"
    using assms by (auto simp: core_inv_defs list_all_iff dest!: set_update_subset_insert [THEN subsetD])
  with assms(1) show ?thesis
    by (simp add: core_inv_defs wf_slot_def) (simp add: set_data_def)
qed

lemma core_inv_set_buf:
  assumes "core_inv c"
  shows "core_inv (c\<lparr>buf_heap := (buf_heap c)[b := ob]\<rparr>)"
  using assms by (simp add: core_inv_defs wf_slot_def)

lemma set_pipe_fields [simp]:
  "data_heap (set_pipe sid ps c) = data_heap c" "buf_heap (set_pipe sid ps c) = buf_heap c"
  "maps (set_pipe sid ps c) = maps c" "traps (set_pipe sid ps c) = traps c"
  "slots (set_pipe sid ps c) = slots c" "pending_events (set_pipe sid ps c) = pending_events c"
  "length (pipe_heap (set_pipe sid ps c)) = length (pipe_heap c)"
  by (simp_all add: set_pipe_def)

lemma set_data_fields [simp]:
  "pipe_heap (set_data did ds c) = pipe_heap c" "buf_heap (set_data did ds c) = buf_heap c"
  "maps (set_data did ds c) = maps c" "traps (set_data did ds c) = traps c"
  "slots (set_data did ds c) = slots c" "pending_events (set_data did ds c) = pending_events c"
  "length (data_heap (set_data did ds c)) = length (data_heap c)"
  by (simp_all add: set_data_def)

lemma Free_fields [simp]:
  "pipe_heap (Free h c) = pipe_heap c" "data_heap (Free h c) = data_heap c"
  "buf_heap (Free h c) = buf_heap c" "maps (Free h c) = maps c" "traps (Free h c) = traps c"
  "pending_events (Free h c) = pending_events c" "native_closed (Free h c) = native_closed c"
  "length (slots (Free h c)) = length (slots c)"
  by (simp_all add: Free_def)

text \<open>Freeing a handle that is neither a pipe end nor a trap.\<close>

lemma core_inv_Free:
  assumes inv: "core_inv c" and h: "Lookup c h = Some s" and ob: "plain (sl_obj s)" "sl_kind s \<noteq> KTrap"
  shows "core_inv (Free h c)"
proof -
  have L: "Lookup (Free h c) = (Lookup c)(h := None)" and t: "table_inv (Free h c)"
    using Lookup_Free table_inv_Free core_inv_table [OF inv] h by blast+
  have "owner (Free h c) = owner c"
    using h ob(1) by (auto simp: fun_eq_iff owner_def L plain_def)
  moreover have "h \<notin> set (traps c)" using inv h ob(2) by (auto simp: core_inv_defs)
  ultimately show ?thesis using inv t by (auto simp: core_inv_defs L wf_slot_def)
qed

lemma core_inv_Free_message:
  assumes "core_inv c" "Lookup c h = Some s" "sl_kind s = KMessage"
  shows "core_inv (Free h c)"
  using assms wf_slot_kindD(2) [OF core_inv_wf [OF assms(1,2)]]
  by (intro core_inv_Free) (auto simp: plain_def)

text \<open>Freeing a pipe end after marking it closed, and a trap after taking it off the list.\<close>

lemma core_inv_close_end:
  assumes inv: "core_inv c" and h: "Lookup c h = Some s" and e: "sl_obj s = OPipeEnd e"
  shows "core_inv (Free h (set_pipe (pe_state e)
     ((pipe_heap c ! pe_state e)\<lparr>closed := (closed (pipe_heap c ! pe_state e))(pe_end e := True)\<rparr>) c))"
    (is "core_inv (Free h ?c)")
proof -
  have L: "Lookup (Free h ?c) = (Lookup c)(h := None)" and t: "table_inv (Free h ?c)"
    using Lookup_Free [of ?c h s] table_inv_Free [of ?c h s] core_inv_table [OF inv] h by simp_all
  have wf: "pe_state e < length (pipe_heap c)" "pe_end e < 2"
    using core_inv_wf [OF inv h] e by (simp_all add: wf_slot_def wf_at_def)
  have own: "owner (Free h ?c) k sid en \<longleftrightarrow> owner c k sid en \<and> k \<noteq> h" for k sid en
    by (auto simp: owner_def L)
  have me: "owner c h (pe_state e) (pe_end e)" using h e by (simp add: owner_def)
  have cl: "closed (pipe_heap (Free h ?c) ! sid) en \<longleftrightarrow>
      (sid = pe_state e \<and> en = pe_end e) \<or> closed (pipe_heap c ! sid) en" for sid en
    using wf by (simp add: set_pipe_def nth_list_update)
  have uniq: "\<And>k k' sid en. owner c k sid en \<Longrightarrow> owner c k' sid en \<Longrightarrow> k = k'"
    and open_end: "\<And>k sid en. owner c k sid en \<Longrightarrow> \<not> closed (pipe_heap c ! sid) en"
    and peer: "\<And>k sid en. owner c k sid en \<Longrightarrow>
      closed (pipe_heap c ! sid) (1 - en) \<longleftrightarrow> \<not> (\<exists>h'. owner c h' sid (1 - en))"
    using inv unfolding core_inv_defs by blast+
  have only: "owner c h sid en \<Longrightarrow> sid = pe_state e \<and> en = pe_end e" for sid en
    using h e by (auto simp: owner_def)
  have "ends_ok (Free h ?c)"
    unfolding ends_ok_def own cl
  proof (intro conjI allI impI)
    fix k k' sid en
    assume "owner c k sid en \<and> k \<noteq> h" "owner c k' sid en \<and> k' \<noteq> h"
    then show "k = k'" using uniq by blast
  next
    fix k sid en assume k: "owner c k sid en \<and> k \<noteq> h"
    then show "\<not> (sid = pe_state e \<and> en = pe_end e \<or> closed (pipe_heap c ! sid) en)"
      using uniq me open_end by blast
    show "(sid = pe_state e \<and> 1 - en = pe_end e \<or> closed (pipe_heap c ! sid) (1 - en)) \<longleftrightarrow>
        \<not> (\<exists>h'. owner c h' sid (1 - en) \<and> h' \<noteq> h)"
    proof (cases "sid = pe_state e \<and> 1 - en = pe_end e")
      case True
      then have "h' = h" if "owner c h' sid (1 - en)" for h' using that me uniq by simp
      with True show ?thesis by blast
    next
      case False
      then have "\<not> owner c h sid (1 - en)" using only by blast
      with False peer [of k sid en] k show ?thesis by metis
    qed
  qed
  moreover have "h \<notin> set (traps c)" using inv h e wf core_inv_wf [OF inv h] by (auto simp: core_inv_defs wf_slot_def wf_at_def)
  moreover have "types_ok (Free h ?c)" using inv by (simp add: core_inv_defs L wf_slot_def)
  moreover have "stores_ok (Free h ?c)" using inv by (simp add: core_inv_def stores_ok_def)
  ultimately show ?thesis
    using inv t unfolding core_inv_def by (auto simp: traps_ok_def L)
qed

lemma core_inv_close_trap:
  assumes inv: "core_inv c" and h: "Lookup c h = Some s" and k: "sl_kind s = KTrap"
  shows "core_inv (Free h (c\<lparr>pending_events := ev, traps := removeAll h (traps c)\<rparr>))"
    (is "core_inv (Free h ?c)")
proof -
  have L: "Lookup (Free h ?c) = (Lookup c)(h := None)" and t: "table_inv (Free h ?c)"
    using Lookup_Free [of ?c h s] table_inv_Free [of ?c h s] core_inv_table [OF inv] h by simp_all
  obtain tr where "sl_obj s = OTrap tr" using wf_slot_kindD(3) [OF core_inv_wf [OF inv h] k] by blast
  then have "owner (Free h ?c) = owner c"
    using h by (auto simp: fun_eq_iff owner_def L)
  then show ?thesis using inv t by (auto simp: core_inv_defs L wf_slot_def distinct_removeAll)
qed

text \<open>Allocating a handle that is neither a pipe end nor a trap.\<close>

lemma core_inv_Alloc:
  assumes inv: "core_inv c" and room: "handle_room 0 c"
    and s: "kind \<noteq> KFree" "kind \<noteq> KTrap" "plain ob" "wf_slot c \<lparr>sl_kind = kind, sl_obj = ob\<rparr>"
  shows "\<exists>h c'. Alloc kind ob c = Some (h, c') \<and> core_inv c' \<and> h \<noteq> 0 \<and> Lookup c h = None \<and>
     Lookup c' = (Lookup c)(h \<mapsto> \<lparr>sl_kind = kind, sl_obj = ob\<rparr>) \<and>
     length (slots c') \<le> Suc (length (slots c)) \<and> (\<exists>sl fl. c' = c\<lparr>slots := sl, free_list := fl\<rparr>)"
proof -
  obtain h c' where a: "Alloc kind ob c = Some (h, c')" "h \<noteq> 0" "Lookup c h = None" "table_inv c'"
    "Lookup c' = (Lookup c)(h \<mapsto> \<lparr>sl_kind = kind, sl_obj = ob\<rparr>)"
    "length (slots c') \<le> Suc (length (slots c))"
    "\<exists>sl fl. c' = c\<lparr>slots := sl, free_list := fl\<rparr>"
    by (rule Alloc_ok [OF core_inv_table [OF inv] room s(1)])
  have f: "pipe_heap c' = pipe_heap c" "data_heap c' = data_heap c" "buf_heap c' = buf_heap c"
    "maps c' = maps c" "traps c' = traps c" using a(7) by auto
  have "owner c' = owner c" using a(3) s(3) by (auto simp: fun_eq_iff owner_def a(5) plain_def)
  moreover have "h \<notin> set (traps c)" using inv a(3) by (auto simp: core_inv_defs)
  ultimately have "core_inv c'" using inv a(4) s(2,4) f by (auto simp: core_inv_defs a(5) wf_slot_def)
  with a show ?thesis by blast
qed

end
