(* ===== verification/Whp_Traps.thy ===== *)
theory Whp_Traps
  imports Whp_Invariant
begin

text \<open>
  What \<open>CollectTrapEvents\<close> does: it never fails under the invariant, changes nothing but
  the \<open>armed\<close> flags of traps and the queue of pending events, and leaves every trap
  \<open>quiet\<close>: a trap that is still armed has no trigger whose condition holds, so no event
  that is due has been missed.
\<close>

definition slot_frame :: "Slot option \<Rightarrow> Slot option \<Rightarrow> bool" where
  "slot_frame so so' =
     (case so of
        None \<Rightarrow> so' = None
      | Some s \<Rightarrow> (case sl_obj s of
            OTrap t \<Rightarrow> \<exists>b. so' = Some (s\<lparr>sl_obj := OTrap (t\<lparr>trap_armed := b\<rparr>)\<rparr>) \<and> (b \<longrightarrow> trap_armed t)
          | _ \<Rightarrow> so' = so))"

definition trap_frame :: "Core \<Rightarrow> Core \<Rightarrow> bool" where
  "trap_frame c c' \<longleftrightarrow>
     pipe_heap c' = pipe_heap c \<and> data_heap c' = data_heap c \<and> buf_heap c' = buf_heap c \<and>
     maps c' = maps c \<and> traps c' = traps c \<and> native_closed c' = native_closed c \<and>
     free_list c' = free_list c \<and> length (slots c') = length (slots c) \<and>
     (\<exists>es. pending_events c' = pending_events c @ es) \<and>
     (\<forall>h. slot_frame (Lookup c h) (Lookup c' h))"

lemma slot_frame_simps:
  "slot_frame None so' \<longleftrightarrow> so' = None"
  "sl_obj s = OTrap t \<Longrightarrow> slot_frame (Some s) so' \<longleftrightarrow>
     (\<exists>b. so' = Some (s\<lparr>sl_obj := OTrap (t\<lparr>trap_armed := b\<rparr>)\<rparr>) \<and> (b \<longrightarrow> trap_armed t))"
  "(\<And>t. sl_obj s \<noteq> OTrap t) \<Longrightarrow> slot_frame (Some s) so' \<longleftrightarrow> so' = Some s"
  by (auto simp: slot_frame_def split: Obj.splits)

lemma slot_frame_refl [simp]: "slot_frame so so"
proof (cases so)
  case (Some s)
  then show ?thesis
  proof (cases "\<exists>t. sl_obj s = OTrap t")
    case True
    then obtain t where t: "sl_obj s = OTrap t" by blast
    have "s = s\<lparr>sl_obj := OTrap (t\<lparr>trap_armed := trap_armed t\<rparr>)\<rparr>" using t by (cases s) simp
    then show ?thesis unfolding Some slot_frame_simps(2) [OF t] by blast
  qed (auto simp: Some slot_frame_simps(3))
qed (simp add: slot_frame_simps)

lemma slot_frame_trans:
  assumes "slot_frame a b" "slot_frame b c"
  shows "slot_frame a c"
proof (cases a)
  case (Some s)
  show ?thesis
  proof (cases "\<exists>t. sl_obj s = OTrap t")
    case True
    then obtain t where t: "sl_obj s = OTrap t" by blast
    with assms(1) Some obtain x where b: "b = Some (s\<lparr>sl_obj := OTrap (t\<lparr>trap_armed := x\<rparr>)\<rparr>)"
      "x \<longrightarrow> trap_armed t" by (auto simp: slot_frame_simps(2))
    have "sl_obj (s\<lparr>sl_obj := OTrap (t\<lparr>trap_armed := x\<rparr>)\<rparr>) = OTrap (t\<lparr>trap_armed := x\<rparr>)" by simp
    from assms(2) [unfolded b(1) slot_frame_simps(2) [OF this]] b(2) show ?thesis
      by (auto simp: Some slot_frame_simps(2) [OF t])
  next
    case False
    with assms Some show ?thesis by (auto simp: slot_frame_simps(3))
  qed
qed (use assms in \<open>auto simp: slot_frame_simps(1)\<close>)

lemma trap_frame_refl [simp]: "trap_frame c c"
  by (simp add: trap_frame_def)

lemma trap_frame_trans: "trap_frame a b \<Longrightarrow> trap_frame b c \<Longrightarrow> trap_frame a c"
  unfolding trap_frame_def by (auto intro: slot_frame_trans)

lemma trap_frame_Lookup_None: "trap_frame c c' \<Longrightarrow> Lookup c h = None \<Longrightarrow> Lookup c' h = None"
  unfolding trap_frame_def by (metis slot_frame_simps(1))

lemma trap_frame_Lookup_other:
  "trap_frame c c' \<Longrightarrow> Lookup c h = Some s \<Longrightarrow> (\<And>t. sl_obj s \<noteq> OTrap t) \<Longrightarrow> Lookup c' h = Some s"
  unfolding trap_frame_def by (metis slot_frame_simps(3))

lemma trap_frame_Lookup_trap:
  "trap_frame c c' \<Longrightarrow> Lookup c h = Some s \<Longrightarrow> sl_obj s = OTrap t \<Longrightarrow>
   \<exists>b. Lookup c' h = Some (s\<lparr>sl_obj := OTrap (t\<lparr>trap_armed := b\<rparr>)\<rparr>) \<and> (b \<longrightarrow> trap_armed t)"
  unfolding trap_frame_def by (metis slot_frame_simps(2))

lemma QueryLocked_total: "core_inv c \<Longrightarrow> \<exists>st. QueryLocked c h = Some st"
  by (cases "Lookup c h")
    (auto simp: QueryLocked_def dest!: core_inv_wf dest: wf_slot_kindD)

text \<open>Signals do not depend on the state of traps.\<close>

lemma QueryLocked_frame:
  assumes inv: "core_inv c" and f: "trap_frame c c'"
  shows "QueryLocked c' h = QueryLocked c h"
proof (cases "Lookup c h")
  case None
  then have "Lookup c' h = None" using trap_frame_Lookup_None [OF f] by simp
  with None show ?thesis by (simp add: QueryLocked_def)
next
  case (Some s)
  have heaps: "pipe_heap c' = pipe_heap c" "data_heap c' = data_heap c"
    using f by (auto simp: trap_frame_def)
  show ?thesis
  proof (cases "\<exists>t. sl_obj s = OTrap t")
    case True
    then obtain t where t: "sl_obj s = OTrap t" by blast
    then have "sl_kind s = KTrap" using core_inv_wf [OF inv Some] by (simp add: wf_slot_def wf_at_def)
    with trap_frame_Lookup_trap [OF f Some t] Some show ?thesis by (auto simp: QueryLocked_def)
  next
    case False
    then have "Lookup c' h = Some s" using trap_frame_Lookup_other [OF f Some] by blast
    with Some heaps show ?thesis by (simp add: QueryLocked_def)
  qed
qed

lemma first_match_total: "core_inv c \<Longrightarrow> \<exists>m. first_match c trs = Some m"
proof (induction trs)
  case (Cons tr trs)
  moreover obtain st where "QueryLocked c (trig_watched tr) = Some st"
    using QueryLocked_total [OF Cons.prems] by blast
  ultimately show ?case by auto
qed simp

lemma first_match_frame: "core_inv c \<Longrightarrow> trap_frame c c' \<Longrightarrow> first_match c' trs = first_match c trs"
proof (induction trs)
  case (Cons tr trs)
  then show ?case
    by (cases "QueryLocked c (trig_watched tr)") (simp_all add: QueryLocked_frame [of c c'])
qed simp

text \<open>A trap handle is quiet when it is not waiting for something that already holds.\<close>

definition quiet_trap :: "Core \<Rightarrow> WhpHandle \<Rightarrow> bool" where
  "quiet_trap c h =
     (case Lookup c h of
        None \<Rightarrow> True
      | Some s \<Rightarrow> (case sl_obj s of
            OTrap t \<Rightarrow> trap_armed t \<and> trap_handler t \<noteq> None \<longrightarrow> first_match c (trap_triggers t) = Some None
          | _ \<Rightarrow> True))"

definition quiet :: "Core \<Rightarrow> bool" where
  "quiet c \<longleftrightarrow> (\<forall>h. quiet_trap c h)"

lemma quiet_trap_frame:
  assumes inv: "core_inv c" and f: "trap_frame c c'" and q: "quiet_trap c h"
  shows "quiet_trap c' h"
proof (cases "Lookup c h")
  case None
  then have "Lookup c' h = None" using trap_frame_Lookup_None [OF f] by simp
  then show ?thesis by (simp add: quiet_trap_def)
next
  case (Some s)
  show ?thesis
  proof (cases "\<exists>t. sl_obj s = OTrap t")
    case True
    then obtain t where t: "sl_obj s = OTrap t" by blast
    with trap_frame_Lookup_trap [OF f Some t] Some q first_match_frame [OF inv f] show ?thesis
      by (auto simp: quiet_trap_def)
  next
    case False
    then have "Lookup c' h = Some s" using trap_frame_Lookup_other [OF f Some] by blast
    with False Some show ?thesis by (auto simp: quiet_trap_def split: Obj.splits)
  qed
qed

lemma collect_trap_ok:
  assumes inv: "core_inv c"
  shows "\<exists>c'. collect_trap th c = Some c' \<and> core_inv c' \<and> trap_frame c c' \<and> quiet_trap c' th"
proof (cases "Lookup c th")
  case None
  then show ?thesis using inv by (simp add: collect_trap_def quiet_trap_def)
next
  case (Some s)
  note wf = core_inv_wf [OF inv Some]
  show ?thesis
  proof (cases "sl_kind s = KTrap")
    case False
    then show ?thesis using inv Some wf
      by (auto simp: collect_trap_def quiet_trap_def wf_slot_def wf_at_def split: Obj.splits)
  next
    case True
    then obtain t where t: "sl_obj s = OTrap t" using wf_slot_kindD(3) [OF wf] by blast
    obtain m where m: "first_match c (trap_triggers t) = Some m"
      using first_match_total [OF inv] by blast
    show ?thesis
    proof (cases "trap_armed t \<and> trap_handler t \<noteq> None \<and> m \<noteq> None")
      case False
      then show ?thesis using inv Some True t m
        by (auto simp: collect_trap_def quiet_trap_def split: option.splits)
    next
      case armed: True
      then obtain f tr st where f: "trap_handler t = Some f" and ts: "m = Some (tr, st)" by auto
      let ?c = "(set_obj th (OTrap (t\<lparr>trap_armed := False\<rparr>)) c)
          \<lparr>pending_events := pending_events c @ [\<lparr>pend_handler = f, pend_event = trap_event tr st\<rparr>]\<rparr>"
      have L: "Lookup ?c = (Lookup c)(th \<mapsto> s\<lparr>sl_obj := OTrap (t\<lparr>trap_armed := False\<rparr>)\<rparr>)"
        by (simp add: set_obj_Lookup [OF Some])
      have "slot_frame (Lookup c h) (Lookup ?c h)" for h
        using t Some unfolding L by (auto simp: slot_frame_simps(2))
      then have "trap_frame c ?c" by (simp add: trap_frame_def)
      moreover have "core_inv ?c" using core_inv_set_trap [OF inv Some True] by simp
      moreover have "quiet_trap ?c th" by (simp add: quiet_trap_def set_obj_Lookup [OF Some])
      moreover have "collect_trap th c = Some ?c"
        using Some True t m ts f armed by (simp add: collect_trap_def)
      ultimately show ?thesis by blast
    qed
  qed
qed

lemma collect_traps_ok:
  "core_inv c \<Longrightarrow> \<exists>c'. collect_traps ths c = Some c' \<and> core_inv c' \<and> trap_frame c c' \<and>
     (\<forall>h \<in> set ths. quiet_trap c' h)"
proof (induction ths arbitrary: c)
  case Nil
  then show ?case by simp
next
  case (Cons th ths)
  obtain c1 where c1: "collect_trap th c = Some c1" "core_inv c1" "trap_frame c c1" "quiet_trap c1 th"
    using collect_trap_ok [OF Cons.prems] by blast
  obtain c2 where c2: "collect_traps ths c1 = Some c2" "core_inv c2" "trap_frame c1 c2"
    "\<forall>h \<in> set ths. quiet_trap c2 h"
    using Cons.IH [OF c1(2)] by blast
  have "trap_frame c c2" using c1(3) c2(3) by (rule trap_frame_trans)
  moreover have "quiet_trap c2 th" using c1(2) c2(3) c1(4) by (rule quiet_trap_frame)
  ultimately show ?case using c1 c2 by (intro exI [of _ c2]) simp
qed

lemma CollectTrapEvents_ok:
  assumes inv: "core_inv c"
  shows "\<exists>c'. CollectTrapEvents c = Some c' \<and> core_inv c' \<and> trap_frame c c' \<and> quiet c'"
proof -
  obtain c' where c': "collect_traps (traps c) c = Some c'" "core_inv c'" "trap_frame c c'"
    "\<forall>h \<in> set (traps c). quiet_trap c' h"
    using collect_traps_ok [OF inv] by blast
  have "quiet_trap c' h" for h
  proof (cases "h \<in> set (traps c)")
    case True
    with c' show ?thesis by blast
  next
    case False
    moreover have "traps c' = traps c" using c'(3) by (simp add: trap_frame_def)
    ultimately have "map_option sl_kind (Lookup c' h) \<noteq> Some KTrap"
      using c'(2) by (simp add: core_inv_defs)
    then show ?thesis using c'(2)
      by (auto simp: quiet_trap_def wf_slot_def wf_at_def dest!: core_inv_wf
          split: option.splits Obj.splits)
  qed
  with c' show ?thesis by (auto simp: CollectTrapEvents_def quiet_def)
qed

text \<open>The other objects are untouched.\<close>

lemma trap_frame_cases:
  assumes "core_inv c" "trap_frame c c'"
  obtains (none) "Lookup c h = None" "Lookup c' h = None"
  | (other) s where "Lookup c h = Some s" "Lookup c' h = Some s" "sl_kind s \<noteq> KTrap"
  | (trp) s t b where "Lookup c h = Some s" "sl_kind s = KTrap" "sl_obj s = OTrap t"
      "Lookup c' h = Some (s\<lparr>sl_obj := OTrap (t\<lparr>trap_armed := b\<rparr>)\<rparr>)"
proof (cases "Lookup c h")
  case None
  then show ?thesis using trap_frame_Lookup_None [OF assms(2) None] by (rule none)
next
  case (Some s)
  note wf = core_inv_wf [OF assms(1) Some]
  show ?thesis
  proof (cases "sl_kind s = KTrap")
    case True
    then obtain t where "sl_obj s = OTrap t" using wf_slot_kindD(3) [OF wf] by blast
    moreover from this obtain b where "Lookup c' h = Some (s\<lparr>sl_obj := OTrap (t\<lparr>trap_armed := b\<rparr>)\<rparr>)"
      using trap_frame_Lookup_trap [OF assms(2) Some] by blast
    ultimately show ?thesis using Some True by (intro trp)
  next
    case False
    then have "sl_obj s \<noteq> OTrap t" for t using wf by (auto simp: wf_slot_def wf_at_def)
    then have "Lookup c' h = Some s" using trap_frame_Lookup_other [OF assms(2) Some] by simp
    with Some show ?thesis using False by (rule other)
  qed
qed

lemma prologue_frame:
  assumes inv: "core_inv c" and f: "trap_frame c c'"
  shows pipe_end_of_frame: "pipe_end_of h c' = pipe_end_of h c"
    and message_of_frame: "message_of h c' = message_of h c"
    and data_end_of_frame: "k \<noteq> KTrap \<Longrightarrow> data_end_of k h c' = data_end_of k h c"
proof -
  have heaps: "pipe_heap c' = pipe_heap c" "data_heap c' = data_heap c"
    using f by (auto simp: trap_frame_def)
  show "pipe_end_of h c' = pipe_end_of h c" "message_of h c' = message_of h c"
    "k \<noteq> KTrap \<Longrightarrow> data_end_of k h c' = data_end_of k h c"
    using heaps by (cases rule: trap_frame_cases [OF inv f, of h];
      simp add: pipe_end_of_def message_of_def data_end_of_def)+
qed

text \<open>Nothing blocks arming exactly when no trigger matches, and writing a trap's own object
  does not change what matches.\<close>

lemma blocking_triggers_Nil_iff:
  "blocking_triggers c trs = Some bs \<Longrightarrow> bs = [] \<longleftrightarrow> first_match c trs = Some None"
proof (induction trs arbitrary: bs)
  case (Cons tr trs)
  then obtain st rest where "QueryLocked c (trig_watched tr) = Some st" "blocking_triggers c trs = Some rest"
    by (auto simp: option_bind_Some_iff)
  with Cons show ?case by (auto split: if_splits)
qed simp

lemma first_match_set_trap:
  assumes "core_inv c" "Lookup c h = Some s" "sl_kind s = KTrap"
  shows "first_match (set_obj h (OTrap t) c) trs = first_match c trs"
proof (induction trs)
  case (Cons tr trs)
  have "QueryLocked (set_obj h (OTrap t) c) k = QueryLocked c k" for k
    unfolding QueryLocked_def set_obj_fields set_obj_Lookup [OF assms(2)]
    using assms(2,3) by (cases "k = h") simp_all
  with Cons show ?case by (cases "QueryLocked c (trig_watched tr)") simp_all
qed simp

lemma CollectTrapEvents_quiet: "core_inv c \<Longrightarrow> CollectTrapEvents c = Some c' \<Longrightarrow> quiet c'"
  using CollectTrapEvents_ok by fastforce

end
