(* ===== verification/Whp_Safety.thy ===== *)
theory Whp_Safety
  imports Whp_Traps
begin

text \<open>
  Every call of the API is defined (no undefined behaviour) and keeps \<open>core_inv\<close>, whatever
  its arguments.  The client's functions are assumed to keep the invariant too: they can only
  reach the core through this API.
\<close>

definition env_ok :: "Env \<Rightarrow> bool" where
  "env_ok env \<longleftrightarrow>
     (\<forall>f x h c. core_inv c \<longrightarrow> core_inv (run_serializer env f x h c)) \<and>
     (\<forall>f x c. core_inv c \<longrightarrow> core_inv (run_destructor env f x c)) \<and>
     (\<forall>f ev c. core_inv c \<longrightarrow> core_inv (run_handler env f ev c))"

lemma run_dtor_inv: "env_ok env \<Longrightarrow> core_inv c \<Longrightarrow> core_inv (run_dtor env d c)"
  by (auto simp: run_dtor_def env_ok_def split: option.splits)

subsection \<open>The prologues\<close>

lemma message_of_cases:
  assumes "core_inv c"
  obtains (bad) "message_of h c = Some None"
  | (msg) s m where "Lookup c h = Some s" "sl_kind s = KMessage" "sl_obj s = OMessage m"
      "message_of h c = Some (Some m)"
proof (cases "Lookup c h")
  case None
  then show ?thesis by (intro bad) (simp add: message_of_def)
next
  case (Some s)
  show ?thesis
  proof (cases "sl_kind s = KMessage")
    case True
    then obtain m where "sl_obj s = OMessage m"
      using wf_slot_kindD(2) [OF core_inv_wf [OF assms Some]] by blast
    with True Some show ?thesis by (intro msg [of s m]) (simp_all add: message_of_def)
  qed (use Some in \<open>auto intro!: bad simp: message_of_def\<close>)
qed

lemma trap_of_cases:
  assumes "core_inv c"
  obtains (bad) "trap_of h c = Some None"
  | (trp) s t where "Lookup c h = Some s" "sl_kind s = KTrap" "sl_obj s = OTrap t"
      "trap_of h c = Some (Some t)"
proof (cases "Lookup c h")
  case None
  then show ?thesis by (intro bad) (simp add: trap_of_def)
next
  case (Some s)
  show ?thesis
  proof (cases "sl_kind s = KTrap")
    case True
    then obtain t where "sl_obj s = OTrap t"
      using wf_slot_kindD(3) [OF core_inv_wf [OF assms Some]] by blast
    with True Some show ?thesis by (intro trp [of s t]) (simp_all add: trap_of_def)
  qed (use Some in \<open>auto intro!: bad simp: trap_of_def\<close>)
qed

lemma pipe_end_of_cases:
  assumes "core_inv c"
  obtains (bad) "pipe_end_of h c = Some None"
  | (pipe) s e where "Lookup c h = Some s" "sl_kind s = KMessagePipe" "sl_obj s = OPipeEnd e"
      "pe_state e < length (pipe_heap c)" "pe_end e < 2"
      "owner c h (pe_state e) (pe_end e)"
      "pipe_end_of h c = Some (Some (e, pipe_heap c ! pe_state e))"
proof (cases "Lookup c h")
  case None
  then show ?thesis by (intro bad) (simp add: pipe_end_of_def)
next
  case (Some s)
  show ?thesis
  proof (cases "sl_kind s = KMessagePipe")
    case True
    then obtain e where "sl_obj s = OPipeEnd e" "pe_state e < length (pipe_heap c)" "pe_end e < 2"
      using wf_slot_kindD(1) [OF core_inv_wf [OF assms Some]] by blast
    with True Some show ?thesis by (intro pipe [of s e]) (simp_all add: pipe_end_of_def owner_def)
  qed (use Some in \<open>auto intro!: bad simp: pipe_end_of_def\<close>)
qed

lemma data_end_of_cases:
  assumes "core_inv c" "kind = KDataPipeProducer \<or> kind = KDataPipeConsumer"
  obtains (bad) "data_end_of kind h c = Some None"
  | (data) s d where "Lookup c h = Some s" "sl_kind s = kind" "sl_obj s = ODataPipeEnd d"
      "de_state d < length (data_heap c)" "ring_safe (data_heap c ! de_state d)"
      "data_end_of kind h c = Some (Some (d, data_heap c ! de_state d))"
proof (cases "Lookup c h")
  case None
  then show ?thesis by (intro bad) (simp add: data_end_of_def)
next
  case (Some s)
  show ?thesis
  proof (cases "sl_kind s = kind")
    case True
    then obtain d where d: "sl_obj s = ODataPipeEnd d" "de_state d < length (data_heap c)"
      using wf_slot_kindD(4,5) [OF core_inv_wf [OF assms(1) Some]] assms(2) by blast
    moreover have "ring_safe (data_heap c ! de_state d)"
      using assms(1) d(2) by (simp add: core_inv_defs list_all_length)
    ultimately show ?thesis using True Some
      by (intro data [of s d]) (simp_all add: data_end_of_def)
  qed (use Some in \<open>auto intro!: bad simp: data_end_of_def\<close>)
qed

subsection \<open>Closing\<close>

lemma CloseNativePlatform_inv [simp]: "core_inv (CloseNativePlatform hst ty v c) = core_inv c"
  by (simp add: CloseNativePlatform_def)

lemma fold_CloseNative_inv:
  "core_inv (fold (\<lambda>(ty, v). CloseNativePlatform hst ty v) ps c) = core_inv c"
  by (induction ps arbitrary: c) (auto split: prod.splits)

lemma drop_buffer_safe:
  assumes "core_inv c" "b < length (buf_heap c)"
  shows "\<exists>c'. drop_buffer hst b c = Some c' \<and> core_inv c'"
  using assms by (simp add: drop_buffer_def Let_def fold_CloseNative_inv core_inv_set_buf)

text \<open>The state right after the object is closed and the handle freed.\<close>

lemma close_and_free_safe:
  assumes inv: "core_inv c" and h: "Lookup c h = Some s"
  shows "\<exists>c1 d c2. close_object env h s c = Some (c1, d) \<and> free_and_drop env h s c1 = Some c2 \<and> core_inv c2"
proof -
  note wf = core_inv_wf [OF inv h]
  show ?thesis
  proof (cases "sl_kind s")
    case KFree
    then show ?thesis using h by (simp add: Lookup_Some_iff)
  next
    case KMessagePipe
    then obtain e where e: "sl_obj s = OPipeEnd e" "pe_state e < length (pipe_heap c)"
      using wf_slot_kindD(1) [OF wf] by blast
    then show ?thesis using KMessagePipe core_inv_close_end [OF inv h e(1)]
      by (simp add: close_object_def free_and_drop_def set_pipe_def)
  next
    case KMessage
    then obtain m where m: "sl_obj s = OMessage m" using wf_slot_kindD(2) [OF wf] by blast
    let ?m = "OMessage (m\<lparr>msg_destructor := None, msg_serializer := None\<rparr>)"
    have "core_inv (Free h (set_obj h ?m c))"
      using core_inv_Free_message [of "set_obj h ?m c" h "s\<lparr>sl_obj := ?m\<rparr>"] KMessage
        core_inv_set_message [OF inv h KMessage] by (simp add: set_obj_Lookup [OF h])
    then show ?thesis using KMessage m by (simp add: close_object_def free_and_drop_def)
  next
    case KTrap
    then obtain t where t: "sl_obj s = OTrap t" using wf_slot_kindD(3) [OF wf] by blast
    then show ?thesis using KTrap core_inv_close_trap [OF inv h KTrap]
      by (simp add: close_object_def free_and_drop_def Let_def)
  next
    case KDataPipeProducer
    then obtain d where d: "sl_obj s = ODataPipeEnd d" "de_state d < length (data_heap c)"
      using wf_slot_kindD(4) [OF wf] by blast
    let ?ds = "(data_heap c ! de_state d)\<lparr>producer_closed := True\<rparr>"
    have "ring_safe ?ds" using inv d(2) by (simp add: core_inv_defs list_all_length ring_safe_def)
    then have "core_inv (Free h (set_data (de_state d) ?ds c))"
      using core_inv_Free [of "set_data (de_state d) ?ds c" h s] core_inv_set_data [OF inv] h d KDataPipeProducer
      by (simp add: plain_def)
    then show ?thesis using KDataPipeProducer d
      by (simp add: close_object_def free_and_drop_def set_data_def)
  next
    case KDataPipeConsumer
    then obtain d where d: "sl_obj s = ODataPipeEnd d" "de_state d < length (data_heap c)"
      using wf_slot_kindD(5) [OF wf] by blast
    let ?ds = "(data_heap c ! de_state d)\<lparr>consumer_closed := True\<rparr>"
    have "ring_safe ?ds" using inv d(2) by (simp add: core_inv_defs list_all_length ring_safe_def)
    then have "core_inv (Free h (set_data (de_state d) ?ds c))"
      using core_inv_Free [of "set_data (de_state d) ?ds c" h s] core_inv_set_data [OF inv] h d KDataPipeConsumer
      by (simp add: plain_def)
    then show ?thesis using KDataPipeConsumer d
      by (simp add: close_object_def free_and_drop_def set_data_def)
  next
    case KSharedBuffer
    then obtain b where b: "sl_obj s = OSharedBuffer b" "b < length (buf_heap c)"
      using wf_slot_kindD(6) [OF wf] by blast
    have "core_inv (Free h c)" using core_inv_Free [OF inv h] b KSharedBuffer by (simp add: plain_def)
    then show ?thesis using KSharedBuffer b drop_buffer_safe [of "Free h c" b]
      by (simp add: close_object_def free_and_drop_def)
  next
    case KPlatform
    then obtain p where p: "sl_obj s = OPlatform p" using wf_slot_kindD(7) [OF wf] by blast
    have plain_case: "core_inv (Free h c)"
      using core_inv_Free [OF inv h] p KPlatform by (simp add: plain_def)
    let ?o = "OPlatform (p\<lparr>plat_owned := False\<rparr>)"
    let ?c = "CloseNativePlatform (host env) (plat_type p) (plat_value p) (set_obj h ?o c)"
    have "Lookup ?c h = Some (s\<lparr>sl_obj := ?o\<rparr>)"
      by (simp add: CloseNativePlatform_def set_obj_Lookup [OF h])
    moreover have "core_inv ?c" using core_inv_set_platform [OF inv h KPlatform] by simp
    ultimately have "core_inv (Free h ?c)" using KPlatform by (intro core_inv_Free) (auto simp: plain_def)
    with plain_case show ?thesis using KPlatform p by (simp add: close_object_def free_and_drop_def)
  qed
qed

lemma WhpClose_safe:
  assumes inv: "core_inv c" and env: "env_ok env"
  shows "\<exists>r c'. WhpClose env h c = Some (r, c') \<and> core_inv c'"
proof (cases "Lookup c h")
  case None
  with inv show ?thesis by (simp add: WhpClose_def)
next
  case (Some s)
  obtain c1 d c2 where a: "close_object env h s c = Some (c1, d)"
    "free_and_drop env h s c1 = Some c2" "core_inv c2"
    using close_and_free_safe [OF inv Some] by blast
  obtain c3 where "CollectTrapEvents c2 = Some c3" "core_inv c3"
    using CollectTrapEvents_ok [OF a(3)] by blast
  with Some a run_dtor_inv [OF env] show ?thesis by (simp add: WhpClose_def)
qed

lemma WhpPumpEvents_safe:
  assumes "core_inv c" and env: "env_ok env"
  shows "core_inv (snd (WhpPumpEvents env c))"
proof -
  have run: "core_inv c0 \<Longrightarrow> core_inv (fold (\<lambda>e. run_handler env (pend_handler e) (pend_event e)) es c0)" for es c0
    using env by (induction es arbitrary: c0) (auto simp: env_ok_def)
  show ?thesis
    using run [of "c\<lparr>pending_events := []\<rparr>" "pending_events c"] assms(1) by (simp add: WhpPumpEvents_def)
qed

subsection \<open>Messages\<close>

lemma WhpCreateMessage_safe:
  assumes "core_inv c" "handle_room 0 c"
  shows "\<exists>r out c'. WhpCreateMessage p c = Some (r, out, c') \<and> core_inv c'"
  using core_inv_Alloc [OF assms, of KMessage "OMessage new_message"] assms(1)
  by (auto simp: WhpCreateMessage_def plain_def wf_slot_def wf_at_def)

lemma WhpAppendMessageData_safe:
  assumes inv: "core_inv c"
  shows "\<exists>r out c'. WhpAppendMessageData message n hs commit c = Some (r, out, c') \<and> core_inv c'"
  using inv by (cases rule: message_of_cases [OF inv, of message, case_names bad msg])
    (auto simp: WhpAppendMessageData_def Let_def intro: core_inv_set_message)

lemma WhpGetMessageData_safe:
  assumes inv: "core_inv c"
  shows "\<exists>r n b hs k c'. WhpGetMessageData message hp num c = Some (r, n, b, hs, k, c') \<and> core_inv c'"
  using inv by (cases rule: message_of_cases [OF inv, of message, case_names bad msg])
    (auto simp: WhpGetMessageData_def Let_def intro: core_inv_set_message)

lemma serialize_finish_safe:
  assumes inv: "core_inv c" and env: "env_ok env"
  shows "\<exists>r c'. serialize_finish env message c = Some (r, c') \<and> core_inv c'"
  using inv by (cases rule: message_of_cases [OF inv, of message, case_names bad msg])
    (auto simp: serialize_finish_def intro!: run_dtor_inv [OF env] core_inv_set_message)

lemma WhpSerializeMessage_safe:
  assumes inv: "core_inv c" and env: "env_ok env"
  shows "\<exists>r c'. WhpSerializeMessage env message c = Some (r, c') \<and> core_inv c'"
proof (cases rule: message_of_cases [OF inv, of message, case_names bad msg])
  case bad
  with inv show ?thesis by (simp add: WhpSerializeMessage_def)
next
  case (msg s m)
  let ?c1 = "set_obj message (OMessage (m\<lparr>msg_serializer := None\<rparr>)) c"
  let ?c2 = "case msg_serializer m of None \<Rightarrow> ?c1 | Some f \<Rightarrow> run_serializer env f (msg_context m) message ?c1"
  have "core_inv ?c1" using core_inv_set_message [OF inv msg(1,2)] by simp
  then have "core_inv ?c2" using env by (auto simp: env_ok_def split: option.splits)
  from serialize_finish_safe [OF this env] msg inv show ?thesis
    by (auto simp: WhpSerializeMessage_def Let_def)
qed

lemma WhpReserveMessageCapacity_safe:
  assumes inv: "core_inv c"
  shows "\<exists>r out c'. WhpReserveMessageCapacity message n c = Some (r, out, c') \<and> core_inv c'"
  using inv by (cases rule: message_of_cases [OF inv, of message, case_names bad msg])
    (auto simp: WhpReserveMessageCapacity_def Let_def intro: core_inv_set_message)

lemma WhpSetMessageContext_safe:
  assumes inv: "core_inv c" and env: "env_ok env"
  shows "\<exists>r c'. WhpSetMessageContext env message ctx ser dtor c = Some (r, c') \<and> core_inv c'"
  using inv by (cases rule: message_of_cases [OF inv, of message, case_names bad msg])
    (auto simp: WhpSetMessageContext_def intro!: run_dtor_inv [OF env] core_inv_set_message)

lemma WhpGetMessageContext_safe:
  assumes inv: "core_inv c"
  shows "\<exists>r out. WhpGetMessageContext message p c = Some (r, out)"
  by (cases rule: message_of_cases [OF inv, of message, case_names bad msg])
    (auto simp: WhpGetMessageContext_def)

lemma WhpQueryHandleSignalsState_safe:
  assumes inv: "core_inv c"
  shows "\<exists>r out. WhpQueryHandleSignalsState h p c = Some (r, out)"
  using QueryLocked_total [OF inv, of h] by (auto simp: WhpQueryHandleSignalsState_def)

subsection \<open>Message pipes\<close>

lemma write_locked_safe:
  assumes inv: "core_inv c"
  shows "\<exists>r c'. write_locked pipe message c = Some (r, c') \<and> core_inv c' \<and> (r = WHP_RESULT_OK \<longrightarrow> quiet c')"
proof (cases rule: message_of_cases [OF inv, of message, case_names bad msg])
  case bad
  then show ?thesis using inv
    by (cases rule: pipe_end_of_cases [OF inv, of pipe, case_names bad pipe]) (simp_all add: write_locked_def)
next
  case (msg ms m)
  show ?thesis
  proof (cases rule: pipe_end_of_cases [OF inv, of pipe, case_names bad pipe])
    case bad
    with msg inv show ?thesis by (simp add: write_locked_def)
  next
    case (pipe s e)
    let ?ps = "pipe_heap c ! pe_state e"
    let ?c = "set_pipe (pe_state e) (?ps\<lparr>queues := (queues ?ps)(1 - pe_end e :=
        queues ?ps (1 - pe_end e) @ [m\<lparr>msg_committed := True\<rparr>])\<rparr>) c"
    have "core_inv ?c" using inv pipe(4) by (intro core_inv_set_pipe) simp_all
    then have "core_inv (Free message ?c)" "core_inv (Free message c)"
      using core_inv_Free_message [of ?c message ms] core_inv_Free_message [OF inv] msg by simp_all
    from CollectTrapEvents_ok [OF this(1)] CollectTrapEvents_ok [OF this(2)] pipe msg inv
    show ?thesis by (auto simp: write_locked_def Let_def)
  qed
qed

lemma WhpWriteMessage_safe:
  assumes inv: "core_inv c" and env: "env_ok env"
  shows "\<exists>r c'. WhpWriteMessage env pipe message c = Some (r, c') \<and> core_inv c'"
proof -
  obtain r1 c1 where "WhpSerializeMessage env message c = Some (r1, c1)" "core_inv c1"
    using WhpSerializeMessage_safe [OF inv env] by blast
  then show ?thesis using write_locked_safe [of c1 pipe message] by (auto simp: WhpWriteMessage_def)
qed

lemma WhpReadMessage_safe:
  assumes inv: "core_inv c" and room: "handle_room 0 c"
  shows "\<exists>r out c'. WhpReadMessage pipe p c = Some (r, out, c') \<and> core_inv c'"
proof (cases rule: pipe_end_of_cases [OF inv, of pipe, case_names bad pipe])
  case bad
  with inv show ?thesis by (simp add: WhpReadMessage_def)
next
  case (pipe s e)
  let ?ps = "pipe_heap c ! pe_state e"
  show ?thesis
  proof (cases "queues ?ps (pe_end e)")
    case Nil
    with pipe inv show ?thesis by (simp add: WhpReadMessage_def)
  next
    case (Cons m rest)
    let ?c = "set_pipe (pe_state e) (?ps\<lparr>queues := (queues ?ps)(pe_end e := rest)\<rparr>) c"
    have "core_inv ?c" using inv pipe(4) by (intro core_inv_set_pipe) simp_all
    moreover have "handle_room 0 ?c" using room by (simp add: handle_room_def)
    ultimately obtain h c' where "Alloc KMessage (OMessage m) ?c = Some (h, c')" "core_inv c'"
      using core_inv_Alloc [of ?c KMessage "OMessage m"] by (auto simp: plain_def wf_slot_def wf_at_def)
    with pipe Cons inv show ?thesis by (simp add: WhpReadMessage_def)
  qed
qed

lemma WhpSetQuota_safe:
  assumes inv: "core_inv c"
  shows "\<exists>r c'. WhpSetQuota h ty limit c = Some (r, c') \<and> core_inv c'"
  using inv by (cases rule: pipe_end_of_cases [OF inv, of h, case_names bad pipe]; cases ty)
    (auto simp: WhpSetQuota_def intro: core_inv_set_pipe)

lemma WhpQueryQuota_safe:
  assumes inv: "core_inv c"
  shows "\<exists>r out. WhpQueryQuota h ty lp up c = Some (r, out)"
  by (cases rule: pipe_end_of_cases [OF inv, of h, case_names bad pipe]) (auto simp: WhpQueryQuota_def)

subsection \<open>Traps\<close>

lemma WhpAddTrigger_safe:
  assumes inv: "core_inv c"
  shows "\<exists>r c'. WhpAddTrigger trap h sg cond ctx c = Some (r, c') \<and> core_inv c'"
  using inv by (cases rule: trap_of_cases [OF inv, of trap, case_names bad trp])
    (auto simp: WhpAddTrigger_def intro: core_inv_set_trap)

lemma WhpRemoveTrigger_safe:
  assumes inv: "core_inv c"
  shows "\<exists>r c'. WhpRemoveTrigger trap ctx c = Some (r, c') \<and> core_inv c'"
  using inv by (cases rule: trap_of_cases [OF inv, of trap, case_names bad trp])
    (auto simp: WhpRemoveTrigger_def Let_def intro: core_inv_set_trap split: option.splits)

lemma blocking_triggers_total: "core_inv c \<Longrightarrow> \<exists>bs. blocking_triggers c trs = Some bs"
proof (induction trs)
  case (Cons tr trs)
  moreover obtain st where "QueryLocked c (trig_watched tr) = Some st"
    using QueryLocked_total [OF Cons.prems] by blast
  ultimately show ?case by auto
qed simp

lemma WhpArmTrap_safe:
  assumes inv: "core_inv c"
  shows "\<exists>r n evs c'. WhpArmTrap trap num ep c = Some (r, n, evs, c') \<and> core_inv c'"
proof (cases rule: trap_of_cases [OF inv, of trap, case_names bad trp])
  case bad
  with inv show ?thesis by (simp add: WhpArmTrap_def)
next
  case (trp s t)
  obtain bs where "blocking_triggers c (trap_triggers t) = Some bs"
    using blocking_triggers_total [OF inv] by blast
  with trp inv core_inv_set_trap [OF inv trp(1,2)] show ?thesis by (simp add: WhpArmTrap_def)
qed

lemma WhpCreateTrap_safe:
  assumes inv: "core_inv c" and room: "handle_room 0 c"
  shows "\<exists>r out c'. WhpCreateTrap f p c = Some (r, out, c') \<and> core_inv c'"
proof -
  let ?o = "OTrap \<lparr>trap_handler = f, trap_triggers = [], trap_armed = False\<rparr>"
  obtain h c' where a: "Alloc KTrap ?o c = Some (h, c')" "Lookup c h = None" "table_inv c'"
    "Lookup c' = (Lookup c)(h \<mapsto> \<lparr>sl_kind = KTrap, sl_obj = ?o\<rparr>)"
    "\<exists>sl fl. c' = c\<lparr>slots := sl, free_list := fl\<rparr>"
    by (rule Alloc_ok [OF core_inv_table [OF inv] room, of KTrap ?o]) auto
  have f: "pipe_heap c' = pipe_heap c" "data_heap c' = data_heap c" "buf_heap c' = buf_heap c"
    "maps c' = maps c" "traps c' = traps c" using a(5) by auto
  have o: "owner c' = owner c" using a(2) by (auto simp: fun_eq_iff owner_def a(4))
  have "h \<notin> set (traps c)" using inv a(2) by (auto simp: core_inv_defs)
  then have "core_inv (c'\<lparr>traps := traps c' @ [h]\<rparr>)"
    using inv a(3) f o by (auto simp: core_inv_defs a(4) wf_slot_def wf_at_def)
  with a(1) inv show ?thesis by (simp add: WhpCreateTrap_def)
qed

subsection \<open>Data pipes\<close>

lemma collect_if_safe: "core_inv c \<Longrightarrow> \<exists>c'. collect_if b c = Some c' \<and> core_inv c' \<and> (b \<longrightarrow> quiet c')"
  using CollectTrapEvents_ok by (auto simp: collect_if_def)

lemma WhpWriteData_safe:
  assumes inv: "core_inv c" and len: "\<forall>n. num = Some n \<longrightarrow> n \<le> length xs"
  shows "\<exists>r out c'. WhpWriteData producer xs num c = Some (r, out, c') \<and> core_inv c' \<and> (r = WHP_RESULT_OK \<longrightarrow> quiet c')"
proof (cases num)
  case None
  with inv show ?thesis by (simp add: WhpWriteData_def)
next
  case (Some want)
  show ?thesis
  proof (cases rule: data_end_of_cases [OF inv disjI1 [OF refl], of producer, case_names bad data])
    case (data s d)
    obtain r n s' where w: "data_write xs want (data_heap c ! de_state d) = Some (r, n, s')" "ring_safe s'"
      using ring_safe_ops(1) [OF data(5), of want xs] len Some by auto
    obtain c' where "collect_if (r = WHP_RESULT_OK) (set_data (de_state d) s' c) = Some c'" "core_inv c'"
      "r = WHP_RESULT_OK \<longrightarrow> quiet c'"
      using collect_if_safe core_inv_set_data [OF inv w(2)] by blast
    with w data Some show ?thesis by (simp add: WhpWriteData_def)
  qed (use inv Some in \<open>auto simp: WhpWriteData_def\<close>)
qed

lemma WhpReadData_safe:
  assumes inv: "core_inv c"
  shows "\<exists>r n xs c'. WhpReadData consumer num c = Some (r, n, xs, c') \<and> core_inv c' \<and> (r = WHP_RESULT_OK \<longrightarrow> quiet c')"
proof (cases num)
  case None
  with inv show ?thesis by (simp add: WhpReadData_def)
next
  case (Some want)
  show ?thesis
  proof (cases rule: data_end_of_cases [OF inv disjI2 [OF refl], of consumer, case_names bad data])
    case (data s d)
    obtain r n xs s' where w: "data_read want (data_heap c ! de_state d) = Some (r, n, xs, s')" "ring_safe s'"
      using ring_safe_ops(2) [OF data(5), of want] by auto
    obtain c' where "collect_if (r = WHP_RESULT_OK) (set_data (de_state d) s' c) = Some c'" "core_inv c'"
      "r = WHP_RESULT_OK \<longrightarrow> quiet c'"
      using collect_if_safe core_inv_set_data [OF inv w(2)] by blast
    with w data Some show ?thesis by (simp add: WhpReadData_def)
  qed (use inv Some in \<open>auto simp: WhpReadData_def\<close>)
qed

lemma WhpBeginWriteData_safe:
  assumes inv: "core_inv c"
  shows "\<exists>r out c'. WhpBeginWriteData producer bp num c = Some (r, out, c') \<and> core_inv c'"
proof (cases num)
  case None
  with inv show ?thesis by (simp add: WhpBeginWriteData_def)
next
  case (Some want)
  show ?thesis
  proof (cases rule: data_end_of_cases [OF inv disjI1 [OF refl], of producer, case_names bad data])
    case (data s d)
    obtain r n s' where w: "data_begin_write want (data_heap c ! de_state d) = Some (r, n, s')" "ring_safe s'"
      using ring_safe_ops(3) [OF data(5), of want] by auto
    with data Some inv core_inv_set_data [OF inv w(2)] show ?thesis by (simp add: WhpBeginWriteData_def)
  qed (use inv Some in \<open>auto simp: WhpBeginWriteData_def\<close>)
qed

lemma WhpEndWriteData_safe:
  assumes inv: "core_inv c"
  shows "\<exists>r c'. WhpEndWriteData producer n c = Some (r, c') \<and> core_inv c' \<and> (r = WHP_RESULT_OK \<longrightarrow> quiet c')"
proof (cases rule: data_end_of_cases [OF inv disjI1 [OF refl], of producer, case_names bad data])
  case (data s d)
  obtain r s' where w: "data_end_write n (data_heap c ! de_state d) = Some (r, s')" "ring_safe s'"
    using ring_safe_ops(4) [OF data(5), of n] by auto
  obtain c' where "collect_if (r = WHP_RESULT_OK) (set_data (de_state d) s' c) = Some c'" "core_inv c'"
      "r = WHP_RESULT_OK \<longrightarrow> quiet c'"
    using collect_if_safe core_inv_set_data [OF inv w(2)] by blast
  with w data show ?thesis by (simp add: WhpEndWriteData_def)
qed (use inv in \<open>auto simp: WhpEndWriteData_def\<close>)

lemma WhpBeginReadData_safe:
  assumes inv: "core_inv c"
  shows "\<exists>r out c'. WhpBeginReadData consumer bp num c = Some (r, out, c') \<and> core_inv c'"
proof (cases num)
  case None
  with inv show ?thesis by (simp add: WhpBeginReadData_def)
next
  case (Some want)
  show ?thesis
  proof (cases rule: data_end_of_cases [OF inv disjI2 [OF refl], of consumer, case_names bad data])
    case (data s d)
    obtain r n s' where w: "data_begin_read want (data_heap c ! de_state d) = Some (r, n, s')" "ring_safe s'"
      using ring_safe_ops(5) [OF data(5), of want] by auto
    with data Some inv core_inv_set_data [OF inv w(2)] show ?thesis by (simp add: WhpBeginReadData_def)
  qed (use inv Some in \<open>auto simp: WhpBeginReadData_def\<close>)
qed

lemma WhpEndReadData_safe:
  assumes inv: "core_inv c"
  shows "\<exists>r c'. WhpEndReadData consumer n c = Some (r, c') \<and> core_inv c' \<and> (r = WHP_RESULT_OK \<longrightarrow> quiet c')"
proof (cases rule: data_end_of_cases [OF inv disjI2 [OF refl], of consumer, case_names bad data])
  case (data s d)
  obtain r s' where w: "data_end_read n (data_heap c ! de_state d) = Some (r, s')" "ring_safe s'"
    using ring_safe_ops(6) [OF data(5), of n] by auto
  obtain c' where "collect_if (r = WHP_RESULT_OK) (set_data (de_state d) s' c) = Some c'" "core_inv c'"
      "r = WHP_RESULT_OK \<longrightarrow> quiet c'"
    using collect_if_safe core_inv_set_data [OF inv w(2)] by blast
  with w data show ?thesis by (simp add: WhpEndReadData_def)
qed (use inv in \<open>auto simp: WhpEndReadData_def\<close>)

end
