(* ===== verification/Whp_Pairs.thy ===== *)
theory Whp_Pairs
  imports Whp_Safety
begin

text \<open>
  The calls that make a new pipe and hand its two ends to two handles:
  \<open>WhpCreateMessagePipe\<close>, \<open>WhpFuseMessagePipes\<close> and \<open>WhpCreateDataPipe\<close> keep the invariant.
\<close>

text \<open>A new pipe with both ends open and owned, after every handle of the pipes in \<open>R\<close> went.\<close>

lemma ends_ok_new_pipe:
  assumes ends: "ends_ok c" and lim: "\<And>h sid e. owner c h sid e \<Longrightarrow> sid < length (pipe_heap c) \<and> e < 2"
    and ph: "pipe_heap c' = pipe_heap c @ [ps]" "closed ps = (\<lambda>_. False)"
    and own: "\<And>h sid e. owner c' h sid e \<longleftrightarrow>
      h = p0 \<and> sid = length (pipe_heap c) \<and> e = 0 \<or> h = p1 \<and> sid = length (pipe_heap c) \<and> e = 1 \<or>
      owner c h sid e \<and> sid \<notin> R"
  shows "ends_ok c'"
  unfolding ends_ok_def
proof (intro conjI allI impI)
  fix h h' sid e
  assume o: "owner c' h sid e" "owner c' h' sid e"
  have "\<not> owner c k (length (pipe_heap c)) e'" for k e' using lim by blast
  then show "h = h'" using ends o unfolding own ends_ok_def
    by (cases "sid = length (pipe_heap c)") (simp, blast, blast)
next
  fix h sid e assume o: "owner c' h sid e"
  have *: "\<not> closed (pipe_heap c' ! sid) e \<and>
    (closed (pipe_heap c' ! sid) (1 - e) \<longleftrightarrow> \<not> (\<exists>h'. owner c' h' sid (1 - e)))"
  proof (cases "sid = length (pipe_heap c)")
    case True
    then have "e = 0 \<or> e = 1" using o lim own by blast
    then have "\<exists>h'. owner c' h' sid (1 - e)" using True unfolding own by auto
    with True ph show ?thesis by simp
  next
    case False
    then have c: "owner c h sid e" "sid \<notin> R" "sid < length (pipe_heap c)" using o lim own by blast+
    then have "pipe_heap c' ! sid = pipe_heap c ! sid" by (simp add: ph nth_append)
    moreover have "owner c' h' sid (1 - e) \<longleftrightarrow> owner c h' sid (1 - e)" for h'
      using False c(2) unfolding own by blast
    ultimately show ?thesis using ends c(1) unfolding ends_ok_def by metis
  qed
  then show "\<not> closed (pipe_heap c' ! sid) e" by blast
  from * show "closed (pipe_heap c' ! sid) (1 - e) \<longleftrightarrow> \<not> (\<exists>h'. owner c' h' sid (1 - e))" by blast
qed

lemma core_inv_owner:
  assumes "core_inv c" "owner c h sid e"
  shows "sid < length (pipe_heap c)" "e < 2"
    "\<exists>s. Lookup c h = Some s \<and> sl_kind s = KMessagePipe \<and> sl_obj s = OPipeEnd \<lparr>pe_state = sid, pe_end = e\<rparr>"
  using assms by (auto simp: owner_def wf_slot_def wf_at_def dest!: core_inv_wf)

lemma owner_uniq: "core_inv c \<Longrightarrow> owner c h sid e \<Longrightarrow> owner c h' sid e \<Longrightarrow> h = h'"
  unfolding core_inv_def ends_ok_def by blast

lemma owner_fun: "owner c h sid e \<Longrightarrow> owner c h sid' e' \<Longrightarrow> sid' = sid \<and> e' = e"
  by (auto simp: owner_def)

lemma types_ok_grow:
  assumes "types_ok c" "length (pipe_heap c) \<le> length (pipe_heap c')"
    "length (data_heap c) \<le> length (data_heap c')" "length (buf_heap c) \<le> length (buf_heap c')"
    and "\<And>h s. Lookup c' h = Some s \<Longrightarrow> Lookup c h = Some s \<or> wf_slot c' s"
  shows "types_ok c'"
  using assms unfolding types_ok_def wf_slot_def by (meson wf_at_mono)

text \<open>Two allocations in a row.\<close>

lemma Alloc_pair:
  assumes inv: "table_inv c" and room: "handle_room 1 c" and k: "k0 \<noteq> KFree" "k1 \<noteq> KFree"
  obtains h0 c1 h1 c2 where
    "Alloc k0 ob0 c = Some (h0, c1)" "Alloc k1 ob1 c1 = Some (h1, c2)"
    "Lookup c h0 = None" "Lookup c h1 = None" "h0 \<noteq> h1" "table_inv c2"
    "Lookup c2 = (Lookup c)(h0 \<mapsto> \<lparr>sl_kind = k0, sl_obj = ob0\<rparr>, h1 \<mapsto> \<lparr>sl_kind = k1, sl_obj = ob1\<rparr>)"
    "\<exists>sl fl. c2 = c\<lparr>slots := sl, free_list := fl\<rparr>"
proof -
  have room0: "handle_room 0 c" using room by (simp add: handle_room_def)
  obtain h0 c1 where a0: "Alloc k0 ob0 c = Some (h0, c1)" "h0 \<noteq> 0" "Lookup c h0 = None" "table_inv c1"
    "Lookup c1 = (Lookup c)(h0 \<mapsto> \<lparr>sl_kind = k0, sl_obj = ob0\<rparr>)"
    "length (slots c1) \<le> Suc (length (slots c))" "\<exists>sl fl. c1 = c\<lparr>slots := sl, free_list := fl\<rparr>"
    by (rule Alloc_ok [OF inv room0 k(1), of ob0])
  note a = a0(1,3-7)
  have room1: "handle_room 0 c1" using a(5) room by (simp add: handle_room_def)
  obtain h1 c2 where b0: "Alloc k1 ob1 c1 = Some (h1, c2)" "h1 \<noteq> 0" "Lookup c1 h1 = None" "table_inv c2"
    "Lookup c2 = (Lookup c1)(h1 \<mapsto> \<lparr>sl_kind = k1, sl_obj = ob1\<rparr>)" "length (slots c2) \<le> Suc (length (slots c1))"
    "\<exists>sl fl. c2 = c1\<lparr>slots := sl, free_list := fl\<rparr>"
    by (rule Alloc_ok [OF a(3) room1 k(2), of ob1])
  note b = b0(1,3-5,7)
  have "h0 \<noteq> h1" "Lookup c h1 = None" using a(4) b(2) by (auto split: if_splits)
  moreover from a(6) b(5) have "\<exists>sl fl. c2 = c\<lparr>slots := sl, free_list := fl\<rparr>"
    by (elim exE) auto
  ultimately show ?thesis using a b by (intro that) simp_all
qed

lemma WhpCreateMessagePipe_ok:
  assumes inv: "core_inv c" and room: "handle_room 1 c"
  shows "\<exists>h0 h1 c'. WhpCreateMessagePipe True True c = Some (WHP_RESULT_OK, Some (h0, h1), c') \<and>
     core_inv c' \<and> h0 \<noteq> h1 \<and> Lookup c h0 = None \<and> Lookup c h1 = None \<and>
     pipe_end_of h0 c' = Some (Some (\<lparr>pe_state = length (pipe_heap c), pe_end = 0\<rparr>, new_pipe)) \<and>
     pipe_end_of h1 c' = Some (Some (\<lparr>pe_state = length (pipe_heap c), pe_end = 1\<rparr>, new_pipe)) \<and>
     (\<forall>h. h \<noteq> h0 \<longrightarrow> h \<noteq> h1 \<longrightarrow> Lookup c' h = Lookup c h) \<and> pipe_heap c' = pipe_heap c @ [new_pipe]"
proof -
  let ?sid = "length (pipe_heap c)"
  let ?c0 = "c\<lparr>pipe_heap := pipe_heap c @ [new_pipe]\<rparr>"
  let ?e = "\<lambda>i. OPipeEnd \<lparr>pe_state = ?sid, pe_end = i\<rparr>"
  have t: "table_inv ?c0" "handle_room 1 ?c0"
    using core_inv_table [OF inv] room by (simp_all add: handle_room_def)
  obtain h0 c1 h1 c2 where a: "Alloc KMessagePipe (?e 0) ?c0 = Some (h0, c1)"
    "Alloc KMessagePipe (?e 1) c1 = Some (h1, c2)"
    "Lookup ?c0 h0 = None" "Lookup ?c0 h1 = None" "h0 \<noteq> h1" "table_inv c2"
    "Lookup c2 = (Lookup ?c0)(h0 \<mapsto> \<lparr>sl_kind = KMessagePipe, sl_obj = ?e 0\<rparr>,
                             h1 \<mapsto> \<lparr>sl_kind = KMessagePipe, sl_obj = ?e 1\<rparr>)"
    "\<exists>sl fl. c2 = ?c0\<lparr>slots := sl, free_list := fl\<rparr>"
    using Alloc_pair [OF t, of KMessagePipe KMessagePipe "?e 0" "?e 1" thesis] by simp
  have f: "pipe_heap c2 = pipe_heap c @ [new_pipe]" "data_heap c2 = data_heap c" "buf_heap c2 = buf_heap c"
    "maps c2 = maps c" "traps c2 = traps c" using a(8) by auto
  have own: "owner c2 h sid e \<longleftrightarrow> h = h0 \<and> sid = ?sid \<and> e = 0 \<or> h = h1 \<and> sid = ?sid \<and> e = 1 \<or>
      owner c h sid e \<and> sid \<notin> {}" for h sid e
    using a(3,4,5) by (auto simp: owner_def a(7))
  have "ends_ok c2"
    using ends_ok_new_pipe [of c c2 new_pipe h0 h1 "{}", OF _ _ f(1) _ own] inv core_inv_owner(1,2) [OF inv]
    by (auto simp: core_inv_def new_pipe_def)
  moreover have "types_ok c2"
  proof (rule types_ok_grow [of c])
    show "types_ok c" using inv by (simp add: core_inv_def)
    show "Lookup c h = Some s \<or> wf_slot c2 s" if "Lookup c2 h = Some s" for h s
      using that by (auto simp: a(7) wf_slot_def wf_at_def f split: if_splits)
  qed (simp_all add: f)
  moreover have "traps_ok c2" using inv a(3,4) by (auto simp: core_inv_defs a(7) f)
  moreover have "stores_ok c2" using inv by (simp add: core_inv_defs f)
  ultimately have "core_inv c2" using a(6) by (simp add: core_inv_def)
  moreover have "pipe_end_of h0 c2 = Some (Some (\<lparr>pe_state = ?sid, pe_end = 0\<rparr>, new_pipe))"
    "pipe_end_of h1 c2 = Some (Some (\<lparr>pe_state = ?sid, pe_end = 1\<rparr>, new_pipe))"
    using a(5) by (simp_all add: pipe_end_of_def a(7) f nth_opt_def)
  ultimately show ?thesis using a f
    by (intro exI [of _ h0] exI [of _ h1] exI [of _ c2]) (simp add: WhpCreateMessagePipe_def Let_def)
qed

lemma WhpCreateMessagePipe_safe:
  assumes inv: "core_inv c" and room: "handle_room 1 c"
  shows "\<exists>r out c'. WhpCreateMessagePipe p0 p1 c = Some (r, out, c') \<and> core_inv c'"
proof (cases "p0 \<and> p1")
  case True
  then show ?thesis using WhpCreateMessagePipe_ok [OF inv room] by auto
qed (use inv in \<open>auto simp: WhpCreateMessagePipe_def\<close>)

lemma WhpCreateDataPipe_ok:
  assumes inv: "core_inv c" and room: "handle_room 1 c"
    and opts: "\<forall>e n. options = Some (e, n) \<longrightarrow> n < 2 ^ 32"
  shows "\<exists>p q c'. WhpCreateDataPipe options True True c = Some (WHP_RESULT_OK, Some (p, q), c') \<and>
     core_inv c' \<and> p \<noteq> q \<and> Lookup c p = None \<and> Lookup c q = None \<and>
     data_end_of KDataPipeProducer p c' =
       Some (Some (\<lparr>de_state = length (data_heap c), de_producer = True\<rparr>, new_data_pipe options)) \<and>
     data_end_of KDataPipeConsumer q c' =
       Some (Some (\<lparr>de_state = length (data_heap c), de_producer = False\<rparr>, new_data_pipe options))"
proof -
  let ?did = "length (data_heap c)"
  let ?c0 = "c\<lparr>data_heap := data_heap c @ [new_data_pipe options]\<rparr>"
  let ?e = "\<lambda>b. ODataPipeEnd \<lparr>de_state = ?did, de_producer = b\<rparr>"
  have t: "table_inv ?c0" "handle_room 1 ?c0"
    using core_inv_table [OF inv] room by (simp_all add: handle_room_def)
  obtain p c1 q c2 where a: "Alloc KDataPipeProducer (?e True) ?c0 = Some (p, c1)"
    "Alloc KDataPipeConsumer (?e False) c1 = Some (q, c2)"
    "Lookup ?c0 p = None" "Lookup ?c0 q = None" "p \<noteq> q" "table_inv c2"
    "Lookup c2 = (Lookup ?c0)(p \<mapsto> \<lparr>sl_kind = KDataPipeProducer, sl_obj = ?e True\<rparr>,
                             q \<mapsto> \<lparr>sl_kind = KDataPipeConsumer, sl_obj = ?e False\<rparr>)"
    "\<exists>sl fl. c2 = ?c0\<lparr>slots := sl, free_list := fl\<rparr>"
    using Alloc_pair [OF t, of KDataPipeProducer KDataPipeConsumer "?e True" "?e False" thesis] by simp
  have f: "pipe_heap c2 = pipe_heap c" "data_heap c2 = data_heap c @ [new_data_pipe options]"
    "buf_heap c2 = buf_heap c" "maps c2 = maps c" "traps c2 = traps c" using a(8) by auto
  have "owner c2 = owner c" using a(3,4) by (auto simp: fun_eq_iff owner_def a(7))
  then have "ends_ok c2" using inv by (simp add: core_inv_def ends_ok_def f)
  moreover have "types_ok c2"
  proof (rule types_ok_grow [of c])
    show "types_ok c" using inv by (simp add: core_inv_def)
    show "Lookup c h = Some s \<or> wf_slot c2 s" if "Lookup c2 h = Some s" for h s
      using that by (auto simp: a(7) wf_slot_def wf_at_def f split: if_splits)
  qed (simp_all add: f)
  moreover have "traps_ok c2" using inv a(3,4) by (auto simp: core_inv_defs a(7) f)
  moreover have "stores_ok c2" using inv ring_safe_new [OF opts] by (simp add: core_inv_defs f)
  ultimately have "core_inv c2" using a(6) by (simp add: core_inv_def)
  moreover have "data_end_of KDataPipeProducer p c2 =
      Some (Some (\<lparr>de_state = ?did, de_producer = True\<rparr>, new_data_pipe options))"
    "data_end_of KDataPipeConsumer q c2 =
      Some (Some (\<lparr>de_state = ?did, de_producer = False\<rparr>, new_data_pipe options))"
    using a(5) by (simp_all add: data_end_of_def a(7) f nth_opt_def)
  ultimately show ?thesis using a
    by (intro exI [of _ p] exI [of _ q] exI [of _ c2]) (simp add: WhpCreateDataPipe_def Let_def)
qed

lemma WhpCreateDataPipe_safe:
  assumes inv: "core_inv c" and room: "handle_room 1 c"
    and opts: "\<forall>e n. options = Some (e, n) \<longrightarrow> n < 2 ^ 32"
  shows "\<exists>r out c'. WhpCreateDataPipe options p0 p1 c = Some (r, out, c') \<and> core_inv c'"
proof (cases "p0 \<and> p1")
  case True
  then show ?thesis using WhpCreateDataPipe_ok [OF assms] by auto
qed (use inv in \<open>auto simp: WhpCreateDataPipe_def\<close>)

subsection \<open>Fusing\<close>

lemma fold_last_match:
  "fold (\<lambda>i found. if P i then Some i else found) xs a =
     (if filter P xs = [] then a else Some (last (filter P xs)))"
  by (induction xs arbitrary: a) auto

text \<open>The search finds the handle of the other end, when it is neither of the two arguments.\<close>

lemma find_peer_iff:
  assumes inv: "core_inv c" and e: "pe_end e < 2"
  shows "find_peer h0 h1 e c = Some p \<longleftrightarrow>
     owner c p (pe_state e) (1 - pe_end e) \<and> p \<noteq> h0 \<and> p \<noteq> h1"
proof -
  define P where "P i \<longleftrightarrow> i \<noteq> h0 \<and> i \<noteq> h1 \<and> owner c i (pe_state e) (1 - pe_end e)" for i
  have peer: "(\<exists>s. Lookup c i = Some s \<and> sl_kind s = KMessagePipe \<and> is_peer e s) \<longleftrightarrow>
      owner c i (pe_state e) (1 - pe_end e)" for i
  proof
    assume "\<exists>s. Lookup c i = Some s \<and> sl_kind s = KMessagePipe \<and> is_peer e s"
    then obtain s where i: "Lookup c i = Some s" "is_peer e s" by blast
    then obtain x where s: "Lookup c i = Some s" "sl_obj s = OPipeEnd x" "pe_state x = pe_state e"
      "pe_end x \<noteq> pe_end e" by (cases "sl_obj s") (auto simp: is_peer_def)
    moreover have "pe_end x < 2" using core_inv_wf [OF inv s(1)] s(2) by (simp add: wf_slot_def wf_at_def)
    ultimately have "x = \<lparr>pe_state = pe_state e, pe_end = 1 - pe_end e\<rparr>" using e by (cases x) auto
    with s show "owner c i (pe_state e) (1 - pe_end e)" by (simp add: owner_def)
  next
    assume "owner c i (pe_state e) (1 - pe_end e)"
    moreover have "1 - pe_end e \<noteq> pe_end e" using e by arith
    ultimately show "\<exists>s. Lookup c i = Some s \<and> sl_kind s = KMessagePipe \<and> is_peer e s"
      using core_inv_owner(3) [OF inv] by (fastforce simp: is_peer_def)
  qed
  have body: "(if i = h0 \<or> i = h1 then found
       else (case Lookup c i of None \<Rightarrow> found
             | Some s \<Rightarrow> if sl_kind s = KMessagePipe \<and> is_peer e s then Some i else found)) =
      (if P i then Some i else found)" for i found
    using peer [of i] by (cases "Lookup c i") (auto simp: P_def)
  have uniq: "P i \<Longrightarrow> P j \<Longrightarrow> i = j" for i j using owner_uniq [OF inv] by (auto simp: P_def)
  have range: "i \<in> set [1..<length (slots c)]" if "P i" for i
    using that by (auto simp: P_def owner_def Lookup_Some_iff)
  have "find_peer h0 h1 e c = (if filter P [1..<length (slots c)] = [] then None
      else Some (last (filter P [1..<length (slots c)])))"
    unfolding find_peer_def body fold_last_match ..
  moreover have "P (last (filter P [1..<length (slots c)]))" if "filter P [1..<length (slots c)] \<noteq> []"
    using last_in_set [OF that] by simp
  moreover have "filter P [1..<length (slots c)] \<noteq> []" if "P p"
    using range [OF that] that by (auto simp: filter_empty_conv)
  ultimately have "find_peer h0 h1 e c = Some p \<longleftrightarrow> P p" using uniq by (auto split: if_splits)
  then show ?thesis by (auto simp: P_def)
qed

text \<open>
  What a successful fusion does: the two handles go, the two peers become the ends of one
  new pipe, every message in flight is kept in order, and every other handle is untouched.
\<close>

lemma fuse_state:
  assumes inv: "core_inv c"
    and h0: "owner c h0 s0 e0" and h1: "owner c h1 s1 e1" and ne: "s0 \<noteq> s1"
    and p0: "owner c p0 s0 (1 - e0)" and p1: "owner c p1 s1 (1 - e1)"
    and ps: "closed ps = (\<lambda>_. False)"
  defines "fid \<equiv> length (pipe_heap c)"
  defines "c' \<equiv> Free h1 (Free h0 (set_obj p1 (OPipeEnd \<lparr>pe_state = fid, pe_end = 1\<rparr>)
     (set_obj p0 (OPipeEnd \<lparr>pe_state = fid, pe_end = 0\<rparr>) (c\<lparr>pipe_heap := pipe_heap c @ [ps]\<rparr>))))"
  shows "core_inv c'" "pipe_heap c' = pipe_heap c @ [ps]"
    "Lookup c' = (Lookup c)(p0 \<mapsto> \<lparr>sl_kind = KMessagePipe, sl_obj = OPipeEnd \<lparr>pe_state = fid, pe_end = 0\<rparr>\<rparr>,
        p1 \<mapsto> \<lparr>sl_kind = KMessagePipe, sl_obj = OPipeEnd \<lparr>pe_state = fid, pe_end = 1\<rparr>\<rparr>, h0 := None, h1 := None)"
proof -
  note lim = core_inv_owner(1,2) [OF inv]
  have e: "e0 < 2" "e1 < 2" using lim h0 h1 by blast+
  have flip: "1 - e0 \<noteq> e0" "1 - e1 \<noteq> e1" using e by arith+
  have d: "p0 \<noteq> h0" "p1 \<noteq> h1" using owner_fun [OF h0] owner_fun [OF h1] p0 p1 flip by metis+
  have d2: "p0 \<noteq> p1" "h0 \<noteq> h1" "p0 \<noteq> h1" "p1 \<noteq> h0"
    using owner_fun [OF h0] owner_fun [OF h1] owner_fun [OF p0] p1 h1 ne by metis+
  obtain sl0 sl1 where sl: "Lookup c p0 = Some sl0" "sl_kind sl0 = KMessagePipe"
    "Lookup c p1 = Some sl1" "sl_kind sl1 = KMessagePipe"
    using core_inv_owner(3) [OF inv p0] core_inv_owner(3) [OF inv p1] by blast
  obtain st0 st1 where st: "Lookup c h0 = Some st0" "Lookup c h1 = Some st1"
    using core_inv_owner(3) [OF inv h0] core_inv_owner(3) [OF inv h1] by blast
  let ?n = "\<lambda>i. \<lparr>sl_kind = KMessagePipe, sl_obj = OPipeEnd \<lparr>pe_state = fid, pe_end = i\<rparr>\<rparr>"
  define c1 where "c1 = set_obj p0 (OPipeEnd \<lparr>pe_state = fid, pe_end = 0\<rparr>) (c\<lparr>pipe_heap := pipe_heap c @ [ps]\<rparr>)"
  have c1: "Lookup c1 = (Lookup c)(p0 \<mapsto> ?n 0)" "table_inv c1"
    using set_obj_Lookup [of "c\<lparr>pipe_heap := pipe_heap c @ [ps]\<rparr>" p0 sl0] sl
      table_inv_set_obj [of "c\<lparr>pipe_heap := pipe_heap c @ [ps]\<rparr>" p0 sl0] core_inv_table [OF inv]
    by (cases sl0; simp add: c1_def)+
  define c2 where "c2 = set_obj p1 (OPipeEnd \<lparr>pe_state = fid, pe_end = 1\<rparr>) c1"
  have "Lookup c1 p1 = Some sl1" using d2 sl by (simp add: c1)
  then have c2: "Lookup c2 = (Lookup c)(p0 \<mapsto> ?n 0, p1 \<mapsto> ?n 1)" "table_inv c2"
    using set_obj_Lookup [of c1 p1 sl1] table_inv_set_obj [of c1 p1 sl1] sl c1 by (cases sl1; simp add: c2_def)+
  have "Lookup c2 h0 = Some st0" using d d2 st by (simp add: c2)
  then have c3: "Lookup (Free h0 c2) = (Lookup c2)(h0 := None)" "table_inv (Free h0 c2)"
    using Lookup_Free table_inv_Free c2(2) by blast+
  have "Lookup (Free h0 c2) h1 = Some st1" using d d2 st by (simp add: c3 c2)
  then have "Lookup (Free h1 (Free h0 c2)) = (Lookup (Free h0 c2))(h1 := None)" and
    t: "table_inv (Free h1 (Free h0 c2))" using Lookup_Free table_inv_Free c3(2) by blast+
  moreover have c': "c' = Free h1 (Free h0 c2)" by (simp add: c'_def c2_def c1_def)
  ultimately show L: "Lookup c' = (Lookup c)(p0 \<mapsto> ?n 0, p1 \<mapsto> ?n 1, h0 := None, h1 := None)"
    by (simp add: c3 c2)
  show ph: "pipe_heap c' = pipe_heap c @ [ps]" by (simp add: c'_def)
  have f: "data_heap c' = data_heap c" "buf_heap c' = buf_heap c" "maps c' = maps c" "traps c' = traps c"
    by (simp_all add: c'_def)
  have gone: "owner c h sid en \<Longrightarrow> sid \<in> {s0, s1} \<longleftrightarrow> h \<in> {h0, h1, p0, p1}" for h sid en
  proof
    assume o: "owner c h sid en" and "sid \<in> {s0, s1}"
    then consider "sid = s0" | "sid = s1" by blast
    then show "h \<in> {h0, h1, p0, p1}"
    proof cases
      case 1
      have "en = e0 \<or> en = 1 - e0" using lim(2) [OF o] e by auto
      then show ?thesis using 1 o owner_uniq [OF inv] h0 p0 by blast
    next
      case 2
      have "en = e1 \<or> en = 1 - e1" using lim(2) [OF o] e by auto
      then show ?thesis using 2 o owner_uniq [OF inv] h1 p1 by blast
    qed
  next
    assume o: "owner c h sid en" and "h \<in> {h0, h1, p0, p1}"
    then show "sid \<in> {s0, s1}"
      using owner_fun [OF h0] owner_fun [OF h1] owner_fun [OF p0] owner_fun [OF p1] by blast
  qed
  have own: "owner c' h sid en \<longleftrightarrow> h = p0 \<and> sid = length (pipe_heap c) \<and> en = 0 \<or>
      h = p1 \<and> sid = length (pipe_heap c) \<and> en = 1 \<or> owner c h sid en \<and> sid \<notin> {s0, s1}" for h sid en
  proof (cases "h \<in> {h0, h1, p0, p1}")
    case True
    then have "\<not> (owner c h sid en \<and> sid \<notin> {s0, s1})" using gone by blast
    then show ?thesis using True d d2 unfolding owner_def L by (auto simp: fid_def)
  next
    case False
    then have "owner c' h sid en \<longleftrightarrow> owner c h sid en" by (simp add: owner_def L)
    then show ?thesis using False gone by blast
  qed
  have "ends_ok c'"
    by (rule ends_ok_new_pipe [OF _ _ ph ps own]) (use inv lim in \<open>auto simp: core_inv_def\<close>)
  moreover have "types_ok c'"
  proof (rule types_ok_grow [of c])
    show "types_ok c" using inv by (simp add: core_inv_def)
    show "Lookup c h = Some s \<or> wf_slot c' s" if "Lookup c' h = Some s" for h s
      using that by (auto simp: L wf_slot_def wf_at_def ph fid_def split: if_splits)
  qed (simp_all add: f ph)
  moreover have "traps_ok c'"
  proof -
    have "{h0, h1, p0, p1} \<inter> set (traps c) = {}"
      using inv core_inv_owner(3) [OF inv h0] core_inv_owner(3) [OF inv h1]
        core_inv_owner(3) [OF inv p0] core_inv_owner(3) [OF inv p1] by (auto simp: core_inv_defs)
    then show ?thesis using inv by (auto simp: core_inv_defs L f)
  qed
  moreover have "stores_ok c'" using inv by (simp add: core_inv_defs f)
  moreover have "table_inv c'" using t c' by simp
  ultimately show "core_inv c'" by (simp add: core_inv_def)
qed

lemma fused_pipe_open [simp]: "closed (fused_pipe e0 ps0 e1 ps1) = (\<lambda>_. False)"
  by (simp add: fused_pipe_def Let_def)

lemma WhpFuseMessagePipes_ok:
  assumes inv: "core_inv c"
    and h0: "pipe_end_of h0 c = Some (Some (e0, ps0))" and h1: "pipe_end_of h1 c = Some (Some (e1, ps1))"
    and ne: "pe_state e0 \<noteq> pe_state e1"
    and p0: "owner c p0 (pe_state e0) (1 - pe_end e0)" and p1: "owner c p1 (pe_state e1) (1 - pe_end e1)"
  shows "\<exists>c'. WhpFuseMessagePipes h0 h1 c = Some (WHP_RESULT_OK, c') \<and> core_inv c' \<and>
     pipe_end_of p0 c' = Some (Some (\<lparr>pe_state = length (pipe_heap c), pe_end = 0\<rparr>, fused_pipe e0 ps0 e1 ps1)) \<and>
     pipe_end_of p1 c' = Some (Some (\<lparr>pe_state = length (pipe_heap c), pe_end = 1\<rparr>, fused_pipe e0 ps0 e1 ps1)) \<and>
     Lookup c' h0 = None \<and> Lookup c' h1 = None \<and> quiet c'"
proof -
  have o0: "owner c h0 (pe_state e0) (pe_end e0)" and o1: "owner c h1 (pe_state e1) (pe_end e1)"
    using h0 h1 by (auto simp: pipe_end_of_def owner_def option_bind_Some_iff split: option.splits if_splits)
  note lim = core_inv_owner [OF inv o0] core_inv_owner [OF inv o1]
  let ?fid = "length (pipe_heap c)"
  let ?ps = "fused_pipe e0 ps0 e1 ps1"
  define c' where "c' = Free h1 (Free h0 (set_obj p1 (OPipeEnd \<lparr>pe_state = ?fid, pe_end = 1\<rparr>)
     (set_obj p0 (OPipeEnd \<lparr>pe_state = ?fid, pe_end = 0\<rparr>) (c\<lparr>pipe_heap := pipe_heap c @ [?ps]\<rparr>))))"
  note st = fuse_state [OF inv o0 o1 ne p0 p1 fused_pipe_open [of e0 ps0 e1 ps1], folded c'_def]
  have "1 - pe_end e0 \<noteq> pe_end e0" "1 - pe_end e1 \<noteq> pe_end e1" using lim(2,5) by arith+
  then have d: "p0 \<noteq> h0" "p1 \<noteq> h1" using owner_fun [OF o0] owner_fun [OF o1] p0 p1 by metis+
  have d2: "p0 \<noteq> p1" "h0 \<noteq> h1" "p0 \<noteq> h1" "p1 \<noteq> h0"
    using owner_fun [OF o0] owner_fun [OF o1] owner_fun [OF p0] p1 o1 ne by metis+
  have "find_peer h0 h1 e0 c = Some p0" "find_peer h0 h1 e1 c = Some p1"
    using find_peer_iff [OF inv] lim(2,5) p0 p1 d d2 by blast+
  moreover obtain c'' where c'': "CollectTrapEvents c' = Some c''" "core_inv c''" "trap_frame c' c''" "quiet c''"
    using CollectTrapEvents_ok [OF st(1)] by blast
  ultimately have "WhpFuseMessagePipes h0 h1 c = Some (WHP_RESULT_OK, c'')"
    using h0 h1 ne d2(2) unfolding WhpFuseMessagePipes_def c'_def by (simp add: Let_def)
  moreover have "pipe_end_of p0 c' = Some (Some (\<lparr>pe_state = ?fid, pe_end = 0\<rparr>, ?ps))"
    "pipe_end_of p1 c' = Some (Some (\<lparr>pe_state = ?fid, pe_end = 1\<rparr>, ?ps))"
    using d d2 by (simp_all add: pipe_end_of_def st(2,3) nth_opt_def)
  moreover have "Lookup c'' h0 = None" "Lookup c'' h1 = None"
    using trap_frame_Lookup_None [OF c''(3)] by (simp_all add: st(3))
  ultimately show ?thesis using c'' pipe_end_of_frame [OF st(1) c''(3)] by auto
qed

lemma WhpFuseMessagePipes_fail:
  assumes inv: "core_inv c"
    and h0: "pipe_end_of h0 c = Some (Some (e0, ps0))" and h1: "pipe_end_of h1 c = Some (Some (e1, ps1))"
    and ne: "pe_state e0 \<noteq> pe_state e1"
    and no: "\<not> ((\<exists>p. owner c p (pe_state e0) (1 - pe_end e0)) \<and> (\<exists>p. owner c p (pe_state e1) (1 - pe_end e1)))"
  shows "WhpFuseMessagePipes h0 h1 c = Some (WHP_RESULT_FAILED_PRECONDITION, c)"
proof -
  have o: "owner c h0 (pe_state e0) (pe_end e0)" "owner c h1 (pe_state e1) (pe_end e1)"
    using h0 h1 by (auto simp: pipe_end_of_def owner_def option_bind_Some_iff split: option.splits if_splits)
  then have e: "pe_end e0 < 2" "pe_end e1 < 2" and "h0 \<noteq> h1"
    using core_inv_owner [OF inv] owner_fun ne by blast+
  moreover have "find_peer h0 h1 e0 c = None \<or> find_peer h0 h1 e1 c = None"
    using no find_peer_iff [OF inv e(1)] find_peer_iff [OF inv e(2)] by (meson option.exhaust)
  ultimately show ?thesis using h0 h1 ne
    by (auto simp: WhpFuseMessagePipes_def split: option.split)
qed

lemma WhpFuseMessagePipes_safe:
  assumes inv: "core_inv c"
  shows "\<exists>r c'. WhpFuseMessagePipes h0 h1 c = Some (r, c') \<and> core_inv c'"
proof (cases rule: pipe_end_of_cases [OF inv, of h0, case_names bad pipe])
  case bad
  then show ?thesis using inv
    by (cases rule: pipe_end_of_cases [OF inv, of h1, case_names bad pipe]) (simp_all add: WhpFuseMessagePipes_def)
next
  case a: (pipe s0 e0)
  show ?thesis
  proof (cases rule: pipe_end_of_cases [OF inv, of h1, case_names bad pipe])
    case bad
    with a inv show ?thesis by (simp add: WhpFuseMessagePipes_def)
  next
    case b: (pipe s1 e1)
    show ?thesis
    proof (cases "pe_state e0 = pe_state e1")
      case True
      with a b inv show ?thesis by (simp add: WhpFuseMessagePipes_def)
    next
      case False
      with WhpFuseMessagePipes_fail [OF inv a(7) b(7)] WhpFuseMessagePipes_ok [OF inv a(7) b(7)] inv
      show ?thesis by blast
    qed
  qed
qed

end
