(* ===== verification/Whp_Buffers.thy ===== *)
theory Whp_Buffers
  imports Whp_Pairs
begin

text \<open>
  Shared buffers and platform handles: the rest of the API of \<open>core.cc\<close>.  The operating
  system's \<open>mmap\<close> or \<open>MapViewOfFile\<close> is the parameter \<open>os_map\<close>: from the native handle,
  whether the view is writable, and its size, to the address of the view, or \<open>None\<close> when
  the call fails.  \<open>std::unordered_map\<close> is an association list whose order no operation
  depends on.
\<close>

type_synonym OsMap = "nat \<Rightarrow> bool \<Rightarrow> nat \<Rightarrow> nat option"

definition PlatformTypeOkForHost :: "Host \<Rightarrow> PlatformHandleType \<Rightarrow> bool" where
  "PlatformTypeOkForHost hst ty \<longleftrightarrow>
     ty = PLATFORM_MACH_PORT \<or>
     (if hst = HostWindows then ty = PLATFORM_WINDOWS_HANDLE else ty = PLATFORM_FILE_DESCRIPTOR)"

text \<open>The result says whether the buffer has memory; the buffer may be changed by mapping it.\<close>

definition EnsureMapped :: "Host \<Rightarrow> OsMap \<Rightarrow> SharedBufferObj \<Rightarrow> bool \<times> SharedBufferObj" where
  "EnsureMapped hst os_map b =
     (if sb_os_base b \<noteq> None \<or> sb_bytes b \<noteq> [] then (True, b)
      else (case sb_plat b of
              [] \<Rightarrow> (False, b)
            | (ty, v) # _ \<Rightarrow>
                if sb_size b = 0 then (False, b)
                else if ty = PLATFORM_MACH_PORT
                then (True, b\<lparr>sb_bytes := replicate (sb_size b) 0\<rparr>)
                else if hst = HostWindows \<and> ty \<noteq> PLATFORM_WINDOWS_HANDLE \<or>
                        hst \<noteq> HostWindows \<and> ty \<noteq> PLATFORM_FILE_DESCRIPTOR
                then (False, b)
                else (case os_map v (sb_access_mode b \<noteq> ACCESS_READ_ONLY) (sb_size b) of
                        None \<Rightarrow> (False, b)
                      | Some base \<Rightarrow>
                          (True, b\<lparr>sb_os_base := Some base, sb_os_mapped_size := sb_size b\<rparr>))))"

definition empty_buffer :: SharedBufferObj where
  "empty_buffer = \<lparr>sb_bytes = [], sb_size = 0, sb_plat = [], sb_plat_owns = False, sb_guid_high = 0,
     sb_guid_low = 0, sb_access_mode = ACCESS_UNSAFE, sb_os_base = None, sb_os_mapped_size = 0\<rparr>"

definition WhpCreateSharedBuffer :: "nat \<Rightarrow> bool \<Rightarrow> Core \<Rightarrow> (WhpResult \<times> WhpHandle option \<times> Core) option" where
  "WhpCreateSharedBuffer num_bytes buffer_ptr c =
     (if \<not> buffer_ptr \<or> num_bytes = 0 then Some (WHP_RESULT_INVALID_ARGUMENT, None, c)
      else do {
        let ob = empty_buffer\<lparr>sb_bytes := replicate num_bytes 0, sb_size := num_bytes\<rparr>;
        (h, c') \<leftarrow> Alloc KSharedBuffer (OSharedBuffer (length (buf_heap c)))
                    (c\<lparr>buf_heap := buf_heap c @ [ob]\<rparr>);
        Some (WHP_RESULT_OK, Some h, c') })"

definition buffer_of :: "WhpHandle \<Rightarrow> Core \<Rightarrow> (nat \<times> SharedBufferObj) option option" where
  "buffer_of h c =
     (case Lookup c h of
        None \<Rightarrow> Some None
      | Some s \<Rightarrow> if sl_kind s \<noteq> KSharedBuffer then Some None
                  else do {
                    b \<leftarrow> as_buffer (sl_obj s);
                    ob \<leftarrow> nth_opt (buf_heap c) b;
                    Some (Some (b, ob)) })"

definition WhpDuplicateBufferHandle ::
    "WhpHandle \<Rightarrow> bool \<Rightarrow> Core \<Rightarrow> (WhpResult \<times> WhpHandle option \<times> Core) option" where
  "WhpDuplicateBufferHandle buffer new_ptr c =
     (if \<not> new_ptr then Some (WHP_RESULT_INVALID_ARGUMENT, None, c)
      else do {
        bo \<leftarrow> buffer_of buffer c;
        (case bo of
           None \<Rightarrow> Some (WHP_RESULT_INVALID_ARGUMENT, None, c)
         | Some (b, _) \<Rightarrow> do {
             (h, c') \<leftarrow> Alloc KSharedBuffer (OSharedBuffer b) c;
             Some (WHP_RESULT_OK, Some h, c') }) })"

definition WhpGetBufferInfo :: "WhpHandle \<Rightarrow> bool \<Rightarrow> Core \<Rightarrow> (WhpResult \<times> nat option) option" where
  "WhpGetBufferInfo buffer num_ptr c =
     (if \<not> num_ptr then Some (WHP_RESULT_INVALID_ARGUMENT, None)
      else do {
        bo \<leftarrow> buffer_of buffer c;
        Some (case bo of None \<Rightarrow> (WHP_RESULT_INVALID_ARGUMENT, None)
                       | Some (_, ob) \<Rightarrow> (WHP_RESULT_OK, Some (sb_size ob))) })"

text \<open>\<open>c.maps[p]\<close>: a missing key is added with no references.  When the entry's buffer
  changes, the old buffer may have lost its last reference.\<close>

definition buf_span :: "SharedBufferObj \<Rightarrow> nat" where
  "buf_span ob = (case sb_os_base ob of None \<Rightarrow> length (sb_bytes ob) | Some _ \<Rightarrow> sb_size ob)"

definition buf_address :: "nat \<Rightarrow> SharedBufferObj \<Rightarrow> nat \<Rightarrow> Address" where
  "buf_address b ob offset =
     (case sb_os_base ob of None \<Rightarrow> BytesAddr b offset | Some base \<Rightarrow> OsAddr (add64 base offset))"

definition map_region :: "Host \<Rightarrow> Address \<Rightarrow> nat \<Rightarrow> Core \<Rightarrow> Core option" where
  "map_region hst p b c =
     (let old = map_of (maps c) p;
          refs = (case old of None \<Rightarrow> 0 | Some m \<Rightarrow> mr_refs m);
          c1 = c\<lparr>maps := (p, \<lparr>mr_buf = b, mr_refs = refs + 1\<rparr>) # filter (\<lambda>(q, _). q \<noteq> p) (maps c)\<rparr>
      in case old of
           None \<Rightarrow> Some c1
         | Some m \<Rightarrow> if mr_buf m = b then Some c1 else drop_buffer hst (mr_buf m) c1)"

definition WhpMapBuffer :: "Env \<Rightarrow> OsMap \<Rightarrow> WhpHandle \<Rightarrow> nat \<Rightarrow> nat \<Rightarrow> bool \<Rightarrow> Core \<Rightarrow>
    (WhpResult \<times> Address option \<times> Core) option" where
  "WhpMapBuffer env os_map buffer offset num_bytes data_ptr c =
     (if \<not> data_ptr then Some (WHP_RESULT_INVALID_ARGUMENT, None, c)
      else do {
        bo \<leftarrow> buffer_of buffer c;
        (case bo of
           None \<Rightarrow> Some (WHP_RESULT_INVALID_ARGUMENT, None, c)
         | Some (b, ob) \<Rightarrow>
             (let (mapped, ob') = EnsureMapped (host env) os_map ob;
                  c1 = c\<lparr>buf_heap := (buf_heap c)[b := ob']\<rparr>
              in if \<not> mapped then Some (WHP_RESULT_FAILED_PRECONDITION, None, c1)
                 else if buf_span ob' < add64 offset num_bytes
                 then Some (WHP_RESULT_OUT_OF_RANGE, None, c1)
                 else do {
                   c2 \<leftarrow> map_region (host env) (buf_address b ob' offset) b c1;
                   Some (WHP_RESULT_OK, Some (buf_address b ob' offset), c2) })) })"

definition WhpUnmapBuffer :: "Env \<Rightarrow> Address \<Rightarrow> Core \<Rightarrow> (WhpResult \<times> Core) option" where
  "WhpUnmapBuffer env p c =
     (case map_of (maps c) p of
        None \<Rightarrow> Some (WHP_RESULT_INVALID_ARGUMENT, c)
      | Some m \<Rightarrow>
          if mr_refs m = 0 then Some (WHP_RESULT_INVALID_ARGUMENT, c)
          else if mr_refs m = 1
          then do {
            c' \<leftarrow> drop_buffer (host env) (mr_buf m) (c\<lparr>maps := filter (\<lambda>(q, _). q \<noteq> p) (maps c)\<rparr>);
            Some (WHP_RESULT_OK, c') }
          else Some (WHP_RESULT_OK,
                 c\<lparr>maps := (p, m\<lparr>mr_refs := mr_refs m - 1\<rparr>) # filter (\<lambda>(q, _). q \<noteq> p) (maps c)\<rparr>))"

subsection \<open>Platform handles\<close>

definition WhpWrapPlatformHandle :: "Env \<Rightarrow> PlatformHandleType \<Rightarrow> nat \<Rightarrow> bool \<Rightarrow> Core \<Rightarrow>
    (WhpResult \<times> WhpHandle option \<times> Core) option" where
  "WhpWrapPlatformHandle env ty v handle_ptr c =
     (if \<not> handle_ptr \<or> \<not> PlatformTypeOkForHost (host env) ty \<or> ty = PLATFORM_MACH_PORT \<and> v = 0 \<or>
         host env = HostWindows \<and> (v = 0 \<or> v = 2 ^ 64 - 1)
      then Some (WHP_RESULT_INVALID_ARGUMENT, None, c)
      else do {
        (h, c') \<leftarrow> Alloc KPlatform (OPlatform \<lparr>plat_type = ty, plat_value = v, plat_owned = True\<rparr>) c;
        Some (WHP_RESULT_OK, Some h, c') })"

definition platform_of :: "WhpHandle \<Rightarrow> Core \<Rightarrow> PlatformObj option option" where
  "platform_of h c =
     (case Lookup c h of
        None \<Rightarrow> Some None
      | Some s \<Rightarrow> if sl_kind s \<noteq> KPlatform then Some None
                  else do { p \<leftarrow> as_platform (sl_obj s); Some (Some p) })"

definition WhpUnwrapPlatformHandle :: "WhpHandle \<Rightarrow> bool \<Rightarrow> bool \<Rightarrow> Core \<Rightarrow>
    (WhpResult \<times> (PlatformHandleType \<times> nat) option \<times> Core) option" where
  "WhpUnwrapPlatformHandle h type_ptr value_ptr c =
     (if \<not> type_ptr \<or> \<not> value_ptr then Some (WHP_RESULT_INVALID_ARGUMENT, None, c)
      else do {
        po \<leftarrow> platform_of h c;
        Some (case po of
           None \<Rightarrow> (WHP_RESULT_INVALID_ARGUMENT, None, c)
         | Some p \<Rightarrow> (WHP_RESULT_OK, Some (plat_type p, plat_value p), Free h c)) })"

text \<open>\<open>handles\<close> is \<open>None\<close> when \<open>types\<close> or \<open>values\<close> is null.\<close>

definition WhpWrapPlatformSharedMemoryRegion ::
    "Env \<Rightarrow> (PlatformHandleType \<times> nat) list option \<Rightarrow> nat \<Rightarrow> nat \<Rightarrow> nat \<Rightarrow> AccessMode \<Rightarrow> bool \<Rightarrow> Core \<Rightarrow>
     (WhpResult \<times> WhpHandle option \<times> Core) option" where
  "WhpWrapPlatformSharedMemoryRegion env handles num_bytes guid_high guid_low access handle_ptr c =
     (case handles of
        None \<Rightarrow> Some (WHP_RESULT_INVALID_ARGUMENT, None, c)
      | Some hs \<Rightarrow>
          if \<not> handle_ptr \<or> num_bytes = 0 \<or> hs = [] \<or> 2 < length hs \<or>
             list_ex (\<lambda>(ty, v). \<not> PlatformTypeOkForHost (host env) ty \<or> ty = PLATFORM_MACH_PORT \<and> v = 0) hs
          then Some (WHP_RESULT_INVALID_ARGUMENT, None, c)
          else do {
            let ob = empty_buffer\<lparr>sb_size := num_bytes, sb_plat := hs, sb_plat_owns := True,
                       sb_guid_high := guid_high, sb_guid_low := guid_low, sb_access_mode := access,
                       sb_bytes := (if fst (hd hs) = PLATFORM_MACH_PORT then replicate num_bytes 0 else [])\<rparr>;
            (h, c') \<leftarrow> Alloc KSharedBuffer (OSharedBuffer (length (buf_heap c)))
                        (c\<lparr>buf_heap := buf_heap c @ [ob]\<rparr>);
            Some (WHP_RESULT_OK, Some h, c') })"

text \<open>\<open>num_handles\<close> is \<open>*num_handles\<close>; \<open>arrays\<close> says that both arrays are given.  The out
  values are the new \<open>*num_handles\<close> and, on success, the handles and the region's
  description.\<close>

definition WhpUnwrapPlatformSharedMemoryRegion ::
    "Env \<Rightarrow> WhpHandle \<Rightarrow> nat option \<Rightarrow> bool \<Rightarrow> Core \<Rightarrow>
     (WhpResult \<times> nat option \<times>
      ((PlatformHandleType \<times> nat) list \<times> nat \<times> nat \<times> nat \<times> AccessMode) option \<times> Core) option" where
  "WhpUnwrapPlatformSharedMemoryRegion env h num_handles arrays c =
     (case num_handles of
        None \<Rightarrow> Some (WHP_RESULT_INVALID_ARGUMENT, None, None, c)
      | Some n \<Rightarrow> do {
          bo \<leftarrow> buffer_of h c;
          (case bo of
             None \<Rightarrow> Some (WHP_RESULT_INVALID_ARGUMENT, Some n, None, c)
           | Some (b, ob) \<Rightarrow>
               if sb_plat ob = [] then Some (WHP_RESULT_FAILED_PRECONDITION, Some n, None, c)
               else if \<not> arrays \<or> n < length (sb_plat ob)
               then Some (WHP_RESULT_RESOURCE_EXHAUSTED, Some (length (sb_plat ob)), None, c)
               else do {
                 c' \<leftarrow> drop_buffer (host env) b
                         (Free h (c\<lparr>buf_heap := (buf_heap c)[b := ob\<lparr>sb_plat_owns := False\<rparr>]\<rparr>));
                 Some (WHP_RESULT_OK, Some (length (sb_plat ob)),
                       Some (sb_plat ob, sb_size ob, sb_guid_high ob, sb_guid_low ob, sb_access_mode ob),
                       c') }) })"

subsection \<open>Safety\<close>

lemma buffer_of_cases:
  assumes "core_inv c"
  obtains (bad) "buffer_of h c = Some None"
  | (buffer) s b where "Lookup c h = Some s" "sl_kind s = KSharedBuffer" "sl_obj s = OSharedBuffer b"
      "b < length (buf_heap c)" "buffer_of h c = Some (Some (b, buf_heap c ! b))"
proof (cases "Lookup c h")
  case None
  then show ?thesis by (intro bad) (simp add: buffer_of_def)
next
  case (Some s)
  show ?thesis
  proof (cases "sl_kind s = KSharedBuffer")
    case True
    then obtain b where "sl_obj s = OSharedBuffer b" "b < length (buf_heap c)"
      using wf_slot_kindD(6) [OF core_inv_wf [OF assms Some]] by blast
    with True Some show ?thesis by (intro buffer [of s b]) (simp_all add: buffer_of_def)
  qed (use Some in \<open>auto intro!: bad simp: buffer_of_def\<close>)
qed

lemma core_inv_add_buffer:
  assumes "core_inv c"
  shows "core_inv (c\<lparr>buf_heap := buf_heap c @ [ob]\<rparr>)"
proof -
  have "types_ok (c\<lparr>buf_heap := buf_heap c @ [ob]\<rparr>)"
    by (rule types_ok_grow [of c]) (use assms in \<open>simp_all add: core_inv_def\<close>)
  moreover have "list_all (\<lambda>(_, m). mr_buf m < Suc (length (buf_heap c))) (maps c)"
    using assms by (auto simp: core_inv_defs list_all_iff less_Suc_eq)
  ultimately show ?thesis using assms by (simp add: core_inv_def ends_ok_def traps_ok_def stores_ok_def)
qed

lemma core_inv_set_maps:
  assumes "core_inv c" "list_all (\<lambda>(_, m). mr_buf m < length (buf_heap c)) mp"
  shows "core_inv (c\<lparr>maps := mp\<rparr>)"
  using assms by (simp add: core_inv_defs wf_slot_def)

lemma core_inv_maps_of:
  "core_inv c \<Longrightarrow> map_of (maps c) p = Some m \<Longrightarrow> mr_buf m < length (buf_heap c)"
  by (auto simp: core_inv_defs list_all_iff dest!: map_of_SomeD)

lemma core_inv_maps_filter:
  "core_inv c \<Longrightarrow> list_all (\<lambda>(_, m). mr_buf m < length (buf_heap c)) (filter P (maps c))"
  by (auto simp: core_inv_defs list_all_iff)

lemma core_inv_new_buffer:
  assumes "core_inv c" "handle_room 0 c"
  shows "\<exists>h c'. Alloc KSharedBuffer (OSharedBuffer (length (buf_heap c)))
     (c\<lparr>buf_heap := buf_heap c @ [ob]\<rparr>) = Some (h, c') \<and> core_inv c'"
  using core_inv_Alloc [OF core_inv_add_buffer [OF assms(1), of ob],
      of KSharedBuffer "OSharedBuffer (length (buf_heap c))"] assms(2)
  by (auto simp: handle_room_def plain_def wf_slot_def wf_at_def)

lemma WhpCreateSharedBuffer_safe:
  assumes "core_inv c" "handle_room 0 c"
  shows "\<exists>r out c'. WhpCreateSharedBuffer n p c = Some (r, out, c') \<and> core_inv c'"
  using core_inv_new_buffer [OF assms,
      of "empty_buffer\<lparr>sb_bytes := replicate n 0, sb_size := n\<rparr>"] assms(1)
  by (auto simp: WhpCreateSharedBuffer_def Let_def)

lemma WhpDuplicateBufferHandle_safe:
  assumes inv: "core_inv c" and room: "handle_room 0 c"
  shows "\<exists>r out c'. WhpDuplicateBufferHandle buffer p c = Some (r, out, c') \<and> core_inv c'"
proof (cases rule: buffer_of_cases [OF inv, of buffer, case_names bad buf])
  case bad
  with inv show ?thesis by (simp add: WhpDuplicateBufferHandle_def)
next
  case (buf s b)
  with core_inv_Alloc [OF inv room, of KSharedBuffer "OSharedBuffer b"] inv show ?thesis
    by (auto simp: WhpDuplicateBufferHandle_def plain_def wf_slot_def wf_at_def)
qed

lemma WhpGetBufferInfo_safe:
  assumes inv: "core_inv c"
  shows "\<exists>r out. WhpGetBufferInfo buffer p c = Some (r, out)"
  by (cases rule: buffer_of_cases [OF inv, of buffer, case_names bad buf])
    (auto simp: WhpGetBufferInfo_def)

lemma map_region_safe:
  assumes inv: "core_inv c" and b: "b < length (buf_heap c)"
  shows "\<exists>c'. map_region hst p b c = Some c' \<and> core_inv c'"
proof -
  let ?c1 = "\<lambda>refs. c\<lparr>maps := (p, \<lparr>mr_buf = b, mr_refs = refs\<rparr>) # filter (\<lambda>(q, _). q \<noteq> p) (maps c)\<rparr>"
  have c1: "core_inv (?c1 r)" for r
    using core_inv_maps_filter [OF inv] b by (intro core_inv_set_maps [OF inv]) simp
  show ?thesis
  proof (cases "map_of (maps c) p")
    case None
    with c1 [of 1] show ?thesis by (simp add: map_region_def Let_def)
  next
    case (Some m)
    with c1 drop_buffer_safe [of "?c1 (mr_refs m + 1)" "mr_buf m" hst] core_inv_maps_of [OF inv Some]
    show ?thesis by (simp add: map_region_def Let_def)
  qed
qed

lemma WhpMapBuffer_safe:
  assumes inv: "core_inv c"
  shows "\<exists>r out c'. WhpMapBuffer env os_map buffer off n p c = Some (r, out, c') \<and> core_inv c'"
proof (cases rule: buffer_of_cases [OF inv, of buffer, case_names bad buf])
  case bad
  with inv show ?thesis by (simp add: WhpMapBuffer_def)
next
  case (buf s b)
  obtain mp ob where e: "EnsureMapped (host env) os_map (buf_heap c ! b) = (mp, ob)" by fastforce
  let ?c = "c\<lparr>buf_heap := (buf_heap c)[b := ob]\<rparr>"
  have c: "core_inv ?c" using core_inv_set_buf [OF inv] .
  moreover obtain c2 where "map_region (host env) (buf_address b ob off) b ?c = Some c2" "core_inv c2"
    using map_region_safe [OF c, of b] buf(4) by auto
  ultimately show ?thesis using buf e inv by (simp add: WhpMapBuffer_def Let_def)
qed

lemma WhpUnmapBuffer_safe:
  assumes inv: "core_inv c"
  shows "\<exists>r c'. WhpUnmapBuffer env p c = Some (r, c') \<and> core_inv c'"
proof (cases "map_of (maps c) p")
  case None
  with inv show ?thesis by (simp add: WhpUnmapBuffer_def)
next
  case (Some m)
  note b = core_inv_maps_of [OF inv Some]
  let ?f = "filter (\<lambda>(q, _). q \<noteq> p) (maps c)"
  have "core_inv (c\<lparr>maps := (p, m\<lparr>mr_refs := mr_refs m - 1\<rparr>) # ?f\<rparr>)"
    using core_inv_maps_filter [OF inv] b by (intro core_inv_set_maps [OF inv]) simp
  moreover obtain c' where "drop_buffer (host env) (mr_buf m) (c\<lparr>maps := ?f\<rparr>) = Some c'" "core_inv c'"
    using drop_buffer_safe [OF core_inv_set_maps [OF inv core_inv_maps_filter [OF inv]], of "mr_buf m"] b
    by auto
  ultimately show ?thesis using Some inv by (simp add: WhpUnmapBuffer_def)
qed

lemma WhpWrapPlatformHandle_safe:
  assumes "core_inv c" "handle_room 0 c"
  shows "\<exists>r out c'. WhpWrapPlatformHandle env ty v p c = Some (r, out, c') \<and> core_inv c'"
  using core_inv_Alloc [OF assms, of KPlatform
      "OPlatform \<lparr>plat_type = ty, plat_value = v, plat_owned = True\<rparr>"] assms(1)
  by (auto simp: WhpWrapPlatformHandle_def plain_def wf_slot_def wf_at_def)

lemma WhpUnwrapPlatformHandle_safe:
  assumes inv: "core_inv c"
  shows "\<exists>r out c'. WhpUnwrapPlatformHandle h tp vp c = Some (r, out, c') \<and> core_inv c'"
proof (cases "\<exists>s. Lookup c h = Some s \<and> sl_kind s = KPlatform")
  case True
  then obtain s where s: "Lookup c h = Some s" "sl_kind s = KPlatform" by blast
  then obtain p where p: "sl_obj s = OPlatform p" using wf_slot_kindD(7) [OF core_inv_wf [OF inv]] by blast
  with core_inv_Free [OF inv s(1)] s inv show ?thesis
    by (simp add: WhpUnwrapPlatformHandle_def platform_of_def plain_def)
next
  case False
  with inv show ?thesis
    by (cases "Lookup c h") (auto simp: WhpUnwrapPlatformHandle_def platform_of_def)
qed

lemma WhpWrapPlatformSharedMemoryRegion_safe:
  assumes "core_inv c" "handle_room 0 c"
  shows "\<exists>r out c'. WhpWrapPlatformSharedMemoryRegion env hs n gh gl acc p c = Some (r, out, c') \<and> core_inv c'"
proof (cases hs)
  case None
  with assms show ?thesis by (simp add: WhpWrapPlatformSharedMemoryRegion_def)
next
  case (Some xs)
  let ?ob = "empty_buffer\<lparr>sb_size := n, sb_plat := xs, sb_plat_owns := True,
      sb_guid_high := gh, sb_guid_low := gl, sb_access_mode := acc,
      sb_bytes := (if fst (hd xs) = PLATFORM_MACH_PORT then replicate n 0 else [])\<rparr>"
  obtain h c' where "Alloc KSharedBuffer (OSharedBuffer (length (buf_heap c)))
      (c\<lparr>buf_heap := buf_heap c @ [?ob]\<rparr>) = Some (h, c')" "core_inv c'"
    using core_inv_new_buffer [OF assms, of ?ob] by blast
  with Some assms(1) show ?thesis
    unfolding WhpWrapPlatformSharedMemoryRegion_def Let_def by simp
qed

lemma WhpUnwrapPlatformSharedMemoryRegion_safe:
  assumes inv: "core_inv c"
  shows "\<exists>r k out c'. WhpUnwrapPlatformSharedMemoryRegion env h n arr c = Some (r, k, out, c') \<and> core_inv c'"
proof (cases n)
  case None
  with inv show ?thesis by (simp add: WhpUnwrapPlatformSharedMemoryRegion_def)
next
  case (Some k)
  show ?thesis
  proof (cases rule: buffer_of_cases [OF inv, of h, case_names bad buf])
    case bad
    with inv Some show ?thesis by (simp add: WhpUnwrapPlatformSharedMemoryRegion_def)
  next
    case (buf s b)
    let ?c = "c\<lparr>buf_heap := (buf_heap c)[b := (buf_heap c ! b)\<lparr>sb_plat_owns := False\<rparr>]\<rparr>"
    have "core_inv (Free h ?c)"
      using core_inv_Free [of ?c h s] core_inv_set_buf [OF inv] buf by (simp add: plain_def)
    with drop_buffer_safe [OF this, of b "host env"] buf Some inv show ?thesis
      by (auto simp: WhpUnwrapPlatformSharedMemoryRegion_def)
  qed
qed

lemma drop_buffer_maps: "drop_buffer hst b c = Some c' \<Longrightarrow> maps c' = maps c"
proof -
  have "maps (fold (\<lambda>(ty, v). CloseNativePlatform hst ty v) ps c0) = maps c0" for ps c0
    by (induction ps arbitrary: c0) (auto simp: CloseNativePlatform_def)
  then show "drop_buffer hst b c = Some c' \<Longrightarrow> maps c' = maps c"
    by (auto simp: drop_buffer_def option_bind_Some_iff Let_def split: if_splits)
qed

lemma map_region_entry:
  "map_region hst p b c = Some c' \<Longrightarrow> \<exists>m. map_of (maps c') p = Some m \<and> mr_buf m = b \<and> 0 < mr_refs m"
  by (auto simp: map_region_def Let_def dest!: drop_buffer_maps split: option.splits if_splits)

end
