(* ===== verification/Whp_System.thy ===== *)
theory Whp_System
  imports Whp_Buffers
begin

text \<open>
  The core as a state machine.  A \<open>Call\<close> is one call of the C API with its arguments, or a
  write by the client through a pointer the API handed out (the bytes of an uncommitted
  message, the window of a two-phase write).  \<open>exec\<close> runs one call, \<open>core_step\<close> and
  \<open>reachable\<close> are the step relation and the states that any sequence of calls, in any
  order and from any number of threads, can reach (each call holds \<open>Core::mu\<close>).
\<close>

datatype Call =
    CInit | CPumpEvents | CClose WhpHandle
  | CCreateMessage bool | CDestroyMessage WhpHandle
  | CAppendMessageData WhpHandle nat "WhpHandle list" bool
  | CFillMessage WhpHandle "byte list"
  | CGetMessageData WhpHandle bool "nat option"
  | CSerializeMessage WhpHandle | CReserveMessageCapacity WhpHandle nat
  | CSetMessageContext WhpHandle uintptr fnptr fnptr
  | CCreateMessagePipe bool bool | CWriteMessage WhpHandle WhpHandle | CReadMessage WhpHandle bool
  | CSetQuota WhpHandle QuotaType nat | CFuseMessagePipes WhpHandle WhpHandle
  | CCreateTrap fnptr bool | CAddTrigger WhpHandle WhpHandle WhpHandleSignals TriggerCondition uintptr
  | CRemoveTrigger WhpHandle uintptr | CArmTrap WhpHandle "nat option" bool
  | CCreateDataPipe "(nat \<times> nat) option" bool bool
  | CWriteData WhpHandle "byte list" "nat option" | CReadData WhpHandle "nat option"
  | CBeginWriteData WhpHandle bool "nat option" | CFillTwoPhase nat "byte list" | CEndWriteData WhpHandle nat
  | CBeginReadData WhpHandle bool "nat option" | CEndReadData WhpHandle nat
  | CCreateSharedBuffer nat bool | CDuplicateBufferHandle WhpHandle bool
  | CMapBuffer WhpHandle nat nat bool | CUnmapBuffer Address
  | CWrapPlatformHandle PlatformHandleType nat bool | CUnwrapPlatformHandle WhpHandle bool bool
  | CWrapRegion "(PlatformHandleType \<times> nat) list option" nat nat nat AccessMode bool
  | CUnwrapRegion WhpHandle "nat option" bool

text \<open>Writes through \<open>*buffer\<close> of \<open>WhpAppendMessageData\<close>: as many bytes as the message has.\<close>

definition fill_message :: "WhpHandle \<Rightarrow> byte list \<Rightarrow> Core \<Rightarrow> Core option" where
  "fill_message h bs c = do {
     mo \<leftarrow> message_of h c;
     Some (case mo of
        None \<Rightarrow> c
      | Some m \<Rightarrow> if length bs = length (msg_bytes m)
                  then set_obj h (OMessage (m\<lparr>msg_bytes := bs\<rparr>)) c else c) }"

text \<open>Writes through \<open>*buffer\<close> of \<open>WhpBeginWriteData\<close>: at most the bytes it granted, where
  they fall outside the pipe's memory the write is undefined.\<close>

definition fill_two_phase :: "nat \<Rightarrow> byte list \<Rightarrow> Core \<Rightarrow> Core option" where
  "fill_two_phase did bs c =
     (if did < length (data_heap c)
      then (let s = data_heap c ! did
            in case two_phase_write s of
                 None \<Rightarrow> Some c
               | Some off \<Rightarrow>
                   if two_phase_write_max s < length bs then Some c
                   else if length (buf s) < off + length bs then None
                   else Some (set_data did (client_fill off bs s) c))
      else Some c)"

primrec exec :: "Env \<Rightarrow> OsMap \<Rightarrow> Call \<Rightarrow> Core \<Rightarrow> Core option" where
  "exec env os CInit c = Some (snd (WhpInit c))"
| "exec env os CPumpEvents c = Some (snd (WhpPumpEvents env c))"
| "exec env os (CClose h) c = map_option snd (WhpClose env h c)"
| "exec env os (CCreateMessage p) c = map_option (snd \<circ> snd) (WhpCreateMessage p c)"
| "exec env os (CDestroyMessage h) c = map_option snd (WhpDestroyMessage env h c)"
| "exec env os (CAppendMessageData h n hs b) c = map_option (snd \<circ> snd) (WhpAppendMessageData h n hs b c)"
| "exec env os (CFillMessage h bs) c = fill_message h bs c"
| "exec env os (CGetMessageData h p n) c =
     map_option (snd \<circ> snd \<circ> snd \<circ> snd \<circ> snd) (WhpGetMessageData h p n c)"
| "exec env os (CSerializeMessage h) c = map_option snd (WhpSerializeMessage env h c)"
| "exec env os (CReserveMessageCapacity h n) c = map_option (snd \<circ> snd) (WhpReserveMessageCapacity h n c)"
| "exec env os (CSetMessageContext h x s d) c = map_option snd (WhpSetMessageContext env h x s d c)"
| "exec env os (CCreateMessagePipe p q) c = map_option (snd \<circ> snd) (WhpCreateMessagePipe p q c)"
| "exec env os (CWriteMessage h m) c = map_option snd (WhpWriteMessage env h m c)"
| "exec env os (CReadMessage h p) c = map_option (snd \<circ> snd) (WhpReadMessage h p c)"
| "exec env os (CSetQuota h ty n) c = map_option snd (WhpSetQuota h ty n c)"
| "exec env os (CFuseMessagePipes h k) c = map_option snd (WhpFuseMessagePipes h k c)"
| "exec env os (CCreateTrap f p) c = map_option (snd \<circ> snd) (WhpCreateTrap f p c)"
| "exec env os (CAddTrigger t h s b x) c = map_option snd (WhpAddTrigger t h s b x c)"
| "exec env os (CRemoveTrigger t x) c = map_option snd (WhpRemoveTrigger t x c)"
| "exec env os (CArmTrap t n p) c = map_option (snd \<circ> snd \<circ> snd) (WhpArmTrap t n p c)"
| "exec env os (CCreateDataPipe opts p q) c = map_option (snd \<circ> snd) (WhpCreateDataPipe opts p q c)"
| "exec env os (CWriteData h xs n) c = map_option (snd \<circ> snd) (WhpWriteData h xs n c)"
| "exec env os (CReadData h n) c = map_option (snd \<circ> snd \<circ> snd) (WhpReadData h n c)"
| "exec env os (CBeginWriteData h p n) c = map_option (snd \<circ> snd) (WhpBeginWriteData h p n c)"
| "exec env os (CFillTwoPhase did bs) c = fill_two_phase did bs c"
| "exec env os (CEndWriteData h n) c = map_option snd (WhpEndWriteData h n c)"
| "exec env os (CBeginReadData h p n) c = map_option (snd \<circ> snd) (WhpBeginReadData h p n c)"
| "exec env os (CEndReadData h n) c = map_option snd (WhpEndReadData h n c)"
| "exec env os (CCreateSharedBuffer n p) c = map_option (snd \<circ> snd) (WhpCreateSharedBuffer n p c)"
| "exec env os (CDuplicateBufferHandle h p) c = map_option (snd \<circ> snd) (WhpDuplicateBufferHandle h p c)"
| "exec env os (CMapBuffer h x n p) c = map_option (snd \<circ> snd) (WhpMapBuffer env os h x n p c)"
| "exec env os (CUnmapBuffer a) c = map_option snd (WhpUnmapBuffer env a c)"
| "exec env os (CWrapPlatformHandle ty v p) c = map_option (snd \<circ> snd) (WhpWrapPlatformHandle env ty v p c)"
| "exec env os (CUnwrapPlatformHandle h p q) c = map_option (snd \<circ> snd) (WhpUnwrapPlatformHandle h p q c)"
| "exec env os (CWrapRegion hs n gh gl acc p) c =
     map_option (snd \<circ> snd) (WhpWrapPlatformSharedMemoryRegion env hs n gh gl acc p c)"
| "exec env os (CUnwrapRegion h n b) c =
     map_option (snd \<circ> snd \<circ> snd) (WhpUnwrapPlatformSharedMemoryRegion env h n b c)"

text \<open>What a C caller owes: \<open>*num_bytes\<close> bytes behind \<open>elements\<close>, and values that fit the
  \<open>uint32_t\<close> fields of the options.\<close>

definition call_ok :: "Call \<Rightarrow> bool" where
  "call_ok call =
     (case call of
        CWriteData h xs n \<Rightarrow> (case n of None \<Rightarrow> True | Some k \<Rightarrow> k \<le> length xs)
      | CCreateDataPipe opts p q \<Rightarrow> (case opts of None \<Rightarrow> True | Some (e, n) \<Rightarrow> n < 2 ^ 32)
      | _ \<Rightarrow> True)"

inductive core_step :: "Env \<Rightarrow> OsMap \<Rightarrow> Core \<Rightarrow> Core \<Rightarrow> bool" for env os where
  call: "call_ok call \<Longrightarrow> handle_room 1 c \<Longrightarrow> exec env os call c = Some c' \<Longrightarrow> core_step env os c c'"

inductive reachable :: "Env \<Rightarrow> OsMap \<Rightarrow> Core \<Rightarrow> bool" for env os where
  start: "reachable env os initial_core"
| step: "reachable env os c \<Longrightarrow> core_step env os c c' \<Longrightarrow> reachable env os c'"

inductive_cases core_stepE: "core_step env os c c'"

lemma fill_message_safe:
  assumes inv: "core_inv c"
  shows "\<exists>c'. fill_message h bs c = Some c' \<and> core_inv c'"
  using inv by (cases rule: message_of_cases [OF inv, of h, case_names bad msg])
    (auto simp: fill_message_def intro: core_inv_set_message)

lemma fill_two_phase_safe:
  assumes "core_inv c"
  shows "\<exists>c'. fill_two_phase did bs c = Some c' \<and> core_inv c'"
proof (cases "did < length (data_heap c)")
  case False
  with assms show ?thesis by (simp add: fill_two_phase_def)
next
  case True
  let ?s = "data_heap c ! did"
  have safe: "ring_safe ?s" using assms True by (simp add: core_inv_defs list_all_length)
  show ?thesis
  proof (cases "two_phase_write ?s")
    case None
    with assms True show ?thesis by (simp add: fill_two_phase_def Let_def)
  next
    case (Some off)
    have "off + two_phase_write_max ?s \<le> length (buf ?s)" using safe Some by (simp add: ring_safe_def)
    moreover have "length bs \<le> two_phase_write_max ?s \<Longrightarrow> core_inv (set_data did (client_fill off bs ?s) c)"
      using core_inv_set_data [OF assms ring_safe_client_fill [OF safe Some]] by blast
    ultimately show ?thesis using assms True Some by (auto simp: fill_two_phase_def Let_def)
  qed
qed

text \<open>Every call, in every state of the invariant, is defined and keeps the invariant.\<close>

lemma exec_safe:
  assumes inv: "core_inv c" and env: "env_ok env" and room: "handle_room 1 c" and ok: "call_ok call"
  shows "\<exists>c'. exec env os call c = Some c' \<and> core_inv c'"
proof -
  have room0: "handle_room 0 c" using room by (simp add: handle_room_def)
  show ?thesis
  proof (cases call)
    case CInit
    with inv show ?thesis by (simp add: WhpInit_def)
  next
    case CPumpEvents
    with WhpPumpEvents_safe [OF inv env] show ?thesis by simp
  next
    case (CClose h)
    with WhpClose_safe [OF inv env, of h] show ?thesis by auto
  next
    case (CCreateMessage p)
    with WhpCreateMessage_safe [OF inv room0, of p] show ?thesis by fastforce
  next
    case (CDestroyMessage h)
    with WhpClose_safe [OF inv env, of h] show ?thesis by (auto simp: WhpDestroyMessage_def)
  next
    case (CAppendMessageData h n hs b)
    with WhpAppendMessageData_safe [OF inv, of h n hs b] show ?thesis by fastforce
  next
    case (CFillMessage h bs)
    with fill_message_safe [OF inv, of h bs] show ?thesis by simp
  next
    case (CGetMessageData h p n)
    with WhpGetMessageData_safe [OF inv, of h p n] show ?thesis by fastforce
  next
    case (CSerializeMessage h)
    with WhpSerializeMessage_safe [OF inv env, of h] show ?thesis by auto
  next
    case (CReserveMessageCapacity h n)
    with WhpReserveMessageCapacity_safe [OF inv, of h n] show ?thesis by fastforce
  next
    case (CSetMessageContext h x s d)
    with WhpSetMessageContext_safe [OF inv env, of h x s d] show ?thesis by auto
  next
    case (CCreateMessagePipe p q)
    with WhpCreateMessagePipe_safe [OF inv room, of p q] show ?thesis by fastforce
  next
    case (CWriteMessage h m)
    with WhpWriteMessage_safe [OF inv env, of h m] show ?thesis by auto
  next
    case (CReadMessage h p)
    with WhpReadMessage_safe [OF inv room0, of h p] show ?thesis by fastforce
  next
    case (CSetQuota h ty n)
    with WhpSetQuota_safe [OF inv, of h ty n] show ?thesis by auto
  next
    case (CFuseMessagePipes h k)
    with WhpFuseMessagePipes_safe [OF inv, of h k] show ?thesis by auto
  next
    case (CCreateTrap f p)
    with WhpCreateTrap_safe [OF inv room0, of f p] show ?thesis by fastforce
  next
    case (CAddTrigger t h s b x)
    with WhpAddTrigger_safe [OF inv, of t h s b x] show ?thesis by auto
  next
    case (CRemoveTrigger t x)
    with WhpRemoveTrigger_safe [OF inv, of t x] show ?thesis by auto
  next
    case (CArmTrap t n p)
    with WhpArmTrap_safe [OF inv, of t n p] show ?thesis by fastforce
  next
    case (CCreateDataPipe opts p q)
    with ok have "\<forall>e n. opts = Some (e, n) \<longrightarrow> n < 2 ^ 32" by (auto simp: call_ok_def)
    with WhpCreateDataPipe_safe [OF inv room, of opts p q] CCreateDataPipe show ?thesis by fastforce
  next
    case (CWriteData h xs n)
    with ok have "\<forall>k. n = Some k \<longrightarrow> k \<le> length xs" by (auto simp: call_ok_def)
    with WhpWriteData_safe [OF inv, of n xs h] CWriteData show ?thesis by fastforce
  next
    case (CReadData h n)
    with WhpReadData_safe [OF inv, of h n] show ?thesis by fastforce
  next
    case (CBeginWriteData h p n)
    with WhpBeginWriteData_safe [OF inv, of h p n] show ?thesis by fastforce
  next
    case (CFillTwoPhase did bs)
    with fill_two_phase_safe [OF inv, of did bs] show ?thesis by simp
  next
    case (CEndWriteData h n)
    with WhpEndWriteData_safe [OF inv, of h n] show ?thesis by auto
  next
    case (CBeginReadData h p n)
    with WhpBeginReadData_safe [OF inv, of h p n] show ?thesis by fastforce
  next
    case (CEndReadData h n)
    with WhpEndReadData_safe [OF inv, of h n] show ?thesis by auto
  next
    case (CCreateSharedBuffer n p)
    with WhpCreateSharedBuffer_safe [OF inv room0, of n p] show ?thesis by fastforce
  next
    case (CDuplicateBufferHandle h p)
    with WhpDuplicateBufferHandle_safe [OF inv room0, of h p] show ?thesis by fastforce
  next
    case (CMapBuffer h x n p)
    with WhpMapBuffer_safe [OF inv, of env os h x n p] show ?thesis by fastforce
  next
    case (CUnmapBuffer a)
    with WhpUnmapBuffer_safe [OF inv, of env a] show ?thesis by auto
  next
    case (CWrapPlatformHandle ty v p)
    with WhpWrapPlatformHandle_safe [OF inv room0, of env ty v p] show ?thesis by fastforce
  next
    case (CUnwrapPlatformHandle h p q)
    with WhpUnwrapPlatformHandle_safe [OF inv, of h p q] show ?thesis by fastforce
  next
    case (CWrapRegion hs n gh gl acc p)
    with WhpWrapPlatformSharedMemoryRegion_safe [OF inv room0, of env hs n gh gl acc p] show ?thesis by fastforce
  next
    case (CUnwrapRegion h n b)
    with WhpUnwrapPlatformSharedMemoryRegion_safe [OF inv, of env h n b] show ?thesis by fastforce
  qed
qed

lemma core_step_inv: "env_ok env \<Longrightarrow> core_step env os c c' \<Longrightarrow> core_inv c \<Longrightarrow> core_inv c'"
  by (elim core_stepE) (metis exec_safe option.inject One_nat_def)

lemma reachable_inv: "reachable env os c \<Longrightarrow> env_ok env \<Longrightarrow> core_inv c"
  by (induction rule: reachable.induct) (auto intro: core_inv_initial core_step_inv)

end
