(* ===== verification/Whp_Channel.thy ===== *)
theory Whp_Channel
  imports Whp_System
begin

text \<open>
  A message pipe as a channel of byte strings.  \<open>send\<close> and \<open>recv\<close> are what a client does
  with the API: create a message, size and fill it, write it to one end; read a message from
  the other end, look at its data, destroy it.  Whatever the interleaving of the two ends,
  and whatever traps watch the pipe, the strings arrive unchanged, in order and each once.
\<close>

definition send :: "Env \<Rightarrow> WhpHandle \<Rightarrow> byte list \<Rightarrow> Core \<Rightarrow> (bool \<times> Core) option" where
  "send env h bs c = do {
     (_, mo, c1) \<leftarrow> WhpCreateMessage True c;
     m \<leftarrow> mo;
     (_, _, c2) \<leftarrow> WhpAppendMessageData m (length bs) [] True c1;
     c3 \<leftarrow> fill_message m bs c2;
     (r, c4) \<leftarrow> WhpWriteMessage env h m c3;
     if r = WHP_RESULT_OK then Some (True, c4)
     else do { (_, c5) \<leftarrow> WhpDestroyMessage env m c4; Some (False, c5) } }"

definition recv :: "Env \<Rightarrow> WhpHandle \<Rightarrow> Core \<Rightarrow> (byte list option \<times> Core) option" where
  "recv env h c = do {
     (r, mo, c1) \<leftarrow> WhpReadMessage h True c;
     (case mo of
        None \<Rightarrow> Some (None, c1)
      | Some m \<Rightarrow> do {
          (_, _, bs, _, _, c2) \<leftarrow> WhpGetMessageData m False None c1;
          (_, c3) \<leftarrow> WhpDestroyMessage env m c2;
          Some (bs, c3) }) }"

text \<open>The two handles are the two ends of one pipe, and there is a free slot for a message.\<close>

definition connected :: "WhpHandle \<Rightarrow> WhpHandle \<Rightarrow> Core \<Rightarrow> bool" where
  "connected h k c \<longleftrightarrow> core_inv c \<and> handle_room 0 c \<and> free_list c \<noteq> [] \<and>
     (\<exists>sid e. owner c h sid e \<and> owner c k sid (1 - e) \<and>
        list_all (\<lambda>m. msg_destructor m = None \<and> msg_serializer m = None \<and> msg_handles m = [])
          (queues (pipe_heap c ! sid) (1 - e)))"

definition in_flight :: "WhpHandle \<Rightarrow> Core \<Rightarrow> byte list list" where
  "in_flight k c =
     (case pipe_end_of k c of
        Some (Some (e, ps)) \<Rightarrow> map msg_bytes (queues ps (pe_end e))
      | _ \<Rightarrow> [])"

lemma owner_pipe_end:
  assumes "core_inv c" "owner c h sid e"
  shows "pipe_end_of h c = Some (Some (\<lparr>pe_state = sid, pe_end = e\<rparr>, pipe_heap c ! sid))"
  using core_inv_owner [OF assms] by (auto simp: pipe_end_of_def)

lemma owner_open:
  assumes "core_inv c" "owner c h sid e" "owner c k sid (1 - e)"
  shows "\<not> closed (pipe_heap c ! sid) e" "\<not> closed (pipe_heap c ! sid) (1 - e)"
  using assms unfolding core_inv_def ends_ok_def by blast+

text \<open>Allocating a message when a slot is free.\<close>

lemma Alloc_message:
  assumes inv: "core_inv c" and room: "handle_room 0 c" and free: "free_list c \<noteq> []"
  obtains h c' where "Alloc KMessage (OMessage m) c = Some (h, c')" "core_inv c'" "Lookup c h = None"
    "Lookup c' = (Lookup c)(h \<mapsto> \<lparr>sl_kind = KMessage, sl_obj = OMessage m\<rparr>)"
    "owner c' = owner c" "pipe_heap c' = pipe_heap c" "length (slots c') = length (slots c)"
proof -
  obtain h c' where a: "Alloc KMessage (OMessage m) c = Some (h, c')" "core_inv c'" "Lookup c h = None"
    "Lookup c' = (Lookup c)(h \<mapsto> \<lparr>sl_kind = KMessage, sl_obj = OMessage m\<rparr>)"
    "\<exists>sl fl. c' = c\<lparr>slots := sl, free_list := fl\<rparr>"
    using core_inv_Alloc [OF inv room, of KMessage "OMessage m"] by (auto simp: plain_def wf_slot_def wf_at_def)
  moreover have "owner c' = owner c" using a(3) by (auto simp: fun_eq_iff owner_def a(4))
  moreover have "length (slots c') = length (slots c)"
    using a(1) free by (auto simp: Alloc_def Let_def split: if_splits)
  moreover have "pipe_heap c' = pipe_heap c" using a(5) by auto
  ultimately show ?thesis using that by blast
qed

text \<open>Freeing a message and collecting events: what both halves end with.\<close>

lemma free_message_collect:
  assumes inv: "core_inv c" and m: "Lookup c m = Some s" "sl_kind s = KMessage"
  obtains c' where "CollectTrapEvents (Free m c) = Some c'" "core_inv c'"
    "pipe_heap c' = pipe_heap c" "owner c' = owner c" "free_list c' \<noteq> []"
    "length (slots c') = length (slots c)" "quiet c'"
proof -
  have free: "core_inv (Free m c)" using core_inv_Free_message [OF inv m] .
  obtain c' where c': "CollectTrapEvents (Free m c) = Some c'" "core_inv c'" "trap_frame (Free m c) c'" "quiet c'"
    using CollectTrapEvents_ok [OF free] by blast
  have L: "Lookup (Free m c) = (Lookup c)(m := None)"
    using Lookup_Free [OF core_inv_table [OF inv] m(1)] .
  have ms: "\<exists>x. sl_obj s = OMessage x" using wf_slot_kindD(2) [OF core_inv_wf [OF inv m(1)] m(2)] .
  have "owner c' h sid e = owner c h sid e" for h sid e
  proof -
    have "owner c' h sid e = owner (Free m c) h sid e"
      by (cases rule: trap_frame_cases [OF free c'(3), of h]) (auto simp: owner_def)
    also have "\<dots> = owner c h sid e" using m ms by (auto simp: owner_def L)
    finally show ?thesis .
  qed
  then have "owner c' = owner c" by (intro ext)
  moreover have "free_list (Free m c) \<noteq> []" using m(1) by (simp add: Free_def Lookup_Some_iff)
  ultimately show ?thesis using that [OF c'(1,2)] c'(3,4) by (auto simp: trap_frame_def)
qed

lemma message_of_Lookup:
  "Lookup c h = Some s \<Longrightarrow> sl_kind s = KMessage \<Longrightarrow> sl_obj s = OMessage m \<Longrightarrow> message_of h c = Some (Some m)"
  by (simp add: message_of_def)

text \<open>Filling a freshly created message.\<close>

lemma new_message_ready:
  fixes bs :: "byte list"
  assumes inv: "core_inv c" and m: "Lookup c m = Some \<lparr>sl_kind = KMessage, sl_obj = OMessage new_message\<rparr>"
  defines "ready \<equiv> new_message\<lparr>msg_bytes := bs, msg_committed := True\<rparr>"
  obtains c2 c3 n where "WhpAppendMessageData m (length bs) [] True c = Some (WHP_RESULT_OK, n, c2)"
    "fill_message m bs c2 = Some c3" "core_inv c3" "owner c3 = owner c" "pipe_heap c3 = pipe_heap c"
    "Lookup c3 m = Some \<lparr>sl_kind = KMessage, sl_obj = OMessage ready\<rparr>" "length (slots c3) = length (slots c)"
proof -
  define m1 where "m1 = new_message\<lparr>msg_bytes := replicate (length bs) 0, msg_committed := True\<rparr>"
  let ?c2 = "set_obj m (OMessage m1) c"
  let ?c3 = "set_obj m (OMessage ready) ?c2"
  have L2: "Lookup ?c2 = (Lookup c)(m \<mapsto> \<lparr>sl_kind = KMessage, sl_obj = OMessage m1\<rparr>)"
    using set_obj_Lookup [OF m] by simp
  then have m2: "Lookup ?c2 m = Some \<lparr>sl_kind = KMessage, sl_obj = OMessage m1\<rparr>" by simp
  have L3: "Lookup ?c3 = (Lookup c)(m \<mapsto> \<lparr>sl_kind = KMessage, sl_obj = OMessage ready\<rparr>)"
    using set_obj_Lookup [OF m2] L2 by simp
  have "\<exists>n. WhpAppendMessageData m (length bs) [] True c = Some (WHP_RESULT_OK, n, ?c2)"
    using m by (simp add: WhpAppendMessageData_def message_of_def Let_def new_message_def m1_def)
  moreover have "fill_message m bs ?c2 = Some ?c3"
    using m2 by (simp add: fill_message_def message_of_def m1_def ready_def new_message_def)
  moreover have i2: "core_inv ?c2" using core_inv_set_message [OF inv m] by simp
  moreover have "core_inv ?c3" using core_inv_set_message [OF i2 m2] by simp
  moreover have "owner ?c3 = owner c"
    using m by (auto simp: fun_eq_iff owner_def L3)
  ultimately show ?thesis using that L3 by fastforce
qed

text \<open>Writing a committed message with no context to an open pipe with a live peer.\<close>

lemma write_ready:
  assumes inv: "core_inv c" and h: "owner c h sid e" and k: "owner c k sid (1 - e)"
    and m: "Lookup c m = Some s" "sl_kind s = KMessage" "sl_obj s = OMessage x"
    and x: "msg_committed x" "msg_serializer x = None"
  shows "WhpWriteMessage env h m c =
     (let ps = pipe_heap c ! sid; q = queues ps (1 - e) in
     if quota_count ps (1 - e) \<le> length q \<or>
        quota_bytes ps (1 - e) < add64 (QueueBytes q) (length (msg_bytes x))
     then Some (WHP_RESULT_RESOURCE_EXHAUSTED, c)
     else do {
       c' \<leftarrow> CollectTrapEvents (Free m (set_pipe sid
              (ps\<lparr>queues := (queues ps)(1 - e := q @ [x])\<rparr>) c));
       Some (WHP_RESULT_OK, c') })"
proof -
  have eq: "x\<lparr>msg_committed := True\<rparr> = x" using x by (cases x) simp
  show ?thesis
    using owner_pipe_end [OF inv h] owner_open [OF inv h k] message_of_Lookup [OF m] x
    by (simp add: WhpWriteMessage_def WhpSerializeMessage_def write_locked_def Let_def eq)
qed

lemma destroy_message:
  assumes inv: "core_inv c" and m: "Lookup c m = Some s" "sl_kind s = KMessage" "sl_obj s = OMessage x"
    and x: "msg_destructor x = None"
  obtains c' where "WhpDestroyMessage env m c = Some (WHP_RESULT_OK, c')" "core_inv c'"
    "pipe_heap c' = pipe_heap c" "owner c' = owner c" "free_list c' \<noteq> []"
    "length (slots c') = length (slots c)"
proof -
  let ?o = "OMessage (x\<lparr>msg_destructor := None, msg_serializer := None\<rparr>)"
  let ?c = "set_obj m ?o c"
  have L: "Lookup ?c m = Some (s\<lparr>sl_obj := ?o\<rparr>)" using set_obj_Lookup [OF m(1)] by simp
  have i: "core_inv ?c" using core_inv_set_message [OF inv m(1,2)] .
  have k: "sl_kind (s\<lparr>sl_obj := ?o\<rparr>) = KMessage" using m(2) by simp
  have o: "owner ?c = owner c" using owner_set_obj [OF m(1)] m(3) by (simp add: plain_def)
  obtain c' where c': "CollectTrapEvents (Free m ?c) = Some c'" "core_inv c'"
    "pipe_heap c' = pipe_heap ?c" "owner c' = owner ?c" "free_list c' \<noteq> []"
    "length (slots c') = length (slots ?c)" "quiet c'"
    by (rule free_message_collect [OF i L k])
  have "WhpDestroyMessage env m c = Some (WHP_RESULT_OK, c')"
    using m x c'(1) by (simp add: WhpDestroyMessage_def WhpClose_def close_object_def free_and_drop_def run_dtor_def)
  then show ?thesis using c' o by (intro that [of c']) simp_all
qed

lemma connectedI:
  assumes "core_inv c'" "length (slots c') = length (slots c)" "handle_room 0 c" "free_list c' \<noteq> []"
    and "owner c' h sid e" "owner c' k sid (1 - e)"
    and "list_all (\<lambda>m. msg_destructor m = None \<and> msg_serializer m = None \<and> msg_handles m = [])
          (queues (pipe_heap c' ! sid) (1 - e))"
  shows "connected h k c'"
  using assms by (auto simp: connected_def handle_room_def)

lemma in_flight_owner:
  "core_inv c \<Longrightarrow> owner c k sid e \<Longrightarrow> in_flight k c = map msg_bytes (queues (pipe_heap c ! sid) e)"
  by (simp add: in_flight_def owner_pipe_end)

lemma send_spec:
  assumes con: "connected h k c"
  shows "\<exists>ok c'. send env h bs c = Some (ok, c') \<and> connected h k c' \<and>
     in_flight k c' = in_flight k c @ (if ok then [bs] else [])"
proof -
  from con obtain sid e where inv: "core_inv c" and room: "handle_room 0 c" and free: "free_list c \<noteq> []"
    and o: "owner c h sid e" "owner c k sid (1 - e)"
    and q: "list_all (\<lambda>m. msg_destructor m = None \<and> msg_serializer m = None \<and> msg_handles m = [])
       (queues (pipe_heap c ! sid) (1 - e))"
    by (auto simp: connected_def)
  obtain m c1 where c1: "Alloc KMessage (OMessage new_message) c = Some (m, c1)" "core_inv c1" "Lookup c m = None"
    "Lookup c1 = (Lookup c)(m \<mapsto> \<lparr>sl_kind = KMessage, sl_obj = OMessage new_message\<rparr>)"
    "owner c1 = owner c" "pipe_heap c1 = pipe_heap c" "length (slots c1) = length (slots c)"
    by (rule Alloc_message [OF inv room free])
  have m1: "Lookup c1 m = Some \<lparr>sl_kind = KMessage, sl_obj = OMessage new_message\<rparr>" by (simp add: c1(4))
  define x where "x = new_message\<lparr>msg_bytes := bs, msg_committed := True\<rparr>"
  have x: "msg_committed x" "msg_serializer x = None" "msg_destructor x = None" "msg_handles x = []" "msg_bytes x = bs"
    by (simp_all add: x_def new_message_def)
  obtain c2 c3 n where c3: "WhpAppendMessageData m (length bs) [] True c1 = Some (WHP_RESULT_OK, n, c2)"
    "fill_message m bs c2 = Some c3" "core_inv c3" "owner c3 = owner c1" "pipe_heap c3 = pipe_heap c1"
    "Lookup c3 m = Some \<lparr>sl_kind = KMessage, sl_obj = OMessage x\<rparr>" "length (slots c3) = length (slots c1)"
    unfolding x_def by (rule new_message_ready [OF c1(2) m1])
  have o3: "owner c3 h sid e" "owner c3 k sid (1 - e)" using o c1 c3 by simp_all
  have m3: "sl_kind \<lparr>sl_kind = KMessage, sl_obj = OMessage x\<rparr> = KMessage"
    "sl_obj \<lparr>sl_kind = KMessage, sl_obj = OMessage x\<rparr> = OMessage x" by simp_all
  have lim: "sid < length (pipe_heap c)" using core_inv_owner(1) [OF inv o(1)] .
  let ?ps = "pipe_heap c ! sid"
  let ?q = "queues ?ps (1 - e)"
  have steps: "send env h bs c = do {
      (r, c4) \<leftarrow> WhpWriteMessage env h m c3;
      if r = WHP_RESULT_OK then Some (True, c4)
      else do { (_, c5) \<leftarrow> WhpDestroyMessage env m c4; Some (False, c5) } }"
    using c1(1) c3(1,2) by (simp add: send_def WhpCreateMessage_def)
  show ?thesis
  proof (cases "quota_count ?ps (1 - e) \<le> length ?q \<or> quota_bytes ?ps (1 - e) < add64 (QueueBytes ?q) (length bs)")
    case True
    then have w: "WhpWriteMessage env h m c3 = Some (WHP_RESULT_RESOURCE_EXHAUSTED, c3)"
      using write_ready [OF c3(3) o3 c3(6) m3 x(1,2)] c1 c3 x by (simp add: Let_def)
    obtain c' where d: "WhpDestroyMessage env m c3 = Some (WHP_RESULT_OK, c')" "core_inv c'"
      "pipe_heap c' = pipe_heap c3" "owner c' = owner c3" "free_list c' \<noteq> []"
      "length (slots c') = length (slots c3)"
      by (rule destroy_message [OF c3(3,6) m3 x(3)])
    have o': "owner c' h sid e" "owner c' k sid (1 - e)" using d(4) o3 by simp_all
    have "send env h bs c = Some (False, c')" using w d(1) by (simp add: steps)
    moreover have "connected h k c'"
      by (rule connectedI [OF d(2) _ room d(5) o']) (use d c3 c1 q in simp_all)
    moreover have "in_flight k c' = in_flight k c"
      using in_flight_owner [OF d(2) o'(2)] in_flight_owner [OF inv o(2)] d c3 c1 by simp
    ultimately show ?thesis by auto
  next
    case False
    let ?ps' = "?ps\<lparr>queues := (queues ?ps)(1 - e := ?q @ [x])\<rparr>"
    let ?c = "set_pipe sid ?ps' c3"
    have i: "core_inv ?c" using core_inv_set_pipe [OF c3(3), of sid ?ps'] lim c1 c3 by simp
    have L: "Lookup ?c m = Some \<lparr>sl_kind = KMessage, sl_obj = OMessage x\<rparr>" using c3(6) by simp
    obtain c' where d: "CollectTrapEvents (Free m ?c) = Some c'" "core_inv c'"
      "pipe_heap c' = pipe_heap ?c" "owner c' = owner ?c" "free_list c' \<noteq> []"
      "length (slots c') = length (slots ?c)" "quiet c'"
      by (rule free_message_collect [OF i L m3(1)])
    have o': "owner c' h sid e" "owner c' k sid (1 - e)" using d(4) o3 by simp_all
    have ps: "pipe_heap c' ! sid = ?ps'" using d(3) lim c1 c3 by (simp add: set_pipe_def)
    have "WhpWriteMessage env h m c3 = Some (WHP_RESULT_OK, c')"
      using write_ready [OF c3(3) o3 c3(6) m3 x(1,2)] False c1 c3 x d(1) by (simp add: Let_def)
    then have "send env h bs c = Some (True, c')" by (simp add: steps)
    moreover have "connected h k c'"
      by (rule connectedI [OF d(2) _ room d(5) o']) (use d(6) c3(7) c1(7) q x in \<open>simp_all add: ps\<close>)
    moreover have "in_flight k c' = in_flight k c @ [bs]"
      using in_flight_owner [OF d(2) o'(2)] in_flight_owner [OF inv o(2)] x by (simp add: ps)
    ultimately show ?thesis by auto
  qed
qed

lemma recv_spec:
  assumes con: "connected h k c"
  shows "\<exists>r c'. recv env k c = Some (r, c') \<and> connected h k c' \<and>
     (case r of None \<Rightarrow> in_flight k c = [] \<and> in_flight k c' = []
              | Some bs \<Rightarrow> in_flight k c = bs # in_flight k c')"
proof -
  from con obtain sid e where inv: "core_inv c" and room: "handle_room 0 c" and free: "free_list c \<noteq> []"
    and o: "owner c h sid e" "owner c k sid (1 - e)"
    and q: "list_all (\<lambda>m. msg_destructor m = None \<and> msg_serializer m = None \<and> msg_handles m = [])
       (queues (pipe_heap c ! sid) (1 - e))"
    by (auto simp: connected_def)
  have lim: "sid < length (pipe_heap c)" using core_inv_owner(1) [OF inv o(1)] .
  let ?ps = "pipe_heap c ! sid"
  show ?thesis
  proof (cases "queues ?ps (1 - e)")
    case Nil
    then have "recv env k c = Some (None, c)"
      using owner_pipe_end [OF inv o(2)] by (simp add: recv_def WhpReadMessage_def)
    then show ?thesis using con in_flight_owner [OF inv o(2)] Nil by simp
  next
    case (Cons x rest)
    then have x: "msg_destructor x = None" "msg_handles x = []" "msg_serializer x = None"
      and rest: "list_all (\<lambda>m. msg_destructor m = None \<and> msg_serializer m = None \<and> msg_handles m = []) rest"
      using q by simp_all
    let ?ps' = "?ps\<lparr>queues := (queues ?ps)(1 - e := rest)\<rparr>"
    let ?c0 = "set_pipe sid ?ps' c"
    have i0: "core_inv ?c0" "handle_room 0 ?c0" "free_list ?c0 \<noteq> []"
      using core_inv_set_pipe [OF inv lim, of ?ps'] room free by (simp_all add: handle_room_def set_pipe_def)
    obtain m c1 where c1: "Alloc KMessage (OMessage x) ?c0 = Some (m, c1)" "core_inv c1" "Lookup ?c0 m = None"
      "Lookup c1 = (Lookup ?c0)(m \<mapsto> \<lparr>sl_kind = KMessage, sl_obj = OMessage x\<rparr>)"
      "owner c1 = owner ?c0" "pipe_heap c1 = pipe_heap ?c0" "length (slots c1) = length (slots ?c0)"
      by (rule Alloc_message [OF i0])
    have m1: "Lookup c1 m = Some \<lparr>sl_kind = KMessage, sl_obj = OMessage x\<rparr>" by (simp add: c1(4))
    have ks: "sl_kind \<lparr>sl_kind = KMessage, sl_obj = OMessage x\<rparr> = KMessage"
      "sl_obj \<lparr>sl_kind = KMessage, sl_obj = OMessage x\<rparr> = OMessage x" by simp_all
    obtain c' where d: "WhpDestroyMessage env m c1 = Some (WHP_RESULT_OK, c')" "core_inv c'"
      "pipe_heap c' = pipe_heap c1" "owner c' = owner c1" "free_list c' \<noteq> []"
      "length (slots c') = length (slots c1)"
      by (rule destroy_message [OF c1(2) m1 ks x(1)])
    have r: "WhpReadMessage k True c = Some (WHP_RESULT_OK, Some m, c1)"
      using owner_pipe_end [OF inv o(2)] Cons c1(1) by (simp add: WhpReadMessage_def)
    have g: "WhpGetMessageData m False None c1 =
        Some (WHP_RESULT_OK, Some (u32 (length (msg_bytes x))), Some (msg_bytes x), None, None, c1)"
      using message_of_Lookup [OF m1 ks] x by (simp add: WhpGetMessageData_def Let_def)
    have "recv env k c = Some (Some (msg_bytes x), c')" using r g d(1) by (simp add: recv_def)
    moreover have o': "owner c' h sid e" "owner c' k sid (1 - e)" using d(4) c1(5) o by simp_all
    moreover have ps: "pipe_heap c' ! sid = ?ps'" using d(3) c1(6) lim by (simp add: set_pipe_def)
    moreover have "connected h k c'"
      by (rule connectedI [OF d(2) _ room d(5) o']) (use d(6) c1(7) rest in \<open>simp_all add: ps\<close>)
    moreover have "in_flight k c = msg_bytes x # in_flight k c'"
      using in_flight_owner [OF d(2) o'(2)] in_flight_owner [OF inv o(2)] Cons by (simp add: ps)
    ultimately show ?thesis by (intro exI [of _ "Some (msg_bytes x)"] exI [of _ c']) simp
  qed
qed

subsection \<open>Sessions\<close>

text \<open>Sending a batch stops at the first string the quota refuses; receiving up to \<open>n\<close>
  stops when the queue is empty.\<close>

fun send_all :: "Env \<Rightarrow> WhpHandle \<Rightarrow> byte list list \<Rightarrow> Core \<Rightarrow> (nat \<times> Core) option" where
  "send_all env h [] c = Some (0, c)"
| "send_all env h (bs # bss) c = do {
     (ok, c1) \<leftarrow> send env h bs c;
     if ok then do { (n, c2) \<leftarrow> send_all env h bss c1; Some (Suc n, c2) }
     else Some (0, c1) }"

fun recv_all :: "Env \<Rightarrow> WhpHandle \<Rightarrow> nat \<Rightarrow> Core \<Rightarrow> (byte list list \<times> Core) option" where
  "recv_all env k 0 c = Some ([], c)"
| "recv_all env k (Suc n) c = do {
     (r, c1) \<leftarrow> recv env k c;
     (case r of
        None \<Rightarrow> Some ([], c1)
      | Some bs \<Rightarrow> do { (rest, c2) \<leftarrow> recv_all env k n c1; Some (bs # rest, c2) }) }"

lemma send_all_spec:
  "connected h k c \<Longrightarrow> \<exists>n c'. send_all env h bss c = Some (n, c') \<and> n \<le> length bss \<and>
     connected h k c' \<and> in_flight k c' = in_flight k c @ take n bss"
proof (induction bss arbitrary: c)
  case (Cons bs bss)
  obtain ok c1 where s: "send env h bs c = Some (ok, c1)" "connected h k c1"
    "in_flight k c1 = in_flight k c @ (if ok then [bs] else [])"
    using send_spec [OF Cons.prems] by blast
  show ?case
  proof (cases ok)
    case True
    obtain n c2 where "send_all env h bss c1 = Some (n, c2)" "n \<le> length bss" "connected h k c2"
      "in_flight k c2 = in_flight k c1 @ take n bss" using Cons.IH [OF s(2)] by blast
    with s True show ?thesis by (intro exI [of _ "Suc n"] exI [of _ c2]) simp
  qed (use s in auto)
qed simp

lemma recv_all_spec:
  "connected h k c \<Longrightarrow> \<exists>bss c'. recv_all env k n c = Some (bss, c') \<and> length bss \<le> n \<and>
     connected h k c' \<and> in_flight k c = bss @ in_flight k c'"
proof (induction n arbitrary: c)
  case (Suc n)
  obtain r c1 where s: "recv env k c = Some (r, c1)" "connected h k c1"
    "case r of None \<Rightarrow> in_flight k c = [] \<and> in_flight k c1 = [] | Some bs \<Rightarrow> in_flight k c = bs # in_flight k c1"
    using recv_spec [OF Suc.prems] by blast
  show ?case
  proof (cases r)
    case (Some bs)
    obtain bss c2 where "recv_all env k n c1 = Some (bss, c2)" "length bss \<le> n" "connected h k c2"
      "in_flight k c1 = bss @ in_flight k c2" using Suc.IH [OF s(2)] by blast
    with s Some show ?thesis by (intro exI [of _ "bs # bss"] exI [of _ c2]) simp
  qed (use s in auto)
qed simp

interpretation pipe: fifo_channel "connected h k" "in_flight k" "send_all env h" "recv_all env k"
  for h k env
  by unfold_locales (use send_all_spec recv_all_spec in blast)+

end
