(* ===== verification/Whp_Properties.thy ===== *)
theory Whp_Properties
  imports Whp_Channel
begin

text \<open>
  What HolePunch's core promises its clients, over the definitions of the component theories.
  The witnesses run small programs of API calls on \<open>initial_core\<close>.
\<close>

subsection \<open>Programs of calls\<close>

fun run_calls :: "Env \<Rightarrow> OsMap \<Rightarrow> Call list \<Rightarrow> Core \<Rightarrow> Core option" where
  "run_calls env os [] c = Some c"
| "run_calls env os (x # xs) c =
     (if call_ok x \<and> handle_room 1 c then do { c' \<leftarrow> exec env os x c; run_calls env os xs c' } else None)"

lemma run_calls_reachable:
  "run_calls env os xs c = Some c' \<Longrightarrow> reachable env os c \<Longrightarrow> reachable env os c'"
proof (induction xs arbitrary: c)
  case (Cons x xs)
  then obtain c1 where "core_step env os c c1" "run_calls env os xs c1 = Some c'"
    by (auto simp: option_bind_Some_iff split: if_splits intro: core_step.call [unfolded One_nat_def])
  with Cons show ?case by (blast intro: reachable.step)
qed simp

lemma handle_room_iff: "handle_room n c \<longleftrightarrow> length (slots c) + n < 4294967296"
  by (simp add: handle_room_def)

lemma list_update_numeral: "(x # xs)[numeral n := y] = x # xs[pred_numeral n := y]"
  by (simp add: numeral_eq_Suc)

text \<open>A client whose callbacks do nothing, on a POSIX host where no mapping succeeds.\<close>

definition idle_env :: Env where
  "idle_env = \<lparr>host = HostPosix, run_serializer = (\<lambda>_ _ _ c. c), run_destructor = (\<lambda>_ _ c. c),
     run_handler = (\<lambda>_ _ c. c)\<rparr>"

definition no_os_map :: OsMap where
  "no_os_map = (\<lambda>_ _ _. None)"

lemma env_ok_idle: "env_ok idle_env"
  by (simp add: env_ok_def idle_env_def)

text \<open>A pipe with ends 1 and 2, and a slot left free by a message.\<close>

definition demo_calls :: "Call list" where
  "demo_calls = [CCreateMessagePipe True True, CCreateMessage True, CDestroyMessage 3]"

definition demo_core :: Core where
  "demo_core = the (run_calls idle_env no_os_map demo_calls initial_core)"

lemma demo_run: "run_calls idle_env no_os_map demo_calls initial_core =
  Some \<lparr>slots = [free_slot, \<lparr>sl_kind = KMessagePipe, sl_obj = OPipeEnd \<lparr>pe_state = 0, pe_end = 0\<rparr>\<rparr>,
      \<lparr>sl_kind = KMessagePipe, sl_obj = OPipeEnd \<lparr>pe_state = 0, pe_end = 1\<rparr>\<rparr>, free_slot],
    free_list = [3], traps = [], maps = [], inited = False, pending_events = [], pipe_heap = [new_pipe],
    data_heap = [], buf_heap = [], native_closed = []\<rparr>"
  by (simp add: demo_calls_def initial_core_def call_ok_def handle_room_iff WhpCreateMessagePipe_def
      Alloc_def Let_def wrap_simps WhpCreateMessage_def WhpDestroyMessage_def WhpClose_def Lookup_def
      close_object_def free_and_drop_def CollectTrapEvents_def run_dtor_def set_obj_def Free_def
      new_message_def numeral_2_eq_2 numeral_3_eq_3)

lemma demo_eq: "demo_core =
  \<lparr>slots = [free_slot, \<lparr>sl_kind = KMessagePipe, sl_obj = OPipeEnd \<lparr>pe_state = 0, pe_end = 0\<rparr>\<rparr>,
      \<lparr>sl_kind = KMessagePipe, sl_obj = OPipeEnd \<lparr>pe_state = 0, pe_end = 1\<rparr>\<rparr>, free_slot],
    free_list = [3], traps = [], maps = [], inited = False, pending_events = [], pipe_heap = [new_pipe],
    data_heap = [], buf_heap = [], native_closed = []\<rparr>"
  by (simp add: demo_core_def demo_run)

lemma demo_reachable: "reachable idle_env no_os_map demo_core"
  using run_calls_reachable [OF demo_run reachable.start] by (simp add: demo_eq)

lemma demo_inv: "core_inv demo_core"
  using reachable_inv [OF demo_reachable env_ok_idle] .

lemma demo_owner: "owner demo_core 1 0 0" "owner demo_core 2 0 1"
  by (simp_all add: owner_def demo_eq Lookup_def)

lemma demo_connected: "connected 1 2 demo_core"
  using demo_inv demo_owner
  by (auto simp: connected_def handle_room_def demo_eq new_pipe_def intro!: exI [of _ "0::nat"])

subsection \<open>Safety of the whole API\<close>



subsection \<open>Message pipes\<close>

text \<open>C2.  Nothing sent through a message pipe is lost, duplicated, altered or reordered:
  in every session of sends on one end and receives on the other, the strings accepted after
  those already in flight are the strings received followed by those still in flight.  The
  session always completes and the pipe stays usable.\<close>

theorem message_pipe_session_fifo:
  assumes "connected h k c"
  shows "\<exists>acc del c'. session (send_all env h) (recv_all env k) ops c = Some (acc, del, c') \<and>
     in_flight k c @ acc = del @ in_flight k c' \<and> connected h k c'"
  using pipe.session_total [OF assms, of env ops] pipe.session_fifo [OF assms, of env ops] by blast

theorem message_pipe_session_fifo_witness:
  "\<exists>acc del c'. session (send_all idle_env 1) (recv_all idle_env 2) [Put [[1, 2], [3]], Get 1] demo_core =
       Some (acc, del, c') \<and>
     in_flight 2 demo_core @ acc = del @ in_flight 2 c' \<and> connected 1 2 c'"
  by (rule message_pipe_session_fifo [OF demo_connected])


text \<open>The state the witness uses: an uncommitted message, handle 3, beside the pipe.\<close>

definition demo_msg_core :: Core where
  "demo_msg_core = the (run_calls idle_env no_os_map [CCreateMessage True] demo_core)"

lemma demo_msg_run: "run_calls idle_env no_os_map [CCreateMessage True] demo_core =
  Some (demo_core\<lparr>free_list := [],
    slots := [free_slot, \<lparr>sl_kind = KMessagePipe, sl_obj = OPipeEnd \<lparr>pe_state = 0, pe_end = 0\<rparr>\<rparr>,
      \<lparr>sl_kind = KMessagePipe, sl_obj = OPipeEnd \<lparr>pe_state = 0, pe_end = 1\<rparr>\<rparr>,
      \<lparr>sl_kind = KMessage, sl_obj = OMessage new_message\<rparr>]\<rparr>)"
  by (simp add: demo_eq call_ok_def handle_room_iff Alloc_def Let_def WhpCreateMessage_def numeral_3_eq_3)

lemmas demo_msg_eq = demo_msg_core_def [unfolded demo_msg_run option.sel]

lemma demo_msg_facts:
  "core_inv demo_msg_core"
  "pipe_end_of 1 demo_msg_core = Some (Some (\<lparr>pe_state = 0, pe_end = 0\<rparr>, new_pipe))"
  "message_of 3 demo_msg_core = Some (Some new_message)"
proof -
  have "reachable idle_env no_os_map demo_msg_core"
    using run_calls_reachable [OF demo_msg_run demo_reachable] by (simp only: demo_msg_eq)
  then show "core_inv demo_msg_core" using reachable_inv env_ok_idle by blast
qed (simp_all add: demo_msg_eq demo_eq pipe_end_of_def message_of_def Lookup_def nth_opt_def)


text \<open>C7.  The peer-closed signal tells the truth: in every reachable state, the end of a
  message pipe signals PEER\_CLOSED exactly when no live handle is the other end, WRITABLE
  exactly when one is, and READABLE exactly when messages wait in its queue.\<close>

theorem pipe_signals_truthful:
  assumes "env_ok env" "reachable env os c" "owner c h sid e"
  shows "\<exists>st. WhpQueryHandleSignalsState h True c = Some (WHP_RESULT_OK, Some st) \<and>
     (satisfied_signals st AND SIGNAL_PEER_CLOSED \<noteq> 0 \<longleftrightarrow> \<not> (\<exists>k. owner c k sid (1 - e))) \<and>
     (satisfied_signals st AND SIGNAL_WRITABLE \<noteq> 0 \<longleftrightarrow> (\<exists>k. owner c k sid (1 - e))) \<and>
     (satisfied_signals st AND SIGNAL_READABLE \<noteq> 0 \<longleftrightarrow> in_flight h c \<noteq> [])"
proof -
  have inv: "core_inv c" using reachable_inv [OF assms(2,1)] .
  obtain s where s: "Lookup c h = Some s" "sl_kind s = KMessagePipe"
    "sl_obj s = OPipeEnd \<lparr>pe_state = sid, pe_end = e\<rparr>" using core_inv_owner(3) [OF inv assms(3)] by blast
  have "QueryLocked c h = Some (PipeSignals (pipe_heap c ! sid) e)"
    using s core_inv_owner(1) [OF inv assms(3)] by (simp add: QueryLocked_def)
  moreover have "closed (pipe_heap c ! sid) (1 - e) \<longleftrightarrow> \<not> (\<exists>k. owner c k sid (1 - e))"
    using inv assms(3) unfolding core_inv_def ends_ok_def by blast
  ultimately show ?thesis
    using s PipeSignals_peer_closed PipeSignals_writable PipeSignals_readable in_flight_owner [OF inv assms(3)]
    by (simp add: WhpQueryHandleSignalsState_def)
qed

theorem pipe_signals_truthful_witness:
  "\<exists>st. WhpQueryHandleSignalsState 1 True demo_core = Some (WHP_RESULT_OK, Some st) \<and>
     (satisfied_signals st AND SIGNAL_WRITABLE \<noteq> 0)"
  using pipe_signals_truthful [OF env_ok_idle demo_reachable demo_owner(1)] demo_owner(2) by auto


definition two_pipes_core :: Core where
  "two_pipes_core = the (run_calls idle_env no_os_map
     [CCreateMessagePipe True True, CCreateMessagePipe True True] initial_core)"

lemma two_pipes_run: "run_calls idle_env no_os_map
     [CCreateMessagePipe True True, CCreateMessagePipe True True] initial_core =
  Some (initial_core\<lparr>pipe_heap := [new_pipe, new_pipe],
    slots := free_slot # map (\<lambda>(i, e). \<lparr>sl_kind = KMessagePipe, sl_obj = OPipeEnd \<lparr>pe_state = i, pe_end = e\<rparr>\<rparr>)
      [(0, 0), (0, 1), (1, 0), (1, 1)]\<rparr>)"
  by (simp add: initial_core_def call_ok_def handle_room_iff WhpCreateMessagePipe_def Alloc_def Let_def wrap_simps)

lemmas two_pipes_eq = two_pipes_core_def [unfolded two_pipes_run option.sel]

lemma two_pipes_facts:
  "core_inv two_pipes_core" "owner two_pipes_core 1 0 0" "owner two_pipes_core 2 0 (1 - 0)"
  "owner two_pipes_core 3 1 0" "owner two_pipes_core 4 1 (1 - 0)"
proof -
  have "reachable idle_env no_os_map two_pipes_core"
    using run_calls_reachable [OF two_pipes_run reachable.start] by (simp only: two_pipes_eq)
  then show "core_inv two_pipes_core" using reachable_inv env_ok_idle by blast
qed (simp_all add: two_pipes_eq owner_def Lookup_def)


subsection \<open>Traps\<close>

text \<open>C8.  Arming a trap: it succeeds exactly when no trigger's condition already holds, and
  then the trap waits for nothing that has already happened; otherwise nothing changes and
  the blocking events reported are the triggers that hold, in order, as many as fit.\<close>

theorem arm_trap_outcomes:
  assumes inv: "core_inv c" and t: "trap_of h c = Some (Some t)"
  shows "\<exists>bs r k evs c'. blocking_triggers c (trap_triggers t) = Some bs \<and>
     WhpArmTrap h (Some n) True c = Some (r, k, evs, c') \<and> core_inv c' \<and>
     (r = WHP_RESULT_OK \<longleftrightarrow> bs = []) \<and> (r = WHP_RESULT_FAILED_PRECONDITION \<longleftrightarrow> bs \<noteq> []) \<and>
     (bs = [] \<longleftrightarrow> first_match c (trap_triggers t) = Some None) \<and>
     (r = WHP_RESULT_OK \<longrightarrow> trap_of h c' = Some (Some (t\<lparr>trap_armed := True\<rparr>)) \<and> quiet_trap c' h) \<and>
     (bs \<noteq> [] \<longrightarrow> c' = c \<and> map ev_trigger_context evs = map (trig_context \<circ> fst) (take n bs))"
proof -
  obtain s where s: "Lookup c h = Some s" "sl_kind s = KTrap" "sl_obj s = OTrap t"
    using t by (cases rule: trap_of_cases [OF inv, of h, case_names bad trp]) auto
  obtain bs where bs: "blocking_triggers c (trap_triggers t) = Some bs"
    using blocking_triggers_total [OF inv] by blast
  have fm: "bs = [] \<longleftrightarrow> first_match c (trap_triggers t) = Some None"
    using bs blocking_triggers_Nil_iff [of c "trap_triggers t"] by auto
  let ?c = "set_obj h (OTrap (t\<lparr>trap_armed := True\<rparr>)) c"
  have L: "Lookup ?c h = Some (s\<lparr>sl_obj := OTrap (t\<lparr>trap_armed := True\<rparr>)\<rparr>)"
    using set_obj_Lookup [OF s(1)] by simp
  have "first_match ?c trs = first_match c trs" for trs
    using s(1,2) by (intro first_match_set_trap [OF inv])
  then have "quiet_trap ?c h" if "bs = []" using fm that L by (simp add: quiet_trap_def)
  moreover have "trap_of h ?c = Some (Some (t\<lparr>trap_armed := True\<rparr>))" using L s(2) by (simp add: trap_of_def)
  moreover have "core_inv ?c" using core_inv_set_trap [OF inv s(1,2)] .
  ultimately show ?thesis using t bs fm inv
    by (cases "bs = []") (simp_all add: WhpArmTrap_def split_def comp_def)
qed

text \<open>A pipe (1, 2) and a trap (3) that waits for a message at end 2.\<close>

definition trap_calls :: "Call list" where
  "trap_calls = [CCreateMessagePipe True True, CCreateTrap (Some 7) True,
     CAddTrigger 3 2 SIGNAL_READABLE SIGNALS_SATISFIED 99]"

definition trap_core :: Core where
  "trap_core = the (run_calls idle_env no_os_map trap_calls initial_core)"

definition demo_trap :: TrapObj where
  "demo_trap = \<lparr>trap_handler = Some 7, trap_triggers = [\<lparr>trig_watched = 2, trig_signals = SIGNAL_READABLE,
     trig_condition = SIGNALS_SATISFIED, trig_context = 99\<rparr>], trap_armed = False\<rparr>"

lemma trap_run: "run_calls idle_env no_os_map trap_calls initial_core =
  Some (initial_core\<lparr>pipe_heap := [new_pipe], traps := [3],
    slots := [free_slot, \<lparr>sl_kind = KMessagePipe, sl_obj = OPipeEnd \<lparr>pe_state = 0, pe_end = 0\<rparr>\<rparr>,
      \<lparr>sl_kind = KMessagePipe, sl_obj = OPipeEnd \<lparr>pe_state = 0, pe_end = 1\<rparr>\<rparr>,
      \<lparr>sl_kind = KTrap, sl_obj = OTrap demo_trap\<rparr>]\<rparr>)"
  by (simp add: trap_calls_def initial_core_def call_ok_def handle_room_iff WhpCreateMessagePipe_def Alloc_def
      Let_def wrap_simps WhpCreateTrap_def WhpAddTrigger_def trap_of_def Lookup_def set_obj_def demo_trap_def
      numeral_3_eq_3)

lemmas trap_eq = trap_core_def [unfolded trap_run option.sel]

lemma trap_reachable: "reachable idle_env no_os_map trap_core"
  using run_calls_reachable [OF trap_run reachable.start] by (simp only: trap_eq)

lemma trap_inv: "core_inv trap_core"
  using reachable_inv [OF trap_reachable env_ok_idle] .

lemma trap_trap: "trap_of 3 trap_core = Some (Some demo_trap)"
  by (simp add: trap_of_def trap_eq Lookup_def)

theorem arm_trap_outcomes_witness:
  "\<exists>bs r k evs c'. blocking_triggers trap_core (trap_triggers demo_trap) = Some bs \<and>
     WhpArmTrap 3 (Some 4) True trap_core = Some (r, k, evs, c') \<and> core_inv c' \<and>
     (r = WHP_RESULT_OK \<longleftrightarrow> bs = [])"
  using arm_trap_outcomes [OF trap_inv trap_trap, of 4] by blast


lemma WhpClose_OK:
  assumes "core_inv c" "env_ok env" "Lookup c h = Some s"
  shows "\<exists>c'. WhpClose env h c = Some (WHP_RESULT_OK, c')"
  using WhpClose_safe [OF assms(1,2), of h] assms(3) by (auto simp: WhpClose_def option_bind_Some_iff)


text \<open>Closing a trap cancels it: of the events queued before the close, exactly those of
  its triggers are dropped, and the trap is off the list.\<close>

theorem close_trap_purges:
  assumes inv: "core_inv c" and h: "trap_of h c = Some (Some t)"
  shows "\<exists>c' es. WhpClose env h c = Some (WHP_RESULT_OK, c') \<and> core_inv c' \<and> h \<notin> set (traps c') \<and>
     pending_events c' = filter (\<lambda>e. ev_trigger_context (pend_event e) \<notin> trig_context ` set (trap_triggers t))
       (pending_events c) @ es"
proof -
  obtain s where s: "Lookup c h = Some s" "sl_kind s = KTrap" "sl_obj s = OTrap t"
    using h by (cases rule: trap_of_cases [OF inv, of h, case_names bad trp]) auto
  let ?ev = "filter (\<lambda>e. ev_trigger_context (pend_event e) \<notin> trig_context ` set (trap_triggers t)) (pending_events c)"
  let ?c = "Free h (c\<lparr>pending_events := ?ev, traps := removeAll h (traps c)\<rparr>)"
  obtain c' where c': "CollectTrapEvents ?c = Some c'" "core_inv c'" "trap_frame ?c c'"
    using CollectTrapEvents_ok [OF core_inv_close_trap [OF inv s(1,2)]] by blast
  have "WhpClose env h c = Some (WHP_RESULT_OK, c')"
    using s c'(1) by (simp add: WhpClose_def close_object_def free_and_drop_def run_dtor_def)
  with c' show ?thesis by (auto simp: trap_frame_def)
qed

theorem close_trap_purges_witness:
  "\<exists>c' es. WhpClose idle_env 3 trap_core = Some (WHP_RESULT_OK, c') \<and> core_inv c' \<and> 3 \<notin> set (traps c')"
  using close_trap_purges [OF trap_inv trap_trap] by blast

text \<open>A trap that waits for the end of the messages at end 2 of a pipe whose peer has closed.\<close>

definition stale_calls :: "Call list" where
  "stale_calls = [CCreateMessagePipe True True, CCreateTrap (Some 7) True,
     CAddTrigger 3 2 SIGNAL_READABLE SIGNALS_UNSATISFIABLE 99, CCreateMessage True, CWriteMessage 1 4,
     CClose 1, CArmTrap 3 None False]"

definition stale_core :: Core where
  "stale_core = the (run_calls idle_env no_os_map stale_calls initial_core)"

lemmas eval_calls = call_ok_def handle_room_iff WhpCreateMessagePipe_def Alloc_def
  Let_def wrap_simps WhpCreateTrap_def WhpAddTrigger_def trap_of_def Lookup_def set_obj_def
  list_update_numeral WhpCreateMessage_def WhpWriteMessage_def WhpSerializeMessage_def message_of_def
  serialize_finish_def run_dtor_def write_locked_def pipe_end_of_def nth_opt_def Free_def set_pipe_def
  CollectTrapEvents_def collect_trap_def QueryLocked_def PipeSignals_def SignalsMatch_def signal_defs
  WhpClose_def close_object_def free_and_drop_def WhpArmTrap_def WhpReadMessage_def

lemma stale_run: "\<exists>c. run_calls idle_env no_os_map stale_calls initial_core = Some c"
  by (simp add: stale_calls_def eval_calls initial_core_def new_pipe_def new_message_def)

lemmas eval_data = initial_core_def new_pipe_def new_message_def

lemma stale_quiet: "quiet_trap stale_core 3"
  by (simp add: stale_core_def stale_calls_def eval_calls eval_data quiet_trap_def)

lemma stale_read: "\<exists>m c'. WhpReadMessage 2 True stale_core = Some (WHP_RESULT_OK, m, c') \<and> \<not> quiet_trap c' 3"
  by (simp add: stale_core_def stale_calls_def eval_calls eval_data quiet_trap_def)

text \<open>\<open>WhpReadMessage\<close> is the exception to \<open>no_lost_wakeup\<close>: it takes a message from the
  queue without collecting trap events.  A trap armed to learn that no more messages can come
  (READABLE can no longer be satisfied) is not notified when the last message is read after
  the peer has closed.\<close>

theorem read_message_loses_wakeup:
  "reachable idle_env no_os_map stale_core \<and> quiet_trap stale_core 3 \<and>
   (\<exists>m c'. WhpReadMessage 2 True stale_core = Some (WHP_RESULT_OK, m, c') \<and> \<not> quiet_trap c' 3)"
proof -
  have "run_calls idle_env no_os_map stale_calls initial_core = Some stale_core"
    using stale_run by (auto simp: stale_core_def)
  then have "reachable idle_env no_os_map stale_core" by (rule run_calls_reachable) (rule reachable.start)
  with stale_quiet stale_read show ?thesis by blast
qed

subsection \<open>Data pipes\<close>

text \<open>C6.  A data pipe is a first-in-first-out channel of bytes: in every session of writes and
  reads, the bytes accepted after those already in the ring are the bytes delivered followed
  by those still in the ring, whatever the wrap-arounds; every operation completes and
  \<open>available\<close> never exceeds the capacity.\<close>

theorem data_pipe_session_fifo:
  assumes "ring_inv s"
  shows "\<exists>acc del s'. session ring_put ring_get ops s = Some (acc, del, s') \<and>
     ring_contents s @ acc = del @ ring_contents s' \<and> ring_inv s'"
  using ring.session_total [OF assms, of ops] ring.session_fifo [OF assms, of ops] by blast

theorem data_pipe_session_fifo_witness:
  "\<exists>acc del s'. session ring_put ring_get [Put [1, 2, 3, 4, 5], Get 2, Put [6, 7], Get 9] (new_data_pipe (Some (1, 4))) =
       Some (acc, del, s') \<and>
     ring_contents (new_data_pipe (Some (1, 4))) @ acc = del @ ring_contents s' \<and> ring_inv s'"
  by (rule data_pipe_session_fifo) (simp add: ring_inv_new)

text \<open>A two-phase write with no other call on the pipe in between appends exactly the bytes
  the client stored in the window, and the window is released.\<close>

theorem two_phase_write_commits:
  assumes "ring_inv s" "data_begin_write want s = Some (WHP_RESULT_OK, n, s1)"
    and "length xs \<le> n" "length xs mod element_size s = 0"
  shows "\<exists>s2. data_end_write (length xs) (client_fill (wpos s) xs s1) = Some (WHP_RESULT_OK, s2) \<and>
     ring_inv s2 \<and> ring_contents s2 = ring_contents s @ xs \<and> two_phase_write s2 = None"
  using two_phase_write_append [OF assms(1,2) refl assms(3,4)] .

definition ring4 :: DataPipeState where
  "ring4 = new_data_pipe (Some (1, 4))"

lemma ring4_inv: "ring_inv ring4"
  using ring_inv_new [of "Some (1, 4)"] by (simp add: ring4_def)

lemma ring4_begin: "data_begin_write 3 ring4 =
    Some (WHP_RESULT_OK, 3, ring4\<lparr>two_phase_write := Some 0, two_phase_write_max := 3\<rparr>)"
  by (simp add: ring4_def new_data_pipe_def data_begin_write_def whole_elements_def sub32_id Let_def)

theorem two_phase_write_commits_witness:
  "\<exists>s2. data_end_write 2 (client_fill 0 [8, 9] (ring4\<lparr>two_phase_write := Some 0, two_phase_write_max := 3\<rparr>)) =
       Some (WHP_RESULT_OK, s2) \<and> ring_contents s2 = ring_contents ring4 @ [8, 9]"
  using two_phase_write_commits [OF ring4_inv ring4_begin, of "[8, 9]"]
  by (auto simp: ring4_def new_data_pipe_def Let_def numeral_2_eq_2)

text \<open>The two halves of a data pipe must not be mixed: a one-phase write is accepted while
  a two-phase write is open, and committing the latter then leaves more bytes available than
  the pipe has room for.\<close>

theorem mixed_writes_overflow:
  "\<exists>s1 n s2 s3. data_begin_write 4 ring4 = Some (WHP_RESULT_OK, 4, s1) \<and>
     data_write [1, 2, 3, 4] 4 s1 = Some (WHP_RESULT_OK, n, s2) \<and>
     data_end_write 4 s2 = Some (WHP_RESULT_OK, s3) \<and> capacity s3 < available s3"
  by (simp add: ring4_def new_data_pipe_def data_begin_write_def whole_elements_def sub32_id Let_def
      data_write_def data_end_write_def add32_id nth_opt_def)

subsection \<open>Handles, buffers, platform handles\<close>

text \<open>Handles are never confused: two creations in a row give different non-zero handles,
  each naming its own object, and freeing the first again restores every lookup.\<close>

theorem handles_are_fresh:
  assumes "table_inv c" "handle_room 0 c" "sl_kind x \<noteq> KFree" "Alloc (sl_kind x) (sl_obj x) c = Some (h, c1)"
    and "handle_room 0 c1" "sl_kind y \<noteq> KFree" "Alloc (sl_kind y) (sl_obj y) c1 = Some (k, c2)"
  shows "h \<noteq> k \<and> h \<noteq> 0 \<and> Lookup c h = None \<and> Lookup c2 h = Some x \<and> Lookup c2 k = Some y \<and>
     Lookup (Free h c1) = Lookup c \<and> table_inv c2"
  using whp.alloc_twice_distinct [OF assms] whp.alloc_fresh [OF assms(1-4)] whp.alloc_free_id [OF assms(1-4)]
    whp.alloc_fresh [OF _ assms(5-7)] by auto

theorem handles_are_fresh_witness:
  "\<exists>c1 c2. Alloc KMessage (OMessage new_message) initial_core = Some (1, c1) \<and>
     Alloc KMessage (OMessage new_message) c1 = Some (2, c2) \<and>
     Lookup c2 1 = Some \<lparr>sl_kind = KMessage, sl_obj = OMessage new_message\<rparr> \<and> Lookup (Free 1 c1) = Lookup initial_core"
proof -
  let ?s = "\<lparr>sl_kind = KMessage, sl_obj = OMessage new_message\<rparr>"
  let ?c1 = "initial_core\<lparr>slots := [free_slot, ?s]\<rparr>"
  let ?c2 = "initial_core\<lparr>slots := [free_slot, ?s, ?s]\<rparr>"
  have "Alloc KMessage (OMessage new_message) initial_core = Some (1, ?c1)"
    "Alloc KMessage (OMessage new_message) ?c1 = Some (2, ?c2)"
    by (simp_all add: Alloc_def initial_core_def wrap_simps)
  moreover from this have "Lookup ?c2 1 = Some ?s \<and> Lookup (Free 1 ?c1) = Lookup initial_core"
    using handles_are_fresh [of initial_core ?s 1 ?c1 ?s 2 ?c2]
    by (simp add: handle_room_iff) (simp add: initial_core_def)
  ultimately show ?thesis by blast
qed


definition buffer_core :: Core where
  "buffer_core = the (run_calls idle_env no_os_map [CCreateSharedBuffer 16 True] initial_core)"

lemma buffer_run: "run_calls idle_env no_os_map [CCreateSharedBuffer 16 True] initial_core =
  Some (initial_core\<lparr>buf_heap := [empty_buffer\<lparr>sb_bytes := replicate 16 0, sb_size := 16\<rparr>],
     slots := [free_slot, \<lparr>sl_kind = KSharedBuffer, sl_obj = OSharedBuffer 0\<rparr>]\<rparr>)"
  by (simp add: eval_calls initial_core_def WhpCreateSharedBuffer_def)

lemmas buffer_eq = buffer_core_def [unfolded buffer_run option.sel]

lemma buffer_facts: "core_inv buffer_core"
  "buffer_of 1 buffer_core = Some (Some (0, empty_buffer\<lparr>sb_bytes := replicate 16 0, sb_size := 16\<rparr>))"
proof -
  have "reachable idle_env no_os_map buffer_core"
    using run_calls_reachable [OF buffer_run reachable.start] by (simp only: buffer_eq)
  then show "core_inv buffer_core" using reachable_inv env_ok_idle by blast
qed (simp add: buffer_eq buffer_of_def Lookup_def nth_opt_def)


text \<open>The bound check of \<open>WhpMapBuffer\<close> adds offset and size in 64 bits: a range that wraps
  around is accepted, and the address returned is far outside the buffer.\<close>

theorem map_buffer_wraps:
  "reachable idle_env no_os_map buffer_core \<and>
   (\<exists>c'. WhpMapBuffer idle_env no_os_map 1 (2 ^ 64 - 8) 8 True buffer_core =
     Some (WHP_RESULT_OK, Some (BytesAddr 0 (2 ^ 64 - 8)), c')) \<and>
   WhpGetBufferInfo 1 True buffer_core = Some (WHP_RESULT_OK, Some 16)"
proof -
  have "reachable idle_env no_os_map buffer_core"
    using run_calls_reachable [OF buffer_run reachable.start] by (simp only: buffer_eq)
  moreover have "maps buffer_core = []" by (simp add: buffer_eq initial_core_def)
  ultimately show ?thesis using buffer_facts(2)
    by (simp add: WhpMapBuffer_def WhpGetBufferInfo_def EnsureMapped_def buf_span_def buf_address_def
        map_region_def empty_buffer_def add64_def Let_def)
qed

text \<open>A platform handle has one owner.  Wrapping one and closing the HolePunch handle
  releases it to the operating system once; wrapping and unwrapping gives back the same
  native handle and releases nothing; in both cases the HolePunch handle is gone.\<close>

theorem platform_handle_one_owner:
  assumes inv: "core_inv c" and room: "handle_room 0 c" and env: "env_ok env"
    and w: "WhpWrapPlatformHandle env ty v True c = Some (WHP_RESULT_OK, Some h, c1)"
  shows "\<exists>c2 c3. WhpClose env h c1 = Some (WHP_RESULT_OK, c2) \<and> Lookup c2 h = None \<and>
     native_closed c2 = native_closed c @ (if closes_native (host env) ty v then [(ty, v)] else []) \<and>
     WhpUnwrapPlatformHandle h True True c1 = Some (WHP_RESULT_OK, Some (ty, v), c3) \<and>
     Lookup c3 h = None \<and> native_closed c3 = native_closed c"
proof -
  let ?p = "\<lparr>plat_type = ty, plat_value = v, plat_owned = True\<rparr>"
  let ?s = "\<lparr>sl_kind = KPlatform, sl_obj = OPlatform ?p\<rparr>"
  obtain h' c1' where "Alloc KPlatform (OPlatform ?p) c = Some (h', c1')" and i1': "core_inv c1'"
    and L': "Lookup c1' = (Lookup c)(h' \<mapsto> ?s)" and f': "\<exists>sl fl. c1' = c\<lparr>slots := sl, free_list := fl\<rparr>"
    using core_inv_Alloc [OF inv room, of KPlatform "OPlatform ?p"]
    by (auto simp: plain_def wf_slot_def wf_at_def)
  then have eq: "h' = h" "c1' = c1" using w by (auto simp: WhpWrapPlatformHandle_def split: if_splits)
  have i1: "core_inv c1" and L: "Lookup c1 h = Some ?s" and n1: "native_closed c1 = native_closed c"
    using i1' L' f' eq by auto
  let ?c = "CloseNativePlatform (host env) ty v (set_obj h (OPlatform (?p\<lparr>plat_owned := False\<rparr>)) c1)"
  have Lc: "Lookup ?c h = Some (?s\<lparr>sl_obj := OPlatform (?p\<lparr>plat_owned := False\<rparr>)\<rparr>)"
    by (simp add: CloseNativePlatform_def set_obj_Lookup [OF L])
  have ic: "core_inv ?c" using core_inv_set_platform [OF i1 L] by simp
  have "core_inv (Free h ?c)" using core_inv_Free [OF ic Lc] by (simp add: plain_def)
  then obtain c2 where c2: "CollectTrapEvents (Free h ?c) = Some c2" "trap_frame (Free h ?c) c2"
    using CollectTrapEvents_ok by blast
  have "Lookup c2 h = None"
    using trap_frame_Lookup_None [OF c2(2)] Lookup_Free [OF core_inv_table [OF ic] Lc] by simp
  moreover have "native_closed c2 = native_closed c @ (if closes_native (host env) ty v then [(ty, v)] else [])"
    using c2(2) n1 by (simp add: trap_frame_def CloseNativePlatform_def)
  moreover have "WhpClose env h c1 = Some (WHP_RESULT_OK, c2)"
    using L c2(1) by (simp add: WhpClose_def close_object_def free_and_drop_def run_dtor_def)
  moreover have "WhpUnwrapPlatformHandle h True True c1 = Some (WHP_RESULT_OK, Some (ty, v), Free h c1)"
    using L by (simp add: WhpUnwrapPlatformHandle_def platform_of_def)
  moreover have "Lookup (Free h c1) h = None" using Lookup_Free [OF core_inv_table [OF i1] L] by simp
  ultimately show ?thesis using n1 by auto
qed

theorem platform_handle_one_owner_witness:
  "\<exists>c1 c2 c3. WhpWrapPlatformHandle idle_env PLATFORM_FILE_DESCRIPTOR 5 True initial_core =
       Some (WHP_RESULT_OK, Some 1, c1) \<and> WhpClose idle_env 1 c1 = Some (WHP_RESULT_OK, c2) \<and>
     native_closed c2 = [(PLATFORM_FILE_DESCRIPTOR, 5)]"
proof -
  obtain c1 where c1: "WhpWrapPlatformHandle idle_env PLATFORM_FILE_DESCRIPTOR 5 True initial_core =
       Some (WHP_RESULT_OK, Some 1, c1)"
    by (simp add: WhpWrapPlatformHandle_def PlatformTypeOkForHost_def idle_env_def Alloc_def initial_core_def
        wrap_simps)
  from platform_handle_one_owner [OF core_inv_initial _ env_ok_idle this] show ?thesis
    using c1 by (auto simp: handle_room_iff closes_native_def idle_env_def wrap_simps initial_core_def)
qed

end
