(* ===== verification/Voodoom_Lexer.thy ===== *)
theory Voodoom_Lexer
  imports Voodoo_Prelude
begin

text \<open>
  The tokenizer of the IDL compiler (\<open>src/lexer.h\<close>, \<open>src/lexer.cc\<close>).  The position in the
  source is the list of the characters that remain, the line counter a natural number.
  One iteration of \<open>Tokenize\<close>'s loop is \<open>lex_step\<close>: the tokens pushed (none or one), the
  rest and the new line, or the exception thrown.
\<close>

datatype TokenType =
    kName | kNumber | kHexNumber | kFloatNumber | kStringLiteral | kArrow | kLParen | kRParen
  | kLBrace | kRBrace | kLAngle | kRAngle | kComma | kSemi | kAt | kEquals | kMinus | kQuestion
  | kDot | kLBracket | kRBracket | kAmpersand | kPipe | kEnd

record Token =
  tk_type :: TokenType
  tk_text :: string
  tk_line :: nat

definition mk_token :: "TokenType \<Rightarrow> string \<Rightarrow> nat \<Rightarrow> Token" where
  "mk_token ty s l = \<lparr>tk_type = ty, tk_text = s, tk_line = l\<rparr>"

text \<open>A \<open>LexError\<close>, or the \<open>std::out_of_range\<close> of a character code beyond a \<open>long\<close>.\<close>

datatype LexFail = LexError string nat | StolOutOfRange

subsection \<open>Character classes of the C locale\<close>

definition isdigit :: "char \<Rightarrow> bool" where
  "isdigit c \<longleftrightarrow> 48 \<le> (of_char c :: nat) \<and> (of_char c :: nat) \<le> 57"

definition isalpha :: "char \<Rightarrow> bool" where
  "isalpha c \<longleftrightarrow> 65 \<le> (of_char c :: nat) \<and> (of_char c :: nat) \<le> 90 \<or>
     97 \<le> (of_char c :: nat) \<and> (of_char c :: nat) \<le> 122"

definition isxdigit :: "char \<Rightarrow> bool" where
  "isxdigit c \<longleftrightarrow> isdigit c \<or> 65 \<le> (of_char c :: nat) \<and> (of_char c :: nat) \<le> 70 \<or>
     97 \<le> (of_char c :: nat) \<and> (of_char c :: nat) \<le> 102"

definition isspace :: "char \<Rightarrow> bool" where
  "isspace c \<longleftrightarrow> (of_char c :: nat) = 32 \<or> 9 \<le> (of_char c :: nat) \<and> (of_char c :: nat) \<le> 13"

definition IsNameStart :: "char \<Rightarrow> bool" where
  "IsNameStart c \<longleftrightarrow> isalpha c \<or> c = CHR ''_''"

definition IsNameCont :: "char \<Rightarrow> bool" where
  "IsNameCont c \<longleftrightarrow> isalpha c \<or> isdigit c \<or> c = CHR ''_''"

definition newline :: char where "newline = CHR 0x0A"

definition quote :: char where "quote = CHR 0x22"

definition backslash :: char where "backslash = CHR 0x5C"

subsection \<open>Comments\<close>

fun skip_block :: "string \<Rightarrow> nat \<Rightarrow> nat + (string \<times> nat)" where
  "skip_block (a # b # r) line =
     (if a = CHR ''*'' \<and> b = CHR ''/'' then Inr (r, line)
      else skip_block (b # r) (if a = newline then line + 1 else line))"
| "skip_block _ line = Inl line"

subsection \<open>Numbers\<close>

definition starts_digit :: "string \<Rightarrow> bool" where
  "starts_digit s = (case s of [] \<Rightarrow> False | c # _ \<Rightarrow> isdigit c)"

text \<open>The optional exponent \<open>[eE][+-]?DIGITS\<close>: what it consumes and the rest.\<close>

definition scan_exponent :: "string \<Rightarrow> string \<times> string" where
  "scan_exponent s =
     (case s of
        [] \<Rightarrow> ([], s)
      | e # r \<Rightarrow>
          if e = CHR ''e'' \<or> e = CHR ''E''
          then (let (sgn, r1) = (case r of
                      [] \<Rightarrow> ([], r)
                    | x # r' \<Rightarrow> if x = CHR ''+'' \<or> x = CHR ''-'' then ([x], r') else ([], r))
                in if starts_digit r1
                   then (e # sgn @ takeWhile isdigit r1, dropWhile isdigit r1) else ([], s))
          else ([], s))"

text \<open>The optional fraction \<open>'.' DIGITS\<close>.\<close>

definition scan_fraction :: "string \<Rightarrow> string \<times> string" where
  "scan_fraction s =
     (case s of
        [] \<Rightarrow> ([], s)
      | d # r \<Rightarrow> if d = CHR ''.'' \<and> starts_digit r
                  then (d # takeWhile isdigit r, dropWhile isdigit r) else ([], s))"

text \<open>A spelling in single quotes, as the messages have it.\<close>

definition quoted :: "string \<Rightarrow> string" where
  "quoted s = CHR 0x27 # s @ [CHR 0x27]"

definition lex_decimal :: "string \<Rightarrow> nat \<Rightarrow> LexFail + (Token \<times> string)" where
  "lex_decimal s line =
     (let digits = takeWhile isdigit s;
          (frac, r1) = scan_fraction (dropWhile isdigit s);
          (ex, r2) = scan_exponent r1
      in if frac \<noteq> [] \<or> ex \<noteq> [] then Inr (mk_token kFloatNumber (digits @ frac @ ex) line, r2)
         else if 1 < length digits \<and> hd digits = CHR ''0''
         then Inl (LexError ''octal values are not allowed'' line)
         else Inr (mk_token kNumber digits line, r2))"

definition lex_number :: "string \<Rightarrow> nat \<Rightarrow> LexFail + (Token \<times> string)" where
  "lex_number s line =
     (case s of
        c # x # r \<Rightarrow>
          if c = CHR ''0'' \<and> (x = CHR ''x'' \<or> x = CHR ''X'')
          then (if takeWhile isxdigit r = []
                then Inl (LexError (''invalid hex literal (no digits after '' @ quoted ''0x'' @ '')'') line)
                else Inr (mk_token kHexNumber (c # x # takeWhile isxdigit r) line, dropWhile isxdigit r))
          else lex_decimal s line
      | _ \<Rightarrow> lex_decimal s line)"

subsection \<open>String literals\<close>

definition digit_value :: "char \<Rightarrow> nat" where
  "digit_value c =
     (let k = (of_char c :: nat) in if k \<le> 57 then k - 48 else if k \<le> 70 then k - 55 else k - 87)"

definition number_value :: "nat \<Rightarrow> string \<Rightarrow> nat" where
  "number_value base s = foldl (\<lambda>n c. n * base + digit_value c) 0 s"

text \<open>\<open>std::stol\<close> on digits, and the narrowing to \<open>char\<close>.\<close>

definition escape_char :: "nat \<Rightarrow> string \<Rightarrow> LexFail + char" where
  "escape_char base digits =
     (let code = number_value base digits
      in if 2 ^ 63 \<le> code then Inl StolOutOfRange else Inr (char_of (code mod 256)))"

definition cons_value :: "char \<Rightarrow> LexFail + (string \<times> string) \<Rightarrow> LexFail + (string \<times> string)" where
  "cons_value c res = (case res of Inl e \<Rightarrow> Inl e | Inr (v, r) \<Rightarrow> Inr (c # v, r))"

lemma dropWhile_less: "length (dropWhile P r) < Suc (length r)"
  by (simp add: less_Suc_eq_le length_dropWhile_le)

lemma dropWhile_tl_less: "length (dropWhile P (tl r)) < Suc (length r)"
  using dropWhile_less [of P "tl r"] by simp

text \<open>From after the opening quote to after the closing one.\<close>

function lex_string :: "string \<Rightarrow> nat \<Rightarrow> LexFail + (string \<times> string)" where
  "lex_string [] line = Inl (LexError ''unterminated string literal'' line)"
| "lex_string (c # r) line =
     (if c = quote then Inr ([], r)
      else if c = newline then Inl (LexError ''unterminated string literal'' line)
      else if c = backslash \<and> r \<noteq> [] \<and> (hd r = quote \<or> hd r = backslash)
      then cons_value (hd r) (lex_string (tl r) line)
      else if c = backslash \<and> starts_digit r
      then (case escape_char 10 (takeWhile isdigit r) of
              Inl e \<Rightarrow> Inl e
            | Inr x \<Rightarrow> cons_value x (lex_string (dropWhile isdigit r) line))
      else if c = backslash \<and> r \<noteq> [] \<and> hd r = CHR ''x'' \<and> takeWhile isxdigit (tl r) \<noteq> []
      then (case escape_char 16 (takeWhile isxdigit (tl r)) of
              Inl e \<Rightarrow> Inl e
            | Inr x \<Rightarrow> cons_value x (lex_string (dropWhile isxdigit (tl r)) line))
      else cons_value c (lex_string r line))"
  by pat_completeness auto
termination
  by (relation "measure (\<lambda>(s, _). length s)") (auto simp: dropWhile_less dropWhile_tl_less)

subsection \<open>The loop\<close>

definition punctuation :: "char \<Rightarrow> TokenType option" where
  "punctuation c = map_of
     [(CHR ''('', kLParen), (CHR '')'', kRParen), (CHR ''{'', kLBrace), (CHR ''}'', kRBrace),
      (CHR ''<'', kLAngle), (CHR ''>'', kRAngle), (CHR '','', kComma), (CHR '';'', kSemi),
      (CHR ''@'', kAt), (CHR ''='', kEquals), (CHR ''-'', kMinus), (CHR ''?'', kQuestion),
      (CHR ''.'', kDot), (CHR ''['', kLBracket), (CHR '']'', kRBracket), (CHR ''&'', kAmpersand),
      (CHR ''|'', kPipe)] c"

definition lex_dot_float :: "string \<Rightarrow> nat \<Rightarrow> Token \<times> string" where
  "lex_dot_float s line =
     (let (frac, r1) = scan_fraction s; (ex, r2) = scan_exponent r1
      in (mk_token kFloatNumber (frac @ ex) line, r2))"

definition lex_step :: "char \<Rightarrow> string \<Rightarrow> nat \<Rightarrow> LexFail + (Token list \<times> string \<times> nat)" where
  "lex_step c r line =
     (if c = newline then Inr ([], r, line + 1)
      else if isspace c then Inr ([], r, line)
      else if c = CHR ''/'' \<and> r \<noteq> [] \<and> hd r = CHR ''/''
      then Inr ([], dropWhile (\<lambda>x. x \<noteq> newline) r, line)
      else if c = CHR ''/'' \<and> r \<noteq> [] \<and> hd r = CHR ''*''
      then (case skip_block (tl r) line of
              Inl l \<Rightarrow> Inl (LexError ''unterminated block comment'' l)
            | Inr (r', l) \<Rightarrow> Inr ([], r', l))
      else if IsNameStart c
      then Inr ([mk_token kName (c # takeWhile IsNameCont r) line], dropWhile IsNameCont r, line)
      else if isdigit c
      then (case lex_number (c # r) line of Inl e \<Rightarrow> Inl e | Inr (t, r') \<Rightarrow> Inr ([t], r', line))
      else if c = CHR ''.'' \<and> starts_digit r
      then (let (t, r') = lex_dot_float (c # r) line in Inr ([t], r', line))
      else if c = quote
      then (case lex_string r line of
              Inl e \<Rightarrow> Inl e
            | Inr (v, r') \<Rightarrow> Inr ([mk_token kStringLiteral v line], r', line))
      else if c = CHR ''='' \<and> r \<noteq> [] \<and> hd r = CHR ''>''
      then Inr ([mk_token kArrow [] line], tl r, line)
      else (case punctuation c of
              Some ty \<Rightarrow> Inr ([mk_token ty [] line], r, line)
            | None \<Rightarrow> Inl (LexError (''unexpected character '' @ quoted [c]) line)))"

lemma skip_block_length: "skip_block s l = Inr (r, l') \<Longrightarrow> length r \<le> length s"
  by (induction s l rule: skip_block.induct) (auto split: if_splits)

lemma scan_exponent_length: "scan_exponent s = (x, r) \<Longrightarrow> length r \<le> length s"
  by (auto simp: scan_exponent_def Let_def split: list.splits if_splits
      intro: order_trans [OF length_dropWhile_le])

lemma scan_fraction_length: "scan_fraction s = (x, r) \<Longrightarrow> length r \<le> length s"
  by (auto simp: scan_fraction_def split: list.splits if_splits intro: order_trans [OF length_dropWhile_le])

lemma lex_number_length:
  assumes "lex_number (c # r) l = Inr (t, r')" "isdigit c"
  shows "length r' \<le> length r"
proof (cases "lex_number (c # r) l = lex_decimal (c # r) l")
  case True
  obtain f r1 where f: "scan_fraction (dropWhile isdigit (c # r)) = (f, r1)" by fastforce
  obtain e r2 where e: "scan_exponent r1 = (e, r2)" by fastforce
  have "r' = r2" using assms(1) True f e by (auto simp: lex_decimal_def Let_def split: if_splits)
  moreover have "length (dropWhile isdigit (c # r)) \<le> length r"
    using assms(2) length_dropWhile_le [of isdigit r] by simp
  ultimately show ?thesis using scan_exponent_length [OF e] scan_fraction_length [OF f] by simp
next
  case False
  then show ?thesis using assms(1)
    by (auto simp: lex_number_def split: list.splits if_splits intro: order_trans [OF length_dropWhile_le])
qed

lemma lex_string_length: "lex_string s l = Inr (v, r) \<Longrightarrow> length r < length s"
proof (induction s l arbitrary: v rule: lex_string.induct)
  case (2 c r l)
  then show ?case
    by (auto simp: cons_value_def split: if_splits sum.splits prod.splits
        intro: less_trans dropWhile_less dropWhile_tl_less)
qed simp

lemma lex_step_length:
  assumes "lex_step c r l = Inr (ts, r', l')"
  shows "length r' \<le> length r"
proof -
  have "length r' \<le> length r" if "starts_digit r" "lex_dot_float (c # r) l = (t, r')" "c = CHR ''.''" for t
  proof -
    have f: "scan_fraction (c # r) = (c # takeWhile isdigit r, dropWhile isdigit r)"
      using that by (simp add: scan_fraction_def)
    obtain e r2 where e: "scan_exponent (dropWhile isdigit r) = (e, r2)" by fastforce
    with that(2) f have "r' = r2" by (simp add: lex_dot_float_def)
    then show ?thesis using scan_exponent_length [OF e] length_dropWhile_le [of isdigit r] by simp
  qed
  then show ?thesis using assms
    by (auto simp: lex_step_def length_dropWhile_le split: if_splits sum.splits prod.splits option.splits
        dest: lex_number_length lex_string_length skip_block_length)
qed

function lex_loop :: "string \<Rightarrow> nat \<Rightarrow> LexFail + Token list" where
  "lex_loop [] line = Inr [mk_token kEnd [] line]"
| "lex_loop (c # r) line =
     (case lex_step c r line of
        Inl e \<Rightarrow> Inl e
      | Inr (ts, r', line') \<Rightarrow>
          (case lex_loop r' line' of Inl e \<Rightarrow> Inl e | Inr us \<Rightarrow> Inr (ts @ us)))"
  by pat_completeness auto
termination
  by (relation "measure (\<lambda>(s, _). length s)") (auto simp: less_Suc_eq_le dest: lex_step_length)

definition Tokenize :: "string \<Rightarrow> LexFail + Token list" where
  "Tokenize src = lex_loop src 1"

end
