(* ===== verification/Lexer_Properties.thy ===== *)
theory Lexer_Properties
  imports Voodoom_Lexer
begin

text \<open>
  What the tokenizer guarantees the parser (the form of every token, the end marker, the line
  numbers), and that it inverts the printing of tokens.
\<close>

subsection \<open>The form of tokens\<close>

definition name_text :: "string \<Rightarrow> bool" where
  "name_text s = (case s of [] \<Rightarrow> False | c # r \<Rightarrow> IsNameStart c \<and> list_all IsNameCont r)"

definition number_text :: "string \<Rightarrow> bool" where
  "number_text s \<longleftrightarrow> s \<noteq> [] \<and> list_all isdigit s \<and> (hd s = CHR ''0'' \<longrightarrow> s = ''0'')"

definition hex_text :: "string \<Rightarrow> bool" where
  "hex_text s =
     (case s of z # x # ds \<Rightarrow> z = CHR ''0'' \<and> (x = CHR ''x'' \<or> x = CHR ''X'') \<and> ds \<noteq> [] \<and> list_all isxdigit ds
      | _ \<Rightarrow> False)"

definition token_ok :: "Token \<Rightarrow> bool" where
  "token_ok t =
     (case tk_type t of
        kName \<Rightarrow> name_text (tk_text t)
      | kNumber \<Rightarrow> number_text (tk_text t)
      | kHexNumber \<Rightarrow> hex_text (tk_text t)
      | kFloatNumber \<Rightarrow> tk_text t \<noteq> []
      | kStringLiteral \<Rightarrow> True
      | kEnd \<Rightarrow> False
      | _ \<Rightarrow> tk_text t = [])"

lemma list_all_takeWhile: "list_all P (takeWhile P xs)"
  by (auto simp: list_all_iff dest: set_takeWhileD)

lemma punctuation_not:
  "punctuation c = Some ty \<Longrightarrow> ty \<notin> {kName, kNumber, kHexNumber, kFloatNumber, kStringLiteral, kEnd}"
  unfolding punctuation_def by (drule map_of_SomeD) auto

lemma token_ok_punct: "punctuation c = Some ty \<Longrightarrow> token_ok (mk_token ty [] l)"
  using punctuation_not [of c ty] by (cases ty) (auto simp: token_ok_def mk_token_def)

lemma lex_decimal_ok:
  assumes "lex_decimal (c # r) l = Inr (t, r')" "isdigit c"
  shows "token_ok t \<and> tk_line t = l"
proof -
  obtain f r1 where f: "scan_fraction (dropWhile isdigit (c # r)) = (f, r1)" by fastforce
  obtain e r2 where e: "scan_exponent r1 = (e, r2)" by fastforce
  have all: "list_all isdigit (takeWhile isdigit r)" by (rule list_all_takeWhile)
  show ?thesis using assms f e all
    by (auto simp: lex_decimal_def Let_def token_ok_def mk_token_def number_text_def split: if_splits)
qed

lemma lex_number_ok:
  assumes "lex_number (c # r) l = Inr (t, r')" "isdigit c"
  shows "token_ok t \<and> tk_line t = l"
  using assms lex_decimal_ok [of c r l t r'] list_all_takeWhile [of isxdigit "tl r"]
  by (auto simp: lex_number_def token_ok_def mk_token_def hex_text_def split: list.splits if_splits)

lemma lex_dot_float_ok:
  "lex_dot_float (CHR ''.'' # r) l = (t, r') \<Longrightarrow> starts_digit r \<Longrightarrow> token_ok t \<and> tk_line t = l"
  by (auto simp: lex_dot_float_def scan_fraction_def token_ok_def mk_token_def split: prod.splits)

lemma lex_step_ok:
  assumes "lex_step c r l = Inr (ts, r', l')"
  shows "list_all (\<lambda>t. token_ok t \<and> tk_line t = l) ts \<and> l \<le> l'"
proof -
  have block: "skip_block s k = Inr (x, k') \<Longrightarrow> k \<le> k'" for s k x k'
    by (induction s k rule: skip_block.induct) (auto split: if_splits)
  have name: "name_text (c # takeWhile IsNameCont r)" if "IsNameStart c"
    using that list_all_takeWhile by (simp add: name_text_def)
  show ?thesis using assms name block
    by (auto simp: lex_step_def token_ok_punct mk_token_def [of kArrow] mk_token_def [of kName]
        mk_token_def [of kStringLiteral] token_ok_def [of "\<lparr>tk_type = _, tk_text = _, tk_line = _\<rparr>"]
        split: if_splits sum.splits prod.splits option.splits dest: lex_number_ok lex_dot_float_ok)
      (simp_all add: mk_token_def)
qed

lemma lex_loop_ok:
  "lex_loop s l = Inr ts \<Longrightarrow>
   \<exists>us l'. ts = us @ [mk_token kEnd [] l'] \<and> list_all token_ok us \<and> sorted (map tk_line ts) \<and>
     list_all (\<lambda>t. l \<le> tk_line t) ts"
proof (induction s l arbitrary: ts rule: lex_loop.induct)
  case (1 l)
  then show ?case by (auto simp: mk_token_def)
next
  case (2 c r l)
  then obtain as r' l1 bs where s: "lex_step c r l = Inr (as, r', l1)" "lex_loop r' l1 = Inr bs" "ts = as @ bs"
    by (auto split: sum.splits prod.splits)
  obtain us l' where u: "bs = us @ [mk_token kEnd [] l']" "list_all token_ok us" "sorted (map tk_line bs)"
    "list_all (\<lambda>t. l1 \<le> tk_line t) bs"
    using "2.IH" [OF s(1) refl refl s(2)] by blast
  note a = lex_step_ok [OF s(1)]
  have line: "\<forall>t \<in> set as. tk_line t = l" using a by (simp add: list_all_iff)
  then have "sorted (map tk_line as)" by (induction as) auto
  moreover have "\<forall>t \<in> set bs. l \<le> tk_line t" using a u(4) by (auto simp: list_all_iff)
  ultimately have "sorted (map tk_line ts)" using u(3) line by (auto simp: s(3) sorted_append)
  moreover have "list_all (\<lambda>t. l \<le> tk_line t) ts" using line \<open>\<forall>t \<in> set bs. l \<le> tk_line t\<close>
    by (auto simp: s(3) list_all_iff)
  moreover have "list_all token_ok (as @ us)" using a u(2) by (auto simp: list_all_iff)
  ultimately show ?case using u(1) s(3) by (intro exI [of _ "as @ us"] exI [of _ l']) simp
qed

subsection \<open>Printing tokens\<close>

fun escape_string :: "string \<Rightarrow> string" where
  "escape_string [] = []"
| "escape_string (c # r) =
     (if c = quote \<or> c = backslash then backslash # c # escape_string r else c # escape_string r)"

definition spelling :: "TokenType \<Rightarrow> string" where
  "spelling ty =
     (case ty of kArrow \<Rightarrow> ''=>'' | kLParen \<Rightarrow> ''('' | kRParen \<Rightarrow> '')'' | kLBrace \<Rightarrow> ''{'' | kRBrace \<Rightarrow> ''}''
      | kLAngle \<Rightarrow> ''<'' | kRAngle \<Rightarrow> ''>'' | kComma \<Rightarrow> '','' | kSemi \<Rightarrow> '';'' | kAt \<Rightarrow> ''@'' | kEquals \<Rightarrow> ''=''
      | kMinus \<Rightarrow> ''-'' | kQuestion \<Rightarrow> ''?'' | kDot \<Rightarrow> ''.'' | kLBracket \<Rightarrow> ''['' | kRBracket \<Rightarrow> '']''
      | kAmpersand \<Rightarrow> ''&'' | kPipe \<Rightarrow> ''|'' | _ \<Rightarrow> [])"

definition print_token :: "Token \<Rightarrow> string" where
  "print_token t =
     (case tk_type t of
        kStringLiteral \<Rightarrow> quote # escape_string (tk_text t) @ [quote]
      | kName \<Rightarrow> tk_text t | kNumber \<Rightarrow> tk_text t | kHexNumber \<Rightarrow> tk_text t | kFloatNumber \<Rightarrow> tk_text t
      | ty \<Rightarrow> spelling ty)"

definition print_tokens :: "Token list \<Rightarrow> string" where
  "print_tokens ts = concat (map (\<lambda>t. print_token t @ '' '') ts)"

text \<open>Tokens that have a spelling: floats in the plain form, strings on one line.\<close>

definition float_text :: "string \<Rightarrow> bool" where
  "float_text s \<longleftrightarrow>
     (let ds = takeWhile isdigit s; r = dropWhile isdigit s
      in ds \<noteq> [] \<and> r \<noteq> [] \<and> hd r = CHR ''.'' \<and> tl r \<noteq> [] \<and> list_all isdigit (tl r))"

definition printable :: "Token \<Rightarrow> bool" where
  "printable t \<longleftrightarrow> token_ok t \<and> (tk_type t = kFloatNumber \<longrightarrow> float_text (tk_text t)) \<and>
     (tk_type t = kStringLiteral \<longrightarrow> newline \<notin> set (tk_text t))"

lemma char_facts [simp]:
  "\<not> isdigit CHR '' ''" "\<not> isxdigit CHR '' ''" "\<not> IsNameCont CHR '' ''" "isspace CHR '' ''"
  "CHR '' '' \<noteq> newline" "quote \<noteq> newline" "quote \<noteq> backslash" "backslash \<noteq> newline"
  "newline \<noteq> quote" "backslash \<noteq> quote" "newline \<noteq> backslash"
  by (simp_all add: isdigit_def isxdigit_def IsNameCont_def isalpha_def isspace_def newline_def quote_def backslash_def)

lemma takeWhile_space:
  "\<not> P CHR '' '' \<Longrightarrow> list_all P xs \<Longrightarrow> takeWhile P (xs @ CHR '' '' # r) = xs \<and>
     dropWhile P (xs @ CHR '' '' # r) = CHR '' '' # r"
  by (induction xs) auto

lemma lex_string_escape:
  "newline \<notin> set s \<Longrightarrow> lex_string (escape_string s @ quote # r) l = Inr (s, r)"
proof (induction s)
  case (Cons c s)
  show ?case
  proof (cases "c = quote \<or> c = backslash")
    case True
    then show ?thesis using Cons by (auto simp: cons_value_def)
  next
    case False
    then show ?thesis using Cons by (auto simp: cons_value_def)
  qed
qed simp

text \<open>One printed token, followed by a space, is lexed back.\<close>

lemma isdigit_not:
  "isdigit c \<Longrightarrow> c \<noteq> newline \<and> \<not> isspace c \<and> \<not> IsNameStart c \<and> c \<noteq> CHR ''/''"
  by (auto simp: isdigit_def newline_def isspace_def IsNameStart_def isalpha_def)

lemma IsNameStart_not: "IsNameStart c \<Longrightarrow> c \<noteq> newline \<and> \<not> isspace c \<and> c \<noteq> CHR ''/''"
  by (auto simp: newline_def isspace_def IsNameStart_def isalpha_def)

lemma lex_step_number:
  "isdigit c \<Longrightarrow> lex_step c r l =
     (case lex_number (c # r) l of Inl e \<Rightarrow> Inl e | Inr (t, r') \<Rightarrow> Inr ([t], r', l))"
  using isdigit_not [of c] by (simp add: lex_step_def)

lemma scan_space [simp]: "scan_fraction (CHR '' '' # r) = ([], CHR '' '' # r)"
  "scan_exponent (CHR '' '' # r) = ([], CHR '' '' # r)"
  by (simp_all add: scan_fraction_def scan_exponent_def)

lemma lex_number_decimal:
  assumes "list_all isdigit (c # ds)" "ds = [] \<longrightarrow> x \<noteq> CHR ''x'' \<and> x \<noteq> CHR ''X''"
  shows "lex_number (c # ds @ x # r) l = lex_decimal (c # ds @ x # r) l"
proof (cases ds)
  case (Cons d ds')
  then have "d \<noteq> CHR ''x''" "d \<noteq> CHR ''X''" using assms(1) by (auto simp: isdigit_def)
  with Cons show ?thesis by (simp add: lex_number_def)
qed (use assms(2) in \<open>simp add: lex_number_def\<close>)

lemma lex_print_number:
  assumes "number_text (c # ds)"
  shows "lex_step c (ds @ CHR '' '' # r) l = Inr ([mk_token kNumber (c # ds) l], CHR '' '' # r, l)"
proof -
  have d: "isdigit c" "list_all isdigit ds" "c = CHR ''0'' \<longrightarrow> ds = []"
    using assms by (auto simp: number_text_def)
  then show ?thesis
    using lex_number_decimal [of c ds "CHR '' ''" r l] takeWhile_space [of isdigit ds r]
    by (auto simp: lex_step_number lex_decimal_def)
qed

lemma lex_print_hex:
  assumes "hex_text (c # s)"
  shows "lex_step c (s @ CHR '' '' # r) l = Inr ([mk_token kHexNumber (c # s) l], CHR '' '' # r, l)"
proof -
  from assms obtain x ds where s: "s = x # ds" "c = CHR ''0''" "x = CHR ''x'' \<or> x = CHR ''X''" "ds \<noteq> []"
    "list_all isxdigit ds" by (auto simp: hex_text_def split: list.splits)
  have "isdigit c" using s(2) by (simp add: isdigit_def)
  then show ?thesis using s takeWhile_space [of isxdigit ds r]
    by (simp add: lex_step_number lex_number_def)
qed

lemma lex_print_float:
  assumes "float_text (c # s)"
  shows "lex_step c (s @ CHR '' '' # r) l = Inr ([mk_token kFloatNumber (c # s) l], CHR '' '' # r, l)"
proof -
  define ds where "ds = takeWhile isdigit s"
  define fs where "fs = tl (dropWhile isdigit s)"
  have c: "isdigit c" using assms by (auto simp: float_text_def Let_def split: if_splits)
  with assms have drop: "dropWhile isdigit s = CHR ''.'' # fs" and f: "fs \<noteq> []" "list_all isdigit fs"
    by (cases "dropWhile isdigit s"; simp add: float_text_def Let_def fs_def)+
  have s: "s = ds @ CHR ''.'' # fs" using takeWhile_dropWhile_id [of isdigit s] by (simp add: ds_def drop)
  have ds: "list_all isdigit ds" unfolding ds_def by (rule list_all_takeWhile)
  have dot: "\<not> isdigit CHR ''.''" by (simp add: isdigit_def)
  have tw: "takeWhile isdigit (ds @ CHR ''.'' # z) = ds" "dropWhile isdigit (ds @ CHR ''.'' # z) = CHR ''.'' # z" for z
    using ds dot by (induction ds) auto
  have "starts_digit (fs @ CHR '' '' # r)" using f by (cases fs) (simp_all add: starts_digit_def)
  moreover have "lex_number (c # s @ CHR '' '' # r) l = lex_decimal (c # s @ CHR '' '' # r) l"
    using lex_number_decimal [of c ds "CHR ''.''" "fs @ CHR '' '' # r" l] c ds by (simp add: s)
  ultimately show ?thesis using c f takeWhile_space [of isdigit fs r]
    by (simp add: lex_step_number lex_decimal_def s tw scan_fraction_def)
qed

lemma lex_print_token:
  assumes "printable t"
  shows "lex_loop (print_token t @ '' '' @ r) l =
     (case lex_loop r l of Inl e \<Rightarrow> Inl e | Inr us \<Rightarrow> Inr (t\<lparr>tk_line := l\<rparr> # us))"
proof -
  have space: "lex_loop (CHR '' '' # r) l = lex_loop r l"
    by (simp add: lex_step_def split: sum.split)
  obtain c s where cs: "print_token t = c # s"
    and step: "lex_step c (s @ CHR '' '' # r) l = Inr ([t\<lparr>tk_line := l\<rparr>], CHR '' '' # r, l)"
  proof (cases "tk_type t \<in> {kName, kNumber, kHexNumber, kFloatNumber, kStringLiteral}")
    case True
    show thesis
    proof (cases "tk_type t = kStringLiteral")
      case str: True
      then have "lex_step quote (escape_string (tk_text t) @ [quote] @ CHR '' '' # r) l =
          Inr ([t\<lparr>tk_line := l\<rparr>], CHR '' '' # r, l)"
        using assms lex_string_escape [of "tk_text t" "CHR '' '' # r" l]
        by (cases t) (simp add: printable_def lex_step_def quote_def newline_def isspace_def IsNameStart_def
            isalpha_def isdigit_def mk_token_def)
      with str show thesis by (intro that [of quote "escape_string (tk_text t) @ [quote]"]) (simp_all add: print_token_def)
    next
      case False
      then obtain c s where cs: "tk_text t = c # s" "print_token t = c # s"
        using True assms by (cases "tk_text t")
          (auto simp: printable_def token_ok_def name_text_def number_text_def hex_text_def print_token_def)
      have name: "lex_step c (s @ CHR '' '' # r) l = Inr ([mk_token kName (c # s) l], CHR '' '' # r, l)"
        if "name_text (c # s)"
        using that IsNameStart_not [of c] takeWhile_space [of IsNameCont s r]
        by (simp add: lex_step_def name_text_def)
      have "lex_step c (s @ CHR '' '' # r) l = Inr ([mk_token (tk_type t) (c # s) l], CHR '' '' # r, l)"
        using True False assms cs(1) name lex_print_number [of c s r l] lex_print_hex [of c s r l]
          lex_print_float [of c s r l] by (auto simp: printable_def token_ok_def)
      moreover have "mk_token (tk_type t) (c # s) l = t\<lparr>tk_line := l\<rparr>" using cs(1) by (cases t) (simp add: mk_token_def)
      ultimately show thesis using that cs(2) by simp
    qed
  next
    case False
    have t: "t\<lparr>tk_line := l\<rparr> = mk_token (tk_type t) [] l"
      using assms False by (cases t; cases "tk_type t") (simp_all add: printable_def token_ok_def mk_token_def)
    show thesis
      using assms False
      by (cases "tk_type t";
          intro that [of "hd (spelling (tk_type t))" "tl (spelling (tk_type t))"];
          simp add: t print_token_def spelling_def lex_step_def newline_def isspace_def IsNameStart_def isalpha_def
            isdigit_def quote_def punctuation_def starts_digit_def printable_def token_ok_def)
  qed
  then show ?thesis using space by (simp add: split: sum.split)
qed

lemma lex_print_tokens:
  "list_all printable ts \<Longrightarrow>
   lex_loop (print_tokens ts) l = Inr (map (\<lambda>t. t\<lparr>tk_line := l\<rparr>) ts @ [mk_token kEnd [] l])"
proof (induction ts)
  case Nil
  then show ?case by (simp add: print_tokens_def)
next
  case (Cons t ts)
  have "print_tokens (t # ts) = print_token t @ '' '' @ print_tokens ts" by (simp add: print_tokens_def)
  with Cons lex_print_token [of t "print_tokens ts" l] show ?case by simp
qed

subsection \<open>Properties\<close>





end
