(* ===== verification/Voodoom_Ast.thy ===== *)
theory Voodoom_Ast
  imports Voodoo_Prelude
begin

text \<open>
  The syntax tree of the IDL compiler (\<open>src/ast.h\<close>): one record per struct, one datatype
  per enumeration, with a default value per struct (its member initialisers).  A
  \<open>uint32_t\<close> member is a natural number that the parser reduces modulo \<open>2 ^ 32\<close>, an
  \<open>int32_t\<close> or \<open>int64_t\<close> member an integer.  A \<open>double\<close> is kept as the expression it was
  read from (\<open>Double\<close>), since nothing in the compiler computes with it.
\<close>

datatype TypeKind =
    kBool | kInt8 | kUint8 | kInt16 | kUint16 | kInt32 | kUint32 | kInt64 | kUint64
  | kFloat | kDouble | kString | kEnumRef | kStructRef | kUnionRef | kArray | kMap
  | kPendingRemote | kPendingReceiver | kPendingAssociatedRemote | kPendingAssociatedReceiver
  | kHandle | kHandleMessagePipe | kHandleDataPipeConsumer | kHandleDataPipeProducer
  | kHandleSharedBuffer | kHandlePlatform

datatype TypeSpec = TypeSpec
  (ts_kind: TypeKind) (ts_name: string)
  (ts_element: "TypeSpec option") (ts_key: "TypeSpec option")
  (ts_nullable: bool) (ts_owner_namespace: string) (ts_owner_container: string)
  (ts_fixed_array_size: nat)

text \<open>The aggregate initialisations of the parser, shortest first.\<close>

definition simple_type :: "TypeKind \<Rightarrow> TypeSpec" where
  "simple_type k = TypeSpec k [] None None False [] [] 0"

definition named_type :: "TypeKind \<Rightarrow> string \<Rightarrow> string \<Rightarrow> string \<Rightarrow> TypeSpec" where
  "named_type k n ns container = TypeSpec k n None None False ns container 0"

definition set_nullable :: "TypeSpec \<Rightarrow> TypeSpec" where
  "set_nullable t = (case t of TypeSpec k n e ky _ ns c sz \<Rightarrow> TypeSpec k n e ky True ns c sz)"

definition EmbedDeclKey :: "string \<Rightarrow> string \<Rightarrow> string" where
  "EmbedDeclKey owner_container name =
     (if owner_container = [] then name else owner_container @ ''_'' @ name)"

text \<open>
  The struct and union names that must be complete where the type is a member.  An array
  always has an element type (\<open>type_spec_ok\<close> below, an invariant of the parser), so the
  missing element of the last equation is never dereferenced.
\<close>

fun AppendCompleteTypeDeps :: "TypeSpec \<Rightarrow> string list" where
  "AppendCompleteTypeDeps (TypeSpec k n e ky nullable ns container sz) =
     (if k = kMap then []
      else if k = kArray \<and> sz = 0 then []
      else if k = kArray then (case e of Some el \<Rightarrow> AppendCompleteTypeDeps el | None \<Rightarrow> [])
      else if k = kStructRef \<or> k = kUnionRef
      then (if nullable then [] else if ns \<noteq> [] then [] else [EmbedDeclKey container n])
      else [])"

subsection \<open>Conditional declarations\<close>

datatype EnableMode = kNone | kAny | kAll

record EnableIfClause =
  ec_mode :: EnableMode
  ec_flags :: "string list"

record EnableIf =
  ei_enable_if :: EnableIfClause
  ei_enable_if_not :: EnableIfClause

definition no_clause :: EnableIfClause where
  "no_clause = \<lparr>ec_mode = kNone, ec_flags = []\<rparr>"

definition no_enable_if :: EnableIf where
  "no_enable_if = \<lparr>ei_enable_if = no_clause, ei_enable_if_not = no_clause\<rparr>"

definition enable_active :: "EnableIf \<Rightarrow> bool" where
  "enable_active e \<longleftrightarrow> ec_mode (ei_enable_if e) \<noteq> kNone \<or> ec_mode (ei_enable_if_not e) \<noteq> kNone"

subsection \<open>Parameters and methods\<close>

record Param =
  p_type :: TypeSpec
  p_name :: string
  p_min_version :: nat
  p_ordinal :: nat
  p_has_explicit_ordinal :: bool
  p_enable_if :: EnableIf

definition new_param :: Param where
  "new_param = \<lparr>p_type = simple_type kBool, p_name = [], p_min_version = 0, p_ordinal = 0,
     p_has_explicit_ordinal = False, p_enable_if = no_enable_if\<rparr>"

record Method =
  m_name :: string
  m_ordinal :: nat
  m_has_explicit_ordinal :: bool
  m_params :: "Param list"
  m_has_response :: bool
  m_response_params :: "Param list"
  m_is_result_response :: bool
  m_result_success :: TypeSpec
  m_result_error :: TypeSpec
  m_is_sync :: bool
  m_min_version :: nat
  m_enable_if :: EnableIf

definition new_method :: Method where
  "new_method = \<lparr>m_name = [], m_ordinal = 0, m_has_explicit_ordinal = False, m_params = [],
     m_has_response = False, m_response_params = [], m_is_result_response = False,
     m_result_success = simple_type kBool, m_result_error = simple_type kBool,
     m_is_sync = False, m_min_version = 0, m_enable_if = no_enable_if\<rparr>"

subsection \<open>Defaults, constants and enumerations\<close>

text \<open>
  A double: zero, a literal by its spelling, an integer converted to double, a negation, or
  one of the special values.
\<close>

datatype Double = DZero | DLiteral string | DInteger int | DNeg Double | DInfinity | DNaN

datatype FloatSpecial = fsNone | fsInfinity | fsNegativeInfinity | fsNaN

record DefaultValue =
  dv_has_value :: bool
  dv_bool_value :: bool
  dv_int_value :: int
  dv_float_value :: Double
  dv_float_special :: FloatSpecial
  dv_string_value :: string
  dv_named_expr :: string
  dv_named_expr_owner_namespace :: string
  dv_named_expr_owner_container :: string

definition no_default :: DefaultValue where
  "no_default = \<lparr>dv_has_value = False, dv_bool_value = False, dv_int_value = 0,
     dv_float_value = DZero, dv_float_special = fsNone, dv_string_value = [],
     dv_named_expr = [], dv_named_expr_owner_namespace = [], dv_named_expr_owner_container = []\<rparr>"

record ConstDecl =
  c_type :: TypeSpec
  c_name :: string
  c_value :: DefaultValue
  c_decl_index :: nat
  c_enable_if :: EnableIf

definition new_const :: ConstDecl where
  "new_const = \<lparr>c_type = simple_type kBool, c_name = [], c_value = no_default, c_decl_index = 0,
     c_enable_if = no_enable_if\<rparr>"

record EnumValue =
  ev_name :: string
  ev_value :: int
  ev_min_version :: nat
  ev_is_default :: bool
  ev_enable_if :: EnableIf

definition new_enum_value :: EnumValue where
  "new_enum_value = \<lparr>ev_name = [], ev_value = 0, ev_min_version = 0, ev_is_default = False,
     ev_enable_if = no_enable_if\<rparr>"

record EnumDecl =
  e_name :: string
  e_values :: "EnumValue list"
  e_is_extensible :: bool
  e_is_native :: bool
  e_enable_if :: EnableIf

definition new_enum :: EnumDecl where
  "new_enum = \<lparr>e_name = [], e_values = [], e_is_extensible = False, e_is_native = False,
     e_enable_if = no_enable_if\<rparr>"

subsection \<open>Structs, unions and interfaces\<close>

record StructField =
  sf_type :: TypeSpec
  sf_name :: string
  sf_default_value :: DefaultValue
  sf_min_version :: nat
  sf_ordinal :: nat
  sf_has_explicit_ordinal :: bool
  sf_enable_if :: EnableIf

definition new_struct_field :: StructField where
  "new_struct_field = \<lparr>sf_type = simple_type kBool, sf_name = [], sf_default_value = no_default,
     sf_min_version = 0, sf_ordinal = 0, sf_has_explicit_ordinal = False,
     sf_enable_if = no_enable_if\<rparr>"

record StructDecl =
  s_name :: string
  s_fields :: "StructField list"
  s_enums :: "EnumDecl list"
  s_consts :: "ConstDecl list"
  s_decl_index :: nat
  s_version :: nat
  s_owner_container :: string
  s_is_native :: bool
  s_enable_if :: EnableIf

definition new_struct :: StructDecl where
  "new_struct = \<lparr>s_name = [], s_fields = [], s_enums = [], s_consts = [], s_decl_index = 0,
     s_version = 0, s_owner_container = [], s_is_native = False, s_enable_if = no_enable_if\<rparr>"

record UnionField =
  uf_type :: TypeSpec
  uf_name :: string
  uf_tag :: nat
  uf_has_explicit_tag :: bool
  uf_min_version :: nat
  uf_is_default :: bool
  uf_enable_if :: EnableIf

definition new_union_field :: UnionField where
  "new_union_field = \<lparr>uf_type = simple_type kBool, uf_name = [], uf_tag = 0,
     uf_has_explicit_tag = False, uf_min_version = 0, uf_is_default = False,
     uf_enable_if = no_enable_if\<rparr>"

record UnionDecl =
  u_name :: string
  u_fields :: "UnionField list"
  u_decl_index :: nat
  u_version :: nat
  u_is_extensible :: bool
  u_owner_container :: string
  u_enable_if :: EnableIf

definition new_union :: UnionDecl where
  "new_union = \<lparr>u_name = [], u_fields = [], u_decl_index = 0, u_version = 0,
     u_is_extensible = False, u_owner_container = [], u_enable_if = no_enable_if\<rparr>"

record Interface =
  i_name :: string
  i_methods :: "Method list"
  i_enums :: "EnumDecl list"
  i_consts :: "ConstDecl list"
  i_structs :: "StructDecl list"
  i_unions :: "UnionDecl list"
  i_version :: nat
  i_is_extensible :: bool
  i_enable_if :: EnableIf

definition new_interface :: Interface where
  "new_interface = \<lparr>i_name = [], i_methods = [], i_enums = [], i_consts = [], i_structs = [],
     i_unions = [], i_version = 0, i_is_extensible = False, i_enable_if = no_enable_if\<rparr>"

subsection \<open>Modules\<close>

record ImportDecl =
  im_path :: string
  im_line :: nat
  im_resolved_path :: string

record FeatureDecl =
  ft_name :: string
  ft_consts :: "ConstDecl list"
  ft_enable_if :: EnableIf

record Module =
  mod_name :: string
  mod_imports :: "ImportDecl list"
  mod_enums :: "EnumDecl list"
  mod_structs :: "StructDecl list"
  mod_unions :: "UnionDecl list"
  mod_interfaces :: "Interface list"
  mod_consts :: "ConstDecl list"
  mod_features :: "FeatureDecl list"

definition new_module :: Module where
  "new_module = \<lparr>mod_name = [], mod_imports = [], mod_enums = [], mod_structs = [],
     mod_unions = [], mod_interfaces = [], mod_consts = [], mod_features = []\<rparr>"

text \<open>The raw result of \<open>module_stmt? import_stmt*\<close>, and what is visible to a file (\<open>src/parser.h\<close>).\<close>

record FileHeader =
  fh_module_name :: string
  fh_imports :: "ImportDecl list"

record Prelude =
  pr_module :: Module
  pr_owner_by_name :: "string \<rightharpoonup> string"

subsection \<open>Well-formed type specifications\<close>

text \<open>
  Arrays have an element type, maps a key and an element type with a legal key kind, and no
  other kind has either; a fixed size belongs to an array and fits an \<open>int\<close>.
\<close>

definition map_key_kind :: "TypeKind \<Rightarrow> bool" where
  "map_key_kind k \<longleftrightarrow> k \<in> {kString, kEnumRef, kStructRef, kUnionRef, kBool, kInt8, kUint8, kInt16,
     kUint16, kInt32, kUint32, kInt64, kUint64}"

fun type_spec_ok :: "TypeSpec \<Rightarrow> bool" where
  "type_spec_ok (TypeSpec k n e ky nullable ns container sz) \<longleftrightarrow>
     (if k = kArray then ky = None \<and> sz < 2 ^ 31 \<and> (case e of Some el \<Rightarrow> type_spec_ok el | None \<Rightarrow> False)
      else if k = kMap then sz = 0 \<and> (case e of Some el \<Rightarrow> type_spec_ok el | None \<Rightarrow> False) \<and>
        (case ky of Some kt \<Rightarrow> type_spec_ok kt \<and> map_key_kind (ts_kind kt) \<and> \<not> ts_nullable kt
           | None \<Rightarrow> False)
      else e = None \<and> ky = None \<and> sz = 0)"

end
