(* ===== verification/Voodoom_Scan.thy ===== *)
theory Voodoom_Scan
  imports Voodoom_Lexer Voodoom_Ast
begin

text \<open>
  The parts of the IDL parser that work on the token vector before any declaration is
  parsed (\<open>src/parser.cc\<close>): the keyword tables, integer literals, the scan for declared
  names and the scan for the values of the enumerations.
\<close>

text \<open>
  What ends a parse: a \<open>ParseError\<close>, the \<open>std::out_of_range\<close> of a conversion, the signed
  overflow of an \<open>int32_t\<close> (undefined behaviour), and the end of the fuel of a loop of the
  model, which is shown not to occur.
\<close>

datatype PFail = ParseError string nat | StdOutOfRange | IntOverflow | OutOfFuel

definition kScalarKeywords :: "(string \<times> TypeKind) list" where
  "kScalarKeywords =
     [(''bool'', kBool), (''int8'', kInt8), (''uint8'', kUint8), (''int16'', kInt16),
      (''uint16'', kUint16), (''int32'', kInt32), (''uint32'', kUint32), (''int64'', kInt64),
      (''uint64'', kUint64), (''float'', kFloat), (''double'', kDouble)]"

definition kPendingKeywords :: "(string \<times> TypeKind) list" where
  "kPendingKeywords =
     [(''pending_remote'', kPendingRemote), (''pending_receiver'', kPendingReceiver),
      (''pending_associated_remote'', kPendingAssociatedRemote),
      (''pending_associated_receiver'', kPendingAssociatedReceiver)]"

subsection \<open>Integer literals\<close>

text \<open>
  \<open>std::stoll\<close> and \<open>std::stoull\<close> with base 0: a prefix \<open>0x\<close> selects base 16.  The other
  spellings of a token are decimal without a leading zero, see the lexer.
\<close>

definition literal_value :: "string \<Rightarrow> nat" where
  "literal_value s =
     (case s of
        c # x # r \<Rightarrow> if c = CHR ''0'' \<and> (x = CHR ''x'' \<or> x = CHR ''X'') then number_value 16 r
                     else number_value 10 s
      | _ \<Rightarrow> number_value 10 s)"

text \<open>The conversions to a narrower signed type keep the low bits.\<close>

definition to_int64 :: "int \<Rightarrow> int" where
  "to_int64 v = (v + 2 ^ 63) mod 2 ^ 64 - 2 ^ 63"

definition to_int32 :: "int \<Rightarrow> int" where
  "to_int32 v = (v + 2 ^ 31) mod 2 ^ 32 - 2 ^ 31"

definition to_uint32 :: "int \<Rightarrow> nat" where
  "to_uint32 v = nat (v mod 2 ^ 32)"

definition ParseIntLiteral :: "bool \<Rightarrow> string \<Rightarrow> PFail + int" where
  "ParseIntLiteral negative digits =
     (let v = literal_value digits
      in if negative then (if 2 ^ 63 \<le> v then Inl StdOutOfRange else Inr (- int v))
         else if 2 ^ 64 \<le> v then Inl StdOutOfRange else Inr (to_int64 (int v)))"

definition IsLegalConstType :: "TypeKind \<Rightarrow> bool" where
  "IsLegalConstType k \<longleftrightarrow> k \<in> {kBool, kInt8, kUint8, kInt16, kUint16, kInt32, kUint32, kInt64,
     kUint64, kFloat, kDouble, kString, kEnumRef}"

subsection \<open>Declared names\<close>

record DeclaredNames =
  dn_structs :: "string set"
  dn_unions :: "string set"
  dn_enums :: "string set"
  dn_enum_container :: "string \<rightharpoonup> string"
  dn_container_enums :: "string \<rightharpoonup> string set"
  dn_struct_container :: "string \<rightharpoonup> string"
  dn_container_structs :: "string \<rightharpoonup> string set"
  dn_union_container :: "string \<rightharpoonup> string"
  dn_container_unions :: "string \<rightharpoonup> string set"

definition no_names :: DeclaredNames where
  "no_names = \<lparr>dn_structs = {}, dn_unions = {}, dn_enums = {},
     dn_enum_container = Map.empty, dn_container_enums = Map.empty,
     dn_struct_container = Map.empty, dn_container_structs = Map.empty,
     dn_union_container = Map.empty, dn_container_unions = Map.empty\<rparr>"

text \<open>\<open>m[k].insert(v)\<close> on a map of sets.\<close>

definition insert_at :: "string \<Rightarrow> string \<Rightarrow> (string \<rightharpoonup> string set) \<Rightarrow> string \<rightharpoonup> string set" where
  "insert_at k v m = m(k \<mapsto> insert v (case m k of Some s \<Rightarrow> s | None \<Rightarrow> {}))"

definition declare_struct :: "string \<Rightarrow> string \<Rightarrow> DeclaredNames \<Rightarrow> DeclaredNames" where
  "declare_struct owner n d =
     d\<lparr>dn_structs := insert n (dn_structs d), dn_struct_container := (dn_struct_container d)(n \<mapsto> owner),
       dn_container_structs :=
         (if owner = [] then dn_container_structs d else insert_at owner n (dn_container_structs d))\<rparr>"

definition declare_union :: "string \<Rightarrow> string \<Rightarrow> DeclaredNames \<Rightarrow> DeclaredNames" where
  "declare_union owner n d =
     d\<lparr>dn_unions := insert n (dn_unions d), dn_union_container := (dn_union_container d)(n \<mapsto> owner),
       dn_container_unions :=
         (if owner = [] then dn_container_unions d else insert_at owner n (dn_container_unions d))\<rparr>"

definition declare_enum :: "string \<Rightarrow> string \<Rightarrow> DeclaredNames \<Rightarrow> DeclaredNames" where
  "declare_enum owner n d =
     d\<lparr>dn_enums := insert n (dn_enums d), dn_enum_container := (dn_enum_container d)(n \<mapsto> owner),
       dn_container_enums :=
         (if owner = [] then dn_container_enums d else insert_at owner n (dn_container_enums d))\<rparr>"

text \<open>The state of the scan: the pending declaration and the stack of bodies, innermost first.\<close>

record NameScan =
  pending_kind :: string
  pending_name :: string
  container_stack :: "string list"
  scan_names :: DeclaredNames

definition stack_owner :: "NameScan \<Rightarrow> string" where
  "stack_owner s = (case container_stack s of [] \<Rightarrow> [] | c # _ \<Rightarrow> c)"

definition declare_pending :: "string \<Rightarrow> string \<Rightarrow> NameScan \<Rightarrow> NameScan" where
  "declare_pending kind n s =
     s\<lparr>pending_kind := kind, pending_name := n,
       scan_names :=
         (if kind = ''struct'' then declare_struct (stack_owner s) n (scan_names s)
          else if kind = ''union'' then declare_union (stack_owner s) n (scan_names s)
          else if kind = ''enum'' then declare_enum (stack_owner s) n (scan_names s)
          else scan_names s)\<rparr>"

definition open_body :: "NameScan \<Rightarrow> NameScan" where
  "open_body s =
     s\<lparr>container_stack :=
         (if pending_kind s = ''struct'' \<or> pending_kind s = ''interface'' then pending_name s else [])
         # container_stack s,
       pending_kind := [], pending_name := []\<rparr>"

definition close_body :: "NameScan \<Rightarrow> NameScan" where
  "close_body s = s\<lparr>container_stack := tl (container_stack s)\<rparr>"

definition decl_keyword :: "string \<Rightarrow> bool" where
  "decl_keyword w \<longleftrightarrow> w = ''struct'' \<or> w = ''union'' \<or> w = ''enum'' \<or> w = ''interface''"

fun scan_declared :: "Token list \<Rightarrow> NameScan \<Rightarrow> NameScan" where
  "scan_declared [] s = s"
| "scan_declared (t # ts) s =
     scan_declared ts
       (if tk_type t = kName \<and> ts \<noteq> [] \<and> tk_type (hd ts) = kName \<and> decl_keyword (tk_text t)
        then declare_pending (tk_text t) (tk_text (hd ts)) s
        else if tk_type t = kLBrace then open_body s
        else if tk_type t = kRBrace then close_body s
        else s)"

definition CollectDeclaredNames :: "Token list \<Rightarrow> DeclaredNames" where
  "CollectDeclaredNames ts = scan_names (scan_declared ts
     \<lparr>pending_kind = [], pending_name = [], container_stack = [], scan_names = no_names\<rparr>)"

subsection \<open>The values of the enumerations\<close>

definition at_type :: "TokenType \<Rightarrow> Token list \<Rightarrow> bool" where
  "at_type ty ts \<longleftrightarrow> (case ts of [] \<Rightarrow> False | t # _ \<Rightarrow> tk_type t = ty)"

definition value_named :: "string \<Rightarrow> EnumValue list \<Rightarrow> int option" where
  "value_named n vs = map_option ev_value (find (\<lambda>v. ev_name v = n) vs)"

text \<open>What follows the name of a value: its number, an alias, or the next value.\<close>

definition scan_initializer :: "Token list \<Rightarrow> int \<Rightarrow> EnumValue list \<Rightarrow> PFail + int \<times> Token list" where
  "scan_initializer ts next_value prev =
     (if at_type kEquals ts
      then (let negative = at_type kMinus (tl ts);
                r = (if negative then tl (tl ts) else tl ts)
            in if at_type kNumber r \<or> at_type kHexNumber r
               then (case ParseIntLiteral negative (tk_text (hd r)) of
                       Inl e \<Rightarrow> Inl e
                     | Inr v \<Rightarrow> Inr (to_int32 v, tl r))
               else if at_type kName r
               then Inr (case value_named (tk_text (hd r)) prev of Some v \<Rightarrow> v | None \<Rightarrow> 0, tl r)
               else Inr (0, r))
      else Inr (next_value, ts))"

text \<open>\<open>v + 1\<close> on \<open>int32_t\<close>.\<close>

definition next_int32 :: "int \<Rightarrow> PFail + int" where
  "next_int32 v = (if v = 2 ^ 31 - 1 then Inl IntOverflow else Inr (v + 1))"

lemma scan_initializer_length:
  "scan_initializer ts n prev = Inr (v, r) \<Longrightarrow> length r \<le> length ts"
  by (auto simp: scan_initializer_def Let_def split: if_splits sum.splits)

lemma skip_bracket_less:
  "at_type kLBracket ts \<Longrightarrow> length (tl (dropWhile (\<lambda>t. tk_type t \<noteq> kRBracket) ts)) < length ts"
  using length_dropWhile_le [of "\<lambda>t. tk_type t \<noteq> kRBracket" "tl ts"]
  by (cases ts) (auto simp: at_type_def)

function scan_values :: "Token list \<Rightarrow> int \<Rightarrow> EnumValue list \<Rightarrow> PFail + EnumValue list \<times> Token list" where
  "scan_values ts next_value acc =
     (if at_type kLBracket ts
      then scan_values (tl (dropWhile (\<lambda>t. tk_type t \<noteq> kRBracket) ts)) next_value acc
      else if \<not> at_type kName ts then Inr (acc, ts)
      else (case scan_initializer (tl ts) next_value acc of
              Inl e \<Rightarrow> Inl e
            | Inr (v, r) \<Rightarrow>
                (case next_int32 v of
                   Inl e \<Rightarrow> Inl e
                 | Inr next' \<Rightarrow>
                     (let acc' = acc @ [new_enum_value\<lparr>ev_name := tk_text (hd ts), ev_value := v\<rparr>]
                      in if at_type kComma r then scan_values (tl r) next' acc' else Inr (acc', r)))))"
  by pat_completeness auto
termination
proof (relation "measure (\<lambda>(ts, _, _). length ts)", goal_cases)
  case (2 ts n acc)
  then show ?case using skip_bracket_less [of ts] by simp
next
  case (3 ts n acc p v r n' acc')
  from scan_initializer_length [of "tl ts" n acc v r] 3 have "length r \<le> length (tl ts)" by simp
  then show ?case using 3(1,2) by (cases ts) (auto simp: at_type_def)
qed simp

declare scan_values.simps [simp del]

lemma scan_values_length: "scan_values ts n acc = Inr (vs, r) \<Longrightarrow> length r \<le> length ts"
proof (induction ts n acc rule: scan_values.induct)
  case (1 ts n acc)
  have brk: "length (tl (dropWhile (\<lambda>t. tk_type t \<noteq> kRBracket) ts)) \<le> length ts"
    using length_dropWhile_le [of "\<lambda>t. tk_type t \<noteq> kRBracket" ts] by simp
  show ?case
    using 1(3) brk 1(1) 1(2) [OF _ _ _ refl _ refl]
    by (subst (asm) scan_values.simps)
      (fastforce simp: Let_def split: if_splits sum.splits prod.splits dest: scan_initializer_length)
qed

text \<open>One enumeration from its name on: its values and the tokens after them.\<close>

definition scan_enum :: "Token list \<Rightarrow> PFail + EnumDecl \<times> Token list" where
  "scan_enum ts =
     (let e = new_enum\<lparr>e_name := tk_text (hd ts)\<rparr>
      in if at_type kLBrace (tl ts)
         then (case scan_values (tl (tl ts)) 0 [] of
                 Inl f \<Rightarrow> Inl f
               | Inr (vs, r) \<Rightarrow> Inr (e\<lparr>e_values := vs\<rparr>, r))
         else Inr (e, tl ts))"

lemma scan_enum_length: "scan_enum ts = Inr (e, r) \<Longrightarrow> length r \<le> length ts"
proof -
  assume *: "scan_enum ts = Inr (e, r)"
  have "length r \<le> length ts" if "scan_values (tl (tl ts)) 0 [] = Inr (vs, r)" for vs
    using scan_values_length [OF that] by simp
  then show ?thesis using * by (auto simp: scan_enum_def Let_def split: if_splits sum.splits prod.splits)
qed

function CollectEnumValues :: "Token list \<Rightarrow> (string \<rightharpoonup> EnumDecl) \<Rightarrow> PFail + (string \<rightharpoonup> EnumDecl)" where
  "CollectEnumValues (t # u # ts) result =
     (if tk_type t \<noteq> kName \<or> tk_text t \<noteq> ''enum'' \<or> tk_type u \<noteq> kName
      then CollectEnumValues (u # ts) result
      else (case scan_enum (u # ts) of
              Inl f \<Rightarrow> Inl f
            | Inr (e, r) \<Rightarrow> CollectEnumValues r (result(e_name e \<mapsto> e))))"
| "CollectEnumValues [t] result = Inr result"
| "CollectEnumValues [] result = Inr result"
  by pat_completeness auto
termination
  by (relation "measure (\<lambda>(ts, _). length ts)") (auto dest: scan_enum_length)

end
