(* ===== verification/Parse_Monad.thy ===== *)
theory Parse_Monad
  imports Voodoom_Scan
begin

text \<open>
  The state of \<open>Parser::Impl\<close> (\<open>src/parser.cc\<close>), its cursor operations, and the
  state-and-exception monad the parsing functions are written in.  The token vector and the
  position are the list of the tokens from the cursor on; it is never empty, since \<open>Advance\<close>
  stays on the last token.  A loop of the source is \<open>ploop\<close>, which takes its fuel from the
  number of tokens that remain; \<open>runs\<close> collects the rules that show the fuel is enough.
\<close>

subsection \<open>Attributes\<close>

text \<open>\<open>AvNone\<close> is an attribute without a value (\<open>has_value\<close> false).\<close>

datatype AttrValue =
    AvNone | AvInt int | AvFloat Double | AvBool bool | AvString string | AvIdentifier string
  | AvPipeList "string list" | AvAmpList "string list"

record ParsedAttribute =
  pa_name :: string
  pa_value :: AttrValue
  pa_line :: nat

subsection \<open>State and monad\<close>

record PState =
  ps_rest :: "Token list"
  ps_module_name :: string
  ps_declared :: DeclaredNames
  ps_enum_values :: "string \<rightharpoonup> EnumDecl"
  ps_local_names :: "string set"
  ps_local_enum_values :: "string \<rightharpoonup> EnumDecl"
  ps_const_by_name :: "string \<rightharpoonup> ConstDecl"
  ps_next_const_order :: nat
  ps_embed_order :: "string \<rightharpoonup> nat"
  ps_next_embed_order :: nat
  ps_pending_result_unions :: "UnionDecl list"
  ps_owner_by_name :: "string \<rightharpoonup> string"
  ps_container_by_name :: "string \<rightharpoonup> string"
  ps_container_enums :: "string \<rightharpoonup> string set"
  ps_const_container :: "string \<rightharpoonup> string"
  ps_leftover_attrs :: "ParsedAttribute list option"

datatype 'a presult = Ok 'a PState | Fail PFail

type_synonym 'a parser = "PState \<Rightarrow> 'a presult"

definition preturn :: "'a \<Rightarrow> 'a parser" where
  "preturn x st = Ok x st"

definition pbind :: "'a parser \<Rightarrow> ('a \<Rightarrow> 'b parser) \<Rightarrow> 'b parser" where
  "pbind p f st = (case p st of Ok x st' \<Rightarrow> f x st' | Fail e \<Rightarrow> Fail e)"

definition pfail :: "PFail \<Rightarrow> 'a parser" where
  "pfail e st = Fail e"

definition pthrow :: "string \<Rightarrow> nat \<Rightarrow> 'a parser" where
  "pthrow msg line = pfail (ParseError msg line)"

definition pget :: "(PState \<Rightarrow> 'a) \<Rightarrow> 'a parser" where
  "pget f st = Ok (f st) st"

definition pmodify :: "(PState \<Rightarrow> PState) \<Rightarrow> unit parser" where
  "pmodify f st = Ok () (f st)"

definition pif :: "(PState \<Rightarrow> bool) \<Rightarrow> 'a parser \<Rightarrow> 'a parser \<Rightarrow> 'a parser" where
  "pif c p q st = (if c st then p st else q st)"

definition plift :: "PFail + 'a \<Rightarrow> 'a parser" where
  "plift r = (case r of Inl e \<Rightarrow> pfail e | Inr x \<Rightarrow> preturn x)"

primrec pfold :: "('b \<Rightarrow> 'a \<Rightarrow> 'a parser) \<Rightarrow> 'b list \<Rightarrow> 'a \<Rightarrow> 'a parser" where
  "pfold f [] a = preturn a"
| "pfold f (x # xs) a = pbind (f x a) (\<lambda>a'. pfold f xs a')"

primrec pwhile :: "nat \<Rightarrow> ('a \<Rightarrow> PState \<Rightarrow> bool) \<Rightarrow> ('a \<Rightarrow> 'a parser) \<Rightarrow> 'a \<Rightarrow> 'a parser" where
  "pwhile 0 c b a = pfail OutOfFuel"
| "pwhile (Suc n) c b a = pif (c a) (pbind (b a) (\<lambda>a'. pwhile n c b a')) (preturn a)"

definition ploop :: "('a \<Rightarrow> PState \<Rightarrow> bool) \<Rightarrow> ('a \<Rightarrow> 'a parser) \<Rightarrow> 'a \<Rightarrow> 'a parser" where
  "ploop c b a st = pwhile (Suc (length (ps_rest st))) c b a st"

lemma pbind_Ok: "pbind p f st = Ok y st' \<longleftrightarrow> (\<exists>x st1. p st = Ok x st1 \<and> f x st1 = Ok y st')"
  by (simp add: pbind_def split: presult.splits)

subsection \<open>The cursor\<close>

definition Cur :: "PState \<Rightarrow> Token" where
  "Cur st = (case ps_rest st of [] \<Rightarrow> mk_token kEnd [] 0 | t # _ \<Rightarrow> t)"

definition At :: "TokenType \<Rightarrow> PState \<Rightarrow> bool" where
  "At ty st \<longleftrightarrow> tk_type (Cur st) = ty"

definition AtKeyword :: "string \<Rightarrow> PState \<Rightarrow> bool" where
  "AtKeyword kw st \<longleftrightarrow> At kName st \<and> tk_text (Cur st) = kw"

definition Advance :: "unit parser" where
  "Advance = pmodify (\<lambda>st. if 1 < length (ps_rest st) then st\<lparr>ps_rest := tl (ps_rest st)\<rparr> else st)"

definition got :: "Token \<Rightarrow> string" where
  "got t = '', got '' @ quoted (if tk_text t = [] then ''<eof>'' else tk_text t)"

definition Expect :: "TokenType \<Rightarrow> string \<Rightarrow> Token parser" where
  "Expect ty what =
     pif (At ty)
       (pbind (pget Cur) (\<lambda>t.
        pbind Advance (\<lambda>_.
        preturn t)))
       (pbind (pget Cur) (\<lambda>t.
        pthrow (''expected '' @ what @ got t) (tk_line t)))"

definition ExpectKeyword :: "string \<Rightarrow> Token parser" where
  "ExpectKeyword kw =
     pif (AtKeyword kw)
       (pbind (pget Cur) (\<lambda>t.
        pbind Advance (\<lambda>_.
        preturn t)))
       (pbind (pget Cur) (\<lambda>t.
        pthrow (''expected '' @ quoted kw @ got t) (tk_line t)))"

text \<open>\<open>while (At(sep)) { Advance(); Expect(kName, what); }\<close>, the tokens collected.\<close>

definition names_after :: "TokenType \<Rightarrow> string \<Rightarrow> Token list parser" where
  "names_after sep what =
     ploop (\<lambda>_. At sep)
       (\<lambda>segs. (pbind Advance (\<lambda>_.
                        pbind (Expect kName what) (\<lambda>t.
                        preturn (segs @ [t]))))) []"

subsection \<open>Progress\<close>

text \<open>
  From a state whose tokens end in \<open>kEnd\<close>, at most \<open>n\<close> of them left and where \<open>c\<close> holds, the
  parser does not run out of fuel, and if it returns it has consumed at least \<open>k\<close> tokens and
  the end token is still there.
\<close>

definition tokens_ok :: "PState \<Rightarrow> bool" where
  "tokens_ok st \<longleftrightarrow> ps_rest st \<noteq> [] \<and> tk_type (last (ps_rest st)) = kEnd"

definition runs :: "(PState \<Rightarrow> bool) \<Rightarrow> nat \<Rightarrow> nat \<Rightarrow> 'a parser \<Rightarrow> bool" where
  "runs c n k p \<longleftrightarrow>
     (\<forall>st. tokens_ok st \<and> c st \<and> length (ps_rest st) \<le> n \<longrightarrow>
        (case p st of
           Ok x st' \<Rightarrow> tokens_ok st' \<and> length (ps_rest st') + k \<le> length (ps_rest st)
         | Fail e \<Rightarrow> e \<noteq> OutOfFuel))"

abbreviation good :: "nat \<Rightarrow> 'a parser \<Rightarrow> bool" where
  "good n \<equiv> runs (\<lambda>_. True) n 0"

abbreviation eats :: "nat \<Rightarrow> 'a parser \<Rightarrow> bool" where
  "eats n \<equiv> runs (\<lambda>_. True) n (Suc 0)"

named_theorems runs_intros \<open>progress of the parsing functions\<close>

lemma runsI:
  assumes "\<And>st x st'. tokens_ok st \<Longrightarrow> c st \<Longrightarrow> length (ps_rest st) \<le> n \<Longrightarrow> p st = Ok x st' \<Longrightarrow>
      tokens_ok st' \<and> length (ps_rest st') + k \<le> length (ps_rest st)"
    and "\<And>st. tokens_ok st \<Longrightarrow> c st \<Longrightarrow> length (ps_rest st) \<le> n \<Longrightarrow> p st \<noteq> Fail OutOfFuel"
  shows "runs c n k p"
  using assms unfolding runs_def by (auto split: presult.splits)

lemma runsD:
  assumes "runs c n k p" "tokens_ok st" "c st" "length (ps_rest st) \<le> n"
  shows "p st = Ok x st' \<Longrightarrow> tokens_ok st' \<and> length (ps_rest st') + k \<le> length (ps_rest st)"
    and "p st \<noteq> Fail OutOfFuel"
  using assms(1) [unfolded runs_def, rule_format, of st] assms(2-)
  by (simp, cases "p st", simp_all)

lemma runs_mono:
  assumes "runs c n k p" "m \<le> n" "j \<le> k" "\<And>st. d st \<Longrightarrow> c st"
  shows "runs d m j p"
proof (rule runsI)
  fix st x st'
  assume "tokens_ok st" "d st" "length (ps_rest st) \<le> m" "p st = Ok x st'"
  moreover from this assms(2,4) have "c st" "length (ps_rest st) \<le> n" by auto
  ultimately have "tokens_ok st' \<and> length (ps_rest st') + k \<le> length (ps_rest st)"
    by (intro runsD(1) [OF assms(1), of st x st'])
  with assms(3) show "tokens_ok st' \<and> length (ps_rest st') + j \<le> length (ps_rest st)" by simp
next
  fix st
  assume "tokens_ok st" "d st" "length (ps_rest st) \<le> m"
  moreover from this assms(2,4) have "c st" "length (ps_rest st) \<le> n" by auto
  ultimately show "p st \<noteq> Fail OutOfFuel" by (intro runsD(2) [OF assms(1), of st])
qed

lemma good_eats: "runs c n (Suc 0) p \<Longrightarrow> runs c n 0 p"
  by (erule runs_mono) auto

lemma runs_bind_gen:
  assumes p: "runs c n k p" and f: "\<And>x. runs (\<lambda>_. True) (n - k) j (f x)"
  shows "runs c n (k + j) (pbind p f)"
proof (rule runsI)
  fix st y st'
  assume st: "tokens_ok st" "c st" "length (ps_rest st) \<le> n" and "pbind p f st = Ok y st'"
  then obtain x st1 where 1: "p st = Ok x st1" "f x st1 = Ok y st'"
    by (auto simp: pbind_def split: presult.splits)
  have 2: "tokens_ok st1" "length (ps_rest st1) + k \<le> length (ps_rest st)"
    using runsD(1) [OF p st 1(1)] by auto
  then have "length (ps_rest st1) \<le> n - k" using st by simp
  then show "tokens_ok st' \<and> length (ps_rest st') + (k + j) \<le> length (ps_rest st)"
    using runsD(1) [OF f 2(1) _ _ 1(2)] 2 by simp
next
  fix st
  assume st: "tokens_ok st" "c st" "length (ps_rest st) \<le> n"
  show "pbind p f st \<noteq> Fail OutOfFuel"
  proof (cases "p st")
    case (Ok x st1)
    have 2: "tokens_ok st1" "length (ps_rest st1) + k \<le> length (ps_rest st)"
      using runsD(1) [OF p st Ok] by auto
    then have "length (ps_rest st1) \<le> n - k" using st by simp
    then show ?thesis using runsD(2) [OF f 2(1)] Ok by (simp add: pbind_def)
  next
    case (Fail e)
    then show ?thesis using runsD(2) [OF p st] by (simp add: pbind_def)
  qed
qed

text \<open>The second parser may rely on what the first returns.\<close>

lemma runs_bind_post:
  assumes "runs c n 0 p"
    and Q: "\<And>st x st'. tokens_ok st \<Longrightarrow> c st \<Longrightarrow> length (ps_rest st) \<le> n \<Longrightarrow> p st = Ok x st' \<Longrightarrow> Q x"
    and f: "\<And>x. Q x \<Longrightarrow> good n (f x)"
  shows "runs c n 0 (pbind p f)"
proof -
  have "pbind p f st = pbind p (\<lambda>x. if Q x then f x else preturn undefined) st"
    if "tokens_ok st" "c st" "length (ps_rest st) \<le> n" for st
    using Q [OF that] by (cases "p st") (simp_all add: pbind_def)
  moreover have "runs c n 0 (pbind p (\<lambda>x. if Q x then f x else preturn undefined))"
    using runs_bind_gen [OF assms(1), of 0 "\<lambda>x. if Q x then f x else preturn undefined"] f
    by (simp add: runs_def preturn_def)
  ultimately show ?thesis unfolding runs_def by simp
qed

lemma runs_bind_good: "runs c n 0 p \<Longrightarrow> (\<And>x. good n (f x)) \<Longrightarrow> runs c n 0 (pbind p f)"
  using runs_bind_gen [of c n 0 p 0 f] by simp

lemma runs_bind_eats1: "runs c n (Suc 0) p \<Longrightarrow> (\<And>x. good (n - Suc 0) (f x)) \<Longrightarrow> runs c n (Suc 0) (pbind p f)"
  using runs_bind_gen [of c n "Suc 0" p 0 f] by simp

lemma runs_bind_eats2: "runs c n 0 p \<Longrightarrow> (\<And>x. eats n (f x)) \<Longrightarrow> runs c n (Suc 0) (pbind p f)"
  using runs_bind_gen [of c n 0 p "Suc 0" f] by simp

text \<open>Reading the state keeps what is known of it.\<close>

lemma runs_bind_get: "(\<And>x. runs c n k (f x)) \<Longrightarrow> runs c n k (pbind (pget g) f)"
  by (simp add: runs_def pbind_def pget_def)

lemma runs_return [runs_intros]: "runs c n 0 (preturn x)"
  by (rule runsI) (auto simp: preturn_def)

lemma runs_get [runs_intros]: "runs c n 0 (pget f)"
  by (rule runsI) (auto simp: pget_def)

lemma runs_modify [runs_intros]: "(\<And>st. ps_rest (f st) = ps_rest st) \<Longrightarrow> runs c n 0 (pmodify f)"
  by (rule runsI) (auto simp: pmodify_def tokens_ok_def)

lemma runs_throw [runs_intros]: "runs c n k (pthrow m l)"
  by (rule runsI) (auto simp: pthrow_def pfail_def)

lemma runs_fail [runs_intros]: "e \<noteq> OutOfFuel \<Longrightarrow> runs c n k (pfail e)"
  by (rule runsI) (auto simp: pfail_def)

lemma runs_lift [runs_intros]: "(\<And>e. r = Inl e \<Longrightarrow> e \<noteq> OutOfFuel) \<Longrightarrow> runs c n 0 (plift r)"
  by (rule runsI) (auto simp: plift_def pfail_def preturn_def split: sum.splits)

lemma runs_if [runs_intros]:
  "runs (\<lambda>st. c st \<and> d st) n k p \<Longrightarrow> runs (\<lambda>st. c st \<and> \<not> d st) n k q \<Longrightarrow> runs c n k (pif d p q)"
  unfolding runs_def pif_def by auto

lemma runs_weaken: "runs (\<lambda>_. True) n k p \<Longrightarrow> runs c n k p"
  by (erule runs_mono) auto

lemma runs_HOL_if [runs_intros]:
  "(b \<Longrightarrow> runs c n k p) \<Longrightarrow> (\<not> b \<Longrightarrow> runs c n k q) \<Longrightarrow> runs c n k (if b then p else q)"
  by simp

lemma runs_Let [runs_intros]: "(\<And>x. x = e \<Longrightarrow> runs c n k (f x)) \<Longrightarrow> runs c n k (Let e f)"
  by simp

lemma runs_case_prod [runs_intros]: "(\<And>a b. x = (a, b) \<Longrightarrow> runs c n k (f a b)) \<Longrightarrow> runs c n k (case x of (a, b) \<Rightarrow> f a b)"
  by (cases x) simp

lemma runs_case_option [runs_intros]:
  "(x = None \<Longrightarrow> runs c n k p) \<Longrightarrow> (\<And>a. x = Some a \<Longrightarrow> runs c n k (f a)) \<Longrightarrow>
   runs c n k (case x of None \<Rightarrow> p | Some a \<Rightarrow> f a)"
  by (cases x) simp_all

lemma runs_fold [runs_intros]: "(\<And>x a. good n (f x a)) \<Longrightarrow> runs c n 0 (pfold f xs a)"
  by (rule runs_weaken, induction xs arbitrary: a) (auto intro: runs_bind_good runs_intros)

lemma tokens_ok_not_end:
  assumes "tokens_ok st" "At ty st" "ty \<noteq> kEnd"
  obtains t u us where "ps_rest st = t # u # us" "tk_type (last (u # us)) = kEnd"
  using assms by (cases "ps_rest st"; cases "tl (ps_rest st)")
    (auto simp: tokens_ok_def At_def Cur_def split: if_splits)

lemma runs_Advance_good [runs_intros]: "runs c n 0 Advance"
proof (rule runsI)
  fix st x st'
  assume "tokens_ok st" "Advance st = Ok x st'"
  then show "tokens_ok st' \<and> length (ps_rest st') + 0 \<le> length (ps_rest st)"
    by (cases "ps_rest st") (auto simp: Advance_def pmodify_def tokens_ok_def split: if_splits)
qed (simp add: Advance_def pmodify_def)

lemma runs_Advance_eats:
  assumes "\<And>st. c st \<Longrightarrow> \<not> At kEnd st"
  shows "runs c n (Suc 0) Advance"
proof (rule runsI)
  fix st x st'
  assume st: "tokens_ok st" "c st" "Advance st = Ok x st'"
  have "At (tk_type (Cur st)) st" "tk_type (Cur st) \<noteq> kEnd"
    using assms [OF st(2)] by (auto simp: At_def)
  with st(1) obtain t u us where "ps_rest st = t # u # us" "tk_type (last (u # us)) = kEnd"
    by (rule tokens_ok_not_end)
  then show "tokens_ok st' \<and> length (ps_rest st') + Suc 0 \<le> length (ps_rest st)"
    using st(3) by (auto simp: Advance_def pmodify_def tokens_ok_def)
qed (simp add: Advance_def pmodify_def)

lemma runs_Expect:
  assumes "ty \<noteq> kEnd"
  shows "runs c n (Suc 0) (Expect ty what)"
proof -
  have "runs (\<lambda>st. True \<and> At ty st) n (Suc 0) (pbind (pget Cur) (\<lambda>t. pbind Advance (\<lambda>_. preturn t)))"
    using assms
    by (intro runs_bind_get runs_bind_eats1 runs_Advance_eats runs_intros) (auto simp: At_def)
  moreover have "runs (\<lambda>st. True \<and> \<not> At ty st) n (Suc 0)
      (pbind (pget Cur) (\<lambda>t. pthrow (''expected '' @ what @ got t) (tk_line t)))"
    by (intro runs_bind_eats2 runs_intros)
  ultimately show ?thesis unfolding Expect_def by (intro runs_weaken [OF runs_if])
qed

lemma runs_Expect0 [runs_intros]: "ty \<noteq> kEnd \<Longrightarrow> runs c n 0 (Expect ty what)"
  by (rule runs_mono [OF runs_Expect]) auto

lemma runs_ExpectKeyword: "runs c n (Suc 0) (ExpectKeyword kw)"
proof -
  have "runs (\<lambda>st. True \<and> AtKeyword kw st) n (Suc 0) (pbind (pget Cur) (\<lambda>t. pbind Advance (\<lambda>_. preturn t)))"
    by (intro runs_bind_get runs_bind_eats1 runs_Advance_eats runs_intros)
      (auto simp: AtKeyword_def At_def)
  moreover have "runs (\<lambda>st. True \<and> \<not> AtKeyword kw st) n (Suc 0)
      (pbind (pget Cur) (\<lambda>t. pthrow (''expected '' @ quoted kw @ got t) (tk_line t)))"
    by (intro runs_bind_eats2 runs_intros)
  ultimately show ?thesis unfolding ExpectKeyword_def by (intro runs_weaken [OF runs_if])
qed

lemma runs_ExpectKeyword0 [runs_intros]: "runs c n 0 (ExpectKeyword kw)"
  by (rule runs_mono [OF runs_ExpectKeyword]) auto

lemma runs_pwhile:
  assumes "\<And>a. runs (c a) n (Suc 0) (b a)"
  shows "runs (\<lambda>st. length (ps_rest st) < m) n 0 (pwhile m c b a)"
proof (induction m arbitrary: a)
  case (Suc m)
  show ?case
  proof (rule runsI)
    fix st x st'
    assume st: "tokens_ok st" "length (ps_rest st) < Suc m" "length (ps_rest st) \<le> n"
      and w: "pwhile (Suc m) c b a st = Ok x st'"
    show "tokens_ok st' \<and> length (ps_rest st') + 0 \<le> length (ps_rest st)"
    proof (cases "c a st")
      case True
      with w obtain a1 st1 where 1: "b a st = Ok a1 st1" "pwhile m c b a1 st1 = Ok x st'"
        by (auto simp: pif_def pbind_def split: presult.splits)
      have 2: "tokens_ok st1" "length (ps_rest st1) + Suc 0 \<le> length (ps_rest st)"
        using runsD(1) [OF assms st(1) True st(3) 1(1)] by auto
      then show ?thesis using runsD(1) [OF Suc 2(1) _ _ 1(2)] st by simp
    next
      case False
      with w st show ?thesis by (simp add: pif_def preturn_def)
    qed
  next
    fix st
    assume st: "tokens_ok st" "length (ps_rest st) < Suc m" "length (ps_rest st) \<le> n"
    show "pwhile (Suc m) c b a st \<noteq> Fail OutOfFuel"
    proof (cases "c a st")
      case True
      show ?thesis
      proof (cases "b a st")
        case (Ok a1 st1)
        have 2: "tokens_ok st1" "length (ps_rest st1) + Suc 0 \<le> length (ps_rest st)"
          using runsD(1) [OF assms st(1) True st(3) Ok] by auto
        then show ?thesis using runsD(2) [OF Suc 2(1)] st True Ok by (simp add: pif_def pbind_def)
      next
        case (Fail e)
        then show ?thesis using runsD(2) [OF assms st(1) True st(3)] True
          by (simp add: pif_def pbind_def)
      qed
    next
      case False
      then show ?thesis by (simp add: pif_def preturn_def)
    qed
  qed
qed (auto simp: runs_def)

lemma runs_ploop [runs_intros]: "(\<And>a. runs (d a) n (Suc 0) (b a)) \<Longrightarrow> runs c n 0 (ploop d b a)"
  using runs_pwhile [of d n b] unfolding runs_def ploop_def by fastforce

text \<open>A loop whose body adds at most one to a size ends with no more than the tokens it consumed.\<close>

lemma ploop_size:
  fixes size :: "'a \<Rightarrow> nat"
  assumes b: "\<And>a. runs (d a) n (Suc 0) (b a)"
    and size: "\<And>a st a' st'. b a st = Ok a' st' \<Longrightarrow> size a' \<le> Suc (size a)"
    and st: "tokens_ok st" "length (ps_rest st) \<le> n" "ploop d b a st = Ok a' st'"
  shows "size a' + length (ps_rest st') \<le> size a + length (ps_rest st)"
proof -
  have "pwhile m d b a st = Ok a' st' \<Longrightarrow> tokens_ok st \<Longrightarrow> length (ps_rest st) \<le> n \<Longrightarrow>
      size a' + length (ps_rest st') \<le> size a + length (ps_rest st)" for m
  proof (induction m arbitrary: a st)
    case (Suc m)
    show ?case
    proof (cases "d a st")
      case True
      with Suc(2) obtain a1 st1 where 1: "b a st = Ok a1 st1" "pwhile m d b a1 st1 = Ok a' st'"
        by (auto simp: pif_def pbind_def split: presult.splits)
      have 2: "tokens_ok st1" "length (ps_rest st1) + Suc 0 \<le> length (ps_rest st)"
        using runsD(1) [OF b Suc(3) True Suc(4) 1(1)] by auto
      have "size a' + length (ps_rest st') \<le> size a1 + length (ps_rest st1)"
        using Suc(1) [OF 1(2) 2(1)] 2(2) Suc(4) by simp
      with size [OF 1(1)] 2(2) show ?thesis by simp
    next
      case False
      with Suc(2) show ?thesis by (simp add: pif_def preturn_def)
    qed
  qed (simp add: pfail_def)
  with st show ?thesis unfolding ploop_def by blast
qed

lemma runs_names_after [runs_intros]: "sep \<noteq> kEnd \<Longrightarrow> runs c n 0 (names_after sep what)"
  unfolding names_after_def
  by (intro runs_intros runs_bind_eats2 runs_bind_eats1 [OF runs_Expect]) simp_all

subsection \<open>Results\<close>

text \<open>
  What a parser returns satisfies \<open>Q\<close>, and the predicate \<open>J\<close> on the unions made for \<open>result\<close>
  responses is kept.
\<close>

definition returns :: "(UnionDecl list \<Rightarrow> bool) \<Rightarrow> 'a parser \<Rightarrow> ('a \<Rightarrow> bool) \<Rightarrow> bool" where
  "returns J p Q \<longleftrightarrow> (\<forall>st x st'. J (ps_pending_result_unions st) \<longrightarrow> p st = Ok x st' \<longrightarrow>
     J (ps_pending_result_unions st') \<and> Q x)"

abbreviation safe :: "(UnionDecl list \<Rightarrow> bool) \<Rightarrow> 'a parser \<Rightarrow> bool" where
  "safe J p \<equiv> returns J p (\<lambda>_. True)"

named_theorems returns_intros \<open>what the parsing functions return\<close>

lemma returnsD: "returns (\<lambda>_. True) p Q \<Longrightarrow> p st = Ok x st' \<Longrightarrow> Q x"
  by (auto simp: returns_def)

lemma returns_bind:
  assumes "returns J p R" "\<And>x. R x \<Longrightarrow> returns J (f x) Q"
  shows "returns J (pbind p f) Q"
  unfolding returns_def
proof (intro allI impI)
  fix st y st'
  assume J: "J (ps_pending_result_unions st)" and "pbind p f st = Ok y st'"
  then obtain x st1 where 1: "p st = Ok x st1" "f x st1 = Ok y st'"
    by (auto simp: pbind_def split: presult.splits)
  with assms(1) J have "J (ps_pending_result_unions st1)" "R x" unfolding returns_def by blast+
  with assms(2) 1(2) show "J (ps_pending_result_unions st') \<and> Q y" unfolding returns_def by blast
qed

lemma returns_weaken: "returns J p R \<Longrightarrow> (\<And>x. R x \<Longrightarrow> Q x) \<Longrightarrow> returns J p Q"
  unfolding returns_def by blast

lemma returns_safe: "returns J p R \<Longrightarrow> safe J p"
  by (erule returns_weaken) simp

lemma returns_bind_any: "safe J p \<Longrightarrow> (\<And>x. returns J (f x) Q) \<Longrightarrow> returns J (pbind p f) Q"
  by (erule returns_bind)

lemma returns_return [returns_intros]: "Q x \<Longrightarrow> returns J (preturn x) Q"
  by (simp add: returns_def preturn_def)

lemma returns_get [returns_intros]: "(\<And>st. Q (f st)) \<Longrightarrow> returns J (pget f) Q"
  by (simp add: returns_def pget_def)

lemma returns_modify [returns_intros]:
  "(\<And>st. ps_pending_result_unions (f st) = ps_pending_result_unions st) \<Longrightarrow> Q () \<Longrightarrow> returns J (pmodify f) Q"
  by (simp add: returns_def pmodify_def)

lemma returns_fail [returns_intros]: "returns J (pfail e) Q"
  by (simp add: returns_def pfail_def)

lemma returns_throw [returns_intros]: "returns J (pthrow m l) Q"
  by (simp add: pthrow_def returns_fail)

lemma returns_lift: "(\<And>x. r = Inr x \<Longrightarrow> Q x) \<Longrightarrow> returns J (plift r) Q"
  by (auto simp: plift_def returns_def pfail_def preturn_def split: sum.splits)

lemma safe_lift [returns_intros]: "safe J (plift r)"
  by (rule returns_lift) simp

lemma returns_if [returns_intros]: "returns J p Q \<Longrightarrow> returns J q Q \<Longrightarrow> returns J (pif c p q) Q"
  unfolding returns_def pif_def by (intro allI impI) (metis (full_types))

lemma returns_HOL_if [returns_intros]:
  "(b \<Longrightarrow> returns J p Q) \<Longrightarrow> (\<not> b \<Longrightarrow> returns J q Q) \<Longrightarrow> returns J (if b then p else q) Q"
  by simp

lemma returns_Let [returns_intros]: "(\<And>x. x = e \<Longrightarrow> returns J (f x) Q) \<Longrightarrow> returns J (Let e f) Q"
  by simp

lemma returns_case_prod [returns_intros]:
  "(\<And>a b. x = (a, b) \<Longrightarrow> returns J (f a b) Q) \<Longrightarrow> returns J (case x of (a, b) \<Rightarrow> f a b) Q"
  by (cases x) simp

lemma returns_case_option [returns_intros]:
  "(x = None \<Longrightarrow> returns J p Q) \<Longrightarrow> (\<And>a. x = Some a \<Longrightarrow> returns J (f a) Q) \<Longrightarrow>
   returns J (case x of None \<Rightarrow> p | Some a \<Rightarrow> f a) Q"
  by (cases x) simp_all

lemma returns_fold:
  assumes "\<And>x a. x \<in> set xs \<Longrightarrow> I a \<Longrightarrow> returns J (f x a) I" "I a"
  shows "returns J (pfold f xs a) I"
  using assms
proof (induction xs arbitrary: a)
  case (Cons x xs)
  show ?case
    unfolding pfold.simps by (rule returns_bind [where R = I]) (use Cons in auto)
qed (simp add: returns_return)

lemma safe_fold [returns_intros]: "(\<And>x a. safe J (f x a)) \<Longrightarrow> safe J (pfold f xs a)"
  by (rule returns_fold) auto

text \<open>The invariant of a loop.\<close>

lemma returns_ploop:
  assumes "\<And>a. I a \<Longrightarrow> returns J (b a) I" "I a"
  shows "returns J (ploop c b a) I"
proof -
  have "returns J (pwhile n c b a) I" for n
    using assms(2)
  proof (induction n arbitrary: a)
    case (Suc n)
    show ?case
      unfolding pwhile.simps
      by (intro returns_if returns_bind [OF assms(1)] returns_return Suc)
  qed (simp add: returns_fail)
  then show ?thesis unfolding returns_def ploop_def by blast
qed

lemma safe_ploop [returns_intros]: "(\<And>a. safe J (b a)) \<Longrightarrow> safe J (ploop c b a)"
  by (rule returns_ploop) auto

lemma safe_Advance [returns_intros]: "safe J Advance"
  unfolding Advance_def by (intro returns_intros) simp_all

lemma safe_Expect [returns_intros]: "safe J (Expect ty what)"
  unfolding Expect_def by (intro returns_intros returns_bind_any) simp_all

lemma safe_ExpectKeyword [returns_intros]: "safe J (ExpectKeyword kw)"
  unfolding ExpectKeyword_def by (intro returns_intros returns_bind_any) simp_all

lemma safe_names_after [returns_intros]: "safe J (names_after sep what)"
  unfolding names_after_def by (intro returns_intros returns_bind_any) simp_all

end
