(* ===== verification/Voodoom_Types.thy ===== *)
theory Voodoom_Types
  imports Parse_Monad
begin

text \<open>
  Numbers and type specifications (\<open>src/parser.cc\<close>, \<open>ParseSignedNumber\<close> and
  \<open>ParseFloatValue\<close>, and from \<open>ParseTypeSpec\<close> to \<open>CheckValidMapKeyType\<close>), with the lookups
  of names in what this file and its imports declare.
\<close>

subsection \<open>Numbers\<close>

definition ParseSignedNumber :: "(bool \<times> string) parser" where
  "ParseSignedNumber =
     (pbind (pif (At kMinus) (pbind Advance (\<lambda>_.
                                     preturn True)) (preturn False)) (\<lambda>negative.
      pif (At kHexNumber)
          (pbind (pget Cur) (\<lambda>num.
           pbind Advance (\<lambda>_.
           preturn (negative, tk_text num))))
          (pbind (Expect kNumber ''number'') (\<lambda>num.
           preturn (negative, tk_text num)))))"

text \<open>
  \<open>std::stod\<close> on the spelling of a float token: the digits \<open>m\<close> without the point and the power
  of ten \<open>e\<close>.  It throws \<open>std::out_of_range\<close> when the value rounds beyond the largest double,
  and when it is below the normal range and not a double.
\<close>

definition exponent_of :: "string \<Rightarrow> int" where
  "exponent_of s =
     (case s of
        [] \<Rightarrow> 0
      | _ # x # r \<Rightarrow> if x = CHR ''-'' then - int (number_value 10 r)
                     else if x = CHR ''+'' then int (number_value 10 r)
                     else int (number_value 10 (x # r))
      | _ \<Rightarrow> 0)"

definition float_parts :: "string \<Rightarrow> nat \<times> int" where
  "float_parts s =
     (let whole = takeWhile isdigit s; r = dropWhile isdigit s;
          (frac, r') = scan_fraction r
      in (number_value 10 (whole @ tl frac), exponent_of r' - int (length (tl frac))))"

definition stod_in_range :: "string \<Rightarrow> bool" where
  "stod_in_range s =
     (let (m, e) = float_parts s;
          num = (if 0 \<le> e then m * 10 ^ nat e else m);
          den = (if 0 \<le> e then 1 else 10 ^ nat (- e))
      in num < (2 ^ 1024 - 2 ^ 970) * den \<and>
         (0 < num \<and> num * 2 ^ 1022 < den \<longrightarrow> den dvd num * 2 ^ 1074))"

definition ParseFloatValue :: "Double parser" where
  "ParseFloatValue =
     (pbind (pif (At kMinus) (pbind Advance (\<lambda>_.
                                     preturn True)) (preturn False)) (\<lambda>negative.
      pbind (pget Cur) (\<lambda>t.
      pbind (pif (At kFloatNumber)
               (if stod_in_range (tk_text t) then (pbind Advance (\<lambda>_.
                                                   preturn (DLiteral (tk_text t))))
                else pfail StdOutOfRange)
               (pif (\<lambda>st. At kHexNumber st \<or> At kNumber st)
                  (if literal_value (tk_text t) < 2 ^ 63
                   then (pbind Advance (\<lambda>_.
                         preturn (DInteger (int (literal_value (tk_text t))))))
                   else pfail StdOutOfRange)
                  (pthrow ''expected a float/double literal'' (tk_line t)))) (\<lambda>v.
      preturn (if negative then DNeg v else v)))))"

text \<open>\<open>static_cast<uint32_t>(std::stoul(text))\<close> and \<open>std::stoi(text)\<close>.\<close>

definition stoul32 :: "string \<Rightarrow> nat parser" where
  "stoul32 s = (if number_value 10 s < 2 ^ 64 then preturn (u32 (number_value 10 s)) else pfail StdOutOfRange)"

definition stoi :: "string \<Rightarrow> nat parser" where
  "stoi s = (if number_value 10 s < 2 ^ 31 then preturn (number_value 10 s) else pfail StdOutOfRange)"

subsection \<open>Looking up names\<close>

definition lookup_name :: "(string \<rightharpoonup> string) \<Rightarrow> string \<Rightarrow> string" where
  "lookup_name m n = (case m n of Some s \<Rightarrow> s | None \<Rightarrow> [])"

definition OwnerOf :: "PState \<Rightarrow> string \<Rightarrow> string" where
  "OwnerOf st n = (if n \<in> ps_local_names st then [] else lookup_name (ps_owner_by_name st) n)"

definition OwnerForQualified :: "PState \<Rightarrow> string \<Rightarrow> string \<Rightarrow> string" where
  "OwnerForQualified st qual n =
     (if qual = [] \<or> qual = ps_module_name st then OwnerOf st n else qual)"

definition EnumForDefault :: "PState \<Rightarrow> TypeSpec \<Rightarrow> EnumDecl option" where
  "EnumForDefault st t =
     (if ts_owner_namespace t = [] \<and> ps_local_enum_values st (ts_name t) \<noteq> None
      then ps_local_enum_values st (ts_name t) else ps_enum_values st (ts_name t))"

definition ContainerOf :: "PState \<Rightarrow> string \<Rightarrow> string" where
  "ContainerOf st n =
     (case dn_enum_container (ps_declared st) n of
        Some c \<Rightarrow> c | None \<Rightarrow> lookup_name (ps_container_by_name st) n)"

definition ContainerEnums :: "PState \<Rightarrow> string \<Rightarrow> string set option" where
  "ContainerEnums st c =
     (case dn_container_enums (ps_declared st) c of Some s \<Rightarrow> Some s | None \<Rightarrow> ps_container_enums st c)"

definition StructContainerOf :: "PState \<Rightarrow> string \<Rightarrow> string" where
  "StructContainerOf st n = lookup_name (dn_struct_container (ps_declared st)) n"

definition UnionContainerOf :: "PState \<Rightarrow> string \<Rightarrow> string" where
  "UnionContainerOf st n = lookup_name (dn_union_container (ps_declared st)) n"

definition ContainerStructs :: "PState \<Rightarrow> string \<Rightarrow> string set option" where
  "ContainerStructs st c = dn_container_structs (ps_declared st) c"

definition ContainerUnions :: "PState \<Rightarrow> string \<Rightarrow> string set option" where
  "ContainerUnions st c = dn_container_unions (ps_declared st) c"

text \<open>\<open>nested && nested->count(name)\<close>.\<close>

definition nested_in :: "string set option \<Rightarrow> string \<Rightarrow> bool" where
  "nested_in s n \<longleftrightarrow> (case s of Some names \<Rightarrow> n \<in> names | None \<Rightarrow> False)"

text \<open>Segments joined by dots.\<close>

fun join_dots :: "string list \<Rightarrow> string" where
  "join_dots [] = []"
| "join_dots [s] = s"
| "join_dots (s # t # ss) = s @ ''.'' @ join_dots (t # ss)"

definition TakeQualifiedName :: "Token \<Rightarrow> (string \<times> string) parser" where
  "TakeQualifiedName first =
     (pbind (names_after kDot (''name after '' @ quoted ''.'')) (\<lambda>more.
      let segs = tk_text first # map tk_text more in
      preturn (join_dots (butlast segs), last segs)))"

subsection \<open>Checks on types\<close>

definition ExternalType :: "PState \<Rightarrow> string \<Rightarrow> string \<Rightarrow> TypeSpec" where
  "ExternalType st qual n =
     (let ns = (if n \<in> ps_local_names st then [] else qual)
      in if n \<in> dn_structs (ps_declared st) then named_type kStructRef n ns (StructContainerOf st n)
         else if n \<in> dn_unions (ps_declared st) then named_type kUnionRef n ns (UnionContainerOf st n)
         else if n \<in> dn_enums (ps_declared st) then named_type kEnumRef n ns (ContainerOf st n)
         else named_type kStructRef n qual [])"

definition CheckNullableAllowed :: "TypeSpec \<Rightarrow> unit parser" where
  "CheckNullableAllowed t =
     (if ts_kind t \<in> {kEnumRef, kBool, kInt8, kUint8, kInt16, kUint16, kInt32, kUint32, kInt64, kUint64,
        kFloat, kDouble, kString, kArray, kMap, kStructRef, kUnionRef, kPendingRemote, kPendingReceiver,
        kPendingAssociatedRemote, kPendingAssociatedReceiver, kHandle, kHandleMessagePipe,
        kHandleDataPipeConsumer, kHandleDataPipeProducer, kHandleSharedBuffer, kHandlePlatform}
      then preturn ()
      else (pbind (pget Cur) (\<lambda>t.
            pthrow (quoted ''?'' @ '' is only allowed on string/array/map/struct/union/enum/''
                @ ''scalar/pending_*/handle types'') (tk_line t))))"

definition CheckValidMapKeyType :: "TypeSpec \<Rightarrow> unit parser" where
  "CheckValidMapKeyType key =
     (pbind (pget Cur) (\<lambda>t.
      (if ts_nullable key then pthrow ''map key type cannot be nullable'' (tk_line t)
         else if map_key_kind (ts_kind key) then preturn ()
         else pthrow (''map key type must be bool/integer/string/enum/struct/union ''
           @ ''(never float/double/array/map/pending_*)'') (tk_line t))))"

subsection \<open>Type specifications\<close>

definition parse_array :: "TypeSpec parser \<Rightarrow> TypeSpec parser" where
  "parse_array type_spec =
     (pbind (Expect kLAngle (quoted ''<'')) (\<lambda>_.
      pbind type_spec (\<lambda>element.
      pbind (pif (At kComma)
                  (pbind Advance (\<lambda>_.
                   pbind (Expect kNumber ''fixed array size'') (\<lambda>size_tok.
                   pbind (stoi (tk_text size_tok)) (\<lambda>n.
                   (if n = 0 then pthrow ''fixed array size must be a positive integer'' (tk_line size_tok)
                      else preturn n)))))
                  (preturn 0)) (\<lambda>size.
      pbind (Expect kRAngle (quoted ''>'')) (\<lambda>_.
      preturn (TypeSpec kArray [] (Some element) None False [] [] size))))))"

definition parse_map :: "TypeSpec parser \<Rightarrow> TypeSpec parser" where
  "parse_map type_spec =
     (pbind (Expect kLAngle (quoted ''<'')) (\<lambda>_.
      pbind type_spec (\<lambda>key.
      pbind (CheckValidMapKeyType key) (\<lambda>_.
      pbind (Expect kComma (quoted '','' @ '' between map key and value types'')) (\<lambda>_.
      pbind type_spec (\<lambda>element.
      pbind (Expect kRAngle (quoted ''>'')) (\<lambda>_.
      preturn (TypeSpec kMap [] (Some element) (Some key) False [] [] 0))))))))"

definition handle_subtypes :: "(string \<times> TypeKind) list" where
  "handle_subtypes =
     [(''message_pipe'', kHandleMessagePipe), (''data_pipe_consumer'', kHandleDataPipeConsumer),
      (''data_pipe_producer'', kHandleDataPipeProducer), (''shared_buffer'', kHandleSharedBuffer),
      (''platform'', kHandlePlatform), (''mach_send'', kHandlePlatform),
      (''mach_receive'', kHandlePlatform), (''mach_port'', kHandlePlatform)]"

definition parse_handle :: "TypeSpec parser" where
  "parse_handle =
     pif (At kLAngle)
       (pbind Advance (\<lambda>_.
        pbind (Expect kName ''handle subtype'') (\<lambda>subtype_tok.
        pbind (Expect kRAngle (quoted ''>'')) (\<lambda>_.
        (case map_of handle_subtypes (tk_text subtype_tok) of
             Some k \<Rightarrow> preturn (simple_type k)
           | None \<Rightarrow> pthrow (''unsupported handle subtype '' @ quoted (tk_text subtype_tok)
               @ '' -- this compiler supports '' @ quoted ''message_pipe'' @ '', ''
               @ quoted ''data_pipe_consumer'' @ '', '' @ quoted ''data_pipe_producer'' @ '', ''
               @ quoted ''shared_buffer'' @ '', '' @ quoted ''platform'' @ '', and '' @ quoted ''mach_send''
               @ ''/'' @ quoted ''mach_receive'' @ ''/'' @ quoted ''mach_port'' @ '' (as handle<platform>)'')
               (tk_line subtype_tok))))))
       (preturn (simple_type kHandle))"

definition parse_associated :: "TypeSpec parser" where
  "parse_associated =
     (pbind (Expect kName ''associated interface name'') (\<lambda>iface_tok.
      pbind (TakeQualifiedName iface_tok) (\<lambda>(qual, iface).
      pbind (pif (At kAmpersand) (pbind Advance (\<lambda>_.
                                     preturn True)) (preturn False)) (\<lambda>recv.
      pbind (pget (\<lambda>st. OwnerForQualified st qual iface)) (\<lambda>owner.
      preturn (named_type (if recv then kPendingAssociatedReceiver else kPendingAssociatedRemote)
          iface owner []))))))"

definition parse_pending :: "TypeKind \<Rightarrow> TypeSpec parser" where
  "parse_pending k =
     (pbind (Expect kLAngle (quoted ''<'')) (\<lambda>_.
      pbind (Expect kName ''interface name'') (\<lambda>iface_tok.
      pbind (TakeQualifiedName iface_tok) (\<lambda>(qual, iface).
      pbind (Expect kRAngle (quoted ''>'')) (\<lambda>_.
      pbind (pget (\<lambda>st. OwnerForQualified st qual iface)) (\<lambda>owner.
      preturn (named_type k iface owner [])))))))"

text \<open>A dotted name: a type of the module it names, a member of a container, or an external type.\<close>

definition resolve_dotted :: "PState \<Rightarrow> string \<Rightarrow> Token list \<Rightarrow> TypeSpec" where
  "resolve_dotted st n segs =
     (let l = tk_text (last segs);
          qualifier = join_dots (n # map tk_text (butlast segs));
          d = ps_declared st;
          owner_ok = (ps_owner_by_name st l = Some qualifier);
          self_ok = (ps_module_name st \<noteq> [] \<and> qualifier = ps_module_name st \<and>
            (ps_owner_by_name st l = None \<or> ps_owner_by_name st l = Some []));
          ns = (if owner_ok then qualifier else [])
      in if (owner_ok \<or> self_ok) \<and> l \<in> dn_structs d
         then named_type kStructRef l ns (StructContainerOf st l)
         else if (owner_ok \<or> self_ok) \<and> l \<in> dn_unions d
         then named_type kUnionRef l ns (UnionContainerOf st l)
         else if (owner_ok \<or> self_ok) \<and> l \<in> dn_enums d
         then named_type kEnumRef l ns (ContainerOf st l)
         else if length segs = 1 \<and> nested_in (ContainerEnums st n) l
         then named_type kEnumRef l (OwnerOf st n) n
         else if length segs = 1 \<and> nested_in (ContainerStructs st n) l
         then named_type kStructRef l (OwnerOf st n) n
         else if length segs = 1 \<and> nested_in (ContainerUnions st n) l
         then named_type kUnionRef l (OwnerOf st n) n
         else ExternalType st qualifier l)"

definition resolve_bare :: "PState \<Rightarrow> string \<Rightarrow> TypeSpec" where
  "resolve_bare st n =
     (if n \<in> dn_structs (ps_declared st) then named_type kStructRef n (OwnerOf st n) (StructContainerOf st n)
      else if n \<in> dn_unions (ps_declared st) then named_type kUnionRef n (OwnerOf st n) (UnionContainerOf st n)
      else if n \<in> dn_enums (ps_declared st) then named_type kEnumRef n (OwnerOf st n) (ContainerOf st n)
      else ExternalType st [] n)"

definition parse_named :: "string \<Rightarrow> TypeSpec parser" where
  "parse_named n =
     pif (At kDot)
       (pbind (names_after kDot (''name after '' @ quoted ''.'')) (\<lambda>segs.
        pget (\<lambda>st. resolve_dotted st n segs)))
       (pget (\<lambda>st. resolve_bare st n))"

text \<open>The recursive calls of the source are the argument.\<close>

definition ParseTypeSpecInner :: "TypeSpec parser \<Rightarrow> TypeSpec parser" where
  "ParseTypeSpecInner type_spec =
     (pbind (Expect kName ''type name'') (\<lambda>name.
      let n = tk_text name in
      (if n = ''string'' then preturn (simple_type kString)
         else if n = ''array'' then parse_array type_spec
         else if n = ''map'' \<or> n = ''hash_map'' then parse_map type_spec
         else if n = ''handle'' then parse_handle
         else if n = ''associated'' then parse_associated
         else (case map_of kPendingKeywords n of
                 Some k \<Rightarrow> parse_pending k
               | None \<Rightarrow>
                   (case map_of kScalarKeywords n of
                      Some k \<Rightarrow> preturn (simple_type k)
                    | None \<Rightarrow> parse_named n)))))"

primrec type_spec_fuel :: "nat \<Rightarrow> TypeSpec parser" where
  "type_spec_fuel 0 = pfail OutOfFuel"
| "type_spec_fuel (Suc n) =
     (pbind (ParseTypeSpecInner (type_spec_fuel n)) (\<lambda>t.
      pif (At kQuestion)
          (pbind Advance (\<lambda>_.
           pbind (CheckNullableAllowed t) (\<lambda>_.
           preturn (set_nullable t))))
          (preturn t)))"

text \<open>Every recursive call follows the consumption of a token, so their number is enough fuel.\<close>

definition ParseTypeSpec :: "TypeSpec parser" where
  "ParseTypeSpec st = type_spec_fuel (length (ps_rest st)) st"

subsection \<open>Progress and shape\<close>

lemma runs_signed [runs_intros]: "runs c n 0 ParseSignedNumber"
  unfolding ParseSignedNumber_def by (intro runs_intros runs_bind_good) simp_all

lemma runs_float [runs_intros]: "runs c n 0 ParseFloatValue"
  unfolding ParseFloatValue_def by (intro runs_intros runs_bind_good) simp_all

lemma runs_stoul32 [runs_intros]: "runs c n 0 (stoul32 s)"
  unfolding stoul32_def by (intro runs_intros) simp_all

lemma runs_stoi [runs_intros]: "runs c n 0 (stoi s)"
  unfolding stoi_def by (intro runs_intros) simp_all

lemma runs_qualified [runs_intros]: "runs c n 0 (TakeQualifiedName t)"
  unfolding TakeQualifiedName_def by (intro runs_intros runs_bind_good) simp_all

lemma runs_map_key [runs_intros]: "runs c n 0 (CheckValidMapKeyType t)"
  unfolding CheckValidMapKeyType_def by (intro runs_intros runs_bind_good)

lemma runs_nullable [runs_intros]: "runs c n 0 (CheckNullableAllowed t)"
  unfolding CheckNullableAllowed_def by (intro runs_intros runs_bind_good)

lemma runs_type_inner:
  assumes "good n type_spec"
  shows "eats (Suc n) (ParseTypeSpecInner type_spec)"
proof -
  have "good n (parse_array type_spec)"
    unfolding parse_array_def using assms by (intro runs_intros runs_bind_good) simp_all
  moreover have "good n (parse_map type_spec)"
    unfolding parse_map_def using assms by (intro runs_intros runs_bind_good) simp_all
  moreover have "good n parse_handle"
    unfolding parse_handle_def by (intro runs_intros runs_bind_good) simp_all
  moreover have "good n parse_associated"
    unfolding parse_associated_def by (intro runs_intros runs_bind_good) simp_all
  moreover have "good n (parse_pending k)" for k
    unfolding parse_pending_def by (intro runs_intros runs_bind_good) simp_all
  moreover have "good n (parse_named s)" for s
    unfolding parse_named_def by (intro runs_intros runs_bind_good) simp_all
  ultimately show ?thesis
    unfolding ParseTypeSpecInner_def
    by (intro runs_bind_eats1 [OF runs_Expect] runs_intros) simp_all
qed

lemma runs_type_spec_fuel: "eats n (type_spec_fuel n)"
proof (induction n)
  case 0
  then show ?case by (auto simp: runs_def tokens_ok_def)
next
  case (Suc n)
  show ?case
    unfolding type_spec_fuel.simps
    by (rule runs_bind_eats1 [OF runs_type_inner [OF good_eats [OF Suc]]])
      (intro runs_intros runs_bind_good)
qed

lemma runs_type_spec: "eats n ParseTypeSpec"
  using runs_type_spec_fuel unfolding runs_def ParseTypeSpec_def by blast

lemmas runs_type_spec0 [runs_intros] = good_eats [OF runs_type_spec]

lemma named_type_ok [simp]:
  "k \<noteq> kArray \<Longrightarrow> k \<noteq> kMap \<Longrightarrow> type_spec_ok (named_type k n ns c)"
  by (simp add: named_type_def)

lemma simple_type_ok [simp]: "k \<noteq> kArray \<Longrightarrow> k \<noteq> kMap \<Longrightarrow> type_spec_ok (simple_type k)"
  by (simp add: simple_type_def)

lemma set_nullable_ok [simp]: "type_spec_ok (set_nullable t) = type_spec_ok t"
  by (cases t) (simp add: set_nullable_def)

lemma keyword_kinds:
  "map_of kPendingKeywords n = Some k \<Longrightarrow> k \<noteq> kArray \<and> k \<noteq> kMap"
  "map_of kScalarKeywords n = Some k \<Longrightarrow> k \<noteq> kArray \<and> k \<noteq> kMap"
  "map_of handle_subtypes n = Some k \<Longrightarrow> k \<noteq> kArray \<and> k \<noteq> kMap"
  by (auto simp: kPendingKeywords_def kScalarKeywords_def handle_subtypes_def split: if_splits)

lemma resolve_ok [simp]: "type_spec_ok (ExternalType st q n)" "type_spec_ok (resolve_bare st n)"
    "type_spec_ok (resolve_dotted st n segs)"
  by (simp_all add: ExternalType_def resolve_bare_def resolve_dotted_def Let_def)

lemma safe_numbers [returns_intros]: "safe J ParseSignedNumber" "safe J ParseFloatValue"
  unfolding ParseSignedNumber_def ParseFloatValue_def by (intro returns_intros returns_bind_any; simp)+

lemma returns_stoi: "returns J (stoi s) (\<lambda>n. n < 2 ^ 31)"
  unfolding stoi_def by (intro returns_intros) simp

lemma returns_stoul32: "returns J (stoul32 s) (\<lambda>n. n < 2 ^ 32)"
  unfolding stoul32_def by (intro returns_intros) simp

lemma safe_qualified [returns_intros]: "safe J (TakeQualifiedName t)"
  unfolding TakeQualifiedName_def by (intro returns_intros returns_bind_any) simp_all

lemma safe_nullable [returns_intros]: "safe J (CheckNullableAllowed t)"
  unfolding CheckNullableAllowed_def by (intro returns_intros returns_bind_any) simp_all

lemma returns_map_key: "returns J (CheckValidMapKeyType t) (\<lambda>_. map_key_kind (ts_kind t) \<and> \<not> ts_nullable t)"
  unfolding CheckValidMapKeyType_def by (intro returns_bind_any returns_intros) simp_all

lemma returns_array:
  assumes "returns J type_spec type_spec_ok"
  shows "returns J (parse_array type_spec) type_spec_ok"
  unfolding parse_array_def
  by (intro returns_bind [OF assms] returns_bind [where R = "\<lambda>n. n < 2 ^ 31" and p = "pif _ _ _"]
      returns_bind [OF returns_stoi] returns_intros returns_bind_any) simp_all

lemma returns_map:
  assumes "returns J type_spec type_spec_ok"
  shows "returns J (parse_map type_spec) type_spec_ok"
  unfolding parse_map_def
  by (intro returns_bind [OF assms] returns_bind [OF returns_map_key] returns_intros returns_bind_any) simp_all

lemma returns_type_inner:
  assumes "returns J type_spec type_spec_ok"
  shows "returns J (ParseTypeSpecInner type_spec) type_spec_ok"
  unfolding ParseTypeSpecInner_def parse_handle_def parse_associated_def parse_pending_def parse_named_def
  by (intro returns_array [OF assms] returns_map [OF assms] returns_intros returns_bind_any)
    (auto dest: keyword_kinds)

lemma returns_type_spec: "returns J ParseTypeSpec type_spec_ok"
proof -
  have "returns J (type_spec_fuel n) type_spec_ok" for n
  proof (induction n)
    case (Suc n)
    show ?case
      unfolding type_spec_fuel.simps
      by (intro returns_bind [OF returns_type_inner [OF Suc]] returns_intros returns_bind_any) simp_all
  qed (simp add: returns_fail)
  then show ?thesis unfolding returns_def ParseTypeSpec_def by blast
qed

lemmas safe_type_spec [returns_intros] = returns_safe [OF returns_type_spec]

end
