(* ===== verification/Voodoom_Decls.thy ===== *)
theory Voodoom_Decls
  imports Voodoom_Types
begin

text \<open>
  Attribute lists, default values and the declarations without a nested body of their own
  kind: constants, enumerations, structs, unions and features (\<open>src/parser.cc\<close>).
\<close>

subsection \<open>Attributes\<close>

definition peek_type :: "nat \<Rightarrow> PState \<Rightarrow> TokenType" where
  "peek_type i st = (case nth_opt (ps_rest st) i of Some t \<Rightarrow> tk_type t | None \<Rightarrow> kEnd)"

text \<open>A name, a dotted name, or a list of names.\<close>

definition parse_attr_names :: "AttrValue parser" where
  "parse_attr_names =
     (pbind (pget Cur) (\<lambda>first_tok.
      pbind Advance (\<lambda>_.
      pbind (names_after kDot (''name after '' @ quoted ''.'')) (\<lambda>dotted.
      let first = join_dots (tk_text first_tok # map tk_text dotted) in
      pif (At kPipe)
          (pbind (names_after kPipe (''name after '' @ quoted ''|'')) (\<lambda>more.
           preturn (AvPipeList (first # map tk_text more))))
          (pif (At kAmpersand)
             (pbind (names_after kAmpersand (''name after '' @ quoted ''&'')) (\<lambda>more.
              preturn (AvAmpList (first # map tk_text more))))
             (preturn (AvIdentifier first)))))))"

definition parse_attr_value :: "AttrValue parser" where
  "parse_attr_value =
     pif (At kStringLiteral)
       (pbind (pget Cur) (\<lambda>t.
        pbind Advance (\<lambda>_.
        preturn (AvString (tk_text t)))))
       (pif (\<lambda>st. AtKeyword ''true'' st \<or> AtKeyword ''false'' st)
          (pbind (pget Cur) (\<lambda>t.
           pbind Advance (\<lambda>_.
           preturn (AvBool (tk_text t = ''true'')))))
          (pif (At kName) parse_attr_names
             (pif (\<lambda>st. peek_type (if At kMinus st then 1 else 0) st = kFloatNumber)
                (pbind ParseFloatValue (\<lambda>v.
                 preturn (AvFloat v)))
                (pbind ParseSignedNumber (\<lambda>(neg, digits).
                 pbind (plift (ParseIntLiteral neg digits)) (\<lambda>v.
                 preturn (AvInt v)))))))"

definition attr_item :: "ParsedAttribute list \<times> bool \<Rightarrow> (ParsedAttribute list \<times> bool) parser" where
  "attr_item acc =
     (pbind (Expect kName ''attribute name'') (\<lambda>name_tok.
      pbind (pif (At kEquals) (pbind Advance (\<lambda>_.
                               parse_attr_value)) (preturn AvNone)) (\<lambda>v.
      let attrs = fst acc @ [\<lparr>pa_name = tk_text name_tok, pa_value = v, pa_line = tk_line name_tok\<rparr>] in
      pif (At kComma) (pbind Advance (\<lambda>_.
                         preturn (attrs, True))) (preturn (attrs, False)))))"

definition ParseAttributeList :: "ParsedAttribute list parser" where
  "ParseAttributeList =
     (pbind (Expect kLBracket (quoted ''['')) (\<lambda>_.
      pbind (ploop (\<lambda>(_, more) _. more) attr_item ([], True)) (\<lambda>(attrs, _).
      pbind (Expect kRBracket (quoted '']'')) (\<lambda>_.
      preturn attrs))))"

definition attrs_if_any :: "ParsedAttribute list parser" where
  "attrs_if_any = pif (At kLBracket) ParseAttributeList (preturn [])"

definition FillEnableIf :: "ParsedAttribute \<Rightarrow> EnableIf \<Rightarrow> EnableIf parser" where
  "FillEnableIf a dst =
     (if pa_name a \<noteq> ''EnableIf'' \<and> pa_name a \<noteq> ''EnableIfNot'' then preturn dst
      else if pa_value a = AvNone
      then pthrow (quoted (''['' @ pa_name a @ ''=...]'') @ '' requires a flag name'') (pa_line a)
      else (pbind (case pa_value a of
                   AvIdentifier s \<Rightarrow> preturn \<lparr>ec_mode = kAny, ec_flags = [s]\<rparr>
                 | AvPipeList ss \<Rightarrow> preturn \<lparr>ec_mode = kAny, ec_flags = ss\<rparr>
                 | AvAmpList ss \<Rightarrow> preturn \<lparr>ec_mode = kAll, ec_flags = ss\<rparr>
                 | _ \<Rightarrow> pthrow (quoted (''['' @ pa_name a @ ''=...]'')
                     @ '' value must be a flag name, a|b, or a&b'') (pa_line a)) (\<lambda>clause.
            preturn (if pa_name a = ''EnableIf'' then dst\<lparr>ei_enable_if := clause\<rparr>
                else dst\<lparr>ei_enable_if_not := clause\<rparr>))))"

text \<open>The attributes with a meaning, at the sites that accept them.\<close>

definition min_version_attr :: "ParsedAttribute \<Rightarrow> nat parser" where
  "min_version_attr a =
     (case pa_value a of
        AvInt v \<Rightarrow> if v < 0 then pthrow (quoted ''[MinVersion=N]'' @ '': N must be non-negative'') (pa_line a)
                   else preturn (to_uint32 v)
      | _ \<Rightarrow> pthrow (quoted ''[MinVersion=N]'' @ '' requires an integer value'') (pa_line a))"

definition flag_attr :: "ParsedAttribute \<Rightarrow> bool parser" where
  "flag_attr a =
     (if pa_value a = AvNone then preturn True
      else pthrow (quoted (''['' @ pa_name a @ '']'') @ '' doesn't take a value'') (pa_line a))"

subsection \<open>Default values\<close>

definition ConstContainerOf :: "PState \<Rightarrow> string \<Rightarrow> string" where
  "ConstContainerOf st n = lookup_name (ps_const_container st) n"

definition ResolveConstDefault :: "TypeSpec \<Rightarrow> string \<Rightarrow> nat \<Rightarrow> ConstDecl parser" where
  "ResolveConstDefault field_type n line =
     (pbind (pget (\<lambda>st. ps_const_by_name st n)) (\<lambda>c.
      (case c of
           None \<Rightarrow> pthrow (quoted n @ '' must be a previously declared const (earlier in this ''
             @ ''file, or in one of its imports) to use as a field default'') line
         | Some d \<Rightarrow>
             if ts_kind (c_type d) \<noteq> ts_kind field_type
             then pthrow (''const '' @ quoted n @ '' has a different type than this field -- a ''
               @ ''field default must match its field's type exactly'') line
             else preturn d)))"

definition ResolveConstReference :: "TypeSpec \<Rightarrow> ConstDecl parser" where
  "ResolveConstReference field_type =
     (pbind (Expect kName ''const name'') (\<lambda>name_tok.
      pbind (names_after kDot (''const name after '' @ quoted ''.'')) (\<lambda>more.
      (if more = [] then ResolveConstDefault field_type (tk_text name_tok) (tk_line name_tok)
         else
           (let member = last more in
            pbind (ResolveConstDefault field_type (tk_text member) (tk_line member)) (\<lambda>c.
            pbind (pget (\<lambda>st. ConstContainerOf st (tk_text member))) (\<lambda>actual.
            (if length more = 1 \<and> actual \<noteq> tk_text name_tok
               then pthrow (quoted (tk_text name_tok) @ '' has no nested const '' @ quoted (tk_text member)
                 @ (if actual = [] then '' (it's a top-level const)''
                    else '' (it belongs to '' @ quoted actual @ '')'')) (tk_line member)
               else preturn c))))))))"

text \<open>A default that names a constant.\<close>

definition named_default :: "TypeSpec \<Rightarrow> (DefaultValue \<Rightarrow> DefaultValue \<Rightarrow> DefaultValue) \<Rightarrow> DefaultValue parser" where
  "named_default field_type copy =
     (pbind (ResolveConstReference field_type) (\<lambda>c.
      pbind (pget (\<lambda>st. OwnerOf st (c_name c))) (\<lambda>owner.
      pbind (pget (\<lambda>st. ConstContainerOf st (c_name c))) (\<lambda>container.
      preturn (copy (c_value c) (no_default\<lparr>dv_has_value := True, dv_named_expr := c_name c,
          dv_named_expr_owner_namespace := owner, dv_named_expr_owner_container := container\<rparr>))))))"

definition default_bool :: "TypeSpec \<Rightarrow> DefaultValue parser" where
  "default_bool field_type =
     pif (AtKeyword ''true'')
       (pbind Advance (\<lambda>_.
        preturn (no_default\<lparr>dv_has_value := True, dv_bool_value := True\<rparr>)))
       (pif (AtKeyword ''false'')
          (pbind Advance (\<lambda>_.
           preturn (no_default\<lparr>dv_has_value := True\<rparr>)))
          (pif (At kName)
             (named_default field_type (\<lambda>v d. d\<lparr>dv_bool_value := dv_bool_value v\<rparr>))
             (pbind (pget Cur) (\<lambda>t.
              pthrow (''expected '' @ quoted ''true'' @ '', '' @ quoted ''false''
                  @ '', or a previously declared const name for a bool field default'' @ got t) (tk_line t)))))"

definition default_int :: "TypeSpec \<Rightarrow> DefaultValue parser" where
  "default_int field_type =
     pif (At kName)
       (named_default field_type (\<lambda>v d. d\<lparr>dv_int_value := dv_int_value v\<rparr>))
       (pbind ParseSignedNumber (\<lambda>(negative, digits).
        pbind (plift (ParseIntLiteral negative digits)) (\<lambda>v.
        preturn (no_default\<lparr>dv_has_value := True, dv_int_value := v\<rparr>))))"

definition float_specials :: "(string \<times> FloatSpecial \<times> Double) list" where
  "float_specials =
     [(''INFINITY'', fsInfinity, DInfinity), (''NEGATIVE_INFINITY'', fsNegativeInfinity, DNeg DInfinity),
      (''NAN'', fsNaN, DNaN)]"

definition special_float_at :: "PState \<Rightarrow> (FloatSpecial \<times> Double) option" where
  "special_float_at st =
     (if (AtKeyword ''float'' st \<or> AtKeyword ''double'' st) \<and> 2 < length (ps_rest st) \<and>
         tk_type (ps_rest st ! 1) = kDot
      then map_of float_specials (tk_text (ps_rest st ! 2)) else None)"

definition default_float :: "TypeSpec \<Rightarrow> DefaultValue parser" where
  "default_float field_type =
     (pbind (pget special_float_at) (\<lambda>special.
      (case special of
           Some (special, v) \<Rightarrow>
             (pbind Advance (\<lambda>_.
              pbind Advance (\<lambda>_.
              pbind Advance (\<lambda>_.
              preturn (no_default\<lparr>dv_has_value := True, dv_float_special := special, dv_float_value := v\<rparr>)))))
         | None \<Rightarrow>
             pif (At kName)
               (named_default field_type (\<lambda>v d. d\<lparr>dv_float_value := dv_float_value v,
                  dv_float_special := dv_float_special v\<rparr>))
               (pbind ParseFloatValue (\<lambda>v.
                preturn (no_default\<lparr>dv_has_value := True, dv_float_value := v\<rparr>))))))"

definition default_string :: "TypeSpec \<Rightarrow> DefaultValue parser" where
  "default_string field_type =
     pif (At kName)
       (named_default field_type (\<lambda>v d. d\<lparr>dv_string_value := dv_string_value v\<rparr>))
       (pbind (Expect kStringLiteral ''string field default'') (\<lambda>t.
        preturn (no_default\<lparr>dv_has_value := True, dv_string_value := tk_text t\<rparr>)))"

definition default_enum :: "TypeSpec \<Rightarrow> DefaultValue parser" where
  "default_enum field_type =
     (pbind (Expect kName ''enum value name for field default'') (\<lambda>value_name.
      pbind (names_after kDot (''enum value name after '' @ quoted ''.'')) (\<lambda>more.
      let enumerator = tk_text (last (value_name # more)) in
      pbind (pget (\<lambda>st. EnumForDefault st field_type)) (\<lambda>enum_decl.
      (case enum_decl of
           None \<Rightarrow> pthrow (''enum '' @ quoted (ts_name field_type) @ '' must be declared (fully, in this file ''
             @ ''or one of its imports) before its values can be used as a field default'')
             (tk_line value_name)
         | Some e \<Rightarrow>
             preturn (no_default\<lparr>dv_has_value := True,
               dv_int_value := (case value_named enumerator (e_values e) of Some v \<Rightarrow> v | None \<Rightarrow> 0),
               dv_named_expr := ts_name field_type @ ''::'' @ enumerator,
               dv_named_expr_owner_namespace := ts_owner_namespace field_type,
               dv_named_expr_owner_container := ts_owner_container field_type\<rparr>))))))"

definition default_other :: "TypeSpec \<Rightarrow> DefaultValue parser" where
  "default_other field_type =
     pif (\<lambda>st. ts_kind field_type = kStructRef \<and> ts_name field_type \<notin> dn_structs (ps_declared st) \<and> At kName st)
       (pbind (pget Cur) (\<lambda>t.
        pbind Advance (\<lambda>_.
        pbind (names_after kDot (''name after '' @ quoted ''.'')) (\<lambda>more.
        preturn (no_default\<lparr>dv_has_value := True, dv_named_expr := tk_text (last (t # more))\<rparr>)))))
       (pbind (pget Cur) (\<lambda>t.
        pthrow (''field defaults are only supported for bool/integer/float/''
            @ ''double/string/enum types (never struct/union/array/map/pending_*)'') (tk_line t)))"

definition integer_kind :: "TypeKind \<Rightarrow> bool" where
  "integer_kind k \<longleftrightarrow> k \<in> {kInt8, kUint8, kInt16, kUint16, kInt32, kUint32, kInt64, kUint64}"

definition ParseDefaultValue :: "TypeSpec \<Rightarrow> DefaultValue parser" where
  "ParseDefaultValue field_type =
     (let k = ts_kind field_type
      in if k = kBool then default_bool field_type
         else if integer_kind k then default_int field_type
         else if k = kFloat \<or> k = kDouble then default_float field_type
         else if k = kString then default_string field_type
         else if k = kEnumRef then default_enum field_type
         else default_other field_type)"

subsection \<open>Constants\<close>

definition ParseConst :: "ConstDecl parser" where
  "ParseConst =
     (pbind (ExpectKeyword ''const'') (\<lambda>_.
      pbind (pget Cur) (\<lambda>type_start.
      pbind ParseTypeSpec (\<lambda>ty.
      pbind (if ts_nullable ty \<or> \<not> IsLegalConstType (ts_kind ty)
         then pthrow (''const type must be bool/integer/float/double/string/enum ''
           @ ''(never nullable, struct/union/array/map/pending_*)'') (tk_line type_start)
         else preturn ()) (\<lambda>_.
      pbind (Expect kName ''const name'') (\<lambda>name.
      pbind (Expect kEquals (quoted ''='' @ '' in const declaration'')) (\<lambda>_.
      pbind (ParseDefaultValue ty) (\<lambda>v.
      pbind (Expect kSemi (quoted '';'' @ '' after const declaration'')) (\<lambda>_.
      preturn (new_const\<lparr>c_type := ty, c_name := tk_text name, c_value := v\<rparr>))))))))))"

text \<open>
  What every site does with a parsed constant: its attributes, its position, its container
  and its entry in the table of constants.
\<close>

definition add_const :: "string option \<Rightarrow> ParsedAttribute list \<Rightarrow> ConstDecl parser" where
  "add_const container attrs =
     (pbind ParseConst (\<lambda>c.
      pbind (pfold FillEnableIf attrs (c_enable_if c)) (\<lambda>ei.
      pbind (pget ps_next_const_order) (\<lambda>order.
      let c' = c\<lparr>c_enable_if := ei, c_decl_index := order\<rparr> in
      pbind (pmodify (\<lambda>st. st\<lparr>ps_next_const_order := order + 1,
          ps_const_container := (case container of
             Some k \<Rightarrow> (ps_const_container st)(c_name c' \<mapsto> k) | None \<Rightarrow> ps_const_container st),
          ps_const_by_name := (ps_const_by_name st)(c_name c' \<mapsto> c')\<rparr>)) (\<lambda>_.
      preturn c')))))"

subsection \<open>Enumerations\<close>

definition enum_value_attr :: "ParsedAttribute \<Rightarrow> EnumValue \<Rightarrow> EnumValue parser" where
  "enum_value_attr a v =
     (if pa_name a = ''MinVersion'' then (pbind (min_version_attr a) (\<lambda>n.
                                          preturn (v\<lparr>ev_min_version := n\<rparr>)))
      else if pa_name a = ''Default'' then (pbind (flag_attr a) (\<lambda>b.
                                            preturn (v\<lparr>ev_is_default := b\<rparr>)))
      else (pbind (FillEnableIf a (ev_enable_if v)) (\<lambda>ei.
            preturn (v\<lparr>ev_enable_if := ei\<rparr>))))"

text \<open>What follows the name of a value: an alias, a number, or nothing.\<close>

definition enum_initializer :: "string \<Rightarrow> EnumValue list \<Rightarrow> int \<Rightarrow> int parser" where
  "enum_initializer name so_far next_value =
     pif (At kEquals)
       (pbind Advance (\<lambda>_.
        pif (At kName)
            (pbind (pget Cur) (\<lambda>alias.
             pbind Advance (\<lambda>_.
             (case value_named (tk_text alias) so_far of
                  Some n \<Rightarrow> preturn n
                | None \<Rightarrow> pthrow (''enum value '' @ quoted name @ '' aliases unknown value ''
                    @ quoted (tk_text alias)) (tk_line alias)))))
            (pbind ParseSignedNumber (\<lambda>(negative, digits).
             pbind (plift (ParseIntLiteral negative digits)) (\<lambda>n.
             preturn (to_int32 n))))))
       (preturn next_value)"

definition ParseEnumValue :: "EnumValue list \<Rightarrow> int \<Rightarrow> (EnumValue \<times> int) parser" where
  "ParseEnumValue so_far next_value =
     (pbind attrs_if_any (\<lambda>attrs.
      pbind (pfold enum_value_attr attrs new_enum_value) (\<lambda>v.
      pbind (Expect kName ''enum value name'') (\<lambda>name.
      pbind (enum_initializer (tk_text name) so_far next_value) (\<lambda>value.
      pbind (plift (next_int32 value)) (\<lambda>next_value'.
      preturn (v\<lparr>ev_name := tk_text name, ev_value := value\<rparr>, next_value')))))))"

definition enum_attr :: "ParsedAttribute \<Rightarrow> EnumDecl \<Rightarrow> EnumDecl parser" where
  "enum_attr a e =
     (if pa_name a = ''Extensible'' then (pbind (flag_attr a) (\<lambda>b.
                                          preturn (e\<lparr>e_is_extensible := b\<rparr>)))
      else if pa_name a = ''Native'' then (pbind (flag_attr a) (\<lambda>b.
                                           preturn (e\<lparr>e_is_native := b\<rparr>)))
      else (pbind (FillEnableIf a (e_enable_if e)) (\<lambda>ei.
            preturn (e\<lparr>e_enable_if := ei\<rparr>))))"

text \<open>The values up to the closing brace; the flag is false after a trailing comma.\<close>

definition more_values :: "EnumValue list \<times> int \<times> bool \<Rightarrow> PState \<Rightarrow> bool" where
  "more_values acc st = (case acc of (_, _, go) \<Rightarrow> go \<and> At kComma st)"

definition next_enum_value :: "EnumValue list \<times> int \<times> bool \<Rightarrow> (EnumValue list \<times> int \<times> bool) parser" where
  "next_enum_value acc =
     (case acc of (vs, next_value, _) \<Rightarrow>
       (pbind Advance (\<lambda>_.
        pif (At kRBrace) (preturn (vs, next_value, False))
            (pbind (ParseEnumValue vs next_value) (\<lambda>(v, next').
             preturn (vs @ [v], next', True))))))"

definition enum_values :: "EnumValue list parser" where
  "enum_values =
     pif (At kRBrace) (preturn [])
       (pbind (ParseEnumValue [] 0) (\<lambda>(v, next_value).
        pbind (ploop more_values next_enum_value ([v], next_value, True)) (\<lambda>(vs, _, _).
        preturn vs)))"

definition enum_body :: "EnumDecl \<Rightarrow> EnumDecl parser" where
  "enum_body e =
     (pbind (Expect kLBrace (quoted ''{'')) (\<lambda>_.
      pbind enum_values (\<lambda>vs.
      pbind (Expect kRBrace (quoted ''}'')) (\<lambda>_.
      pbind (Expect kSemi (quoted '';'' @ '' after enum body'')) (\<lambda>_.
      pbind (pget Cur) (\<lambda>t.
      (if 1 < length (filter ev_is_default vs)
         then pthrow (''enum '' @ quoted (e_name e) @ '': at most one value may be [Default]'') (tk_line t)
         else preturn (e\<lparr>e_values := vs\<rparr>))))))))"

definition ParseEnum :: "ParsedAttribute list \<Rightarrow> EnumDecl parser" where
  "ParseEnum top_attrs =
     (pbind (ExpectKeyword ''enum'') (\<lambda>_.
      pbind (pfold enum_attr top_attrs new_enum) (\<lambda>e.
      pbind (Expect kName ''enum name'') (\<lambda>name.
      let e = e\<lparr>e_name := tk_text name\<rparr> in
      pif (At kSemi) (pbind Advance (\<lambda>_.
                        preturn e)) (enum_body e)))))"

end
