(* ===== verification/Voodoom_Bodies.thy ===== *)
theory Voodoom_Bodies
  imports Voodoom_Decls
begin

text \<open>
  Structs, unions, features, methods and interfaces (\<open>src/parser.cc\<close>, from \<open>ParseInterface\<close>
  to \<open>ParseFeature\<close>).
\<close>

subsection \<open>Structs\<close>

definition struct_attr :: "ParsedAttribute \<Rightarrow> StructDecl \<Rightarrow> StructDecl parser" where
  "struct_attr a s =
     (if pa_name a = ''Native'' then (pbind (flag_attr a) (\<lambda>b.
                                      preturn (s\<lparr>s_is_native := b\<rparr>)))
      else (pbind (FillEnableIf a (s_enable_if s)) (\<lambda>ei.
            preturn (s\<lparr>s_enable_if := ei\<rparr>))))"

definition struct_field_attr :: "ParsedAttribute \<Rightarrow> StructField \<Rightarrow> StructField parser" where
  "struct_field_attr a f =
     (if pa_name a = ''MinVersion'' then (pbind (min_version_attr a) (\<lambda>n.
                                          preturn (f\<lparr>sf_min_version := n\<rparr>)))
      else (pbind (FillEnableIf a (sf_enable_if f)) (\<lambda>ei.
            preturn (f\<lparr>sf_enable_if := ei\<rparr>))))"

definition struct_field :: "ParsedAttribute list \<Rightarrow> StructField parser" where
  "struct_field attrs =
     (pbind (pfold struct_field_attr attrs new_struct_field) (\<lambda>f.
      pbind ParseTypeSpec (\<lambda>ty.
      pbind (Expect kName ''field name'') (\<lambda>name.
      let f = f\<lparr>sf_type := ty, sf_name := tk_text name\<rparr> in
      pbind (pif (At kAt)
               (pbind Advance (\<lambda>_.
                pbind (Expect kNumber ''field ordinal'') (\<lambda>num.
                pbind (stoul32 (tk_text num)) (\<lambda>n.
                preturn (f\<lparr>sf_ordinal := n, sf_has_explicit_ordinal := True\<rparr>)))))
               (preturn f)) (\<lambda>f.
      pbind (pif (At kEquals)
               (pbind Advance (\<lambda>_.
                pbind (ParseDefaultValue ty) (\<lambda>d.
                preturn (f\<lparr>sf_default_value := d\<rparr>))))
               (preturn f)) (\<lambda>f.
      pbind (Expect kSemi (quoted '';'' @ '' after field declaration'')) (\<lambda>_.
      preturn f)))))))"

definition struct_member :: "StructDecl \<Rightarrow> StructDecl parser" where
  "struct_member s =
     (pbind attrs_if_any (\<lambda>attrs.
      pif (AtKeyword ''enum'')
          (pbind (ParseEnum attrs) (\<lambda>e.
           preturn (s\<lparr>s_enums := s_enums s @ [e]\<rparr>)))
          (pif (AtKeyword ''const'')
             (pbind (add_const (Some (s_name s)) attrs) (\<lambda>c.
              preturn (s\<lparr>s_consts := s_consts s @ [c]\<rparr>)))
             (pbind (struct_field attrs) (\<lambda>f.
              preturn (s\<lparr>s_version := max (s_version s) (sf_min_version f),
                  s_fields := s_fields s @ [f]\<rparr>))))))"

definition ParseStruct :: "ParsedAttribute list \<Rightarrow> StructDecl parser" where
  "ParseStruct top_attrs =
     (pbind (ExpectKeyword ''struct'') (\<lambda>_.
      pbind (pfold struct_attr top_attrs new_struct) (\<lambda>s.
      pbind (Expect kName ''struct name'') (\<lambda>name.
      let s = s\<lparr>s_name := tk_text name\<rparr> in
      pif (At kSemi)
          (pbind Advance (\<lambda>_.
           preturn s))
          (pbind (Expect kLBrace (quoted ''{'')) (\<lambda>_.
           pbind (ploop (\<lambda>_ st. \<not> At kRBrace st) struct_member s) (\<lambda>s.
           pbind (Expect kRBrace (quoted ''}'')) (\<lambda>_.
           pbind (Expect kSemi (quoted '';'' @ '' after struct body'')) (\<lambda>_.
           preturn s)))))))))"

subsection \<open>Unions\<close>

definition union_attr :: "ParsedAttribute \<Rightarrow> UnionDecl \<Rightarrow> UnionDecl parser" where
  "union_attr a u =
     (if pa_name a = ''Extensible'' then (pbind (flag_attr a) (\<lambda>b.
                                          preturn (u\<lparr>u_is_extensible := b\<rparr>)))
      else (pbind (FillEnableIf a (u_enable_if u)) (\<lambda>ei.
            preturn (u\<lparr>u_enable_if := ei\<rparr>))))"

definition union_field_attr :: "ParsedAttribute \<Rightarrow> UnionField \<Rightarrow> UnionField parser" where
  "union_field_attr a f =
     (if pa_name a = ''MinVersion'' then (pbind (min_version_attr a) (\<lambda>n.
                                          preturn (f\<lparr>uf_min_version := n\<rparr>)))
      else if pa_name a = ''Default'' then (pbind (flag_attr a) (\<lambda>b.
                                            preturn (f\<lparr>uf_is_default := b\<rparr>)))
      else (pbind (FillEnableIf a (uf_enable_if f)) (\<lambda>ei.
            preturn (f\<lparr>uf_enable_if := ei\<rparr>))))"

text \<open>One field; the counter of implicit tags is passed along.\<close>

definition union_field :: "nat \<Rightarrow> (UnionField \<times> nat) parser" where
  "union_field next_implicit =
     (pbind attrs_if_any (\<lambda>attrs.
      pbind (pfold union_field_attr attrs new_union_field) (\<lambda>f.
      pbind ParseTypeSpec (\<lambda>ty.
      pbind (Expect kName ''field name'') (\<lambda>name.
      let f = f\<lparr>uf_type := ty, uf_name := tk_text name\<rparr> in
      pbind (pif (At kAt)
               (pbind Advance (\<lambda>_.
                pbind (Expect kNumber ''tag number'') (\<lambda>num.
                pbind (stoul32 (tk_text num)) (\<lambda>n.
                preturn (f\<lparr>uf_tag := n, uf_has_explicit_tag := True\<rparr>, next_implicit)))))
               (preturn (f\<lparr>uf_tag := next_implicit\<rparr>, add32 next_implicit 1))) (\<lambda>r.
      pbind (Expect kSemi (quoted '';'' @ '' after field declaration'')) (\<lambda>_.
      preturn r)))))))"

definition union_member :: "UnionDecl \<times> nat \<Rightarrow> (UnionDecl \<times> nat) parser" where
  "union_member acc =
     (case acc of (u, next_implicit) \<Rightarrow>
       (pbind (union_field next_implicit) (\<lambda>(f, next_implicit').
        preturn (u\<lparr>u_version := max (u_version u) (uf_min_version f), u_fields := u_fields u @ [f]\<rparr>,
            next_implicit'))))"

text \<open>
  \<open>while (used.count(next)) ++next;\<close> and the loop over the fields without a tag of their own.
  The counter is a \<open>uint32_t\<close>; among \<open>length used + 1\<close> successive values one is free, unless
  there are \<open>2 ^ 32\<close> of them.
\<close>

fun next_free :: "nat \<Rightarrow> nat list \<Rightarrow> nat \<Rightarrow> nat option" where
  "next_free 0 used n = None"
| "next_free (Suc k) used n = (if n \<in> set used then next_free k used (add32 n 1) else Some n)"

fun assign_tags :: "nat list \<Rightarrow> nat \<Rightarrow> UnionField list \<Rightarrow> UnionField list option" where
  "assign_tags used next [] = Some []"
| "assign_tags used next (f # fs) =
     (if uf_has_explicit_tag f then map_option (Cons f) (assign_tags used next fs)
      else (case next_free (Suc (length used)) used next of
              None \<Rightarrow> None
            | Some t \<Rightarrow>
                map_option (Cons (f\<lparr>uf_tag := t\<rparr>)) (assign_tags (t # used) (add32 t 1) fs)))"

definition retag :: "UnionField list \<Rightarrow> UnionField list parser" where
  "retag fs =
     (if (\<exists>f \<in> set fs. uf_has_explicit_tag f) \<and> (\<exists>f \<in> set fs. \<not> uf_has_explicit_tag f)
      then (case assign_tags (map uf_tag (filter uf_has_explicit_tag fs)) 0 fs of
              Some fs' \<Rightarrow> preturn fs' | None \<Rightarrow> pfail OutOfFuel)
      else preturn fs)"

definition ParseUnion :: "ParsedAttribute list \<Rightarrow> UnionDecl parser" where
  "ParseUnion top_attrs =
     (pbind (ExpectKeyword ''union'') (\<lambda>_.
      pbind (pfold union_attr top_attrs new_union) (\<lambda>u.
      pbind (Expect kName ''union name'') (\<lambda>name.
      let u = u\<lparr>u_name := tk_text name\<rparr> in
      pbind (Expect kLBrace (quoted ''{'')) (\<lambda>_.
      pbind (ploop (\<lambda>_ st. \<not> At kRBrace st) union_member (u, 0)) (\<lambda>(u, _).
      pbind (Expect kRBrace (quoted ''}'')) (\<lambda>_.
      pbind (Expect kSemi (quoted '';'' @ '' after union body'')) (\<lambda>_.
      pbind (retag (u_fields u)) (\<lambda>fs.
      pbind (pget Cur) (\<lambda>t.
      (if fs = [] then pthrow (''union '' @ quoted (u_name u) @ '': must have at least one field'') (tk_line t)
         else if 1 < length (filter uf_is_default fs)
         then pthrow (''union '' @ quoted (u_name u) @ '': at most one field may be [Default]'') (tk_line t)
         else preturn (u\<lparr>u_fields := fs\<rparr>))))))))))))"

subsection \<open>Features\<close>

definition feature_member :: "FeatureDecl \<Rightarrow> FeatureDecl parser" where
  "feature_member f =
     (pbind attrs_if_any (\<lambda>attrs.
      pif (AtKeyword ''const'')
          (pbind (add_const (Some (ft_name f)) attrs) (\<lambda>c.
           preturn (f\<lparr>ft_consts := ft_consts f @ [c]\<rparr>)))
          (pbind (pget Cur) (\<lambda>t.
           pthrow (''feature '' @ quoted (ft_name f) @ '': only '' @ quoted ''const''
               @ '' declarations are allowed inside a '' @ quoted ''feature { ... }''
               @ '' body (matching real mojom's own FeatureBody grammar)'' @ got t) (tk_line t)))))"

definition ParseFeature :: "FeatureDecl parser" where
  "ParseFeature =
     (pbind (ExpectKeyword ''feature'') (\<lambda>_.
      pbind (Expect kName ''feature name'') (\<lambda>name.
      pbind (Expect kLBrace (quoted ''{'')) (\<lambda>_.
      pbind (ploop (\<lambda>_ st. \<not> At kRBrace st) feature_member
          \<lparr>ft_name = tk_text name, ft_consts = [], ft_enable_if = no_enable_if\<rparr>) (\<lambda>f.
      pbind (Expect kRBrace (quoted ''}'')) (\<lambda>_.
      pbind (Expect kSemi (quoted '';'' @ '' after feature body'')) (\<lambda>_.
      preturn f)))))))"

subsection \<open>Methods\<close>

definition param_attr :: "ParsedAttribute \<Rightarrow> Param \<Rightarrow> Param parser" where
  "param_attr a p =
     (if pa_name a = ''MinVersion'' then (pbind (min_version_attr a) (\<lambda>n.
                                          preturn (p\<lparr>p_min_version := n\<rparr>)))
      else (pbind (FillEnableIf a (p_enable_if p)) (\<lambda>ei.
            preturn (p\<lparr>p_enable_if := ei\<rparr>))))"

definition ParseParam :: "Param parser" where
  "ParseParam =
     (pbind attrs_if_any (\<lambda>attrs.
      pbind (pfold param_attr attrs new_param) (\<lambda>p.
      pbind ParseTypeSpec (\<lambda>ty.
      pbind (Expect kName ''parameter name'') (\<lambda>name.
      let p = p\<lparr>p_type := ty, p_name := tk_text name\<rparr> in
      pif (At kAt)
          (pbind Advance (\<lambda>_.
           pbind (Expect kNumber ''parameter ordinal'') (\<lambda>num.
           pbind (stoul32 (tk_text num)) (\<lambda>n.
           preturn (p\<lparr>p_ordinal := n, p_has_explicit_ordinal := True\<rparr>)))))
          (preturn p))))))"

definition ParseParamList :: "Param list parser" where
  "ParseParamList =
     (pbind ParseParam (\<lambda>p.
      ploop (\<lambda>_. At kComma) (\<lambda>ps. (pbind Advance (\<lambda>_.
                                                     pbind ParseParam (\<lambda>q.
                                                     preturn (ps @ [q]))))) [p]))"

definition params_in_parens :: "Param list parser" where
  "params_in_parens =
     (pbind (pif (At kRParen) (preturn []) ParseParamList) (\<lambda>ps.
      pbind (Expect kRParen (quoted '')'')) (\<lambda>_.
      preturn ps)))"

definition MakeResultUnion :: "string \<Rightarrow> string \<Rightarrow> TypeSpec \<Rightarrow> TypeSpec \<Rightarrow> TypeSpec parser" where
  "MakeResultUnion iface_name method_name value_type error_type =
     (let name = iface_name @ ''_'' @ method_name @ ''Result'' in
      pbind (pget ps_next_embed_order) (\<lambda>order.
      let u = new_union\<lparr>u_name := name,
            u_fields := [new_union_field\<lparr>uf_type := value_type, uf_name := ''value'', uf_tag := 0\<rparr>,
                         new_union_field\<lparr>uf_type := error_type, uf_name := ''error'', uf_tag := 1\<rparr>],
            u_decl_index := order\<rparr> in
      pbind (pmodify (\<lambda>st. st\<lparr>ps_next_embed_order := order + 1,
          ps_pending_result_unions := ps_pending_result_unions st @ [u]\<rparr>)) (\<lambda>_.
      preturn (named_type kUnionRef name [] []))))"

definition method_attr :: "ParsedAttribute \<Rightarrow> Method \<Rightarrow> Method parser" where
  "method_attr a m =
     (if pa_name a = ''Sync'' then (pbind (flag_attr a) (\<lambda>b.
                                    preturn (m\<lparr>m_is_sync := b\<rparr>)))
      else if pa_name a = ''MinVersion'' then (pbind (min_version_attr a) (\<lambda>n.
                                               preturn (m\<lparr>m_min_version := n\<rparr>)))
      else (pbind (FillEnableIf a (m_enable_if m)) (\<lambda>ei.
            preturn (m\<lparr>m_enable_if := ei\<rparr>))))"

fun show_nat :: "nat \<Rightarrow> string" where
  "show_nat n = (if n < 10 then [char_of (48 + n)] else show_nat (n div 10) @ [char_of (48 + n mod 10)])"

declare show_nat.simps [simp del]

definition take_method_ordinal :: "Method \<Rightarrow> Method parser" where
  "take_method_ordinal m =
     (pbind (pget Cur) (\<lambda>at_tok.
      pbind Advance (\<lambda>_.
      pbind (Expect kNumber ''ordinal number'') (\<lambda>num.
      (if m_has_explicit_ordinal m
         then pthrow (''method '' @ quoted (m_name m) @ '': ordinal specified twice'') (tk_line at_tok)
         else
           (pbind (stoul32 (tk_text num)) (\<lambda>n.
            (if 0xFFFFFFFE \<le> n
               then pthrow (''method '' @ quoted (m_name m) @ '': ordinal '' @ show_nat n
                 @ '' collides with a reserved control-message ordinal (0xFFFFFFFE and 0xFFFFFFFF ''
                 @ ''are reserved for QueryVersion/RequireVersion)'') (tk_line at_tok)
               else preturn (m\<lparr>m_ordinal := n, m_has_explicit_ordinal := True\<rparr>)))))))))"

definition parse_response :: "string \<Rightarrow> Method \<Rightarrow> Method parser" where
  "parse_response iface_name m =
     pif (AtKeyword ''result'')
       (pbind Advance (\<lambda>_.
        pbind (Expect kLAngle (quoted ''<'')) (\<lambda>_.
        pbind ParseTypeSpec (\<lambda>value_type.
        pbind (Expect kComma (quoted '','' @ '' between result<T, E>'s two types'')) (\<lambda>_.
        pbind ParseTypeSpec (\<lambda>error_type.
        pbind (Expect kRAngle (quoted ''>'')) (\<lambda>_.
        pbind (MakeResultUnion iface_name (m_name m) value_type error_type) (\<lambda>ty.
        preturn (m\<lparr>m_is_result_response := True, m_result_success := value_type,
            m_result_error := error_type,
            m_response_params := [new_param\<lparr>p_type := ty, p_name := ''result''\<rparr>]\<rparr>)))))))))
       (pbind (Expect kLParen (quoted ''('' @ '' after '' @ quoted ''=>'')) (\<lambda>_.
        pbind params_in_parens (\<lambda>ps.
        preturn (m\<lparr>m_response_params := ps\<rparr>))))"

definition ParseMethod :: "ParsedAttribute list \<Rightarrow> string \<Rightarrow> Method parser" where
  "ParseMethod top_attrs iface_name =
     (pbind (pfold method_attr top_attrs new_method) (\<lambda>m.
      pbind (Expect kName ''method name'') (\<lambda>name.
      let m = m\<lparr>m_name := tk_text name\<rparr> in
      pbind (pif (At kAt) (take_method_ordinal m) (preturn m)) (\<lambda>m.
      pbind (Expect kLParen (quoted ''('')) (\<lambda>_.
      pbind params_in_parens (\<lambda>ps.
      let m = m\<lparr>m_params := ps\<rparr> in
      pbind (pif (At kAt) (take_method_ordinal m) (preturn m)) (\<lambda>m.
      pbind (pif (At kArrow)
               (pbind Advance (\<lambda>_.
                parse_response iface_name (m\<lparr>m_has_response := True\<rparr>)))
               (preturn m)) (\<lambda>m.
      pbind (Expect kSemi (quoted '';'' @ '' after method declaration'')) (\<lambda>_.
      pbind (pget Cur) (\<lambda>t.
      (if m_is_sync m \<and> \<not> m_has_response m
         then pthrow (quoted ''[Sync]'' @ '' method '' @ quoted (m_name m)
           @ '' must have a response (=> (...)) -- there's nothing to block for otherwise'') (tk_line t)
         else preturn m)))))))))))"

subsection \<open>Interfaces\<close>

definition interface_attr :: "ParsedAttribute \<Rightarrow> Interface \<Rightarrow> Interface parser" where
  "interface_attr a i =
     (if pa_name a = ''Extensible'' then (pbind (flag_attr a) (\<lambda>b.
                                          preturn (i\<lparr>i_is_extensible := b\<rparr>)))
      else (pbind (FillEnableIf a (i_enable_if i)) (\<lambda>ei.
            preturn (i\<lparr>i_enable_if := ei\<rparr>))))"

text \<open>\<open>next_embed_order_++\<close> and the entry of the declaration in \<open>embed_order_\<close>.\<close>

definition take_embed_index :: "string \<Rightarrow> nat parser" where
  "take_embed_index key =
     (pbind (pget ps_next_embed_order) (\<lambda>order.
      pbind (pmodify (\<lambda>st. st\<lparr>ps_next_embed_order := order + 1,
          ps_embed_order := (ps_embed_order st)(key \<mapsto> order)\<rparr>)) (\<lambda>_.
      preturn order)))"

definition interface_member :: "Interface \<times> nat \<Rightarrow> (Interface \<times> nat) parser" where
  "interface_member acc =
     (case acc of (i, next_implicit) \<Rightarrow>
       (pbind attrs_if_any (\<lambda>attrs.
        pif (AtKeyword ''enum'')
            (pbind (ParseEnum attrs) (\<lambda>e.
             preturn (i\<lparr>i_enums := i_enums i @ [e]\<rparr>, next_implicit)))
          (pif (AtKeyword ''struct'')
            (pbind (ParseStruct attrs) (\<lambda>s.
             pbind (take_embed_index (EmbedDeclKey (i_name i) (s_name s))) (\<lambda>order.
             preturn (i\<lparr>i_structs := i_structs i
                 @ [s\<lparr>s_owner_container := i_name i, s_decl_index := order\<rparr>]\<rparr>, next_implicit))))
          (pif (AtKeyword ''union'')
            (pbind (ParseUnion attrs) (\<lambda>u.
             pbind (take_embed_index (EmbedDeclKey (i_name i) (u_name u))) (\<lambda>order.
             preturn (i\<lparr>i_unions := i_unions i
                 @ [u\<lparr>u_owner_container := i_name i, u_decl_index := order\<rparr>]\<rparr>, next_implicit))))
          (pif (AtKeyword ''const'')
            (pbind (add_const (Some (i_name i)) attrs) (\<lambda>c.
             preturn (i\<lparr>i_consts := i_consts i @ [c]\<rparr>, next_implicit)))
            (pbind (ParseMethod attrs (i_name i)) (\<lambda>m.
             let m' = (if m_has_explicit_ordinal m then m else m\<lparr>m_ordinal := next_implicit\<rparr>) in
             preturn (i\<lparr>i_version := max (i_version i) (m_min_version m'),
                   i_methods := i_methods i @ [m']\<rparr>,
                 if m_has_explicit_ordinal m then next_implicit else add32 next_implicit 1)))))))))"

definition ParseInterface :: "ParsedAttribute list \<Rightarrow> Interface parser" where
  "ParseInterface top_attrs =
     (pbind (pfold interface_attr top_attrs new_interface) (\<lambda>i.
      pbind (ExpectKeyword ''interface'') (\<lambda>_.
      pbind (Expect kName ''interface name'') (\<lambda>name.
      let i = i\<lparr>i_name := tk_text name\<rparr> in
      pbind (Expect kLBrace (quoted ''{'')) (\<lambda>_.
      pbind (ploop (\<lambda>_ st. \<not> At kRBrace st) interface_member (i, 0)) (\<lambda>(i, _).
      pbind (Expect kRBrace (quoted ''}'')) (\<lambda>_.
      pbind (Expect kSemi (quoted '';'' @ '' after interface body'')) (\<lambda>_.
      pbind (pget Cur) (\<lambda>t.
      (if (\<exists>m \<in> set (i_methods i). m_has_explicit_ordinal m) \<and>
            (\<exists>m \<in> set (i_methods i). \<not> m_has_explicit_ordinal m)
         then pthrow (''interface '' @ quoted (i_name i)
           @ '': either every method has an explicit @ordinal or none do'') (tk_line t)
         else preturn i))))))))))"

end
