(* ===== verification/Embed_Order.thy ===== *)
theory Embed_Order
  imports Parse_Monad "HOL-Library.Char_ord" "HOL-Library.List_Lexorder"
begin

text \<open>
  The check that no struct or union embeds itself by value (\<open>src/parser.cc\<close>,
  \<open>CheckCompleteTypeAcyclic\<close>): a topological sort of the declarations by repeatedly taking
  the least one without unprocessed dependencies.  The ordered set \<open>ready\<close> is a sorted list,
  the map \<open>outgoing\<close> the list of the edges in the order they were added.
\<close>

subsection \<open>The graph of a module\<close>

definition struct_types :: "StructDecl \<Rightarrow> string \<times> TypeSpec list" where
  "struct_types s = (EmbedDeclKey (s_owner_container s) (s_name s), map sf_type (s_fields s))"

definition union_types :: "UnionDecl \<Rightarrow> string \<times> TypeSpec list" where
  "union_types u = (EmbedDeclKey (u_owner_container u) (u_name u), map uf_type (u_fields u))"

definition embed_decls :: "Module \<Rightarrow> (string \<times> TypeSpec list) list" where
  "embed_decls md =
     map struct_types (mod_structs md) @ map union_types (mod_unions md) @
     concat (map (\<lambda>i. map struct_types (i_structs i) @ map union_types (i_unions i)) (mod_interfaces md))"

definition local_keys :: "Module \<Rightarrow> string list" where
  "local_keys md = remdups (map fst (embed_decls md))"

text \<open>The edges \<open>add_owner\<close> adds for one field, from the embedded type to its owner.\<close>

definition field_edges :: "string list \<Rightarrow> string \<Rightarrow> TypeSpec \<Rightarrow> (string \<times> string) list" where
  "field_edges locals owner ty =
     map (\<lambda>d. (d, owner)) (remdups (filter (\<lambda>d. d \<in> set locals) (AppendCompleteTypeDeps ty)))"

definition embed_edges :: "Module \<Rightarrow> (string \<times> string) list" where
  "embed_edges md =
     concat (map (\<lambda>(owner, tys). concat (map (field_edges (local_keys md) owner) tys)) (embed_decls md))"

subsection \<open>The sort\<close>

type_synonym edges = "(string \<times> string) list"

definition outgoing :: "edges \<Rightarrow> string \<Rightarrow> string list" where
  "outgoing es n = map snd (filter (\<lambda>e. fst e = n) es)"

definition indegree :: "edges \<Rightarrow> string \<Rightarrow> int" where
  "indegree es n = int (length (filter (\<lambda>e. snd e = n) es))"

definition relax :: "string \<Rightarrow> (string \<Rightarrow> int) \<times> string list \<Rightarrow> (string \<Rightarrow> int) \<times> string list" where
  "relax n st =
     (case st of (indeg, ready) \<Rightarrow>
        (indeg(n := indeg n - 1), if indeg n - 1 = 0 then insort_insert n ready else ready))"

fun kahn :: "nat \<Rightarrow> edges \<Rightarrow> (string \<Rightarrow> int) \<Rightarrow> string list \<Rightarrow> nat \<Rightarrow> ((string \<Rightarrow> int) \<times> nat) option" where
  "kahn fuel es indeg [] seen = Some (indeg, seen)"
| "kahn 0 es indeg (n # ready) seen = None"
| "kahn (Suc fuel) es indeg (n # ready) seen =
     (let (indeg', ready') = fold relax (outgoing es n) (indeg, ready)
      in kahn fuel es indeg' ready' (seen + 1))"

definition embed_sort :: "Module \<Rightarrow> ((string \<Rightarrow> int) \<times> nat) option" where
  "embed_sort md =
     (let es = embed_edges md; locals = local_keys md
      in kahn (length locals) es (indegree es) (sort (filter (\<lambda>n. indegree es n = 0) locals)) 0)"

text \<open>
  The name in the message is that of a declaration left with a positive count.  The source
  takes the first in the order of a hash map, the model the first in the order of the file.
\<close>

definition CheckCompleteTypeAcyclic :: "Module \<Rightarrow> unit parser" where
  "CheckCompleteTypeAcyclic md =
     (case embed_sort md of
        None \<Rightarrow> pfail OutOfFuel
      | Some (indeg, seen) \<Rightarrow>
          if seen = length (local_keys md) then preturn ()
          else
            (pbind (pget Cur) (\<lambda>t.
             let cyc = (case find (\<lambda>n. 0 < indeg n) (local_keys md) of Some n \<Rightarrow> n | None \<Rightarrow> []) in
             pthrow (quoted cyc @ '' embeds another struct/union by value in a cycle ''
                 @ ''(direct member, optional, or array<T, N>) -- array<T> and ''
                 @ ''map<K, T> may reference T while T is still incomplete ''
                 @ ''(generated as WASMSafeSpace CageVector/CageMap)'') (tk_line t))))"

end
