(* ===== verification/Voodoom_Parser.thy ===== *)
theory Voodoom_Parser
  imports Voodoom_Bodies Embed_Order
begin

text \<open>
  The two entry points of the parser, \<open>ParseHeader\<close> and \<open>ParseBody\<close>, and \<open>Parse\<close>, which
  composes them (\<open>src/parser.cc\<close>).
\<close>

subsection \<open>The header\<close>

definition ConsumeHeaderAttributeList :: "bool parser" where
  "ConsumeHeaderAttributeList =
     pif (At kLBracket)
       (pbind ParseAttributeList (\<lambda>attrs.
        pif (\<lambda>st. AtKeyword ''module'' st \<or> AtKeyword ''import'' st)
            (preturn True)
            (pbind (pmodify (\<lambda>st. st\<lparr>ps_leftover_attrs := Some attrs\<rparr>)) (\<lambda>_.
             preturn False))))
       (preturn False)"

definition ParseImport :: "ImportDecl parser" where
  "ParseImport =
     (pbind (ExpectKeyword ''import'') (\<lambda>_.
      pbind (pget Cur) (\<lambda>line_tok.
      pbind (Expect kStringLiteral ''import path string'') (\<lambda>path.
      pbind (Expect kSemi (quoted '';'' @ '' after import statement'')) (\<lambda>_.
      preturn \<lparr>im_path = tk_text path, im_line = tk_line line_tok, im_resolved_path = []\<rparr>)))))"

definition parse_module_stmt :: "string parser" where
  "parse_module_stmt =
     (pbind Advance (\<lambda>_.
      pbind (Expect kName ''module name'') (\<lambda>name.
      pbind (names_after kDot ''module name segment'') (\<lambda>more.
      pbind (Expect kSemi (quoted '';'' @ '' after module name'')) (\<lambda>_.
      let n = join_dots (tk_text name # map tk_text more) in
      pbind (pmodify (\<lambda>st. st\<lparr>ps_module_name := n\<rparr>)) (\<lambda>_.
      preturn n))))))"

text \<open>The loop over the imports ends at a declaration or at attributes that belong to one.\<close>

definition parse_imports :: "ImportDecl list parser" where
  "parse_imports =
     (pbind (ploop (\<lambda>(_, more) st. more \<and> (At kLBracket st \<or> AtKeyword ''import'' st))
          (\<lambda>(imports, _).
             (pbind (pif (At kLBracket) ConsumeHeaderAttributeList (preturn True)) (\<lambda>go.
              pif (\<lambda>st. go \<and> AtKeyword ''import'' st)
                  (pbind ParseImport (\<lambda>i.
                   preturn (imports @ [i], True)))
                  (preturn (imports, False)))))
          ([], True)) (\<lambda>(imports, _).
      preturn imports))"

definition ParseHeader :: "FileHeader parser" where
  "ParseHeader =
     (pbind (pif (At kLBracket) ConsumeHeaderAttributeList (preturn True)) (\<lambda>go.
      (if \<not> go then preturn \<lparr>fh_module_name = [], fh_imports = []\<rparr>
         else
           (pbind (pif (AtKeyword ''module'') parse_module_stmt (preturn [])) (\<lambda>name.
            pbind parse_imports (\<lambda>imports.
            preturn \<lparr>fh_module_name = name, fh_imports = imports\<rparr>))))))"

subsection \<open>What the imports made visible\<close>

definition seed_enum :: "EnumDecl \<Rightarrow> PState \<Rightarrow> PState" where
  "seed_enum e st =
     st\<lparr>ps_declared := (ps_declared st)\<lparr>dn_enums := insert (e_name e) (dn_enums (ps_declared st))\<rparr>,
       ps_enum_values := (ps_enum_values st)(e_name e \<mapsto> e)\<rparr>"

definition seed_nested_enum :: "string \<Rightarrow> EnumDecl \<Rightarrow> PState \<Rightarrow> PState" where
  "seed_nested_enum container e st =
     (seed_enum e st)\<lparr>ps_container_by_name := (ps_container_by_name st)(e_name e \<mapsto> container),
       ps_container_enums := insert_at container (e_name e) (ps_container_enums st)\<rparr>"

definition seed_const :: "string option \<Rightarrow> ConstDecl \<Rightarrow> PState \<Rightarrow> PState" where
  "seed_const container c st =
     st\<lparr>ps_const_by_name := (ps_const_by_name st)(c_name c \<mapsto> c),
       ps_const_container := (case container of
          Some k \<Rightarrow> (ps_const_container st)(c_name c \<mapsto> k) | None \<Rightarrow> ps_const_container st)\<rparr>"

text \<open>\<open>embed_order_\<close> and the counter, advanced past a declaration of the prelude.\<close>

definition seed_order :: "string \<Rightarrow> nat \<Rightarrow> PState \<Rightarrow> PState" where
  "seed_order key index st =
     st\<lparr>ps_embed_order := (ps_embed_order st)(key \<mapsto> index),
       ps_next_embed_order := max (ps_next_embed_order st) (index + 1)\<rparr>"

definition seed_struct :: "StructDecl \<Rightarrow> PState \<Rightarrow> PState" where
  "seed_struct s st =
     fold (seed_const (Some (s_name s))) (s_consts s)
       (fold (seed_nested_enum (s_name s)) (s_enums s)
         (seed_order (s_name s) (s_decl_index s)
           (st\<lparr>ps_declared := (ps_declared st)\<lparr>dn_structs := insert (s_name s) (dn_structs (ps_declared st))\<rparr>\<rparr>)))"

definition seed_union :: "UnionDecl \<Rightarrow> PState \<Rightarrow> PState" where
  "seed_union u st =
     seed_order (u_name u) (u_decl_index u)
       (st\<lparr>ps_declared := (ps_declared st)\<lparr>dn_unions := insert (u_name u) (dn_unions (ps_declared st))\<rparr>\<rparr>)"

definition seed_nested_struct :: "string \<Rightarrow> StructDecl \<Rightarrow> PState \<Rightarrow> PState" where
  "seed_nested_struct iface s st =
     (let d = ps_declared st
      in fold (seed_const (Some (s_name s))) (s_consts s)
           (fold (seed_nested_enum (s_name s)) (s_enums s)
             (seed_order (EmbedDeclKey iface (s_name s)) (s_decl_index s)
               (st\<lparr>ps_declared := d\<lparr>dn_structs := insert (s_name s) (dn_structs d),
                  dn_struct_container := (dn_struct_container d)(s_name s \<mapsto> iface),
                  dn_container_structs := insert_at iface (s_name s) (dn_container_structs d)\<rparr>\<rparr>))))"

definition seed_nested_union :: "string \<Rightarrow> UnionDecl \<Rightarrow> PState \<Rightarrow> PState" where
  "seed_nested_union iface u st =
     (let d = ps_declared st
      in seed_order (EmbedDeclKey iface (u_name u)) (u_decl_index u)
           (st\<lparr>ps_declared := d\<lparr>dn_unions := insert (u_name u) (dn_unions d),
              dn_union_container := (dn_union_container d)(u_name u \<mapsto> iface),
              dn_container_unions := insert_at iface (u_name u) (dn_container_unions d)\<rparr>\<rparr>))"

definition seed_interface :: "Interface \<Rightarrow> PState \<Rightarrow> PState" where
  "seed_interface i st =
     fold (seed_nested_union (i_name i)) (i_unions i)
       (fold (seed_nested_struct (i_name i)) (i_structs i)
         (fold (seed_const (Some (i_name i))) (i_consts i)
           (fold (seed_nested_enum (i_name i)) (i_enums i) st)))"

definition SeedFromPrelude :: "Prelude \<Rightarrow> PState \<Rightarrow> PState" where
  "SeedFromPrelude prelude st =
     (let m = pr_module prelude
      in fold (\<lambda>ft. fold (seed_const (Some (ft_name ft))) (ft_consts ft)) (mod_features m)
           (fold (seed_const None) (mod_consts m)
             (fold seed_interface (mod_interfaces m)
               (fold seed_enum (mod_enums m)
                 (fold seed_union (mod_unions m)
                   (fold seed_struct (mod_structs m)
                     (st\<lparr>ps_owner_by_name := pr_owner_by_name prelude\<rparr>)))))))"

subsection \<open>The declarations\<close>

definition top_attrs :: "ParsedAttribute list parser" where
  "top_attrs =
     (pbind (pget ps_leftover_attrs) (\<lambda>l.
      (case l of
           Some attrs \<Rightarrow> (pbind (pmodify (\<lambda>st. st\<lparr>ps_leftover_attrs := None\<rparr>)) (\<lambda>_.
                                     preturn attrs))
         | None \<Rightarrow> attrs_if_any)))"

definition top_decl :: "Module \<Rightarrow> Module parser" where
  "top_decl md =
     (pbind top_attrs (\<lambda>attrs.
      pif (AtKeyword ''interface'')
          (pbind (ParseInterface attrs) (\<lambda>i.
           preturn (md\<lparr>mod_interfaces := mod_interfaces md @ [i]\<rparr>)))
        (pif (AtKeyword ''union'')
          (pbind (ParseUnion attrs) (\<lambda>u.
           pbind (take_embed_index (u_name u)) (\<lambda>order.
           preturn (md\<lparr>mod_unions := mod_unions md @ [u\<lparr>u_decl_index := order\<rparr>]\<rparr>))))
        (pif (AtKeyword ''enum'')
          (pbind (ParseEnum attrs) (\<lambda>e.
           preturn (md\<lparr>mod_enums := mod_enums md @ [e]\<rparr>)))
        (pif (AtKeyword ''struct'')
          (pbind (ParseStruct attrs) (\<lambda>s.
           pbind (take_embed_index (s_name s)) (\<lambda>order.
           preturn (md\<lparr>mod_structs := mod_structs md @ [s\<lparr>s_decl_index := order\<rparr>]\<rparr>))))
        (pif (AtKeyword ''const'')
          (pbind (add_const None attrs) (\<lambda>c.
           preturn (md\<lparr>mod_consts := mod_consts md @ [c]\<rparr>)))
        (pif (AtKeyword ''feature'')
          (pbind ParseFeature (\<lambda>ft.
           pbind (pfold FillEnableIf attrs (ft_enable_if ft)) (\<lambda>ei.
           preturn (md\<lparr>mod_features := mod_features md @ [ft\<lparr>ft_enable_if := ei\<rparr>]\<rparr>))))
          (pbind (pget Cur) (\<lambda>t.
           pthrow (''expected '' @ quoted ''interface'' @ '', '' @ quoted ''union'' @ '', '' @ quoted ''enum''
               @ '', '' @ quoted ''struct'' @ '', '' @ quoted ''const'' @ '', or '' @ quoted ''feature''
               @ '' after attribute list'' @ got t) (tk_line t))))))))))"

definition starts_decl :: "PState \<Rightarrow> bool" where
  "starts_decl st \<longleftrightarrow> ps_leftover_attrs st \<noteq> None \<or> At kLBracket st \<or> AtKeyword ''interface'' st \<or>
     AtKeyword ''union'' st \<or> AtKeyword ''enum'' st \<or> AtKeyword ''struct'' st \<or> AtKeyword ''const'' st \<or>
     AtKeyword ''feature'' st"

definition body_step :: "Module \<Rightarrow> Module parser" where
  "body_step md =
     pif starts_decl (top_decl md)
       (pbind (pget Cur) (\<lambda>t.
        pif (AtKeyword ''module'')
            (pthrow (quoted ''module'' @ '' statement must be the first thing in the file'') (tk_line t))
            (pif (AtKeyword ''import'')
               (pthrow (quoted ''import'' @ '' statements must come before any other declaration'') (tk_line t))
               (pthrow (''expected '' @ quoted ''interface'' @ '', '' @ quoted ''struct'' @ '', ''
                  @ quoted ''union'' @ '', '' @ quoted ''enum'' @ '', or '' @ quoted ''const'' @ got t)
                  (tk_line t)))))"

definition ParseBody :: "Prelude option \<Rightarrow> Module parser" where
  "ParseBody prelude =
     (pbind (pmodify (\<lambda>st. st\<lparr>ps_local_names := ps_local_names st \<union> dn_enums (ps_declared st)
            \<union> dn_structs (ps_declared st) \<union> dn_unions (ps_declared st),
          ps_local_enum_values := ps_enum_values st\<rparr>)) (\<lambda>_.
      pbind (pmodify (\<lambda>st. case prelude of Some p \<Rightarrow> SeedFromPrelude p st | None \<Rightarrow> st)) (\<lambda>_.
      pbind (ploop (\<lambda>_ st. \<not> At kEnd st) body_step new_module) (\<lambda>md.
      pbind (pget ps_pending_result_unions) (\<lambda>pending.
      let md = md\<lparr>mod_unions := mod_unions md @ pending\<rparr> in
      pbind (CheckCompleteTypeAcyclic md) (\<lambda>_.
      preturn md))))))"

subsection \<open>A whole file\<close>

definition new_parser :: "Token list \<Rightarrow> PFail + PState" where
  "new_parser tokens =
     (case CollectEnumValues tokens Map.empty of
        Inl e \<Rightarrow> Inl e
      | Inr enums \<Rightarrow> Inr \<lparr>ps_rest = tokens, ps_module_name = [], ps_declared = CollectDeclaredNames tokens,
          ps_enum_values = enums, ps_local_names = {}, ps_local_enum_values = Map.empty,
          ps_const_by_name = Map.empty, ps_next_const_order = 0, ps_embed_order = Map.empty,
          ps_next_embed_order = 0, ps_pending_result_unions = [], ps_owner_by_name = Map.empty,
          ps_container_by_name = Map.empty, ps_container_enums = Map.empty,
          ps_const_container = Map.empty, ps_leftover_attrs = None\<rparr>)"

definition parse_file :: "Prelude option \<Rightarrow> Module parser" where
  "parse_file prelude =
     (pbind ParseHeader (\<lambda>header.
      pbind (ParseBody prelude) (\<lambda>md.
      preturn (md\<lparr>mod_name := fh_module_name header, mod_imports := fh_imports header\<rparr>))))"

definition Parse :: "Token list \<Rightarrow> PFail + Module" where
  "Parse tokens =
     (case new_parser tokens of
        Inl e \<Rightarrow> Inl e
      | Inr st \<Rightarrow> (case parse_file None st of Ok md _ \<Rightarrow> Inr md | Fail e \<Rightarrow> Inl e))"

end
