(* ===== verification/Embed_Acyclic.thy ===== *)
theory Embed_Acyclic
  imports Embed_Order
begin

text \<open>
  Correctness of the topological sort: it visits every declaration exactly when the graph of
  by-value embeddings is acyclic, and its fuel, the number of declarations, is enough.
\<close>

subsection \<open>One iteration\<close>

lemma fold_relax:
  assumes "\<And>x. int (count_list outs x) \<le> indeg x" "sorted ready" "distinct ready"
    and "fold relax outs (indeg, ready) = (indeg', ready')"
  shows "(\<forall>x. indeg' x = indeg x - int (count_list outs x)) \<and> sorted ready' \<and> distinct ready' \<and>
    set ready' = set ready \<union> {x \<in> set outs. indeg x = int (count_list outs x)}"
  using assms
proof (induction outs arbitrary: indeg ready)
  case (Cons y ys)
  let ?i = "indeg(y := indeg y - 1)" and ?r = "if indeg y - 1 = 0 then insort_insert y ready else ready"
  have "int (count_list ys x) \<le> ?i x" for x using Cons(2) [of x] by (auto split: if_splits)
  moreover have "sorted ?r" "distinct ?r"
    using Cons(3,4) by (simp_all add: sorted_insort_insert distinct_insort_insert)
  moreover have "fold relax ys (?i, ?r) = (indeg', ready')"
  proof -
    have "relax y (indeg, ready) = (?i, ?r)" by (simp add: relax_def)
    with Cons(5) show ?thesis by (simp only: fold_simps)
  qed
  ultimately have IH: "(\<forall>x. indeg' x = ?i x - int (count_list ys x)) \<and> sorted ready' \<and> distinct ready' \<and>
      set ready' = set ?r \<union> {x \<in> set ys. ?i x = int (count_list ys x)}"
    by (rule Cons.IH)
  have y: "y \<notin> set ys \<longleftrightarrow> count_list ys y = 0" by (simp add: count_list_0_iff)
  have ge: "int (count_list ys y) + 1 \<le> indeg y" using Cons(2) [of y] by simp
  have "set ?r \<union> {x \<in> set ys. ?i x = int (count_list ys x)} =
      set ready \<union> {x \<in> set (y # ys). indeg x = int (count_list (y # ys) x)}"
    using y ge by (auto simp: set_insort_insert)
  with IH show ?case by auto
qed simp

subsection \<open>The loop\<close>

text \<open>What remains to be removed before a declaration is ready.\<close>

definition pending :: "edges \<Rightarrow> string list \<Rightarrow> string \<Rightarrow> int" where
  "pending es dn n = int (length (filter (\<lambda>e. snd e = n \<and> fst e \<notin> set dn) es))"

lemma pending_outgoing:
  assumes "n \<notin> set dn"
  shows "pending es dn x = pending es (n # dn) x + int (count_list (outgoing es n) x)"
  using assms by (induction es) (auto simp: pending_def outgoing_def)

lemma pending_nonneg: "0 \<le> pending es dn x"
  by (simp add: pending_def)

lemma pending_zero_iff: "pending es dn n = 0 \<longleftrightarrow> (\<forall>d. (d, n) \<in> set es \<longrightarrow> d \<in> set dn)"
  by (auto simp: pending_def filter_empty_conv)

text \<open>The declarations done, last first, each after those it embeds.\<close>

inductive topo :: "edges \<Rightarrow> string list \<Rightarrow> bool" for es where
  topo_Nil: "topo es []"
| topo_Cons: "topo es dn \<Longrightarrow> n \<notin> set dn \<Longrightarrow> (\<And>d. (d, n) \<in> set es \<Longrightarrow> d \<in> set dn) \<Longrightarrow> topo es (n # dn)"

definition kahn_inv :: "edges \<Rightarrow> string list \<Rightarrow> string list \<Rightarrow> (string \<Rightarrow> int) \<Rightarrow> string list \<Rightarrow> bool" where
  "kahn_inv es locals dn indeg ready \<longleftrightarrow>
     topo es dn \<and> set dn \<subseteq> set locals \<and> indeg = pending es dn \<and> sorted ready \<and> distinct ready \<and>
     set ready = {n \<in> set locals - set dn. pending es dn n = 0}"

lemma topo_distinct: "topo es dn \<Longrightarrow> distinct dn"
  by (induction rule: topo.induct) auto

lemma topo_pred: "topo es dn \<Longrightarrow> (d, x) \<in> set es \<Longrightarrow> x \<in> set dn \<Longrightarrow> d \<in> set dn"
  by (induction rule: topo.induct) auto

lemma kahn_inv_step:
  assumes inv: "kahn_inv es locals dn indeg (n # ready)" and edges: "snd ` set es \<subseteq> set locals"
    and step: "fold relax (outgoing es n) (indeg, ready) = (indeg', ready')"
  shows "kahn_inv es locals (n # dn) indeg' ready'"
proof -
  have n: "n \<in> set locals" "n \<notin> set dn" "pending es dn n = 0" "n \<notin> set ready"
    and r: "set (n # ready) = {m \<in> set locals - set dn. pending es dn m = 0}"
    and i: "indeg = pending es dn" and sd: "sorted ready" "distinct ready"
    using inv unfolding kahn_inv_def by auto
  have t: "topo es (n # dn)"
    using inv n by (auto simp: kahn_inv_def pending_zero_iff intro: topo_Cons)
  have pend: "pending es dn x = pending es (n # dn) x + int (count_list (outgoing es n) x)" for x
    by (rule pending_outgoing [OF n(2)])
  have f: "(\<forall>x. indeg' x = indeg x - int (count_list (outgoing es n) x)) \<and> sorted ready' \<and> distinct ready' \<and>
      set ready' = set ready \<union> {x \<in> set (outgoing es n). indeg x = int (count_list (outgoing es n) x)}"
    by (rule fold_relax [OF _ sd step]) (use i pend pending_nonneg in \<open>smt (verit)\<close>)
  have "indeg' = pending es (n # dn)" using f i pend by auto
  moreover have "set ready' = {m \<in> set locals - set (n # dn). pending es (n # dn) m = 0}"
  proof -
    have out: "x \<in> set locals \<and> x \<notin> set dn \<and> x \<noteq> n" if "x \<in> set (outgoing es n)" for x
    proof -
      have e: "(n, x) \<in> set es" using that by (auto simp: outgoing_def)
      have "x \<notin> set dn" using inv e n(2) unfolding kahn_inv_def
        by (metis (no_types, lifting) topo_pred)
      moreover have "x \<noteq> n" using e n(2,3) by (auto simp: pending_zero_iff)
      ultimately show ?thesis using edges e by force
    qed
    have cnt: "count_list (outgoing es n) x = 0" if "x \<notin> set (outgoing es n)" for x
      using that by (simp add: count_list_0_iff)
    have zero: "pending es dn x = 0" if "x \<in> set ready" for x using r that by auto
    have "x \<in> set ready' \<longleftrightarrow> x \<in> set locals \<and> x \<notin> set dn \<and> x \<noteq> n \<and> pending es (n # dn) x = 0" for x
      using f i pend [of x] out [of x] cnt [of x] r n zero [of x] pending_nonneg [of es "n # dn" x] by (cases "x \<in> set (outgoing es n)") auto
    then show ?thesis by auto
  qed
  ultimately show ?thesis using t inv n f by (auto simp: kahn_inv_def)
qed

lemma kahn_run:
  assumes "kahn_inv es locals dn indeg ready" "snd ` set es \<subseteq> set locals" "distinct locals"
    and "fuel + length dn = length locals"
  shows "\<exists>dn'. kahn fuel es indeg ready (length dn) = Some (pending es dn', length dn') \<and>
    kahn_inv es locals dn' (pending es dn') []"
  using assms(1,4)
proof (induction fuel arbitrary: dn indeg ready)
  case 0
  have "set dn \<subseteq> set locals" "distinct dn" using 0(1) by (auto simp: kahn_inv_def topo_distinct)
  with 0(2) assms(3) have "set dn = set locals"
    by (metis add_0 card_subset_eq distinct_card List.finite_set)
  with 0(1) have "ready = []" unfolding kahn_inv_def by (metis (lifting) Diff_cancel Collect_empty_eq empty_iff set_empty)
  with 0(1) show ?case by (auto simp: kahn_inv_def intro!: exI [of _ dn])
next
  case (Suc fuel)
  show ?case
  proof (cases ready)
    case Nil
    with Suc.prems(1) show ?thesis by (auto simp: kahn_inv_def intro!: exI [of _ dn])
  next
    case (Cons n ready1)
    obtain indeg' ready' where step: "fold relax (outgoing es n) (indeg, ready1) = (indeg', ready')"
      by fastforce
    from kahn_inv_step [OF _ assms(2) step] Suc.prems(1) Cons
    have "kahn_inv es locals (n # dn) indeg' ready'" by simp
    from Suc.IH [OF this] Suc.prems(2) Cons step show ?thesis by simp
  qed
qed

subsection \<open>Acyclicity\<close>

fun topo_rank :: "string list \<Rightarrow> string \<Rightarrow> nat" where
  "topo_rank [] x = 0"
| "topo_rank (n # dn) x = (if x = n then Suc (length dn) else topo_rank dn x)"

lemma topo_rank_le: "topo_rank dn x \<le> length dn"
  by (induction dn) auto

lemma topo_rank_less: "topo es dn \<Longrightarrow> (d, n) \<in> set es \<Longrightarrow> n \<in> set dn \<Longrightarrow> topo_rank dn d < topo_rank dn n"
proof (induction rule: topo.induct)
  case (topo_Cons dn m)
  show ?case
  proof (cases "n = m")
    case True
    then have "d \<in> set dn" using topo_Cons by blast
    then have "d \<noteq> m" using topo_Cons(2) by blast
    then show ?thesis using True topo_rank_le [of dn d] by simp
  next
    case False
    then have "n \<in> set dn" using topo_Cons.prems by simp
    then have "d \<in> set dn" using topo_pred [OF topo_Cons(1)] topo_Cons.prems by blast
    then have "d \<noteq> m" using topo_Cons(2) by blast
    then show ?thesis using False topo_Cons.IH topo_Cons.prems \<open>n \<in> set dn\<close> by simp
  qed
qed simp

lemma kahn_complete_iff:
  assumes inv: "kahn_inv es locals dn indeg []" and edges: "set es \<subseteq> set locals \<times> set locals"
    and "distinct locals"
  shows "length dn = length locals \<longleftrightarrow> acyclic (set es)"
proof
  assume len: "length dn = length locals"
  have "set dn \<subseteq> set locals" "distinct dn" "topo es dn" using inv by (auto simp: kahn_inv_def topo_distinct)
  with len assms(3) have "set dn = set locals" by (metis card_subset_eq distinct_card List.finite_set)
  then have "set es \<subseteq> measure (topo_rank dn)"
    using edges topo_rank_less [OF \<open>topo es dn\<close>] by auto
  then show "acyclic (set es)" by (rule acyclic_subset [OF wf_acyclic [OF wf_measure]])
next
  assume "acyclic (set es)"
  then have wf: "wf (set es)" by (simp add: finite_acyclic_wf)
  have "set locals - set dn = {}"
  proof (rule ccontr)
    assume "set locals - set dn \<noteq> {}"
    then obtain n where n: "n \<in> set locals - set dn" "\<And>d. (d, n) \<in> set es \<Longrightarrow> d \<notin> set locals - set dn"
      using wf by (metis (no_types, lifting) ex_in_conv wf_eq_minimal)
    then have "pending es dn n = 0" using edges by (auto simp: pending_zero_iff)
    with n inv show False by (auto simp: kahn_inv_def)
  qed
  then have "set dn = set locals" using inv by (auto simp: kahn_inv_def)
  then show "length dn = length locals"
    using inv assms(3) by (metis distinct_card kahn_inv_def topo_distinct)
qed

subsection \<open>The check of a module\<close>

lemma embed_edges_local: "set (embed_edges md) \<subseteq> set (local_keys md) \<times> set (local_keys md)"
  by (force simp: embed_edges_def field_edges_def local_keys_def)

lemma embed_sort_result:
  "\<exists>dn. embed_sort md = Some (pending (embed_edges md) dn, length dn) \<and>
     (length dn = length (local_keys md) \<longleftrightarrow> acyclic (set (embed_edges md)))"
proof -
  let ?es = "embed_edges md" and ?l = "local_keys md"
  have d: "distinct ?l" by (simp add: local_keys_def)
  have "indegree ?es = pending ?es []" by (auto simp: indegree_def pending_def)
  then have "kahn_inv ?es ?l [] (indegree ?es) (sort (filter (\<lambda>n. indegree ?es n = 0) ?l))"
    using d by (auto simp: kahn_inv_def intro: topo_Nil)
  from kahn_run [OF this _ d] obtain dn where
    "kahn (length ?l) ?es (indegree ?es) (sort (filter (\<lambda>n. indegree ?es n = 0) ?l)) 0
       = Some (pending ?es dn, length dn)" "kahn_inv ?es ?l dn (pending ?es dn) []"
    using embed_edges_local [of md] by force
  then show ?thesis
    using kahn_complete_iff [OF _ embed_edges_local d] by (auto simp: embed_sort_def Let_def)
qed

lemma check_acyclic_ok:
  "acyclic (set (embed_edges md)) \<Longrightarrow> CheckCompleteTypeAcyclic md st = Ok () st"
  using embed_sort_result [of md] by (auto simp: CheckCompleteTypeAcyclic_def preturn_def)

lemma check_acyclic_error:
  assumes "\<not> acyclic (set (embed_edges md))"
  shows "\<exists>msg. CheckCompleteTypeAcyclic md st = Fail (ParseError msg (tk_line (Cur st)))"
  using embed_sort_result [of md] assms
  by (auto simp: CheckCompleteTypeAcyclic_def pbind_def pget_def pthrow_def pfail_def Let_def)

lemma runs_check_acyclic [runs_intros]: "runs c n 0 (CheckCompleteTypeAcyclic md)"
proof (rule runsI)
  fix st
  show "CheckCompleteTypeAcyclic md st \<noteq> Fail OutOfFuel"
    using check_acyclic_ok [of md st] check_acyclic_error [of md st] by (cases "acyclic (set (embed_edges md))") auto
next
  fix st x st'
  assume "tokens_ok st" "CheckCompleteTypeAcyclic md st = Ok x st'"
  then show "tokens_ok st' \<and> length (ps_rest st') + 0 \<le> length (ps_rest st)"
    using check_acyclic_ok [of md st] check_acyclic_error [of md st] by (cases "acyclic (set (embed_edges md))") auto
qed

end
