(* ===== verification/Parser_Progress.thy ===== *)
theory Parser_Progress
  imports Voodoom_Parser Embed_Acyclic
begin

text \<open>
  Every loop of the parser ends: each parsing function keeps the end token in sight, does
  not put tokens back, and the body of each loop consumes one.  The fuel of the model is
  therefore enough, and \<open>Parse\<close> returns a module or one of the errors of the source.
\<close>

lemma ParseIntLiteral_fuel [simp]: "ParseIntLiteral neg s = Inl e \<Longrightarrow> e \<noteq> OutOfFuel"
  by (auto simp: ParseIntLiteral_def Let_def split: if_splits)

lemma next_int32_fuel [simp]: "next_int32 v = Inl e \<Longrightarrow> e \<noteq> OutOfFuel"
  by (auto simp: next_int32_def split: if_splits)

subsection \<open>Attributes and default values\<close>

lemmas eat_binds =
  runs_bind_eats1 [OF runs_Expect] runs_bind_eats1 [OF runs_ExpectKeyword]
  runs_bind_eats1 [OF runs_weaken [OF runs_type_spec]]
  runs_bind_eats2 [OF runs_fold]

lemma runs_attr_names [runs_intros]: "runs c n 0 parse_attr_names"
  unfolding parse_attr_names_def by (intro runs_intros runs_bind_good) simp_all

lemma runs_attr_value [runs_intros]: "runs c n 0 parse_attr_value"
  unfolding parse_attr_value_def by (intro runs_intros runs_bind_good) simp_all

lemma runs_attr_item: "runs c n (Suc 0) (attr_item acc)"
  unfolding attr_item_def by (intro eat_binds runs_intros runs_bind_good) simp_all

lemma runs_attrs: "runs c n (Suc 0) ParseAttributeList"
  unfolding ParseAttributeList_def by (intro eat_binds runs_attr_item runs_intros runs_bind_good) simp_all

lemma runs_attrs_if_any [runs_intros]: "runs c n 0 attrs_if_any"
  unfolding attrs_if_any_def by (intro runs_intros good_eats [OF runs_attrs])

lemmas attr_binds = runs_bind_eats2 [OF runs_attrs_if_any]

lemma runs_FillEnableIf [runs_intros]: "runs c n 0 (FillEnableIf a e)"
  unfolding FillEnableIf_def
  by (cases "pa_value a") (simp_all, (intro conjI impI runs_intros runs_bind_good)+)

lemma runs_min_version [runs_intros]: "runs c n 0 (min_version_attr a)"
  unfolding min_version_attr_def by (cases "pa_value a") (auto intro: runs_intros)

lemma runs_flag_attr [runs_intros]: "runs c n 0 (flag_attr a)"
  unfolding flag_attr_def by (intro runs_intros)

lemma runs_const_default [runs_intros]: "runs c n 0 (ResolveConstDefault t s l)"
  unfolding ResolveConstDefault_def by (intro runs_intros runs_bind_good)

lemma runs_const_reference [runs_intros]: "runs c n 0 (ResolveConstReference t)"
  unfolding ResolveConstReference_def by (intro runs_intros runs_bind_good) simp_all

lemma runs_named_default [runs_intros]: "runs c n 0 (named_default t f)"
  unfolding named_default_def by (intro runs_intros runs_bind_good)

lemma runs_default [runs_intros]: "runs c n 0 (ParseDefaultValue t)"
  unfolding ParseDefaultValue_def default_bool_def default_int_def default_float_def default_string_def
    default_enum_def default_other_def
  by (intro runs_intros runs_bind_good) simp_all

subsection \<open>Constants and enumerations\<close>

lemma runs_const: "runs c n (Suc 0) ParseConst"
  unfolding ParseConst_def by (intro eat_binds runs_intros runs_bind_good) simp_all

lemma runs_add_const: "runs c n (Suc 0) (add_const k attrs)"
  unfolding add_const_def by (intro runs_bind_eats1 [OF runs_const] runs_intros runs_bind_good) simp_all

lemma runs_enum_value_attr [runs_intros]: "runs c n 0 (enum_value_attr a v)"
  unfolding enum_value_attr_def by (intro runs_intros runs_bind_good)

lemma runs_enum_attr [runs_intros]: "runs c n 0 (enum_attr a e)"
  unfolding enum_attr_def by (intro runs_intros runs_bind_good)

lemma runs_enum_initializer [runs_intros]: "runs c n 0 (enum_initializer s vs k)"
  unfolding enum_initializer_def by (intro runs_intros runs_bind_good) simp_all

lemma runs_enum_value [runs_intros]: "runs c n 0 (ParseEnumValue vs k)"
  unfolding ParseEnumValue_def by (intro runs_intros runs_bind_good) simp_all

lemma comma_bind:
  "(\<And>x. good (n - Suc 0) (f x)) \<Longrightarrow> (\<And>st. c st \<Longrightarrow> At kComma st) \<Longrightarrow> runs c n (Suc 0) (pbind Advance f)"
  by (rule runs_bind_eats1 [OF runs_Advance_eats]) (auto simp: At_def)

lemma runs_enum_values [runs_intros]: "runs c n 0 enum_values"
  unfolding enum_values_def next_enum_value_def
  by (intro comma_bind runs_intros runs_bind_good) (auto simp: more_values_def)

lemma runs_enum: "runs c n (Suc 0) (ParseEnum attrs)"
  unfolding ParseEnum_def enum_body_def by (intro eat_binds runs_intros runs_bind_good) simp_all

subsection \<open>Structs and features\<close>

lemma runs_struct_attr [runs_intros]: "runs c n 0 (struct_attr a s)"
  unfolding struct_attr_def by (intro runs_intros runs_bind_good)

lemma runs_struct_field_attr [runs_intros]: "runs c n 0 (struct_field_attr a s)"
  unfolding struct_field_attr_def by (intro runs_intros runs_bind_good)

lemma runs_struct_field: "runs c n (Suc 0) (struct_field attrs)"
  unfolding struct_field_def by (intro eat_binds runs_intros runs_bind_good) simp_all

lemma runs_struct_member: "runs c n (Suc 0) (struct_member s)"
  unfolding struct_member_def
  by (intro attr_binds runs_bind_eats1 [OF runs_enum] runs_bind_eats1 [OF runs_add_const]
      runs_bind_eats1 [OF runs_struct_field] runs_intros)

lemma runs_struct: "runs c n (Suc 0) (ParseStruct attrs)"
  unfolding ParseStruct_def
  by (intro eat_binds runs_intros runs_bind_good runs_struct_member) simp_all

lemma runs_feature_member: "runs c n (Suc 0) (feature_member f)"
  unfolding feature_member_def
  by (intro attr_binds runs_bind_eats1 [OF runs_add_const] runs_bind_eats2 [OF runs_get] runs_intros)

lemma runs_feature: "runs c n (Suc 0) ParseFeature"
  unfolding ParseFeature_def
  by (intro eat_binds runs_intros runs_bind_good runs_feature_member) simp_all

subsection \<open>Unions\<close>

lemma next_free_None: "next_free k used n = None \<Longrightarrow> n < 2 ^ 32 \<Longrightarrow> i < k \<Longrightarrow> (n + i) mod 2 ^ 32 \<in> set used"
proof (induction k arbitrary: n i)
  case (Suc k)
  then have n: "n \<in> set used" "next_free k used (add32 n 1) = None" by (auto split: if_splits)
  show ?case
  proof (cases i)
    case 0
    then show ?thesis using n Suc(3) by simp
  next
    case (Suc j)
    have "(add32 n 1 + j) mod 2 ^ 32 \<in> set used"
      using Suc.IH [OF n(2)] Suc Suc.prems(3) by simp
    moreover have "(add32 n 1 + j) mod 2 ^ 32 = (n + i) mod 2 ^ 32"
      unfolding add32_def Suc by (simp add: mod_add_left_eq)
    ultimately show ?thesis by simp
  qed
qed simp

lemma next_free_Some:
  assumes "length used < 2 ^ 32" "n < 2 ^ 32"
  shows "\<exists>t. next_free (Suc (length used)) used n = Some t"
proof (rule ccontr)
  assume "\<nexists>t. next_free (Suc (length used)) used n = Some t"
  then have N: "next_free (Suc (length used)) used n = None" by simp
  let ?f = "\<lambda>i. (n + i) mod 2 ^ 32"
  have eq: "i = j" if "i \<le> j" "j < 2 ^ 32" "?f j = ?f i" for i j
  proof -
    have "2 ^ 32 dvd (n + j) - (n + i)" using that by (subst mod_eq_dvd_iff_nat [symmetric]) simp_all
    then have "2 ^ 32 dvd j - i" by simp
    moreover have "j - i < 2 ^ 32" using that by simp
    ultimately have "j - i = 0" by (metis dvd_imp_le linorder_not_le not_gr_zero)
    with that show ?thesis by simp
  qed
  have "inj_on ?f {..< Suc (length used)}"
  proof (rule inj_onI)
    fix i j
    assume "i \<in> {..< Suc (length used)}" "j \<in> {..< Suc (length used)}" "?f i = ?f j"
    moreover from this assms(1) have "i < 2 ^ 32" "j < 2 ^ 32" by auto
    ultimately show "i = j" using eq [of i j] eq [of j i] by (cases "i \<le> j") auto
  qed
  moreover have "?f ` {..< Suc (length used)} \<subseteq> set used"
    using next_free_None [OF N assms(2)] by blast
  ultimately have "Suc (length used) \<le> card (set used)"
    by (metis List.finite_set card_image card_lessThan card_mono)
  then show False using card_length [of used] by simp
qed

lemma next_free_bound: "next_free k used n = Some t \<Longrightarrow> n < 2 ^ 32 \<Longrightarrow> t < 2 ^ 32 \<and> t \<notin> set used"
  by (induction k arbitrary: n) (auto split: if_splits)

lemma assign_tags_Some:
  assumes "length used + length (filter (\<lambda>f. \<not> uf_has_explicit_tag f) fs) \<le> 2 ^ 32" "next < 2 ^ 32"
  shows "assign_tags used next fs \<noteq> None"
  using assms
proof (induction fs arbitrary: used "next")
  case (Cons f fs)
  show ?case
  proof (cases "uf_has_explicit_tag f")
    case False
    with Cons(2) have "length used < 2 ^ 32" by simp
    from next_free_Some [OF this Cons(3)] obtain t where t: "next_free (Suc (length used)) used next = Some t"
      by blast
    have "assign_tags (t # used) (add32 t 1) fs \<noteq> None"
      using Cons(2) False by (intro Cons.IH) (simp_all add: add32_def)
    then show ?thesis using t False by (simp del: next_free.simps)
  qed (use Cons in simp)
qed simp

lemma runs_retag:
  assumes "length fs \<le> 2 ^ 32"
  shows "runs c n 0 (retag fs)"
proof -
  have "length (map uf_tag (filter uf_has_explicit_tag fs)) + length (filter (\<lambda>f. \<not> uf_has_explicit_tag f) fs)
      \<le> 2 ^ 32"
    using assms by (simp only: length_map sum_length_filter_compl)
  from assign_tags_Some [OF this, of 0] show ?thesis
    unfolding retag_def by (auto intro!: runs_intros split: option.splits)
qed

lemma runs_union_attr [runs_intros]: "runs c n 0 (union_attr a s)"
  unfolding union_attr_def by (intro runs_intros runs_bind_good)

lemma runs_union_field_attr [runs_intros]: "runs c n 0 (union_field_attr a s)"
  unfolding union_field_attr_def by (intro runs_intros runs_bind_good)

lemma runs_union_field: "runs c n (Suc 0) (union_field k)"
  unfolding union_field_def by (intro attr_binds eat_binds runs_intros runs_bind_good) simp_all

lemma runs_union_member: "runs c n (Suc 0) (union_member acc)"
  unfolding union_member_def
  by (intro runs_intros runs_bind_eats1 [OF runs_union_field])

lemma union_member_size:
  "union_member acc st = Ok acc' st' \<Longrightarrow> length (u_fields (fst acc')) \<le> Suc (length (u_fields (fst acc)))"
  by (auto simp: union_member_def pbind_def preturn_def split: prod.splits presult.splits)

lemma runs_union_fields:
  assumes "n \<le> 2 ^ 32" "\<And>u k. length (u_fields u) \<le> 2 ^ 32 \<Longrightarrow> good n (f (u, k))" "u_fields u = []"
  shows "runs c n 0 (pbind (ploop (\<lambda>_ st. \<not> At kRBrace st) union_member (u, k)) f)"
proof (rule runs_bind_post [where Q = "\<lambda>acc. length (u_fields (fst acc)) \<le> 2 ^ 32"])
  fix st x st'
  assume "tokens_ok st" "length (ps_rest st) \<le> n"
    "ploop (\<lambda>_ st. \<not> At kRBrace st) union_member (u, k) st = Ok x st'"
  then have "length (u_fields (fst x)) + length (ps_rest st') \<le>
      length (u_fields (fst (u, k))) + length (ps_rest st)"
    by (intro ploop_size [where size = "\<lambda>acc. length (u_fields (fst acc))", OF runs_union_member])
      (simp_all add: union_member_size)
  then show "length (u_fields (fst x)) \<le> 2 ^ 32"
    using assms(1,3) \<open>length (ps_rest st) \<le> n\<close> by simp
qed (use assms(2) in \<open>auto intro: runs_intros runs_union_member\<close>)

lemma safe_FillEnableIf [returns_intros]: "safe J (FillEnableIf a e)"
  unfolding FillEnableIf_def
  by (cases "pa_value a") (simp_all, (intro conjI impI returns_intros returns_bind_any; simp)+)

lemma safe_flag_attr [returns_intros]: "safe J (flag_attr a)"
  unfolding flag_attr_def by (intro returns_intros) simp

lemma union_attr_fields: "returns J (pfold union_attr attrs new_union) (\<lambda>u. u_fields u = [])"
  unfolding union_attr_def
  by (rule returns_fold) (auto simp: new_union_def intro!: returns_intros returns_bind_any)

lemma runs_union:
  assumes "n \<le> 2 ^ 32"
  shows "runs c n (Suc 0) (ParseUnion attrs)"
proof -
  have "good (n - Suc 0) (pbind (pfold union_attr attrs new_union) f)"
    if "\<And>u. u_fields u = [] \<Longrightarrow> good (n - Suc 0) (f u)" for f :: "UnionDecl \<Rightarrow> UnionDecl parser"
    using that by (intro runs_bind_post [where Q = "\<lambda>u. u_fields u = []"] runs_intros)
      (auto dest: returnsD [OF union_attr_fields])
  note start = this
  have "n - Suc 0 \<le> 2 ^ 32" using assms by simp
  then show ?thesis
    unfolding ParseUnion_def
    by (intro runs_bind_eats1 [OF runs_ExpectKeyword] start runs_intros runs_union_fields runs_bind_good
        runs_retag) simp_all
qed

subsection \<open>Methods and interfaces\<close>

lemma runs_param_attr [runs_intros]: "runs c n 0 (param_attr a s)"
  unfolding param_attr_def by (intro runs_intros runs_bind_good)

lemma runs_param [runs_intros]: "runs c n 0 ParseParam"
  unfolding ParseParam_def by (intro runs_intros runs_bind_good) simp_all

lemma runs_params [runs_intros]: "runs c n 0 params_in_parens"
  unfolding params_in_parens_def ParseParamList_def
  by (intro comma_bind runs_intros runs_bind_good) simp_all

lemma runs_result_union [runs_intros]: "runs c n 0 (MakeResultUnion i m t e)"
  unfolding MakeResultUnion_def by (intro runs_intros runs_bind_good) simp_all

lemma runs_method_attr [runs_intros]: "runs c n 0 (method_attr a s)"
  unfolding method_attr_def by (intro runs_intros runs_bind_good)

lemma runs_ordinal [runs_intros]: "runs c n 0 (take_method_ordinal m)"
  unfolding take_method_ordinal_def by (intro runs_intros runs_bind_good) simp_all

lemma runs_response [runs_intros]: "runs c n 0 (parse_response i m)"
  unfolding parse_response_def by (intro runs_intros runs_bind_good) simp_all

lemma runs_method: "runs c n (Suc 0) (ParseMethod attrs i)"
  unfolding ParseMethod_def by (intro eat_binds runs_intros runs_bind_good) simp_all

lemma runs_interface_attr [runs_intros]: "runs c n 0 (interface_attr a s)"
  unfolding interface_attr_def by (intro runs_intros runs_bind_good)

lemma runs_embed_index [runs_intros]: "runs c n 0 (take_embed_index key)"
  unfolding take_embed_index_def by (intro runs_intros runs_bind_good) simp

lemma runs_interface_member:
  assumes "n \<le> 2 ^ 32"
  shows "runs c n (Suc 0) (interface_member acc)"
  unfolding interface_member_def using assms
  by (intro attr_binds runs_bind_eats1 [OF runs_enum] runs_bind_eats1 [OF runs_add_const]
      runs_bind_eats1 [OF runs_struct] runs_bind_eats1 [OF runs_union] runs_bind_eats1 [OF runs_method]
      runs_intros runs_bind_good)

lemma runs_interface:
  assumes "n \<le> 2 ^ 32"
  shows "runs c n (Suc 0) (ParseInterface attrs)"
  unfolding ParseInterface_def using assms
  by (intro eat_binds runs_intros runs_bind_good runs_interface_member) simp_all

subsection \<open>A whole file\<close>

lemma runs_split: "runs (\<lambda>st. c st \<and> d st) n k p \<Longrightarrow> runs (\<lambda>st. c st \<and> \<not> d st) n k p \<Longrightarrow> runs c n k p"
  unfolding runs_def by blast

lemma runs_False: "(\<And>st. \<not> c st) \<Longrightarrow> runs c n k p"
  by (simp add: runs_def)

lemma runs_header_attrs:
  assumes "\<And>st. c st \<Longrightarrow> At kLBracket st"
  shows "runs c n (Suc 0) ConsumeHeaderAttributeList"
  unfolding ConsumeHeaderAttributeList_def
  by (intro runs_if runs_bind_eats1 [OF runs_attrs] runs_bind_good runs_intros runs_False)
    (use assms in auto)

lemma runs_header_attrs0 [runs_intros]: "runs c n 0 ConsumeHeaderAttributeList"
  unfolding ConsumeHeaderAttributeList_def
  by (intro runs_if runs_bind_good good_eats [OF runs_attrs] runs_intros) simp_all

lemma runs_import: "runs c n (Suc 0) ParseImport"
  unfolding ParseImport_def by (intro eat_binds runs_intros runs_bind_good) simp_all

lemma runs_import_step:
  "runs (\<lambda>st. At kLBracket st \<or> AtKeyword ''import'' st) n (Suc 0)
     (pbind (pif (At kLBracket) ConsumeHeaderAttributeList (preturn True)) (\<lambda>go.
      pif (\<lambda>st. go \<and> AtKeyword ''import'' st) (pbind ParseImport (\<lambda>i. preturn (g i))) (preturn h)))"
  (is "runs ?c n _ (pbind ?p ?f)")
proof (rule runs_split [where d = "At kLBracket"])
  show "runs (\<lambda>st. ?c st \<and> At kLBracket st) n (Suc 0) (pbind ?p ?f)"
    by (intro runs_bind_eats1 runs_if runs_header_attrs runs_False runs_bind_good
        good_eats [OF runs_import] runs_intros) auto
  have "pbind ?p ?f st = ?f True st" if "\<not> At kLBracket st" for st
    using that by (simp add: pbind_def pif_def preturn_def)
  moreover have "runs (\<lambda>st. ?c st \<and> \<not> At kLBracket st) n (Suc 0) (?f True)"
    by (intro runs_if runs_bind_eats1 [OF runs_import] runs_intros runs_False) auto
  ultimately show "runs (\<lambda>st. ?c st \<and> \<not> At kLBracket st) n (Suc 0) (pbind ?p ?f)"
    unfolding runs_def by simp
qed

lemma runs_imports [runs_intros]: "runs c n 0 parse_imports"
  unfolding parse_imports_def
  by (intro runs_bind_good runs_ploop runs_case_prod runs_mono [OF runs_import_step] runs_intros) auto

lemma runs_header [runs_intros]: "runs c n 0 ParseHeader"
  unfolding ParseHeader_def parse_module_stmt_def by (intro runs_intros runs_bind_good) simp_all

lemma fold_keeps: "(\<And>x st. f (g x st) = f st) \<Longrightarrow> f (fold g xs st) = f st"
  by (induction xs arbitrary: st) auto

lemma seed_rest [simp]:
  "ps_rest (seed_enum e st) = ps_rest st" "ps_rest (seed_nested_enum k e st) = ps_rest st"
  "ps_rest (seed_const k' c st) = ps_rest st" "ps_rest (seed_order key i st) = ps_rest st"
  by (simp_all add: seed_enum_def seed_nested_enum_def seed_const_def seed_order_def)

lemma seed_decl_rest [simp]:
  "ps_rest (seed_struct s st) = ps_rest st" "ps_rest (seed_union u st) = ps_rest st"
  "ps_rest (seed_nested_struct k s st) = ps_rest st" "ps_rest (seed_nested_union k u st) = ps_rest st"
  by (simp_all add: seed_struct_def seed_union_def seed_nested_struct_def seed_nested_union_def Let_def
      fold_keeps [of ps_rest])

lemma seed_interface_rest [simp]: "ps_rest (seed_interface i st) = ps_rest st"
  by (simp add: seed_interface_def fold_keeps [of ps_rest])

lemma SeedFromPrelude_rest [simp]: "ps_rest (SeedFromPrelude p st) = ps_rest st"
  by (simp add: SeedFromPrelude_def Let_def fold_keeps [of ps_rest])

lemma runs_top_attrs: "runs c n 0 top_attrs"
  unfolding top_attrs_def by (intro runs_intros runs_bind_good) simp_all

lemma runs_top_decl:
  assumes "n \<le> 2 ^ 32"
  shows "runs c n (Suc 0) (top_decl md)"
  unfolding top_decl_def using assms
  by (intro runs_bind_eats2 [OF runs_top_attrs] runs_bind_eats2 [OF runs_get] runs_bind_eats1 [OF runs_enum]
      runs_bind_eats1 [OF runs_add_const] runs_bind_eats1 [OF runs_struct] runs_bind_eats1 [OF runs_union]
      runs_bind_eats1 [OF runs_interface] runs_bind_eats1 [OF runs_feature] runs_intros runs_bind_good)

lemma runs_body_step:
  assumes "n \<le> 2 ^ 32"
  shows "runs c n (Suc 0) (body_step md)"
  unfolding body_step_def using assms
  by (intro runs_intros runs_top_decl runs_bind_eats2 [OF runs_get])

lemma runs_body:
  assumes "n \<le> 2 ^ 32"
  shows "runs c n 0 (ParseBody prelude)"
  unfolding ParseBody_def using assms
  by (intro runs_intros runs_bind_good runs_body_step) (simp_all split: option.splits)

lemma runs_file: "n \<le> 2 ^ 32 \<Longrightarrow> runs c n 0 (parse_file prelude)"
  unfolding parse_file_def by (intro runs_intros runs_bind_good runs_body)

lemma scan_values_fuel: "scan_values ts n acc = Inl e \<Longrightarrow> e \<noteq> OutOfFuel"
proof (induction ts n acc rule: scan_values.induct)
  case (1 ts n acc)
  have "scan_initializer us k acc = Inl e' \<Longrightarrow> e' \<noteq> OutOfFuel" for us k e'
    by (auto simp: scan_initializer_def Let_def split: if_splits sum.splits)
  then show ?case
    using 1(3) 1(1) 1(2) [OF _ _ _ refl _ refl]
    by (subst (asm) scan_values.simps) (fastforce simp: Let_def split: if_splits sum.splits prod.splits)
qed

lemma CollectEnumValues_fuel: "CollectEnumValues ts m = Inl e \<Longrightarrow> e \<noteq> OutOfFuel"
proof (induction ts m rule: CollectEnumValues.induct)
  case (1 t u ts m)
  have "scan_enum (u # ts) = Inl e' \<Longrightarrow> e' \<noteq> OutOfFuel" for e'
    by (auto simp: scan_enum_def Let_def split: if_splits sum.splits dest: scan_values_fuel)
  then show ?case using 1 by (fastforce split: if_splits sum.splits prod.splits)
qed simp_all

lemma Parse_never_out_of_fuel:
  assumes "tokens \<noteq> []" "tk_type (last tokens) = kEnd" "length tokens \<le> 2 ^ 32"
  shows "Parse tokens \<noteq> Inl OutOfFuel"
proof (cases "new_parser tokens")
  case (Inl e)
  then show ?thesis
    by (auto simp: Parse_def new_parser_def split: sum.splits dest: CollectEnumValues_fuel)
next
  case (Inr st)
  then have "ps_rest st = tokens" by (auto simp: new_parser_def split: sum.splits)
  with assms runsD(2) [OF runs_file [of "2 ^ 32" "\<lambda>_. True" None], of st]
  show ?thesis using Inr by (auto simp: Parse_def tokens_ok_def split: presult.splits)
qed

end
