(* ===== verification/Voodoom_EnableIf.thy ===== *)
theory Voodoom_EnableIf
  imports Voodoom_Ast
begin

text \<open>
  The filter on \<open>[EnableIf]\<close> and \<open>[EnableIfNot]\<close> (\<open>src/parser.cc\<close>, from \<open>ClauseMatches\<close> to
  \<open>ApplyEnableIf\<close>): declarations, fields, methods and values whose clauses do not match the
  enabled flags are dropped, the versions recomputed, and unions left without a field dropped.
\<close>

definition ClauseMatches :: "EnableIfClause \<Rightarrow> string set \<Rightarrow> bool \<Rightarrow> bool" where
  "ClauseMatches clause enabled negate =
     (if ec_mode clause = kNone then True
      else let hit = (if ec_mode clause = kAny then \<exists>f \<in> set (ec_flags clause). f \<in> enabled
                      else ec_flags clause \<noteq> [] \<and> (\<forall>f \<in> set (ec_flags clause). f \<in> enabled))
           in if negate then \<not> hit else hit)"

definition IsDeclEnabled :: "EnableIf \<Rightarrow> string set \<Rightarrow> bool" where
  "IsDeclEnabled spec enabled \<longleftrightarrow>
     ClauseMatches (ei_enable_if spec) enabled False \<and> ClauseMatches (ei_enable_if_not spec) enabled True"

definition EraseDisabled :: "('a \<Rightarrow> EnableIf) \<Rightarrow> string set \<Rightarrow> 'a list \<Rightarrow> 'a list" where
  "EraseDisabled spec enabled xs = filter (\<lambda>x. IsDeclEnabled (spec x) enabled) xs"

text \<open>\<open>version = 0; for (...) version = max(version, x.min_version);\<close>\<close>

definition max_version :: "('a \<Rightarrow> nat) \<Rightarrow> 'a list \<Rightarrow> nat" where
  "max_version v xs = fold (\<lambda>x m. max m (v x)) xs 0"

definition FilterEnum :: "string set \<Rightarrow> EnumDecl \<Rightarrow> EnumDecl" where
  "FilterEnum enabled e = e\<lparr>e_values := EraseDisabled ev_enable_if enabled (e_values e)\<rparr>"

definition FilterStruct :: "string set \<Rightarrow> StructDecl \<Rightarrow> StructDecl" where
  "FilterStruct enabled s =
     (let fields = EraseDisabled sf_enable_if enabled (s_fields s)
      in s\<lparr>s_fields := fields,
           s_enums := map (FilterEnum enabled) (EraseDisabled e_enable_if enabled (s_enums s)),
           s_consts := EraseDisabled c_enable_if enabled (s_consts s),
           s_version := max_version sf_min_version fields\<rparr>)"

definition FilterUnion :: "string set \<Rightarrow> UnionDecl \<Rightarrow> UnionDecl" where
  "FilterUnion enabled u =
     (let fields = EraseDisabled uf_enable_if enabled (u_fields u)
      in u\<lparr>u_fields := fields, u_version := max_version uf_min_version fields\<rparr>)"

definition filter_unions :: "string set \<Rightarrow> UnionDecl list \<Rightarrow> UnionDecl list" where
  "filter_unions enabled us =
     filter (\<lambda>u. u_fields u \<noteq> []) (map (FilterUnion enabled) (EraseDisabled u_enable_if enabled us))"

definition FilterInterface :: "string set \<Rightarrow> Interface \<Rightarrow> Interface" where
  "FilterInterface enabled i =
     (let methods = EraseDisabled m_enable_if enabled (i_methods i)
      in i\<lparr>i_methods := methods,
           i_enums := map (FilterEnum enabled) (EraseDisabled e_enable_if enabled (i_enums i)),
           i_consts := EraseDisabled c_enable_if enabled (i_consts i),
           i_structs := map (FilterStruct enabled) (EraseDisabled s_enable_if enabled (i_structs i)),
           i_unions := filter_unions enabled (i_unions i),
           i_version := max_version m_min_version methods\<rparr>)"

definition ApplyEnableIf :: "string set \<Rightarrow> Module \<Rightarrow> Module" where
  "ApplyEnableIf enabled md =
     md\<lparr>mod_interfaces := map (FilterInterface enabled) (EraseDisabled i_enable_if enabled (mod_interfaces md)),
       mod_structs := map (FilterStruct enabled) (EraseDisabled s_enable_if enabled (mod_structs md)),
       mod_unions := filter_unions enabled (mod_unions md),
       mod_enums := map (FilterEnum enabled) (EraseDisabled e_enable_if enabled (mod_enums md)),
       mod_consts := EraseDisabled c_enable_if enabled (mod_consts md),
       mod_features := map (\<lambda>ft. ft\<lparr>ft_consts := EraseDisabled c_enable_if enabled (ft_consts ft)\<rparr>)
         (EraseDisabled ft_enable_if enabled (mod_features md))\<rparr>"

subsection \<open>Properties of the filter\<close>

lemma EraseDisabled_idem [simp]:
  "EraseDisabled spec enabled (EraseDisabled spec enabled xs) = EraseDisabled spec enabled xs"
  by (simp add: EraseDisabled_def)

lemma EraseDisabled_map:
  assumes "\<And>x. spec (f x) = spec x"
  shows "EraseDisabled spec enabled (map f (EraseDisabled spec enabled xs)) =
     map f (EraseDisabled spec enabled xs)"
  by (simp add: EraseDisabled_def filter_map comp_def assms)

lemma FilterEnum_spec [simp]: "e_enable_if (FilterEnum en e) = e_enable_if e"
  by (simp add: FilterEnum_def)

lemma FilterStruct_spec [simp]: "s_enable_if (FilterStruct en s) = s_enable_if s"
  by (simp add: FilterStruct_def Let_def)

lemma FilterUnion_spec [simp]: "u_enable_if (FilterUnion en u) = u_enable_if u"
  by (simp add: FilterUnion_def Let_def)

lemma FilterInterface_spec [simp]: "i_enable_if (FilterInterface en i) = i_enable_if i"
  by (simp add: FilterInterface_def Let_def)

lemma FilterEnum_idem [simp]: "FilterEnum en (FilterEnum en e) = FilterEnum en e"
  by (simp add: FilterEnum_def)

lemma map_EraseDisabled_idem:
  assumes "\<And>x. spec (f x) = spec x" "\<And>x. f (f x) = f x"
  shows "map f (EraseDisabled spec en (map f (EraseDisabled spec en xs))) = map f (EraseDisabled spec en xs)"
  by (simp add: EraseDisabled_map [of spec f, OF assms(1)] comp_def assms(2))

lemma FilterStruct_idem [simp]: "FilterStruct en (FilterStruct en s) = FilterStruct en s"
  by (simp add: FilterStruct_def Let_def map_EraseDisabled_idem)

lemma FilterUnion_idem [simp]: "FilterUnion en (FilterUnion en u) = FilterUnion en u"
  by (simp add: FilterUnion_def Let_def)

lemma filter_unions_idem [simp]: "filter_unions en (filter_unions en us) = filter_unions en us"
proof -
  let ?vs = "map (FilterUnion en) (EraseDisabled u_enable_if en us)"
  have "FilterUnion en v = v \<and> IsDeclEnabled (u_enable_if v) en" if "v \<in> set (filter_unions en us)" for v
    using that by (auto simp: filter_unions_def EraseDisabled_def)
  then have "map (FilterUnion en) (EraseDisabled u_enable_if en (filter_unions en us)) = filter_unions en us"
    by (auto simp: EraseDisabled_def intro!: map_idI filter_True [THEN trans])
  then show ?thesis by (simp add: filter_unions_def)
qed

lemma FilterInterface_idem [simp]: "FilterInterface en (FilterInterface en i) = FilterInterface en i"
  by (simp add: FilterInterface_def Let_def map_EraseDisabled_idem)

end
