(* ===== verification/Parser_Validity.thy ===== *)
theory Parser_Validity
  imports Parser_Progress Voodoom_EnableIf
begin

text \<open>
  Validity of the syntax tree: what the parser guarantees of every module it returns, and the
  proof that each parsing function returns valid parts.
\<close>

subsection \<open>Valid declarations\<close>

definition param_ok :: "Param \<Rightarrow> bool" where
  "param_ok p \<longleftrightarrow> type_spec_ok (p_type p) \<and> p_min_version p < 2 ^ 32 \<and> p_ordinal p < 2 ^ 32"

definition method_parts_ok :: "Method \<Rightarrow> bool" where
  "method_parts_ok m \<longleftrightarrow> list_all param_ok (m_params m) \<and> list_all param_ok (m_response_params m) \<and>
     m_min_version m < 2 ^ 32 \<and> (\<not> m_has_response m \<longrightarrow> m_response_params m = []) \<and>
     (m_has_explicit_ordinal m \<longrightarrow> m_ordinal m < 0xFFFFFFFE)"

definition method_ok :: "Method \<Rightarrow> bool" where
  "method_ok m \<longleftrightarrow> method_parts_ok m \<and> (m_is_sync m \<longrightarrow> m_has_response m)"

definition const_ok :: "ConstDecl \<Rightarrow> bool" where
  "const_ok c \<longleftrightarrow> type_spec_ok (c_type c) \<and> \<not> ts_nullable (c_type c) \<and> IsLegalConstType (ts_kind (c_type c)) \<and>
     dv_has_value (c_value c)"

definition int32_ok :: "int \<Rightarrow> bool" where
  "int32_ok v \<longleftrightarrow> - (2 ^ 31) \<le> v \<and> v < 2 ^ 31"

definition enum_value_ok :: "EnumValue \<Rightarrow> bool" where
  "enum_value_ok v \<longleftrightarrow> int32_ok (ev_value v) \<and> ev_min_version v < 2 ^ 32"

definition enum_ok :: "EnumDecl \<Rightarrow> bool" where
  "enum_ok e \<longleftrightarrow> list_all enum_value_ok (e_values e) \<and> length (filter ev_is_default (e_values e)) \<le> 1"

definition struct_field_ok :: "StructField \<Rightarrow> bool" where
  "struct_field_ok f \<longleftrightarrow> type_spec_ok (sf_type f) \<and> sf_min_version f < 2 ^ 32 \<and> sf_ordinal f < 2 ^ 32"

definition struct_ok :: "StructDecl \<Rightarrow> bool" where
  "struct_ok s \<longleftrightarrow> list_all struct_field_ok (s_fields s) \<and> list_all enum_ok (s_enums s) \<and>
     list_all const_ok (s_consts s) \<and> s_version s = max_version sf_min_version (s_fields s)"

definition union_field_ok :: "UnionField \<Rightarrow> bool" where
  "union_field_ok f \<longleftrightarrow> type_spec_ok (uf_type f) \<and> uf_min_version f < 2 ^ 32 \<and> uf_tag f < 2 ^ 32"

text \<open>
  Tags the parser chose differ from each other and from those the file gives, in a union of at
  most \<open>2 ^ 32\<close> fields.
\<close>

definition chosen_tags :: "UnionField list \<Rightarrow> nat list" where
  "chosen_tags fs = map uf_tag (filter (\<lambda>f. \<not> uf_has_explicit_tag f) fs)"

definition given_tags :: "UnionField list \<Rightarrow> nat list" where
  "given_tags fs = map uf_tag (filter uf_has_explicit_tag fs)"

definition tags_ok :: "UnionField list \<Rightarrow> bool" where
  "tags_ok fs \<longleftrightarrow> (length fs \<le> 2 ^ 32 \<longrightarrow> distinct (chosen_tags fs) \<and> set (chosen_tags fs) \<inter> set (given_tags fs) = {})"

definition union_ok :: "UnionDecl \<Rightarrow> bool" where
  "union_ok u \<longleftrightarrow> u_fields u \<noteq> [] \<and> list_all union_field_ok (u_fields u) \<and>
     length (filter uf_is_default (u_fields u)) \<le> 1 \<and>
     u_version u = max_version uf_min_version (u_fields u) \<and> tags_ok (u_fields u)"

text \<open>The ordinals of the methods without one: consecutive from zero.\<close>

definition implicit_ordinals :: "Method list \<Rightarrow> nat list" where
  "implicit_ordinals ms = map m_ordinal (filter (\<lambda>m. \<not> m_has_explicit_ordinal m) ms)"

definition ordinals_ok :: "Method list \<Rightarrow> bool" where
  "ordinals_ok ms \<longleftrightarrow> list_all m_has_explicit_ordinal ms \<or> map m_ordinal ms = map u32 [0..<length ms]"

definition interface_ok :: "Interface \<Rightarrow> bool" where
  "interface_ok i \<longleftrightarrow> list_all method_ok (i_methods i) \<and> ordinals_ok (i_methods i) \<and>
     i_version i = max_version m_min_version (i_methods i) \<and>
     list_all enum_ok (i_enums i) \<and> list_all const_ok (i_consts i) \<and>
     list_all (\<lambda>s. struct_ok s \<and> s_owner_container s = i_name i) (i_structs i) \<and>
     list_all (\<lambda>u. union_ok u \<and> u_owner_container u = i_name i) (i_unions i)"

definition feature_ok :: "FeatureDecl \<Rightarrow> bool" where
  "feature_ok ft \<longleftrightarrow> list_all const_ok (ft_consts ft)"

definition module_ok :: "Module \<Rightarrow> bool" where
  "module_ok md \<longleftrightarrow> list_all enum_ok (mod_enums md) \<and> list_all struct_ok (mod_structs md) \<and>
     list_all union_ok (mod_unions md) \<and> list_all interface_ok (mod_interfaces md) \<and>
     list_all const_ok (mod_consts md) \<and> list_all feature_ok (mod_features md)"

definition unions_ok :: "UnionDecl list \<Rightarrow> bool" where
  "unions_ok us \<longleftrightarrow> list_all union_ok us"

subsection \<open>Attributes, defaults and constants\<close>

lemma max_version_append [simp]: "max_version v (xs @ [x]) = max (max_version v xs) (v x)"
  by (simp add: max_version_def)

lemma max_version_Nil [simp]: "max_version v [] = 0"
  by (simp add: max_version_def)

lemma safe_attr_names [returns_intros]: "safe J parse_attr_names"
  unfolding parse_attr_names_def by (intro returns_intros returns_bind_any) simp_all

lemma safe_attr_value [returns_intros]: "safe J parse_attr_value"
  unfolding parse_attr_value_def by (intro returns_intros returns_bind_any) simp_all

lemma safe_attrs [returns_intros]: "safe J ParseAttributeList"
  unfolding ParseAttributeList_def attr_item_def by (intro returns_intros returns_bind_any) simp_all

lemma safe_attrs_if_any [returns_intros]: "safe J attrs_if_any"
  unfolding attrs_if_any_def by (intro returns_intros) simp

lemma returns_min_version: "returns J (min_version_attr a) (\<lambda>n. n < 2 ^ 32)"
proof -
  have "nat (v mod 2 ^ 32) < 2 ^ 32" for v :: int
    by (simp add: nat_less_iff)
  then show ?thesis unfolding min_version_attr_def to_uint32_def
    by (cases "pa_value a") (auto intro!: returns_intros)
qed

lemma safe_const_default [returns_intros]: "safe J (ResolveConstDefault t s l)"
  unfolding ResolveConstDefault_def by (intro returns_intros returns_bind_any) simp_all

lemma safe_const_reference [returns_intros]: "safe J (ResolveConstReference t)"
  unfolding ResolveConstReference_def by (intro returns_intros returns_bind_any) simp_all

lemma returns_named_default:
  "(\<And>v d. dv_has_value (copy v d) = dv_has_value d) \<Longrightarrow> returns J (named_default t copy) dv_has_value"
  unfolding named_default_def by (intro returns_intros returns_bind_any) simp_all

lemma returns_default: "returns J (ParseDefaultValue t) dv_has_value"
  unfolding ParseDefaultValue_def default_bool_def default_int_def default_float_def default_string_def
    default_enum_def default_other_def
  by (intro returns_named_default returns_intros returns_bind_any) simp_all

lemmas safe_default [returns_intros] = returns_safe [OF returns_default]

lemma returns_guard: "returns J (if b then pthrow m l else preturn ()) (\<lambda>_. \<not> b)"
  by (intro returns_intros) simp

lemma returns_const: "returns J ParseConst const_ok"
  unfolding ParseConst_def
  by (intro returns_bind [OF returns_type_spec] returns_bind [OF returns_default]
      returns_bind [OF returns_guard] returns_intros returns_bind_any)
    (simp_all add: const_ok_def new_const_def)

lemma returns_add_const: "returns J (add_const k attrs) const_ok"
  unfolding add_const_def
  by (intro returns_bind [OF returns_const] returns_intros returns_bind_any) (simp_all add: const_ok_def)

subsection \<open>Enumerations\<close>

lemma to_int32_ok [simp]: "int32_ok (to_int32 v)"
  by (simp add: int32_ok_def to_int32_def algebra_simps)

lemma next_int32_ok: "int32_ok v \<Longrightarrow> next_int32 v = Inr w \<Longrightarrow> int32_ok w \<and> w = v + 1"
  by (auto simp: next_int32_def int32_ok_def split: if_splits)

lemma value_named_ok: "list_all enum_value_ok vs \<Longrightarrow> value_named n vs = Some v \<Longrightarrow> int32_ok v"
  by (auto simp: value_named_def find_Some_iff list_all_iff enum_value_ok_def)

lemma returns_enum_value_attrs:
  "returns J (pfold enum_value_attr attrs new_enum_value) (\<lambda>v. ev_min_version v < 2 ^ 32)"
  unfolding enum_value_attr_def
  by (rule returns_fold; (intro returns_bind [OF returns_min_version] returns_intros returns_bind_any)?)
    (simp_all add: new_enum_value_def)

lemma returns_next: "int32_ok v \<Longrightarrow> returns J (plift (next_int32 v)) int32_ok"
  by (rule returns_lift) (simp add: next_int32_ok)

lemma returns_enum_initializer:
  assumes "list_all enum_value_ok vs" "int32_ok k"
  shows "returns J (enum_initializer s vs k) int32_ok"
  unfolding enum_initializer_def
  by (intro returns_intros returns_bind_any) (simp_all add: assms(2) value_named_ok [OF assms(1)])

lemma returns_enum_value:
  assumes "list_all enum_value_ok vs" "int32_ok k"
  shows "returns J (ParseEnumValue vs k) (\<lambda>(v, k'). enum_value_ok v \<and> int32_ok k')"
  unfolding ParseEnumValue_def
  by (intro returns_bind [OF returns_enum_value_attrs] returns_bind [OF returns_next]
      returns_bind [OF returns_enum_initializer [OF assms]] returns_intros returns_bind_any)
    (simp_all add: enum_value_ok_def)

lemma returns_enum_values: "returns J enum_values (list_all enum_value_ok)"
  unfolding enum_values_def next_enum_value_def
  by (intro returns_bind [OF returns_enum_value]
      returns_bind [OF returns_ploop [where I = "\<lambda>(vs, k, _). list_all enum_value_ok vs \<and> int32_ok k"]]
      returns_intros returns_bind_any) (auto simp: int32_ok_def split: prod.splits)

lemma returns_enum: "returns J (ParseEnum attrs) enum_ok"
  unfolding ParseEnum_def enum_body_def enum_attr_def
  by (intro returns_bind [OF returns_enum_values]
      returns_bind [OF returns_fold [where I = "\<lambda>e. e_values e = []"]] returns_intros returns_bind_any)
    (auto simp: enum_ok_def new_enum_def)

subsection \<open>Structs and features\<close>

lemma returns_struct_field_attrs:
  "returns J (pfold struct_field_attr attrs new_struct_field) struct_field_ok"
  unfolding struct_field_attr_def
  by (rule returns_fold; (intro returns_bind [OF returns_min_version] returns_intros returns_bind_any)?)
    (simp_all add: new_struct_field_def struct_field_ok_def)

lemma returns_struct_field: "returns J (struct_field attrs) struct_field_ok"
  unfolding struct_field_def
  by (intro returns_bind [OF returns_struct_field_attrs] returns_bind [OF returns_type_spec]
      returns_bind [OF returns_stoul32] returns_bind [where p = "pif _ _ _" and R = struct_field_ok]
      returns_intros returns_bind_any) (simp_all add: struct_field_ok_def)

lemma returns_struct_member: "struct_ok s \<Longrightarrow> returns J (struct_member s) struct_ok"
  unfolding struct_member_def
  by (intro returns_bind [OF returns_enum] returns_bind [OF returns_add_const]
      returns_bind [OF returns_struct_field] returns_intros returns_bind_any) (simp_all add: struct_ok_def)

lemma returns_struct: "returns J (ParseStruct attrs) struct_ok"
  unfolding ParseStruct_def struct_attr_def
  by (intro returns_bind [OF returns_fold [where I = struct_ok]]
      returns_bind [OF returns_ploop [where I = struct_ok, OF returns_struct_member]]
      returns_intros returns_bind_any)
    (simp_all add: struct_ok_def new_struct_def)

lemma returns_feature_member: "feature_ok f \<Longrightarrow> returns J (feature_member f) feature_ok"
  unfolding feature_member_def
  by (intro returns_bind [OF returns_add_const] returns_intros returns_bind_any) (simp_all add: feature_ok_def)

lemma returns_feature: "returns J ParseFeature feature_ok"
  unfolding ParseFeature_def
  by (intro returns_bind [OF returns_ploop [where I = feature_ok, OF returns_feature_member]]
      returns_intros returns_bind_any) (simp_all add: feature_ok_def)

subsection \<open>Methods\<close>

lemma returns_param: "returns J ParseParam param_ok"
  unfolding ParseParam_def param_attr_def
  by (intro returns_bind [OF returns_fold [where I = param_ok]] returns_bind [OF returns_type_spec]
      returns_bind [OF returns_stoul32] returns_bind [OF returns_min_version] returns_intros returns_bind_any)
    (simp_all add: param_ok_def new_param_def)

lemma returns_params: "returns J params_in_parens (list_all param_ok)"
  unfolding params_in_parens_def ParseParamList_def
  by (intro returns_bind [OF returns_param] returns_ploop [where I = "list_all param_ok"]
      returns_bind [where p = "pif _ _ _" and R = "list_all param_ok"] returns_intros returns_bind_any) simp_all

lemma result_union_ok:
  assumes "type_spec_ok t" "type_spec_ok e"
  shows "union_ok (new_union\<lparr>u_name := n,
    u_fields := [new_union_field\<lparr>uf_type := t, uf_name := ''value'', uf_tag := 0\<rparr>,
                 new_union_field\<lparr>uf_type := e, uf_name := ''error'', uf_tag := 1\<rparr>], u_decl_index := k\<rparr>)"
  using assms
  by (simp add: union_ok_def new_union_def new_union_field_def union_field_ok_def tags_ok_def chosen_tags_def
      given_tags_def max_version_def)

lemma returns_result_union:
  assumes "type_spec_ok t" "type_spec_ok e"
  shows "returns unions_ok (MakeResultUnion i m t e) type_spec_ok"
  using result_union_ok [OF assms]
  by (auto simp: returns_def MakeResultUnion_def pbind_def pget_def pmodify_def preturn_def Let_def unions_ok_def
      simp del: type_spec_ok.simps)

lemma returns_ordinal: "method_parts_ok m \<Longrightarrow> returns J (take_method_ordinal m) method_parts_ok"
  unfolding take_method_ordinal_def
  by (intro returns_bind [OF returns_stoul32] returns_intros returns_bind_any) (simp_all add: method_parts_ok_def)

lemma returns_response:
  assumes "method_parts_ok m" "m_has_response m"
  shows "returns unions_ok (parse_response i m) method_parts_ok"
  unfolding parse_response_def
  by (intro returns_bind [OF returns_result_union] returns_bind [OF returns_type_spec]
      returns_bind [OF returns_params] returns_intros returns_bind_any)
    (use assms in \<open>simp_all add: method_parts_ok_def param_ok_def new_param_def\<close>)

lemma returns_method: "returns unions_ok (ParseMethod attrs i) method_ok"
  unfolding ParseMethod_def method_attr_def
  by (intro returns_bind [OF returns_fold [where I = method_parts_ok]] returns_bind [OF returns_params]
      returns_bind [OF returns_min_version] returns_bind [where p = "pif _ _ _" and R = method_parts_ok]
      returns_ordinal returns_response returns_intros returns_bind_any)
    (simp_all add: method_parts_ok_def method_ok_def new_method_def)

subsection \<open>Unions\<close>

lemma returns_union_field_attrs:
  "returns J (pfold union_field_attr attrs new_union_field)
     (\<lambda>f. uf_min_version f < 2 ^ 32 \<and> \<not> uf_has_explicit_tag f)"
  unfolding union_field_attr_def
  by (rule returns_fold; (intro returns_bind [OF returns_min_version] returns_intros returns_bind_any)?)
    (simp_all add: new_union_field_def)

lemma u32_Suc: "add32 (u32 k) (Suc 0) = u32 (Suc k)"
  by (simp add: add32_def u32_def mod_Suc_eq)

lemma returns_union_field:
  "returns J (union_field (u32 k))
     (\<lambda>(f, k'). union_field_ok f \<and>
       (if uf_has_explicit_tag f then k' = u32 k else uf_tag f = u32 k \<and> k' = u32 (Suc k)))"
  unfolding union_field_def
  by (intro returns_bind [OF returns_union_field_attrs] returns_bind [OF returns_type_spec]
      returns_bind [OF returns_stoul32]
      returns_bind [where p = "pif (At kAt) _ _" and R = "\<lambda>(f, k'). union_field_ok f \<and>
       (if uf_has_explicit_tag f then k' = u32 k else uf_tag f = u32 k \<and> k' = u32 (Suc k))"]
      returns_intros returns_bind_any)
    (auto simp: union_field_ok_def u32_Suc [symmetric])

text \<open>While the fields are read, the tags chosen are consecutive from zero.\<close>

definition union_reading :: "UnionDecl \<times> nat \<Rightarrow> bool" where
  "union_reading acc \<longleftrightarrow> (case acc of (u, k) \<Rightarrow>
     list_all union_field_ok (u_fields u) \<and> u_version u = max_version uf_min_version (u_fields u) \<and>
     chosen_tags (u_fields u) = map u32 [0..<length (chosen_tags (u_fields u))] \<and>
     k = u32 (length (chosen_tags (u_fields u))))"

lemma returns_union_member: "union_reading acc \<Longrightarrow> returns J (union_member acc) union_reading"
proof (cases acc)
  case (Pair u k)
  assume acc: "union_reading acc"
  define n where "n = length (chosen_tags (u_fields u))"
  have k: "k = u32 n" and ct: "chosen_tags (u_fields u) = map u32 [0..<n]" and
    ok: "list_all union_field_ok (u_fields u)" "u_version u = max_version uf_min_version (u_fields u)"
    using acc Pair by (auto simp: union_reading_def n_def)
  have ex: "chosen_tags (fs @ [f]) = chosen_tags fs" if "uf_has_explicit_tag f" for fs f
    using that by (simp add: chosen_tags_def)
  have im: "chosen_tags (fs @ [f]) = chosen_tags fs @ [uf_tag f]" if "\<not> uf_has_explicit_tag f" for fs f
    using that by (simp add: chosen_tags_def)
  show ?thesis
    unfolding union_member_def Pair k
    by (simp, intro returns_bind [OF returns_union_field] returns_intros)
      (auto simp: union_reading_def ok ct ex im split: if_splits)
qed

text \<open>The fields a new assignment of tags leaves: only the chosen tags differ.\<close>

definition same_but_tag :: "UnionField \<Rightarrow> UnionField \<Rightarrow> bool" where
  "same_but_tag f g \<longleftrightarrow> g = f\<lparr>uf_tag := uf_tag g\<rparr> \<and> (uf_has_explicit_tag f \<longrightarrow> g = f) \<and>
     (\<not> uf_has_explicit_tag f \<longrightarrow> uf_tag g < 2 ^ 32)"

lemma same_but_tag_fields:
  assumes "same_but_tag f g"
  shows "uf_min_version g = uf_min_version f" "uf_is_default g = uf_is_default f" "uf_type g = uf_type f"
    "uf_has_explicit_tag g = uf_has_explicit_tag f" "union_field_ok f \<Longrightarrow> union_field_ok g"
    "uf_has_explicit_tag f \<Longrightarrow> uf_tag g = uf_tag f"
proof -
  have g: "g = f\<lparr>uf_tag := uf_tag g\<rparr>" using assms by (simp add: same_but_tag_def)
  show "uf_min_version g = uf_min_version f" by (subst g) simp
  show d: "uf_is_default g = uf_is_default f" by (subst g) simp
  show t: "uf_type g = uf_type f" by (subst g) simp
  show e: "uf_has_explicit_tag g = uf_has_explicit_tag f" by (subst g) simp
  show "uf_has_explicit_tag f \<Longrightarrow> uf_tag g = uf_tag f" using assms by (simp add: same_but_tag_def)
  show "union_field_ok f \<Longrightarrow> union_field_ok g"
    using assms t \<open>uf_min_version g = uf_min_version f\<close>
    by (cases "uf_has_explicit_tag f") (auto simp: same_but_tag_def union_field_ok_def)
qed

lemma same_but_tags:
  assumes "list_all2 same_but_tag fs gs"
  shows "map uf_min_version gs = map uf_min_version fs" "given_tags gs = given_tags fs"
    "list_all union_field_ok fs \<Longrightarrow> list_all union_field_ok gs"
    "map uf_is_default gs = map uf_is_default fs"
  using assms
  by (induction rule: list_all2_induct) (simp_all add: same_but_tag_fields given_tags_def)

lemma assign_tags_result:
  assumes "assign_tags used next fs = Some fs'" "next < 2 ^ 32"
  shows "list_all2 same_but_tag fs fs' \<and> distinct (chosen_tags fs') \<and> set (chosen_tags fs') \<inter> set used = {}"
  using assms
proof (induction used "next" fs arbitrary: fs' rule: assign_tags.induct)
  case (2 used "next" f fs)
  show ?case
  proof (cases "uf_has_explicit_tag f")
    case True
    then obtain gs where "fs' = f # gs" "assign_tags used next fs = Some gs" using 2(3) by auto
    with 2(1) [OF True] 2(4) True show ?thesis by (simp add: chosen_tags_def same_but_tag_def)
  next
    case False
    then obtain t gs where t: "next_free (Suc (length used)) used next = Some t"
      "fs' = f\<lparr>uf_tag := t\<rparr> # gs" "assign_tags (t # used) (add32 t 1) fs = Some gs"
      using 2(3) by (auto simp del: next_free.simps split: option.splits)
    have "t < 2 ^ 32 \<and> t \<notin> set used" using next_free_bound [OF t(1)] 2(4) by simp
    with 2(2) [OF False t(1,3)] t(2) False show ?thesis
      by (auto simp: chosen_tags_def same_but_tag_def)
  qed
qed (simp add: chosen_tags_def)

lemma inj_u32: "n \<le> 2 ^ 32 \<Longrightarrow> distinct (map u32 [0..<n])"
  by (auto simp: distinct_map inj_on_def u32_id)

lemma max_version_map: "max_version v xs = max_version id (map v xs)"
  by (simp add: max_version_def fold_map comp_def)

lemma unmixed_tags_ok:
  assumes "chosen_tags fs = map u32 [0..<length (chosen_tags fs)]"
    and "\<not> ((\<exists>f \<in> set fs. uf_has_explicit_tag f) \<and> (\<exists>f \<in> set fs. \<not> uf_has_explicit_tag f))"
  shows "tags_ok fs"
proof -
  have "length (chosen_tags fs) \<le> length fs" by (simp add: chosen_tags_def)
  then have "distinct (chosen_tags fs)" if "length fs \<le> 2 ^ 32"
    using inj_u32 [of "length (chosen_tags fs)"] assms(1) that by simp
  moreover have "chosen_tags fs = [] \<or> given_tags fs = []"
    using assms(2) by (auto simp: chosen_tags_def given_tags_def filter_empty_conv)
  ultimately show ?thesis by (auto simp: tags_ok_def)
qed

lemma returns_retag:
  assumes "union_reading (u, k)"
  shows "returns J (retag (u_fields u)) (\<lambda>fs. list_all union_field_ok fs \<and> tags_ok fs \<and>
     u_version u = max_version uf_min_version fs)"
proof -
  have "list_all union_field_ok gs \<and> tags_ok gs \<and> u_version u = max_version uf_min_version gs"
    if "assign_tags (map uf_tag (filter uf_has_explicit_tag (u_fields u))) 0 (u_fields u) = Some gs" for gs
  proof -
    have r: "list_all2 same_but_tag (u_fields u) gs" "distinct (chosen_tags gs)"
      "set (chosen_tags gs) \<inter> set (given_tags (u_fields u)) = {}"
      using assign_tags_result [OF that] by (simp_all add: given_tags_def)
    note s = same_but_tags [OF r(1)]
    have "max_version uf_min_version gs = max_version uf_min_version (u_fields u)"
      using s(1) by (metis max_version_map)
    then show ?thesis
      using assms r(2,3) s(2,3)
      by (auto simp: union_reading_def tags_ok_def)
  qed
  moreover have "list_all union_field_ok (u_fields u)" "u_version u = max_version uf_min_version (u_fields u)"
    "chosen_tags (u_fields u) = map u32 [0..<length (chosen_tags (u_fields u))]"
    using assms by (simp_all add: union_reading_def)
  ultimately show ?thesis
    unfolding retag_def by (intro returns_intros) (simp_all add: unmixed_tags_ok)
qed

lemma returns_union: "returns J (ParseUnion attrs) union_ok"
proof -
  have start: "union_reading (u\<lparr>u_name := n\<rparr>, 0)" if "u_fields u = [] \<and> u_version u = 0" for u n
    using that by (simp add: union_reading_def chosen_tags_def u32_def)
  have attrs: "returns J (pfold union_attr attrs new_union) (\<lambda>u. u_fields u = [] \<and> u_version u = 0)"
    unfolding union_attr_def
    by (rule returns_fold) (auto simp: new_union_def intro!: returns_intros returns_bind_any)
  show ?thesis
    unfolding ParseUnion_def
    by (intro returns_bind [OF attrs] returns_bind [OF returns_retag]
        returns_bind [OF returns_ploop [where I = union_reading, OF returns_union_member]]
        returns_intros returns_bind_any) (auto simp: start union_ok_def)
qed

subsection \<open>Interfaces and modules\<close>

definition interface_reading :: "Interface \<times> nat \<Rightarrow> bool" where
  "interface_reading acc \<longleftrightarrow> (case acc of (i, k) \<Rightarrow>
     list_all method_ok (i_methods i) \<and> i_version i = max_version m_min_version (i_methods i) \<and>
     implicit_ordinals (i_methods i) = map u32 [0..<length (implicit_ordinals (i_methods i))] \<and>
     k = u32 (length (implicit_ordinals (i_methods i))) \<and>
     list_all enum_ok (i_enums i) \<and> list_all const_ok (i_consts i) \<and>
     list_all (\<lambda>s. struct_ok s \<and> s_owner_container s = i_name i) (i_structs i) \<and>
     list_all (\<lambda>u. union_ok u \<and> u_owner_container u = i_name i) (i_unions i))"

lemma safe_embed_index [returns_intros]: "safe J (take_embed_index k)"
  unfolding take_embed_index_def by (intro returns_intros returns_bind_any) simp_all

lemma struct_ok_owner [simp]: "struct_ok (s\<lparr>s_owner_container := c\<rparr>) = struct_ok s"
    "struct_ok (s\<lparr>s_decl_index := k\<rparr>) = struct_ok s"
  by (simp_all add: struct_ok_def)

lemma union_ok_owner [simp]: "union_ok (u\<lparr>u_owner_container := c\<rparr>) = union_ok u"
    "union_ok (u\<lparr>u_decl_index := k\<rparr>) = union_ok u"
  by (simp_all add: union_ok_def)

lemma interface_reading_method:
  assumes "interface_reading (i, k)" "method_ok m"
  shows "interface_reading (i\<lparr>i_version := max (i_version i) (m_min_version m),
      i_methods := i_methods i @ [if m_has_explicit_ordinal m then m else m\<lparr>m_ordinal := k\<rparr>]\<rparr>,
    if m_has_explicit_ordinal m then k else add32 k 1)"
proof (cases "m_has_explicit_ordinal m")
  case True
  with assms show ?thesis by (simp add: interface_reading_def implicit_ordinals_def)
next
  case False
  define n where "n = length (implicit_ordinals (i_methods i))"
  have k: "k = u32 n" "implicit_ordinals (i_methods i) = map u32 [0..<n]"
    using assms(1) by (auto simp: interface_reading_def n_def)
  have "implicit_ordinals (i_methods i @ [m\<lparr>m_ordinal := k\<rparr>]) = implicit_ordinals (i_methods i) @ [k]"
    using False by (simp add: implicit_ordinals_def)
  moreover have "method_ok (m\<lparr>m_ordinal := k\<rparr>)"
    using assms(2) False by (simp add: method_ok_def method_parts_ok_def)
  ultimately show ?thesis
    using assms(1) False by (simp add: interface_reading_def k u32_Suc)
qed

lemma returns_interface_member:
  assumes "interface_reading acc"
  shows "returns unions_ok (interface_member acc) interface_reading"
proof (cases acc)
  case (Pair i k)
  have [simp]: "m_min_version (if b then m else m\<lparr>m_ordinal := k\<rparr>) = m_min_version m" for b m by simp
  from assms Pair show ?thesis
    unfolding interface_member_def
    by (simp, intro returns_bind [OF returns_enum] returns_bind [OF returns_struct] returns_bind [OF returns_union]
        returns_bind [OF returns_add_const] returns_bind [OF returns_method] returns_intros returns_bind_any)
      (simp_all only: interface_reading_method, auto simp: interface_reading_def)
qed

lemma implicit_all: "\<forall>m \<in> set ms. \<not> m_has_explicit_ordinal m \<Longrightarrow> implicit_ordinals ms = map m_ordinal ms"
  by (simp add: implicit_ordinals_def)

lemma returns_interface: "returns unions_ok (ParseInterface attrs) interface_ok"
proof -
  let ?new = "\<lambda>i. i_methods i = [] \<and> i_version i = 0 \<and> i_enums i = [] \<and> i_consts i = [] \<and> i_structs i = [] \<and>
    i_unions i = []"
  have start: "interface_reading (i\<lparr>i_name := n\<rparr>, 0)" if "?new i" for i n
    using that by (simp add: interface_reading_def implicit_ordinals_def u32_def)
  have attrs: "returns unions_ok (pfold interface_attr attrs new_interface) ?new"
    unfolding interface_attr_def
    by (rule returns_fold) (auto simp: new_interface_def intro!: returns_intros returns_bind_any)
  have finish: "interface_ok i" if "interface_reading (i, k)"
    "\<not> ((\<exists>m \<in> set (i_methods i). m_has_explicit_ordinal m) \<and> (\<exists>m \<in> set (i_methods i). \<not> m_has_explicit_ordinal m))"
    for i k
  proof (cases "list_all m_has_explicit_ordinal (i_methods i)")
    case False
    with that(2) have "\<forall>m \<in> set (i_methods i). \<not> m_has_explicit_ordinal m" by (auto simp: list_all_iff)
    from implicit_all [OF this] that(1) show ?thesis
      by (simp add: interface_ok_def interface_reading_def ordinals_ok_def)
  qed (use that(1) in \<open>simp add: interface_ok_def interface_reading_def ordinals_ok_def\<close>)
  show ?thesis
    unfolding ParseInterface_def
    by (intro returns_bind [OF attrs]
        returns_bind [OF returns_ploop [where I = interface_reading, OF returns_interface_member]]
        returns_intros returns_bind_any) (auto simp: start finish)
qed

lemma safe_top_attrs [returns_intros]: "safe J top_attrs"
  unfolding top_attrs_def by (intro returns_intros returns_bind_any) simp_all

lemma returns_top_decl: "module_ok md \<Longrightarrow> returns unions_ok (top_decl md) module_ok"
  unfolding top_decl_def
  by (intro returns_bind [OF returns_enum] returns_bind [OF returns_struct] returns_bind [OF returns_union]
      returns_bind [OF returns_add_const] returns_bind [OF returns_interface] returns_bind [OF returns_feature]
      returns_intros returns_bind_any) (simp_all add: module_ok_def feature_ok_def)

lemma returns_body_step: "module_ok md \<Longrightarrow> returns unions_ok (body_step md) module_ok"
  unfolding body_step_def by (intro returns_top_decl returns_intros returns_bind_any) simp_all

lemma safe_header [returns_intros]: "safe J ParseHeader"
  unfolding ParseHeader_def ConsumeHeaderAttributeList_def parse_module_stmt_def parse_imports_def ParseImport_def
  by (intro returns_intros returns_bind_any) simp_all

lemma returns_pending: "returns J (pget ps_pending_result_unions) J"
  by (simp add: returns_def pget_def)

lemma seed_pending [simp]:
  "ps_pending_result_unions (seed_enum e st) = ps_pending_result_unions st"
  "ps_pending_result_unions (seed_nested_enum k e st) = ps_pending_result_unions st"
  "ps_pending_result_unions (seed_const k' c st) = ps_pending_result_unions st"
  "ps_pending_result_unions (seed_order key i st) = ps_pending_result_unions st"
  by (simp_all add: seed_enum_def seed_nested_enum_def seed_const_def seed_order_def)

lemma seed_decl_pending [simp]:
  "ps_pending_result_unions (seed_struct s st) = ps_pending_result_unions st"
  "ps_pending_result_unions (seed_union u st) = ps_pending_result_unions st"
  "ps_pending_result_unions (seed_nested_struct k s st) = ps_pending_result_unions st"
  "ps_pending_result_unions (seed_nested_union k u st) = ps_pending_result_unions st"
  by (simp_all add: seed_struct_def seed_union_def seed_nested_struct_def seed_nested_union_def Let_def
      fold_keeps [of ps_pending_result_unions])

lemma seed_interface_pending [simp]: "ps_pending_result_unions (seed_interface i st) = ps_pending_result_unions st"
  by (simp add: seed_interface_def fold_keeps [of ps_pending_result_unions])

lemma SeedFromPrelude_pending [simp]:
  "ps_pending_result_unions (SeedFromPrelude p st) = ps_pending_result_unions st"
  by (simp add: SeedFromPrelude_def Let_def fold_keeps [of ps_pending_result_unions])

lemma returns_check_acyclic: "returns J (CheckCompleteTypeAcyclic md) (\<lambda>_. acyclic (set (embed_edges md)))"
  unfolding returns_def
proof (intro allI impI)
  fix st x st'
  assume "J (ps_pending_result_unions st)" "CheckCompleteTypeAcyclic md st = Ok x st'"
  then show "J (ps_pending_result_unions st') \<and> acyclic (set (embed_edges md))"
    using check_acyclic_ok [of md st] check_acyclic_error [of md st] by (cases "acyclic (set (embed_edges md))") auto
qed

lemma returns_body:
  "returns unions_ok (ParseBody prelude) (\<lambda>md. module_ok md \<and> acyclic (set (embed_edges md)))"
  unfolding ParseBody_def
  by (intro returns_bind [OF returns_ploop [where I = module_ok, OF returns_body_step]]
      returns_bind [OF returns_pending] returns_bind [OF returns_check_acyclic] returns_intros returns_bind_any)
    (auto simp: module_ok_def new_module_def unions_ok_def split: option.splits)

lemma module_ok_header [simp]: "module_ok (md\<lparr>mod_name := n, mod_imports := is\<rparr>) = module_ok md"
  by (simp add: module_ok_def)

lemma embed_edges_header [simp]: "embed_edges (md\<lparr>mod_name := n, mod_imports := is\<rparr>) = embed_edges md"
  by (simp add: embed_edges_def local_keys_def embed_decls_def)

lemma returns_file:
  "returns unions_ok (parse_file prelude) (\<lambda>md. module_ok md \<and> acyclic (set (embed_edges md)))"
  unfolding parse_file_def
  by (intro returns_bind [OF returns_body] returns_intros returns_bind_any) simp

lemma Parse_valid:
  assumes "Parse tokens = Inr md"
  shows "module_ok md \<and> acyclic (set (embed_edges md))"
proof -
  obtain st st' where "new_parser tokens = Inr st" and p: "parse_file None st = Ok md st'"
    using assms by (auto simp: Parse_def split: sum.splits presult.splits)
  then have "unions_ok (ps_pending_result_unions st)"
    by (auto simp: new_parser_def unions_ok_def split: sum.splits)
  with p returns_file show ?thesis unfolding returns_def by blast
qed

end
