(* ===== verification/Enum_Prescan.thy ===== *)
theory Enum_Prescan
  imports Parser_Progress
begin

text \<open>
  The scan for enumerator values before parsing agrees with the parser: it reads the same
  names and values out of every enumeration that \<open>ParseEnum\<close> accepts.
\<close>

subsection \<open>The tokens a parser passes over\<close>

definition spans :: "(Token \<Rightarrow> bool) \<Rightarrow> (PState \<Rightarrow> bool) \<Rightarrow> 'a parser \<Rightarrow> bool" where
  "spans T c p \<longleftrightarrow> (\<forall>st x st'. c st \<longrightarrow> p st = Ok x st' \<longrightarrow>
     (\<exists>xs. ps_rest st = xs @ ps_rest st' \<and> list_all T xs))"

named_theorems spans_intros \<open>tokens passed over by the parsing functions\<close>

lemma spansI_same: "(\<And>st x st'. p st = Ok x st' \<Longrightarrow> ps_rest st' = ps_rest st) \<Longrightarrow> spans T c p"
  by (fastforce simp: spans_def)

lemma spans_bind: 
  assumes "spans T c p" "\<And>x. spans T (\<lambda>_. True) (f x)"
  shows "spans T c (pbind p f)"
  unfolding spans_def
proof (intro allI impI)
  fix st y st'
  assume "c st" "pbind p f st = Ok y st'"
  then obtain x st1 where 1: "p st = Ok x st1" "f x st1 = Ok y st'"
    by (auto simp: pbind_def split: presult.splits)
  from assms(1) \<open>c st\<close> 1(1) obtain xs where xs: "ps_rest st = xs @ ps_rest st1" "list_all T xs"
    unfolding spans_def by blast
  from assms(2) 1(2) obtain ys where ys: "ps_rest st1 = ys @ ps_rest st'" "list_all T ys"
    unfolding spans_def by blast
  from xs ys show "\<exists>xs. ps_rest st = xs @ ps_rest st' \<and> list_all T xs"
    by (intro exI [of _ "xs @ ys"]) simp
qed

lemma spans_bind_get: "(\<And>x. spans T c (f x)) \<Longrightarrow> spans T c (pbind (pget g) f)"
  by (simp add: spans_def pbind_def pget_def)

lemma spans_if [spans_intros]:
  "spans T (\<lambda>st. c st \<and> d st) p \<Longrightarrow> spans T (\<lambda>st. c st \<and> \<not> d st) q \<Longrightarrow> spans T c (pif d p q)"
  unfolding spans_def pif_def by (intro allI impI) (metis (full_types))

lemma spans_basic [spans_intros]:
  "spans T c (preturn x)" "spans T c (pget f)" "spans T c (pfail e)" "spans T c (pthrow m l)"
  "spans T c (plift r)"
  by (auto intro!: spansI_same simp: preturn_def pget_def pfail_def pthrow_def plift_def split: sum.splits)

lemma spans_HOL_if [spans_intros]: "spans T c p \<Longrightarrow> spans T c q \<Longrightarrow> spans T c (if b then p else q)"
  by simp

lemma spans_Let [spans_intros]: "(\<And>x. spans T c (f x)) \<Longrightarrow> spans T c (Let e f)"
  by simp

lemma spans_case_prod [spans_intros]: "(\<And>a b. spans T c (f a b)) \<Longrightarrow> spans T c (case x of (a, b) \<Rightarrow> f a b)"
  by (cases x) simp

lemma spans_Advance:
  assumes "\<And>st. c st \<Longrightarrow> T (Cur st)"
  shows "spans T c Advance"
  unfolding spans_def
proof (intro allI impI)
  fix st x st'
  assume "c st" "Advance st = Ok x st'"
  then show "\<exists>xs. ps_rest st = xs @ ps_rest st' \<and> list_all T xs"
    using assms [of st]
    by (cases "ps_rest st") (auto simp: Advance_def pmodify_def Cur_def split: if_splits)
qed

lemma spans_Expect [spans_intros]:
  assumes "\<And>t. tk_type t = ty \<Longrightarrow> T t"
  shows "spans T c (Expect ty what)"
  unfolding Expect_def using assms
  by (intro spans_if spans_bind_get spans_bind spans_Advance spans_intros) (simp add: At_def)

lemma spans_ploop [spans_intros]:
  assumes "\<And>a. spans T (d a) (b a)"
  shows "spans T c (ploop d b a)"
proof -
  have "spans T (\<lambda>_. True) (pwhile n d b a)" for n
  proof (induction n arbitrary: a)
    case (Suc n)
    have "spans T (d a) (b a)" by (rule assms)
    with Suc show ?case
      unfolding pwhile.simps by (intro spans_if spans_bind spans_intros) simp_all
  qed (simp add: spans_basic)
  then show ?thesis unfolding spans_def ploop_def by blast
qed

lemma spans_names_after [spans_intros]:
  assumes "\<And>t. tk_type t = sep \<or> tk_type t = kName \<Longrightarrow> T t"
  shows "spans T c (names_after sep what)"
  unfolding names_after_def using assms
  by (intro spans_intros spans_bind spans_Advance) (simp_all add: At_def)

subsection \<open>Attribute lists end at the first bracket\<close>

definition not_bracket :: "Token \<Rightarrow> bool" where
  "not_bracket t \<longleftrightarrow> tk_type t \<noteq> kRBracket"

lemma spans_signed [spans_intros]: "spans not_bracket c ParseSignedNumber"
  unfolding ParseSignedNumber_def
  by (intro spans_bind spans_bind_get spans_intros spans_Advance) (simp_all add: At_def not_bracket_def)

lemma spans_float [spans_intros]: "spans not_bracket c ParseFloatValue"
  unfolding ParseFloatValue_def
  by (intro spans_bind_get spans_bind spans_intros spans_Advance) (auto simp: At_def not_bracket_def)

lemma spans_attr_names: "(\<And>st. c st \<Longrightarrow> At kName st) \<Longrightarrow> spans not_bracket c parse_attr_names"
  unfolding parse_attr_names_def
  by (intro spans_bind_get spans_bind spans_intros spans_Advance) (auto simp: At_def not_bracket_def)

lemma spans_attr_value [spans_intros]: "spans not_bracket c parse_attr_value"
  unfolding parse_attr_value_def
  by (intro spans_attr_names spans_bind_get spans_bind spans_intros spans_Advance)
    (auto simp: AtKeyword_def At_def not_bracket_def)

lemma spans_attr_item [spans_intros]: "spans not_bracket c (attr_item acc)"
  unfolding attr_item_def
  by (intro spans_intros spans_bind spans_Advance) (auto simp: At_def not_bracket_def)

lemma Expect_Ok:
  "Expect ty what st = Ok t st' \<longleftrightarrow> tk_type (Cur st) = ty \<and> t = Cur st \<and> Advance st = Ok () st'"
  by (auto simp: Expect_def pif_def At_def pbind_def pget_def preturn_def pthrow_def pfail_def Advance_def
      pmodify_def)

lemma Advance_rest:
  assumes "tokens_ok st" "tk_type (Cur st) \<noteq> kEnd" "Advance st = Ok u st'"
  shows "ps_rest st = Cur st # ps_rest st'" "tokens_ok st'"
proof -
  obtain t u us where "ps_rest st = t # u # us" "tk_type (last (u # us)) = kEnd"
    by (rule tokens_ok_not_end [OF assms(1) _ assms(2)]) (simp add: At_def)
  then show "ps_rest st = Cur st # ps_rest st'" "tokens_ok st'"
    using assms(3) by (auto simp: Advance_def pmodify_def Cur_def tokens_ok_def)
qed

lemma tokens_ok_suffix: "tokens_ok st \<Longrightarrow> ps_rest st = xs @ ps_rest st' \<Longrightarrow> ps_rest st' \<noteq> [] \<Longrightarrow> tokens_ok st'"
  by (simp add: tokens_ok_def)

lemma Expect_rest:
  assumes "Expect ty what st = Ok t st'" "tokens_ok st" "ty \<noteq> kEnd"
  shows "ps_rest st = t # ps_rest st'" "tk_type t = ty" "tokens_ok st'"
  using assms Advance_rest [OF assms(2)] by (auto simp: Expect_Ok)

lemma ExpectKeyword_rest:
  assumes "ExpectKeyword kw st = Ok t st'" "tokens_ok st"
  shows "ps_rest st = t # ps_rest st'" "tokens_ok st'"
proof -
  have "Advance st = Ok () st'" "t = Cur st" "tk_type (Cur st) = kName"
    using assms(1) by (auto simp: ExpectKeyword_def pif_def AtKeyword_def At_def pbind_def pget_def preturn_def
        pthrow_def pfail_def Advance_def pmodify_def split: if_splits)
  with Advance_rest [OF assms(2), of "()" st'] show "ps_rest st = t # ps_rest st'" "tokens_ok st'" by simp_all
qed

lemma attrs_skip:
  assumes "ParseAttributeList st = Ok attrs st'" "tokens_ok st"
  shows "at_type kLBracket (ps_rest st) \<and> tl (dropWhile (\<lambda>t. tk_type t \<noteq> kRBracket) (ps_rest st)) = ps_rest st' \<and>
    tokens_ok st'"
proof -
  from assms(1) obtain t1 st1 acc st2 t3 where
    1: "Expect kLBracket (quoted ''['') st = Ok t1 st1" and
    2: "ploop (\<lambda>(_, more) _. more) attr_item ([], True) st1 = Ok acc st2" and
    3: "Expect kRBracket (quoted '']'') st2 = Ok t3 st'"
    unfolding ParseAttributeList_def
    by (auto simp: pbind_def preturn_def split: presult.splits prod.splits)
  note r1 = Expect_rest [OF 1 assms(2), simplified]
  have "spans not_bracket (\<lambda>_. True) (ploop (\<lambda>(_, more) _. more) attr_item ([], True))" by (intro spans_intros)
  with 2 obtain xs where xs: "ps_rest st1 = xs @ ps_rest st2" "list_all not_bracket xs"
    unfolding spans_def by blast
  have "ps_rest st2 \<noteq> []" using 3 by (auto simp: Expect_Ok Cur_def mk_token_def)
  with r1(3) xs(1) have "tokens_ok st2" by (rule tokens_ok_suffix)
  note r3 = Expect_rest [OF 3 this, simplified]
  have "dropWhile (\<lambda>t. tk_type t \<noteq> kRBracket) (xs @ ps_rest st2) = ps_rest st2"
    using xs(2) r3 by (induction xs) (auto simp: not_bracket_def)
  then show ?thesis using r1 xs r3 by (auto simp: at_type_def)
qed

subsection \<open>Values\<close>

definition same_values :: "EnumValue list \<Rightarrow> EnumValue list \<Rightarrow> bool" where
  "same_values ws vs \<longleftrightarrow> map (\<lambda>v. (ev_name v, ev_value v)) ws = map (\<lambda>v. (ev_name v, ev_value v)) vs"

lemma same_values_find: "same_values ws vs \<Longrightarrow> value_named n ws = value_named n vs"
  unfolding same_values_def value_named_def
proof (induction ws arbitrary: vs)
  case (Cons w ws)
  then show ?case by (cases vs) auto
qed simp

text \<open>What the scan does after a value.\<close>

definition scan_after :: "Token list \<Rightarrow> int \<Rightarrow> EnumValue list \<Rightarrow> PFail + EnumValue list \<times> Token list" where
  "scan_after ts k ws = (if at_type kComma ts then scan_values (tl ts) k ws else Inr (ws, ts))"

lemma at_type_At: "ps_rest st \<noteq> [] \<Longrightarrow> at_type ty (ps_rest st) = At ty st"
  by (cases "ps_rest st") (auto simp: at_type_def At_def Cur_def)

lemma signed_scan:
  assumes "ParseSignedNumber st = Ok (neg, digits) st'" "tokens_ok st"
  obtains num where "ps_rest st = (if neg then [Cur st] else []) @ num # ps_rest st'"
    "tk_type num = kNumber \<or> tk_type num = kHexNumber" "tk_text num = digits" "neg = At kMinus st" "tokens_ok st'"
proof -
  obtain st1 where 1: "if At kMinus st then neg \<and> Advance st = Ok () st1 else \<not> neg \<and> st1 = st"
    and 2: "if At kHexNumber st1 then digits = tk_text (Cur st1) \<and> Advance st1 = Ok () st'
      else \<exists>t. Expect kNumber ''number'' st1 = Ok t st' \<and> digits = tk_text t"
    using assms(1)
    by (auto simp: ParseSignedNumber_def pbind_def pif_def preturn_def pget_def split: presult.splits if_splits)
  have r1: "ps_rest st = (if neg then [Cur st] else []) @ ps_rest st1 \<and> tokens_ok st1 \<and> neg = At kMinus st"
    using 1 Advance_rest [OF assms(2), of "()" st1] assms(2) by (auto simp: At_def split: if_splits)
  then have ok1: "tokens_ok st1" by simp
  show thesis
  proof (cases "At kHexNumber st1")
    case True
    then have "ps_rest st1 = Cur st1 # ps_rest st'" "tokens_ok st'"
      using 2 Advance_rest [OF ok1, of "()" st'] by (auto simp: At_def)
    then show thesis using that [of "Cur st1"] r1 2 True by (simp add: At_def)
  next
    case False
    then obtain t where "Expect kNumber ''number'' st1 = Ok t st'" "digits = tk_text t" using 2 by auto
    with Expect_rest [OF this(1) ok1] show thesis using that [of t] r1 by simp
  qed
qed

lemma initializer_scan:
  assumes "enum_initializer s vs k st = Ok v st'" "tokens_ok st" "same_values ws vs"
  shows "scan_initializer (ps_rest st) k ws = Inr (v, ps_rest st') \<and> tokens_ok st'"
proof (cases "At kEquals st")
  case False
  then show ?thesis
    using assms by (auto simp: enum_initializer_def pif_def preturn_def scan_initializer_def at_type_At tokens_ok_def)
next
  case True
  obtain st1 where adv: "Advance st = Ok () st1" by (simp add: Advance_def pmodify_def)
  have r1: "ps_rest st = Cur st # ps_rest st1" "tokens_ok st1"
    using Advance_rest [OF assms(2) _ adv] True by (auto simp: At_def)
  have ne1: "ps_rest st1 \<noteq> []" using r1(2) by (simp add: tokens_ok_def)
  have eq: "at_type kEquals (ps_rest st)" using True r1 by (simp add: at_type_def At_def)
  show ?thesis
  proof (cases "At kName st1")
    case T: True
    obtain st2 where adv2: "Advance st1 = Ok () st2" by (simp add: Advance_def pmodify_def)
    have r2: "ps_rest st1 = Cur st1 # ps_rest st2" "tokens_ok st2"
      using Advance_rest [OF r1(2) _ adv2] T by (auto simp: At_def)
    have "value_named (tk_text (Cur st1)) vs = Some v" "st' = st2"
      using assms(1) True adv T adv2
      by (auto simp: enum_initializer_def pbind_def pif_def preturn_def pget_def pthrow_def pfail_def
          split: option.splits)
    then show ?thesis
      using eq r1 r2 T same_values_find [OF assms(3)]
      by (auto simp: scan_initializer_def Let_def at_type_def At_def)
  next
    case F: False
    obtain neg digits n where p: "ParseSignedNumber st1 = Ok (neg, digits) st'"
      and lit: "ParseIntLiteral neg digits = Inr n" "v = to_int32 n"
      using assms(1) True adv F
      by (auto simp: enum_initializer_def pbind_def pif_def preturn_def plift_def pfail_def
          split: presult.splits sum.splits)
    from p r1(2) obtain num where num: "ps_rest st1 = (if neg then [Cur st1] else []) @ num # ps_rest st'"
      "tk_type num = kNumber \<or> tk_type num = kHexNumber" "tk_text num = digits" "neg = At kMinus st1" "tokens_ok st'"
      by (rule signed_scan)
    have tl: "tl (ps_rest st) = ps_rest st1" using r1(1) by (metis list.sel(3))
    have neg: "at_type kMinus (ps_rest st1) = neg" using ne1 num(4) by (simp add: at_type_At)
    have "(if neg then tl (ps_rest st1) else ps_rest st1) = num # ps_rest st'"
      using num(1) by (cases neg) auto
    then show ?thesis
      using eq num(2,3,5) lit neg unfolding scan_initializer_def Let_def tl by (auto simp: at_type_def)
  qed
qed

text \<open>Attributes do not touch the state.\<close>

lemma enum_value_attr_state: "enum_value_attr a v st = Ok x st' \<Longrightarrow> st' = st"
  by (auto simp: enum_value_attr_def FillEnableIf_def min_version_attr_def flag_attr_def pbind_def preturn_def
      pthrow_def pfail_def split: if_splits AttrValue.splits presult.splits)

lemma enum_value_attrs_state: "pfold enum_value_attr attrs v st = Ok x st' \<Longrightarrow> st' = st"
proof (induction attrs arbitrary: v st)
  case (Cons a attrs)
  then show ?case by (auto simp: pbind_def split: presult.splits dest: enum_value_attr_state)
qed (simp add: preturn_def)

lemma value_scan:
  assumes "ParseEnumValue vs k st = Ok (v, k') st'" "tokens_ok st" "same_values ws vs"
  obtains w where "scan_values (ps_rest st) k ws = scan_after (ps_rest st') k' (ws @ [w])"
    "same_values (ws @ [w]) (vs @ [v])" "tokens_ok st'"
proof -
  obtain attrs st1 v0 st1' name st2 where
    1: "attrs_if_any st = Ok attrs st1" and 2: "pfold enum_value_attr attrs new_enum_value st1 = Ok v0 st1'"
    and 3: "Expect kName ''enum value name'' st1' = Ok name st2"
    and 4: "enum_initializer (tk_text name) vs k st2 = Ok (ev_value v) st'" "ev_name v = tk_text name"
    and 5: "next_int32 (ev_value v) = Inr k'"
    using assms(1) unfolding ParseEnumValue_def
    by (auto simp: pbind_def preturn_def plift_def pfail_def split: presult.splits sum.splits)
  have "st1' = st1" by (rule enum_value_attrs_state [OF 2])
  note 3 = 3 [unfolded this]
  have skip: "tokens_ok st1 \<and> scan_values (ps_rest st) k ws = scan_values (ps_rest st1) k ws"
  proof (cases "At kLBracket st")
    case True
    then have "ParseAttributeList st = Ok attrs st1" using 1 by (simp add: attrs_if_any_def pif_def)
    from attrs_skip [OF this assms(2)] show ?thesis by (subst scan_values.simps) simp
  next
    case False
    then show ?thesis using 1 assms(2) by (simp add: attrs_if_any_def pif_def preturn_def)
  qed
  note r2 = Expect_rest [OF 3 skip [THEN conjunct1], simplified]
  have r3: "scan_initializer (ps_rest st2) k ws = Inr (ev_value v, ps_rest st') \<and> tokens_ok st'"
    by (rule initializer_scan [OF 4(1) r2(3) assms(3)])
  define w where "w = new_enum_value\<lparr>ev_name := tk_text name, ev_value := ev_value v\<rparr>"
  have "scan_values (ps_rest st1) k ws = scan_after (ps_rest st') k' (ws @ [w])"
    using r2 r3 5 by (subst scan_values.simps) (simp add: at_type_def scan_after_def w_def Let_def)
  moreover have "same_values (ws @ [w]) (vs @ [v])"
    using assms(3) 4(2) by (simp add: same_values_def w_def)
  ultimately show thesis using that skip r3 by simp
qed

subsection \<open>Whole enumerations\<close>

lemma scan_values_stop: "At kRBrace st \<Longrightarrow> tokens_ok st \<Longrightarrow> scan_values (ps_rest st) k ws = Inr (ws, ps_rest st)"
  by (subst scan_values.simps) (auto simp: at_type_At tokens_ok_def At_def)

lemma more_values_simp [simp]: "more_values (vs, k, go) st \<longleftrightarrow> go \<and> At kComma st"
  by (simp add: more_values_def)

lemma next_enum_value_simp [simp]:
  "next_enum_value (vs, k, go) =
     pbind Advance (\<lambda>_. pif (At kRBrace) (preturn (vs, k, False))
       (pbind (ParseEnumValue vs k) (\<lambda>(v, k'). preturn (vs @ [v], k', True))))"
  by (simp add: next_enum_value_def)

lemma values_scan:
  assumes "pwhile m more_values next_enum_value (vs, k, True) st = Ok (vs', k', go) st'" "tokens_ok st"
    "same_values ws vs"
  shows "\<exists>ws' r. scan_after (ps_rest st) k ws = Inr (ws', r) \<and> same_values ws' vs'"
  using assms
proof (induction m arbitrary: vs k st ws)
  case (Suc m)
  have ne: "ps_rest st \<noteq> []" using Suc(3) by (simp add: tokens_ok_def)
  show ?case
  proof (cases "At kComma st")
    case False
    then show ?thesis
      using Suc(2,4) ne by (auto simp: pif_def preturn_def scan_after_def at_type_At)
  next
    case True
    obtain st1 where adv: "Advance st = Ok () st1" by (simp add: Advance_def pmodify_def)
    have r1: "ps_rest st = Cur st # ps_rest st1" "tokens_ok st1"
      using Advance_rest [OF Suc(3) _ adv] True by (auto simp: At_def)
    have after: "scan_after (ps_rest st) k ws = scan_values (ps_rest st1) k ws"
      using True ne r1(1) by (metis at_type_At list.sel(3) scan_after_def)
    show ?thesis
    proof (cases "At kRBrace st1")
      case B: True
      have "vs' = vs"
        using Suc(2) True adv B
        by (cases m) (auto simp: pif_def pbind_Ok preturn_def pfail_def)
      then show ?thesis using after scan_values_stop [OF B r1(2)] Suc(4) by auto
    next
      case B: False
      from Suc(2) True adv B obtain v k1 st2 where
        v: "ParseEnumValue vs k st1 = Ok (v, k1) st2"
        "pwhile m more_values next_enum_value (vs @ [v], k1, True) st2 = Ok (vs', k', go) st'"
        by (auto simp: pif_def pbind_Ok preturn_def split: prod.splits)
      from v(1) r1(2) Suc(4) obtain w where w: "scan_values (ps_rest st1) k ws = scan_after (ps_rest st2) k1 (ws @ [w])"
        "same_values (ws @ [w]) (vs @ [v])" "tokens_ok st2" by (rule value_scan)
      from Suc.IH [OF v(2) w(3,2)] after w(1) show ?thesis by simp
    qed
  qed
qed (simp add: pfail_def)

lemma enum_values_scan:
  assumes "enum_values st = Ok vs st'" "tokens_ok st"
  shows "\<exists>ws r. scan_values (ps_rest st) 0 [] = Inr (ws, r) \<and> same_values ws vs"
proof (cases "At kRBrace st")
  case True
  then show ?thesis
    using assms scan_values_stop [OF True assms(2)]
    by (auto simp: enum_values_def pif_def preturn_def same_values_def)
next
  case False
  obtain v k st1 k' go where v: "ParseEnumValue [] 0 st = Ok (v, k) st1"
    and l: "ploop more_values next_enum_value ([v], k, True) st1 = Ok (vs, k', go) st'"
    using assms(1) False unfolding enum_values_def
    by (auto simp: pif_def pbind_def preturn_def split: presult.splits prod.splits)
  have "same_values [] []" by (simp add: same_values_def)
  with v assms(2) obtain w where w: "scan_values (ps_rest st) 0 [] = scan_after (ps_rest st1) k ([] @ [w])"
    "same_values ([] @ [w]) ([] @ [v])" "tokens_ok st1" by (rule value_scan)
  from values_scan [OF l [unfolded ploop_def] w(3), of "[w]"] w(1,2) show ?thesis by simp
qed

lemma enum_attr_state: "enum_attr a v st = Ok x st' \<Longrightarrow> st' = st \<and> e_values x = e_values v"
  by (auto simp: enum_attr_def FillEnableIf_def min_version_attr_def flag_attr_def pbind_def preturn_def
      pthrow_def pfail_def split: if_splits AttrValue.splits presult.splits)

lemma enum_attrs_state: "pfold enum_attr attrs e st = Ok x st' \<Longrightarrow> st' = st \<and> e_values x = e_values e"
proof (induction attrs arbitrary: e st)
  case (Cons a attrs)
  then show ?case by (fastforce simp: pbind_def split: presult.splits dest: enum_attr_state)
qed (simp add: preturn_def)

lemma ParseEnum_scan:
  assumes "ParseEnum attrs st = Ok e st'" "tokens_ok st"
  shows "\<exists>e' r. scan_enum (tl (ps_rest st)) = Inr (e', r) \<and> e_name e' = e_name e \<and>
    same_values (e_values e') (e_values e)"
proof -
  obtain t st1 e0 st1' name st2 where
    1: "ExpectKeyword ''enum'' st = Ok t st1" and 2: "pfold enum_attr attrs new_enum st1 = Ok e0 st1'"
    and 3: "Expect kName ''enum name'' st1' = Ok name st2"
    and 4: "pif (At kSemi) (pbind Advance (\<lambda>_. preturn (e0\<lparr>e_name := tk_text name\<rparr>)))
       (enum_body (e0\<lparr>e_name := tk_text name\<rparr>)) st2 = Ok e st'"
    using assms(1) unfolding ParseEnum_def Let_def
    by (subst (asm) pbind_Ok, subst (asm) pbind_Ok, subst (asm) pbind_Ok) auto
  have e0: "st1' = st1" "e_values e0 = []" using enum_attrs_state [OF 2] by (simp_all add: new_enum_def)
  have r1: "tl (ps_rest st) = ps_rest st1" "tokens_ok st1"
    using ExpectKeyword_rest [OF 1 assms(2)] by simp_all
  note r2 = Expect_rest [OF 3 [unfolded e0] r1(2), simplified]
  have ne: "ps_rest st2 \<noteq> []" using r2(3) by (simp add: tokens_ok_def)
  show ?thesis
  proof (cases "At kSemi st2")
    case True
    then have "e = e0\<lparr>e_name := tk_text name\<rparr>"
      using 4 by (auto simp: pif_def pbind_def Advance_def pmodify_def preturn_def)
    moreover have "\<not> at_type kLBrace (ps_rest st2)" using True ne by (auto simp: at_type_At At_def)
    ultimately show ?thesis
      using r1 r2 e0 by (auto simp: scan_enum_def same_values_def new_enum_def)
  next
    case False
    then obtain u st3 vs st4 where b: "Expect kLBrace (quoted ''{'') st2 = Ok u st3" "enum_values st3 = Ok vs st4"
      and e: "e = e0\<lparr>e_name := tk_text name, e_values := vs\<rparr>"
      using 4 by (auto simp: pif_def enum_body_def pbind_def preturn_def pget_def pthrow_def pfail_def
          split: presult.splits if_splits)
    note r3 = Expect_rest [OF b(1) r2(3), simplified]
    from enum_values_scan [OF b(2) r3(3)] obtain ws r where
      "scan_values (ps_rest st3) 0 [] = Inr (ws, r)" "same_values ws vs" by blast
    then show ?thesis using r1 r2 r3 e by (auto simp: scan_enum_def at_type_def)
  qed
qed

end
