(* ===== verification/Type_Printing.thy ===== *)
theory Type_Printing
  imports Parser_Progress
begin

text \<open>
  Printing a type specification as tokens and parsing it back: a reference definition of the
  concrete syntax of types, which \<open>ParseTypeSpec\<close> inverts.
\<close>

subsection \<open>Evaluation on an explicit list of tokens\<close>

lemma Cur_cons [simp]: "Cur (st\<lparr>ps_rest := t # r\<rparr>) = t"
  by (simp add: Cur_def)

lemma At_cons [simp]: "At ty (st\<lparr>ps_rest := t # r\<rparr>) \<longleftrightarrow> tk_type t = ty"
  by (simp add: At_def)

lemma Advance_cons [simp]: "r \<noteq> [] \<Longrightarrow> Advance (st\<lparr>ps_rest := t # r\<rparr>) = Ok () (st\<lparr>ps_rest := r\<rparr>)"
  by (cases r) (simp_all add: Advance_def pmodify_def)

lemma Expect_cons [simp]:
  "r \<noteq> [] \<Longrightarrow> tk_type t = ty \<Longrightarrow> Expect ty what (st\<lparr>ps_rest := t # r\<rparr>) = Ok t (st\<lparr>ps_rest := r\<rparr>)"
  by (simp add: Expect_def pif_def pbind_def pget_def preturn_def)

lemma token_simps [simp]: "tk_type (mk_token ty s l) = ty" "tk_text (mk_token ty s l) = s" "tk_line (mk_token ty s l) = l"
  by (simp_all add: mk_token_def)

text \<open>The lookups do not read the cursor.\<close>

lemma ContainerOf_rest [simp]: "ContainerOf (st\<lparr>ps_rest := r\<rparr>) n = ContainerOf st n"
  by (simp add: ContainerOf_def split: option.splits)

lemma lookup_rest [simp]:
  "OwnerOf (st\<lparr>ps_rest := r\<rparr>) n = OwnerOf st n" "resolve_bare (st\<lparr>ps_rest := r\<rparr>) n = resolve_bare st n"
  "OwnerForQualified (st\<lparr>ps_rest := r\<rparr>) q n = OwnerForQualified st q n"
  by (simp_all add: OwnerOf_def resolve_bare_def ExternalType_def StructContainerOf_def UnionContainerOf_def
      OwnerForQualified_def Let_def)

lemma names_after_none [simp]:
  "tk_type t \<noteq> sep \<Longrightarrow> names_after sep w (st\<lparr>ps_rest := t # r\<rparr>) = Ok [] (st\<lparr>ps_rest := t # r\<rparr>)"
  by (simp add: names_after_def ploop_def pif_def preturn_def)

lemma number_value_append: "number_value 10 (s @ [c]) = number_value 10 s * 10 + digit_value c"
  by (simp add: number_value_def)

lemma number_value_show: "number_value 10 (show_nat n) = n"
proof (induction n rule: less_induct)
  case (less n)
  have digit: "digit_value (char_of (48 + d)) = d" if "d < 10" for d :: nat
    using that by (simp add: digit_value_def Let_def)
  show ?case
  proof (cases "n < 10")
    case True
    then show ?thesis by (subst show_nat.simps) (simp add: number_value_def digit)
  next
    case False
    have "number_value 10 (show_nat (n div 10)) = n div 10" using False by (intro less) simp
    then show ?thesis using False
      by (subst show_nat.simps) (simp add: number_value_append digit)
  qed
qed

subsection \<open>Printing\<close>

definition name_tok :: "string \<Rightarrow> Token" where "name_tok s = mk_token kName s 1"

definition punct :: "TokenType \<Rightarrow> Token" where "punct ty = mk_token ty [] 1"

text \<open>The keyword of a kind, read off the tables of the parser.\<close>

definition keyword_of :: "(string \<times> TypeKind) list \<Rightarrow> TypeKind \<Rightarrow> string option" where
  "keyword_of table k = map_of (map (\<lambda>(s, k). (k, s)) table) k"

fun print_type :: "TypeSpec \<Rightarrow> Token list" where
  "print_type (TypeSpec k n e ky nullable ns container sz) =
     (if k = kString then [name_tok ''string'']
      else if k = kArray
      then [name_tok ''array'', punct kLAngle] @ (case e of Some el \<Rightarrow> print_type el | None \<Rightarrow> []) @
        (if sz = 0 then [] else [punct kComma, mk_token kNumber (show_nat sz) 1]) @ [punct kRAngle]
      else if k = kMap
      then [name_tok ''map'', punct kLAngle] @ (case ky of Some kt \<Rightarrow> print_type kt | None \<Rightarrow> []) @ [punct kComma] @
        (case e of Some el \<Rightarrow> print_type el | None \<Rightarrow> []) @ [punct kRAngle]
      else if k = kHandle then [name_tok ''handle'']
      else (case keyword_of handle_subtypes k of
              Some s \<Rightarrow> [name_tok ''handle'', punct kLAngle, name_tok s, punct kRAngle]
            | None \<Rightarrow>
          (case keyword_of kPendingKeywords k of
              Some s \<Rightarrow> [name_tok s, punct kLAngle, name_tok n, punct kRAngle]
            | None \<Rightarrow>
          (case keyword_of kScalarKeywords k of
              Some s \<Rightarrow> [name_tok s]
            | None \<Rightarrow> [name_tok n]))))
     @ (if nullable then [punct kQuestion] else [])"

definition type_keyword :: "string \<Rightarrow> bool" where
  "type_keyword n \<longleftrightarrow> n \<in> set ([''string'', ''array'', ''map'', ''hash_map'', ''handle'', ''associated''] @
     map fst kPendingKeywords @ map fst kScalarKeywords)"

text \<open>
  The types a file can name with a bare identifier in the state: a reference prints as its
  name and must be what that name means.
\<close>

fun printable_type :: "PState \<Rightarrow> TypeSpec \<Rightarrow> bool" where
  "printable_type st (TypeSpec k n e ky nullable ns container sz) \<longleftrightarrow>
     (if k = kArray then n = [] \<and> ns = [] \<and> container = [] \<and> ky = None \<and> sz < 2 ^ 31 \<and>
        (case e of Some el \<Rightarrow> printable_type st el | None \<Rightarrow> False)
      else if k = kMap then n = [] \<and> ns = [] \<and> container = [] \<and> sz = 0 \<and>
        (case e of Some el \<Rightarrow> printable_type st el | None \<Rightarrow> False) \<and>
        (case ky of Some kt \<Rightarrow> printable_type st kt \<and> map_key_kind (ts_kind kt) \<and> \<not> ts_nullable kt
           | None \<Rightarrow> False)
      else e = None \<and> ky = None \<and> sz = 0 \<and>
        (if keyword_of kPendingKeywords k \<noteq> None then container = [] \<and> ns = OwnerOf st n
         else if k \<in> {kStructRef, kUnionRef, kEnumRef}
         then \<not> type_keyword n \<and> resolve_bare st n = TypeSpec k n None None False ns container 0
         else n = [] \<and> ns = [] \<and> container = []))"

text \<open>What may follow a type in a file.\<close>

definition follows_type :: "Token list \<Rightarrow> bool" where
  "follows_type r \<longleftrightarrow> r \<noteq> [] \<and> tk_type (hd r) \<notin> {kQuestion, kDot, kLAngle}"

subsection \<open>Parsing what was printed\<close>

lemma follows_punct [simp]: "ty \<notin> {kQuestion, kDot, kLAngle} \<Longrightarrow> follows_type (punct ty # r)"
  by (simp add: follows_type_def punct_def)

lemma print_type_nonempty [simp]: "print_type t \<noteq> []"
  by (cases t) (auto split: option.splits)

lemma nullable_step:
  assumes "ParseTypeSpecInner p (st\<lparr>ps_rest := ts @ (if nu then [punct kQuestion] else []) @ r\<rparr>)
      = Ok t (st\<lparr>ps_rest := (if nu then [punct kQuestion] else []) @ r\<rparr>)" "follows_type r"
  shows "pbind (ParseTypeSpecInner p) (\<lambda>t. pif (At kQuestion)
      (pbind Advance (\<lambda>_. pbind (CheckNullableAllowed t) (\<lambda>_. preturn (set_nullable t)))) (preturn t))
      (st\<lparr>ps_rest := ts @ (if nu then [punct kQuestion] else []) @ r\<rparr>) =
    Ok (if nu then set_nullable t else t) (st\<lparr>ps_rest := r\<rparr>)"
proof -
  have "CheckNullableAllowed t st' = Ok () st'" for st'
    by (cases "ts_kind t") (simp_all add: CheckNullableAllowed_def preturn_def)
  moreover obtain x xs where "r = x # xs" "tk_type x \<noteq> kQuestion"
    using assms(2) by (cases r) (auto simp: follows_type_def)
  ultimately show ?thesis
    using assms(1) by (cases nu) (simp_all add: pbind_def pif_def preturn_def punct_def)
qed

definition unmarked :: "TypeSpec \<Rightarrow> TypeSpec" where
  "unmarked t = (case t of TypeSpec k n e ky _ ns c sz \<Rightarrow> TypeSpec k n e ky False ns c sz)"

definition print_core :: "TypeSpec \<Rightarrow> Token list" where
  "print_core t = print_type (unmarked t)"

lemma print_type_core: "print_type t = print_core t @ (if ts_nullable t then [punct kQuestion] else [])"
  by (cases t) (simp add: print_core_def unmarked_def)

lemma printable_unmarked [simp]: "printable_type st (unmarked t) = printable_type st t"
  by (cases t) (simp add: unmarked_def)

lemma set_nullable_unmarked: "(if ts_nullable t then set_nullable (unmarked t) else unmarked t) = t"
  by (cases t) (simp add: unmarked_def set_nullable_def)

text \<open>The parser of the nested types inverts printing on the parts of a type.\<close>

definition inverts :: "TypeSpec parser \<Rightarrow> PState \<Rightarrow> TypeSpec \<Rightarrow> bool" where
  "inverts p st t \<longleftrightarrow> (\<forall>r. follows_type r \<longrightarrow> p (st\<lparr>ps_rest := print_type t @ r\<rparr>) = Ok t (st\<lparr>ps_rest := r\<rparr>))"

lemma invertsD: "inverts p st t \<Longrightarrow> follows_type r \<Longrightarrow> p (st\<lparr>ps_rest := print_type t @ r\<rparr>) = Ok t (st\<lparr>ps_rest := r\<rparr>)"
  by (simp add: inverts_def)

lemma inner_array:
  assumes "inverts p st el" "sz < 2 ^ 31" "r \<noteq> []"
  shows "ParseTypeSpecInner p (st\<lparr>ps_rest := print_type (TypeSpec kArray [] (Some el) None False [] [] sz) @ r\<rparr>)
    = Ok (TypeSpec kArray [] (Some el) None False [] [] sz) (st\<lparr>ps_rest := r\<rparr>)"
proof -
  note el = invertsD [OF assms(1)]
  show ?thesis
  proof (cases "sz = 0")
    case True
    have "p (st\<lparr>ps_rest := print_type el @ punct kRAngle # r\<rparr>) = Ok el (st\<lparr>ps_rest := punct kRAngle # r\<rparr>)"
      by (rule el) simp
    then show ?thesis
      using True assms(3)
      by (simp add: ParseTypeSpecInner_def parse_array_def pbind_def preturn_def pif_def name_tok_def punct_def)
  next
    case False
    let ?r = "punct kComma # mk_token kNumber (show_nat sz) 1 # punct kRAngle # r"
    have "p (st\<lparr>ps_rest := print_type el @ ?r\<rparr>) = Ok el (st\<lparr>ps_rest := ?r\<rparr>)" by (rule el) simp
    then show ?thesis
      using False assms(2,3)
      by (simp add: ParseTypeSpecInner_def parse_array_def pbind_def preturn_def pif_def name_tok_def punct_def
          stoi_def number_value_show)
  qed
qed

lemma inner_map:
  assumes "inverts p st kt" "inverts p st el" "map_key_kind (ts_kind kt)" "\<not> ts_nullable kt" "r \<noteq> []"
  shows "ParseTypeSpecInner p (st\<lparr>ps_rest := print_type (TypeSpec kMap [] (Some el) (Some kt) False [] [] 0) @ r\<rparr>)
    = Ok (TypeSpec kMap [] (Some el) (Some kt) False [] [] 0) (st\<lparr>ps_rest := r\<rparr>)"
proof -
  let ?r = "punct kComma # print_type el @ punct kRAngle # r"
  have "p (st\<lparr>ps_rest := print_type kt @ ?r\<rparr>) = Ok kt (st\<lparr>ps_rest := ?r\<rparr>)"
    "p (st\<lparr>ps_rest := print_type el @ punct kRAngle # r\<rparr>) = Ok el (st\<lparr>ps_rest := punct kRAngle # r\<rparr>)"
    by (simp_all add: invertsD [OF assms(1)] invertsD [OF assms(2)])
  then show ?thesis
    using assms(3-5)
    by (simp add: ParseTypeSpecInner_def parse_map_def pbind_def preturn_def pif_def pget_def name_tok_def punct_def
        CheckValidMapKeyType_def)
qed

lemma inner_leaf:
  assumes "printable_type st (TypeSpec k n None None False ns c 0)" "k \<noteq> kArray" "k \<noteq> kMap"
    and r: "r = x # xs" "tk_type x \<noteq> kDot" "tk_type x \<noteq> kLAngle"
  shows "ParseTypeSpecInner p (st\<lparr>ps_rest := print_type (TypeSpec k n None None False ns c 0) @ r\<rparr>)
    = Ok (TypeSpec k n None None False ns c 0) (st\<lparr>ps_rest := r\<rparr>)"
proof (cases "k \<in> {kStructRef, kUnionRef, kEnumRef}")
  case True
  then have n: "\<not> type_keyword n" "resolve_bare st n = TypeSpec k n None None False ns c 0"
    using assms(1) by (auto simp: keyword_of_def kPendingKeywords_def split: if_splits)
  have p: "print_type (TypeSpec k n None None False ns c 0) = [name_tok n]"
    using True by (auto simp: keyword_of_def kPendingKeywords_def kScalarKeywords_def handle_subtypes_def)
  have "map_of kPendingKeywords n = None" "map_of kScalarKeywords n = None"
    using n(1) by (auto simp: type_keyword_def map_of_eq_None_iff)
  then show ?thesis
    using n r p by (simp add: ParseTypeSpecInner_def parse_named_def pbind_def pif_def pget_def name_tok_def
        type_keyword_def)
next
  case False
  show ?thesis
    using assms(1-3) False r
    by (cases k) (simp_all add: keyword_of_def kPendingKeywords_def kScalarKeywords_def handle_subtypes_def
        ParseTypeSpecInner_def parse_handle_def parse_pending_def TakeQualifiedName_def
        pbind_def pif_def pget_def preturn_def name_tok_def punct_def simple_type_def named_type_def
        OwnerForQualified_def)
qed

lemma print_type_length: "0 < length (print_type t)"
  by simp

lemma inner_printed:
  assumes "printable_type st t" "r = x # xs" "tk_type x \<noteq> kDot" "tk_type x \<noteq> kLAngle"
    and el: "\<And>el. ts_element t = Some el \<Longrightarrow> inverts p st el"
    and ky: "\<And>kt. ts_key t = Some kt \<Longrightarrow> inverts p st kt"
  shows "ParseTypeSpecInner p (st\<lparr>ps_rest := print_core t @ r\<rparr>) = Ok (unmarked t) (st\<lparr>ps_rest := r\<rparr>)"
proof (cases t)
  case (TypeSpec k n e ky nu ns c sz)
  consider (array) "k = kArray" | (map) "k = kMap" | (leaf) "k \<noteq> kArray" "k \<noteq> kMap" by blast
  then show ?thesis
  proof cases
    case array
    with assms(1) TypeSpec obtain el where "e = Some el" "n = []" "ns = []" "c = []" "ky = None" "sz < 2 ^ 31"
      by (auto split: option.splits)
    then show ?thesis
      using inner_array [of p st el sz r] el array TypeSpec assms(2) by (simp add: print_core_def unmarked_def)
  next
    case map
    with assms(1) TypeSpec obtain el kt where "e = Some el" "ky = Some kt" "n = []" "ns = []" "c = []" "sz = 0"
      "map_key_kind (ts_kind kt)" "\<not> ts_nullable kt"
      by (auto split: option.splits)
    then show ?thesis
      using inner_map [of p st kt el r] el ky map TypeSpec assms(2) by (simp add: print_core_def unmarked_def)
  next
    case leaf
    then have "e = None" "ky = None" "sz = 0" using assms(1) TypeSpec by auto
    moreover have "printable_type st (TypeSpec k n None None False ns c 0)"
      using assms(1) TypeSpec leaf calculation by simp
    ultimately show ?thesis
      using inner_leaf [OF _ leaf assms(2-4), of st n ns c p] TypeSpec by (simp add: print_core_def unmarked_def)
  qed
qed

lemma parts_shorter:
  "printable_type st t \<Longrightarrow> ts_element t = Some el \<Longrightarrow> printable_type st el \<and> length (print_type el) < length (print_type t)"
  "printable_type st t \<Longrightarrow> ts_key t = Some kt \<Longrightarrow> printable_type st kt \<and> length (print_type kt) < length (print_type t)"
  by (cases t; auto split: if_splits option.splits)+

lemma fuel_inverts: "printable_type st t \<Longrightarrow> length (print_type t) \<le> n \<Longrightarrow> inverts (type_spec_fuel n) st t"
proof (induction n arbitrary: t)
  case (Suc n)
  have el: "inverts (type_spec_fuel n) st u" if "ts_element t = Some u" for u
    using Suc.IH [of u] parts_shorter(1) [OF Suc.prems(1) that] Suc.prems(2) by simp
  have ky: "inverts (type_spec_fuel n) st u" if "ts_key t = Some u" for u
    using Suc.IH [of u] parts_shorter(2) [OF Suc.prems(1) that] Suc.prems(2) by simp
  show ?case
    unfolding inverts_def
  proof (intro allI impI)
    fix r
    assume r: "follows_type r"
    let ?q = "if ts_nullable t then [punct kQuestion] else []"
    obtain x xs where "?q @ r = x # xs" "tk_type x \<noteq> kDot" "tk_type x \<noteq> kLAngle"
      using r by (cases r; cases "ts_nullable t") (auto simp: follows_type_def punct_def)
    from inner_printed [OF Suc.prems(1) this el ky]
    have "ParseTypeSpecInner (type_spec_fuel n) (st\<lparr>ps_rest := print_core t @ ?q @ r\<rparr>)
        = Ok (unmarked t) (st\<lparr>ps_rest := ?q @ r\<rparr>)" .
    from nullable_step [OF this r]
    show "type_spec_fuel (Suc n) (st\<lparr>ps_rest := print_type t @ r\<rparr>) = Ok t (st\<lparr>ps_rest := r\<rparr>)"
      by (simp add: print_type_core [of t] set_nullable_unmarked)
  qed
qed simp

lemma ParseTypeSpec_print:
  assumes "printable_type st t" "follows_type r"
  shows "ParseTypeSpec (st\<lparr>ps_rest := print_type t @ r\<rparr>) = Ok t (st\<lparr>ps_rest := r\<rparr>)"
proof -
  have "inverts (type_spec_fuel (length (print_type t @ r))) st t"
    by (rule fuel_inverts [OF assms(1)]) simp
  from invertsD [OF this assms(2)] show ?thesis by (simp add: ParseTypeSpec_def)
qed

end
