(* ===== verification/Parser_Properties.thy ===== *)
theory Parser_Properties
  imports Lexer_Properties Parser_Validity Enum_Prescan Type_Printing
begin

text \<open>
  The properties of the IDL parser and of the conditional-declaration filter, with their
  concrete instances.
\<close>

subsection \<open>Evaluation on concrete files\<close>

lemma Expect_eval:
  "Expect ty what st =
     (if tk_type (Cur st) = ty then (case Advance st of Ok u st' \<Rightarrow> Ok (Cur st) st' | Fail e \<Rightarrow> Fail e)
      else Fail (ParseError (''expected '' @ what @ got (Cur st)) (tk_line (Cur st))))"
  by (auto simp: Expect_def pif_def At_def pbind_def pget_def preturn_def pthrow_def pfail_def
      split: presult.splits)

lemma ExpectKeyword_eval:
  "ExpectKeyword kw st =
     (if AtKeyword kw st then (case Advance st of Ok u st' \<Rightarrow> Ok (Cur st) st' | Fail e \<Rightarrow> Fail e)
      else Fail (ParseError (''expected '' @ quoted kw @ got (Cur st)) (tk_line (Cur st))))"
  by (auto simp: ExpectKeyword_def pif_def pbind_def pget_def preturn_def pthrow_def pfail_def
      split: presult.splits)

lemma Advance_eval:
  "Advance st = Ok () (if 1 < length (ps_rest st) then st\<lparr>ps_rest := tl (ps_rest st)\<rparr> else st)"
  by (simp add: Advance_def pmodify_def)

lemma pthrow_eval: "pthrow m l st = Fail (ParseError m l)"
  by (simp add: pthrow_def pfail_def)

lemma plift_eval: "plift r st = (case r of Inl e \<Rightarrow> Fail e | Inr x \<Rightarrow> Ok x st)"
  by (simp add: plift_def pfail_def preturn_def split: sum.splits)

lemma check_acyclic_eval: "embed_edges md = [] \<Longrightarrow> CheckCompleteTypeAcyclic md st = Ok () st"
  by (rule check_acyclic_ok) (simp add: acyclic_def)

lemmas monad_eval =
  pbind_def pif_def preturn_def pget_def pmodify_def pfail_def pthrow_eval plift_eval ploop_def Expect_eval
  ExpectKeyword_eval At_def AtKeyword_def Cur_def Advance_eval pwhile.simps [THEN fun_cong] pfold.simps [THEN fun_cong]

lemmas parse_eval =
  Parse_def new_parser_def parse_file_def [THEN fun_cong] ParseHeader_def [THEN fun_cong]
  parse_imports_def [THEN fun_cong] ParseBody_def [THEN fun_cong] body_step_def [THEN fun_cong] starts_decl_def
  top_decl_def [THEN fun_cong] top_attrs_def [THEN fun_cong] attrs_if_any_def [THEN fun_cong]
  ParseUnion_def [THEN fun_cong] union_member_def [THEN fun_cong] union_field_def [THEN fun_cong]
  retag_def [THEN fun_cong] take_embed_index_def [THEN fun_cong] ParseTypeSpec_def
  type_spec_fuel.simps [THEN fun_cong] ParseTypeSpecInner_def [THEN fun_cong] stoul32_def [THEN fun_cong]
  ParseInterface_def [THEN fun_cong] interface_member_def [THEN fun_cong] ParseMethod_def [THEN fun_cong]
  take_method_ordinal_def [THEN fun_cong] params_in_parens_def [THEN fun_cong]
  ParseEnum_def [THEN fun_cong] enum_body_def [THEN fun_cong] enum_values_def [THEN fun_cong]
  ParseEnumValue_def [THEN fun_cong] enum_initializer_def [THEN fun_cong] more_values_def next_enum_value_def
  check_acyclic_eval

lemmas data_eval =
  new_union_def new_union_field_def new_module_def new_interface_def new_method_def new_enum_def
  new_enum_value_def number_value_def digit_value_def kScalarKeywords_def kPendingKeywords_def simple_type_def
  named_type_def u32_def add32_def embed_edges_def embed_decls_def local_keys_def union_types_def field_edges_def
  scan_enum_def scan_values.simps at_type_def scan_initializer_def ParseIntLiteral_def literal_value_def
  next_int32_def to_int32_def to_int64_def Let_def

declare pwhile.simps [simp del] pfold.simps [simp del] type_spec_fuel.simps [simp del]

text \<open>Two files: a union that mixes given and chosen tags, and an empty interface.\<close>

definition mixed_union :: "Token list" where
  "mixed_union =
     [name_tok ''union'', name_tok ''U'', punct kLBrace,
      name_tok ''bool'', name_tok ''a'', punct kSemi,
      name_tok ''bool'', name_tok ''b'', punct kAt, mk_token kNumber ''0'' 1, punct kSemi,
      punct kRBrace, punct kSemi]"

definition method_pair :: "string \<Rightarrow> string \<Rightarrow> Token list" where
  "method_pair x y =
     [name_tok ''interface'', name_tok ''I'', punct kLBrace,
      name_tok ''A'', punct kAt, mk_token kNumber x 1, punct kLParen, punct kRParen, punct kSemi,
      name_tok ''B'', punct kAt, mk_token kNumber y 1, punct kLParen, punct kRParen, punct kSemi,
      punct kRBrace, punct kSemi]"

text \<open>The state of the parser at the start of a file with nothing declared.\<close>

definition start_state :: "Token list \<Rightarrow> PState" where
  "start_state ts =
     \<lparr>ps_rest = ts, ps_module_name = [], ps_declared = no_names, ps_enum_values = Map.empty,
      ps_local_names = {}, ps_local_enum_values = Map.empty, ps_const_by_name = Map.empty,
      ps_next_const_order = 0, ps_embed_order = Map.empty, ps_next_embed_order = 0,
      ps_pending_result_unions = [], ps_owner_by_name = Map.empty, ps_container_by_name = Map.empty,
      ps_container_enums = Map.empty, ps_const_container = Map.empty, ps_leftover_attrs = None\<rparr>"

lemma parse_union_mixed:
  "\<exists>u st'. ParseUnion [] (start_state (mixed_union @ [mk_token kEnd [] 1])) = Ok u st' \<and>
     map uf_tag (u_fields u) = [1, 0] \<and> map uf_has_explicit_tag (u_fields u) = [False, True]"
  by (simp add: parse_eval monad_eval data_eval start_state_def mixed_union_def name_tok_def punct_def mk_token_def)

lemma parse_mixed_union:
  "\<exists>md u. Parse (mixed_union @ [mk_token kEnd [] 1]) = Inr md \<and> mod_unions md = [u] \<and>
     map uf_tag (u_fields u) = [1, 0] \<and> map uf_has_explicit_tag (u_fields u) = [False, True]"
  by (simp add: parse_eval monad_eval data_eval mixed_union_def name_tok_def punct_def mk_token_def)

lemma mixed_union_printable: "list_all printable mixed_union"
  by (simp add: mixed_union_def printable_def token_ok_def mk_token_def name_tok_def punct_def name_text_def
      number_text_def IsNameStart_def IsNameCont_def isalpha_def isdigit_def)

subsection \<open>Termination and validity\<close>

text \<open>C12.  The parser terminates on every token list the lexer produces (of at most \<open>2 ^ 32\<close>
  tokens): it returns a module, throws a \<open>ParseError\<close>, lets a number conversion throw, or
  overflows the counter of an enumeration; no loop of the source runs forever.\<close>

theorem parse_terminates:
  assumes "Tokenize src = Inr ts" "length ts \<le> 2 ^ 32"
  shows "(\<exists>md. Parse ts = Inr md) \<or> (\<exists>msg line. Parse ts = Inl (ParseError msg line)) \<or>
    Parse ts = Inl StdOutOfRange \<or> Parse ts = Inl IntOverflow"
proof -
  obtain us l where "ts = us @ [mk_token kEnd [] l]"
    using lex_loop_ok [OF assms(1) [unfolded Tokenize_def]] by blast
  then have "Parse ts \<noteq> Inl OutOfFuel"
    using assms(2) by (intro Parse_never_out_of_fuel) (simp_all add: mk_token_def)
  then show ?thesis
    by (cases "Parse ts") (auto intro: PFail.exhaust)
qed

theorem parse_terminates_witness:
  "\<exists>ts. Tokenize (print_tokens mixed_union) = Inr ts \<and>
     ((\<exists>md. Parse ts = Inr md) \<or> (\<exists>msg line. Parse ts = Inl (ParseError msg line)) \<or>
      Parse ts = Inl StdOutOfRange \<or> Parse ts = Inl IntOverflow)"
proof -
  let ?ts = "map (\<lambda>t. t\<lparr>tk_line := 1\<rparr>) mixed_union @ [mk_token kEnd [] 1]"
  have t: "Tokenize (print_tokens mixed_union) = Inr ?ts"
    using lex_print_tokens [OF mixed_union_printable, of 1] by (simp add: Tokenize_def)
  have "length ?ts \<le> 2 ^ 32" by (simp add: mixed_union_def)
  from t parse_terminates [OF t this] show ?thesis by blast
qed




text \<open>The tags the parser chooses for the fields of a union that have none are pairwise
  distinct and differ from every tag given in the file, whether or not the union mixes the
  two; a union without a field is never returned.\<close>

theorem union_tags_fresh:
  assumes "ParseUnion attrs st = Ok u st'" "length (u_fields u) \<le> 2 ^ 32"
  shows "u_fields u \<noteq> [] \<and> distinct (chosen_tags (u_fields u)) \<and>
    set (chosen_tags (u_fields u)) \<inter> set (given_tags (u_fields u)) = {}"
  using returnsD [OF returns_union assms(1)] assms(2) by (simp add: union_ok_def tags_ok_def)

theorem union_tags_fresh_witness:
  "\<exists>u st'. ParseUnion [] (start_state (mixed_union @ [mk_token kEnd [] 1])) = Ok u st' \<and>
     map uf_tag (u_fields u) = [1, 0] \<and> distinct (chosen_tags (u_fields u)) \<and>
     set (chosen_tags (u_fields u)) \<inter> set (given_tags (u_fields u)) = {}"
proof -
  obtain u st' where u: "ParseUnion [] (start_state (mixed_union @ [mk_token kEnd [] 1])) = Ok u st'"
    "map uf_tag (u_fields u) = [1, 0]" using parse_union_mixed by (elim exE conjE) (rule that)
  have "length (map uf_tag (u_fields u)) = 2" unfolding u(2) by simp
  then have "length (u_fields u) \<le> 2 ^ 32" by simp
  from union_tags_fresh [OF u(1) this] u show ?thesis
    by (intro exI [of _ u] exI [of _ st']) simp
qed

text \<open>Two ordinals that differ by a multiple of \<open>2 ^ 32\<close> are read as the same: the
  conversion of the literal to \<open>uint32_t\<close> drops the high bits, and equal ordinals of two
  methods of an interface are not refused.\<close>

theorem ordinals_truncated:
  "\<exists>md i. Parse (method_pair ''1'' ''4294967297'' @ [mk_token kEnd [] 1]) = Inr md \<and>
     mod_interfaces md = [i] \<and> map m_ordinal (i_methods i) = [1, 1]"
  by (simp add: parse_eval monad_eval data_eval method_pair_def name_tok_def punct_def mk_token_def)

text \<open>An enumerator whose value is the largest \<open>int32_t\<close> overflows the counter of the
  next value, even when no value follows.\<close>

theorem last_enumerator_overflows:
  "Parse [name_tok ''enum'', name_tok ''E'', punct kLBrace, name_tok ''A'', punct kEquals,
     mk_token kNumber ''2147483647'' 1, punct kRBrace, punct kSemi, punct kEnd] = Inl IntOverflow"
  by (simp add: parse_eval monad_eval data_eval name_tok_def punct_def mk_token_def)

text \<open>In an interface of a parsed file either every method has a given ordinal, below the
  two reserved for control messages, or the ordinals are the positions of the methods.\<close>

theorem interface_ordinals:
  assumes "Parse ts = Inr md" "i \<in> set (mod_interfaces md)" "length (i_methods i) \<le> 2 ^ 32"
  shows "(\<forall>m \<in> set (i_methods i). m_has_explicit_ordinal m \<and> m_ordinal m < 0xFFFFFFFE) \<or>
    map m_ordinal (i_methods i) = [0..<length (i_methods i)]"
proof -
  have "interface_ok i" using Parse_valid [OF assms(1)] assms(2) by (auto simp: module_ok_def list_all_iff)
  moreover have "map u32 [0..<length (i_methods i)] = [0..<length (i_methods i)]"
    using assms(3) by (auto intro!: map_idI simp: u32_id)
  ultimately show ?thesis
    by (auto simp: interface_ok_def ordinals_ok_def list_all_iff method_ok_def method_parts_ok_def)
qed

theorem interface_ordinals_witness:
  "\<exists>md i. Parse (method_pair ''7'' ''9'' @ [mk_token kEnd [] 1]) = Inr md \<and> i \<in> set (mod_interfaces md) \<and>
     map m_ordinal (i_methods i) = [7, 9] \<and> list_all m_has_explicit_ordinal (i_methods i)"
proof -
  have "\<exists>md i. Parse (method_pair ''7'' ''9'' @ [mk_token kEnd [] 1]) = Inr md \<and>
      mod_interfaces md = [i] \<and> map m_ordinal (i_methods i) = [7, 9]"
    by (simp add: parse_eval monad_eval data_eval method_pair_def name_tok_def punct_def mk_token_def)
  then obtain md i where md: "Parse (method_pair ''7'' ''9'' @ [mk_token kEnd [] 1]) = Inr md"
    "mod_interfaces md = [i]" "map m_ordinal (i_methods i) = [7, 9]" by (elim exE conjE) (rule that)
  have len: "length (map m_ordinal (i_methods i)) = 2" unfolding md(3) by simp
  then have "length (i_methods i) \<le> 2 ^ 32" by simp
  from interface_ordinals [OF md(1) _ this] md(2)
  have "(\<forall>m \<in> set (i_methods i). m_has_explicit_ordinal m \<and> m_ordinal m < 0xFFFFFFFE) \<or>
    [7, 9] = [0..<length (i_methods i)]" by (simp add: md(3))
  then have "list_all m_has_explicit_ordinal (i_methods i)"
    using len by (auto simp: list_all_iff numeral_2_eq_2)
  with md show ?thesis by auto
qed

subsection \<open>Round trip and equivalence\<close>



text \<open>C16.  The scan for enumerator values that runs before parsing, so that a default may name
  a value of an enumeration declared later, computes the same names and values as the parser
  for every enumeration the parser accepts, attributes and aliases included.\<close>

theorem prescan_agrees:
  assumes "ParseEnum attrs st = Ok e st'" "tokens_ok st"
  shows "\<exists>e' r. scan_enum (tl (ps_rest st)) = Inr (e', r) \<and> e_name e' = e_name e \<and>
    map (\<lambda>v. (ev_name v, ev_value v)) (e_values e') = map (\<lambda>v. (ev_name v, ev_value v)) (e_values e)"
  using ParseEnum_scan [OF assms] by (simp add: same_values_def)

theorem prescan_agrees_witness:
  "\<exists>e st' e' r. ParseEnum [] (start_state [name_tok ''enum'', name_tok ''E'', punct kLBrace, name_tok ''A'',
       punct kEquals, punct kMinus, mk_token kNumber ''2'' 1, punct kComma, name_tok ''B'', punct kRBrace,
       punct kSemi, punct kEnd]) = Ok e st' \<and>
     map (\<lambda>v. (ev_name v, ev_value v)) (e_values e) = [(''A'', -2), (''B'', -1)] \<and>
     scan_enum [name_tok ''E'', punct kLBrace, name_tok ''A'', punct kEquals, punct kMinus,
       mk_token kNumber ''2'' 1, punct kComma, name_tok ''B'', punct kRBrace, punct kSemi, punct kEnd] = Inr (e', r) \<and>
     map (\<lambda>v. (ev_name v, ev_value v)) (e_values e') = [(''A'', -2), (''B'', -1)]"
proof -
  let ?ts = "[name_tok ''enum'', name_tok ''E'', punct kLBrace, name_tok ''A'',
       punct kEquals, punct kMinus, mk_token kNumber ''2'' 1, punct kComma, name_tok ''B'', punct kRBrace,
       punct kSemi, punct kEnd]"
  have "\<exists>e st'. ParseEnum [] (start_state ?ts) = Ok e st' \<and>
      map (\<lambda>v. (ev_name v, ev_value v)) (e_values e) = [(''A'', -2), (''B'', -1)]"
    by (simp add: parse_eval monad_eval data_eval start_state_def name_tok_def punct_def mk_token_def
        ParseSignedNumber_def [THEN fun_cong])
  then obtain e st' where e: "ParseEnum [] (start_state ?ts) = Ok e st'"
    "map (\<lambda>v. (ev_name v, ev_value v)) (e_values e) = [(''A'', -2), (''B'', -1)]" by (elim exE conjE) (rule that)
  have "tokens_ok (start_state ?ts)" by (simp add: tokens_ok_def start_state_def punct_def mk_token_def)
  from prescan_agrees [OF e(1) this] e(2) show ?thesis
    using e(1) by (fastforce simp: start_state_def)
qed

end
