(* ===== verification/Names_Properties.thy ===== *)
theory Names_Properties
  imports Parser_Properties
begin

text \<open>
  What the scan for declared names finds, how names of the file and of its imports resolve,
  and what the filter on conditional declarations keeps.
\<close>

subsection \<open>Declared names\<close>

text \<open>A keyword followed by a name, anywhere in the file.\<close>

fun declares :: "string \<Rightarrow> Token list \<Rightarrow> string \<Rightarrow> bool" where
  "declares kw (t # u # ts) n \<longleftrightarrow>
     tk_type t = kName \<and> tk_text t = kw \<and> tk_type u = kName \<and> tk_text u = n \<or> declares kw (u # ts) n"
| "declares kw _ n \<longleftrightarrow> False"

lemma scan_declared_names:
  "n \<in> dn_structs (scan_names (scan_declared ts s)) \<longleftrightarrow> n \<in> dn_structs (scan_names s) \<or> declares ''struct'' ts n"
  "n \<in> dn_unions (scan_names (scan_declared ts s)) \<longleftrightarrow> n \<in> dn_unions (scan_names s) \<or> declares ''union'' ts n"
  "n \<in> dn_enums (scan_names (scan_declared ts s)) \<longleftrightarrow> n \<in> dn_enums (scan_names s) \<or> declares ''enum'' ts n"
proof (induction ts s rule: scan_declared.induct)
  case (2 t ts s)
  note IH = 2
  have step: "scan_declared (t # ts) s = scan_declared ts
      (if tk_type t = kName \<and> ts \<noteq> [] \<and> tk_type (hd ts) = kName \<and> decl_keyword (tk_text t)
       then declare_pending (tk_text t) (tk_text (hd ts)) s
       else if tk_type t = kLBrace then open_body s
       else if tk_type t = kRBrace then close_body s else s)" by simp
  note defs = declare_pending_def declare_struct_def declare_union_def declare_enum_def open_body_def
    close_body_def decl_keyword_def
  { case 1 show ?case unfolding step IH(1) by (cases ts) (auto simp: defs) }
  { case 2 show ?case unfolding step IH(2) by (cases ts) (auto simp: defs) }
  { case 3 show ?case unfolding step IH(3) by (cases ts) (auto simp: defs) }
qed simp_all

subsection \<open>The start of a body\<close>

text \<open>The state in which the declarations of a file are parsed (the first two steps of \<open>ParseBody\<close>).\<close>

definition enter_body :: "Prelude option \<Rightarrow> PState \<Rightarrow> PState" where
  "enter_body prelude st =
     (let st1 = st\<lparr>ps_local_names := ps_local_names st \<union> dn_enums (ps_declared st)
            \<union> dn_structs (ps_declared st) \<union> dn_unions (ps_declared st),
          ps_local_enum_values := ps_enum_values st\<rparr>
      in case prelude of Some p \<Rightarrow> SeedFromPrelude p st1 | None \<Rightarrow> st1)"

lemma ParseBody_enter:
  "ParseBody prelude st =
     pbind (ploop (\<lambda>_ st. \<not> At kEnd st) body_step new_module) (\<lambda>md.
     pbind (pget ps_pending_result_unions) (\<lambda>pending.
     let md = md\<lparr>mod_unions := mod_unions md @ pending\<rparr> in
     pbind (CheckCompleteTypeAcyclic md) (\<lambda>_. preturn md))) (enter_body prelude st)"
  by (simp add: ParseBody_def enter_body_def pbind_def pmodify_def Let_def)

lemma seed_local [simp]:
  "ps_local_names (seed_enum e st) = ps_local_names st" "ps_local_names (seed_nested_enum k e st) = ps_local_names st"
  "ps_local_names (seed_const k' c st) = ps_local_names st" "ps_local_names (seed_order key i st) = ps_local_names st"
  by (simp_all add: seed_enum_def seed_nested_enum_def seed_const_def seed_order_def)

lemma seed_decl_local [simp]:
  "ps_local_names (seed_struct s st) = ps_local_names st" "ps_local_names (seed_union u st) = ps_local_names st"
  "ps_local_names (seed_nested_struct k s st) = ps_local_names st"
  "ps_local_names (seed_nested_union k u st) = ps_local_names st"
  by (simp_all add: seed_struct_def seed_union_def seed_nested_struct_def seed_nested_union_def Let_def
      fold_keeps [of ps_local_names])

lemma SeedFromPrelude_local [simp]: "ps_local_names (SeedFromPrelude p st) = ps_local_names st"
  by (simp add: SeedFromPrelude_def seed_interface_def Let_def fold_keeps [of ps_local_names])

text \<open>Seeding only adds names.\<close>

abbreviation structs_of :: "PState \<Rightarrow> string set" where
  "structs_of st \<equiv> dn_structs (ps_declared st)"

lemma seed_structs [simp]:
  "structs_of (seed_enum e st) = structs_of st" "structs_of (seed_nested_enum k e st) = structs_of st"
  "structs_of (seed_const k' c st) = structs_of st" "structs_of (seed_order key i st) = structs_of st"
  by (simp_all add: seed_enum_def seed_nested_enum_def seed_const_def seed_order_def)

lemma seed_decl_structs [simp]:
  "structs_of (seed_struct s st) = insert (s_name s) (structs_of st)" "structs_of (seed_union u st) = structs_of st"
  "structs_of (seed_nested_struct k s st) = insert (s_name s) (structs_of st)"
  "structs_of (seed_nested_union k u st) = structs_of st"
  by (simp_all add: seed_struct_def seed_union_def seed_nested_struct_def seed_nested_union_def Let_def
      fold_keeps [of structs_of])

lemma fold_seed_structs:
  "structs_of (fold seed_struct ss st) = s_name ` set ss \<union> structs_of st"
  "structs_of (fold (seed_nested_struct k) ss st) = s_name ` set ss \<union> structs_of st"
  by (induction ss arbitrary: st) auto

lemma fold_seed_interfaces:
  "structs_of (fold seed_interface is st) = (\<Union>i\<in>set is. s_name ` set (i_structs i)) \<union> structs_of st"
  by (induction "is" arbitrary: st) (auto simp: seed_interface_def fold_keeps [of structs_of] fold_seed_structs)

lemma SeedFromPrelude_structs:
  "structs_of (SeedFromPrelude p st) =
     structs_of st \<union> s_name ` set (mod_structs (pr_module p)) \<union>
     (\<Union>i\<in>set (mod_interfaces (pr_module p)). s_name ` set (i_structs i))"
  by (auto simp: SeedFromPrelude_def Let_def fold_keeps [of structs_of] fold_seed_structs fold_seed_interfaces)

lemma enter_body_structs:
  "n \<in> structs_of (enter_body prelude st) \<longleftrightarrow> n \<in> structs_of st \<or>
     (\<exists>p. prelude = Some p \<and> (n \<in> s_name ` set (mod_structs (pr_module p)) \<or>
        (\<exists>i\<in>set (mod_interfaces (pr_module p)). n \<in> s_name ` set (i_structs i))))"
  by (auto simp: enter_body_def Let_def SeedFromPrelude_structs split: option.splits)

lemma enter_body_local:
  "ps_local_names (enter_body prelude st) = ps_local_names st \<union> dn_enums (ps_declared st)
     \<union> dn_structs (ps_declared st) \<union> dn_unions (ps_declared st)"
  by (simp add: enter_body_def Let_def split: option.splits)

subsection \<open>Conditional declarations\<close>

definition enum_enabled :: "(EnableIf \<Rightarrow> bool) \<Rightarrow> EnumDecl \<Rightarrow> bool" where
  "enum_enabled P e \<longleftrightarrow> P (e_enable_if e) \<and> list_all (\<lambda>v. P (ev_enable_if v)) (e_values e)"

definition struct_enabled :: "(EnableIf \<Rightarrow> bool) \<Rightarrow> StructDecl \<Rightarrow> bool" where
  "struct_enabled P s \<longleftrightarrow> P (s_enable_if s) \<and> list_all (\<lambda>f. P (sf_enable_if f)) (s_fields s) \<and>
     list_all (enum_enabled P) (s_enums s) \<and> list_all (\<lambda>c. P (c_enable_if c)) (s_consts s)"

definition union_enabled :: "(EnableIf \<Rightarrow> bool) \<Rightarrow> UnionDecl \<Rightarrow> bool" where
  "union_enabled P u \<longleftrightarrow> P (u_enable_if u) \<and> list_all (\<lambda>f. P (uf_enable_if f)) (u_fields u)"

definition interface_enabled :: "(EnableIf \<Rightarrow> bool) \<Rightarrow> Interface \<Rightarrow> bool" where
  "interface_enabled P i \<longleftrightarrow> P (i_enable_if i) \<and> list_all (\<lambda>m. P (m_enable_if m)) (i_methods i) \<and>
     list_all (enum_enabled P) (i_enums i) \<and> list_all (\<lambda>c. P (c_enable_if c)) (i_consts i) \<and>
     list_all (struct_enabled P) (i_structs i) \<and> list_all (union_enabled P) (i_unions i)"

definition module_enabled :: "(EnableIf \<Rightarrow> bool) \<Rightarrow> Module \<Rightarrow> bool" where
  "module_enabled P md \<longleftrightarrow> list_all (enum_enabled P) (mod_enums md) \<and> list_all (struct_enabled P) (mod_structs md) \<and>
     list_all (union_enabled P) (mod_unions md) \<and> list_all (interface_enabled P) (mod_interfaces md) \<and>
     list_all (\<lambda>c. P (c_enable_if c)) (mod_consts md) \<and>
     list_all (\<lambda>ft. P (ft_enable_if ft) \<and> list_all (\<lambda>c. P (c_enable_if c)) (ft_consts ft)) (mod_features md)"

lemma EraseDisabled_all: "list_all (\<lambda>x. IsDeclEnabled (spec x) en) (EraseDisabled spec en xs)"
  by (simp add: EraseDisabled_def list_all_iff)

lemma FilterEnum_enabled: "IsDeclEnabled (e_enable_if e) en \<Longrightarrow> enum_enabled (\<lambda>x. IsDeclEnabled x en) (FilterEnum en e)"
  by (simp add: enum_enabled_def FilterEnum_def EraseDisabled_all)

lemma map_Filter_enabled:
  assumes "\<And>x. IsDeclEnabled (spec x) en \<Longrightarrow> Q (f x)"
  shows "list_all Q (map f (EraseDisabled spec en xs))"
  using assms by (auto simp: list_all_iff EraseDisabled_def)

lemma FilterStruct_enabled:
  "IsDeclEnabled (s_enable_if s) en \<Longrightarrow> struct_enabled (\<lambda>x. IsDeclEnabled x en) (FilterStruct en s)"
  by (simp add: struct_enabled_def FilterStruct_def Let_def EraseDisabled_all map_Filter_enabled FilterEnum_enabled
      del: list.pred_map)

lemma filter_unions_enabled:
  "list_all (\<lambda>u. union_enabled (\<lambda>x. IsDeclEnabled x en) u \<and> u_fields u \<noteq> []) (filter_unions en us)"
  by (auto simp: filter_unions_def list_all_iff union_enabled_def FilterUnion_def EraseDisabled_def Let_def)

lemma list_all_conj1: "list_all (\<lambda>x. P x \<and> Q x) xs \<Longrightarrow> list_all P xs"
  by (simp add: list_all_iff)

lemma FilterInterface_enabled:
  "IsDeclEnabled (i_enable_if i) en \<Longrightarrow> interface_enabled (\<lambda>x. IsDeclEnabled x en) (FilterInterface en i)"
  by (simp add: interface_enabled_def FilterInterface_def Let_def EraseDisabled_all map_Filter_enabled
      FilterEnum_enabled FilterStruct_enabled list_all_conj1 [OF filter_unions_enabled]
      del: list.pred_map)

lemma ApplyEnableIf_enabled: "module_enabled (\<lambda>x. IsDeclEnabled x en) (ApplyEnableIf en md)"
  unfolding module_enabled_def ApplyEnableIf_def
  by (simp add: EraseDisabled_all map_Filter_enabled FilterEnum_enabled FilterStruct_enabled
      FilterInterface_enabled list_all_conj1 [OF filter_unions_enabled] del: list.pred_map)

lemma ApplyEnableIf_idem: "ApplyEnableIf en (ApplyEnableIf en md) = ApplyEnableIf en md"
  by (simp add: ApplyEnableIf_def map_EraseDisabled_idem)

lemma erase_nothing: "list_all (\<lambda>x. IsDeclEnabled (spec x) en) xs \<Longrightarrow> EraseDisabled spec en xs = xs"
  by (simp add: EraseDisabled_def list_all_iff)

lemma map_keeps: "list_all (\<lambda>x. f x = x) xs \<Longrightarrow> map f xs = xs"
  by (simp add: list_all_iff map_idI)

text \<open>A valid declaration in which everything is enabled is left as it is.\<close>

lemma Filter_keeps_parts:
  "enum_enabled (\<lambda>x. IsDeclEnabled x en) e \<Longrightarrow> FilterEnum en e = e"
  "struct_enabled (\<lambda>x. IsDeclEnabled x en) s \<Longrightarrow> struct_ok s \<Longrightarrow> FilterStruct en s = s"
  "union_enabled (\<lambda>x. IsDeclEnabled x en) u \<Longrightarrow> union_ok u \<Longrightarrow> FilterUnion en u = u"
proof -
  show enum: "FilterEnum en e = e" if "enum_enabled (\<lambda>x. IsDeclEnabled x en) e" for e
    using that by (simp add: enum_enabled_def FilterEnum_def erase_nothing)
  show "FilterStruct en s = s" if "struct_enabled (\<lambda>x. IsDeclEnabled x en) s" "struct_ok s"
    using that by (simp add: struct_enabled_def FilterStruct_def struct_ok_def Let_def erase_nothing map_keeps
        list_all_iff enum_enabled_def enum)
  show "FilterUnion en u = u" if "union_enabled (\<lambda>x. IsDeclEnabled x en) u" "union_ok u"
    using that by (simp add: union_enabled_def FilterUnion_def union_ok_def Let_def erase_nothing)
qed

lemma erase_map_keeps:
  assumes "list_all (\<lambda>x. Q x \<and> IsDeclEnabled (spec x) en) xs" "\<And>x. Q x \<Longrightarrow> f x = x"
  shows "map f (EraseDisabled spec en xs) = xs"
  using assms by (simp add: EraseDisabled_def list_all_iff map_idI)

lemma list_all_both: "list_all P xs \<Longrightarrow> list_all Q xs \<Longrightarrow> (\<And>x. P x \<Longrightarrow> Q x \<Longrightarrow> R x) \<Longrightarrow> list_all R xs"
  by (simp add: list_all_iff)

lemma filter_unions_keeps:
  assumes "list_all (union_enabled (\<lambda>x. IsDeclEnabled x en)) us" "list_all union_ok us"
  shows "filter_unions en us = us"
proof -
  have "map (FilterUnion en) (EraseDisabled u_enable_if en us) = us"
    by (rule erase_map_keeps [where Q = "\<lambda>u. union_enabled (\<lambda>x. IsDeclEnabled x en) u \<and> union_ok u"],
        rule list_all_both [OF assms]) (simp_all add: union_enabled_def Filter_keeps_parts)
  then show ?thesis using assms(2) by (simp add: filter_unions_def list_all_iff union_ok_def)
qed

lemma filter_structs_keeps:
  assumes "list_all (struct_enabled (\<lambda>x. IsDeclEnabled x en)) ss" "list_all struct_ok ss"
  shows "map (FilterStruct en) (EraseDisabled s_enable_if en ss) = ss"
  by (rule erase_map_keeps [where Q = "\<lambda>s. struct_enabled (\<lambda>x. IsDeclEnabled x en) s \<and> struct_ok s"],
      rule list_all_both [OF assms]) (simp_all add: struct_enabled_def Filter_keeps_parts)

lemma filter_enums_keeps:
  assumes "list_all (enum_enabled (\<lambda>x. IsDeclEnabled x en)) es"
  shows "map (FilterEnum en) (EraseDisabled e_enable_if en es) = es"
  by (rule erase_map_keeps [where Q = "enum_enabled (\<lambda>x. IsDeclEnabled x en)"],
      rule list_all_both [OF assms assms]) (simp_all add: enum_enabled_def Filter_keeps_parts)

lemma FilterInterface_keeps:
  assumes "interface_enabled (\<lambda>x. IsDeclEnabled x en) i" "interface_ok i"
  shows "FilterInterface en i = i"
proof -
  have "list_all struct_ok (i_structs i)" "list_all union_ok (i_unions i)"
    using assms(2) by (auto simp: interface_ok_def list_all_iff)
  with assms show ?thesis
    by (simp add: interface_enabled_def FilterInterface_def interface_ok_def Let_def erase_nothing
        filter_enums_keeps filter_structs_keeps filter_unions_keeps)
qed

lemma ApplyEnableIf_keeps:
  assumes "module_ok md" "module_enabled (\<lambda>x. IsDeclEnabled x en) md"
  shows "ApplyEnableIf en md = md"
proof -
  note ok = assms(1) [unfolded module_ok_def] and on = assms(2) [unfolded module_enabled_def]
  have "map (FilterInterface en) (EraseDisabled i_enable_if en (mod_interfaces md)) = mod_interfaces md"
    using ok on by (intro erase_map_keeps
      [where Q = "\<lambda>i. interface_enabled (\<lambda>x. IsDeclEnabled x en) i \<and> interface_ok i"])
      (auto simp: list_all_iff interface_enabled_def FilterInterface_keeps)
  moreover have "map (\<lambda>ft. ft\<lparr>ft_consts := EraseDisabled c_enable_if en (ft_consts ft)\<rparr>)
      (EraseDisabled ft_enable_if en (mod_features md)) = mod_features md"
    using on by (intro erase_map_keeps [where Q = "\<lambda>ft. list_all (\<lambda>c. IsDeclEnabled (c_enable_if c) en) (ft_consts ft)"])
      (auto simp: list_all_iff erase_nothing)
  ultimately show ?thesis using ok on
    by (simp add: ApplyEnableIf_def erase_nothing filter_enums_keeps filter_structs_keeps filter_unions_keeps)
qed

subsection \<open>The properties\<close>

text \<open>C17.  The scan that runs before the parser collects as struct, union and enum names exactly
  the names that follow one of these keywords in the token list, at any nesting depth.\<close>

theorem declared_names_exact:
  "dn_structs (CollectDeclaredNames ts) = {n. declares ''struct'' ts n} \<and>
   dn_unions (CollectDeclaredNames ts) = {n. declares ''union'' ts n} \<and>
   dn_enums (CollectDeclaredNames ts) = {n. declares ''enum'' ts n}"
  by (auto simp: CollectDeclaredNames_def scan_declared_names no_names_def)

text \<open>A bare name resolves to a struct of the file itself (no owner namespace) whenever the
  file declares a struct of that name, whatever its imports declare; and it resolves to the kind
  \<open>kStructRef\<close> as well when the file declares only an enumeration of that name and an import
  a struct: the sets of names are merged, so the file's own declaration does not win.\<close>

theorem bare_name_resolution:
  assumes "new_parser ts = Inr st"
    "declares ''struct'' ts n \<or> (declares ''enum'' ts n \<and> n \<in> s_name ` set (mod_structs (pr_module p)))"
  shows "resolve_bare (enter_body (Some p) st) n =
    named_type kStructRef n [] (StructContainerOf (enter_body (Some p) st) n)"
proof -
  have d: "ps_declared st = CollectDeclaredNames ts"
    using assms(1) by (auto simp: new_parser_def split: sum.splits)
  have "n \<in> structs_of (enter_body (Some p) st)"
    using assms(2) unfolding enter_body_structs d by (auto simp: CollectDeclaredNames_def scan_declared_names)
  moreover have "n \<in> ps_local_names (enter_body (Some p) st)"
    using assms(2) unfolding enter_body_local d by (auto simp: CollectDeclaredNames_def scan_declared_names)
  ultimately show ?thesis by (simp add: resolve_bare_def OwnerOf_def)
qed

definition kind_clash_file :: "Token list" where
  "kind_clash_file = [name_tok ''enum'', name_tok ''K'', punct kLBrace, name_tok ''A'', punct kRBrace, punct kSemi,
     punct kEnd]"

definition kind_clash_prelude :: Prelude where
  "kind_clash_prelude =
     \<lparr>pr_module = new_module\<lparr>mod_structs := [new_struct\<lparr>s_name := ''K''\<rparr>]\<rparr>,
      pr_owner_by_name = [''K'' \<mapsto> ''other'']\<rparr>"

theorem bare_name_resolution_witness:
  "\<exists>st. new_parser kind_clash_file = Inr st \<and> \<not> declares ''struct'' kind_clash_file ''K'' \<and>
     ts_kind (resolve_bare (enter_body (Some kind_clash_prelude) st) ''K'') = kStructRef \<and>
     ts_kind (resolve_bare (enter_body None st) ''K'') = kEnumRef"
proof -
  have "\<exists>st. new_parser kind_clash_file = Inr st"
    by (simp add: new_parser_def kind_clash_file_def data_eval name_tok_def punct_def mk_token_def
        new_enum_def)
  then obtain st where st: "new_parser kind_clash_file = Inr st" ..
  have "''K'' \<in> s_name ` set (mod_structs (pr_module kind_clash_prelude))"
    by (simp add: kind_clash_prelude_def new_module_def new_struct_def)
  moreover have e: "declares ''enum'' kind_clash_file ''K''" "\<not> declares ''struct'' kind_clash_file ''K''"
    "\<not> declares ''union'' kind_clash_file ''K''"
    by (simp_all add: kind_clash_file_def name_tok_def punct_def mk_token_def)
  ultimately have "resolve_bare (enter_body (Some kind_clash_prelude) st) ''K'' =
      named_type kStructRef ''K'' [] (StructContainerOf (enter_body (Some kind_clash_prelude) st) ''K'')"
    using bare_name_resolution [OF st, of "''K''" kind_clash_prelude] by simp
  moreover have "ps_declared (enter_body None st) = CollectDeclaredNames kind_clash_file"
    using st by (auto simp: new_parser_def enter_body_def split: sum.splits)
  ultimately show ?thesis using st e
    by (simp add: resolve_bare_def named_type_def CollectDeclaredNames_def scan_declared_names no_names_def)
qed

text \<open>The \<open>[EnableIf]\<close> filter leaves only enabled declarations, members and values, no
  empty union, and is idempotent.\<close>

theorem enable_if_sound:
  "module_enabled (\<lambda>x. IsDeclEnabled x en) (ApplyEnableIf en md) \<and>
   list_all (\<lambda>u. u_fields u \<noteq> []) (mod_unions (ApplyEnableIf en md)) \<and>
   ApplyEnableIf en (ApplyEnableIf en md) = ApplyEnableIf en md"
proof -
  have "list_all (\<lambda>u. u_fields u \<noteq> []) (mod_unions (ApplyEnableIf en md))"
    using filter_unions_enabled [of en "mod_unions md"] by (simp add: ApplyEnableIf_def list_all_iff)
  then show ?thesis by (simp add: ApplyEnableIf_enabled ApplyEnableIf_idem)
qed

text \<open>On a parsed file the filter is the identity exactly when every declaration, member and
  value is enabled: it never drops, reorders or changes anything else.\<close>

theorem enable_if_complete:
  assumes "Parse ts = Inr md"
  shows "ApplyEnableIf en md = md \<longleftrightarrow> module_enabled (\<lambda>x. IsDeclEnabled x en) md"
proof
  assume "ApplyEnableIf en md = md"
  then show "module_enabled (\<lambda>x. IsDeclEnabled x en) md" using ApplyEnableIf_enabled [of en md] by simp
next
  assume "module_enabled (\<lambda>x. IsDeclEnabled x en) md"
  then show "ApplyEnableIf en md = md" using Parse_valid [OF assms] by (intro ApplyEnableIf_keeps) simp_all
qed

theorem enable_if_complete_witness:
  "\<exists>md. Parse (mixed_union @ [mk_token kEnd [] 1]) = Inr md \<and> mod_unions md \<noteq> [] \<and>
     (ApplyEnableIf {} md = md \<longleftrightarrow> module_enabled (\<lambda>x. IsDeclEnabled x {}) md)"
  using parse_mixed_union enable_if_complete [of "mixed_union @ [mk_token kEnd [] 1]" _ "{}"] by fastforce

end
