(* ===== verification/Path_Names.thy ===== *)
theory Path_Names
  imports Voodoom_Lexer
begin

text \<open>
  Paths of imported files (\<open>src/module_loader.cc\<close>: \<open>DirName\<close>, \<open>JoinPath\<close>, \<open>NormalizePath\<close>):
  strings with both separators, and their normal form.
\<close>

definition is_slash :: "char \<Rightarrow> bool" where
  "is_slash c \<longleftrightarrow> c = CHR ''/'' \<or> c = CHR 0x5C"

text \<open>\<open>find_last_of\<close> a separator, and the part before it.\<close>

definition DirName :: "string \<Rightarrow> string" where
  "DirName path = (if \<exists>c \<in> set path. is_slash c then rev (tl (dropWhile (\<lambda>c. \<not> is_slash c) (rev path))) else [])"

definition JoinPath :: "string \<Rightarrow> string \<Rightarrow> string" where
  "JoinPath dir rel =
     (if dir = [] then rel else if is_slash (last dir) then dir @ rel else dir @ ''/'' @ rel)"

text \<open>The root of a path: empty (relative), a slash, or a drive; and what follows it.\<close>

definition split_root :: "string \<Rightarrow> string \<times> string" where
  "split_root unified =
     (if 3 \<le> length unified \<and> isalpha (unified ! 0) \<and> unified ! 1 = CHR '':'' \<and> unified ! 2 = CHR ''/''
      then (take 3 unified, drop 3 unified)
      else if unified \<noteq> [] \<and> unified ! 0 = CHR ''/'' then (''/'', drop 1 unified)
      else ([], unified))"

text \<open>One segment; the back of the stack is the end of the list.\<close>

definition push_segment :: "bool \<Rightarrow> string \<Rightarrow> string list \<Rightarrow> string list" where
  "push_segment relative seg stack =
     (if seg = [] \<or> seg = ''.'' then stack
      else if seg = ''..''
      then (if stack \<noteq> [] \<and> last stack \<noteq> ''..'' then butlast stack
            else if relative then stack @ [''..''] else stack)
      else stack @ [seg])"

lemma tl_dropWhile_less: "dropWhile P xs \<noteq> [] \<Longrightarrow> length (tl (dropWhile P xs)) < length xs"
  using length_dropWhile_le [of P xs] by (cases "dropWhile P xs") auto

function normalize_loop :: "bool \<Rightarrow> string \<Rightarrow> string list \<Rightarrow> string list" where
  "normalize_loop relative rest stack =
     (let seg = takeWhile (\<lambda>c. c \<noteq> CHR ''/'') rest;
          next = dropWhile (\<lambda>c. c \<noteq> CHR ''/'') rest;
          stack = push_segment relative seg stack
      in if next = [] then stack else normalize_loop relative (tl next) stack)"
  by pat_completeness auto
termination
proof (relation "measure (\<lambda>(_, rest, _). length rest)", goal_cases)
  case (2 rel rest stack)
  then show ?case using tl_dropWhile_less [of "\<lambda>c. c \<noteq> CHR ''/''" rest] by simp
qed simp

declare normalize_loop.simps [simp del]

fun join_segments :: "string list \<Rightarrow> string" where
  "join_segments [] = []"
| "join_segments [s] = s"
| "join_segments (s # ss) = s @ ''/'' @ join_segments ss"

definition NormalizePath :: "string \<Rightarrow> string" where
  "NormalizePath path =
     (let unified = map (\<lambda>c. if c = CHR 0x5C then CHR ''/'' else c) path;
          (prefix, rest) = split_root unified;
          stack = normalize_loop (prefix = []) rest [];
          result = prefix @ join_segments stack
      in if result = [] then ''.'' else result)"

subsection \<open>Segments\<close>

fun split_slash :: "string \<Rightarrow> string list" where
  "split_slash [] = [[]]"
| "split_slash (c # s) = (if c = CHR ''/'' then [] # split_slash s
     else (case split_slash s of [] \<Rightarrow> [[c]] | x # xs \<Rightarrow> (c # x) # xs))"

lemma split_slash_not_Nil [simp]: "split_slash s \<noteq> []"
  by (induction s) (auto split: list.splits)

lemma split_slash_span:
  "split_slash s = takeWhile (\<lambda>c. c \<noteq> CHR ''/'') s #
     (case dropWhile (\<lambda>c. c \<noteq> CHR ''/'') s of [] \<Rightarrow> [] | _ # r \<Rightarrow> split_slash r)"
  by (induction s) (auto split: list.splits)

lemma normalize_loop_fold: "normalize_loop rel rest stack = fold (push_segment rel) (split_slash rest) stack"
proof (induction rel rest stack rule: normalize_loop.induct)
  case (1 rel rest stack)
  have step: "normalize_loop rel rest stack =
      (case dropWhile (\<lambda>c. c \<noteq> CHR ''/'') rest of
         [] \<Rightarrow> push_segment rel (takeWhile (\<lambda>c. c \<noteq> CHR ''/'') rest) stack
       | _ # r \<Rightarrow> normalize_loop rel r (push_segment rel (takeWhile (\<lambda>c. c \<noteq> CHR ''/'') rest) stack))"
    by (subst normalize_loop.simps) (simp add: Let_def del: dropWhile_eq_Nil_conv split: list.split)
  show ?case
    unfolding step split_slash_span [of rest]
    using "1.IH" [OF refl refl refl]
    by (cases "dropWhile (\<lambda>c. c \<noteq> CHR ''/'') rest") (simp_all del: dropWhile_eq_Nil_conv)
qed

lemma split_slash_append: "split_slash (a @ ''/'' @ b) = split_slash a @ split_slash b"
  by (induction a) (auto split: list.splits)

lemma split_slash_plain: "CHR ''/'' \<notin> set s \<Longrightarrow> split_slash s = [s]"
  by (induction s) auto

lemma split_slash_join:
  "ss \<noteq> [] \<Longrightarrow> \<forall>s \<in> set ss. CHR ''/'' \<notin> set s \<Longrightarrow> split_slash (join_segments ss) = ss"
proof (induction ss rule: join_segments.induct)
  case (3 s t ts)
  then show ?case using split_slash_append [of s "join_segments (t # ts)"] split_slash_plain [of s] by simp
qed (simp_all add: split_slash_plain)

lemma set_split_slash: "s \<in> set (split_slash r) \<Longrightarrow> set s \<subseteq> set r - {CHR ''/''}"
  by (induction r arbitrary: s) (auto split: list.splits if_splits, (fastforce | blast)+)

subsection \<open>Normal forms\<close>

text \<open>A segment that names a file or directory; the stack of a path in normal form.\<close>

definition plain_segment :: "string \<Rightarrow> bool" where
  "plain_segment s \<longleftrightarrow> s \<noteq> [] \<and> s \<noteq> ''.'' \<and> s \<noteq> ''..'' \<and> CHR ''/'' \<notin> set s \<and> CHR 0x5C \<notin> set s"

definition normal_stack :: "bool \<Rightarrow> string list \<Rightarrow> bool" where
  "normal_stack relative stack \<longleftrightarrow>
     (\<exists>k ss. stack = replicate k ''..'' @ ss \<and> list_all plain_segment ss \<and> (\<not> relative \<longrightarrow> k = 0))"

lemma normal_stackI:
  "list_all plain_segment ss \<Longrightarrow> (\<not> relative \<longrightarrow> k = 0) \<Longrightarrow> normal_stack relative (replicate k ''..'' @ ss)"
  unfolding normal_stack_def by blast

lemma push_normal:
  assumes "normal_stack rel stack" "CHR ''/'' \<notin> set seg" "CHR 0x5C \<notin> set seg"
  shows "normal_stack rel (push_segment rel seg stack)"
proof -
  obtain k ss where st: "stack = replicate k ''..'' @ ss" "list_all plain_segment ss" "\<not> rel \<longrightarrow> k = 0"
    using assms(1) unfolding normal_stack_def by blast
  consider "seg = [] \<or> seg = ''.''" | "seg = ''..''" "ss = []" | s ss' where "seg = ''..''" "ss = ss' @ [s]"
    | "plain_segment seg" using assms(2,3) by (cases ss rule: rev_cases) (auto simp: plain_segment_def)
  then show ?thesis
  proof cases
    case 2
    then have "push_segment rel seg stack = replicate (if rel then Suc k else k) ''..'' @ []"
      using st(3) by (auto simp: push_segment_def st(1) replicate_append_same)
    moreover have "normal_stack rel (replicate (if rel then Suc k else k) ''..'' @ [])"
      using st(3) by (intro normal_stackI) simp_all
    ultimately show ?thesis by simp
  next
    case 3
    then have "push_segment rel seg stack = replicate k ''..'' @ ss'"
      using st(2) by (simp add: push_segment_def st(1) butlast_append plain_segment_def)
    then show ?thesis using 3 st normal_stackI [of ss' rel k] by simp
  next
    case 4
    then have "push_segment rel seg stack = replicate k ''..'' @ (ss @ [seg])"
      by (simp add: push_segment_def st(1) plain_segment_def)
    then show ?thesis using 4 st normal_stackI [of "ss @ [seg]" rel k] by simp
  qed (use assms(1) in \<open>simp add: push_segment_def\<close>)
qed

lemma fold_push_normal:
  "normal_stack rel stack \<Longrightarrow> \<forall>s \<in> set segs. CHR ''/'' \<notin> set s \<and> CHR 0x5C \<notin> set s \<Longrightarrow>
     normal_stack rel (fold (push_segment rel) segs stack)"
  by (induction segs arbitrary: stack) (simp_all add: push_normal)

lemma fold_push_plain:
  "list_all plain_segment ss \<Longrightarrow> fold (push_segment rel) ss stack = stack @ ss"
  by (induction ss arbitrary: stack) (simp_all add: push_segment_def plain_segment_def)

lemma push_dots: "push_segment True ''..'' (replicate k ''..'') = replicate (Suc k) ''..''"
proof -
  have "k \<noteq> 0 \<Longrightarrow> last (replicate k ''..'') = ''..''" by (rule last_replicate)
  then show ?thesis by (cases "k = 0") (simp_all add: push_segment_def replicate_append_same del: last_replicate)
qed

lemma fold_push_dots: "fold (push_segment True) (replicate k ''..'') (replicate j ''..'') = replicate (j + k) ''..''"
proof (induction k arbitrary: j)
  case (Suc k)
  have "fold (push_segment True) (replicate (Suc k) ''..'') (replicate j ''..'') =
      fold (push_segment True) (replicate k ''..'') (replicate (Suc j) ''..'')"
    by (simp only: replicate_Suc [of k] fold_simps push_dots)
  then show ?case using Suc [of "Suc j"] by simp
qed simp

lemma normal_fixed:
  assumes "normal_stack rel stack"
  shows "fold (push_segment rel) stack [] = stack"
proof -
  obtain k ss where st: "stack = replicate k ''..'' @ ss" "list_all plain_segment ss" "\<not> rel \<longrightarrow> k = 0"
    using assms unfolding normal_stack_def by blast
  have "fold (push_segment rel) (replicate k ''..'') [] = replicate k ''..''"
    using fold_push_dots [of k 0] st(3) by (cases rel) auto
  then show ?thesis using st(2) by (simp add: st(1) fold_push_plain del: fold_replicate)
qed

lemma normal_no_slash: "normal_stack rel stack \<Longrightarrow> s \<in> set stack \<Longrightarrow> CHR ''/'' \<notin> set s \<and> CHR 0x5C \<notin> set s \<and> s \<noteq> []"
proof -
  assume n: "normal_stack rel stack" and s: "s \<in> set stack"
  obtain k ss where st: "stack = replicate k ''..'' @ ss" "list_all plain_segment ss"
    using n unfolding normal_stack_def by blast
  have "s = ''..'' \<or> plain_segment s"
    using s st(2) unfolding st(1) set_append list_all_iff by (auto simp only: Un_iff set_replicate_conv_if empty_iff
      singleton_iff split: if_splits)
  then show ?thesis by (elim disjE) (simp_all add: plain_segment_def)
qed

lemma fold_split_join: "normal_stack rel stack \<Longrightarrow> fold (push_segment rel) (split_slash (join_segments stack)) [] = stack"
proof (cases "stack = []")
  case False
  assume n: "normal_stack rel stack"
  have "split_slash (join_segments stack) = stack"
    using False normal_no_slash [OF n] by (intro split_slash_join) auto
  then show ?thesis using normal_fixed [OF n] by simp
qed (simp add: push_segment_def)

definition path_root :: "string \<Rightarrow> bool" where
  "path_root p \<longleftrightarrow> p = [] \<or> p = ''/'' \<or> (\<exists>c. isalpha c \<and> p = [c, CHR '':'', CHR ''/''])"

text \<open>The result of the normalization.\<close>

definition normal_path :: "string \<Rightarrow> bool" where
  "normal_path r \<longleftrightarrow> r = ''.'' \<or>
     (\<exists>p stack. path_root p \<and> normal_stack (p = []) stack \<and> r = p @ join_segments stack \<and> r \<noteq> [])"

definition unify :: "string \<Rightarrow> string" where
  "unify path = map (\<lambda>c. if c = CHR 0x5C then CHR ''/'' else c) path"

lemma unify_no_backslash: "CHR 0x5C \<notin> set (unify path)"
  by (auto simp: unify_def)

lemma unify_id: "CHR 0x5C \<notin> set path \<Longrightarrow> unify path = path"
  by (auto simp: unify_def intro!: map_idI)

lemma NormalizePath_eq:
  assumes "split_root (unify path) = (p, r)"
  shows "NormalizePath path =
    (if p @ join_segments (fold (push_segment (p = [])) (split_slash r) []) = [] then ''.''
     else p @ join_segments (fold (push_segment (p = [])) (split_slash r) []))"
  using assms unfolding unify_def by (simp add: NormalizePath_def normalize_loop_fold Let_def)

lemma split_root_parts: "split_root u = (p, r) \<Longrightarrow> path_root p \<and> u = p @ r"
proof -
  assume s: "split_root u = (p, r)"
  show ?thesis
  proof (cases "3 \<le> length u \<and> isalpha (u ! 0) \<and> u ! 1 = CHR '':'' \<and> u ! 2 = CHR ''/''")
    case True
    then obtain a b c v where "u = a # b # c # v" by (auto simp: Suc_le_length_iff numeral_3_eq_3)
    then show ?thesis using True s by (auto simp: split_root_def path_root_def)
  next
    case False
    then show ?thesis using s by (cases u) (auto simp: split_root_def path_root_def split: if_splits)
  qed
qed

lemma NormalizePath_normal: "normal_path (NormalizePath path)"
proof -
  obtain p r where pr: "split_root (unify path) = (p, r)" by fastforce
  note parts = split_root_parts [OF pr]
  let ?st = "fold (push_segment (p = [])) (split_slash r) []"
  have "CHR 0x5C \<notin> set r" using unify_no_backslash [of path] parts by auto
  then have "\<forall>s \<in> set (split_slash r). CHR ''/'' \<notin> set s \<and> CHR 0x5C \<notin> set s"
    using set_split_slash [of _ r] by blast
  then have "normal_stack (p = []) ?st"
    using normal_stackI [of "[]" "p = []" 0] by (intro fold_push_normal) simp_all
  then show ?thesis using parts unfolding NormalizePath_eq [OF pr] normal_path_def by (auto split: if_splits)
qed

lemma split_root_eqs:
  "split_root [] = ([], [])"
  "split_root [a] = (if a = CHR ''/'' then (''/'', []) else ([], [a]))"
  "split_root [a, b] = (if a = CHR ''/'' then (''/'', [b]) else ([], [a, b]))"
  "split_root (a # b # c # v) =
     (if isalpha a \<and> b = CHR '':'' \<and> c = CHR ''/'' then ([a, b, c], v)
      else if a = CHR ''/'' then (''/'', b # c # v) else ([], a # b # c # v))"
  "split_root (CHR ''/'' # v) = (''/'', v)"
  by (auto simp: split_root_def isalpha_def)

text \<open>A relative path in normal form may start with what looks like a drive.\<close>

lemma split_root_relative:
  assumes "normal_stack True stack" "stack \<noteq> []"
  shows "split_root (join_segments stack) = ([], join_segments stack) \<or>
    (\<exists>c ss. isalpha c \<and> stack = [c, CHR '':''] # ss \<and> ss \<noteq> [] \<and>
       split_root (join_segments stack) = ([c, CHR '':'', CHR ''/''], join_segments ss))"
proof -
  obtain s ss where st: "stack = s # ss" using assms(2) by (cases stack) auto
  have s: "CHR ''/'' \<notin> set s" "s \<noteq> []" using normal_no_slash [OF assms(1), of s] st by auto
  define t where "t = (if ss = [] then [] else CHR ''/'' # join_segments ss)"
  have j: "join_segments stack = s @ t" by (cases ss) (auto simp: st t_def)
  have t: "t = [] \<or> hd t = CHR ''/''" by (simp add: t_def)
  consider a where "s = [a]" | a b where "s = [a, b]" | a b c s' where "s = a # b # c # s'"
    using s(2) by (metis list.exhaust)
  then show ?thesis
  proof cases
    case 1
    have "split_root (a # t) = ([], a # t)" if "a \<noteq> CHR ''/''" "t = [] \<or> hd t = CHR ''/''" for a
      using that by (cases t; cases "tl t") (auto simp: split_root_eqs)
    then show ?thesis using 1 s(1) t by (simp add: j)
  next
    case 2
    show ?thesis
    proof (cases "ss = []")
      case False
      then have t': "t = CHR ''/'' # join_segments ss" by (simp add: t_def)
      show ?thesis
        using 2 s(1) False unfolding j t' by (auto simp: split_root_eqs st)
    qed (use 2 s(1) in \<open>auto simp: j t_def split_root_eqs\<close>)
  qed (use s(1) in \<open>auto simp: j split_root_eqs\<close>)
qed

lemma normal_stack_tl: "normal_stack True ([c, CHR '':''] # ss) \<Longrightarrow> normal_stack False ss"
proof -
  assume "normal_stack True ([c, CHR '':''] # ss)"
  then obtain k ts where st: "[c, CHR '':''] # ss = replicate k ''..'' @ ts" "list_all plain_segment ts"
    unfolding normal_stack_def by blast
  have "k = 0" using st(1) by (cases k) auto
  then have "list_all plain_segment ss" using st by (cases ts) auto
  then show ?thesis using normal_stackI [of ss False 0] by simp
qed

lemma set_join: "set (join_segments ss) \<subseteq> insert (CHR ''/'') (\<Union> (set ` set ss))"
  by (induction ss rule: join_segments.induct) auto

lemma normal_path_fixed:
  assumes "normal_path r"
  shows "NormalizePath r = r"
proof (cases "r = ''.''")
  case True
  then show ?thesis
    using NormalizePath_eq [of "''.''" "[]" "''.''"] by (simp add: unify_def split_root_def push_segment_def)
next
  case False
  then obtain p stack where p: "path_root p" "normal_stack (p = []) stack" "r = p @ join_segments stack" "r \<noteq> []"
    using assms unfolding normal_path_def by blast
  have "CHR 0x5C \<notin> set (join_segments stack)" using set_join normal_no_slash [OF p(2)] by fastforce
  moreover have "CHR 0x5C \<notin> set p" using p(1) by (auto simp: path_root_def isalpha_def)
  ultimately have u: "unify r = r" unfolding p(3) by (intro unify_id) simp
  show ?thesis
  proof (cases "p = []")
    case rel: True
    then have "stack \<noteq> []" "normal_stack True stack" using p by auto
    from split_root_relative [OF this(2,1)] show ?thesis
    proof (elim disjE exE conjE)
      fix c ss
      assume c: "isalpha c" "stack = [c, CHR '':''] # ss" "ss \<noteq> []"
        "split_root (join_segments stack) = ([c, CHR '':'', CHR ''/''], join_segments ss)"
      have "normal_stack False ss" using p(2) unfolding c(2) rel by (intro normal_stack_tl) simp
      then show ?thesis
        using c(2,3) rel p(3) fold_split_join [of False ss]
          NormalizePath_eq [of r "[c, CHR '':'', CHR ''/'']" "join_segments ss", unfolded u] c(4)
        by (cases ss) simp_all
    qed (use rel p u fold_split_join [of True stack] NormalizePath_eq [of r "[]" r] in simp)
  next
    case abs: False
    then have "split_root r = (p, join_segments stack)" using p(1)
      by (auto simp: p(3) path_root_def split_root_def isalpha_def)
    then show ?thesis using abs p(2,4) fold_split_join [of False stack] NormalizePath_eq [of r p "join_segments stack", unfolded u]
      by (simp add: p(3))
  qed
qed

lemma NormalizePath_idem: "NormalizePath (NormalizePath path) = NormalizePath path"
  by (rule normal_path_fixed [OF NormalizePath_normal])

text \<open>Inserting segments that cancel out does not change the normal form.\<close>

lemma fold_push_cancel:
  "plain_segment x \<Longrightarrow> fold (push_segment rel) [x, ''..''] stack = stack"
  by (simp add: push_segment_def plain_segment_def)

lemma split_root_append:
  assumes "split_root (u @ ''/'' @ v) = (p, r)"
  shows "(\<exists>q. r = q @ ''/'' @ v \<and> split_root (u @ ''/'' @ w) = (p, q @ ''/'' @ w)) \<or>
    (p = u @ ''/'' \<and> r = v \<and> split_root (u @ ''/'' @ w) = (p, w))"
proof -
  consider "u = []" | a where "u = [a]" | a b where "u = [a, b]" | a b c u' where "u = a # b # c # u'"
    by (metis list.exhaust)
  then show ?thesis
  proof cases
    case 2
    then show ?thesis using assms
      by (cases v; cases w) (auto simp: split_root_eqs split: if_splits)
  qed (use assms in \<open>auto simp: split_root_eqs split: if_splits\<close>)
qed

lemma NormalizePath_cancel:
  assumes "plain_segment x"
  shows "NormalizePath (a @ ''/'' @ x @ ''/../'' @ b) = NormalizePath (a @ ''/'' @ b)"
    "NormalizePath (a @ ''/./'' @ b) = NormalizePath (a @ ''/'' @ b)"
proof -
  have x: "unify x = x" using assms by (intro unify_id) (simp add: plain_segment_def)
  have cancel: "NormalizePath (a @ ''/'' @ m @ ''/'' @ b) = NormalizePath (a @ ''/'' @ b)"
    if m: "unify m = m" "\<And>rel stack. fold (push_segment rel) (split_slash m) stack = stack" for m
  proof -
    obtain p r where pr: "split_root (unify a @ ''/'' @ (m @ ''/'' @ unify b)) = (p, r)" by fastforce
    have un: "unify (a @ ''/'' @ m @ ''/'' @ b) = unify a @ ''/'' @ (m @ ''/'' @ unify b)"
      "unify (a @ ''/'' @ b) = unify a @ ''/'' @ unify b" using m(1) by (simp_all add: unify_def)
    show ?thesis
      using split_root_append [OF pr, of "unify b"]
    proof (elim disjE exE conjE)
      fix q assume q: "r = q @ ''/'' @ m @ ''/'' @ unify b" "split_root (unify a @ ''/'' @ unify b) = (p, q @ ''/'' @ unify b)"
      show ?thesis
        unfolding NormalizePath_eq [OF pr [folded un(1)]] NormalizePath_eq [OF q(2) [folded un(2)]]
          q(1) split_slash_append by (simp only: fold_append comp_apply m(2))
    next
      assume q: "p = unify a @ ''/''" "r = m @ ''/'' @ unify b" "split_root (unify a @ ''/'' @ unify b) = (p, unify b)"
      show ?thesis
        unfolding NormalizePath_eq [OF pr [folded un(1)]] NormalizePath_eq [OF q(3) [folded un(2)]]
          q(2) split_slash_append by (simp only: fold_append comp_apply m(2))
    qed
  qed
  have "split_slash (x @ ''/..'') = [x, ''..'']"
    using split_slash_append [of x "''..''"] assms by (simp add: split_slash_plain plain_segment_def)
  then show "NormalizePath (a @ ''/'' @ x @ ''/../'' @ b) = NormalizePath (a @ ''/'' @ b)"
    using cancel [of "x @ ''/..''"] x fold_push_cancel [OF assms] by (simp add: unify_def)
  show "NormalizePath (a @ ''/./'' @ b) = NormalizePath (a @ ''/'' @ b)"
    using cancel [of "''.''"] by (simp add: unify_def push_segment_def)
qed

end
