(* ===== verification/Module_Loader.thy ===== *)
theory Module_Loader
  imports Path_Names Voodoom_Parser Voodoom_EnableIf
begin

text \<open>
  The module loader (\<open>src/module_loader.cc\<close>, \<open>src/module_loader.h\<close>): the resolution of imports,
  the names that loaded files make visible, and the recursive loading of an import graph.  The
  file reader is an argument of the source's functions, and of the model's.  The recursion of
  \<open>LoadFileInto\<close> has fuel, the depth of nested imports; \<open>LoadFuel\<close> is the value when it runs out.
\<close>

subsection \<open>Resolution of imports\<close>

type_synonym FileReader = "string \<Rightarrow> string option"

definition import_candidates :: "string \<Rightarrow> string \<Rightarrow> string list \<Rightarrow> string list" where
  "import_candidates import_path importer_dir import_dirs =
     map (\<lambda>dir. NormalizePath (JoinPath dir import_path)) (importer_dir # import_dirs)"

fun first_readable :: "FileReader \<Rightarrow> string list \<Rightarrow> (string \<times> string) option" where
  "first_readable read_file [] = None"
| "first_readable read_file (p # ps) =
     (case read_file p of Some content \<Rightarrow> Some (p, content) | None \<Rightarrow> first_readable read_file ps)"

definition ResolveImport :: "string \<Rightarrow> string \<Rightarrow> string list \<Rightarrow> FileReader \<Rightarrow> (string \<times> string) option" where
  "ResolveImport import_path importer_dir import_dirs read_file =
     first_readable read_file (import_candidates import_path importer_dir import_dirs)"

subsection \<open>What a loaded file makes visible\<close>

definition struct_owned :: "StructDecl \<Rightarrow> string list" where
  "struct_owned s = s_name s # map e_name (s_enums s) @ map c_name (s_consts s)"

definition interface_owned :: "Interface \<Rightarrow> string list" where
  "interface_owned i =
     i_name i # map e_name (i_enums i) @ map c_name (i_consts i) @
       concat (map struct_owned (i_structs i)) @ map u_name (i_unions i)"

definition module_owned :: "Module \<Rightarrow> string list" where
  "module_owned m =
     map e_name (mod_enums m) @ concat (map struct_owned (mod_structs m)) @ map u_name (mod_unions m) @
       concat (map interface_owned (mod_interfaces m)) @ map c_name (mod_consts m) @
       concat (map (\<lambda>ft. map c_name (ft_consts ft)) (mod_features m))"

definition MergeIntoAccumulated :: "Prelude \<Rightarrow> Module \<Rightarrow> string \<Rightarrow> Prelude" where
  "MergeIntoAccumulated accumulated src owner_namespace =
     (let dst = pr_module accumulated
      in \<lparr>pr_module = dst\<lparr>mod_enums := mod_enums dst @ mod_enums src,
            mod_structs := mod_structs dst @ mod_structs src, mod_unions := mod_unions dst @ mod_unions src,
            mod_interfaces := mod_interfaces dst @ mod_interfaces src, mod_consts := mod_consts dst @ mod_consts src,
            mod_features := mod_features dst @ mod_features src\<rparr>,
          pr_owner_by_name = fold (\<lambda>n m. m(n \<mapsto> owner_namespace)) (module_owned src) (pr_owner_by_name accumulated)\<rparr>)"

subsection \<open>The state of a load\<close>

record LoadedFile =
  lf_resolved_path :: string
  lf_module :: Module

text \<open>The fields of \<open>LoadState\<close> that never change.\<close>

record LoadConfig =
  lc_import_dirs :: "string list"
  lc_read_file :: FileReader
  lc_enabled_features :: "string set"
  lc_per_file :: bool

text \<open>The fields that do, with the vector \<open>skipped\<close> points to, the accumulated prelude and the graph.\<close>

record LoadState =
  ls_merged :: "string set"
  ls_loading :: "string list"
  ls_failed :: "string set"
  ls_skipped :: "string list"
  ls_accumulated :: Prelude
  ls_graph :: "LoadedFile list"

text \<open>What leaves the loader: a \<open>LoadError\<close>, an exception of the lexer or of the parser that is
  not caught, or the end of the fuel.\<close>

datatype LoadFail = LoadError string | FromLexer LexFail | FromParser PFail | LoadFuel

definition what :: "string \<Rightarrow> nat \<Rightarrow> string" where
  "what msg line = msg @ '' (line '' @ show_nat line @ '')''"

text \<open>The constructor of \<open>LoadError\<close> with a file and a line.\<close>

definition LoadError_at :: "string \<Rightarrow> string \<Rightarrow> nat \<Rightarrow> LoadFail" where
  "LoadError_at msg in_file line =
     LoadError (msg @ '' ('' @ in_file @ (if 0 < line then '':'' @ show_nat line else []) @ '')'')"

definition CycleChainMessage :: "string list \<Rightarrow> string \<Rightarrow> string" where
  "CycleChainMessage loading closing_path =
     ''import cycle: '' @ concat (map (\<lambda>p. p @ '' -> '') loading) @ closing_path"

definition GiveUp :: "LoadConfig \<Rightarrow> string \<Rightarrow> string \<Rightarrow> LoadState \<Rightarrow> LoadFail + LoadState" where
  "GiveUp cfg path msg st =
     (let st = st\<lparr>ls_loading := butlast (ls_loading st), ls_merged := insert path (ls_merged st),
            ls_failed := insert path (ls_failed st)\<rparr>
      in if lc_per_file cfg then Inr (st\<lparr>ls_skipped := ls_skipped st @ [msg]\<rparr>) else Inl (LoadError msg))"

definition in_file :: "string \<Rightarrow> string \<Rightarrow> nat \<Rightarrow> string" where
  "in_file path msg line = ''in '' @ quoted path @ '': '' @ what msg line"

subsection \<open>Loading\<close>

text \<open>The loop over the imports of a file, with the recursive call as an argument.\<close>

primrec load_imports ::
  "(string \<Rightarrow> string \<Rightarrow> LoadState \<Rightarrow> LoadFail + LoadState) \<Rightarrow> LoadConfig \<Rightarrow> string \<Rightarrow>
     ImportDecl list \<Rightarrow> LoadState \<Rightarrow> LoadFail + ImportDecl list \<times> LoadState" where
  "load_imports load cfg path [] st = Inr ([], st)"
| "load_imports load cfg path (imp # imps) st =
     (let step =
        (case ResolveImport (im_path imp) (DirName path) (lc_import_dirs cfg) (lc_read_file cfg) of
           None \<Rightarrow>
             if \<not> lc_per_file cfg
             then Inl (LoadError_at (''cannot resolve import '' @ quoted (im_path imp)) path (im_line imp))
             else Inr (imp\<lparr>im_resolved_path := []\<rparr>,
               st\<lparr>ls_skipped := ls_skipped st @
                 [''cannot resolve import '' @ quoted (im_path imp) @ '' (imported from '' @ quoted path @ '')'']\<rparr>)
         | Some (p, content) \<Rightarrow>
             (case load p content st of
                Inl e \<Rightarrow> Inl e
              | Inr st \<Rightarrow> Inr (imp\<lparr>im_resolved_path := if p \<in> ls_failed st then [] else p\<rparr>, st)))
      in case step of
           Inl e \<Rightarrow> Inl e
         | Inr (imp, st) \<Rightarrow>
             (case load_imports load cfg path imps st of
                Inl e \<Rightarrow> Inl e
              | Inr (imps, st) \<Rightarrow> Inr (imp # imps, st)))"

text \<open>From \<open>ParseBody\<close> on, with the imports loaded.\<close>

definition finish_file ::
  "LoadConfig \<Rightarrow> string \<Rightarrow> FileHeader \<Rightarrow> ImportDecl list \<Rightarrow> PState \<Rightarrow> LoadState \<Rightarrow> LoadFail + LoadState" where
  "finish_file cfg path header imports ps st =
     (case ParseBody (Some (ls_accumulated st)) ps of
        Fail (ParseError msg line) \<Rightarrow> GiveUp cfg path (in_file path msg line) st
      | Fail e \<Rightarrow> Inl (FromParser e)
      | Ok md _ \<Rightarrow>
          (let md = ApplyEnableIf (lc_enabled_features cfg)
                 (md\<lparr>mod_name := fh_module_name header, mod_imports := imports\<rparr>)
           in Inr (st\<lparr>ls_accumulated := MergeIntoAccumulated (ls_accumulated st) md (fh_module_name header),
                ls_graph := ls_graph st @ [\<lparr>lf_resolved_path = path, lf_module = md\<rparr>],
                ls_loading := butlast (ls_loading st), ls_merged := insert path (ls_merged st)\<rparr>)))"

primrec LoadFileInto ::
  "nat \<Rightarrow> LoadConfig \<Rightarrow> string \<Rightarrow> string \<Rightarrow> LoadState \<Rightarrow> LoadFail + LoadState" where
  "LoadFileInto 0 cfg path content st = Inl LoadFuel"
| "LoadFileInto (Suc n) cfg path content st =
     (if path \<in> ls_merged st then Inr st
      else if path \<in> set (ls_loading st) then Inl (LoadError (CycleChainMessage (ls_loading st) path))
      else let st = st\<lparr>ls_loading := ls_loading st @ [path]\<rparr>
      in case Tokenize content of
           Inl (LexError msg line) \<Rightarrow> GiveUp cfg path (in_file path msg line) st
         | Inl e \<Rightarrow> Inl (FromLexer e)
         | Inr tokens \<Rightarrow>
      (case new_parser tokens of
           Inl e \<Rightarrow> Inl (FromParser e)
         | Inr ps \<Rightarrow>
      (case ParseHeader ps of
           Fail (ParseError msg line) \<Rightarrow> GiveUp cfg path (in_file path msg line) st
         | Fail e \<Rightarrow> Inl (FromParser e)
         | Ok header ps \<Rightarrow>
      (case load_imports (LoadFileInto n cfg) cfg path (fh_imports header) st of
           Inl e \<Rightarrow> Inl e
         | Inr (imports, st) \<Rightarrow> finish_file cfg path header imports ps st))))"

definition empty_prelude :: Prelude where
  "empty_prelude = \<lparr>pr_module = new_module, pr_owner_by_name = Map.empty\<rparr>"

definition empty_load :: LoadState where
  "empty_load = \<lparr>ls_merged = {}, ls_loading = [], ls_failed = {}, ls_skipped = [],
     ls_accumulated = empty_prelude, ls_graph = []\<rparr>"

text \<open>The graph, the value of \<open>entry_loaded\<close> and the messages of the files left out; \<open>skip\<close> is
  whether \<open>skipped\<close> is given.\<close>

definition LoadModuleGraph ::
  "nat \<Rightarrow> string \<Rightarrow> string list \<Rightarrow> FileReader \<Rightarrow> string set \<Rightarrow> bool \<Rightarrow>
     LoadFail + LoadedFile list \<times> bool \<times> string list" where
  "LoadModuleGraph fuel entry_path import_dirs read_file enabled_features skip =
     (let normalized_entry = NormalizePath entry_path
      in case read_file normalized_entry of
           None \<Rightarrow> Inl (LoadError (''cannot open '' @ quoted entry_path @ '' for reading''))
         | Some content \<Rightarrow>
      (case LoadFileInto fuel \<lparr>lc_import_dirs = import_dirs, lc_read_file = read_file,
              lc_enabled_features = enabled_features, lc_per_file = skip\<rparr>
              normalized_entry content empty_load of
           Inl e \<Rightarrow> Inl e
         | Inr st \<Rightarrow> Inr (ls_graph st,
             ls_graph st \<noteq> [] \<and> lf_resolved_path (last (ls_graph st)) = normalized_entry, ls_skipped st)))"

end
