(* ===== verification/Loader_Invariant.thy ===== *)
theory Loader_Invariant
  imports Module_Loader Parser_Progress Lexer_Properties
begin

text \<open>
  The specification of a loaded graph: every file is the parse of its text with the files before
  it visible, its imports stand before it; and the invariant of \<open>LoadFileInto\<close> that gives it.
\<close>

subsection \<open>The import relation\<close>

definition header_of :: "LoadConfig \<Rightarrow> string \<Rightarrow> (FileHeader \<times> PState) option" where
  "header_of cfg path =
     (case lc_read_file cfg path of None \<Rightarrow> None | Some content \<Rightarrow>
     (case Tokenize content of Inl _ \<Rightarrow> None | Inr tokens \<Rightarrow>
     (case new_parser tokens of Inl _ \<Rightarrow> None | Inr ps \<Rightarrow>
     (case ParseHeader ps of Fail _ \<Rightarrow> None | Ok header ps \<Rightarrow> Some (header, ps)))))"

definition resolves :: "LoadConfig \<Rightarrow> string \<Rightarrow> ImportDecl \<Rightarrow> string option" where
  "resolves cfg path imp =
     map_option fst (ResolveImport (im_path imp) (DirName path) (lc_import_dirs cfg) (lc_read_file cfg))"

definition imported :: "LoadConfig \<Rightarrow> (string \<times> string) set" where
  "imported cfg = {(p, q). \<exists>h ps imp. header_of cfg p = Some (h, ps) \<and> imp \<in> set (fh_imports h) \<and> resolves cfg p imp = Some q}"

lemma first_readable_Some: "first_readable r ps = Some (p, c) \<Longrightarrow> r p = Some c \<and> p \<in> set ps"
  by (induction ps) (auto split: option.splits)

lemma ResolveImport_Some: "ResolveImport i d ds r = Some (p, c) \<Longrightarrow> r p = Some c \<and> NormalizePath p = p"
  unfolding ResolveImport_def
  by (drule first_readable_Some) (auto simp: import_candidates_def NormalizePath_idem)

subsection \<open>The specification\<close>

abbreviation paths :: "LoadedFile list \<Rightarrow> string list" where
  "paths fs \<equiv> map lf_resolved_path fs"

definition merge_all :: "LoadedFile list \<Rightarrow> Prelude" where
  "merge_all fs = fold (\<lambda>f acc. MergeIntoAccumulated acc (lf_module f) (mod_name (lf_module f))) fs empty_prelude"

text \<open>An import of a file whose predecessors in the graph are \<open>pre\<close>, as declared and as loaded.\<close>

definition import_ok :: "LoadConfig \<Rightarrow> string \<Rightarrow> string set \<Rightarrow> ImportDecl \<Rightarrow> ImportDecl \<Rightarrow> bool" where
  "import_ok cfg path pre i i' \<longleftrightarrow> im_path i' = im_path i \<and> im_line i' = im_line i \<and>
     (case resolves cfg path i of
        None \<Rightarrow> lc_per_file cfg \<and> im_resolved_path i' = []
      | Some q \<Rightarrow> im_resolved_path i' = (if q \<in> pre then q else []) \<and> (q \<in> pre \<or> lc_per_file cfg))"

definition file_ok :: "LoadConfig \<Rightarrow> LoadedFile list \<Rightarrow> LoadedFile \<Rightarrow> bool" where
  "file_ok cfg pre f \<longleftrightarrow>
     (\<exists>h ps md ps'. header_of cfg (lf_resolved_path f) = Some (h, ps) \<and>
        ParseBody (Some (merge_all pre)) ps = Ok md ps' \<and>
        lf_module f = ApplyEnableIf (lc_enabled_features cfg)
          (md\<lparr>mod_name := fh_module_name h, mod_imports := mod_imports (lf_module f)\<rparr>) \<and>
        list_all2 (import_ok cfg (lf_resolved_path f) (set (paths pre))) (fh_imports h) (mod_imports (lf_module f)))"

definition graph_ok :: "LoadConfig \<Rightarrow> LoadedFile list \<Rightarrow> bool" where
  "graph_ok cfg fs \<longleftrightarrow> distinct (paths fs) \<and> (\<forall>i < length fs. file_ok cfg (take i fs) (fs ! i))"

lemma graph_ok_snoc:
  "graph_ok cfg (fs @ [f]) \<longleftrightarrow> graph_ok cfg fs \<and> file_ok cfg fs f \<and> lf_resolved_path f \<notin> set (paths fs)"
  by (auto simp: graph_ok_def less_Suc_eq nth_append)

lemma merge_all_snoc:
  "merge_all (fs @ [f]) = MergeIntoAccumulated (merge_all fs) (lf_module f) (mod_name (lf_module f))"
  by (simp add: merge_all_def)

lemma ApplyEnableIf_fields [simp]: "mod_name (ApplyEnableIf en md) = mod_name md"
    "mod_imports (ApplyEnableIf en md) = mod_imports md"
  by (simp_all add: ApplyEnableIf_def)

subsection \<open>The invariant\<close>

definition load_inv :: "LoadConfig \<Rightarrow> LoadState \<Rightarrow> bool" where
  "load_inv cfg st \<longleftrightarrow>
     graph_ok cfg (ls_graph st) \<and> set (paths (ls_graph st)) = ls_merged st - ls_failed st \<and>
     ls_failed st \<subseteq> ls_merged st \<and> (\<not> lc_per_file cfg \<longrightarrow> ls_failed st = {}) \<and>
     ls_accumulated st = merge_all (ls_graph st) \<and>
     distinct (ls_loading st) \<and> set (ls_loading st) \<inter> ls_merged st = {} \<and>
     set (ls_loading st) \<union> ls_merged st \<subseteq> {p. lc_read_file cfg p \<noteq> None}"

text \<open>What a call changes: \<open>reach\<close> bounds the files that may be added.\<close>

definition extends :: "string set \<Rightarrow> LoadState \<Rightarrow> LoadState \<Rightarrow> bool" where
  "extends reach st st' \<longleftrightarrow>
     ls_loading st' = ls_loading st \<and> ls_merged st \<subseteq> ls_merged st' \<and> ls_merged st' \<subseteq> ls_merged st \<union> reach \<and>
     ls_failed st' \<inter> ls_merged st = ls_failed st \<inter> ls_merged st \<and> (\<exists>fs. ls_graph st' = ls_graph st @ fs)"

lemma extends_refl: "extends r st st"
  by (simp add: extends_def)

lemma extends_trans: "extends r st st1 \<Longrightarrow> extends r st1 st2 \<Longrightarrow> extends r st st2"
  unfolding extends_def by (elim conjE exE, intro conjI) (auto 0 3)

lemma extends_mono: "extends r st st' \<Longrightarrow> r \<subseteq> r' \<Longrightarrow> extends r' st st'"
  unfolding extends_def by blast

abbreviation entered :: "string \<Rightarrow> LoadState \<Rightarrow> LoadState" where
  "entered path st \<equiv> st\<lparr>ls_loading := ls_loading st @ [path]\<rparr>"

lemma LoadFileInto_Inr:
  assumes "LoadFileInto (Suc n) cfg path content st = Inr st'" "lc_read_file cfg path = Some content"
  shows "(path \<in> ls_merged st \<and> st' = st) \<or>
    (path \<notin> ls_merged st \<and> path \<notin> set (ls_loading st) \<and>
      ((\<exists>msg. GiveUp cfg path msg (entered path st) = Inr st') \<or>
       (\<exists>h ps is st1. header_of cfg path = Some (h, ps) \<and>
          load_imports (LoadFileInto n cfg) cfg path (fh_imports h) (entered path st) = Inr (is, st1) \<and>
          finish_file cfg path h is ps st1 = Inr st')))"
  using assms
  by (auto simp: header_of_def Let_def split: if_splits sum.splits LexFail.splits PFail.splits presult.splits)

lemma load_imports_Cons:
  assumes "load_imports load cfg path (imp # imps) st = Inr (is, st')"
  obtains imp' st1 is' where "is = imp' # is'" "load_imports load cfg path imps st1 = Inr (is', st')"
    "resolves cfg path imp = None" "lc_per_file cfg" "imp' = imp\<lparr>im_resolved_path := []\<rparr>"
    "\<exists>msg. st1 = st\<lparr>ls_skipped := msg\<rparr>"
  | imp' st1 is' p content where "is = imp' # is'" "load_imports load cfg path imps st1 = Inr (is', st')"
    "resolves cfg path imp = Some p" "lc_read_file cfg p = Some content" "load p content st = Inr st1"
    "imp' = imp\<lparr>im_resolved_path := if p \<in> ls_failed st1 then [] else p\<rparr>"
proof (cases "ResolveImport (im_path imp) (DirName path) (lc_import_dirs cfg) (lc_read_file cfg)")
  case None
  with assms obtain msg is' where "lc_per_file cfg" "is = imp\<lparr>im_resolved_path := []\<rparr> # is'"
    "load_imports load cfg path imps (st\<lparr>ls_skipped := msg\<rparr>) = Inr (is', st')"
    by (auto split: sum.splits if_splits)
  then show ?thesis using that(1) None by (auto simp: resolves_def)
next
  case (Some pc)
  obtain p c where pc: "pc = (p, c)" by fastforce
  have r: "lc_read_file cfg p = Some c" using ResolveImport_Some Some pc by blast
  from assms obtain st1 is' where "load p c st = Inr st1" "load_imports load cfg path imps st1 = Inr (is', st')"
    "is = imp\<lparr>im_resolved_path := if p \<in> ls_failed st1 then [] else p\<rparr> # is'"
    by (auto simp: Some pc split: sum.splits)
  then show ?thesis using that(2) [OF _ _ _ r] Some pc by (simp add: resolves_def)
qed

lemma entered_inv:
  "load_inv cfg st \<Longrightarrow> path \<notin> ls_merged st \<Longrightarrow> path \<notin> set (ls_loading st) \<Longrightarrow> lc_read_file cfg path = Some c \<Longrightarrow>
     load_inv cfg (entered path st)"
  by (auto simp: load_inv_def)

lemma GiveUp_post:
  assumes "GiveUp cfg path msg st = Inr st'" "load_inv cfg st" "ls_loading st = ld @ [path]"
  shows "load_inv cfg st' \<and> ls_loading st' = ld \<and> ls_merged st' = insert path (ls_merged st) \<and>
    ls_failed st' = insert path (ls_failed st) \<and> ls_graph st' = ls_graph st"
  using assms by (auto simp: GiveUp_def load_inv_def Let_def split: if_splits)

lemma finish_file_Inr:
  assumes "finish_file cfg path h is ps st = Inr st'"
  obtains msg where "GiveUp cfg path msg st = Inr st'"
  | md ps' m where "ParseBody (Some (ls_accumulated st)) ps = Ok md ps'"
    "m = ApplyEnableIf (lc_enabled_features cfg) (md\<lparr>mod_name := fh_module_name h, mod_imports := is\<rparr>)"
    "st' = st\<lparr>ls_accumulated := MergeIntoAccumulated (ls_accumulated st) m (fh_module_name h),
       ls_graph := ls_graph st @ [\<lparr>lf_resolved_path = path, lf_module = m\<rparr>],
       ls_loading := butlast (ls_loading st), ls_merged := insert path (ls_merged st)\<rparr>"
  using assms by (auto simp: finish_file_def Let_def split: presult.splits PFail.splits)

text \<open>The result of loading \<open>path\<close>.\<close>

definition loaded :: "LoadConfig \<Rightarrow> string \<Rightarrow> LoadState \<Rightarrow> LoadState \<Rightarrow> bool" where
  "loaded cfg path st st' \<longleftrightarrow> load_inv cfg st' \<and> extends ((imported cfg)\<^sup>* `` {path}) st st' \<and> path \<in> ls_merged st' \<and>
     (path \<in> ls_merged st \<or> path \<in> ls_failed st' \<or>
      (ls_graph st' \<noteq> [] \<and> lf_resolved_path (last (ls_graph st')) = path))"

lemma finish_file_post:
  assumes fin: "finish_file cfg path h is ps st1 = Inr st'" and inv: "load_inv cfg st1"
    and st1: "ls_loading st1 = ls_loading st @ [path]" "extends r (entered path st) st1" "path \<notin> ls_merged st"
    and h: "header_of cfg path = Some (h, ps)"
    and imps: "list_all2 (import_ok cfg path (ls_merged st1 - ls_failed st1)) (fh_imports h) is"
    and r: "insert path r \<subseteq> (imported cfg)\<^sup>* `` {path}"
  shows "loaded cfg path st st'"
proof -
  have path: "path \<notin> ls_merged st1" using inv st1(1) by (auto simp: load_inv_def)
  have ext: "extends ((imported cfg)\<^sup>* `` {path}) (entered path st) st1" using st1(2) r by (auto intro: extends_mono)
  from fin show ?thesis
  proof (cases rule: finish_file_Inr)
    case (1 msg)
    from GiveUp_post [OF this inv st1(1)] ext st1(3) r show ?thesis
      unfolding loaded_def extends_def by auto
  next
    case (2 md ps' m)
    have "file_ok cfg (ls_graph st1) \<lparr>lf_resolved_path = path, lf_module = m\<rparr>"
      using 2 inv imps h unfolding file_ok_def load_inv_def by auto
    then have "load_inv cfg st'"
      using inv path st1(1) unfolding 2(3) load_inv_def
      by (auto simp: graph_ok_snoc merge_all_snoc 2(2) simp del: map_append)
    then show ?thesis using ext st1(1,3) r path unfolding loaded_def extends_def 2(3) by auto
  qed
qed

lemma load_imports_post:
  assumes load: "\<And>p c st st'. lc_read_file cfg p = Some c \<Longrightarrow> load_inv cfg st \<Longrightarrow> load p c st = Inr st' \<Longrightarrow>
      loaded cfg p st st'"
  shows "load_imports load cfg path imps st = Inr (is, st') \<Longrightarrow> load_inv cfg st \<Longrightarrow>
    (\<And>i q. i \<in> set imps \<Longrightarrow> resolves cfg path i = Some q \<Longrightarrow> (imported cfg)\<^sup>* `` {q} \<subseteq> r) \<Longrightarrow>
    load_inv cfg st' \<and> extends r st st' \<and> list_all2 (import_ok cfg path (ls_merged st' - ls_failed st')) imps is"
proof (induction imps arbitrary: st "is")
  case Nil
  then show ?case by (simp add: extends_refl)
next
  case (Cons imp imps)
  have r: "(imported cfg)\<^sup>* `` {q} \<subseteq> r" if "i \<in> set imps" "resolves cfg path i = Some q" for i q
    using that by (intro Cons.prems(3)) simp_all
  from Cons.prems(1) show ?case
  proof (cases rule: load_imports_Cons)
    case (1 imp' st1 is')
    then obtain msg where st1: "st1 = st\<lparr>ls_skipped := msg\<rparr>" by blast
    have "load_inv cfg st1" using Cons.prems(2) by (simp add: st1 load_inv_def)
    from Cons.IH [OF 1(2) this r] have "load_inv cfg st' \<and> extends r st1 st' \<and>
        list_all2 (import_ok cfg path (ls_merged st' - ls_failed st')) imps is'" by simp
    moreover have "import_ok cfg path (ls_merged st' - ls_failed st') imp imp'" using 1 by (simp add: import_ok_def)
    ultimately show ?thesis using 1(1) by (simp add: st1 extends_def)
  next
    case (2 imp' st1 is' p content)
    have l: "loaded cfg p st st1" using load [OF 2(4) Cons.prems(2) 2(5)] .
    from Cons.IH [OF 2(2) _ r] l have IH: "load_inv cfg st' \<and> extends r st1 st' \<and>
        list_all2 (import_ok cfg path (ls_merged st' - ls_failed st')) imps is'" by (simp add: loaded_def)
    have e: "extends r st st1" using l Cons.prems(3) [of imp p] 2(3) by (auto simp: loaded_def intro: extends_mono)
    have "p \<in> ls_failed st1 \<longleftrightarrow> p \<in> ls_failed st'" "p \<in> ls_merged st'"
      using l IH unfolding loaded_def extends_def by blast+
    moreover have "lc_per_file cfg" if "p \<in> ls_failed st'" using IH that by (auto simp: load_inv_def)
    ultimately have "import_ok cfg path (ls_merged st' - ls_failed st') imp imp'"
      using 2 by (auto simp: import_ok_def)
    then show ?thesis using IH e 2(1) by (auto intro: extends_trans)
  qed
qed

theorem LoadFileInto_loaded:
  "LoadFileInto n cfg path content st = Inr st' \<Longrightarrow> load_inv cfg st \<Longrightarrow> lc_read_file cfg path = Some content \<Longrightarrow>
     loaded cfg path st st'"
proof (induction n arbitrary: path content st st')
  case (Suc n)
  from LoadFileInto_Inr [OF Suc.prems(1,3)] show ?case
  proof (elim disjE exE conjE)
    assume "path \<in> ls_merged st" "st' = st"
    then show ?thesis using Suc.prems(2) by (simp add: loaded_def extends_refl)
  next
    fix msg assume new: "path \<notin> ls_merged st" "path \<notin> set (ls_loading st)"
      and g: "GiveUp cfg path msg (entered path st) = Inr st'"
    from GiveUp_post [OF g entered_inv [OF Suc.prems(2) new Suc.prems(3)], of "ls_loading st"] new
    show ?thesis by (auto simp: loaded_def extends_def)
  next
    fix h ps "is" st1
    assume new: "path \<notin> ls_merged st" "path \<notin> set (ls_loading st)" and h: "header_of cfg path = Some (h, ps)"
      and imps: "load_imports (LoadFileInto n cfg) cfg path (fh_imports h) (entered path st) = Inr (is, st1)"
      and fin: "finish_file cfg path h is ps st1 = Inr st'"
    have "(imported cfg)\<^sup>* `` {q} \<subseteq> (imported cfg)\<^sup>* `` {path}"
      if "i \<in> set (fh_imports h)" "resolves cfg path i = Some q" for i q
      using that h by (auto simp: imported_def intro: converse_rtrancl_into_rtrancl)
    from load_imports_post [OF Suc.IH imps entered_inv [OF Suc.prems(2) new Suc.prems(3)] this]
    have post: "load_inv cfg st1" "extends ((imported cfg)\<^sup>* `` {path}) (entered path st) st1"
      "list_all2 (import_ok cfg path (ls_merged st1 - ls_failed st1)) (fh_imports h) is" by simp_all
    then show ?thesis
      using finish_file_post [OF fin post(1) _ post(2) new(1) h post(3)] by (simp add: extends_def)
  qed
qed simp

subsection \<open>Termination\<close>

text \<open>Each nested call is for one more file in progress, and these are distinct and readable.\<close>

lemma loading_bound:
  "load_inv cfg st \<Longrightarrow> finite {p. lc_read_file cfg p \<noteq> None} \<Longrightarrow> length (ls_loading st) \<le> card {p. lc_read_file cfg p \<noteq> None}"
  by (metis (no_types, lifting) Un_subset_iff card_mono distinct_card load_inv_def)

lemma load_imports_error:
  assumes loaded: "\<And>p c st st'. lc_read_file cfg p = Some c \<Longrightarrow> load_inv cfg st \<Longrightarrow> load p c st = Inr st' \<Longrightarrow>
      loaded cfg p st st'"
    and err: "\<And>p c st e. lc_read_file cfg p = Some c \<Longrightarrow> load_inv cfg st \<Longrightarrow> length (ls_loading st) = k \<Longrightarrow>
      load p c st = Inl e \<Longrightarrow> Q e" "\<And>m. Q (LoadError m)"
  shows "load_inv cfg st \<Longrightarrow> length (ls_loading st) = k \<Longrightarrow> load_imports load cfg path imps st = Inl e \<Longrightarrow> Q e"
proof (induction imps arbitrary: st)
  case (Cons imp imps)
  show ?case
  proof (cases "ResolveImport (im_path imp) (DirName path) (lc_import_dirs cfg) (lc_read_file cfg)")
    case None
    have "load_imports load cfg path imps (st\<lparr>ls_skipped := m\<rparr>) = Inl e \<Longrightarrow> Q e" for m
      using Cons.prems(1,2) by (intro Cons.IH [of "st\<lparr>ls_skipped := m\<rparr>"]) (simp_all add: load_inv_def)
    with None Cons.prems(3) err(2) show ?thesis by (auto simp: LoadError_at_def split: sum.splits if_splits)
  next
    case (Some pc)
    obtain p c where pc: "pc = (p, c)" by fastforce
    have r: "lc_read_file cfg p = Some c" using ResolveImport_Some Some pc by blast
    show ?thesis
    proof (cases "load p c st")
      case (Inl e')
      then show ?thesis using err(1) [OF r Cons.prems(1,2)] Cons.prems(3) by (simp add: Some pc)
    next
      case (Inr st1)
      from loaded [OF r Cons.prems(1) this] Cons.prems(2)
      have "load_inv cfg st1" "length (ls_loading st1) = k" by (simp_all add: loaded_def extends_def)
      from Cons.IH [OF this] Cons.prems(3) show ?thesis by (auto simp: Some pc Inr split: sum.splits)
    qed
  qed
qed simp

text \<open>The failures of a load: its own errors, and the exceptions of number conversions.\<close>

definition expected_error :: "LoadFail \<Rightarrow> bool" where
  "expected_error e \<longleftrightarrow> (\<exists>m. e = LoadError m) \<or> e = FromLexer StolOutOfRange \<or>
     e = FromParser StdOutOfRange \<or> e = FromParser IntOverflow"

lemma lex_step_one: "lex_step c r l = Inr (ts, r', l') \<Longrightarrow> length ts \<le> 1"
  by (auto simp: lex_step_def Let_def split: if_splits sum.splits option.splits prod.splits)

lemma lex_loop_length: "lex_loop s l = Inr ts \<Longrightarrow> length ts \<le> Suc (length s)"
proof (induction s l arbitrary: ts rule: lex_loop.induct)
  case (2 c r l)
  then obtain as r' l1 bs where s: "lex_step c r l = Inr (as, r', l1)" "lex_loop r' l1 = Inr bs" "ts = as @ bs"
    by (auto split: sum.splits prod.splits)
  from "2.IH" [OF s(1) refl refl s(2)] lex_step_one [OF s(1)] lex_step_length [OF s(1)] show ?case by (simp add: s(3))
qed simp

lemma scan_values_error: "scan_values ts n acc = Inl e \<Longrightarrow> e = StdOutOfRange \<or> e = IntOverflow"
proof (induction ts n acc rule: scan_values.induct)
  case (1 ts n acc)
  have "scan_initializer us k acc = Inl e' \<Longrightarrow> e' = StdOutOfRange" for us k e'
    by (auto simp: scan_initializer_def ParseIntLiteral_def Let_def split: if_splits sum.splits)
  moreover have "next_int32 v = Inl e' \<Longrightarrow> e' = IntOverflow" for v e'
    by (auto simp: next_int32_def split: if_splits)
  ultimately show ?case
    using 1(3) 1(1) 1(2) [OF _ _ _ refl _ refl]
    by (subst (asm) scan_values.simps) (fastforce simp: Let_def split: if_splits sum.splits prod.splits)
qed

lemma new_parser_error: "new_parser ts = Inl e \<Longrightarrow> e = StdOutOfRange \<or> e = IntOverflow"
proof -
  have "CollectEnumValues ts m = Inl e \<Longrightarrow> e = StdOutOfRange \<or> e = IntOverflow" for m
  proof (induction ts m rule: CollectEnumValues.induct)
    case (1 t u ts m)
    have "scan_enum (u # ts) = Inl e' \<Longrightarrow> e' = StdOutOfRange \<or> e' = IntOverflow" for e'
      by (auto simp: scan_enum_def Let_def split: if_splits sum.splits dest: scan_values_error)
    then show ?case using 1 by (fastforce split: if_splits sum.splits prod.splits)
  qed simp_all
  then show "new_parser ts = Inl e \<Longrightarrow> e = StdOutOfRange \<or> e = IntOverflow"
    by (auto simp: new_parser_def split: sum.splits)
qed

lemma header_parser:
  assumes "Tokenize content = Inr tokens" "length content < 2 ^ 32" "new_parser tokens = Inr ps"
  shows "ParseHeader ps \<noteq> Fail OutOfFuel"
    "ParseHeader ps = Ok h ps' \<Longrightarrow> ParseBody prelude ps' \<noteq> Fail OutOfFuel"
proof -
  obtain us l where ts: "tokens = us @ [mk_token kEnd [] l]"
    using lex_loop_ok [OF assms(1) [unfolded Tokenize_def]] by blast
  have rest: "ps_rest ps = tokens" using assms(3) by (auto simp: new_parser_def split: sum.splits)
  then have ok: "tokens_ok ps" by (simp add: tokens_ok_def ts mk_token_def)
  have len: "length (ps_rest ps) \<le> 2 ^ 32"
    using lex_loop_length [OF assms(1) [unfolded Tokenize_def]] assms(2) rest by simp
  show "ParseHeader ps \<noteq> Fail OutOfFuel"
    using runsD(2) [OF runs_header [of "\<lambda>_. True"] ok TrueI len] .
  assume "ParseHeader ps = Ok h ps'"
  from runsD(1) [OF runs_header [of "\<lambda>_. True"] ok TrueI len this] len
  have "tokens_ok ps'" "length (ps_rest ps') \<le> 2 ^ 32" by simp_all
  then show "ParseBody prelude ps' \<noteq> Fail OutOfFuel"
    using runsD(2) [OF runs_body [OF order_refl, of "\<lambda>_. True"] _ TrueI] by simp
qed

lemma finish_error: "ParseBody (Some (ls_accumulated st)) ps \<noteq> Fail OutOfFuel \<Longrightarrow>
    finish_file cfg path h is ps st = Inl e \<Longrightarrow> expected_error e"
  by (auto simp: finish_file_def GiveUp_def Let_def expected_error_def split: presult.splits PFail.splits if_splits)

lemma LoadFileInto_Inl:
  assumes "LoadFileInto (Suc n) cfg path content st = Inl e"
  shows "path \<in> ls_merged st \<or> path \<in> set (ls_loading st) \<or> (\<exists>m. e = LoadError m) \<or> e = FromLexer StolOutOfRange \<or>
    (\<exists>tokens e'. Tokenize content = Inr tokens \<and> new_parser tokens = Inl e' \<and> e = FromParser e') \<or>
    (\<exists>tokens ps e'. Tokenize content = Inr tokens \<and> new_parser tokens = Inr ps \<and> ParseHeader ps = Fail e' \<and>
       (\<forall>m l. e' \<noteq> ParseError m l) \<and> e = FromParser e') \<or>
    (\<exists>tokens ps h ps'. Tokenize content = Inr tokens \<and> new_parser tokens = Inr ps \<and> ParseHeader ps = Ok h ps' \<and>
       load_imports (LoadFileInto n cfg) cfg path (fh_imports h) (entered path st) = Inl e) \<or>
    (\<exists>tokens ps h ps' is st1. Tokenize content = Inr tokens \<and> new_parser tokens = Inr ps \<and>
       ParseHeader ps = Ok h ps' \<and> finish_file cfg path h is ps' st1 = Inl e)"
  using assms
  by (auto simp: Let_def GiveUp_def split: if_splits sum.splits LexFail.splits PFail.splits presult.splits)

lemma LoadFileInto_error:
  assumes "finite {p. lc_read_file cfg p \<noteq> None}" "\<And>p c. lc_read_file cfg p = Some c \<Longrightarrow> length c < 2 ^ 32"
  shows "card {p. lc_read_file cfg p \<noteq> None} < n + length (ls_loading st) \<Longrightarrow> load_inv cfg st \<Longrightarrow>
    lc_read_file cfg path = Some content \<Longrightarrow> LoadFileInto n cfg path content st = Inl e \<Longrightarrow> expected_error e"
proof (induction n arbitrary: path content st e)
  case 0
  then show ?case using loading_bound [OF 0(2) assms(1)] by simp
next
  case (Suc n)
  show ?case
  proof (cases "path \<in> ls_merged st \<or> path \<in> set (ls_loading st)")
    case False
    then have inv: "load_inv cfg (entered path st)" using Suc.prems by (intro entered_inv) auto
    have step: "expected_error e'" if "lc_read_file cfg p = Some c" "load_inv cfg st1"
      "length (ls_loading st1) = Suc (length (ls_loading st))" "LoadFileInto n cfg p c st1 = Inl e'" for p c st1 e'
      using Suc.IH [OF _ that(2,1,4)] that(3) Suc.prems(1) by simp
    have "expected_error (LoadError m)" for m by (simp add: expected_error_def)
    with LoadFileInto_loaded step
    have imps: "load_imports (LoadFileInto n cfg) cfg path imps (entered path st) = Inl e' \<Longrightarrow> expected_error e'" for imps e'
      by (rule load_imports_error [OF _ _ _ inv]) simp_all
    note prs = header_parser [OF _ assms(2) [OF Suc.prems(3)]]
    from False LoadFileInto_Inl [OF Suc.prems(4)] show ?thesis
    proof (elim disjE conjE exE)
      fix tokens ps e' assume "Tokenize content = Inr tokens" "new_parser tokens = Inr ps" "ParseHeader ps = Fail e'"
        and e: "\<forall>m l. e' \<noteq> ParseError m l" "e = FromParser e'"
      from prs(1) [OF this(1,2)] this(3) have "e' \<noteq> OutOfFuel" by auto
      with e show ?thesis by (cases e') (auto simp: expected_error_def)
    next
      fix tokens ps h ps' "is" st1 assume "Tokenize content = Inr tokens" "new_parser tokens = Inr ps"
        "ParseHeader ps = Ok h ps'" and f: "finish_file cfg path h is ps' st1 = Inl e"
      then show ?thesis by (intro finish_error [OF _ f] prs(2))
    qed (auto simp: expected_error_def dest: new_parser_error imps)
  qed (use Suc.prems(4) in \<open>auto simp: expected_error_def split: if_splits\<close>)
qed

subsection \<open>Cycles\<close>

definition cycle_message :: "string \<Rightarrow> bool" where
  "cycle_message msg \<longleftrightarrow> take 14 msg = ''import cycle: ''"

lemma cycle_messages [simp]: "\<not> cycle_message (in_file path msg line)"
    "LoadError_at (''cannot resolve import '' @ x) path line = LoadError msg' \<Longrightarrow> \<not> cycle_message msg'"
  by (auto simp: cycle_message_def in_file_def LoadError_at_def)

lemma GiveUp_message: "GiveUp cfg path (in_file path msg line) st = Inl (LoadError m) \<Longrightarrow> \<not> cycle_message m"
  by (auto simp: GiveUp_def Let_def split: if_splits)

lemma finish_message: "finish_file cfg path h is ps st = Inl (LoadError m) \<Longrightarrow> \<not> cycle_message m"
  by (auto simp: finish_file_def Let_def dest: GiveUp_message split: presult.splits PFail.splits)

lemma load_imports_message:
  assumes loaded: "\<And>p c st st'. lc_read_file cfg p = Some c \<Longrightarrow> load_inv cfg st \<Longrightarrow> load p c st = Inr st' \<Longrightarrow>
      loaded cfg p st st'"
    and msg: "cycle_message msg"
  shows "load_imports load cfg path imps st = Inl (LoadError msg) \<Longrightarrow> load_inv cfg st \<Longrightarrow>
    \<exists>i p c st1. i \<in> set imps \<and> resolves cfg path i = Some p \<and> lc_read_file cfg p = Some c \<and> load_inv cfg st1 \<and>
      ls_loading st1 = ls_loading st \<and> load p c st1 = Inl (LoadError msg)"
proof (induction imps arbitrary: st)
  case (Cons imp imps)
  show ?case
  proof (cases "ResolveImport (im_path imp) (DirName path) (lc_import_dirs cfg) (lc_read_file cfg)")
    case None
    have inv: "load_inv cfg (st\<lparr>ls_skipped := m\<rparr>)" for m using Cons.prems(2) by (simp add: load_inv_def)
    from Cons.prems(1) msg None obtain m where
      "load_imports load cfg path imps (st\<lparr>ls_skipped := m\<rparr>) = Inl (LoadError msg)"
      by (auto split: sum.splits if_splits dest: cycle_messages(2))
    from Cons.IH [OF this inv] show ?thesis by auto
  next
    case (Some pc)
    obtain p c where pc: "pc = (p, c)" by fastforce
    have r: "lc_read_file cfg p = Some c" "resolves cfg path imp = Some p"
      using ResolveImport_Some Some pc by (auto simp: resolves_def)
    show ?thesis
    proof (cases "load p c st")
      case (Inl e)
      then show ?thesis using Cons.prems r by (auto simp: Some pc)
    next
      case (Inr st1)
      from loaded [OF r(1) Cons.prems(2) this]
      have st1: "load_inv cfg st1" "ls_loading st1 = ls_loading st" by (simp_all add: loaded_def extends_def)
      have "load_imports load cfg path imps st1 = Inl (LoadError msg)"
        using Cons.prems(1) by (auto simp: Some pc Inr split: sum.splits)
      from Cons.IH [OF this st1(1)] show ?thesis unfolding st1(2) by auto
    qed
  qed
qed simp

lemma LoadFileInto_message:
  assumes "cycle_message msg"
  shows "LoadFileInto n cfg path content st = Inl (LoadError msg) \<Longrightarrow> load_inv cfg st \<Longrightarrow>
    lc_read_file cfg path = Some content \<Longrightarrow> \<forall>p \<in> set (ls_loading st). (p, path) \<in> (imported cfg)\<^sup>+ \<Longrightarrow>
    \<exists>q. (path, q) \<in> (imported cfg)\<^sup>* \<and> (q, q) \<in> (imported cfg)\<^sup>+"
proof (induction n arbitrary: path content st)
  case (Suc n)
  show ?case
  proof (cases "path \<in> set (ls_loading st)")
    case True
    then show ?thesis using Suc.prems(4) by blast
  next
    case False
    with Suc.prems(1,3) assms obtain h ps where new: "path \<notin> ls_merged st" and h: "header_of cfg path = Some (h, ps)"
      and imps: "load_imports (LoadFileInto n cfg) cfg path (fh_imports h) (entered path st) = Inl (LoadError msg)"
      by (auto simp: header_of_def Let_def dest: GiveUp_message finish_message
          split: if_splits sum.splits LexFail.splits PFail.splits presult.splits)
    have "\<exists>i p c st1. i \<in> set (fh_imports h) \<and> resolves cfg path i = Some p \<and> lc_read_file cfg p = Some c \<and>
        load_inv cfg st1 \<and> ls_loading st1 = ls_loading (entered path st) \<and> LoadFileInto n cfg p c st1 = Inl (LoadError msg)"
      using LoadFileInto_loaded assms imps entered_inv [OF Suc.prems(2) new False Suc.prems(3)]
      by (rule load_imports_message)
    then obtain i p c st1 where i: "i \<in> set (fh_imports h)" "resolves cfg path i = Some p" "lc_read_file cfg p = Some c"
      "load_inv cfg st1" "ls_loading st1 = ls_loading st @ [path]" "LoadFileInto n cfg p c st1 = Inl (LoadError msg)"
      by auto
    have edge: "(path, p) \<in> imported cfg" using h i by (auto simp: imported_def)
    then have "\<forall>x \<in> set (ls_loading st1). (x, p) \<in> (imported cfg)\<^sup>+"
      using Suc.prems(4) by (auto simp: i(5) intro: trancl_into_trancl)
    from Suc.IH [OF i(6,4,3) this] edge show ?thesis by (blast intro: converse_rtrancl_into_rtrancl)
  qed
qed simp

end
