(* ===== verification/Loader_Properties.thy ===== *)
theory Loader_Properties
  imports Loader_Invariant Parser_Properties
begin

text \<open>
  The properties of the module loader, with their concrete instances.
\<close>

subsection \<open>From the recursion to a load\<close>

lemma empty_load_inv: "load_inv cfg empty_load"
  by (simp add: load_inv_def empty_load_def graph_ok_def merge_all_def)

lemma LoadModuleGraph_Inr:
  assumes "LoadModuleGraph fuel entry_path dirs read_file en skip = Inr (g, ok, msgs)"
  defines "cfg \<equiv> \<lparr>lc_import_dirs = dirs, lc_read_file = read_file, lc_enabled_features = en, lc_per_file = skip\<rparr>"
  obtains st where "loaded cfg (NormalizePath entry_path) empty_load st" "g = ls_graph st"
    "ok \<longleftrightarrow> g \<noteq> [] \<and> lf_resolved_path (last g) = NormalizePath entry_path"
proof -
  from assms obtain c st where st: "read_file (NormalizePath entry_path) = Some c"
    "LoadFileInto fuel cfg (NormalizePath entry_path) c empty_load = Inr st" "g = ls_graph st"
    "ok \<longleftrightarrow> g \<noteq> [] \<and> lf_resolved_path (last g) = NormalizePath entry_path"
    by (auto simp: LoadModuleGraph_def Let_def split: option.splits sum.splits)
  have "loaded cfg (NormalizePath entry_path) empty_load st"
    using st(1) by (intro LoadFileInto_loaded [OF st(2) empty_load_inv]) (simp add: cfg_def)
  with st that show ?thesis by blast
qed

text \<open>In a graph without failed files the imports of a file stand before it.\<close>

lemma graph_imports:
  assumes g: "graph_ok cfg g" and strict: "\<not> lc_per_file cfg" and i: "i < length g"
    and e: "(lf_resolved_path (g ! i), q) \<in> imported cfg"
  shows "q \<in> set (paths (take i g))"
proof -
  let ?f = "g ! i"
  from g i have "file_ok cfg (take i g) ?f" by (simp add: graph_ok_def)
  then obtain h ps where h: "header_of cfg (lf_resolved_path ?f) = Some (h, ps)"
    "list_all2 (import_ok cfg (lf_resolved_path ?f) (set (paths (take i g)))) (fh_imports h) (mod_imports (lf_module ?f))"
    unfolding file_ok_def by blast
  from e h(1) obtain imp where imp: "imp \<in> set (fh_imports h)" "resolves cfg (lf_resolved_path ?f) imp = Some q"
    by (auto simp: imported_def)
  from h(2) imp(1) obtain imp' where "import_ok cfg (lf_resolved_path ?f) (set (paths (take i g))) imp imp'"
    by (auto simp: list_all2_conv_all_nth in_set_conv_nth)
  with imp(2) strict show ?thesis by (simp add: import_ok_def)
qed

lemma graph_closed:
  assumes "graph_ok cfg g" "\<not> lc_per_file cfg" "(p, q) \<in> (imported cfg)\<^sup>*" "p \<in> set (paths g)"
  shows "q \<in> set (paths g)"
  using assms(3,4)
proof (induction rule: rtrancl_induct)
  case (step y z)
  then obtain i where i: "i < length g" "lf_resolved_path (g ! i) = y" by (auto simp: in_set_conv_nth)
  with graph_imports [OF assms(1,2) i(1)] step.hyps(2) have "z \<in> set (paths (take i g))" by simp
  then show ?case using set_take_subset [of i g] by auto
qed simp

lemma graph_no_cycle:
  assumes g: "graph_ok cfg g" and strict: "\<not> lc_per_file cfg" and p: "p \<in> set (paths g)"
  shows "(p, p) \<notin> (imported cfg)\<^sup>+"
proof -
  have "\<exists>j < i. lf_resolved_path (g ! j) = q" if "(lf_resolved_path (g ! i), q) \<in> (imported cfg)\<^sup>+" "i < length g" for i q
    using that
  proof (induction rule: trancl_induct)
    case (base y)
    then show ?case using graph_imports [OF g strict base(2,1)] by (fastforce simp: in_set_conv_nth)
  next
    case (step y z)
    then obtain j where j: "j < i" "lf_resolved_path (g ! j) = y" by auto
    have "z \<in> set (paths (take j g))" using j step.hyps(2) step.prems by (intro graph_imports [OF g strict]) auto
    then obtain k where "k < j" "lf_resolved_path (g ! k) = z" by (auto simp: in_set_conv_nth)
    then show ?case using j(1) by (intro exI [of _ k]) simp
  qed
  moreover obtain i where i: "i < length g" "p = lf_resolved_path (g ! i)" using p by (auto simp: in_set_conv_nth)
  moreover have "lf_resolved_path (g ! j) \<noteq> lf_resolved_path (g ! i)" if "j < i" for j
  proof -
    have "paths g ! j \<noteq> paths g ! i" using g i(1) that by (simp add: graph_ok_def nth_eq_iff_index_eq del: nth_map)
    then show ?thesis using i(1) that by simp
  qed
  ultimately show ?thesis by blast
qed

subsection \<open>Concrete files\<close>

text \<open>A file that imports another, two files that import each other, and a file with a number
  that no \<open>long long\<close> holds.\<close>

definition import_text :: "char \<Rightarrow> string" where
  "import_text c = ''import '' @ [quote, c, quote] @ '';''"

definition diamond_files :: FileReader where
  "diamond_files = [''a'' \<mapsto> import_text CHR ''b'' @ import_text CHR ''c'', ''b'' \<mapsto> import_text CHR ''c'', ''c'' \<mapsto> []]"

definition cyclic_files :: FileReader where
  "cyclic_files = [''a'' \<mapsto> import_text CHR ''b'', ''b'' \<mapsto> import_text CHR ''a'']"

definition overflow_files :: FileReader where
  "overflow_files = [''a'' \<mapsto> import_text CHR ''b'', ''b'' \<mapsto> ''enum E{A=99999999999999999999};'']"


lemma cyclic_load: "LoadModuleGraph 3 ''a'' [] cyclic_files {} False = Inl (LoadError ''import cycle: a -> b -> a'')"
  by code_simp

lemma overflow_tokens:
  "Tokenize (import_text CHR ''b'') = Inr [mk_token kName ''import'' 1, mk_token kStringLiteral ''b'' 1,
     mk_token kSemi [] 1, mk_token kEnd [] 1]"
  "Tokenize ''enum E{A=99999999999999999999};'' = Inr [mk_token kName ''enum'' 1, mk_token kName ''E'' 1,
     mk_token kLBrace [] 1, mk_token kName ''A'' 1, mk_token kEquals [] 1, mk_token kNumber ''99999999999999999999'' 1,
     mk_token kRBrace [] 1, mk_token kSemi [] 1, mk_token kEnd [] 1]"
  by code_simp+

lemma overflow_load: "LoadModuleGraph 3 ''a'' [] overflow_files {} True = Inl (FromParser StdOutOfRange)"
proof -
  have "NormalizePath ''a'' = ''a''" "ResolveImport ''b'' (DirName ''a'') [] overflow_files =
      Some (''b'', ''enum E{A=99999999999999999999};'')" by code_simp+
  then show ?thesis
    by (simp add: LoadModuleGraph_def numeral_3_eq_3 empty_load_def overflow_files_def overflow_tokens
        parse_eval monad_eval data_eval mk_token_def ParseImport_def [THEN fun_cong])
qed

lemma diamond_load: "map_sum id (\<lambda>(g, ok, msgs). (paths g, map (map im_resolved_path \<circ> mod_imports \<circ> lf_module) g, ok, msgs))
   (LoadModuleGraph 4 ''a'' [] diamond_files {} False) = Inr ([''c'', ''b'', ''a''], [[], [''c''], [''b'', ''c'']], True, [])"
  by code_simp

subsection \<open>The properties\<close>

text \<open>C19.  Loading terminates when finitely many files can be read: with fuel beyond their number
  the recursion and the parser never run out of it, so the result is a graph, a \<open>LoadError\<close>, or
  one of the exceptions that number conversions throw and the loader does not catch.\<close>

theorem load_terminates:
  assumes "finite (dom read_file)" "card (dom read_file) < fuel" "\<forall>c \<in> ran read_file. length c < 2 ^ 32"
  shows "case LoadModuleGraph fuel entry dirs read_file en skip of Inr _ \<Rightarrow> True | Inl e \<Rightarrow>
    (\<exists>m. e = LoadError m) \<or> e = FromLexer StolOutOfRange \<or> e = FromParser StdOutOfRange \<or> e = FromParser IntOverflow"
proof -
  let ?cfg = "\<lparr>lc_import_dirs = dirs, lc_read_file = read_file, lc_enabled_features = en, lc_per_file = skip\<rparr>"
  have "expected_error e" if "LoadFileInto fuel ?cfg p c empty_load = Inl e" "read_file p = Some c" for p c e
    using LoadFileInto_error [OF _ _ _ empty_load_inv, of ?cfg fuel p c e] that assms
    by (auto simp: dom_def ran_def empty_load_def)
  then show ?thesis
    by (auto simp: LoadModuleGraph_def Let_def expected_error_def split: sum.splits option.splits)
qed

lemma diamond_finite: "dom diamond_files = {''a'', ''b'', ''c''}"
    "ran diamond_files \<subseteq> {import_text CHR ''b'' @ import_text CHR ''c'', import_text CHR ''c'', []}"
proof -
  show "dom diamond_files = {''a'', ''b'', ''c''}" unfolding diamond_files_def by (simp add: insert_commute)
  show "ran diamond_files \<subseteq> {import_text CHR ''b'' @ import_text CHR ''c'', import_text CHR ''c'', []}"
    unfolding diamond_files_def by (simp add: ran_map_upd)
qed

theorem load_terminates_witness:
  "case LoadModuleGraph 4 ''a'' [] diamond_files {} False of Inr (g, _) \<Rightarrow> paths g = [''c'', ''b'', ''a''] | Inl e \<Rightarrow>
    (\<exists>m. e = LoadError m) \<or> e = FromLexer StolOutOfRange \<or> e = FromParser StdOutOfRange \<or> e = FromParser IntOverflow"
proof -
  have "finite (dom diamond_files)" "card (dom diamond_files) < 4" by (simp_all add: diamond_finite)
  moreover have "\<forall>c \<in> ran diamond_files. length c < 2 ^ 32"
    using diamond_finite(2) by (rule ballI [OF subsetD [THEN insertE]]) (auto simp: import_text_def)
  ultimately show ?thesis
    using load_terminates [of diamond_files 4 "''a''" "[]" "{}" False] diamond_load
    by (cases "LoadModuleGraph 4 ''a'' [] diamond_files {} False") (simp_all split: prod.splits)
qed

text \<open>C18.  A loaded graph is what its files say.  No file occurs twice; every file is the parse of
  its text with exactly the declarations of the files before it visible, filtered by the enabled
  features; each of its imports is marked with the path it resolves to, which stands before it in
  the graph, or is left empty in per-file mode when it did not load.  Without per-file mode the
  graph ends with the entry file and holds exactly the files that it imports, transitively; in
  per-file mode \<open>entry_loaded\<close> says whether the entry file is in the graph, at its end.\<close>

theorem loaded_graph_correct:
  assumes "LoadModuleGraph fuel entry dirs read_file en skip = Inr (g, ok, msgs)"
    "cfg = \<lparr>lc_import_dirs = dirs, lc_read_file = read_file, lc_enabled_features = en, lc_per_file = skip\<rparr>"
  shows "graph_ok cfg g \<and> (ok \<longleftrightarrow> NormalizePath entry \<in> set (paths g)) \<and>
    (if skip then set (paths g) \<subseteq> (imported cfg)\<^sup>* `` {NormalizePath entry}
     else ok \<and> set (paths g) = (imported cfg)\<^sup>* `` {NormalizePath entry})"
proof -
  let ?e = "NormalizePath entry"
  obtain st where l: "loaded cfg ?e empty_load st" and g: "g = ls_graph st"
    and ok: "ok \<longleftrightarrow> g \<noteq> [] \<and> lf_resolved_path (last g) = ?e"
    using LoadModuleGraph_Inr [OF assms(1)] assms(2) by metis
  have inv: "graph_ok cfg g" "set (paths g) = ls_merged st - ls_failed st" "\<not> skip \<longrightarrow> ls_failed st = {}"
    using l assms(2) unfolding g by (auto simp: loaded_def load_inv_def)
  have ext: "ls_merged st \<subseteq> (imported cfg)\<^sup>* `` {?e}" "?e \<in> ls_merged st"
    using l by (auto simp: loaded_def extends_def empty_load_def)
  have e: "?e \<in> ls_failed st \<or> ok" using l ok by (auto simp: loaded_def g empty_load_def)
  have mem: "ok \<longleftrightarrow> ?e \<in> set (paths g)"
  proof
    assume ok
    with ok have "g \<noteq> []" "lf_resolved_path (last g) = ?e" by simp_all
    then show "?e \<in> set (paths g)" by (metis last_in_set last_map list.map_disc_iff)
  next
    assume "?e \<in> set (paths g)"
    with e inv(2) show ok by blast
  qed
  have "(imported cfg)\<^sup>* `` {?e} \<subseteq> set (paths g)" if "\<not> skip"
    using that graph_closed [OF inv(1), of ?e] inv(2,3) ext(2) assms(2) by auto
  then show ?thesis using inv mem ext by auto
qed

theorem loaded_graph_correct_witness:
  "\<exists>g msgs cfg. LoadModuleGraph 4 ''a'' [] diamond_files {} False = Inr (g, True, msgs) \<and>
     cfg = \<lparr>lc_import_dirs = [], lc_read_file = diamond_files, lc_enabled_features = {}, lc_per_file = False\<rparr> \<and>
     paths g = [''c'', ''b'', ''a''] \<and> graph_ok cfg g \<and> {''c'', ''b'', ''a''} = (imported cfg)\<^sup>* `` {''a''}"
proof -
  obtain g msgs where g: "LoadModuleGraph 4 ''a'' [] diamond_files {} False = Inr (g, True, msgs)"
    "paths g = [''c'', ''b'', ''a'']"
    using diamond_load by (cases "LoadModuleGraph 4 ''a'' [] diamond_files {} False") auto
  have "NormalizePath ''a'' = ''a''" by code_simp
  with loaded_graph_correct [OF g(1) refl] g show ?thesis
    by (intro exI [of _ g] exI [of _ msgs]) auto
qed

text \<open>C20.  Import cycles are detected exactly: a load without per-file mode that returns a graph
  started from a file that reaches no import cycle, and a load in either mode that ends with the
  message of an import cycle started from a file that reaches one.\<close>

theorem import_cycles_exact:
  assumes "cfg = \<lparr>lc_import_dirs = dirs, lc_read_file = read_file, lc_enabled_features = en, lc_per_file = skip\<rparr>"
  shows "(\<not> skip \<and> LoadModuleGraph fuel entry dirs read_file en skip = Inr r \<longrightarrow>
      (\<forall>q. (NormalizePath entry, q) \<in> (imported cfg)\<^sup>* \<longrightarrow> (q, q) \<notin> (imported cfg)\<^sup>+)) \<and>
    (LoadModuleGraph fuel entry dirs read_file en skip = Inl (LoadError msg) \<and> cycle_message msg \<longrightarrow>
      (\<exists>q. (NormalizePath entry, q) \<in> (imported cfg)\<^sup>* \<and> (q, q) \<in> (imported cfg)\<^sup>+))"
proof (intro conjI impI allI; elim conjE)
  fix q assume s: "\<not> skip" "LoadModuleGraph fuel entry dirs read_file en skip = Inr r"
    and q: "(NormalizePath entry, q) \<in> (imported cfg)\<^sup>*"
  obtain g ok msgs where r: "r = (g, ok, msgs)" using prod_cases3 by blast
  obtain st where l: "loaded cfg (NormalizePath entry) empty_load st" and g: "g = ls_graph st"
    using LoadModuleGraph_Inr [OF s(2) [unfolded r]] assms by metis
  have gr: "graph_ok cfg g" "NormalizePath entry \<in> set (paths g)" "\<not> lc_per_file cfg"
    using l s(1) assms by (auto simp: loaded_def load_inv_def g simp del: set_map)
  from graph_no_cycle [OF gr(1,3) graph_closed [OF gr(1,3) q gr(2)]] show "(q, q) \<notin> (imported cfg)\<^sup>+" .
next
  assume "LoadModuleGraph fuel entry dirs read_file en skip = Inl (LoadError msg)" and m: "cycle_message msg"
  then obtain c where "read_file (NormalizePath entry) = Some c"
    "LoadFileInto fuel cfg (NormalizePath entry) c empty_load = Inl (LoadError msg)"
    using assms by (auto simp: LoadModuleGraph_def Let_def cycle_message_def split: option.splits sum.splits)
  with LoadFileInto_message [OF m _ empty_load_inv]
  show "\<exists>q. (NormalizePath entry, q) \<in> (imported cfg)\<^sup>* \<and> (q, q) \<in> (imported cfg)\<^sup>+"
    using assms by (simp add: empty_load_def)
qed

theorem import_cycles_exact_witness:
  "\<exists>cfg q. cfg = \<lparr>lc_import_dirs = [], lc_read_file = cyclic_files, lc_enabled_features = {}, lc_per_file = False\<rparr> \<and>
     (NormalizePath ''a'', q) \<in> (imported cfg)\<^sup>* \<and> (q, q) \<in> (imported cfg)\<^sup>+"
  using import_cycles_exact [OF refl, of False 3 "''a''" "[]" cyclic_files "{}" undefined "''import cycle: a -> b -> a''"]
    cyclic_load by (auto simp: cycle_message_def)

text \<open>C21.  Normalization of paths is idempotent, and does not distinguish spellings: a directory
  followed by a step up, and a step to the directory itself, may be inserted after any separator
  without changing the result.\<close>

theorem normalize_path_canonical:
  assumes "plain_segment x"
  shows "NormalizePath (NormalizePath path) = NormalizePath path \<and>
    NormalizePath (a @ ''/'' @ x @ ''/../'' @ b) = NormalizePath (a @ ''/'' @ b) \<and>
    NormalizePath (a @ ''/./'' @ b) = NormalizePath (a @ ''/'' @ b)"
  using NormalizePath_idem NormalizePath_cancel [OF assms] by simp

theorem normalize_path_canonical_witness:
  "NormalizePath ''C:/inc/../../b'' = ''C:/b'' \<and> NormalizePath ''a/../../b/c'' = ''../b/c'' \<and>
     NormalizePath ''../b/x/../c'' = NormalizePath ''../b/c''"
proof -
  have "NormalizePath ''C:/inc/../../b'' = ''C:/b''" "NormalizePath ''a/../../b/c'' = ''../b/c''" by code_simp+
  moreover have "NormalizePath (''../b'' @ ''/'' @ ''x'' @ ''/../'' @ ''c'') = NormalizePath (''../b'' @ ''/'' @ ''c'')"
    using normalize_path_canonical [of "''x''" "[]" "''../b''" "''c''"] by (simp add: plain_segment_def)
  ultimately show ?thesis by simp
qed

text \<open>Per-file mode does not survive a number out of range: with an imported file that
  initializes an enumerator with a literal beyond 64 bits, the whole load ends with the exception
  of the conversion instead of recording the file as skipped.\<close>

theorem per_file_mode_aborts:
  "LoadModuleGraph 3 ''a'' [] overflow_files {} True = Inl (FromParser StdOutOfRange)"
  by (rule overflow_load)

end
