(* ===== verification/Type_Intern.thy ===== *)
theory Type_Intern
  imports Voodoom_Bodies Type_Printing
begin

text \<open>
  Keys of types and methods, and the table that numbers them (\<open>src/type_intern.cc\<close>,
  \<open>src/type_intern.h\<close>).  The locale \<open>interner\<close> states what clients of such a table rely on.
\<close>

subsection \<open>Keys\<close>

definition QualName :: "string \<Rightarrow> string \<Rightarrow> string" where
  "QualName ns name = (if ns = [] then name else ns @ ''.'' @ name)"

definition HandleKey :: "TypeKind \<Rightarrow> string" where
  "HandleKey k =
     (if k = kHandle then ''handle''
      else if k = kHandleMessagePipe then ''handle<message_pipe>''
      else if k = kHandleDataPipeConsumer then ''handle<data_pipe_consumer>''
      else if k = kHandleDataPipeProducer then ''handle<data_pipe_producer>''
      else if k = kHandleSharedBuffer then ''handle<shared_buffer>''
      else if k = kHandlePlatform then ''handle<platform>''
      else ''handle'')"

text \<open>The cases of the switch that do not recurse.\<close>

definition base_key :: "TypeKind \<Rightarrow> string \<Rightarrow> string \<Rightarrow> string \<Rightarrow> string" where
  "base_key k ns name container =
     (case k of
        kBool \<Rightarrow> ''bool'' | kInt8 \<Rightarrow> ''int8'' | kUint8 \<Rightarrow> ''uint8'' | kInt16 \<Rightarrow> ''int16'' | kUint16 \<Rightarrow> ''uint16''
      | kInt32 \<Rightarrow> ''int32'' | kUint32 \<Rightarrow> ''uint32'' | kInt64 \<Rightarrow> ''int64'' | kUint64 \<Rightarrow> ''uint64''
      | kFloat \<Rightarrow> ''float'' | kDouble \<Rightarrow> ''double'' | kString \<Rightarrow> ''string''
      | kEnumRef \<Rightarrow> ''enum:'' @ QualName ns (if container = [] then name else container @ ''.'' @ name)
      | kStructRef \<Rightarrow> ''struct:'' @ QualName ns name
      | kUnionRef \<Rightarrow> ''union:'' @ QualName ns name
      | kPendingRemote \<Rightarrow> ''pending_remote<'' @ QualName ns name @ ''>''
      | kPendingReceiver \<Rightarrow> ''pending_receiver<'' @ QualName ns name @ ''>''
      | kPendingAssociatedRemote \<Rightarrow> ''pending_associated_remote<'' @ QualName ns name @ ''>''
      | kPendingAssociatedReceiver \<Rightarrow> ''pending_associated_receiver<'' @ QualName ns name @ ''>''
      | _ \<Rightarrow> HandleKey k)"

text \<open>Arrays and maps have an element, maps a key (\<open>type_spec_ok\<close>, an invariant of the parser).\<close>

fun TypeKey :: "TypeSpec \<Rightarrow> string \<Rightarrow> string" where
  "TypeKey (TypeSpec k name element key nullable owner container sz) current_ns =
     (let ns = (if owner = [] then current_ns else owner);
          base =
            (if k = kArray
             then (case element of
                     Some e \<Rightarrow> (if 0 < sz then ''array<'' @ TypeKey e current_ns @ '','' @ show_nat sz @ ''>''
                                else ''array<'' @ TypeKey e current_ns @ ''>'')
                   | None \<Rightarrow> [])
             else if k = kMap
             then (case (key, element) of
                     (Some kt, Some e) \<Rightarrow> ''map<'' @ TypeKey kt current_ns @ '','' @ TypeKey e current_ns @ ''>''
                   | _ \<Rightarrow> [])
             else base_key k ns name container)
      in if nullable then base @ ''?'' else base)"

fun JoinParams :: "Param list \<Rightarrow> string \<Rightarrow> string" where
  "JoinParams [] ns = []"
| "JoinParams [p] ns = TypeKey (p_type p) ns"
| "JoinParams (p # ps) ns = TypeKey (p_type p) ns @ '','' @ JoinParams ps ns"

definition NamedKey :: "string \<Rightarrow> string \<Rightarrow> string \<Rightarrow> string" where
  "NamedKey ns name kind = kind @ '':'' @ QualName ns name"

definition MethodKey :: "string \<Rightarrow> string \<Rightarrow> Method \<Rightarrow> string" where
  "MethodKey ns iface m =
     ''func '' @ QualName ns iface @ ''.'' @ m_name m @ ''('' @ JoinParams (m_params m) ns @ '')'' @
     (if m_is_result_response m
      then ''->result<'' @ TypeKey (m_result_success m) ns @ '','' @ TypeKey (m_result_error m) ns @ ''>''
      else if m_has_response m then ''->('' @ JoinParams (m_response_params m) ns @ '')'' else [])"

subsection \<open>The table\<close>

record TypeIntern =
  by_key :: "string \<rightharpoonup> nat"
  keys :: "string list"

definition InternKey :: "TypeIntern \<Rightarrow> string \<Rightarrow> nat \<times> TypeIntern" where
  "InternKey t key =
     (case by_key t key of
        Some i \<Rightarrow> (i, t)
      | None \<Rightarrow> let i = u32 (length (keys t) + 1) in (i, t\<lparr>by_key := (by_key t)(key \<mapsto> i), keys := keys t @ [key]\<rparr>))"

definition Intern :: "TypeIntern \<Rightarrow> TypeSpec \<Rightarrow> string \<Rightarrow> nat \<times> TypeIntern" where
  "Intern t ty current_ns = InternKey t (TypeKey ty current_ns)"

definition InternNamed :: "TypeIntern \<Rightarrow> string \<Rightarrow> string \<Rightarrow> string \<Rightarrow> nat \<times> TypeIntern" where
  "InternNamed t ns name kind = InternKey t (NamedKey ns name kind)"

definition InternMethod :: "TypeIntern \<Rightarrow> string \<Rightarrow> string \<Rightarrow> Method \<Rightarrow> nat \<times> TypeIntern" where
  "InternMethod t ns iface m = InternKey t (MethodKey ns iface m)"

definition Identical :: "nat \<Rightarrow> nat \<Rightarrow> bool" where
  "Identical a b \<longleftrightarrow> a = b"

definition Key :: "TypeIntern \<Rightarrow> nat \<Rightarrow> string" where
  "Key t i = (if i = 0 \<or> length (keys t) < i then [] else keys t ! (i - 1))"

definition empty_intern :: TypeIntern where
  "empty_intern = \<lparr>by_key = Map.empty, keys = []\<rparr>"

subsection \<open>The contract of an interning table\<close>

text \<open>
  A table \<open>intern\<close> numbers keys and \<open>look\<close> reads a number back: a number once given keeps its
  key, equal keys get equal numbers, as long as the table has room.
\<close>

text \<open>The numbers of a list of keys, interned from left to right.\<close>

primrec intern_all :: "('t \<Rightarrow> 'k \<Rightarrow> nat \<times> 't) \<Rightarrow> 't \<Rightarrow> 'k list \<Rightarrow> nat list \<times> 't" where
  "intern_all f t [] = ([], t)"
| "intern_all f t (k # ks) =
     (let (i, t1) = f t k; (is, t2) = intern_all f t1 ks in (i # is, t2))"

lemma intern_all_map: "intern_all (\<lambda>t x. f t (g x)) t xs = intern_all f t (map g xs)"
  by (induction xs arbitrary: t) simp_all

lemma intern_all_length: "length (fst (intern_all f t ks)) = length ks"
  by (induction ks arbitrary: t) (simp_all add: case_prod_beta Let_def)

locale interner =
  fixes inv :: "'t \<Rightarrow> bool" and room :: "'t \<Rightarrow> nat" and intern :: "'t \<Rightarrow> 'k \<Rightarrow> nat \<times> 't" and look :: "'t \<Rightarrow> nat \<Rightarrow> 'k option"
  assumes inv_intern: "inv t \<Longrightarrow> 0 < room t \<Longrightarrow> inv (snd (intern t k))"
    and room_intern: "inv t \<Longrightarrow> 0 < room t \<Longrightarrow> room t \<le> Suc (room (snd (intern t k)))"
    and look_intern: "inv t \<Longrightarrow> 0 < room t \<Longrightarrow> look (snd (intern t k)) (fst (intern t k)) = Some k"
    and look_keeps: "inv t \<Longrightarrow> 0 < room t \<Longrightarrow> look t i = Some k' \<Longrightarrow> look (snd (intern t k)) i = Some k'"
    and intern_known: "inv t \<Longrightarrow> look t i = Some k \<Longrightarrow> intern t k = (i, t)"
begin

lemma intern_all_keeps:
  "inv t \<Longrightarrow> length ks \<le> room t \<Longrightarrow> look t i = Some k \<Longrightarrow> look (snd (intern_all intern t ks)) i = Some k"
proof (induction ks arbitrary: t)
  case (Cons a ks)
  have "inv (snd (intern t a))" "length ks \<le> room (snd (intern t a))" "look (snd (intern t a)) i = Some k"
    using Cons.prems inv_intern [of t a] room_intern [of t a] look_keeps [of t i k a] by simp_all
  from Cons.IH [OF this] show ?case by (simp add: Let_def case_prod_beta)
qed simp

lemma intern_all_look:
  "inv t \<Longrightarrow> length ks \<le> room t \<Longrightarrow> inv (snd (intern_all intern t ks)) \<and>
     list_all2 (\<lambda>i k. look (snd (intern_all intern t ks)) i = Some k) (fst (intern_all intern t ks)) ks"
proof (induction ks arbitrary: t)
  case (Cons a ks)
  let ?t = "snd (intern t a)"
  have t: "inv ?t" "length ks \<le> room ?t" "look ?t (fst (intern t a)) = Some a"
    using Cons.prems inv_intern [of t a] room_intern [of t a] look_intern [of t a] by simp_all
  from Cons.IH [OF t(1,2)] intern_all_keeps [OF t] show ?case by (simp add: Let_def case_prod_beta)
qed simp

lemma intern_all_identical:
  assumes "inv t" "length ks \<le> room t" "i < length ks" "j < length ks"
  shows "fst (intern_all intern t ks) ! i = fst (intern_all intern t ks) ! j \<longleftrightarrow> ks ! i = ks ! j"
proof -
  from intern_all_look [OF assms(1,2)] have inv: "inv (snd (intern_all intern t ks))"
    and l: "look (snd (intern_all intern t ks)) (fst (intern_all intern t ks) ! n) = Some (ks ! n)" if "n < length ks" for n
    using that by (auto simp: list_all2_conv_all_nth)
  show ?thesis
    using l [OF assms(3)] l [OF assms(4)] intern_known [OF inv [OF assms(3)] l [OF assms(3)]]
      intern_known [OF inv [OF assms(3)] l [OF assms(4)]] by auto
qed

end

definition intern_inv :: "TypeIntern \<Rightarrow> bool" where
  "intern_inv t \<longleftrightarrow> length (keys t) < 2 ^ 32 \<and> distinct (keys t) \<and>
     (\<forall>k i. by_key t k = Some i \<longleftrightarrow> 0 < i \<and> i \<le> length (keys t) \<and> keys t ! (i - 1) = k)"

definition intern_room :: "TypeIntern \<Rightarrow> nat" where
  "intern_room t = 2 ^ 32 - 1 - length (keys t)"

definition intern_look :: "TypeIntern \<Rightarrow> nat \<Rightarrow> string option" where
  "intern_look t i = (if 0 < i \<and> i \<le> length (keys t) then Some (Key t i) else None)"

lemma intern_inv_empty: "intern_inv empty_intern"
  by (auto simp: intern_inv_def empty_intern_def)

lemma InternKey_new:
  assumes "intern_inv t" "0 < intern_room t" "by_key t k = None"
  shows "InternKey t k = (Suc (length (keys t)), t\<lparr>by_key := (by_key t)(k \<mapsto> Suc (length (keys t))), keys := keys t @ [k]\<rparr>)"
    "k \<notin> set (keys t)"
proof -
  show "InternKey t k = (Suc (length (keys t)), t\<lparr>by_key := (by_key t)(k \<mapsto> Suc (length (keys t))), keys := keys t @ [k]\<rparr>)"
    using assms(2,3) by (simp add: InternKey_def intern_room_def u32_def)
  show "k \<notin> set (keys t)"
  proof
    assume "k \<in> set (keys t)"
    then obtain i where "i < length (keys t)" "keys t ! i = k" by (auto simp: in_set_conv_nth)
    then have "by_key t k = Some (Suc i)" using assms(1) by (simp add: intern_inv_def)
    with assms(3) show False by simp
  qed
qed

lemma InternKey_known: "intern_inv t \<Longrightarrow> intern_look t i = Some k \<Longrightarrow> InternKey t k = (i, t)"
proof -
  assume inv: "intern_inv t" and "intern_look t i = Some k"
  then have "by_key t k = Some i" by (auto simp: intern_inv_def intern_look_def Key_def split: if_splits)
  then show ?thesis by (simp add: InternKey_def)
qed

lemma InternKey_inv:
  assumes "intern_inv t" "0 < intern_room t"
  shows "intern_inv (snd (InternKey t k))"
proof (cases "by_key t k")
  case None
  note new = InternKey_new [OF assms None]
  have "by_key t k' = Some i \<longleftrightarrow> 0 < i \<and> i \<le> length (keys t) \<and> keys t ! (i - 1) = k'" for k' i
    using assms(1) by (simp add: intern_inv_def)
  moreover have "length (keys t) + 1 < 2 ^ 32" using assms(2) by (simp add: intern_room_def)
  ultimately show ?thesis
    using assms(1) new(2) by (auto simp: intern_inv_def new(1) nth_append le_Suc_eq)
qed (use assms in \<open>simp add: InternKey_def\<close>)

lemma InternKey_look:
  assumes "intern_inv t" "0 < intern_room t"
  shows "intern_look (snd (InternKey t k)) (fst (InternKey t k)) = Some k"
    "intern_look t i = Some k' \<Longrightarrow> intern_look (snd (InternKey t k)) i = Some k'"
    "intern_room t \<le> Suc (intern_room (snd (InternKey t k)))"
proof -
  show "intern_look (snd (InternKey t k)) (fst (InternKey t k)) = Some k"
  proof (cases "by_key t k")
    case None
    show ?thesis unfolding InternKey_new(1) [OF assms None] by (simp add: intern_look_def Key_def)
  next
    case (Some i)
    then have "0 < i \<and> i \<le> length (keys t) \<and> keys t ! (i - 1) = k" using assms(1) by (simp add: intern_inv_def)
    with Some show ?thesis by (simp add: InternKey_def intern_look_def Key_def)
  qed
  show "intern_look (snd (InternKey t k)) i = Some k'" if "intern_look t i = Some k'"
    using that by (auto simp: InternKey_def intern_look_def Key_def Let_def nth_append split: option.splits if_splits)
  show "intern_room t \<le> Suc (intern_room (snd (InternKey t k)))"
    by (cases "by_key t k") (auto simp: InternKey_def intern_room_def Let_def)
qed

interpretation type_intern: interner intern_inv intern_room InternKey intern_look
  by unfold_locales (simp_all add: InternKey_inv InternKey_look InternKey_known)

subsection \<open>Keys determine types\<close>

definition named_kind :: "TypeKind \<Rightarrow> bool" where
  "named_kind k \<longleftrightarrow> k \<in> {kEnumRef, kStructRef, kUnionRef, kPendingRemote, kPendingReceiver,
     kPendingAssociatedRemote, kPendingAssociatedReceiver}"

text \<open>A type with its namespace resolved and the fields that its kind does not use cleared.\<close>

fun canon :: "string \<Rightarrow> TypeSpec \<Rightarrow> TypeSpec" where
  "canon ns (TypeSpec k name element key nullable owner container sz) =
     TypeSpec k (if named_kind k then name else [])
       (if k = kArray \<or> k = kMap then (case element of Some e \<Rightarrow> Some (canon ns e) | None \<Rightarrow> None) else None)
       (if k = kMap then (case key of Some kt \<Rightarrow> Some (canon ns kt) | None \<Rightarrow> None) else None)
       nullable (if named_kind k then (if owner = [] then ns else owner) else []) []
       (if k = kArray then sz else 0)"

text \<open>Types with names of the language and no reference to a nested declaration.\<close>

definition qual_char :: "char \<Rightarrow> bool" where
  "qual_char c \<longleftrightarrow> IsNameCont c \<or> c = CHR ''.''"

fun plain_type :: "TypeSpec \<Rightarrow> bool" where
  "plain_type (TypeSpec k name element key nullable owner container sz) \<longleftrightarrow>
     (if k = kArray then (case element of Some e \<Rightarrow> plain_type e | None \<Rightarrow> False)
      else if k = kMap
      then (case element of Some e \<Rightarrow> plain_type e | None \<Rightarrow> False) \<and> (case key of Some kt \<Rightarrow> plain_type kt | None \<Rightarrow> False)
      else named_kind k \<longrightarrow> list_all IsNameCont name \<and> list_all qual_char owner \<and> container = [])"

text \<open>What may follow a key inside another key.\<close>

definition key_stop :: "string \<Rightarrow> bool" where
  "key_stop r \<longleftrightarrow> r = [] \<or> hd r = CHR '','' \<or> hd r = CHR ''>''"

definition opt_mark :: "bool \<Rightarrow> string" where
  "opt_mark b = (if b then ''?'' else [])"

lemma not_name_chars [simp]:
  "\<not> IsNameCont CHR '':''" "\<not> IsNameCont CHR ''<''" "\<not> IsNameCont CHR ''>''" "\<not> IsNameCont CHR '',''"
  "\<not> IsNameCont CHR ''?''" "\<not> IsNameCont CHR ''.''"
  by (simp_all add: IsNameCont_def isalpha_def isdigit_def)

lemma not_qual_chars [simp]: "\<not> qual_char CHR ''>''" "\<not> qual_char CHR '',''" "\<not> qual_char CHR ''?''"
  by (simp_all add: qual_char_def)

lemma opt_unique: "key_stop r \<Longrightarrow> key_stop r' \<Longrightarrow> opt_mark b @ r = opt_mark b' @ r' \<Longrightarrow> b = b' \<and> r = r'"
  by (cases r; cases r'; cases b; cases b') (auto simp: opt_mark_def key_stop_def)

lemma opt_stop_not: "key_stop r \<Longrightarrow> (\<And>c. P c \<Longrightarrow> c \<noteq> CHR ''?'' \<and> c \<noteq> CHR '','' \<and> c \<noteq> CHR ''>'') \<Longrightarrow>
    takeWhile P (opt_mark b @ r) = []"
  by (cases r; cases b) (auto simp: opt_mark_def key_stop_def)

lemma opt_stop_hd: "key_stop r \<Longrightarrow> opt_mark b @ r = c # s \<Longrightarrow> c = CHR ''?'' \<or> c = CHR '','' \<or> c = CHR ''>''"
  by (cases r; cases b) (auto simp: opt_mark_def key_stop_def)

lemma takeWhile_prefix: "list_all P a \<Longrightarrow> takeWhile P b = [] \<Longrightarrow> takeWhile P (a @ b) = a"
  by (simp add: list_all_iff)

lemma split_prefix:
  assumes "a @ r = a' @ r'" "list_all P a" "list_all P a'" "takeWhile P r = []" "takeWhile P r' = []"
  shows "a = a' \<and> r = r'"
  using takeWhile_prefix [OF assms(2,4)] takeWhile_prefix [OF assms(3,5)] assms(1) by auto

lemma QualName_unique:
  assumes "QualName ns n = QualName ns' n'" "list_all IsNameCont n" "list_all IsNameCont n'"
  shows "ns = ns' \<and> n = n'"
proof -
  have dot: "CHR ''.'' \<notin> set n" "CHR ''.'' \<notin> set n'" using assms(2,3) by (auto simp: list_all_iff)
  have split: "x @ CHR ''.'' # n = y @ CHR ''.'' # n' \<Longrightarrow> x = y \<and> n = n'" for x y
    using dot by (simp add: append_eq_append_conv2) (auto simp: Cons_eq_append_conv append_eq_Cons_conv)
  show ?thesis using assms(1) dot split [of ns ns'] by (auto simp: QualName_def split: if_splits)
qed

lemma QualName_chars: "list_all qual_char ns \<Longrightarrow> list_all IsNameCont n \<Longrightarrow> list_all qual_char (QualName ns n)"
  by (auto simp: QualName_def list_all_iff qual_char_def)

lemma qual_unique:
  assumes "QualName ns n @ r = QualName ns' n' @ r'" "list_all qual_char ns" "list_all qual_char ns'"
    "list_all IsNameCont n" "list_all IsNameCont n'" "takeWhile qual_char r = []" "takeWhile qual_char r' = []"
  shows "ns = ns' \<and> n = n' \<and> r = r'"
  using split_prefix [OF assms(1) QualName_chars [OF assms(2,4)] QualName_chars [OF assms(3,5)] assms(6,7)]
    QualName_unique [OF _ assms(4,5)] by blast

text \<open>The key of a type: a word that gives its kind (but for the kinds of handles), then the rest.\<close>

definition handle_kind :: "TypeKind \<Rightarrow> bool" where
  "handle_kind k \<longleftrightarrow> k \<in> {kHandle, kHandleMessagePipe, kHandleDataPipeConsumer, kHandleDataPipeProducer,
     kHandleSharedBuffer, kHandlePlatform}"

definition kind_word :: "TypeKind \<Rightarrow> string" where
  "kind_word k =
     (case k of
        kBool \<Rightarrow> ''bool'' | kInt8 \<Rightarrow> ''int8'' | kUint8 \<Rightarrow> ''uint8'' | kInt16 \<Rightarrow> ''int16'' | kUint16 \<Rightarrow> ''uint16''
      | kInt32 \<Rightarrow> ''int32'' | kUint32 \<Rightarrow> ''uint32'' | kInt64 \<Rightarrow> ''int64'' | kUint64 \<Rightarrow> ''uint64''
      | kFloat \<Rightarrow> ''float'' | kDouble \<Rightarrow> ''double'' | kString \<Rightarrow> ''string''
      | kEnumRef \<Rightarrow> ''enum'' | kStructRef \<Rightarrow> ''struct'' | kUnionRef \<Rightarrow> ''union'' | kArray \<Rightarrow> ''array'' | kMap \<Rightarrow> ''map''
      | kPendingRemote \<Rightarrow> ''pending_remote'' | kPendingReceiver \<Rightarrow> ''pending_receiver''
      | kPendingAssociatedRemote \<Rightarrow> ''pending_associated_remote''
      | kPendingAssociatedReceiver \<Rightarrow> ''pending_associated_receiver'' | _ \<Rightarrow> ''handle'')"

fun key_rest :: "TypeSpec \<Rightarrow> string \<Rightarrow> string" where
  "key_rest (TypeSpec k name element key nullable owner container sz) ns =
     (if k = kArray
      then (case element of
              Some e \<Rightarrow> ''<'' @ TypeKey e ns @ (if 0 < sz then '','' @ show_nat sz else []) @ ''>'' | None \<Rightarrow> [])
      else if k = kMap
      then (case (key, element) of (Some kt, Some e) \<Rightarrow> ''<'' @ TypeKey kt ns @ '','' @ TypeKey e ns @ ''>'' | _ \<Rightarrow> [])
      else if k = kEnumRef \<or> k = kStructRef \<or> k = kUnionRef
      then '':'' @ QualName (if owner = [] then ns else owner) name
      else if named_kind k then ''<'' @ QualName (if owner = [] then ns else owner) name @ ''>''
      else if handle_kind k then drop 6 (HandleKey k)
      else [])"

lemma TypeKey_split:
  "plain_type (TypeSpec k name element key nullable owner container sz) \<Longrightarrow>
   TypeKey (TypeSpec k name element key nullable owner container sz) ns =
     kind_word k @ key_rest (TypeSpec k name element key nullable owner container sz) ns @ opt_mark nullable"
  by (cases k) (auto simp: kind_word_def base_key_def HandleKey_def named_kind_def handle_kind_def opt_mark_def Let_def
      split: option.splits)

lemma kind_word_chars: "list_all IsNameCont (kind_word k)"
  by (cases k) (simp_all add: kind_word_def IsNameCont_def isalpha_def isdigit_def)

lemma key_rest_stop: "plain_type t \<Longrightarrow> key_stop r \<Longrightarrow> takeWhile IsNameCont (key_rest t ns @ opt_mark b @ r) = []"
proof -
  assume t: "plain_type t" and r: "key_stop r"
  have "key_rest t ns = [] \<or> hd (key_rest t ns) \<in> {CHR ''<'', CHR '':''}"
    by (cases t) (auto simp: HandleKey_def handle_kind_def split: option.splits)
  moreover have "takeWhile IsNameCont (opt_mark b @ r) = []"
    using r by (intro opt_stop_not) auto
  ultimately show ?thesis by (cases "key_rest t ns") auto
qed

lemma kind_word_unique: "kind_word k = kind_word k' \<Longrightarrow> k = k' \<or> (handle_kind k \<and> handle_kind k')"
  by (cases k) (cases k', simp_all add: kind_word_def handle_kind_def)+

lemma opt_stop_lt: "key_stop r \<Longrightarrow> opt_mark b @ r \<noteq> CHR ''<'' # s" "key_stop r \<Longrightarrow> CHR ''<'' # s \<noteq> opt_mark b @ r"
  using opt_stop_hd [of r b "CHR ''<''" s] by auto

definition handle_sub :: "TypeKind \<Rightarrow> string" where
  "handle_sub k = takeWhile IsNameCont (drop 7 (HandleKey k))"

lemma handle_subs:
  "handle_sub kHandleMessagePipe = ''message_pipe''" "handle_sub kHandleDataPipeConsumer = ''data_pipe_consumer''"
  "handle_sub kHandleDataPipeProducer = ''data_pipe_producer''" "handle_sub kHandleSharedBuffer = ''shared_buffer''"
  "handle_sub kHandlePlatform = ''platform''"
  by (simp_all add: handle_sub_def HandleKey_def IsNameCont_def isalpha_def isdigit_def)

lemma HandleKey_sub: "handle_kind k \<Longrightarrow> k \<noteq> kHandle \<Longrightarrow> drop 6 (HandleKey k) = CHR ''<'' # handle_sub k @ ''>''"
  by (auto simp: handle_kind_def HandleKey_def handle_subs)

lemma handle_sub_inj:
  "handle_kind k \<Longrightarrow> k \<noteq> kHandle \<Longrightarrow> handle_kind k' \<Longrightarrow> k' \<noteq> kHandle \<Longrightarrow> handle_sub k = handle_sub k' \<Longrightarrow> k = k'"
  by (auto simp: handle_kind_def handle_subs)

lemma handle_sub_chars: "list_all IsNameCont (handle_sub k)"
  by (auto simp: handle_sub_def list_all_iff dest: set_takeWhileD)

lemma handle_suffix_unique:
  assumes k: "handle_kind k" "handle_kind k'" and eq: "drop 6 (HandleKey k) @ x = drop 6 (HandleKey k') @ y"
    and lt: "\<And>s. x \<noteq> CHR ''<'' # s" "\<And>s. y \<noteq> CHR ''<'' # s"
  shows "k = k'"
proof (cases "k = kHandle \<or> k' = kHandle")
  case True
  have "drop 6 (HandleKey kHandle) = []" by (simp add: HandleKey_def)
  then show ?thesis using True eq lt HandleKey_sub [OF k(1)] HandleKey_sub [OF k(2)]
    by (cases "k = kHandle"; cases "k' = kHandle") auto
next
  case False
  then have "handle_sub k @ CHR ''>'' # x = handle_sub k' @ CHR ''>'' # y"
    using eq HandleKey_sub [OF k(1)] HandleKey_sub [OF k(2)] by simp
  from split_prefix [OF this handle_sub_chars handle_sub_chars] have "handle_sub k = handle_sub k'" by simp
  then show ?thesis using handle_sub_inj k False by blast
qed

lemma handle_unique:
  assumes "handle_kind k" "handle_kind k'" "key_stop r" "key_stop r'"
    "drop 6 (HandleKey k) @ opt_mark b @ r = drop 6 (HandleKey k') @ opt_mark b' @ r'"
  shows "k = k'"
  by (rule handle_suffix_unique [OF assms(1,2,5)]) (simp_all only: opt_stop_lt [OF assms(3)] opt_stop_lt [OF assms(4)] not_False_eq_True)

lemma show_nat_unique:
  assumes "show_nat n @ CHR ''>'' # r = show_nat m @ CHR ''>'' # r'"
  shows "n = m \<and> r = r'"
proof -
  have "list_all isdigit (show_nat i)" for i
  proof (induction i rule: show_nat.induct)
    case (1 i)
    have "isdigit (char_of (48 + d))" if "d < 10" for d :: nat using that by (simp add: isdigit_def)
    then show ?case using 1 by (subst show_nat.simps) simp
  qed
  then have "show_nat n = show_nat m \<and> CHR ''>'' # r = CHR ''>'' # r'"
    using assms by (intro split_prefix [where P = isdigit]) (simp_all add: isdigit_def)
  then have "number_value 10 (show_nat n) = number_value 10 (show_nat m)" "r = r'" by (simp_all only: list.inject)
  then show ?thesis by (simp only: number_value_show)
qed

lemma size_unique:
  assumes "(if 0 < n then CHR '','' # show_nat n else []) @ CHR ''>'' # r =
    (if 0 < m then CHR '','' # show_nat m else []) @ CHR ''>'' # r'"
  shows "n = m \<and> r = r'"
proof (cases "0 < n \<and> 0 < m")
  case True
  then have "show_nat n @ CHR ''>'' # r = show_nat m @ CHR ''>'' # r'" using assms by simp
  then show ?thesis by (rule show_nat_unique)
next
  case False
  then show ?thesis using assms by (cases "0 < n"; cases "0 < m") simp_all
qed

lemma qual_rest:
  "plain_type (TypeSpec k n e ky nl owner c sz) \<Longrightarrow> named_kind k \<Longrightarrow> list_all qual_char ns \<Longrightarrow>
     list_all IsNameCont n \<and> list_all qual_char (if owner = [] then ns else owner)"
  by (auto simp: named_kind_def)

lemma key_rest_kinds:
  "handle_kind k \<Longrightarrow> key_rest (TypeSpec k n e ky nl owner c sz) ns = drop 6 (HandleKey k)"
  "named_kind k \<Longrightarrow> key_rest (TypeSpec k n e ky nl owner c sz) ns =
     (if k \<in> {kEnumRef, kStructRef, kUnionRef} then CHR '':'' # QualName (if owner = [] then ns else owner) n
      else CHR ''<'' # QualName (if owner = [] then ns else owner) n @ ''>'')"
  by (auto simp: handle_kind_def named_kind_def)

lemma key_unique:
  "plain_type t \<Longrightarrow> plain_type t' \<Longrightarrow> list_all qual_char ns \<Longrightarrow> key_stop r \<Longrightarrow> key_stop r' \<Longrightarrow>
     TypeKey t ns @ r = TypeKey t' ns @ r' \<Longrightarrow> canon ns t = canon ns t' \<and> r = r'"
proof (induction t ns arbitrary: t' r r' rule: TypeKey.induct)
  case (1 k n e ky nl owner c sz ns)
  let ?t = "TypeSpec k n e ky nl owner c sz"
  obtain k' n' e' ky' nl' owner' c' sz' where t': "t' = TypeSpec k' n' e' ky' nl' owner' c' sz'" by (cases t')
  note plain = "1.prems"(1) "1.prems"(2) [unfolded t'] and ns = "1.prems"(3) and stop = "1.prems"(4,5)
  let ?o = "opt_mark nl @ r" and ?o' = "opt_mark nl' @ r'"
  have "kind_word k @ key_rest ?t ns @ ?o = kind_word k' @ key_rest t' ns @ ?o'"
    using "1.prems"(6) TypeKey_split [OF plain(1), of ns] TypeKey_split [OF plain(2), of ns] unfolding t' by (simp only: append_assoc)
  from split_prefix [OF this kind_word_chars kind_word_chars key_rest_stop key_rest_stop, OF plain(1) stop(1) plain(2) [folded t'] stop(2)]
  have word: "kind_word k = kind_word k'" and rest: "key_rest ?t ns @ ?o = key_rest t' ns @ ?o'" by blast+
  have done': "canon ns ?t = canon ns t' \<and> r = r'" if "?o = ?o'" "nl = nl' \<Longrightarrow> canon ns ?t = canon ns t'"
    using opt_unique [OF stop that(1)] that(2) by blast
  from kind_word_unique [OF word] have kk: "k = k'"
  proof
    assume h: "handle_kind k \<and> handle_kind k'"
    show "k = k'"
      using rest h unfolding t' by (intro handle_unique [OF _ _ stop, of k k' nl nl']) (simp_all only: key_rest_kinds)
  qed
  have stops: "key_stop (CHR '','' # s)" "key_stop (CHR ''>'' # s)" for s by (simp_all add: key_stop_def)
  consider "k = kArray" | "k = kMap" | "named_kind k" | "\<not> named_kind k" "k \<noteq> kArray" "k \<noteq> kMap" by blast
  then show ?case
  proof cases
    case 1
    then obtain x x' where x: "e = Some x" "e' = Some x'" "plain_type x" "plain_type x'"
      using plain kk by (auto split: option.splits)
    let ?n = "(if 0 < sz then CHR '','' # show_nat sz else []) @ CHR ''>'' # ?o"
    let ?n' = "(if 0 < sz' then CHR '','' # show_nat sz' else []) @ CHR ''>'' # ?o'"
    have "TypeKey x ns @ ?n = TypeKey x' ns @ ?n'" using rest 1 kk x by (simp add: t' split: if_splits)
    moreover have "key_stop ?n" "key_stop ?n'" by (simp_all add: key_stop_def)
    ultimately have IH: "canon ns x = canon ns x'" "?n = ?n'"
      using "1.IH"(1) [OF refl 1 x(1) _ x(3,4) ns] "1.IH"(2) [OF refl 1 x(1) _ x(3,4) ns] by blast+
    note size_unique [OF IH(2)]
    then show ?thesis using IH(1) 1 kk x by (intro done') (simp_all add: t' named_kind_def)
  next
    case 2
    then obtain x x' y y' where x: "e = Some x" "e' = Some x'" "plain_type x" "plain_type x'"
      "ky = Some y" "ky' = Some y'" "plain_type y" "plain_type y'"
      using plain kk by (auto split: option.splits)
    have "TypeKey y ns @ CHR '','' # TypeKey x ns @ CHR ''>'' # ?o = TypeKey y' ns @ CHR '','' # TypeKey x' ns @ CHR ''>'' # ?o'"
      using rest 2 kk x by (simp add: t')
    then have y: "canon ns y = canon ns y'" "TypeKey x ns @ CHR ''>'' # ?o = TypeKey x' ns @ CHR ''>'' # ?o'"
      using "1.IH"(3) [OF refl _ 2 refl x(5,1,7,8) ns stops(1) stops(1)] 2 by simp_all
    then have "canon ns x = canon ns x'" "?o = ?o'"
      using "1.IH"(4) [OF refl _ 2 refl x(5,1,3,4) ns stops(2) stops(2)] 2 by simp_all
    then show ?thesis using y(1) 2 kk x by (intro done') (simp_all add: t' named_kind_def)
  next
    case 3
    note q = qual_rest [OF plain(1) 3 ns] qual_rest [OF plain(2) 3 [unfolded kk] ns]
    let ?ns = "if owner = [] then ns else owner" and ?ns' = "if owner' = [] then ns else owner'"
    have tw: "takeWhile qual_char ?o = []" "takeWhile qual_char ?o' = []"
      using stop by (auto intro!: opt_stop_not simp: qual_char_def)
    have "QualName ?ns n @ ?o = QualName ?ns' n' @ ?o' \<or> QualName ?ns n @ CHR ''>'' # ?o = QualName ?ns' n' @ CHR ''>'' # ?o'"
      using rest 3 unfolding t' kk [symmetric] key_rest_kinds(2) [OF 3] by (simp split: if_splits)
    then have "?ns = ?ns' \<and> n = n' \<and> ?o = ?o'"
    proof
      assume "QualName ?ns n @ ?o = QualName ?ns' n' @ ?o'"
      then show ?thesis using qual_unique q tw by blast
    next
      assume "QualName ?ns n @ CHR ''>'' # ?o = QualName ?ns' n' @ CHR ''>'' # ?o'"
      from qual_unique [OF this] q show ?thesis by simp
    qed
    then show ?thesis using 3 kk by (intro done') (simp_all add: t', auto simp: named_kind_def)
  next
    case 4
    have "?o = ?o'" using rest 4 kk by (auto simp: t' named_kind_def)
    then show ?thesis using 4 kk by (intro done') (simp_all add: t')
  qed
qed

lemma base_key_unnamed: "\<not> named_kind k \<Longrightarrow> base_key k ns n c = base_key k ns' n' c'"
  by (cases k) (simp_all add: base_key_def named_kind_def)

lemma TypeKey_canon: "plain_type t \<Longrightarrow> TypeKey (canon ns t) ns = TypeKey t ns"
proof (induction t ns rule: TypeKey.induct)
  case (1 k n e ky nl owner c sz ns)
  consider "k = kArray" | "k = kMap" | "k \<noteq> kArray" "k \<noteq> kMap" by blast
  then show ?case
  proof cases
    case 3
    show ?thesis
    proof (cases "named_kind k")
      case True
      then show ?thesis using "1.prems" 3 by (simp add: Let_def)
    next
      case False
      then show ?thesis using 3 base_key_unnamed [OF False, of ns "[]" "[]" _ n c] by (simp add: Let_def)
    qed
  qed (use 1 in \<open>auto simp: named_kind_def Let_def split: option.splits\<close>)
qed

lemma TypeKey_eq_iff:
  assumes "plain_type t" "plain_type t'" "list_all qual_char ns"
  shows "TypeKey t ns = TypeKey t' ns \<longleftrightarrow> canon ns t = canon ns t'"
  using key_unique [OF assms, of "[]" "[]"] TypeKey_canon [OF assms(1), of ns] TypeKey_canon [OF assms(2), of ns]
  by (auto simp: key_stop_def)

end
