(* ===== verification/Intern_Properties.thy ===== *)
theory Intern_Properties
  imports Type_Intern
begin

text \<open>
  The properties of the table of interned types.
\<close>

lemma nested_structs_collide:
  "c \<noteq> c' \<Longrightarrow> EmbedDeclKey c n \<noteq> EmbedDeclKey c' n \<Longrightarrow>
     fst (Intern t (named_type kStructRef n [] c) ns) = fst (Intern t (named_type kStructRef n [] c') ns)"
  by (simp add: Intern_def named_type_def base_key_def)

text \<open>C22.  The numbers of interned types are exact: when types that name no nested declaration are
  interned one after another, in any order and with any repetitions, two of them get the same
  number if and only if they are the same type with their namespaces resolved; the number of
  each is between one and the number of types, and reads back the key of its type.\<close>

theorem interned_types_exact:
  assumes "list_all plain_type tys" "list_all qual_char ns" "length tys < 2 ^ 32"
    "intern_all (\<lambda>t ty. Intern t ty ns) empty_intern tys = (ids, t')"
  shows "length ids = length tys \<and>
    (\<forall>i < length tys. \<forall>j < length tys. Identical (ids ! i) (ids ! j) \<longleftrightarrow> canon ns (tys ! i) = canon ns (tys ! j)) \<and>
    (\<forall>i < length tys. 0 < ids ! i \<and> ids ! i \<le> length (keys t') \<and> Key t' (ids ! i) = TypeKey (tys ! i) ns)"
proof -
  let ?ks = "map (\<lambda>ty. TypeKey ty ns) tys"
  have all: "intern_all InternKey empty_intern ?ks = (ids, t')"
    using assms(4) intern_all_map [of InternKey "\<lambda>ty. TypeKey ty ns" empty_intern tys] by (simp add: Intern_def)
  have room: "length ?ks \<le> intern_room empty_intern" using assms(3) by (simp add: intern_room_def empty_intern_def)
  have "ids ! i = ids ! j \<longleftrightarrow> TypeKey (tys ! i) ns = TypeKey (tys ! j) ns" if "i < length tys" "j < length tys" for i j
    using type_intern.intern_all_identical [OF intern_inv_empty room, of i j] that all by simp
  moreover have "TypeKey (tys ! i) ns = TypeKey (tys ! j) ns \<longleftrightarrow> canon ns (tys ! i) = canon ns (tys ! j)"
    if "i < length tys" "j < length tys" for i j
    using that assms(1,2) by (intro TypeKey_eq_iff) (auto simp: list_all_length)
  moreover have "0 < ids ! i \<and> ids ! i \<le> length (keys t') \<and> Key t' (ids ! i) = TypeKey (tys ! i) ns"
    if "i < length tys" for i
  proof -
    have "intern_look t' (ids ! i) = Some (TypeKey (tys ! i) ns)"
      using type_intern.intern_all_look [OF intern_inv_empty room] that all by (auto simp: list_all2_conv_all_nth)
    then show ?thesis by (simp add: intern_look_def split: if_splits)
  qed
  moreover have "length ids = length tys" using intern_all_length [of InternKey empty_intern ?ks] all by simp
  ultimately show ?thesis by (simp add: Identical_def)
qed

theorem interned_types_exact_witness:
  "\<exists>ids t'. intern_all (\<lambda>t ty. Intern t ty ''m'') empty_intern
       [simple_type kInt8, named_type kStructRef ''S'' [] [], named_type kStructRef ''S'' ''m'' [],
        named_type kStructRef ''S'' ''x.y'' []] = (ids, t') \<and> ids = [1, 2, 2, 3] \<and>
     Identical (ids ! 1) (ids ! 2) \<and> \<not> Identical (ids ! 2) (ids ! 3) \<and> Key t' (ids ! 3) = ''struct:x.y.S''"
proof -
  let ?tys = "[simple_type kInt8, named_type kStructRef ''S'' [] [], named_type kStructRef ''S'' ''m'' [],
        named_type kStructRef ''S'' ''x.y'' []]"
  have eval: "fst (intern_all (\<lambda>t ty. Intern t ty ''m'') empty_intern ?tys) = [1, 2, 2, 3]"
    by (simp add: Intern_def InternKey_def empty_intern_def u32_def simple_type_def named_type_def base_key_def QualName_def)
  obtain ids t' where r: "intern_all (\<lambda>t ty. Intern t ty ''m'') empty_intern ?tys = (ids, t')" by fastforce
  have "list_all plain_type ?tys" "list_all qual_char ''m''" by code_simp+
  from interned_types_exact [OF this _ r] have
    "Identical (ids ! 1) (ids ! 2) \<longleftrightarrow> canon ''m'' (?tys ! 1) = canon ''m'' (?tys ! 2)"
    "Identical (ids ! 2) (ids ! 3) \<longleftrightarrow> canon ''m'' (?tys ! 2) = canon ''m'' (?tys ! 3)"
    "Key t' (ids ! 3) = TypeKey (?tys ! 3) ''m''" by simp_all
  moreover have "canon ''m'' (?tys ! 1) = canon ''m'' (?tys ! 2)" "canon ''m'' (?tys ! 2) \<noteq> canon ''m'' (?tys ! 3)"
    "TypeKey (?tys ! 3) ''m'' = ''struct:x.y.S''" by code_simp+
  ultimately show ?thesis using r eval by (intro exI [of _ ids] exI [of _ t']) simp
qed

end
