(* ===== verification/Mojovm_Hash.thy ===== *)
theory Mojovm_Hash
  imports Voodoo_Prelude
begin

text \<open>
  The hashes of \<open>src/mojovm.cc\<close>: the 32-bit FNV-1a ordinal and SHA-256, on 32-bit words.  The
  reference definition of SHA-256 pads the whole message first and then folds the compression
  function over its blocks of 64 bytes; the code works through the message block by block and
  builds the last one or two blocks from what remains.
\<close>

type_synonym uint32 = "32 word"

subsection \<open>FNV-1a\<close>

definition fnv_step :: "uint32 \<Rightarrow> byte \<Rightarrow> uint32" where
  "fnv_step h c = (h XOR ucast c) * 16777619"

definition FnvOrdinal :: "byte list \<Rightarrow> uint32" where
  "FnvOrdinal s =
     (let h = foldl fnv_step 2166136261 s;
          h = h AND 0x7fffffff
      in if h = 0 then 1 else h)"

subsection \<open>SHA-256\<close>

definition Rotr :: "uint32 \<Rightarrow> nat \<Rightarrow> uint32" where
  "Rotr x n = drop_bit n x OR push_bit (32 - n) x"

definition sha_k :: "uint32 list" where
  "sha_k =
     [0x428a2f98, 0x71374491, 0xb5c0fbcf, 0xe9b5dba5, 0x3956c25b, 0x59f111f1] @
     [0x923f82a4, 0xab1c5ed5, 0xd807aa98, 0x12835b01, 0x243185be, 0x550c7dc3] @
     [0x72be5d74, 0x80deb1fe, 0x9bdc06a7, 0xc19bf174, 0xe49b69c1, 0xefbe4786] @
     [0x0fc19dc6, 0x240ca1cc, 0x2de92c6f, 0x4a7484aa, 0x5cb0a9dc, 0x76f988da] @
     [0x983e5152, 0xa831c66d, 0xb00327c8, 0xbf597fc7, 0xc6e00bf3, 0xd5a79147] @
     [0x06ca6351, 0x14292967, 0x27b70a85, 0x2e1b2138, 0x4d2c6dfc, 0x53380d13] @
     [0x650a7354, 0x766a0abb, 0x81c2c92e, 0x92722c85, 0xa2bfe8a1, 0xa81a664b] @
     [0xc24b8b70, 0xc76c51a3, 0xd192e819, 0xd6990624, 0xf40e3585, 0x106aa070] @
     [0x19a4c116, 0x1e376c08, 0x2748774c, 0x34b0bcb5, 0x391c0cb3, 0x4ed8aa4a] @
     [0x5b9cca4f, 0x682e6ff3, 0x748f82ee, 0x78a5636f, 0x84c87814, 0x8cc70208] @
     [0x90befffa, 0xa4506ceb, 0xbef9a3f7, 0xc67178f2]"

text \<open>The big-endian word of four bytes of the block.\<close>

definition block_word :: "byte list \<Rightarrow> nat \<Rightarrow> uint32" where
  "block_word block i =
     push_bit 24 (ucast (block ! (i * 4))) OR push_bit 16 (ucast (block ! (i * 4 + 1))) OR
     push_bit 8 (ucast (block ! (i * 4 + 2))) OR ucast (block ! (i * 4 + 3))"

text \<open>\<open>w[i]\<close> for \<open>i\<close> from 16 on, from the words before it.\<close>

definition next_w :: "uint32 list \<Rightarrow> nat \<Rightarrow> uint32" where
  "next_w w i =
     (let s0 = Rotr (w ! (i - 15)) 7 XOR Rotr (w ! (i - 15)) 18 XOR drop_bit 3 (w ! (i - 15));
          s1 = Rotr (w ! (i - 2)) 17 XOR Rotr (w ! (i - 2)) 19 XOR drop_bit 10 (w ! (i - 2))
      in w ! (i - 16) + s0 + w ! (i - 7) + s1)"

definition message_schedule :: "byte list \<Rightarrow> uint32 list" where
  "message_schedule block =
     fold (\<lambda>i w. w @ [next_w w i]) [16..<64] (map (block_word block) [0..<16])"

type_synonym sha_vars = "uint32 \<times> uint32 \<times> uint32 \<times> uint32 \<times> uint32 \<times> uint32 \<times> uint32 \<times> uint32"

definition sha_round :: "uint32 list \<Rightarrow> nat \<Rightarrow> sha_vars \<Rightarrow> sha_vars" where
  "sha_round w i v =
     (case v of (a, b, c, d, e, f, g, h) \<Rightarrow>
      let S1 = Rotr e 6 XOR Rotr e 11 XOR Rotr e 25;
          ch = (e AND f) XOR (NOT e AND g);
          t1 = h + S1 + ch + sha_k ! i + w ! i;
          S0 = Rotr a 2 XOR Rotr a 13 XOR Rotr a 22;
          maj = (a AND b) XOR (a AND c) XOR (b AND c);
          t2 = S0 + maj
      in (t1 + t2, a, b, c, d + t1, e, f, g))"

definition Sha256Block :: "sha_vars \<Rightarrow> byte list \<Rightarrow> sha_vars" where
  "Sha256Block state block =
     (let w = message_schedule block
      in case (state, fold (sha_round w) [0..<64] state) of
           ((s0, s1, s2, s3, s4, s5, s6, s7), (a, b, c, d, e, f, g, h)) \<Rightarrow>
             (s0 + a, s1 + b, s2 + c, s3 + d, s4 + e, s5 + f, s6 + g, s7 + h))"

definition sha_init :: sha_vars where
  "sha_init = (0x6a09e667, 0xbb67ae85, 0x3c6ef372, 0xa54ff53a, 0x510e527f, 0x9b05688c, 0x1f83d9ab, 0x5be0cd19)"

text \<open>The bytes 56 to 63 of the last block: the length in bits, the most significant byte first.\<close>

definition length_bytes :: "nat \<Rightarrow> byte list" where
  "length_bytes len = (let bits = (of_nat len * 8 :: 64 word) in map (\<lambda>i. ucast (drop_bit (8 * i) bits)) (rev [0..<8]))"

definition word_bytes :: "uint32 \<Rightarrow> byte list" where
  "word_bytes x = [ucast (drop_bit 24 x), ucast (drop_bit 16 x), ucast (drop_bit 8 x), ucast x]"

definition sha_output :: "sha_vars \<Rightarrow> byte list" where
  "sha_output v = (case v of (a, b, c, d, e, f, g, h) \<Rightarrow> concat (map word_bytes [a, b, c, d, e, f, g, h]))"

text \<open>The loop over the whole blocks: the state after them, and what remains.\<close>

function whole_blocks :: "sha_vars \<Rightarrow> byte list \<Rightarrow> sha_vars \<times> byte list" where
  "whole_blocks state data =
     (if 64 \<le> length data then whole_blocks (Sha256Block state (take 64 data)) (drop 64 data) else (state, data))"
  by pat_completeness auto
termination by (relation "measure (\<lambda>(_, data). length data)") auto

declare whole_blocks.simps [simp del]

definition Sha256 :: "byte list \<Rightarrow> byte list" where
  "Sha256 data =
     (let (state, rest) = whole_blocks sha_init data;
          n = length rest;
          (state, block) =
            (if n + 1 \<le> 56 then (state, rest @ [0x80] @ replicate (56 - (n + 1)) 0)
             else (Sha256Block state (rest @ [0x80] @ replicate (64 - (n + 1)) 0), replicate 56 0))
      in sha_output (Sha256Block state (block @ length_bytes (length data))))"

subsection \<open>The reference definition\<close>

function chunks :: "byte list \<Rightarrow> byte list list" where
  "chunks xs = (if xs = [] then [] else take 64 xs # chunks (drop 64 xs))"
  by pat_completeness auto
termination by (relation "measure length") (auto simp: length_greater_0_conv [symmetric] simp del: length_greater_0_conv)

declare chunks.simps [simp del]

text \<open>The fewest zero bytes that make the padded message a multiple of 64 bytes long.\<close>

definition pad_zeros :: "nat \<Rightarrow> nat" where
  "pad_zeros len = (LEAST k. (len + 1 + k + 8) mod 64 = 0)"

definition sha_pad :: "byte list \<Rightarrow> byte list" where
  "sha_pad msg = msg @ [0x80] @ replicate (pad_zeros (length msg)) 0 @ length_bytes (length msg)"

definition sha256_spec :: "byte list \<Rightarrow> byte list" where
  "sha256_spec msg = sha_output (foldl Sha256Block sha_init (chunks (sha_pad msg)))"

lemma length_bytes_length [simp]: "length (length_bytes n) = 8"
  by (simp add: length_bytes_def Let_def)

lemma chunks_append: "length a = 64 \<Longrightarrow> chunks (a @ b) = a # chunks b"
  by (subst chunks.simps) auto

lemma chunks_Nil [simp]: "chunks [] = []"
  by (simp add: chunks.simps)

lemma whole_blocks_chunks:
  "whole_blocks s data = (s', rest) \<Longrightarrow>
     foldl Sha256Block s (chunks (data @ tail)) = foldl Sha256Block s' (chunks (rest @ tail)) \<and>
     length rest < 64 \<and> length data mod 64 = length rest"
proof (induction s data rule: whole_blocks.induct)
  case (1 s data)
  show ?case
  proof (cases "64 \<le> length data")
    case True
    then have "whole_blocks (Sha256Block s (take 64 data)) (drop 64 data) = (s', rest)"
      using "1.prems" by (subst (asm) whole_blocks.simps) simp
    moreover have "chunks (data @ tail) = take 64 data # chunks (drop 64 data @ tail)"
      using chunks_append [of "take 64 data" "drop 64 data @ tail"] True by (simp flip: append_assoc)
    ultimately show ?thesis using "1.IH" True by (simp add: le_mod_geq)
  next
    case False
    then show ?thesis using "1.prems" by (subst (asm) whole_blocks.simps) simp
  qed
qed

lemma pad_zeros_eq:
  assumes "len mod 64 = n"
  shows "pad_zeros len = (if n + 1 \<le> 56 then 55 - n else 119 - n)"
  unfolding pad_zeros_def
proof (rule Least_equality)
  have n: "n < 64" using assms by auto
  have "(len + 1 + k + 8) mod 64 = (n + 9 + k) mod 64" for k
    using mod_add_left_eq [of len 64 "9 + k"] assms by (simp add: ac_simps)
  note eq = this
  show "(len + 1 + (if n + 1 \<le> 56 then 55 - n else 119 - n) + 8) mod 64 = 0"
    unfolding eq using n by auto
  show "(if n + 1 \<le> 56 then 55 - n else 119 - n) \<le> k" if "(len + 1 + k + 8) mod 64 = 0" for k
  proof -
    from that have "(n + 9 + k) mod 64 = 0" unfolding eq .
    then obtain q where "n + 9 + k = 64 * q" by (metis mod_0_imp_dvd dvdE)
    then show ?thesis using n by (cases q; cases "q - 1") auto
  qed
qed

theorem Sha256_eq_spec: "Sha256 msg = sha256_spec msg"
proof -
  obtain s rest where w: "whole_blocks sha_init msg = (s, rest)" by fastforce
  let ?tail = "[0x80] @ replicate (pad_zeros (length msg)) 0 @ length_bytes (length msg)"
  let ?n = "length rest"
  have c: "foldl Sha256Block sha_init (chunks (sha_pad msg)) = foldl Sha256Block s (chunks (rest @ ?tail))"
    "?n < 64" "length msg mod 64 = ?n"
    using whole_blocks_chunks [OF w, of ?tail] by (simp_all add: sha_pad_def)
  note z = pad_zeros_eq [OF c(3)]
  show ?thesis
  proof (cases "?n + 1 \<le> 56")
    case True
    have "chunks (rest @ ?tail) = [rest @ ?tail]"
      using chunks_append [of "rest @ ?tail" "[]"] True by (simp add: z)
    then show ?thesis using True w by (simp add: Sha256_def sha256_spec_def c(1) z)
  next
    case False
    have r: "replicate (119 - ?n) (0 :: byte) = replicate (64 - (?n + 1)) 0 @ replicate 56 0"
      using False c(2) by (simp add: replicate_add [symmetric])
    let ?b1 = "rest @ [0x80] @ replicate (64 - (?n + 1)) 0" and ?b2 = "replicate 56 0 @ length_bytes (length msg)"
    have "chunks (?b1 @ ?b2) = [?b1, ?b2]"
      using chunks_append [of ?b1 ?b2] chunks_append [of ?b2 "[]"] False c(2) by simp
    moreover have "rest @ ?tail = ?b1 @ ?b2" using False by (simp add: z r)
    ultimately show ?thesis using False w by (simp add: Sha256_def sha256_spec_def c(1))
  qed
qed

end
