(* ===== verification/Mojovm.thy ===== *)
theory Mojovm
  imports Module_Loader Type_Intern Mojovm_Hash
begin

text \<open>
  The method virtual machine (\<open>src/mojovm.cc\<close>): method ordinals, the split of an API name, the
  index of the files by module, and the call that answers with the ordinals of a method.  The
  directory under the root, the file reader and the text of an exception are its environment.
\<close>

subsection \<open>Ordinals\<close>

definition bytes_of :: "string \<Rightarrow> byte list" where
  "bytes_of s = map of_char s"

definition kChromeVersionSalt :: string where
  "kChromeVersionSalt =
     ''MAJOR=156'' @ [newline] @ ''MINOR=0'' @ [newline] @ ''BUILD=8070'' @ [newline] @ ''PATCH=0'' @ [newline]"

definition hash_ordinal :: "string \<Rightarrow> uint32" where
  "hash_ordinal msg =
     (let dig = Sha256 (bytes_of msg);
          le = ucast (dig ! 0) OR push_bit 8 (ucast (dig ! 1)) OR push_bit 16 (ucast (dig ! 2)) OR push_bit 24 (ucast (dig ! 3));
          ord = le AND 0x7fffffff
      in if ord = 0 then 1 else ord)"

text \<open>The loop over the methods, from the index of the last one counted.\<close>

fun chrome_scan :: "string \<Rightarrow> string \<Rightarrow> nat \<Rightarrow> Method list \<Rightarrow> uint32" where
  "chrome_scan iface target index [] = 0"
| "chrome_scan iface target index (m # ms) =
     (if m_has_explicit_ordinal m then chrome_scan iface target index ms
      else if m_name m \<noteq> target then chrome_scan iface target (index + 1) ms
      else hash_ordinal (kChromeVersionSalt @ iface @ show_nat (index + 1)))"

definition ChromeOrdinal :: "Interface \<Rightarrow> Method \<Rightarrow> uint32" where
  "ChromeOrdinal def' target =
     (if m_has_explicit_ordinal target then of_nat (m_ordinal target) AND 0x7fffffff
      else chrome_scan (i_name def') (m_name target) 0 (i_methods def'))"

subsection \<open>Names\<close>

definition rfind :: "char \<Rightarrow> string \<Rightarrow> nat option" where
  "rfind c s = (if c \<in> set s then Some (length s - 1 - length (takeWhile (\<lambda>x. x \<noteq> c) (rev s))) else None)"

definition SplitApi :: "string \<Rightarrow> (string \<times> string \<times> string) option" where
  "SplitApi api =
     (case rfind CHR ''.'' api of
        None \<Rightarrow> None
      | Some method_dot \<Rightarrow>
          if method_dot = 0 then None
          else (case rfind CHR ''.'' (take method_dot api) of
             None \<Rightarrow> None
           | Some iface_dot \<Rightarrow>
               if iface_dot = 0 then None
               else (let module = take iface_dot api;
                         iface = take (method_dot - iface_dot - 1) (drop (iface_dot + 1) api);
                         method = drop (method_dot + 1) api
                     in if module \<noteq> [] \<and> iface \<noteq> [] \<and> method \<noteq> [] then Some (module, iface, method) else None)))"

definition module_key :: string where
  "module_key = ''module ''"

definition is_blank :: "char \<Rightarrow> bool" where
  "is_blank c \<longleftrightarrow> c = CHR '' '' \<or> c = CHR 0x09"

text \<open>The search for the keyword at the start of a line, from a position in the text; \<open>prev\<close> is the
  character before it.\<close>

function module_scan :: "char option \<Rightarrow> string \<Rightarrow> string" where
  "module_scan prev rest =
     (if rest = [] then []
      else if take 7 rest \<noteq> module_key then module_scan (Some (hd rest)) (tl rest)
      else if prev \<noteq> None \<and> prev \<noteq> Some newline \<and> prev \<noteq> Some (CHR 0x0D)
      then module_scan (Some CHR '' '') (drop 7 rest)
      else (let body = dropWhile is_blank (drop 7 rest);
                name = takeWhile (\<lambda>c. c \<noteq> CHR '';'' \<and> c \<noteq> newline \<and> \<not> is_blank c) body;
                after = drop (length name) body
            in if name \<noteq> [] \<and> after \<noteq> [] \<and> (hd after = CHR '';'' \<or> is_blank (hd after)) then name
               else module_scan (Some CHR '' '') (drop 7 rest)))"
  by pat_completeness auto
termination
  by (relation "measure (\<lambda>(_, rest). length rest)")
    (auto simp: length_greater_0_conv [symmetric] simp del: length_greater_0_conv)

declare module_scan.simps [simp del]

definition ModuleOf :: "string \<Rightarrow> string" where
  "ModuleOf text = module_scan None text"

subsection \<open>The machine\<close>

record VmState =
  vm_paths :: "string list"
  vm_by_module :: "string \<rightharpoonup> string list"
  vm_graphs :: "string \<rightharpoonup> LoadedFile list"
  vm_indexed :: bool

text \<open>An entry of the directory tree: its path, whether it is a regular file, its extension.\<close>

record DirEntry =
  de_path :: string
  de_regular :: bool
  de_extension :: string

record VmEnv =
  ve_root :: string
  ve_tree :: "DirEntry list"
  ve_read :: FileReader
  ve_fuel :: nat
  ve_what :: "LoadFail \<Rightarrow> string"

definition new_vm :: VmState where
  "new_vm = \<lparr>vm_paths = [], vm_by_module = Map.empty, vm_graphs = Map.empty, vm_indexed = False\<rparr>"

definition index_entry :: "VmEnv \<Rightarrow> DirEntry \<Rightarrow> VmState \<Rightarrow> VmState" where
  "index_entry env d st =
     (if \<not> de_regular d then st
      else if de_extension d \<noteq> ''.mojom'' then st
      else let st = st\<lparr>vm_paths := vm_paths st @ [de_path d]\<rparr>
      in case ve_read env (de_path d) of
           None \<Rightarrow> st
         | Some text \<Rightarrow>
             let name = ModuleOf text
             in if name = [] then st
                else st\<lparr>vm_by_module := (vm_by_module st)
                  (name \<mapsto> (case vm_by_module st name of Some ps \<Rightarrow> ps | None \<Rightarrow> []) @ [de_path d])\<rparr>)"

definition EnsureIndex :: "VmEnv \<Rightarrow> VmState \<Rightarrow> VmState" where
  "EnsureIndex env st =
     (if vm_indexed st then st else (fold (index_entry env) (ve_tree env) st)\<lparr>vm_indexed := True\<rparr>)"

definition Err :: "string \<Rightarrow> string" where
  "Err msg = ''error: '' @ msg"

definition Sep :: string where
  "Sep = [CHR 0x1F]"

definition show_word :: "uint32 \<Rightarrow> string" where
  "show_word x = show_nat (unat x)"

definition ok_reply :: "string \<Rightarrow> string \<Rightarrow> Interface \<Rightarrow> Method \<Rightarrow> string" where
  "ok_reply module iface def' m =
     ''ok'' @ Sep @ show_word (FnvOrdinal (bytes_of (MethodKey module iface m))) @ Sep @ show_word (ChromeOrdinal def' m)"

text \<open>The first interface of the name decides: its method, or an error.\<close>

fun search_interfaces :: "string \<Rightarrow> string \<Rightarrow> string \<Rightarrow> Interface list \<Rightarrow> string option" where
  "search_interfaces module iface method [] = None"
| "search_interfaces module iface method (d # ds) =
     (if i_name d \<noteq> iface then search_interfaces module iface method ds
      else (case find (\<lambda>m. m_name m = method) (i_methods d) of
              Some m \<Rightarrow> Some (ok_reply module iface d m)
            | None \<Rightarrow> Some (Err (''unknown method '' @ method))))"

fun search_graph :: "string \<Rightarrow> string \<Rightarrow> string \<Rightarrow> LoadedFile list \<Rightarrow> string option" where
  "search_graph module iface method [] = None"
| "search_graph module iface method (f # fs) =
     (if mod_name (lf_module f) \<noteq> module then search_graph module iface method fs
      else (case search_interfaces module iface method (mod_interfaces (lf_module f)) of
              Some reply \<Rightarrow> Some reply
            | None \<Rightarrow> search_graph module iface method fs))"

definition vm_load :: "VmEnv \<Rightarrow> string \<Rightarrow> LoadFail + LoadedFile list \<times> bool \<times> string list" where
  "vm_load env path = LoadModuleGraph (ve_fuel env) path [ve_root env] (ve_read env) {} True"

text \<open>The graph of a file, from the cache or loaded into it.\<close>

definition graph_of :: "VmEnv \<Rightarrow> string \<Rightarrow> VmState \<Rightarrow> LoadFail + LoadedFile list \<times> VmState" where
  "graph_of env path st =
     (case vm_graphs st path of
        Some g \<Rightarrow> Inr (g, st)
      | None \<Rightarrow> (case vm_load env path of
                  Inl e \<Rightarrow> Inl e
                | Inr (g, _) \<Rightarrow> Inr (g, st\<lparr>vm_graphs := (vm_graphs st)(path \<mapsto> g)\<rparr>)))"

fun call_files :: "VmEnv \<Rightarrow> string \<Rightarrow> string \<Rightarrow> string \<Rightarrow> string list \<Rightarrow> VmState \<Rightarrow> string \<times> VmState" where
  "call_files env module iface method [] st = (Err (''unknown interface '' @ iface), st)"
| "call_files env module iface method (p # ps) st =
     (case graph_of env p st of
        Inl e \<Rightarrow> (Err (ve_what env e), st)
      | Inr (g, st) \<Rightarrow>
          (case search_graph module iface method g of
             Some reply \<Rightarrow> (reply, st)
           | None \<Rightarrow> call_files env module iface method ps st))"

definition Call :: "VmEnv \<Rightarrow> string \<Rightarrow> VmState \<Rightarrow> string \<times> VmState" where
  "Call env api st =
     (case SplitApi api of
        None \<Rightarrow> (Err ''api is module.Interface.Method'', st)
      | Some (module, iface, method) \<Rightarrow>
          let st = EnsureIndex env st
          in case vm_by_module st module of
               None \<Rightarrow> (Err (''unknown module '' @ module), st)
             | Some files \<Rightarrow> call_files env module iface method files st)"

subsection \<open>The portfolio\<close>

record Row =
  row_api :: string
  row_voodoo :: uint32
  row_mojo :: uint32
  row_fqn :: string
  row_rel :: string

definition module_rows :: "string \<Rightarrow> Module \<Rightarrow> Row list" where
  "module_rows rel md =
     concat (map (\<lambda>d. map (\<lambda>m.
       let fqn = MethodKey (mod_name md) (i_name d) m
       in \<lparr>row_api = mod_name md @ ''.'' @ i_name d @ ''.'' @ m_name m, row_voodoo = FnvOrdinal (bytes_of fqn),
           row_mojo = ChromeOrdinal d m, row_fqn = fqn, row_rel = rel\<rparr>) (i_methods d)) (mod_interfaces md))"

text \<open>One file of the portfolio: its rows or the line that says why there are none; \<open>rel\<close> is its path
  relative to the root.\<close>

definition portfolio_file :: "VmEnv \<Rightarrow> (string \<Rightarrow> string) \<Rightarrow> string \<Rightarrow> Row list \<times> string list \<Rightarrow> Row list \<times> string list" where
  "portfolio_file env rel path acc =
     (case acc of (rows, failed) \<Rightarrow>
      (case vm_load env path of
         Inl e \<Rightarrow> (rows, failed @ [rel path @ [CHR 0x09] @ ve_what env e])
       | Inr (graph, entry_loaded, skipped) \<Rightarrow>
           if \<not> entry_loaded \<or> graph = []
           then (rows, failed @ [rel path @ [CHR 0x09] @ (if skipped = [] then ''entry not loaded'' else last skipped)])
           else (let md = lf_module (last graph)
                 in if mod_name md = [] then (rows, failed @ [rel path @ [CHR 0x09] @ ''no module name''])
                    else (rows @ module_rows (rel path) md, failed))))"

definition portfolio_rows :: "VmEnv \<Rightarrow> (string \<Rightarrow> string) \<Rightarrow> VmState \<Rightarrow> Row list \<times> string list \<times> VmState" where
  "portfolio_rows env rel st =
     (let st = EnsureIndex env st;
          (rows, failed) = fold (portfolio_file env rel) (vm_paths st) ([], [])
      in (rows, failed, st))"

end
