(* ===== verification/Mojovm_Properties.thy ===== *)
theory Mojovm_Properties
  imports Mojovm
begin

text \<open>
  The properties of the method virtual machine.
\<close>

subsection \<open>Names\<close>

lemma rfind_append: "c \<notin> set b \<Longrightarrow> rfind c (a @ c # b) = Some (length a)"
proof -
  assume b: "c \<notin> set b"
  then have "takeWhile (\<lambda>x. x \<noteq> c) (rev b @ c # rev a) = rev b" by (subst takeWhile_append2) auto
  then show ?thesis by (simp add: rfind_def)
qed

lemma rfind_Some: "rfind c s = Some n \<Longrightarrow> \<exists>a b. s = a @ c # b \<and> c \<notin> set b \<and> n = length a"
proof -
  assume r: "rfind c s = Some n"
  then have "c \<in> set s" by (simp add: rfind_def split: if_splits)
  then obtain a b where s: "s = a @ c # b" "c \<notin> set b" using split_list_last by metis
  with rfind_append [OF s(2), of a] r show ?thesis by auto
qed

lemma SplitApi_iff:
  "SplitApi api = Some (m, i, f) \<longleftrightarrow>
     api = m @ ''.'' @ i @ ''.'' @ f \<and> m \<noteq> [] \<and> i \<noteq> [] \<and> f \<noteq> [] \<and> CHR ''.'' \<notin> set i \<and> CHR ''.'' \<notin> set f"
proof
  assume "SplitApi api = Some (m, i, f)"
  then obtain md id where d: "rfind CHR ''.'' api = Some md" "rfind CHR ''.'' (take md api) = Some id"
    and r: "m = take id api" "i = take (md - id - 1) (drop (id + 1) api)" "f = drop (md + 1) api" "m \<noteq> []" "i \<noteq> []" "f \<noteq> []"
    by (auto simp: SplitApi_def Let_def split: option.splits if_splits)
  obtain a b where a: "api = a @ CHR ''.'' # b" "CHR ''.'' \<notin> set b" "md = length a" using rfind_Some [OF d(1)] by blast
  have "rfind CHR ''.'' a = Some id" using d(2) by (simp add: a)
  then obtain x y where x: "a = x @ CHR ''.'' # y" "CHR ''.'' \<notin> set y" "id = length x" using rfind_Some by blast
  show "api = m @ ''.'' @ i @ ''.'' @ f \<and> m \<noteq> [] \<and> i \<noteq> [] \<and> f \<noteq> [] \<and> CHR ''.'' \<notin> set i \<and> CHR ''.'' \<notin> set f"
    using r a x by simp
next
  assume *: "api = m @ ''.'' @ i @ ''.'' @ f \<and> m \<noteq> [] \<and> i \<noteq> [] \<and> f \<noteq> [] \<and> CHR ''.'' \<notin> set i \<and> CHR ''.'' \<notin> set f"
  then have "rfind CHR ''.'' api = Some (length (m @ ''.'' @ i))"
    using rfind_append [of "CHR ''.''" f "m @ ''.'' @ i"] by simp
  moreover have "take (length (m @ ''.'' @ i)) api = m @ CHR ''.'' # i" using * by simp
  moreover have "rfind CHR ''.'' (m @ CHR ''.'' # i) = Some (length m)" using * by (intro rfind_append) simp
  ultimately show "SplitApi api = Some (m, i, f)" using * by (simp add: SplitApi_def Let_def)
qed

subsection \<open>Ordinals\<close>

lemma mask31_less: "x AND 0x7fffffff < (0x80000000 :: uint32)"
proof -
  have "x AND mask 31 < 2 ^ 31" by (rule and_mask_less') simp
  moreover have "(mask 31 :: uint32) = 0x7fffffff" by (simp add: mask_eq_exp_minus_1)
  ultimately show ?thesis by simp
qed

lemma nonzero_pos: "(if x = 0 then 1 else x) \<noteq> (0 :: uint32)"
  by simp

lemma hash_ordinal_bounds: "0 < hash_ordinal msg \<and> hash_ordinal msg < 0x80000000"
  unfolding hash_ordinal_def Let_def using mask31_less by (simp add: word_gt_0)

lemma FnvOrdinal_bounds: "0 < FnvOrdinal s \<and> FnvOrdinal s < 0x80000000"
  unfolding FnvOrdinal_def Let_def using mask31_less by (simp add: word_gt_0)

lemma chrome_scan_bounds:
  "m \<in> set ms \<Longrightarrow> \<not> m_has_explicit_ordinal m \<Longrightarrow>
     0 < chrome_scan iface (m_name m) n ms \<and> chrome_scan iface (m_name m) n ms < 0x80000000"
  by (induction ms arbitrary: n) (auto simp: hash_ordinal_bounds)

subsection \<open>The cache\<close>

text \<open>The index of the tree, and the graphs in the cache.\<close>

definition vm_inv :: "VmEnv \<Rightarrow> VmState \<Rightarrow> bool" where
  "vm_inv env st \<longleftrightarrow>
     (if vm_indexed st then vm_by_module st = vm_by_module (EnsureIndex env new_vm) \<and> vm_paths st = vm_paths (EnsureIndex env new_vm)
      else st = new_vm) \<and>
     (\<forall>p g. vm_graphs st p = Some g \<longrightarrow> (\<exists>x. vm_load env p = Inr (g, x)))"

text \<open>The answer without a cache.\<close>

fun answer_files :: "VmEnv \<Rightarrow> string \<Rightarrow> string \<Rightarrow> string \<Rightarrow> string list \<Rightarrow> string" where
  "answer_files env module iface method [] = Err (''unknown interface '' @ iface)"
| "answer_files env module iface method (p # ps) =
     (case vm_load env p of
        Inl e \<Rightarrow> Err (ve_what env e)
      | Inr (g, _) \<Rightarrow>
          (case search_graph module iface method g of
             Some reply \<Rightarrow> reply
           | None \<Rightarrow> answer_files env module iface method ps))"

definition answer :: "VmEnv \<Rightarrow> string \<Rightarrow> string" where
  "answer env api =
     (case SplitApi api of
        None \<Rightarrow> Err ''api is module.Interface.Method''
      | Some (module, iface, method) \<Rightarrow>
          (case vm_by_module (EnsureIndex env new_vm) module of
             None \<Rightarrow> Err (''unknown module '' @ module)
           | Some files \<Rightarrow> answer_files env module iface method files))"

lemma index_fold_graphs: "vm_graphs (fold (index_entry env) ds st) = vm_graphs st"
proof (induction ds arbitrary: st)
  case (Cons d ds)
  have "vm_graphs (index_entry env d st) = vm_graphs st" by (simp add: index_entry_def Let_def split: option.splits)
  then show ?case using Cons by simp
qed simp

lemma EnsureIndex_inv:
  assumes "vm_inv env st"
  shows "vm_inv env (EnsureIndex env st)" "vm_indexed (EnsureIndex env st)"
    "vm_by_module (EnsureIndex env st) = vm_by_module (EnsureIndex env new_vm)"
  using assms by (auto simp: vm_inv_def EnsureIndex_def new_vm_def index_fold_graphs split: if_splits)

lemma graph_of_inv:
  assumes "vm_inv env st" "vm_indexed st"
  shows "(case graph_of env p st of
     Inl e \<Rightarrow> vm_load env p = Inl e
   | Inr (g, st') \<Rightarrow> (\<exists>x. vm_load env p = Inr (g, x)) \<and> vm_inv env st' \<and> vm_indexed st')"
  using assms by (auto simp: graph_of_def vm_inv_def split: option.splits sum.splits prod.splits if_splits)

lemma call_files_answer:
  "vm_inv env st \<Longrightarrow> vm_indexed st \<Longrightarrow>
     fst (call_files env module iface method ps st) = answer_files env module iface method ps \<and>
     vm_inv env (snd (call_files env module iface method ps st))"
proof (induction ps arbitrary: st)
  case (Cons p ps)
  show ?case
    using graph_of_inv [OF Cons.prems, of p] Cons
    by (auto split: sum.splits prod.splits option.splits)
qed simp

lemma Call_answer:
  assumes "vm_inv env st"
  shows "fst (Call env api st) = answer env api \<and> vm_inv env (snd (Call env api st))"
  using EnsureIndex_inv [OF assms] call_files_answer [OF EnsureIndex_inv(1,2) [OF assms]] assms
  by (auto simp: Call_def answer_def Let_def split: option.splits)

lemma new_vm_inv: "vm_inv env new_vm"
  by (simp add: vm_inv_def) (simp add: new_vm_def)

lemma calls_inv: "vm_inv env (fold (\<lambda>api st. snd (Call env api st)) apis new_vm)"
proof -
  have "vm_inv env st \<Longrightarrow> vm_inv env (fold (\<lambda>api st. snd (Call env api st)) apis st)" for st
    by (induction apis arbitrary: st) (simp_all add: Call_answer)
  then show ?thesis using new_vm_inv by blast
qed

subsection \<open>The properties\<close>


text \<open>An API name is split into module, interface and method exactly when it is the three of
  them, none empty, joined by dots, with no dot in the last two: the split inverts the join, and
  refuses every other name.\<close>

theorem split_api_exact:
  "SplitApi api = Some (module, iface, method) \<longleftrightarrow>
     api = module @ ''.'' @ iface @ ''.'' @ method \<and> module \<noteq> [] \<and> iface \<noteq> [] \<and> method \<noteq> [] \<and>
     CHR ''.'' \<notin> set iface \<and> CHR ''.'' \<notin> set method"
  by (rule SplitApi_iff)

text \<open>The answer to a call does not depend on the calls before it: with the index and the
  cache of loaded graphs in whatever state earlier calls left them, the reply is the one computed
  from the files alone.\<close>

theorem call_history_independent:
  "fst (Call env api (fold (\<lambda>a st. snd (Call env a st)) earlier new_vm)) = answer env api"
  using Call_answer [OF calls_inv] by blast

text \<open>The hashed ordinals are in the range of 31-bit ordinals and never zero.\<close>

theorem hashed_ordinals_in_range:
  assumes "m \<in> set (i_methods d)" "\<not> m_has_explicit_ordinal m"
  shows "FnvOrdinal (bytes_of (MethodKey module iface m)) \<in> {1..0x7fffffff} \<and> ChromeOrdinal d m \<in> {1..0x7fffffff}"
proof -
  have "x \<in> {1..0x7fffffff}" if "0 < x \<and> x < 0x80000000" for x :: uint32
    using that by (auto simp: word_le_nat_alt word_less_nat_alt)
  moreover have "0 < ChromeOrdinal d m \<and> ChromeOrdinal d m < 0x80000000"
    using chrome_scan_bounds [OF assms] assms(2) by (simp add: ChromeOrdinal_def)
  ultimately show ?thesis using FnvOrdinal_bounds by blast
qed

theorem hashed_ordinals_in_range_witness:
  "ChromeOrdinal (new_interface\<lparr>i_name := ''I'', i_methods := [new_method\<lparr>m_name := ''A''\<rparr>]\<rparr>) (new_method\<lparr>m_name := ''A''\<rparr>)
     \<in> {1..0x7fffffff}"
  using hashed_ordinals_in_range [of "new_method\<lparr>m_name := ''A''\<rparr>"
      "new_interface\<lparr>i_name := ''I'', i_methods := [new_method\<lparr>m_name := ''A''\<rparr>]\<rparr>" "[]" "[]"]
  by (simp add: new_method_def new_interface_def)

end
