(* ===== verification/Cage_Allocator.thy ===== *)
theory Cage_Allocator
  imports Voodoo_Prelude
begin

text \<open>
  The cage and its allocator (\<open>WASMSafeSpace/src/sandbox/sandbox.cc\<close>, \<open>sandbox.h\<close>,
  \<open>sandboxed-pointer.h\<close>).  Addresses and sizes are 64 bits wide; sums that may wrap around are
  written out.  Blocks are pairs of an offset and a size.
\<close>

definition sub64 :: "nat \<Rightarrow> nat \<Rightarrow> nat" where
  "sub64 a b = (a + (2 ^ 64 - b mod 2 ^ 64)) mod 2 ^ 64"

lemma sub64_less [simp]: "sub64 a b < 18446744073709551616"
  by (simp add: sub64_def)

lemma sub64_id [wrap_simps]: "b \<le> a \<Longrightarrow> a < 2 ^ 64 \<Longrightarrow> sub64 a b = a - b"
proof -
  assume "b \<le> a" "a < 2 ^ 64"
  then have "a + (2 ^ 64 - b mod 2 ^ 64) = (a - b) + 2 ^ 64" and "a - b < 2 ^ 64"
    by simp_all
  then show ?thesis by (simp add: sub64_def)
qed

type_synonym FreeBlock = "nat \<times> nat"

record Sandbox =
  sb_base :: nat
  sb_end :: nat
  sb_size :: nat
  sb_bump_offset :: nat
  sb_committed :: nat
  sb_free_list :: "FreeBlock list"
  sb_initialized :: bool
  sb_current :: bool

text \<open>A failed \<open>CHECK\<close> ends the program.\<close>

datatype CageFail = CheckFailed

text \<open>The host: where memory is usable as soon as it is mapped, or where pages of the reserved
  range are committed on demand (offset and length to an answer).\<close>

datatype Host = Mapped | Reserved "nat \<Rightarrow> nat \<Rightarrow> bool"

definition new_sandbox :: Sandbox where
  "new_sandbox = \<lparr>sb_base = 0, sb_end = 0, sb_size = 0, sb_bump_offset = 0, sb_committed = 0, sb_free_list = [],
     sb_initialized = False, sb_current = False\<rparr>"

text \<open>\<open>mem\<close> is the address the host maps the cage at, zero when it refuses.\<close>

definition Sandbox_Initialize :: "Host \<Rightarrow> nat \<Rightarrow> nat \<Rightarrow> Sandbox \<Rightarrow> CageFail + Sandbox" where
  "Sandbox_Initialize host mem n sb =
     (if sb_initialized sb \<or> n = 0 \<or> mem = 0 then Inl CheckFailed
      else Inr (sb\<lparr>sb_base := mem, sb_size := n, sb_end := add64 mem n, sb_bump_offset := 0,
        sb_committed := (case host of Reserved _ \<Rightarrow> 0 | Mapped \<Rightarrow> n), sb_free_list := [], sb_initialized := True\<rparr>))"

definition kCommitStep :: nat where
  "kCommitStep = 64 * 1024"

definition Sandbox_CommitTo :: "Host \<Rightarrow> Sandbox \<Rightarrow> nat \<Rightarrow> bool \<times> Sandbox" where
  "Sandbox_CommitTo host sb limit =
     (if limit \<le> sb_committed sb then (True, sb)
      else (case host of
        Reserved commit \<Rightarrow>
          (let target = add64 limit (kCommitStep - 1) div kCommitStep * kCommitStep;
               target = (if sb_size sb < target then sb_size sb else target)
           in if commit (sb_committed sb) (sub64 target (sb_committed sb)) then (True, sb\<lparr>sb_committed := target\<rparr>)
              else (False, sb))
      | Mapped \<Rightarrow> (limit \<le> sb_size sb, sb)))"

definition Sandbox_TearDown :: "Sandbox \<Rightarrow> CageFail + Sandbox" where
  "Sandbox_TearDown sb =
     (if \<not> sb_initialized sb then Inl CheckFailed
      else Inr (sb\<lparr>sb_current := False, sb_base := 0, sb_end := 0, sb_size := 0, sb_bump_offset := 0,
        sb_committed := 0, sb_free_list := [], sb_initialized := False\<rparr>))"

definition Sandbox_Contains :: "Sandbox \<Rightarrow> nat \<Rightarrow> bool" where
  "Sandbox_Contains sb addr \<longleftrightarrow> sb_initialized sb \<and> sb_base sb \<le> addr \<and> addr < sb_end sb"

definition InsideSandbox :: "Sandbox \<Rightarrow> nat \<Rightarrow> bool" where
  "InsideSandbox sb addr \<longleftrightarrow> sb_current sb \<and> Sandbox_Contains sb addr"

text \<open>\<open>(v + alignment - 1) & ~(alignment - 1)\<close>.\<close>

definition AlignUp :: "nat \<Rightarrow> nat \<Rightarrow> nat" where
  "AlignUp v alignment = unat ((of_nat v + of_nat alignment - 1 :: 64 word) AND NOT (of_nat alignment - 1))"

text \<open>The head of a block that alignment skips.\<close>

definition block_head :: "Sandbox \<Rightarrow> nat \<Rightarrow> FreeBlock \<Rightarrow> nat" where
  "block_head sb alignment b =
     (let block_start = add64 (sb_base sb) (fst b) in sub64 (AlignUp block_start alignment) block_start)"

definition block_fits :: "Sandbox \<Rightarrow> nat \<Rightarrow> nat \<Rightarrow> FreeBlock \<Rightarrow> bool" where
  "block_fits sb n alignment b \<longleftrightarrow> \<not> snd b < add64 (block_head sb alignment b) n"

text \<open>What is left of a block, head first.\<close>

definition leftover :: "nat \<Rightarrow> nat \<Rightarrow> FreeBlock \<Rightarrow> FreeBlock list" where
  "leftover head n b =
     (let tail = sub64 (sub64 (snd b) head) n
      in (if 0 < head then [(fst b, head)] else []) @
         (if 0 < tail then [(add64 (add64 (fst b) head) n, tail)] else []))"

text \<open>The first block that fits is erased, what is left of it appended, and the list sorted; the
  result is the address.\<close>

definition AllocateFromFreeList :: "Sandbox \<Rightarrow> nat \<Rightarrow> nat \<Rightarrow> (nat \<times> Sandbox) option" where
  "AllocateFromFreeList sb n alignment =
     (case List.extract (block_fits sb n alignment) (sb_free_list sb) of
        None \<Rightarrow> None
      | Some (before, b, after) \<Rightarrow>
          (let head = block_head sb alignment b
           in Some (add64 (sb_base sb) (add64 (fst b) head),
                sb\<lparr>sb_free_list := sort_key fst (before @ after @ leftover head n b)\<rparr>)))"

definition Sandbox_TryAllocate :: "Host \<Rightarrow> Sandbox \<Rightarrow> nat \<Rightarrow> nat \<Rightarrow> CageFail + nat option \<times> Sandbox" where
  "Sandbox_TryAllocate host sb n alignment =
     (if \<not> sb_initialized sb then Inl CheckFailed
      else (case AllocateFromFreeList sb n alignment of
        Some (addr, sb) \<Rightarrow> Inr (Some addr, sb)
      | None \<Rightarrow>
          (let aligned = AlignUp (add64 (sb_base sb) (sb_bump_offset sb)) alignment;
               aligned_offset = sub64 aligned (sb_base sb)
           in if sb_size sb < aligned_offset \<or> sb_size sb - aligned_offset < n then Inr (None, sb)
              else (case Sandbox_CommitTo host sb (aligned_offset + n) of
                (False, sb) \<Rightarrow> Inr (None, sb)
              | (True, sb) \<Rightarrow>
                  Inr (Some (add64 (sb_base sb) aligned_offset), sb\<lparr>sb_bump_offset := aligned_offset + n\<rparr>)))))"

definition Sandbox_Allocate :: "Host \<Rightarrow> Sandbox \<Rightarrow> nat \<Rightarrow> nat \<Rightarrow> CageFail + nat \<times> Sandbox" where
  "Sandbox_Allocate host sb n alignment =
     (case Sandbox_TryAllocate host sb n alignment of
        Inl e \<Rightarrow> Inl e
      | Inr (None, _) \<Rightarrow> Inl CheckFailed
      | Inr (Some addr, sb) \<Rightarrow> Inr (addr, sb))"

text \<open>The new block, merged with the next one when they touch, then the previous one merged with it.\<close>

definition merge_next :: "FreeBlock \<Rightarrow> FreeBlock list \<Rightarrow> FreeBlock list" where
  "merge_next b bs =
     (case bs of
        nb # rest \<Rightarrow> if add64 (fst b) (snd b) = fst nb then (fst b, add64 (snd b) (snd nb)) # rest else b # bs
      | [] \<Rightarrow> [b])"

definition merge_prev :: "FreeBlock list \<Rightarrow> FreeBlock list \<Rightarrow> FreeBlock list" where
  "merge_prev before bs =
     (if before \<noteq> [] \<and> add64 (fst (last before)) (snd (last before)) = fst (hd bs)
      then butlast before @ (fst (last before), add64 (snd (last before)) (snd (hd bs))) # tl bs
      else before @ bs)"

text \<open>\<open>lower_bound\<close> on the sorted list is the place after the blocks that start before the offset.\<close>

definition Sandbox_Free :: "Sandbox \<Rightarrow> nat \<Rightarrow> nat \<Rightarrow> CageFail + Sandbox" where
  "Sandbox_Free sb ptr n =
     (if \<not> sb_initialized sb then Inl CheckFailed
      else if ptr = 0 \<or> n = 0 then Inr sb
      else if \<not> Sandbox_Contains sb ptr then Inl CheckFailed
      else (let offset = sub64 ptr (sb_base sb);
                before = takeWhile (\<lambda>b. fst b < offset) (sb_free_list sb);
                after = dropWhile (\<lambda>b. fst b < offset) (sb_free_list sb)
            in Inr (sb\<lparr>sb_free_list := merge_prev before (merge_next (offset, n) after)\<rparr>)))"

subsection \<open>Sandboxed pointers\<close>

text \<open>The remainder is undefined for a cage of size zero.\<close>

definition DecodeSandboxedPointer :: "Sandbox \<Rightarrow> nat \<Rightarrow> nat option" where
  "DecodeSandboxedPointer sb encoded =
     map_option (\<lambda>offset. add64 (sb_base sb) offset) (checked_mod encoded (sb_size sb))"

definition EncodeSandboxedPointer :: "Sandbox \<Rightarrow> nat \<Rightarrow> CageFail + nat" where
  "EncodeSandboxedPointer sb pointer =
     (if Sandbox_Contains sb pointer then Inr (u32 (sub64 pointer (sb_base sb))) else Inl CheckFailed)"

subsection \<open>Alignment\<close>

lemma and_not_mask: "(x :: 64 word) AND NOT (mask k) = push_bit k (drop_bit k x)"
  by (rule bit_eqI) (auto simp: bit_simps)

lemma AlignUp_eq:
  assumes "k < 64" "v + 2 ^ k \<le> 2 ^ 64"
  shows "AlignUp v (2 ^ k) = (v + 2 ^ k - 1) div 2 ^ k * 2 ^ k"
proof -
  let ?x = "of_nat (v + 2 ^ k - 1) :: 64 word"
  have x: "unat ?x = v + 2 ^ k - 1" using assms(2) by (subst unat_of_nat) (simp add: take_bit_nat_eq_self)
  have "of_nat v + of_nat (2 ^ k) - 1 = ?x"
    using of_nat_diff [where ?'a = "64 word", of 1 "v + 2 ^ k"] by (simp add: trans_le_add2)
  moreover have "of_nat (2 ^ k) - 1 = (mask k :: 64 word)" by (simp add: mask_eq_exp_minus_1)
  ultimately have "AlignUp v (2 ^ k) = unat (push_bit k (drop_bit k ?x))" by (simp add: AlignUp_def and_not_mask)
  also have "\<dots> = (v + 2 ^ k - 1) div 2 ^ k * 2 ^ k"
  proof -
    have "unat (drop_bit k ?x) = (v + 2 ^ k - 1) div 2 ^ k" by (subst unat_drop_bit_eq, subst x, rule drop_bit_eq_div)
    moreover have "(v + 2 ^ k - 1) div 2 ^ k * 2 ^ k < 2 ^ 64"
    proof (rule le_less_trans [OF div_times_less_eq_dividend])
      have "(0 :: nat) < 2 ^ k" by simp
      then show "v + 2 ^ k - 1 < 2 ^ 64" using assms(2) by linarith
    qed
    moreover have "unat (2 ^ k :: 64 word) = 2 ^ k"
    proof -
      have "(2 :: nat) ^ k < 2 ^ 64" using assms(1) by (intro power_strict_increasing) simp_all
      then have "unat (of_nat (2 ^ k) :: 64 word) = 2 ^ k" by (subst unat_of_nat) (simp add: take_bit_nat_eq_self)
      then show ?thesis by simp
    qed
    ultimately show ?thesis
      by (simp add: push_bit_eq_mult unat_word_ariths take_bit_nat_eq_self)
  qed
  finally show ?thesis .
qed

lemma AlignUp_bounds:
  assumes "k < 64" "v + 2 ^ k \<le> 2 ^ 64"
  shows "v \<le> AlignUp v (2 ^ k)" "AlignUp v (2 ^ k) < v + 2 ^ k" "2 ^ k dvd AlignUp v (2 ^ k)"
proof -
  let ?w = "v + 2 ^ k - 1"
  have "?w = ?w div 2 ^ k * 2 ^ k + ?w mod 2 ^ k" by (metis div_mod_decomp)
  moreover have "?w mod 2 ^ k < 2 ^ k" by simp
  ultimately show "v \<le> AlignUp v (2 ^ k)" "AlignUp v (2 ^ k) < v + 2 ^ k" unfolding AlignUp_eq [OF assms] by linarith+
  show "2 ^ k dvd AlignUp v (2 ^ k)" unfolding AlignUp_eq [OF assms] by simp
qed

lemma AlignUp_aligned:
  assumes "k < 64" "v + 2 ^ k \<le> 2 ^ 64" "2 ^ k dvd v"
  shows "AlignUp v (2 ^ k) = v"
proof -
  obtain q where "v = 2 ^ k * q" using assms(3) by (elim dvdE)
  moreover have "2 ^ k * q + 2 ^ k - 1 = (2 ^ k - 1) + 2 ^ k * q" by simp
  moreover have "((2 ^ k - 1) + 2 ^ k * q) div 2 ^ k = q" for q k :: nat by (subst div_mult_self2) simp_all
  ultimately show ?thesis unfolding AlignUp_eq [OF assms(1,2)] by simp
qed

subsection \<open>Blocks\<close>

text \<open>Two blocks that do not overlap.\<close>

definition apart :: "FreeBlock \<Rightarrow> FreeBlock \<Rightarrow> bool" where
  "apart b c \<longleftrightarrow> fst b + snd b \<le> fst c \<or> fst c + snd c \<le> fst b"

definition blocks_apart :: "FreeBlock set \<Rightarrow> bool" where
  "blocks_apart B \<longleftrightarrow> (\<forall>b\<in>B. \<forall>c\<in>B. b \<noteq> c \<longrightarrow> apart b c)"

text \<open>Non-empty blocks below a bound.\<close>

definition blocks_below :: "nat \<Rightarrow> FreeBlock set \<Rightarrow> bool" where
  "blocks_below bound B \<longleftrightarrow> (\<forall>b\<in>B. 0 < snd b \<and> fst b + snd b \<le> bound)"

definition within :: "FreeBlock \<Rightarrow> FreeBlock \<Rightarrow> bool" where
  "within x b \<longleftrightarrow> fst b \<le> fst x \<and> fst x + snd x \<le> fst b + snd b"

lemma apart_sym: "apart b c \<Longrightarrow> apart c b"
  by (auto simp: apart_def)

lemma apart_within: "apart b c \<Longrightarrow> within x b \<Longrightarrow> apart x c"
  by (auto simp: apart_def within_def)

lemma within_trans: "within a b \<Longrightarrow> within b c \<Longrightarrow> within a c"
  by (auto simp: within_def)

lemma apart_fst: "apart b c \<Longrightarrow> 0 < snd b \<Longrightarrow> 0 < snd c \<Longrightarrow> fst b \<noteq> fst c"
  by (auto simp: apart_def)

lemma blocks_apartD: "blocks_apart B \<Longrightarrow> b \<in> B \<Longrightarrow> c \<in> B \<Longrightarrow> b \<noteq> c \<Longrightarrow> apart b c"
  by (simp add: blocks_apart_def)

lemma blocks_apart_insert:
  "blocks_apart (insert b B) \<longleftrightarrow> blocks_apart B \<and> (\<forall>c\<in>B - {b}. apart b c)"
  by (auto simp: blocks_apart_def intro: apart_sym)

lemma blocks_apart_subset: "blocks_apart B \<Longrightarrow> A \<subseteq> B \<Longrightarrow> blocks_apart A"
  unfolding blocks_apart_def by blast

lemma blocks_below_simps [simp]:
  "blocks_below n {}" "blocks_below n (insert b B) \<longleftrightarrow> 0 < snd b \<and> fst b + snd b \<le> n \<and> blocks_below n B"
  "blocks_below n (A \<union> B) \<longleftrightarrow> blocks_below n A \<and> blocks_below n B"
  by (auto simp: blocks_below_def)

lemma blocks_below_mono: "blocks_below n B \<Longrightarrow> A \<subseteq> B \<Longrightarrow> n \<le> m \<Longrightarrow> blocks_below m A"
  by (fastforce simp: blocks_below_def)

text \<open>A block may be replaced by blocks inside it.\<close>

lemma blocks_apart_refine:
  assumes "blocks_apart (insert b B)" "b \<notin> B" "blocks_apart P" "\<forall>x\<in>P. within x b"
  shows "blocks_apart (P \<union> B)"
proof -
  have "apart x c" if "x \<in> P" "c \<in> B" for x c
  proof -
    have "apart b c" by (rule blocks_apartD [OF assms(1)]) (use assms(2) that in auto)
    then show ?thesis by (rule apart_within) (use assms(4) that in blast)
  qed
  moreover have "blocks_apart B" using assms(1) by (rule blocks_apart_subset) auto
  moreover have "apart c x" if "x \<in> P" "c \<in> B" for x c using calculation(1) [OF that] by (rule apart_sym)
  ultimately show ?thesis using assms(3) unfolding blocks_apart_def by (intro ballI impI) (elim UnE; simp)
qed

text \<open>Two blocks that touch may be replaced by one.\<close>

lemma blocks_apart_merge:
  assumes "blocks_apart (insert b (insert c B))" "b \<notin> B" "c \<notin> B" "fst b + snd b = fst c" "blocks_below n B"
  shows "blocks_apart (insert (fst b, snd b + snd c) B)"
proof -
  have "apart (fst b, snd b + snd c) d" if "d \<in> B" for d
  proof -
    have "apart b d" "apart c d" using assms(1-3) that by (auto simp: blocks_apart_def)
    moreover have "0 < snd d" using assms(5) that by (simp add: blocks_below_def)
    ultimately show ?thesis using assms(4) by (auto simp: apart_def)
  qed
  moreover have "blocks_apart B" using assms(1) by (rule blocks_apart_subset) auto
  ultimately show ?thesis by (simp add: blocks_apart_insert)
qed

subsection \<open>The invariant\<close>

text \<open>\<open>M\<close> are the blocks handed out and not freed, by their offsets.  Free and live blocks are
  non-empty, pairwise apart and below the bump offset; the free list is sorted by offset.
  What is below the bump offset is committed.\<close>

definition cage_ok :: "Host \<Rightarrow> Sandbox \<Rightarrow> FreeBlock set \<Rightarrow> bool" where
  "cage_ok host sb M \<longleftrightarrow>
     sb_initialized sb \<and> 0 < sb_base sb \<and> 0 < sb_size sb \<and> sb_base sb + sb_size sb \<le> 2 ^ 63 \<and> sb_end sb = sb_base sb + sb_size sb \<and>
     sb_bump_offset sb \<le> sb_committed sb \<and> sb_committed sb \<le> sb_size sb \<and>
     (host = Mapped \<longrightarrow> sb_committed sb = sb_size sb) \<and>
     sorted (map fst (sb_free_list sb)) \<and> distinct (sb_free_list sb) \<and> set (sb_free_list sb) \<inter> M = {} \<and>
     blocks_apart (set (sb_free_list sb) \<union> M) \<and> blocks_below (sb_bump_offset sb) (set (sb_free_list sb) \<union> M)"

text \<open>Requests whose sums do not wrap around.\<close>

definition request_ok :: "nat \<Rightarrow> nat \<Rightarrow> bool" where
  "request_ok n alignment \<longleftrightarrow> n \<le> 2 ^ 63 \<and> (\<exists>k < 63. alignment = 2 ^ k)"

definition add_live :: "FreeBlock \<Rightarrow> FreeBlock set \<Rightarrow> FreeBlock set" where
  "add_live b M = (if snd b = 0 then M else insert b M)"

lemma request_bounds:
  assumes "request_ok n alignment" "v \<le> 2 ^ 63"
  shows "v \<le> AlignUp v alignment" "AlignUp v alignment < v + alignment" "alignment dvd AlignUp v alignment"
    "alignment \<le> 2 ^ 62"
proof -
  obtain k where k: "k < 63" "alignment = 2 ^ k" using assms(1) by (auto simp: request_ok_def)
  have "(2 :: nat) ^ k \<le> 2 ^ 62" using k(1) by (intro power_increasing) simp_all
  then have "k < 64" "v + 2 ^ k \<le> 2 ^ 64" using k(1) assms(2) by simp_all
  from AlignUp_bounds [OF this] \<open>2 ^ k \<le> 2 ^ 62\<close> show
    "v \<le> AlignUp v alignment" "AlignUp v alignment < v + alignment" "alignment dvd AlignUp v alignment"
    "alignment \<le> 2 ^ 62" by (simp_all add: k(2))
qed

lemma block_head_eq:
  assumes "request_ok n alignment" "sb_base sb + fst b \<le> 2 ^ 63"
  shows "block_head sb alignment b = AlignUp (sb_base sb + fst b) alignment - (sb_base sb + fst b)"
    "block_head sb alignment b < alignment" "alignment dvd sb_base sb + fst b + block_head sb alignment b"
proof -
  let ?v = "sb_base sb + fst b"
  note r = request_bounds [OF assms]
  have v: "add64 (sb_base sb) (fst b) = ?v" using assms(2) by (intro add64_id) simp
  have "AlignUp ?v alignment < 2 ^ 64" using r assms(2) by simp
  then show h: "block_head sb alignment b = AlignUp ?v alignment - ?v"
    by (simp add: block_head_def v sub64_id [OF r(1)] Let_def)
  show "block_head sb alignment b < alignment" "alignment dvd ?v + block_head sb alignment b"
    unfolding h using r by simp_all
qed

lemma block_fits_iff:
  assumes "request_ok n alignment" "sb_base sb + fst b \<le> 2 ^ 63"
  shows "block_fits sb n alignment b \<longleftrightarrow> block_head sb alignment b + n \<le> snd b"
proof -
  have "block_head sb alignment b + n < 2 ^ 64"
    using block_head_eq(2) [OF assms] request_bounds(4) [OF assms] assms(1) by (simp add: request_ok_def)
  then show ?thesis by (auto simp: block_fits_def add64_id)
qed

lemma leftover_eq:
  assumes "head + n \<le> snd b" "fst b + snd b \<le> 2 ^ 63"
  shows "leftover head n b = (if 0 < head then [(fst b, head)] else []) @
     (if head + n < snd b then [(fst b + head + n, snd b - head - n)] else [])"
  using assms by (auto simp: leftover_def wrap_simps)

end
