(* ===== verification/Cage_Safety.thy ===== *)
theory Cage_Safety
  imports Cage_Allocator
begin

text \<open>
  Every operation of the allocator of the cage keeps its invariant.
\<close>

subsection \<open>Blocks carved out of a free one\<close>

lemma refine_fresh:
  assumes "blocks_apart (insert b B)" "b \<notin> B" "\<forall>x\<in>P. within x b \<and> 0 < snd x"
  shows "P \<inter> B = {}"
proof -
  have False if "x \<in> P" "x \<in> B" for x
  proof -
    have "apart b x" by (rule blocks_apartD [OF assms(1)]) (use assms(2) that in auto)
    moreover have "within x b" "0 < snd x" using assms(3) that(1) by auto
    ultimately show False by (auto simp: apart_def within_def)
  qed
  then show ?thesis by blast
qed

text \<open>The pieces of a block: what is left of it and what is handed out.\<close>

lemma pieces:
  assumes "head + n \<le> snd b" "fst b + snd b \<le> 2 ^ 63"
  defines "P \<equiv> add_live (fst b + head, n) (set (leftover head n b))"
  shows "blocks_apart P" "\<forall>x\<in>P. within x b \<and> 0 < snd x" "distinct (leftover head n b)"
    "0 < n \<Longrightarrow> (fst b + head, n) \<notin> set (leftover head n b)"
  unfolding P_def leftover_eq [OF assms(1,2)] add_live_def blocks_apart_def
  using assms(1) by (auto simp: apart_def within_def)

lemma extract_split:
  "List.extract P xs = Some (ys, b, zs) \<Longrightarrow> xs = ys @ b # zs \<and> P b"
  by (simp add: extract_Some_iff)

lemma cage_ok_addr: "cage_ok host sb M \<Longrightarrow> o' \<le> sb_bump_offset sb \<Longrightarrow> sb_base sb + o' \<le> 2 ^ 63"
  by (simp add: cage_ok_def)

lemma from_free_list_ok:
  assumes ok: "cage_ok host sb M" and r: "request_ok n alignment" and a: "AllocateFromFreeList sb n alignment = Some (p, sb')"
  shows "\<exists>offset. p = sb_base sb + offset \<and> offset + n \<le> sb_bump_offset sb \<and> alignment dvd p \<and>
     (\<forall>c\<in>M. apart (offset, n) c) \<and> cage_ok host sb' (add_live (offset, n) M)"
proof -
  obtain before b after where x: "List.extract (block_fits sb n alignment) (sb_free_list sb) = Some (before, b, after)"
    and p: "p = add64 (sb_base sb) (add64 (fst b) (block_head sb alignment b))"
    and sb': "sb' = sb\<lparr>sb_free_list := sort_key fst (before @ after @ leftover (block_head sb alignment b) n b)\<rparr>"
    using a by (auto simp: AllocateFromFreeList_def Let_def split: option.splits)
  let ?h = "block_head sb alignment b" and ?B = "set before \<union> set after \<union> M"
  let ?L = "leftover ?h n b"
  let ?P = "add_live (fst b + ?h, n) (set ?L)"
  have fl: "sb_free_list sb = before @ b # after" "block_fits sb n alignment b" using extract_split [OF x] by auto
  then have b: "fst b + snd b \<le> sb_bump_offset sb" "0 < snd b" using ok by (auto simp: cage_ok_def)
  have addr: "sb_base sb + fst b + snd b \<le> 2 ^ 63" "sb_base sb + fst b \<le> 2 ^ 63" using b ok by (auto simp: cage_ok_def)
  have fit: "?h + n \<le> snd b" using fl(2) block_fits_iff [OF r addr(2)] by simp
  have small: "fst b + snd b \<le> 2 ^ 63" using addr(1) by simp
  note pc = pieces [OF fit small]
  have apart: "blocks_apart (insert b ?B)" and nb: "b \<notin> ?B" and below: "blocks_below (sb_bump_offset sb) ?B"
    using ok by (auto simp: cage_ok_def fl(1) insert_commute Un_assoc)
  have fresh: "?P \<inter> ?B = {}" using refine_fresh [OF apart nb pc(2)] .
  have all: "blocks_apart (?P \<union> ?B)"
    using blocks_apart_refine [OF apart nb pc(1)] pc(2) by blast
  have "blocks_below (sb_bump_offset sb) ?P"
    using pc(2) b(1) by (fastforce simp: blocks_below_def within_def)
  then have all_below: "blocks_below (sb_bump_offset sb) (?P \<union> ?B)" using below by simp
  have eq: "set (sb_free_list sb') \<union> add_live (fst b + ?h, n) M = ?P \<union> ?B"
    by (auto simp: sb' add_live_def)
  have "distinct (sb_free_list sb')"
    using ok pc(3) fresh by (auto simp: sb' fl(1) cage_ok_def add_live_def split: if_splits)
  moreover have "set (sb_free_list sb') \<inter> add_live (fst b + ?h, n) M = {}"
    using ok pc(4) fresh by (auto simp: sb' fl(1) cage_ok_def add_live_def split: if_splits)
  moreover have "sorted (map fst (sb_free_list sb'))" by (simp add: sb')
  ultimately have "cage_ok host sb' (add_live (fst b + ?h, n) M)"
    using ok all all_below unfolding cage_ok_def eq by (simp add: sb')
  moreover have "p = sb_base sb + (fst b + ?h)"
    unfolding p using fit addr(1) by (simp add: add64_id)
  moreover have "alignment dvd sb_base sb + (fst b + ?h)" using block_head_eq(3) [OF r addr(2)] by (simp add: add.assoc)
  moreover have "fst b + ?h + n \<le> sb_bump_offset sb" using fit b(1) by simp
  moreover have "apart (fst b + ?h, n) c" if "c \<in> M" for c
  proof -
    have "apart b c" by (rule blocks_apartD [OF apart]) (use nb that in auto)
    then show ?thesis by (rule apart_within) (use fit in \<open>simp add: within_def\<close>)
  qed
  ultimately show ?thesis by blast
qed

subsection \<open>Fresh blocks\<close>

lemma CommitTo_ok:
  assumes ok: "cage_ok host sb M" and limit: "limit \<le> sb_size sb" and c: "Sandbox_CommitTo host sb limit = (True, sb')"
  shows "\<exists>committed. sb' = sb\<lparr>sb_committed := committed\<rparr> \<and> limit \<le> committed \<and> sb_committed sb \<le> committed \<and> committed \<le> sb_size sb \<and>
     (host = Mapped \<longrightarrow> committed = sb_size sb)"
proof (cases "limit \<le> sb_committed sb")
  case True
  then show ?thesis using c ok by (intro exI [of _ "sb_committed sb"]) (auto simp: Sandbox_CommitTo_def cage_ok_def)
next
  case False
  show ?thesis
  proof (cases host)
    case Mapped
    then show ?thesis using False limit ok by (simp add: cage_ok_def)
  next
    case (Reserved commit)
    let ?t = "add64 limit (kCommitStep - 1) div kCommitStep * kCommitStep"
    have "limit + (kCommitStep - 1) < 2 ^ 64" using limit ok by (simp add: cage_ok_def kCommitStep_def)
    then have "limit \<le> ?t" by (simp add: add64_id kCommitStep_def)
    then show ?thesis using c False limit Reserved ok
      by (intro exI [of _ "if sb_size sb < ?t then sb_size sb else ?t"])
        (auto simp: Sandbox_CommitTo_def Let_def cage_ok_def split: if_splits)
  qed
qed

lemma CommitTo_refused: "Sandbox_CommitTo host sb limit = (False, sb') \<Longrightarrow> sb' = sb"
  by (auto simp: Sandbox_CommitTo_def Let_def split: if_splits Host.splits)

lemma bump_ok:
  assumes ok: "cage_ok host sb M" and o': "sb_bump_offset sb \<le> offset" "offset + n \<le> committed"
    and c: "sb_committed sb \<le> committed" "committed \<le> sb_size sb" "host = Mapped \<longrightarrow> committed = sb_size sb"
  shows "cage_ok host (sb\<lparr>sb_committed := committed, sb_bump_offset := offset + n\<rparr>) (add_live (offset, n) M) \<and> (\<forall>b\<in>M. apart (offset, n) b)"
proof -
  let ?F = "set (sb_free_list sb)"
  have below: "blocks_below (sb_bump_offset sb) (?F \<union> M)" using ok by (simp add: cage_ok_def)
  have ap: "apart (offset, n) b" if "b \<in> ?F \<union> M" for b
  proof -
    have "fst b + snd b \<le> sb_bump_offset sb" using below that unfolding blocks_below_def by blast
    then show ?thesis using o'(1) by (simp add: apart_def)
  qed
  have nin: "(offset, n) \<notin> ?F" if "0 < n"
    using ap [of "(offset, n)"] that by (auto simp: apart_def)
  have b': "blocks_below (offset + n) (?F \<union> M)" by (rule blocks_below_mono [OF below]) (use o'(1) in auto)
  have "blocks_apart (?F \<union> add_live (offset, n) M)"
    using ok ap by (simp add: add_live_def blocks_apart_insert cage_ok_def)
  then show ?thesis using ok ap nin b' c o'(2) by (auto simp: cage_ok_def add_live_def)
qed

lemma TryAllocate_ok:
  assumes ok: "cage_ok host sb M" and r: "request_ok n alignment"
  shows "(\<exists>p sb' offset. Sandbox_TryAllocate host sb n alignment = Inr (Some p, sb') \<and> p = sb_base sb + offset \<and>
      offset + n \<le> sb_size sb \<and> alignment dvd p \<and> (\<forall>c\<in>M. apart (offset, n) c) \<and>
      sb_base sb' = sb_base sb \<and> sb_size sb' = sb_size sb \<and> offset + n \<le> sb_committed sb' \<and>
      cage_ok host sb' (add_live (offset, n) M)) \<or>
    Sandbox_TryAllocate host sb n alignment = Inr (None, sb)"
proof (cases "AllocateFromFreeList sb n alignment")
  case (Some x)
  then obtain p sb' where a: "AllocateFromFreeList sb n alignment = Some (p, sb')" by (cases x) auto
  have fr: "sb_base sb' = sb_base sb" "sb_size sb' = sb_size sb" "sb_bump_offset sb' = sb_bump_offset sb" "sb_committed sb' = sb_committed sb"
    using a by (auto simp: AllocateFromFreeList_def Let_def split: option.splits)
  obtain offset where "p = sb_base sb + offset" "offset + n \<le> sb_bump_offset sb" "alignment dvd p"
     "\<forall>c\<in>M. apart (offset, n) c" "cage_ok host sb' (add_live (offset, n) M)"
    using from_free_list_ok [OF ok r a] by blast
  then show ?thesis using ok a fr
    by (intro disjI1 exI [of _ p] exI [of _ sb'] exI [of _ offset]) (auto simp: Sandbox_TryAllocate_def cage_ok_def)
next
  case None
  let ?v = "sb_base sb + sb_bump_offset sb"
  have v: "?v \<le> 2 ^ 63" by (rule cage_ok_addr [OF ok]) simp
  note al = request_bounds [OF r v]
  define off where "off = AlignUp ?v alignment - sb_base sb"
  have A: "AlignUp ?v alignment = sb_base sb + off" using al(1) by (simp add: off_def)
  have lo: "sb_bump_offset sb \<le> off" and dv: "alignment dvd sb_base sb + off" using al(1,3) A by simp_all
  have lt: "AlignUp ?v alignment < 2 ^ 64" using al v by simp
  have e1: "add64 (sb_base sb) (sb_bump_offset sb) = ?v" using v by (simp add: add64_id)
  have e2: "sub64 (AlignUp ?v alignment) (sb_base sb) = off" using lt unfolding A by (subst sub64_id) simp_all
  have init: "sb_initialized sb" using ok by (simp add: cage_ok_def)
  have t: "Sandbox_TryAllocate host sb n alignment =
    (if sb_size sb < off \<or> sb_size sb - off < n then Inr (None, sb)
     else (case Sandbox_CommitTo host sb (off + n) of
        (False, sb) \<Rightarrow> Inr (None, sb)
      | (True, sb) \<Rightarrow> Inr (Some (add64 (sb_base sb) off), sb\<lparr>sb_bump_offset := off + n\<rparr>)))"
    unfolding Sandbox_TryAllocate_def Let_def e1 e2 using None init by simp
  show ?thesis
  proof (cases "sb_size sb < off \<or> sb_size sb - off < n")
    case True
    then show ?thesis by (simp add: t)
  next
    case False
    then have lim: "off + n \<le> sb_size sb" by auto
    obtain ok' sb1 where cm: "Sandbox_CommitTo host sb (off + n) = (ok', sb1)" by fastforce
    show ?thesis
    proof (cases ok')
      case False
      with cm CommitTo_refused have "sb1 = sb" by simp
      then show ?thesis using cm False lim by (simp add: t)
    next
      case True
      have cm': "Sandbox_CommitTo host sb (off + n) = (True, sb1)" using cm True by simp
      obtain committed where sb1: "sb1 = sb\<lparr>sb_committed := committed\<rparr>" and
        c: "off + n \<le> committed" "sb_committed sb \<le> committed" "committed \<le> sb_size sb" "host = Mapped \<longrightarrow> committed = sb_size sb"
        using CommitTo_ok [OF ok lim cm'] by (elim exE conjE) (rule that)
      have p: "add64 (sb_base sb) off = sb_base sb + off" using lim ok by (intro add64_id) (simp add: cage_ok_def)
      show ?thesis using cm True lim bump_ok [OF ok lo c] p c dv
        by (intro disjI1 exI [of _ "sb_base sb + off"] exI [of _ "sb1\<lparr>sb_bump_offset := off + n\<rparr>"] exI [of _ off])
          (auto simp: t sb1)
    qed
  qed
qed

subsection \<open>Freeing\<close>

text \<open>The part of the invariant about the free list, with the order of the offsets strict.\<close>

definition free_ok :: "nat \<Rightarrow> FreeBlock list \<Rightarrow> FreeBlock set \<Rightarrow> bool" where
  "free_ok bound bs M \<longleftrightarrow> sorted_wrt (<) (map fst bs) \<and> set bs \<inter> M = {} \<and> blocks_apart (set bs \<union> M) \<and> blocks_below bound (set bs \<union> M)"

lemma apart_inj_fst:
  assumes "blocks_apart B" "blocks_below n B"
  shows "inj_on fst B"
proof (rule inj_onI)
  fix b c assume bc: "b \<in> B" "c \<in> B" "fst b = fst c"
  have "0 < snd b" "0 < snd c" using assms(2) bc unfolding blocks_below_def by blast+
  then show "b = c" using apart_fst [of b c] blocks_apartD [OF assms(1) bc(1,2)] bc(3) by blast
qed

lemma free_ok_iff:
  "free_ok bound bs M \<longleftrightarrow> sorted (map fst bs) \<and> distinct bs \<and> set bs \<inter> M = {} \<and> blocks_apart (set bs \<union> M) \<and> blocks_below bound (set bs \<union> M)"
proof -
  have "distinct (map fst bs) \<longleftrightarrow> distinct bs" if "blocks_apart (set bs \<union> M)" "blocks_below bound (set bs \<union> M)"
    using inj_on_subset [OF apart_inj_fst [OF that], of "set bs"] by (auto simp: distinct_map)
  then show ?thesis unfolding free_ok_def strict_sorted_iff by blast
qed

lemma cage_ok_free_ok:
  "cage_ok host sb M \<longleftrightarrow>
     sb_initialized sb \<and> 0 < sb_base sb \<and> 0 < sb_size sb \<and> sb_base sb + sb_size sb \<le> 2 ^ 63 \<and> sb_end sb = sb_base sb + sb_size sb \<and>
     sb_bump_offset sb \<le> sb_committed sb \<and> sb_committed sb \<le> sb_size sb \<and>
     (host = Mapped \<longrightarrow> sb_committed sb = sb_size sb) \<and> free_ok (sb_bump_offset sb) (sb_free_list sb) M"
  unfolding cage_ok_def free_ok_iff by blast

text \<open>Two neighbours that touch are merged.\<close>

lemma free_ok_merge:
  assumes ok: "free_ok bound (xs @ b # c # ys) M" and t: "fst b + snd b = fst c"
  shows "free_ok bound (xs @ (fst b, snd b + snd c) # ys) M"
proof -
  let ?B = "set xs \<union> set ys \<union> M" and ?m = "(fst b, snd b + snd c)"
  have srt: "sorted_wrt (<) (map fst (xs @ b # c # ys))" and dj: "set (xs @ b # c # ys) \<inter> M = {}"
    and ap: "blocks_apart (insert b (insert c ?B))" and bl: "blocks_below bound (insert b (insert c ?B))"
    using ok by (simp_all add: free_ok_def insert_commute Un_assoc)
  have new: "b \<notin> ?B" "c \<notin> ?B" using srt dj by (force simp: sorted_wrt_append)+
  have below: "blocks_below bound ?B" using bl by simp
  have "blocks_apart (insert ?m ?B)" by (rule blocks_apart_merge [OF ap new t below])
  moreover have "?m \<notin> M"
  proof
    assume m: "?m \<in> M"
    then have "b \<noteq> ?m" using new(1) by auto
    then have "apart b ?m" using m by (intro blocks_apartD [OF ap]) auto
    then show False using bl by (auto simp: apart_def)
  qed
  moreover have "blocks_below bound (insert ?m ?B)" using bl t by simp
  moreover have "sorted_wrt (<) (map fst (xs @ ?m # ys))" using srt by (auto simp: sorted_wrt_append)
  ultimately show ?thesis using dj by (simp add: free_ok_def)
qed

lemma sorted_split:
  fixes bs :: "FreeBlock list"
  assumes "sorted_wrt (<) (map fst bs)" "\<forall>c\<in>set bs. fst c \<noteq> x"
  shows "\<forall>c\<in>set (dropWhile (\<lambda>c. fst c < x) bs). x < fst c"
  using assms by (induction bs) (auto simp: order_less_trans)

lemma sorted_between:
  fixes b :: FreeBlock
  assumes "sorted_wrt (<) (map fst (xs @ ys))" "\<forall>c\<in>set xs. fst c < fst b" "\<forall>c\<in>set ys. fst b < fst c"
  shows "sorted_wrt (<) (map fst (xs @ b # ys))"
  using assms by (simp add: sorted_wrt_append)

lemma free_ok_insert:
  assumes ok: "free_ok bound bs M" and b: "b \<in> M"
  shows "free_ok bound (takeWhile (\<lambda>c. fst c < fst b) bs @ b # dropWhile (\<lambda>c. fst c < fst b) bs) (M - {b})"
proof -
  let ?xs = "takeWhile (\<lambda>c. fst c < fst b) bs" and ?ys = "dropWhile (\<lambda>c. fst c < fst b) bs"
  have bs: "bs = ?xs @ ?ys" by simp
  have srt: "sorted_wrt (<) (map fst (?xs @ ?ys))" using ok by (simp add: free_ok_def)
  have sets: "set (?xs @ b # ?ys) \<union> (M - {b}) = set bs \<union> M"
  proof -
    have "set ?xs \<union> set ?ys = set bs" by (metis bs set_append)
    then show ?thesis using b by auto
  qed
  have inj: "inj_on fst (set bs \<union> M)" using ok apart_inj_fst unfolding free_ok_def by blast
  have ne: "fst c \<noteq> fst b" if "c \<in> set bs" for c
  proof
    assume "fst c = fst b"
    then have "c = b" using inj that b by (auto dest: inj_onD)
    then show False using ok b that by (auto simp: free_ok_def)
  qed
  have "\<forall>c\<in>set ?xs. fst c < fst b" by (auto dest: set_takeWhileD)
  moreover have "\<forall>c\<in>set ?ys. fst b < fst c" using sorted_split [of bs "fst b"] srt ne by simp
  ultimately have "sorted_wrt (<) (map fst (?xs @ b # ?ys))" by (rule sorted_between [OF srt])
  moreover have "set (?xs @ b # ?ys) \<inter> (M - {b}) = {}"
    using ok bs by (auto simp: free_ok_def dest: set_takeWhileD set_dropWhileD)
  ultimately show ?thesis using ok unfolding free_ok_def sets by blast
qed

lemma free_ok_in: "free_ok bound bs M \<Longrightarrow> b \<in> set bs \<Longrightarrow> 0 < snd b \<and> fst b + snd b \<le> bound"
  unfolding free_ok_def blocks_below_def by blast

lemma merge_next_ok:
  assumes ok: "free_ok bound (xs @ b # ys) M" and small: "bound < 2 ^ 64"
  shows "free_ok bound (xs @ merge_next b ys) M \<and> merge_next b ys \<noteq> []"
proof (cases ys)
  case (Cons c zs)
  have "fst b + snd b \<le> bound" "fst c + snd c \<le> bound" using free_ok_in [OF ok] Cons by simp_all
  moreover have "fst b + snd b = fst c \<Longrightarrow> free_ok bound (xs @ (fst b, snd b + snd c) # zs) M"
    using ok Cons by (intro free_ok_merge) auto
  ultimately show ?thesis using ok small Cons by (auto simp: merge_next_def wrap_simps)
qed (use ok in \<open>simp add: merge_next_def\<close>)

lemma merge_prev_ok:
  assumes ok: "free_ok bound (xs @ ys) M" and small: "bound < 2 ^ 64" and ne: "ys \<noteq> []"
  shows "free_ok bound (merge_prev xs ys) M"
proof (cases xs rule: rev_cases)
  case (snoc zs a)
  obtain b us where ys: "ys = b # us" using ne by (cases ys) auto
  have "fst a + snd a \<le> bound" "fst b + snd b \<le> bound" using free_ok_in [OF ok] snoc ys by simp_all
  moreover have "fst a + snd a = fst b \<Longrightarrow> free_ok bound (zs @ (fst a, snd a + snd b) # us) M"
    using ok snoc ys by (intro free_ok_merge) auto
  ultimately show ?thesis using ok small snoc ys by (auto simp: merge_prev_def wrap_simps)
qed (use ok in \<open>simp add: merge_prev_def\<close>)

lemma cage_ok_live: "cage_ok host sb M \<Longrightarrow> b \<in> M \<Longrightarrow> 0 < snd b \<and> fst b + snd b \<le> sb_bump_offset sb"
  unfolding cage_ok_def blocks_below_def by blast

lemma Free_ok:
  assumes ok: "cage_ok host sb M" and b: "(offset, n) \<in> M"
  shows "\<exists>sb'. Sandbox_Free sb (sb_base sb + offset) n = Inr sb' \<and> cage_ok host sb' (M - {(offset, n)}) \<and>
    sb_base sb' = sb_base sb \<and> sb_size sb' = sb_size sb"
proof -
  let ?bound = "sb_bump_offset sb"
  let ?xs = "takeWhile (\<lambda>c. fst c < offset) (sb_free_list sb)" and ?ys = "dropWhile (\<lambda>c. fst c < offset) (sb_free_list sb)"
  let ?fl = "merge_prev ?xs (merge_next (offset, n) ?ys)"
  have in': "0 < n" "offset + n \<le> ?bound" using cage_ok_live [OF ok b] by simp_all
  then have "Sandbox_Contains sb (sb_base sb + offset)" "sub64 (sb_base sb + offset) (sb_base sb) = offset"
    using ok by (auto simp: Sandbox_Contains_def cage_ok_def sub64_id)
  then have e: "Sandbox_Free sb (sb_base sb + offset) n = Inr (sb\<lparr>sb_free_list := ?fl\<rparr>)"
    using ok in'(1) by (simp add: Sandbox_Free_def cage_ok_def)
  have f: "free_ok ?bound (sb_free_list sb) M" and small: "?bound < 2 ^ 64" using ok by (auto simp: cage_ok_free_ok)
  have "free_ok ?bound ?fl (M - {(offset, n)})"
    using merge_next_ok [OF _ small] free_ok_insert [OF f b] merge_prev_ok [OF _ small] by simp
  then show ?thesis using ok e by (simp add: cage_ok_free_ok)
qed

end
