(* ===== verification/Buffer_Heap.thy ===== *)
theory Buffer_Heap
  imports Cage_Allocator
begin

text \<open>
  What a client of an allocator of blocks may rely on: the contract of such an allocator as a
  locale, and, proved once from it, that buffers placed in the blocks it hands out do not
  disturb each other.  The contract is interpreted on the cage in the theory of its properties.
\<close>

subsection \<open>Buffers in a shared memory\<close>

text \<open>A client's calls: a new buffer of a size and alignment under a name, the end of a buffer, and a
  store of a byte at an index of a buffer.\<close>

datatype buf_op = New nat nat nat | Drop nat | Put nat nat byte

record 's heap_state =
  h_alloc :: 's
  h_mem :: "nat \<Rightarrow> byte"
  h_bufs :: "nat \<rightharpoonup> nat \<times> nat"

fun heap_step :: "('s \<Rightarrow> nat \<Rightarrow> nat \<Rightarrow> (nat \<times> 's) option) \<Rightarrow> ('s \<Rightarrow> nat \<Rightarrow> nat \<Rightarrow> 's option) \<Rightarrow> buf_op \<Rightarrow> 's heap_state \<Rightarrow> 's heap_state" where
  "heap_step acquire release (New i n alignment) st =
     (if h_bufs st i \<noteq> None then st
      else (case acquire (h_alloc st) n alignment of
              None \<Rightarrow> st
            | Some (p, s) \<Rightarrow> st\<lparr>h_alloc := s, h_bufs := (h_bufs st)(i \<mapsto> (p, n))\<rparr>))"
| "heap_step acquire release (Drop i) st =
     (case h_bufs st i of
        None \<Rightarrow> st
      | Some (p, n) \<Rightarrow> (case release (h_alloc st) p n of
                          None \<Rightarrow> st
                        | Some s \<Rightarrow> st\<lparr>h_alloc := s, h_bufs := (h_bufs st)(i := None)\<rparr>))"
| "heap_step acquire release (Put i k v) st =
     (case h_bufs st i of
        None \<Rightarrow> st
      | Some (p, n) \<Rightarrow> if k < n then st\<lparr>h_mem := (h_mem st)(p + k := v)\<rparr> else st)"

definition content :: "'s heap_state \<Rightarrow> nat \<Rightarrow> byte list option" where
  "content st i = map_option (\<lambda>(p, n). map (h_mem st) [p..<p + n]) (h_bufs st i)"

text \<open>The stores to one buffer, in order.\<close>

fun puts_to :: "nat \<Rightarrow> buf_op list \<Rightarrow> (nat \<times> byte) list" where
  "puts_to j [] = []"
| "puts_to j (Put i k v # ops) = (if i = j then (k, v) # puts_to j ops else puts_to j ops)"
| "puts_to j (_ # ops) = puts_to j ops"

definition store_at :: "nat \<times> byte \<Rightarrow> byte list \<Rightarrow> byte list" where
  "store_at kv xs = xs[fst kv := snd kv]"

fun op_request_ok :: "buf_op \<Rightarrow> bool" where
  "op_request_ok (New i n alignment) = request_ok n alignment"
| "op_request_ok _ = True"

definition live_blocks :: "'s heap_state \<Rightarrow> (nat \<times> nat) set" where
  "live_blocks st = {b \<in> ran (h_bufs st). 0 < snd b}"

subsection \<open>The contract of an allocator\<close>

locale block_allocator =
  fixes inv :: "'s \<Rightarrow> (nat \<times> nat) set \<Rightarrow> bool"
    and acquire :: "'s \<Rightarrow> nat \<Rightarrow> nat \<Rightarrow> (nat \<times> 's) option"
    and release :: "'s \<Rightarrow> nat \<Rightarrow> nat \<Rightarrow> 's option"
  assumes acquire_inv: "inv s L \<Longrightarrow> request_ok n alignment \<Longrightarrow> acquire s n alignment = Some (p, s') \<Longrightarrow>
      inv s' (add_live (p, n) L) \<and> (\<forall>c\<in>L. apart (p, n) c)"
    and release_inv: "inv s L \<Longrightarrow> (p, n) \<in> L \<Longrightarrow> \<exists>s'. release s p n = Some s' \<and> inv s' (L - {(p, n)})"
    and release_empty: "inv s L \<Longrightarrow> release s p 0 = Some s"
begin

text \<open>The allocator knows the blocks of the live buffers, and those of different buffers are apart.\<close>

definition heap_ok :: "'s heap_state \<Rightarrow> bool" where
  "heap_ok st \<longleftrightarrow> inv (h_alloc st) (live_blocks st) \<and>
     (\<forall>i j b c. i \<noteq> j \<longrightarrow> h_bufs st i = Some b \<longrightarrow> h_bufs st j = Some c \<longrightarrow> 0 < snd b \<longrightarrow> 0 < snd c \<longrightarrow> apart b c)"

lemma heap_okD:
  "heap_ok st \<Longrightarrow> i \<noteq> j \<Longrightarrow> h_bufs st i = Some b \<Longrightarrow> h_bufs st j = Some c \<Longrightarrow> 0 < snd b \<Longrightarrow> 0 < snd c \<Longrightarrow> apart b c"
  unfolding heap_ok_def by blast

lemma heap_ok_empty: "inv s {} \<Longrightarrow> heap_ok \<lparr>h_alloc = s, h_mem = m, h_bufs = Map.empty\<rparr>"
  by (simp add: heap_ok_def live_blocks_def)

lemma heap_ok_new:
  assumes ok: "heap_ok st" and i: "h_bufs st i = None" and r: "request_ok n alignment"
    and a: "acquire (h_alloc st) n alignment = Some (p, s)"
  shows "heap_ok (st\<lparr>h_alloc := s, h_bufs := (h_bufs st)(i \<mapsto> (p, n))\<rparr>)" (is "heap_ok ?st")
proof -
  have inv: "inv (h_alloc st) (live_blocks st)" using ok by (simp add: heap_ok_def)
  note ai = acquire_inv [OF inv r a]
  have "live_blocks ?st = add_live (p, n) (live_blocks st)"
    using i by (auto simp: live_blocks_def add_live_def)
  moreover have "apart b c" if "j \<noteq> k" "h_bufs ?st j = Some b" "h_bufs ?st k = Some c" "0 < snd b" "0 < snd c" for j k b c
  proof -
    have new: "apart (p, n) d" if "h_bufs st l = Some d" "0 < snd d" for l d
    proof -
      have "d \<in> live_blocks st" using that by (simp add: live_blocks_def ranI)
      then show ?thesis using ai by blast
    qed
    show ?thesis using that new heap_okD [OF ok \<open>j \<noteq> k\<close>] by (auto simp: apart_sym split: if_splits)
  qed
  ultimately show ?thesis using ai unfolding heap_ok_def by simp
qed

lemma heap_ok_drop:
  assumes ok: "heap_ok st" and i: "h_bufs st i = Some (p, n)"
  shows "\<exists>s. release (h_alloc st) p n = Some s \<and> heap_ok (st\<lparr>h_alloc := s, h_bufs := (h_bufs st)(i := None)\<rparr>)"
proof -
  have inv: "inv (h_alloc st) (live_blocks st)" using ok by (simp add: heap_ok_def)
  have other: "b \<noteq> (p, n)" if "j \<noteq> i" "h_bufs st j = Some b" "0 < snd b" for j b
    using heap_okD [OF ok that(1,2) i that(3)] that(3) by (auto simp: apart_def)
  have "b \<in> ran ((h_bufs st)(i := None)) \<longleftrightarrow> b \<in> ran (h_bufs st) \<and> b \<noteq> (p, n)" if "0 < snd b" for b
  proof -
    have "b \<in> ran ((h_bufs st)(i := None)) \<longleftrightarrow> (\<exists>j. j \<noteq> i \<and> h_bufs st j = Some b)" by (auto simp: ran_def)
    also have "\<dots> \<longleftrightarrow> b \<in> ran (h_bufs st) \<and> b \<noteq> (p, n)"
      using other [OF _ _ that] i unfolding ran_def mem_Collect_eq by (metis option.inject)
    finally show ?thesis .
  qed
  then have rest: "live_blocks (st\<lparr>h_alloc := s, h_bufs := (h_bufs st)(i := None)\<rparr>) = live_blocks st - {(p, n)}" for s
    by (auto simp: live_blocks_def)
  obtain s where "release (h_alloc st) p n = Some s" "inv s (live_blocks st - {(p, n)})"
  proof (cases "n = 0")
    case True
    then have "live_blocks st - {(p, n)} = live_blocks st" by (auto simp: live_blocks_def)
    with release_empty [OF inv] inv True show ?thesis by (intro that [of "h_alloc st"]) simp_all
  next
    case False
    then have "(p, n) \<in> live_blocks st" using i by (auto simp: live_blocks_def ran_def)
    with release_inv [OF inv this] show ?thesis using that by auto
  qed
  moreover have "apart b c" if "j \<noteq> k" "((h_bufs st)(i := None)) j = Some b" "((h_bufs st)(i := None)) k = Some c" "0 < snd b" "0 < snd c" for j k b c
    using that heap_okD [OF ok \<open>j \<noteq> k\<close>] by (auto split: if_splits)
  ultimately show ?thesis unfolding heap_ok_def by (auto simp: rest)
qed

lemma heap_step_ok: "heap_ok st \<Longrightarrow> op_request_ok op \<Longrightarrow> heap_ok (heap_step acquire release op st)"
proof (cases op)
  case (New i n alignment)
  assume "heap_ok st" "op_request_ok op"
  then show ?thesis using New heap_ok_new [of st i n alignment] by (cases "h_bufs st i") (auto split: option.splits)
next
  case (Drop i)
  assume "heap_ok st"
  then show ?thesis using Drop heap_ok_drop by (fastforce split: option.splits)
next
  case (Put i k v)
  assume "heap_ok st"
  then show ?thesis using Put by (auto simp: heap_ok_def live_blocks_def split: option.splits)
qed

text \<open>A step changes no buffer but its own, and a store changes its own as a list.\<close>

lemma heap_step_content:
  assumes ok: "heap_ok st" and c: "content st j = Some xs" and nd: "op \<noteq> Drop j"
  shows "content (heap_step acquire release op st) j = Some (fold store_at (puts_to j [op]) xs)"
proof -
  obtain p n where j: "h_bufs st j = Some (p, n)" and xs: "xs = map (h_mem st) [p..<p + n]"
    using c by (auto simp: content_def)
  show ?thesis
  proof (cases op)
    case (New i m a)
    then show ?thesis using c j by (auto simp: content_def split: option.splits)
  next
    case (Drop i)
    then show ?thesis using c j nd by (auto simp: content_def split: option.splits)
  next
    case (Put i k v)
    show ?thesis
    proof (cases "i = j")
      case True
      have "map ((h_mem st)(p + k := v)) [p..<p + n] = xs[k := v]" if "k < n"
        using that by (intro nth_equalityI) (auto simp: xs nth_list_update)
      then show ?thesis using True Put j c by (auto simp: content_def store_at_def xs list_update_beyond)
    next
      case False
      have "map ((h_mem st)(q + k := v)) [p..<p + n] = xs" if "h_bufs st i = Some (q, m)" "k < m" for q m
      proof (cases "n = 0")
        case False
        then have "apart (q, m) (p, n)" using heap_okD [OF ok \<open>i \<noteq> j\<close> that(1) j] that(2) by simp
        then show ?thesis using that(2) by (auto simp: xs apart_def)
      qed (simp add: xs)
      then show ?thesis using False Put j c by (auto simp: content_def xs split: option.splits)
    qed
  qed
qed

lemma puts_to_Cons: "puts_to j (op # ops) = puts_to j [op] @ puts_to j ops"
  by (cases op) simp_all

lemma session_ok: "heap_ok st \<Longrightarrow> list_all op_request_ok ops \<Longrightarrow> heap_ok (fold (heap_step acquire release) ops st)"
  by (induction ops arbitrary: st) (simp_all add: heap_step_ok)

lemma session_content:
  "heap_ok st \<Longrightarrow> list_all op_request_ok ops \<Longrightarrow> content st j = Some xs \<Longrightarrow> Drop j \<notin> set ops \<Longrightarrow>
     content (fold (heap_step acquire release) ops st) j = Some (fold store_at (puts_to j ops) xs)"
proof (induction ops arbitrary: st xs)
  case (Cons op ops)
  have nd: "op \<noteq> Drop j" using Cons.prems(4) by auto
  have s: "content (heap_step acquire release op st) j = Some (fold store_at (puts_to j [op]) xs)"
    by (rule heap_step_content [OF Cons.prems(1,3) nd])
  have "content (fold (heap_step acquire release) ops (heap_step acquire release op st)) j =
      Some (fold store_at (puts_to j ops) (fold store_at (puts_to j [op]) xs))"
    using Cons.prems by (intro Cons.IH [OF _ _ s]) (auto simp: heap_step_ok)
  then show ?case by (subst puts_to_Cons) simp
qed simp

end
end
