(* ===== verification/Cage_Properties.thy ===== *)
theory Cage_Properties
  imports Cage_Safety Buffer_Heap
begin

text \<open>
  The properties of the cage, its allocator and its compressed pointers.
\<close>

subsection \<open>The cage as an allocator of blocks\<close>

text \<open>The invariant with the live blocks at their addresses, and the two calls of a client.\<close>

definition at_base :: "Sandbox \<Rightarrow> FreeBlock \<Rightarrow> nat \<times> nat" where
  "at_base sb b = (sb_base sb + fst b, snd b)"

definition cage_inv :: "Host \<Rightarrow> Sandbox \<Rightarrow> (nat \<times> nat) set \<Rightarrow> bool" where
  "cage_inv host sb L \<longleftrightarrow> (\<exists>M. L = at_base sb ` M \<and> cage_ok host sb M)"

definition cage_acquire :: "Host \<Rightarrow> Sandbox \<Rightarrow> nat \<Rightarrow> nat \<Rightarrow> (nat \<times> Sandbox) option" where
  "cage_acquire host sb n alignment =
     (case Sandbox_TryAllocate host sb n alignment of Inr (Some p, sb') \<Rightarrow> Some (p, sb') | _ \<Rightarrow> None)"

definition cage_release :: "Sandbox \<Rightarrow> nat \<Rightarrow> nat \<Rightarrow> Sandbox option" where
  "cage_release sb p n = (case Sandbox_Free sb p n of Inr sb' \<Rightarrow> Some sb' | Inl _ \<Rightarrow> None)"

lemma apart_at_base: "apart (at_base sb b) (at_base sb c) \<longleftrightarrow> apart b c"
  by (auto simp: apart_def at_base_def)

lemma at_base_inj: "inj (at_base sb)"
  by (auto simp: inj_def at_base_def)

lemma at_base_cong: "sb_base sb' = sb_base sb \<Longrightarrow> at_base sb' = at_base sb"
  by (simp add: at_base_def fun_eq_iff)

lemma cage_acquire_inv:
  assumes "cage_inv host sb L" "request_ok n alignment" "cage_acquire host sb n alignment = Some (p, sb')"
  shows "cage_inv host sb' (add_live (p, n) L) \<and> (\<forall>c\<in>L. apart (p, n) c)"
proof -
  obtain M where M: "L = at_base sb ` M" "cage_ok host sb M" using assms(1) by (auto simp: cage_inv_def)
  have t: "Sandbox_TryAllocate host sb n alignment = Inr (Some p, sb')"
    using assms(3) by (auto simp: cage_acquire_def split: sum.splits option.splits)
  obtain offset where o': "p = sb_base sb + offset" "\<forall>c\<in>M. apart (offset, n) c" "sb_base sb' = sb_base sb"
    "cage_ok host sb' (add_live (offset, n) M)"
    using TryAllocate_ok [OF M(2) assms(2)] t by auto
  have p: "(p, n) = at_base sb (offset, n)" by (simp add: at_base_def o'(1))
  have "add_live (p, n) L = at_base sb' ` add_live (offset, n) M"
    using o'(1) by (simp add: add_live_def M(1) at_base_cong [OF o'(3)]) (simp add: at_base_def)
  then have "cage_inv host sb' (add_live (p, n) L)" using o'(4) unfolding cage_inv_def by blast
  moreover have "\<forall>c\<in>L. apart (p, n) c" unfolding p M(1) using o'(2) by (simp add: apart_at_base)
  ultimately show ?thesis ..
qed

lemma cage_release_inv:
  assumes "cage_inv host sb L" "(p, n) \<in> L"
  shows "\<exists>sb'. cage_release sb p n = Some sb' \<and> cage_inv host sb' (L - {(p, n)})"
proof -
  obtain M where M: "L = at_base sb ` M" "cage_ok host sb M" using assms(1) by (auto simp: cage_inv_def)
  obtain offset where o': "(offset, n) \<in> M" "p = sb_base sb + offset" using assms(2) by (auto simp: M(1) at_base_def)
  have p: "at_base sb (offset, n) = (p, n)" by (simp add: at_base_def o'(2))
  obtain sb' where f: "Sandbox_Free sb (sb_base sb + offset) n = Inr sb'" "cage_ok host sb' (M - {(offset, n)})" "sb_base sb' = sb_base sb"
    using Free_ok [OF M(2) o'(1)] by (elim exE conjE) (rule that)
  have "L - {(p, n)} = at_base sb' ` (M - {(offset, n)})"
    unfolding at_base_cong [OF f(3)] M(1) by (simp add: image_set_diff [OF at_base_inj] p)
  then have "cage_inv host sb' (L - {(p, n)})" using f(2) unfolding cage_inv_def by blast
  then show ?thesis using f(1) by (simp add: cage_release_def o'(2))
qed

lemma cage_release_empty: "cage_inv host sb L \<Longrightarrow> cage_release sb p 0 = Some sb"
  by (auto simp: cage_inv_def cage_ok_def cage_release_def Sandbox_Free_def)

interpretation cage: block_allocator "cage_inv host" "cage_acquire host" cage_release for host
  by unfold_locales (fact cage_acquire_inv cage_release_inv cage_release_empty)+

lemma fresh_cage_ok:
  assumes "Sandbox_Initialize host mem n sb = Inr sb'" "mem + n \<le> 2 ^ 63"
  shows "cage_ok host sb' {} \<and> sb_base sb' = mem \<and> sb_size sb' = n"
proof -
  have "add64 mem n = mem + n" using assms(2) by (simp add: add64_id)
  then show ?thesis using assms
    by (auto simp: Sandbox_Initialize_def cage_ok_def blocks_apart_def split: if_splits Host.splits)
qed

subsection \<open>Reachable cages\<close>

text \<open>The states of a cage under admissible calls, with the live blocks by address.\<close>

inductive cage_reach :: "Host \<Rightarrow> Sandbox \<Rightarrow> (nat \<times> nat) set \<Rightarrow> bool" for host where
  init: "Sandbox_Initialize host mem n new_sandbox = Inr sb \<Longrightarrow> mem + n \<le> 2 ^ 63 \<Longrightarrow> cage_reach host sb {}"
| alloc: "cage_reach host sb L \<Longrightarrow> request_ok n alignment \<Longrightarrow>
    Sandbox_TryAllocate host sb n alignment = Inr (Some p, sb') \<Longrightarrow> cage_reach host sb' (add_live (p, n) L)"
| full: "cage_reach host sb L \<Longrightarrow> request_ok n alignment \<Longrightarrow>
    Sandbox_TryAllocate host sb n alignment = Inr (None, sb') \<Longrightarrow> cage_reach host sb' L"
| free: "cage_reach host sb L \<Longrightarrow> (p, n) \<in> L \<Longrightarrow> Sandbox_Free sb p n = Inr sb' \<Longrightarrow> cage_reach host sb' (L - {(p, n)})"

lemma cage_reach_inv: "cage_reach host sb L \<Longrightarrow> cage_inv host sb L"
proof (induction rule: cage_reach.induct)
  case (init mem n sb)
  then show ?case using fresh_cage_ok unfolding cage_inv_def by (intro exI [of _ "{}"]) simp
next
  case (alloc sb L n alignment p sb')
  then show ?case using cage_acquire_inv [of host sb L n alignment p sb'] by (simp add: cage_acquire_def)
next
  case (full sb L n alignment sb')
  then obtain M where "cage_ok host sb M" by (auto simp: cage_inv_def)
  from TryAllocate_ok [OF this full.hyps(2)] have "sb' = sb" using full.hyps(3) by auto
  then show ?case using full.IH by simp
next
  case (free sb L p n sb')
  then show ?case using cage_release_inv [of host sb L p n] by (auto simp: cage_release_def)
qed

subsection \<open>Reuse\<close>

lemma AlignUp_least:
  assumes "request_ok n alignment" "v \<le> 2 ^ 63" "v \<le> w" "alignment dvd w"
  shows "AlignUp v alignment \<le> w"
proof (rule ccontr)
  assume "\<not> AlignUp v alignment \<le> w"
  moreover obtain x where x: "w = alignment * x" using assms(4) by (elim dvdE)
  moreover obtain y where y: "AlignUp v alignment = alignment * y" using request_bounds(3) [OF assms(1,2)] by (elim dvdE)
  ultimately have "x + 1 \<le> y" by (simp add: not_le)
  then have "alignment * (x + 1) \<le> alignment * y" by (rule mult_le_mono2)
  then show False using request_bounds(2) [OF assms(1,2)] assms(3) x y by simp
qed

text \<open>A freed block stays inside one block of the free list.\<close>

lemma merged_covers:
  assumes "free_ok bound (xs @ b # ys) M" "bound < 2 ^ 64"
  shows "\<exists>c\<in>set (merge_prev xs (merge_next b ys)). within b c"
proof -
  have ok: "free_ok bound (xs @ merge_next b ys) M" "merge_next b ys \<noteq> []" using merge_next_ok [OF assms] by auto
  obtain c zs where c: "merge_next b ys = c # zs" using ok(2) by (cases "merge_next b ys") auto
  have "within b c"
  proof (cases ys)
    case (Cons d ds)
    have "fst d + snd d \<le> bound" "fst b + snd b \<le> bound" using free_ok_in [OF assms(1)] Cons by simp_all
    then show ?thesis using c Cons assms(2) by (auto simp: merge_next_def within_def wrap_simps split: if_splits)
  qed (use c in \<open>auto simp: merge_next_def within_def\<close>)
  moreover have "\<exists>d\<in>set (merge_prev xs (c # zs)). within c d"
  proof (cases "xs \<noteq> [] \<and> add64 (fst (last xs)) (snd (last xs)) = fst c")
    case True
    have "fst (last xs) + snd (last xs) \<le> bound" "fst c + snd c \<le> bound" using free_ok_in [OF ok(1)] c True by simp_all
    then show ?thesis using True assms(2) by (auto simp: merge_prev_def within_def wrap_simps)
  next
    case False
    then have "merge_prev xs (c # zs) = xs @ c # zs" by (auto simp: merge_prev_def)
    then show ?thesis by (simp add: within_def)
  qed
  ultimately show ?thesis unfolding c using within_trans by meson
qed

lemma Free_covers:
  assumes ok: "cage_ok host sb M" and b: "(offset, n) \<in> M" and f: "Sandbox_Free sb (sb_base sb + offset) n = Inr sb'"
  shows "\<exists>c\<in>set (sb_free_list sb'). within (offset, n) c"
proof -
  have i: "0 < n" "offset + n \<le> sb_bump_offset sb" using cage_ok_live [OF ok b] by simp_all
  have s: "sub64 (sb_base sb + offset) (sb_base sb) = offset" using ok i by (intro sub64_id [THEN trans]) (auto simp: cage_ok_def)
  have pos: "0 < sb_base sb" using ok by (simp add: cage_ok_def)
  have fo: "free_ok (sb_bump_offset sb) (sb_free_list sb) M" "sb_bump_offset sb < 2 ^ 64" using ok by (auto simp: cage_ok_free_ok)
  show ?thesis using merged_covers [OF free_ok_insert [OF fo(1) b] fo(2)] f i(1) pos
    by (auto simp: Sandbox_Free_def s Let_def split: if_splits)
qed

lemma fitting_block_used:
  assumes ok: "cage_ok host sb M" and r: "request_ok n alignment" and b: "b \<in> set (sb_free_list sb)"
    and w: "within (offset, n) b" and d: "alignment dvd sb_base sb + offset"
  shows "\<exists>q sb'. Sandbox_TryAllocate host sb n alignment = Inr (Some q, sb')"
proof -
  have "fst b + snd b \<le> sb_bump_offset sb" using ok b by (auto simp: cage_ok_def blocks_below_def)
  then have addr: "sb_base sb + fst b \<le> 2 ^ 63" using ok by (simp add: cage_ok_def)
  have "AlignUp (sb_base sb + fst b) alignment \<le> sb_base sb + offset"
    using w by (intro AlignUp_least [OF r addr _ d]) (simp add: within_def)
  then have "block_head sb alignment b + n \<le> snd b" 
    using block_head_eq(1) [OF r addr] w unfolding within_def fst_conv snd_conv by linarith
  then have "block_fits sb n alignment b" using block_fits_iff [OF r addr] by simp
  then have "List.extract (block_fits sb n alignment) (sb_free_list sb) \<noteq> None" using b by (auto simp: extract_None_iff)
  then show ?thesis using ok by (auto simp: Sandbox_TryAllocate_def AllocateFromFreeList_def Let_def cage_ok_def)
qed

subsection \<open>A cage for the witnesses\<close>

text \<open>A cage of 1024 bytes at address 4096 with a live block of 24 bytes after a freed one of 8.\<close>

definition sample_cage :: Sandbox where
  "sample_cage = \<lparr>sb_base = 4096, sb_end = 5120, sb_size = 1024, sb_bump_offset = 0, sb_committed = 1024, sb_free_list = [],
     sb_initialized = True, sb_current = False\<rparr>"

lemma sample_init: "Sandbox_Initialize Mapped 4096 1024 new_sandbox = Inr sample_cage"
  by (simp add: Sandbox_Initialize_def new_sandbox_def sample_cage_def add64_def)

lemma AlignUp_8: "v \<le> 2 ^ 63 \<Longrightarrow> AlignUp v 8 = (v + 7) div 8 * 8"
  using AlignUp_eq [of 3 v] by simp

lemma AlignUp_16: "v \<le> 2 ^ 63 \<Longrightarrow> AlignUp v 16 = (v + 15) div 16 * 16"
  using AlignUp_eq [of 4 v] by simp

lemmas cage_eval = Sandbox_TryAllocate_def AllocateFromFreeList_def Sandbox_CommitTo_def Sandbox_Free_def Sandbox_Contains_def
  block_fits_def block_head_def leftover_def merge_next_def merge_prev_def AlignUp_8 AlignUp_16
  add64_def sub64_def sample_cage_def extract_Cons_code extract_Nil_code Let_def

lemma sample_alloc: "Sandbox_TryAllocate Mapped sample_cage 8 8 = Inr (Some 4096, sample_cage\<lparr>sb_bump_offset := 8\<rparr>)"
  "Sandbox_TryAllocate Mapped (sample_cage\<lparr>sb_bump_offset := 8\<rparr>) 24 8 = Inr (Some 4104, sample_cage\<lparr>sb_bump_offset := 32\<rparr>)"
  by (simp_all add: cage_eval)

lemma request_ok_8: "n \<le> 2 ^ 63 \<Longrightarrow> request_ok n 8"
  unfolding request_ok_def by (intro conjI exI [of _ 3]) simp_all

lemma sample_reach: "cage_reach Mapped (sample_cage\<lparr>sb_bump_offset := 32\<rparr>) {(4104, 24), (4096, 8)}"
proof -
  have "cage_reach Mapped sample_cage {}" by (rule cage_reach.init [OF sample_init]) simp
  from cage_reach.alloc [OF this request_ok_8 sample_alloc(1)]
  have "cage_reach Mapped (sample_cage\<lparr>sb_bump_offset := 8\<rparr>) {(4096, 8)}" by (simp add: add_live_def)
  from cage_reach.alloc [OF this request_ok_8 sample_alloc(2)] show ?thesis by (simp add: add_live_def)
qed

text \<open>The sum of the skipped head and the size wraps around: with a free block of 24 bytes at an odd
  multiple of eight, a request of \<open>2 ^ 64 - 8\<close> bytes aligned to sixteen is granted, and the free
  list it leaves has blocks that overlap.\<close>

lemma free_list_request_wraps:
  "\<exists>sb. Sandbox_Free (sample_cage\<lparr>sb_bump_offset := 32\<rparr>) 4104 24 = Inr sb \<and>
     Sandbox_TryAllocate Mapped sb (2 ^ 64 - 8) 16 = Inr (Some 4112, sb\<lparr>sb_free_list := [(8, 8), (8, 24)]\<rparr>)"
  by (simp add: cage_eval)

subsection \<open>The properties\<close>



text \<open>Freed memory is available again: after a block in use is freed, a request of its size with
  an alignment its address satisfies is granted, whatever else is allocated.\<close>

theorem freed_block_reusable:
  assumes "cage_reach host sb L" "(p, n) \<in> L" "Sandbox_Free sb p n = Inr sb'" "request_ok n alignment" "alignment dvd p"
  shows "\<exists>q sb''. Sandbox_TryAllocate host sb' n alignment = Inr (Some q, sb'')"
proof -
  obtain M where M: "L = at_base sb ` M" "cage_ok host sb M" using cage_reach_inv [OF assms(1)] by (auto simp: cage_inv_def)
  obtain offset where o': "(offset, n) \<in> M" "p = sb_base sb + offset" using assms(2) by (auto simp: M(1) at_base_def)
  have f: "cage_ok host sb' (M - {(offset, n)})" "sb_base sb' = sb_base sb" using Free_ok [OF M(2) o'(1)] assms(3) o'(2) by auto
  obtain c where "c \<in> set (sb_free_list sb')" "within (offset, n) c" using Free_covers [OF M(2) o'(1)] assms(3) o'(2) by auto
  from fitting_block_used [OF f(1) assms(4) this] show ?thesis using assms(5) o'(2) f(2) by simp
qed

theorem freed_block_reusable_witness:
  "\<exists>sb q sb'. Sandbox_Free (sample_cage\<lparr>sb_bump_offset := 32\<rparr>) 4096 8 = Inr sb \<and>
     Sandbox_TryAllocate Mapped sb 8 8 = Inr (Some q, sb')"
proof -
  obtain sb where f: "Sandbox_Free (sample_cage\<lparr>sb_bump_offset := 32\<rparr>) 4096 8 = Inr sb"
    by (simp add: Sandbox_Free_def sample_cage_def Sandbox_Contains_def Let_def)
  have "(8 :: nat) dvd 4096" by simp
  from freed_block_reusable [OF sample_reach _ f request_ok_8 this] f show ?thesis by simp
qed



text \<open>C27.  Compressed pointers stay inside: every 32-bit value decodes to an address in the cage, and in
  a cage of at most 4 GiB an address in it is encoded so that decoding gives it back; an
  address outside is refused.\<close>

theorem sandboxed_pointers_contained:
  assumes "cage_reach host sb L"
  shows "(\<exists>a. DecodeSandboxedPointer sb encoded = Some a \<and> Sandbox_Contains sb a) \<and>
    (if Sandbox_Contains sb a
     then \<exists>e < 2 ^ 32. EncodeSandboxedPointer sb a = Inr e \<and> (sb_size sb \<le> 2 ^ 32 \<longrightarrow> DecodeSandboxedPointer sb e = Some a)
     else EncodeSandboxedPointer sb a = Inl CheckFailed)"
proof -
  obtain M where M: "cage_ok host sb M" using cage_reach_inv [OF assms] by (auto simp: cage_inv_def)
  have c: "0 < sb_size sb" "sb_base sb + sb_size sb \<le> 2 ^ 63" "sb_end sb = sb_base sb + sb_size sb" "sb_initialized sb"
    using M by (simp_all add: cage_ok_def)
  have inside: "add64 (sb_base sb) o' = sb_base sb + o'" if "o' < sb_size sb" for o' using c(2) that by (intro add64_id) simp
  have "encoded mod sb_size sb < sb_size sb" using c(1) by simp
  then have "\<exists>a. DecodeSandboxedPointer sb encoded = Some a \<and> Sandbox_Contains sb a"
    using c inside by (simp add: DecodeSandboxedPointer_def Sandbox_Contains_def)
  moreover have "\<exists>e < 2 ^ 32. EncodeSandboxedPointer sb a = Inr e \<and> (sb_size sb \<le> 2 ^ 32 \<longrightarrow> DecodeSandboxedPointer sb e = Some a)"
    if a: "Sandbox_Contains sb a"
  proof -
    have o': "a - sb_base sb < sb_size sb" "sb_base sb \<le> a" "a < 2 ^ 64" using a c by (auto simp: Sandbox_Contains_def)
    then have "EncodeSandboxedPointer sb a = Inr (u32 (a - sb_base sb))" using a by (simp add: EncodeSandboxedPointer_def sub64_id)
    moreover have "DecodeSandboxedPointer sb (u32 (a - sb_base sb)) = Some a" if "sb_size sb \<le> 2 ^ 32"
      using that o' c(1) inside by (simp add: DecodeSandboxedPointer_def u32_id)
    ultimately show ?thesis by (intro exI [of _ "u32 (a - sb_base sb)"]) simp
  qed
  ultimately show ?thesis by (simp add: EncodeSandboxedPointer_def)
qed

theorem sandboxed_pointers_contained_witness:
  "\<exists>a e. DecodeSandboxedPointer (sample_cage\<lparr>sb_bump_offset := 32\<rparr>) 4294967295 = Some a \<and>
     Sandbox_Contains (sample_cage\<lparr>sb_bump_offset := 32\<rparr>) a \<and>
     EncodeSandboxedPointer (sample_cage\<lparr>sb_bump_offset := 32\<rparr>) 5000 = Inr e \<and>
     DecodeSandboxedPointer (sample_cage\<lparr>sb_bump_offset := 32\<rparr>) e = Some 5000"
proof -
  have "Sandbox_Contains (sample_cage\<lparr>sb_bump_offset := 32\<rparr>) 5000" "sb_size (sample_cage\<lparr>sb_bump_offset := 32\<rparr>) \<le> 2 ^ 32"
    by (simp_all add: Sandbox_Contains_def sample_cage_def)
  then show ?thesis using sandboxed_pointers_contained [OF sample_reach, of 4294967295 5000] by auto
qed

end
