(* ===== verification/Tagged_Payload.thy ===== *)
theory Tagged_Payload
  imports Voodoo_Prelude
begin

text \<open>
  Words that pack a tag, a mark bit and a payload (\<open>WASMSafeSpace/src/sandbox/tagged-payload.h\<close>), the
  ranges of tags they are checked against (\<open>include/v8-internal.h\<close>), and the four layouts in
  use: external, trusted, indirect and C++ heap pointers.
\<close>

type_synonym word64 = "64 word"
type_synonym tag = "16 word"

subsection \<open>Ranges of tags\<close>

record TagRange =
  range_first :: tag
  range_last :: tag

definition single_tag :: "tag \<Rightarrow> TagRange" where
  "single_tag t = \<lparr>range_first = t, range_last = t\<rparr>"

definition TagRange_IsEmpty :: "TagRange \<Rightarrow> bool" where
  "TagRange_IsEmpty r \<longleftrightarrow> range_first r = 0 \<and> range_last r = 0"

definition TagRange_Contains :: "TagRange \<Rightarrow> tag \<Rightarrow> bool" where
  "TagRange_Contains r t \<longleftrightarrow>
     (ucast t - ucast (range_first r) :: 32 word) \<le> ucast (range_last r) - ucast (range_first r)"

text \<open>The subtraction wraps around 32 bits, so that one comparison decides both bounds.\<close>

lemma TagRange_Contains_iff:
  assumes "range_first r \<le> range_last r"
  shows "TagRange_Contains r t \<longleftrightarrow> range_first r \<le> t \<and> t \<le> range_last r"
proof -
  let ?f = "ucast (range_first r) :: 32 word" and ?l = "ucast (range_last r) :: 32 word" and ?t = "ucast t :: 32 word"
  have lt: "unat x < 65536" for x :: tag using unsigned_less [of x, where ?'a = nat] by simp
  have n: "unat (ucast x :: 32 word) = unat x" for x :: tag
    using lt [of x] by (simp add: unsigned_ucast_eq take_bit_nat_eq_self)
  have le: "range_first r \<le> x \<longleftrightarrow> ?f \<le> ucast x" for x by (simp add: word_le_nat_alt n)
  have d: "unat (?l - ?f) = unat (range_last r) - unat (range_first r)"
    using assms le [of "range_last r"] by (simp add: unat_sub n)
  show ?thesis
  proof (cases "range_first r \<le> t")
    case True
    then have "unat (?t - ?f) = unat t - unat (range_first r)" using le [of t] by (simp add: unat_sub n)
    then show ?thesis using True assms by (auto simp: TagRange_Contains_def word_le_nat_alt d)
  next
    case False
    then have f: "unat t < unat (range_first r)" by (simp add: word_le_nat_alt)
    have "unat (?t - ?f) = 2 ^ 32 + unat t - unat (range_first r)"
      using f lt [of "range_first r"] by (simp add: unat_sub_if_size n word_size)
    then show ?thesis using False lt [of "range_last r"] lt [of "range_first r"] f
      by (auto simp: TagRange_Contains_def word_le_nat_alt d)
  qed
qed

subsection \<open>Tagged words\<close>

record TaggingScheme =
  kMarkBit :: word64
  kTagShift :: nat
  kTagMask :: word64
  kPayloadMask :: word64
  kPayloadShift :: nat
  kFreeEntryTag :: tag

definition Tag :: "TaggingScheme \<Rightarrow> word64 \<Rightarrow> tag \<Rightarrow> word64" where
  "Tag s pointer t = push_bit (kPayloadShift s) pointer OR push_bit (kTagShift s) (ucast t)"

definition ExtractTag :: "TaggingScheme \<Rightarrow> word64 \<Rightarrow> tag" where
  "ExtractTag s content = ucast (drop_bit (kTagShift s) (content AND kTagMask s))"

definition CheckTag :: "TaggingScheme \<Rightarrow> word64 \<Rightarrow> TagRange \<Rightarrow> bool" where
  "CheckTag s content r = TagRange_Contains r (ucast (drop_bit (kTagShift s) (content AND kTagMask s)))"

definition payload_of :: "TaggingScheme \<Rightarrow> word64 \<Rightarrow> word64" where
  "payload_of s content = drop_bit (kPayloadShift s) (content AND kPayloadMask s)"

definition UntagAllowNullHandle :: "TaggingScheme \<Rightarrow> word64 \<Rightarrow> TagRange \<Rightarrow> word64" where
  "UntagAllowNullHandle s content r = (if CheckTag s content r then payload_of s content else 0)"

definition IsTaggedWith :: "TaggingScheme \<Rightarrow> word64 \<Rightarrow> tag \<Rightarrow> bool" where
  "IsTaggedWith s content t = CheckTag s content (single_tag t)"

definition SetMarkBit :: "TaggingScheme \<Rightarrow> word64 \<Rightarrow> word64" where
  "SetMarkBit s content = content OR kMarkBit s"

definition ClearMarkBit :: "TaggingScheme \<Rightarrow> word64 \<Rightarrow> word64" where
  "ClearMarkBit s content = content AND NOT (kMarkBit s)"

definition HasMarkBitSet :: "TaggingScheme \<Rightarrow> word64 \<Rightarrow> bool" where
  "HasMarkBitSet s content \<longleftrightarrow> content AND kMarkBit s \<noteq> 0"

definition SetTag :: "TaggingScheme \<Rightarrow> tag \<Rightarrow> word64 \<Rightarrow> word64" where
  "SetTag s t content = (content AND NOT (kTagMask s)) OR push_bit (kTagShift s) (ucast t)"

definition ContainsFreelistLink :: "TaggingScheme \<Rightarrow> word64 \<Rightarrow> bool" where
  "ContainsFreelistLink s content = IsTaggedWith s content (kFreeEntryTag s)"

text \<open>The payload of a free entry is the index of the next one.\<close>

definition ExtractFreelistLink :: "TaggingScheme \<Rightarrow> word64 \<Rightarrow> nat option" where
  "ExtractFreelistLink s content =
     (if IsTaggedWith s content (kFreeEntryTag s) then Some (unat (ucast (payload_of s content) :: 32 word)) else None)"

definition MakeFreelistEntry :: "TaggingScheme \<Rightarrow> nat \<Rightarrow> word64" where
  "MakeFreelistEntry s next_free_index = Tag s (of_nat next_free_index) (kFreeEntryTag s)"

subsection \<open>The four layouts\<close>

definition external_scheme :: TaggingScheme where
  "external_scheme = \<lparr>kMarkBit = 0x0000800000000000, kTagShift = 48, kTagMask = 0xffff000000000000,
     kPayloadMask = 0x00007fffffffffff, kPayloadShift = 0, kFreeEntryTag = 0x7fff\<rparr>"

definition trusted_scheme :: TaggingScheme where
  "trusted_scheme = \<lparr>kMarkBit = 0x0001000000000000, kTagShift = 49, kTagMask = 0xfffe000000000000,
     kPayloadMask = 0x0000ffffffffffff, kPayloadShift = 0, kFreeEntryTag = 0xff\<rparr>"

definition indirect_scheme :: TaggingScheme where
  "indirect_scheme = \<lparr>kMarkBit = 0x0080000000000000, kTagShift = 56, kTagMask = 0xff00000000000000,
     kPayloadMask = 0x007fffffffffffff, kPayloadShift = 0, kFreeEntryTag = 0xff\<rparr>"

definition cppheap_scheme :: TaggingScheme where
  "cppheap_scheme = \<lparr>kMarkBit = 0x0001000000000000, kTagShift = 49, kTagMask = 0xfffe000000000000,
     kPayloadMask = 0x0000ffffffffffff, kPayloadShift = 0, kFreeEntryTag = 0x7fff\<rparr>"

text \<open>What the layouts have in common: the payload fills the low bits, the mark bit follows, the tag
  fills the bits from its shift on, and the free tag fits.\<close>

definition scheme_ok :: "TaggingScheme \<Rightarrow> nat \<Rightarrow> bool" where
  "scheme_ok s w \<longleftrightarrow> 32 \<le> w \<and> kTagShift s = w + 1 \<and> w < 63 \<and> kPayloadShift s = 0 \<and>
     kTagMask s = NOT (mask (w + 1)) \<and> kPayloadMask s = mask w \<and> kMarkBit s = push_bit w 1 \<and>
     unat (kFreeEntryTag s) < 2 ^ (63 - w)"

lemma schemes_ok:
  "scheme_ok external_scheme 47" "scheme_ok trusted_scheme 48" "scheme_ok indirect_scheme 55" "scheme_ok cppheap_scheme 48"
  by (simp_all add: scheme_ok_def external_scheme_def trusted_scheme_def indirect_scheme_def cppheap_scheme_def mask_eq_exp_minus_1)

subsection \<open>Packing and unpacking\<close>

lemma no_high_bits: "unat x < 2 ^ w \<Longrightarrow> bit x n \<Longrightarrow> n < w"
proof -
  assume "unat x < 2 ^ w" "bit x n"
  then have "take_bit w (unat x) = unat x" "bit (unat x) n"
    by (simp_all add: take_bit_nat_eq_self bit_unsigned_iff)
  then show ?thesis by (metis bit_take_bit_iff)
qed

definition payload_fits :: "nat \<Rightarrow> word64 \<Rightarrow> bool" where
  "payload_fits w p \<longleftrightarrow> unat p < 2 ^ w"

definition tag_fits :: "nat \<Rightarrow> tag \<Rightarrow> bool" where
  "tag_fits w t \<longleftrightarrow> unat t < 2 ^ (63 - w)"

lemma ExtractTag_bit:
  assumes "scheme_ok s w"
  shows "bit (ExtractTag s content) n \<longleftrightarrow> n < 16 \<and> bit content (n + (w + 1))"
  using assms by (auto simp: ExtractTag_def scheme_ok_def bit_simps ac_simps dest: bit_imp_le_length)

lemma payload_of_bit:
  assumes "scheme_ok s w"
  shows "bit (payload_of s content) n \<longleftrightarrow> n < w \<and> bit content n"
  using assms by (auto simp: payload_of_def scheme_ok_def bit_simps dest: bit_imp_le_length)

lemma Tag_bit:
  assumes "scheme_ok s w"
  shows "bit (Tag s p t) n \<longleftrightarrow> bit p n \<or> n < 64 \<and> w < n \<and> bit t (n - (w + 1))"
proof -
  have "kPayloadShift s = 0" "kTagShift s = w + 1" using assms by (simp_all add: scheme_ok_def)
  moreover have "bit (p OR push_bit k (ucast t)) n \<longleftrightarrow> bit p n \<or> n < 64 \<and> k \<le> n \<and> bit t (n - k)" for k
    by (auto simp: bit_simps dest: bit_imp_le_length)
  ultimately show ?thesis by (simp add: Tag_def Suc_le_eq del: push_bit_Suc)
qed

lemma ExtractTag_Tag:
  assumes s: "scheme_ok s w" and p: "payload_fits w p" and t: "tag_fits w t"
  shows "ExtractTag s (Tag s p t) = t"
proof (rule bit_eqI)
  fix n
  have "bit t n \<Longrightarrow> n < 63 - w" using no_high_bits t by (auto simp: tag_fits_def)
  moreover have "\<not> bit p (n + (w + 1))" using no_high_bits p by (fastforce simp: payload_fits_def)
  ultimately show "bit (ExtractTag s (Tag s p t)) n \<longleftrightarrow> bit t n"
    by (auto simp: ExtractTag_bit [OF s] Tag_bit [OF s] dest: bit_imp_le_length)
qed

lemma payload_of_Tag:
  assumes s: "scheme_ok s w" and p: "payload_fits w p"
  shows "payload_of s (Tag s p t) = p"
proof (rule bit_eqI)
  fix n
  have "bit p n \<Longrightarrow> n < w" using no_high_bits p by (auto simp: payload_fits_def)
  then show "bit (payload_of s (Tag s p t)) n \<longleftrightarrow> bit p n" by (auto simp: payload_of_bit [OF s] Tag_bit [OF s])
qed

lemma mark_bit_invisible:
  assumes s: "scheme_ok s w"
  shows "ExtractTag s (SetMarkBit s c) = ExtractTag s c" "payload_of s (SetMarkBit s c) = payload_of s c"
    "ExtractTag s (ClearMarkBit s c) = ExtractTag s c" "payload_of s (ClearMarkBit s c) = payload_of s c"
    "HasMarkBitSet s (SetMarkBit s c)" "\<not> HasMarkBitSet s (ClearMarkBit s c)"
proof -
  have m: "bit (kMarkBit s) n \<longleftrightarrow> n = w" for n using s by (auto simp: scheme_ok_def bit_simps)
  show "ExtractTag s (SetMarkBit s c) = ExtractTag s c" "ExtractTag s (ClearMarkBit s c) = ExtractTag s c"
    by (rule bit_eqI, auto simp: ExtractTag_bit [OF s] SetMarkBit_def ClearMarkBit_def bit_simps m dest: bit_imp_le_length)+
  show "payload_of s (SetMarkBit s c) = payload_of s c" "payload_of s (ClearMarkBit s c) = payload_of s c"
    by (rule bit_eqI, auto simp: payload_of_bit [OF s] SetMarkBit_def ClearMarkBit_def bit_simps m dest: bit_imp_le_length)+
  have "bit (SetMarkBit s c AND kMarkBit s) w" by (simp add: SetMarkBit_def bit_simps m)
  then show "HasMarkBitSet s (SetMarkBit s c)" unfolding HasMarkBitSet_def by (metis bit_0_eq bot_apply bot_bool_def)
  have "ClearMarkBit s c AND kMarkBit s = 0" by (rule bit_eqI) (auto simp: ClearMarkBit_def bit_simps m)
  then show "\<not> HasMarkBitSet s (ClearMarkBit s c)" by (simp add: HasMarkBitSet_def)
qed

subsection \<open>Free entries\<close>

lemma CheckTag_ExtractTag: "CheckTag s c r = TagRange_Contains r (ExtractTag s c)"
  by (simp add: CheckTag_def ExtractTag_def)

lemma IsTaggedWith_iff: "IsTaggedWith s c t \<longleftrightarrow> ExtractTag s c = t"
  by (auto simp: IsTaggedWith_def CheckTag_ExtractTag TagRange_Contains_iff single_tag_def)

lemma ExtractFreelistLink_iff: "ExtractFreelistLink s c = None \<longleftrightarrow> \<not> ContainsFreelistLink s c"
  by (simp add: ExtractFreelistLink_def ContainsFreelistLink_def)

lemma free_entry_link:
  assumes s: "scheme_ok s w" and i: "i < 2 ^ 32"
  shows "ExtractFreelistLink s (MakeFreelistEntry s i) = Some i"
proof -
  have u: "unat (of_nat i :: word64) = i" using i by (subst unat_of_nat) (simp add: take_bit_nat_eq_self)
  have "(2 :: nat) ^ 32 \<le> 2 ^ w" using s by (intro power_increasing) (simp_all add: scheme_ok_def)
  then have p: "payload_fits w (of_nat i)" using i by (simp add: payload_fits_def u)
  have t: "tag_fits w (kFreeEntryTag s)" using s by (simp add: tag_fits_def scheme_ok_def)
  have "unat (ucast (of_nat i :: word64) :: 32 word) = i" using i by (simp add: unsigned_ucast_eq u take_bit_nat_eq_self)
  then show ?thesis
    by (simp add: ExtractFreelistLink_def MakeFreelistEntry_def IsTaggedWith_iff ExtractTag_Tag [OF s p t] payload_of_Tag [OF s p])
qed

lemma link_bound: "ExtractFreelistLink s c = Some i \<Longrightarrow> i < 2 ^ 32"
  using unsigned_less [of "ucast (payload_of s c) :: 32 word", where ?'a = nat]
  by (auto simp: ExtractFreelistLink_def split: if_splits)

end
