(* ===== verification/Entity_Table.thy ===== *)
theory Entity_Table
  imports Voodoo_Prelude
begin

text \<open>
  The table of entries with a free list threaded through them that all pointer tables share
  (\<open>WASMSafeSpace/src/sandbox/external-entity-table.h\<close>).  The template parameter \<open>Entry\<close> is what the
  table asks of an entry: the free entry that links to an index, and the link of an entry if it is
  free.  A result \<open>None\<close> stands for undefined behaviour: an index out of range, or a free list whose
  head is not a free entry.
\<close>

record 'e EntityTable =
  entries :: "'e list"
  free_list_head :: nat

definition kNullIndex :: nat where
  "kNullIndex = 2 ^ 32 - 1"

definition empty_table :: "'e EntityTable" where
  "empty_table = \<lparr>entries = [], free_list_head = kNullIndex\<rparr>"

definition IsInBounds :: "'e EntityTable \<Rightarrow> nat \<Rightarrow> bool" where
  "IsInBounds t index \<longleftrightarrow> index < length (entries t)"

definition AllocateEntry :: "('e \<Rightarrow> nat option) \<Rightarrow> 'e \<Rightarrow> ('e \<Rightarrow> 'e) \<Rightarrow> 'e EntityTable \<Rightarrow> (nat \<times> 'e EntityTable) option" where
  "AllocateEntry link blank init t =
     (if free_list_head t \<noteq> kNullIndex
      then do {
        e \<leftarrow> nth_opt (entries t) (free_list_head t);
        next_free \<leftarrow> link e;
        Some (free_list_head t, t\<lparr>entries := (entries t)[free_list_head t := init e], free_list_head := next_free\<rparr>) }
      else do {
        let index = u32 (length (entries t));
        let es = entries t @ [blank];
        e \<leftarrow> nth_opt es index;
        Some (index, t\<lparr>entries := es[index := init e]\<rparr>) })"

definition FreeEntry :: "(nat \<Rightarrow> 'e) \<Rightarrow> nat \<Rightarrow> 'e EntityTable \<Rightarrow> 'e EntityTable option" where
  "FreeEntry make_free index t =
     (if IsInBounds t index
      then Some (t\<lparr>entries := (entries t)[index := make_free (free_list_head t)], free_list_head := index\<rparr>)
      else None)"

text \<open>The rebuilding of the free list from one index on.\<close>

definition relink :: "('e \<Rightarrow> nat option) \<Rightarrow> (nat \<Rightarrow> 'e) \<Rightarrow> nat \<Rightarrow> 'e list \<times> nat \<Rightarrow> 'e list \<times> nat" where
  "relink link make_free i st =
     (case st of (es, new_head) \<Rightarrow> if link (es ! i) \<noteq> None then (es[i := make_free new_head], i) else (es, new_head))"

definition Compact :: "('e \<Rightarrow> nat option) \<Rightarrow> (nat \<Rightarrow> 'e) \<Rightarrow> 'e EntityTable \<Rightarrow> 'e EntityTable" where
  "Compact link make_free t =
     (let es = rev (dropWhile (\<lambda>e. link e \<noteq> None) (rev (entries t)));
          (es, new_head) = fold (relink link make_free) [0..<u32 (length es)] (es, kNullIndex)
      in \<lparr>entries = es, free_list_head = new_head\<rparr>)"

subsection \<open>The free list\<close>

text \<open>The indices of the free list from a head on.\<close>

fun free_chain :: "('e \<Rightarrow> nat option) \<Rightarrow> 'e list \<Rightarrow> nat \<Rightarrow> nat list \<Rightarrow> bool" where
  "free_chain link es h [] \<longleftrightarrow> h = kNullIndex"
| "free_chain link es h (i # ch) \<longleftrightarrow> h = i \<and> i < length es \<and> (\<exists>k. link (es ! i) = Some k \<and> free_chain link es k ch)"

text \<open>The free list holds every free entry once.\<close>

definition table_ok :: "('e \<Rightarrow> nat option) \<Rightarrow> 'e EntityTable \<Rightarrow> bool" where
  "table_ok link t \<longleftrightarrow> length (entries t) \<le> kNullIndex \<and>
     (\<exists>ch. free_chain link (entries t) (free_list_head t) ch \<and> distinct ch \<and>
        set ch = {i. i < length (entries t) \<and> link (entries t ! i) \<noteq> None})"

definition table_room :: "'e EntityTable \<Rightarrow> bool" where
  "table_room t \<longleftrightarrow> free_list_head t \<noteq> kNullIndex \<or> length (entries t) < kNullIndex"

definition live_entry :: "('e \<Rightarrow> nat option) \<Rightarrow> 'e EntityTable \<Rightarrow> nat \<Rightarrow> 'e option" where
  "live_entry link t i = (if i < length (entries t) \<and> link (entries t ! i) = None then Some (entries t ! i) else None)"

lemma table_okI:
  assumes "length (entries t) \<le> kNullIndex" "free_chain link (entries t) (free_list_head t) ch" "distinct ch"
    "set ch = {i. i < length (entries t) \<and> link (entries t ! i) \<noteq> None}"
  shows "table_ok link t"
  using assms unfolding table_ok_def by blast

lemma free_chain_update:
  "free_chain link es h ch \<Longrightarrow> i \<notin> set ch \<Longrightarrow> free_chain link (es[i := e]) h ch"
  by (induction ch arbitrary: h) auto

lemma free_chain_append: "free_chain link es h ch \<Longrightarrow> free_chain link (es @ es') h ch"
  by (induction ch arbitrary: h) (auto simp: nth_append)

lemma free_chain_head:
  assumes "table_ok link t"
  shows "free_list_head t = kNullIndex \<and> (\<forall>i < length (entries t). link (entries t ! i) = None) \<or>
    free_list_head t < length (entries t) \<and> (\<exists>k. link (entries t ! free_list_head t) = Some k)"
proof -
  obtain ch where c: "free_chain link (entries t) (free_list_head t) ch"
    "set ch = {i. i < length (entries t) \<and> link (entries t ! i) \<noteq> None}" using assms by (auto simp: table_ok_def)
  then show ?thesis by (cases ch) auto
qed

lemma live_entry_update:
  "i < length (entries t) \<Longrightarrow> link x = None \<Longrightarrow> live_entry link (t\<lparr>entries := (entries t)[i := x], free_list_head := h\<rparr>) = (live_entry link t)(i \<mapsto> x)"
  by (auto simp: live_entry_def fun_eq_iff nth_list_update)

lemma live_entry_freed:
  "i < length (entries t) \<Longrightarrow> link x \<noteq> None \<Longrightarrow> live_entry link (t\<lparr>entries := (entries t)[i := x], free_list_head := h\<rparr>) = (live_entry link t)(i := None)"
  by (auto simp: live_entry_def fun_eq_iff nth_list_update)

lemma live_entry_append:
  "link x = None \<Longrightarrow> live_entry link (t\<lparr>entries := entries t @ [x]\<rparr>) = (live_entry link t)(length (entries t) \<mapsto> x)"
  by (auto simp: live_entry_def fun_eq_iff nth_append)

text \<open>A live entry is overwritten by another.\<close>

lemma overwrite_ok:
  assumes ok: "table_ok link t" and i: "live_entry link t i \<noteq> None" and x: "link x = None"
  shows "table_ok link (t\<lparr>entries := (entries t)[i := x]\<rparr>) \<and> live_entry link (t\<lparr>entries := (entries t)[i := x]\<rparr>) = (live_entry link t)(i \<mapsto> x)"
proof -
  have b: "i < length (entries t)" "link (entries t ! i) = None" using i by (auto simp: live_entry_def split: if_splits)
  obtain ch where c: "free_chain link (entries t) (free_list_head t) ch" "distinct ch"
    "set ch = {i. i < length (entries t) \<and> link (entries t ! i) \<noteq> None}" using ok by (auto simp: table_ok_def)
  have "i \<notin> set ch" using b(2) c(3) by simp
  then have "free_chain link ((entries t)[i := x]) (free_list_head t) ch" by (rule free_chain_update [OF c(1)])
  moreover have "set ch = {j. j < length ((entries t)[i := x]) \<and> link ((entries t)[i := x] ! j) \<noteq> None}"
    using b x by (auto simp: c(3) nth_list_update)
  ultimately have "table_ok link (t\<lparr>entries := (entries t)[i := x]\<rparr>)"
    using ok c(2) by (intro table_okI [where ch = ch]) (simp_all add: table_ok_def)
  moreover have "live_entry link (t\<lparr>entries := (entries t)[i := x]\<rparr>) = (live_entry link t)(i \<mapsto> x)"
    using live_entry_update [of i t link x "free_list_head t"] b(1) x by simp
  ultimately show ?thesis ..
qed

lemma AllocateEntry_ok:
  assumes ok: "table_ok link t" and room: "table_room t" and x: "link x = None"
  shows "\<exists>i t'. AllocateEntry link blank (\<lambda>_. x) t = Some (i, t') \<and> i < kNullIndex \<and> live_entry link t i = None \<and>
    table_ok link t' \<and> live_entry link t' = (live_entry link t)(i \<mapsto> x)"
proof -
  obtain ch where c: "free_chain link (entries t) (free_list_head t) ch" "distinct ch"
    "set ch = {i. i < length (entries t) \<and> link (entries t ! i) \<noteq> None}"
    and len: "length (entries t) \<le> kNullIndex" using ok by (auto simp: table_ok_def)
  show ?thesis
  proof (cases ch)
    case Nil
    then have h: "free_list_head t = kNullIndex" using c(1) by simp
    then have l: "length (entries t) < kNullIndex" using room by (simp add: table_room_def)
    then have u: "u32 (length (entries t)) = length (entries t)" by (simp add: kNullIndex_def u32_id)
    let ?t = "t\<lparr>entries := entries t @ [x]\<rparr>"
    have "AllocateEntry link blank (\<lambda>_. x) t = Some (length (entries t), ?t)"
      by (simp add: AllocateEntry_def h u Let_def)
    moreover have "table_ok link ?t"
      using Nil c(3) l x by (intro table_okI [where ch = "[]"]) (auto simp: h nth_append)
    ultimately show ?thesis using l live_entry_append [of link x t] x by (auto simp: live_entry_def)
  next
    case (Cons i js)
    obtain k where k: "link (entries t ! i) = Some k" "free_chain link (entries t) k js" and i: "free_list_head t = i" "i < length (entries t)"
      using c(1) Cons by auto
    let ?t = "t\<lparr>entries := (entries t)[i := x], free_list_head := k\<rparr>"
    have "i < kNullIndex" using i(2) len by simp
    then have "AllocateEntry link blank (\<lambda>_. x) t = Some (i, ?t)" using i k by (simp add: AllocateEntry_def)
    moreover have "table_ok link ?t"
    proof (rule table_okI [where ch = js])
      show "free_chain link (entries ?t) (free_list_head ?t) js" using c(2) Cons by (simp add: free_chain_update [OF k(2)])
      show "set js = {j. j < length (entries ?t) \<and> link (entries ?t ! j) \<noteq> None}"
      proof -
        have "set js = set ch - {i}" using c(2) Cons by auto
        also have "\<dots> = {j. j < length (entries ?t) \<and> link (entries ?t ! j) \<noteq> None}"
          using x i(2) unfolding c(3) by (auto simp: nth_list_update split: if_splits)
        finally show ?thesis .
      qed
    qed (use c(2) Cons len in simp_all)
    moreover have "live_entry link ?t = (live_entry link t)(i \<mapsto> x)" by (rule live_entry_update [OF i(2)]) (rule x)
    moreover have "live_entry link t i = None" using k(1) by (simp add: live_entry_def)
    ultimately show ?thesis using \<open>i < kNullIndex\<close> by (intro exI [of _ i] exI [of _ ?t]) simp
  qed
qed

lemma AllocateEntry_total:
  assumes "table_ok link t" "table_room t"
  shows "\<exists>i t'. AllocateEntry link blank init t = Some (i, t')"
  using free_chain_head [OF assms(1)] assms(2)
  by (auto simp: AllocateEntry_def table_room_def Let_def u32_id kNullIndex_def)

subsection \<open>Entries with links\<close>

text \<open>What the table asks of its entries.\<close>

locale freelist_entry =
  fixes link :: "'e \<Rightarrow> nat option"
    and make_free :: "nat \<Rightarrow> 'e"
  assumes link_make_free: "i < 2 ^ 32 \<Longrightarrow> link (make_free i) = Some i"
begin

lemma FreeEntry_ok:
  assumes ok: "table_ok link t" and i: "live_entry link t i \<noteq> None"
  shows "\<exists>t'. FreeEntry make_free i t = Some t' \<and> table_ok link t' \<and> live_entry link t' = (live_entry link t)(i := None)"
proof -
  have b: "i < length (entries t)" "link (entries t ! i) = None" using i by (auto simp: live_entry_def split: if_splits)
  obtain ch where c: "free_chain link (entries t) (free_list_head t) ch" "distinct ch"
    "set ch = {i. i < length (entries t) \<and> link (entries t ! i) \<noteq> None}"
    and len: "length (entries t) \<le> kNullIndex" using ok by (auto simp: table_ok_def)
  have "free_list_head t < 2 ^ 32" using free_chain_head [OF ok] len by (auto simp: kNullIndex_def)
  then have m: "link (make_free (free_list_head t)) = Some (free_list_head t)" by (rule link_make_free)
  let ?es = "(entries t)[i := make_free (free_list_head t)]"
  let ?t = "t\<lparr>entries := ?es, free_list_head := i\<rparr>"
  have ni: "i \<notin> set ch" using b(2) c(3) by simp
  have fc: "free_chain link (entries ?t) (free_list_head ?t) (i # ch)"
    using free_chain_update [OF c(1) ni] b(1) m by simp
  have st: "set (i # ch) = {j. j < length (entries ?t) \<and> link (entries ?t ! j) \<noteq> None}"
    using b(1) m by (auto simp: c(3) nth_list_update)
  have "table_ok link ?t" by (rule table_okI [OF _ fc _ st]) (use ni c(2) len in simp_all)
  moreover have "live_entry link ?t = (live_entry link t)(i := None)" by (rule live_entry_freed [OF b(1)]) (simp add: m)
  ultimately show ?thesis using b(1) by (simp add: FreeEntry_def IsInBounds_def)
qed

text \<open>One step of rebuilding the free list: the chain covers the free entries seen so far.\<close>

lemma relink_step:
  assumes "free_chain link es h ch" "distinct ch" "set ch = {j. j < i \<and> link (es ! j) \<noteq> None}" "i < length es" "h < 2 ^ 32"
  shows "\<exists>es' h' ch'. relink link make_free i (es, h) = (es', h') \<and> length es' = length es \<and>
    (\<forall>j. link (es ! j) = None \<longrightarrow> es' ! j = es ! j) \<and> (\<forall>j. link (es' ! j) = None \<longleftrightarrow> link (es ! j) = None) \<and>
    free_chain link es' h' ch' \<and> distinct ch' \<and> set ch' = {j. j < Suc i \<and> link (es' ! j) \<noteq> None} \<and> (h' = h \<or> h' = i)"
proof (cases "link (es ! i) = None")
  case True
  then have "set ch = {j. j < Suc i \<and> link (es ! j) \<noteq> None}" unfolding assms(3) by (auto simp: less_Suc_eq)
  then show ?thesis using assms(1,2) True
    by (intro exI [of _ es] exI [of _ h] exI [of _ ch]) (simp add: relink_def)
next
  case False
  let ?es = "es[i := make_free h]"
  have m: "link (make_free h) = Some h" using assms(5) by (rule link_make_free)
  have ni: "i \<notin> set ch" using assms(3) by simp
  have n: "link (?es ! j) = None \<longleftrightarrow> link (es ! j) = None" "link (es ! j) = None \<Longrightarrow> ?es ! j = es ! j" for j
    using False m assms(4) by (auto simp: nth_list_update)
  have "free_chain link ?es h ch" by (rule free_chain_update [OF assms(1) ni])
  moreover have "set (i # ch) = {j. j < Suc i \<and> link (?es ! j) \<noteq> None}"
    using False by (auto simp: assms(3) n less_Suc_eq)
  ultimately show ?thesis using False n ni assms(2,4)
    by (intro exI [of _ ?es] exI [of _ i] exI [of _ "i # ch"]) (simp add: relink_def m)
qed

lemma relink_all:
  assumes "n \<le> length es" "length es < 2 ^ 32"
  shows "\<exists>es' h' ch'. fold (relink link make_free) [0..<n] (es, kNullIndex) = (es', h') \<and> length es' = length es \<and>
    (\<forall>j. link (es ! j) = None \<longrightarrow> es' ! j = es ! j) \<and> (\<forall>j. link (es' ! j) = None \<longleftrightarrow> link (es ! j) = None) \<and>
    free_chain link es' h' ch' \<and> distinct ch' \<and> set ch' = {j. j < n \<and> link (es' ! j) \<noteq> None} \<and> h' < 2 ^ 32"
  using assms(1)
proof (induction n)
  case 0
  then show ?case by (intro exI [of _ es] exI [of _ kNullIndex] exI [of _ "[]"]) (simp add: kNullIndex_def)
next
  case (Suc n)
  obtain es1 h1 ch1 where i: "fold (relink link make_free) [0..<n] (es, kNullIndex) = (es1, h1)" "length es1 = length es"
    "\<forall>j. link (es ! j) = None \<longrightarrow> es1 ! j = es ! j" "\<forall>j. link (es1 ! j) = None \<longleftrightarrow> link (es ! j) = None"
    "free_chain link es1 h1 ch1" "distinct ch1" "set ch1 = {j. j < n \<and> link (es1 ! j) \<noteq> None}" "h1 < 2 ^ 32"
    using Suc.IH [OF Suc_leD [OF Suc.prems]] by (elim exE conjE) (rule that)
  have n: "n < length es1" using Suc.prems i(2) by simp
  obtain es2 h2 ch2 where "relink link make_free n (es1, h1) = (es2, h2)" "length es2 = length es1"
    "\<forall>j. link (es1 ! j) = None \<longrightarrow> es2 ! j = es1 ! j" "\<forall>j. link (es2 ! j) = None \<longleftrightarrow> link (es1 ! j) = None"
    "free_chain link es2 h2 ch2" "distinct ch2" "set ch2 = {j. j < Suc n \<and> link (es2 ! j) \<noteq> None}" "h2 = h1 \<or> h2 = n"
    using relink_step [OF i(5-7) n i(8)] by (elim exE conjE) (rule that)
  then show ?case using i n assms(2)
    by (intro exI [of _ es2] exI [of _ h2] exI [of _ ch2]) auto
qed

text \<open>Compaction drops the free entries at the end, and only those; live entries keep their place.\<close>

lemma Compact_ok:
  assumes ok: "table_ok link t"
  shows "table_ok link (Compact link make_free t) \<and> live_entry link (Compact link make_free t) = live_entry link t \<and>
    length (entries (Compact link make_free t)) \<le> length (entries t) \<and>
    (entries (Compact link make_free t) \<noteq> [] \<longrightarrow> link (last (entries (Compact link make_free t))) = None)"
proof -
  let ?es = "rev (dropWhile (\<lambda>e. link e \<noteq> None) (rev (entries t)))"
  define es fs where "es = ?es" and "fs = rev (takeWhile (\<lambda>e. link e \<noteq> None) (rev (entries t)))"
  have e: "entries t = es @ fs" unfolding es_def fs_def by (metis rev_append rev_rev_ident takeWhile_dropWhile_id)
  have fs: "link f \<noteq> None" if "f \<in> set fs" for f
    using set_takeWhileD [OF that [unfolded fs_def set_rev]] by simp
  have last: "es \<noteq> [] \<longrightarrow> link (last es) = None"
    using hd_dropWhile [of "\<lambda>e. link e \<noteq> None" "rev (entries t)"] by (auto simp: es_def last_rev)
  have len: "length es < 2 ^ 32" "length es \<le> kNullIndex" using ok e by (auto simp: table_ok_def kNullIndex_def)
  obtain es' h' ch' where r: "fold (relink link make_free) [0..<length es] (es, kNullIndex) = (es', h')" "length es' = length es"
    "\<forall>j. link (es ! j) = None \<longrightarrow> es' ! j = es ! j" "\<forall>j. link (es' ! j) = None \<longleftrightarrow> link (es ! j) = None"
    "free_chain link es' h' ch'" "distinct ch'" "set ch' = {j. j < length es \<and> link (es' ! j) \<noteq> None}"
    using relink_all [OF order_refl len(1)] by (elim exE conjE) (rule that)
  have c: "Compact link make_free t = \<lparr>entries = es', free_list_head = h'\<rparr>"
    unfolding Compact_def es_def [symmetric] Let_def using r(1) len(1) by (simp add: u32_id)
  have "table_ok link (Compact link make_free t)" unfolding c
    by (rule table_okI [where ch = ch']) (use r len in simp_all)
  moreover have "live_entry link (Compact link make_free t) i = live_entry link t i" for i
  proof (cases "i < length es")
    case True
    then show ?thesis using r(2-4) by (simp add: c live_entry_def e nth_append)
  next
    case False
    then have "link (entries t ! i) \<noteq> None" if "i < length (entries t)" using that fs by (simp add: e nth_append)
    then show ?thesis using False r(2) by (auto simp: c live_entry_def)
  qed
  moreover have "es' \<noteq> [] \<longrightarrow> link (last es') = None" using last r(2,4) by (auto simp: last_conv_nth)
  ultimately show ?thesis using r(2) e by (auto simp: c)
qed

end

end
