(* ===== verification/Pointer_Tables.thy ===== *)
theory Pointer_Tables
  imports Tagged_Payload Entity_Table Handle_Table
begin

text \<open>
  The pointer tables: external, trusted and indirect pointers
  (\<open>WASMSafeSpace/src/sandbox/external-pointer-table.cc\<close>, \<open>trusted-pointer-table.cc\<close>,
  \<open>indirect-pointer-table.cc\<close>), C++ heap pointers
  (\<open>WASMv8bindings/src/sandbox/cppheap-pointer-table.cc\<close>), which share their code up to the layout of
  an entry, and code pointers (\<open>code-pointer-table.cc\<close>).  A handle is an index plus one, in 32 bits.
\<close>

definition HandleToIndex :: "nat \<Rightarrow> nat" where
  "HandleToIndex handle = sub32 handle 1"

definition IndexToHandle :: "nat \<Rightarrow> nat" where
  "IndexToHandle index = add32 index 1"

subsection \<open>Tables of tagged pointers\<close>

text \<open>The layout \<open>s\<close> selects the table.\<close>

definition PointerTable_Allocate :: "TaggingScheme \<Rightarrow> word64 \<Rightarrow> tag \<Rightarrow> word64 EntityTable \<Rightarrow> (nat \<times> word64 EntityTable) option" where
  "PointerTable_Allocate s pointer t tbl =
     map_option (\<lambda>(index, tbl). (IndexToHandle index, tbl)) (AllocateEntry (ExtractFreelistLink s) 0 (\<lambda>_. Tag s pointer t) tbl)"

definition PointerTable_Get :: "TaggingScheme \<Rightarrow> word64 EntityTable \<Rightarrow> nat \<Rightarrow> TagRange \<Rightarrow> word64" where
  "PointerTable_Get s tbl handle r =
     (if handle = 0 then 0
      else if \<not> IsInBounds tbl (HandleToIndex handle) then 0
      else UntagAllowNullHandle s (entries tbl ! HandleToIndex handle) r)"

definition PointerTable_Set :: "TaggingScheme \<Rightarrow> nat \<Rightarrow> word64 \<Rightarrow> tag \<Rightarrow> word64 EntityTable \<Rightarrow> word64 EntityTable option" where
  "PointerTable_Set s handle pointer t tbl =
     (if IsInBounds tbl (HandleToIndex handle)
      then Some (tbl\<lparr>entries := (entries tbl)[HandleToIndex handle := Tag s pointer t]\<rparr>) else None)"

definition PointerTable_FreeEntry :: "TaggingScheme \<Rightarrow> nat \<Rightarrow> word64 EntityTable \<Rightarrow> word64 EntityTable option" where
  "PointerTable_FreeEntry s handle tbl =
     (if handle = 0 then Some tbl else FreeEntry (MakeFreelistEntry s) (HandleToIndex handle) tbl)"

definition PointerTable_Contains :: "TaggingScheme \<Rightarrow> word64 EntityTable \<Rightarrow> nat \<Rightarrow> bool" where
  "PointerTable_Contains s tbl handle \<longleftrightarrow>
     handle \<noteq> 0 \<and> IsInBounds tbl (HandleToIndex handle) \<and> \<not> ContainsFreelistLink s (entries tbl ! HandleToIndex handle)"

definition PointerTable_Compact :: "TaggingScheme \<Rightarrow> word64 EntityTable \<Rightarrow> word64 EntityTable" where
  "PointerTable_Compact s = Compact (ExtractFreelistLink s) (MakeFreelistEntry s)"

subsection \<open>The table of code pointers\<close>

record CodeEntry =
  is_free :: bool
  marked :: bool
  next_free :: nat
  code_object :: word64
  entrypoint :: word64

definition blank_code_entry :: CodeEntry where
  "blank_code_entry = \<lparr>is_free = True, marked = False, next_free = 0, code_object = 0, entrypoint = 0\<rparr>"

definition MakeFreeCodeEntry :: "nat \<Rightarrow> CodeEntry" where
  "MakeFreeCodeEntry next_free_index = blank_code_entry\<lparr>is_free := True, next_free := next_free_index\<rparr>"

definition MakeCodePointerEntry :: "word64 \<Rightarrow> word64 \<Rightarrow> CodeEntry" where
  "MakeCodePointerEntry code entry = blank_code_entry\<lparr>is_free := False, code_object := code, entrypoint := entry\<rparr>"

definition code_link :: "CodeEntry \<Rightarrow> nat option" where
  "code_link e = (if is_free e then Some (next_free e) else None)"

definition CodeTable_Allocate :: "word64 \<Rightarrow> word64 \<Rightarrow> CodeEntry EntityTable \<Rightarrow> (nat \<times> CodeEntry EntityTable) option" where
  "CodeTable_Allocate code entry tbl =
     map_option (\<lambda>(index, tbl). (IndexToHandle index, tbl)) (AllocateEntry code_link blank_code_entry (\<lambda>_. MakeCodePointerEntry code entry) tbl)"

definition code_lookup :: "CodeEntry EntityTable \<Rightarrow> nat \<Rightarrow> (CodeEntry \<Rightarrow> word64) \<Rightarrow> word64" where
  "code_lookup tbl handle field =
     (if handle = 0 then 0
      else if \<not> IsInBounds tbl (HandleToIndex handle) \<or> is_free (entries tbl ! HandleToIndex handle) then 0
      else field (entries tbl ! HandleToIndex handle))"

definition GetEntrypoint :: "CodeEntry EntityTable \<Rightarrow> nat \<Rightarrow> word64" where
  "GetEntrypoint tbl handle = code_lookup tbl handle entrypoint"

definition GetCodeObject :: "CodeEntry EntityTable \<Rightarrow> nat \<Rightarrow> word64" where
  "GetCodeObject tbl handle = code_lookup tbl handle code_object"

definition code_update :: "nat \<Rightarrow> (CodeEntry \<Rightarrow> CodeEntry) \<Rightarrow> CodeEntry EntityTable \<Rightarrow> CodeEntry EntityTable option" where
  "code_update handle f tbl =
     (if IsInBounds tbl (HandleToIndex handle)
      then Some (tbl\<lparr>entries := (entries tbl)[HandleToIndex handle := f (entries tbl ! HandleToIndex handle)]\<rparr>) else None)"

definition SetEntrypoint :: "nat \<Rightarrow> word64 \<Rightarrow> CodeEntry EntityTable \<Rightarrow> CodeEntry EntityTable option" where
  "SetEntrypoint handle v = code_update handle (\<lambda>e. e\<lparr>entrypoint := v\<rparr>)"

definition SetCodeObject :: "nat \<Rightarrow> word64 \<Rightarrow> CodeEntry EntityTable \<Rightarrow> CodeEntry EntityTable option" where
  "SetCodeObject handle v = code_update handle (\<lambda>e. e\<lparr>code_object := v\<rparr>)"

definition CodeTable_FreeEntry :: "nat \<Rightarrow> CodeEntry EntityTable \<Rightarrow> CodeEntry EntityTable option" where
  "CodeTable_FreeEntry handle tbl = (if handle = 0 then Some tbl else FreeEntry MakeFreeCodeEntry (HandleToIndex handle) tbl)"

definition CodeTable_Contains :: "CodeEntry EntityTable \<Rightarrow> nat \<Rightarrow> bool" where
  "CodeTable_Contains tbl handle \<longleftrightarrow>
     handle \<noteq> 0 \<and> IsInBounds tbl (HandleToIndex handle) \<and> \<not> is_free (entries tbl ! HandleToIndex handle)"

subsection \<open>Tags handed out at run time\<close>

text \<open>The counter of \<open>WASMv8bindings/include/v8-sandbox.h\<close>, in 16 bits.\<close>

definition first_wrappable_tag :: tag where
  "first_wrappable_tag = 1"

definition AllocateCppHeapPointerTag :: "tag \<Rightarrow> tag \<times> tag" where
  "AllocateCppHeapPointerTag counter = (counter, counter + 1)"

definition AllocateCppHeapPointerTagRange :: "tag \<Rightarrow> tag \<Rightarrow> tag \<times> tag" where
  "AllocateCppHeapPointerTagRange count counter = (counter, counter + count)"

subsection \<open>Handles\<close>

definition live_handle :: "('e \<Rightarrow> nat option) \<Rightarrow> 'e EntityTable \<Rightarrow> nat \<Rightarrow> 'e option" where
  "live_handle link tbl handle = (if handle = 0 \<or> 2 ^ 32 \<le> handle then None else live_entry link tbl (handle - 1))"

lemma HandleToIndex_id: "0 < h \<Longrightarrow> h < 2 ^ 32 \<Longrightarrow> HandleToIndex h = h - 1"
  by (simp add: HandleToIndex_def sub32_id)

lemma IndexToHandle_id: "i < kNullIndex \<Longrightarrow> IndexToHandle i = i + 1"
  by (simp add: IndexToHandle_def kNullIndex_def add32_id)

lemma live_handle_upd:
  assumes "live_entry link tbl' = (live_entry link tbl)(i := x)" "i < kNullIndex"
  shows "live_handle link tbl' = (live_handle link tbl)(i + 1 := x)"
  using assms by (auto simp: live_handle_def fun_eq_iff kNullIndex_def)

lemma live_handleD:
  assumes "live_handle link tbl h = Some e" "table_ok link tbl"
  shows "0 < h" "h < 2 ^ 32" "HandleToIndex h = h - 1" "IsInBounds tbl (h - 1)" "entries tbl ! (h - 1) = e" "link e = None"
    "live_entry link tbl (h - 1) \<noteq> None" "h - 1 < kNullIndex"
  using assms HandleToIndex_id [of h] by (auto simp: live_handle_def live_entry_def IsInBounds_def table_ok_def split: if_splits)

lemma handle_None:
  assumes "live_handle link tbl h = None" "h \<noteq> 0" "h < 2 ^ 32" "IsInBounds tbl (HandleToIndex h)"
  shows "link (entries tbl ! HandleToIndex h) \<noteq> None"
  using assms HandleToIndex_id [of h] by (auto simp: live_handle_def live_entry_def IsInBounds_def split: if_splits)

lemma handle_Some:
  assumes "live_handle link tbl h = Some e" "h < 2 ^ 32"
  shows "h \<noteq> 0" "IsInBounds tbl (HandleToIndex h)" "entries tbl ! HandleToIndex h = e" "link e = None"
  using assms HandleToIndex_id [of h] by (auto simp: live_handle_def live_entry_def IsInBounds_def split: if_splits)

text \<open>The three operations on handles that every table builds from those of the entry table.\<close>

lemma alloc_handle:
  assumes "table_ok link tbl" "table_room tbl" "link x = None"
  shows "\<exists>h tbl'. map_option (\<lambda>(index, tbl). (IndexToHandle index, tbl)) (AllocateEntry link blank (\<lambda>_. x) tbl) = Some (h, tbl') \<and>
    h \<noteq> 0 \<and> h < 2 ^ 32 \<and> live_handle link tbl h = None \<and> table_ok link tbl' \<and> live_handle link tbl' = (live_handle link tbl)(h \<mapsto> x)"
proof -
  obtain i tbl' where a: "AllocateEntry link blank (\<lambda>_. x) tbl = Some (i, tbl')" "i < kNullIndex" "live_entry link tbl i = None"
    "table_ok link tbl'" "live_entry link tbl' = (live_entry link tbl)(i \<mapsto> x)"
    using AllocateEntry_ok [of link tbl x blank, OF assms] by (elim exE conjE) (rule that)
  show ?thesis using a live_handle_upd [OF a(5,2)]
    by (intro exI [of _ "i + 1"] exI [of _ tbl']) (simp add: IndexToHandle_id live_handle_def kNullIndex_def)
qed

lemma overwrite_handle:
  assumes "table_ok link tbl" "live_handle link tbl h = Some e" "link x = None"
  defines "tbl' \<equiv> tbl\<lparr>entries := (entries tbl)[HandleToIndex h := x]\<rparr>"
  shows "IsInBounds tbl (HandleToIndex h)" "table_ok link tbl'" "live_handle link tbl' = (live_handle link tbl)(h \<mapsto> x)"
proof -
  note h = live_handleD [OF assms(2,1)]
  show "IsInBounds tbl (HandleToIndex h)" using h by simp
  have "table_ok link tbl' \<and> live_entry link tbl' = (live_entry link tbl)(h - 1 \<mapsto> x)"
    unfolding tbl'_def h(3) by (rule overwrite_ok) (use assms(1,3) h(7) in simp_all)
  then show "table_ok link tbl'" "live_handle link tbl' = (live_handle link tbl)(h \<mapsto> x)"
    using live_handle_upd [of link tbl' tbl "h - 1" "Some x"] h(1,8) by simp_all
qed

context freelist_entry
begin

lemma free_handle:
  assumes "table_ok link tbl" "live_handle link tbl h = Some e"
  shows "\<exists>tbl'. FreeEntry make_free (HandleToIndex h) tbl = Some tbl' \<and> table_ok link tbl' \<and> live_handle link tbl' = (live_handle link tbl)(h := None)"
proof -
  note h = live_handleD [OF assms(2,1)]
  from FreeEntry_ok [OF assms(1) h(7)] obtain tbl' where
    "FreeEntry make_free (h - 1) tbl = Some tbl'" "table_ok link tbl'" "live_entry link tbl' = (live_entry link tbl)(h - 1 := None)"
    by (elim exE conjE) (rule that)
  then show ?thesis using live_handle_upd [of link tbl' tbl "h - 1" None] h(1,3,8) by auto
qed

lemma compact_handle:
  assumes "table_ok link tbl"
  shows "table_ok link (Compact link make_free tbl) \<and> live_handle link (Compact link make_free tbl) = live_handle link tbl"
  using Compact_ok [OF assms] by (simp add: live_handle_def fun_eq_iff)

end

end
