(* ===== verification/Pointer_Properties.thy ===== *)
theory Pointer_Properties
  imports Pointer_Tables
begin

text \<open>
  The pointer tables implement partial maps from handles to tagged pointers, and what a caller can
  learn from a handle is decided by the tag it asks for.
\<close>

subsection \<open>The contract of the tables\<close>

text \<open>The four layouts with the width of their payload.\<close>

definition layouts :: "(TaggingScheme \<times> nat) set" where
  "layouts = {(external_scheme, 47), (trusted_scheme, 48), (indirect_scheme, 55), (cppheap_scheme, 48)}"

lemma layouts_ok: "(s, w) \<in> layouts \<Longrightarrow> scheme_ok s w"
  using schemes_ok by (auto simp: layouts_def)

text \<open>References a table can hold: the pointer and the tag fit and the tag is not the free one.\<close>

definition valid_ref :: "TaggingScheme \<Rightarrow> nat \<Rightarrow> word64 \<times> tag \<Rightarrow> bool" where
  "valid_ref s w x \<longleftrightarrow> payload_fits w (fst x) \<and> tag_fits w (snd x) \<and> snd x \<noteq> kFreeEntryTag s"

definition ref_of :: "TaggingScheme \<Rightarrow> word64 \<Rightarrow> word64 \<times> tag" where
  "ref_of s e = (payload_of s e, ExtractTag s e)"

definition pointer_view :: "TaggingScheme \<Rightarrow> word64 EntityTable \<Rightarrow> nat \<rightharpoonup> word64 \<times> tag" where
  "pointer_view s tbl h = map_option (ref_of s) (live_handle (ExtractFreelistLink s) tbl h)"

lemma scheme_entry: "scheme_ok s w \<Longrightarrow> freelist_entry (ExtractFreelistLink s) (MakeFreelistEntry s)"
  by unfold_locales (rule free_entry_link)

interpretation code_entry: freelist_entry code_link MakeFreeCodeEntry
  by unfold_locales (simp add: code_link_def MakeFreeCodeEntry_def)

lemma link_None_iff: "ExtractFreelistLink s e = None \<longleftrightarrow> ExtractTag s e \<noteq> kFreeEntryTag s"
  by (simp add: ExtractFreelistLink_def IsTaggedWith_iff)

lemma valid_ref_Tag:
  assumes "scheme_ok s w" "valid_ref s w (p, t)"
  shows "ref_of s (Tag s p t) = (p, t)" "ExtractFreelistLink s (Tag s p t) = None"
  using assms ExtractTag_Tag [of s w p t] payload_of_Tag [of s w p t]
  by (simp_all add: ref_of_def valid_ref_def link_None_iff)

lemma pointer_view_upd:
  "live_handle (ExtractFreelistLink s) tbl' = (live_handle (ExtractFreelistLink s) tbl)(h := e) \<Longrightarrow>
     pointer_view s tbl' = (pointer_view s tbl)(h := map_option (ref_of s) e)"
  by (simp add: pointer_view_def fun_eq_iff)

lemma Allocate_ok:
  assumes s: "scheme_ok s w" and ok: "table_ok (ExtractFreelistLink s) tbl" "table_room tbl" and v: "valid_ref s w (p, t)"
  shows "\<exists>h tbl'. PointerTable_Allocate s p t tbl = Some (h, tbl') \<and> h \<noteq> 0 \<and> h < 2 ^ 32 \<and> pointer_view s tbl h = None \<and>
    table_ok (ExtractFreelistLink s) tbl' \<and> pointer_view s tbl' = (pointer_view s tbl)(h \<mapsto> (p, t))"
  using alloc_handle [OF ok valid_ref_Tag(2) [OF s v], of 0] valid_ref_Tag(1) [OF s v] pointer_view_upd
  unfolding PointerTable_Allocate_def by (fastforce simp: pointer_view_def)

lemma Set_ok:
  assumes s: "scheme_ok s w" and ok: "table_ok (ExtractFreelistLink s) tbl" and h: "pointer_view s tbl h = Some x" and v: "valid_ref s w (p, t)"
  shows "\<exists>tbl'. PointerTable_Set s h p t tbl = Some tbl' \<and> table_ok (ExtractFreelistLink s) tbl' \<and> pointer_view s tbl' = (pointer_view s tbl)(h \<mapsto> (p, t))"
proof -
  obtain e where e: "live_handle (ExtractFreelistLink s) tbl h = Some e" using h by (auto simp: pointer_view_def)
  note o' = overwrite_handle [OF ok e valid_ref_Tag(2) [OF s v]]
  show ?thesis using o' pointer_view_upd [OF o'(3)] valid_ref_Tag(1) [OF s v] by (simp add: PointerTable_Set_def)
qed

lemma Free_entry_ok:
  assumes s: "scheme_ok s w" and ok: "table_ok (ExtractFreelistLink s) tbl" and h: "pointer_view s tbl h = Some x"
  shows "\<exists>tbl'. PointerTable_FreeEntry s h tbl = Some tbl' \<and> table_ok (ExtractFreelistLink s) tbl' \<and> pointer_view s tbl' = (pointer_view s tbl)(h := None)"
proof -
  obtain e where e: "live_handle (ExtractFreelistLink s) tbl h = Some e" using h by (auto simp: pointer_view_def)
  have "h \<noteq> 0" using e by (simp add: live_handle_def split: if_splits)
  then show ?thesis
    using freelist_entry.free_handle [OF scheme_entry [OF s] ok e] pointer_view_upd by (fastforce simp: PointerTable_FreeEntry_def)
qed

lemma pointer_table_contract:
  assumes "scheme_ok s w"
  shows "handle_table (table_ok (ExtractFreelistLink s)) table_room (pointer_view s)
    (\<lambda>(p, t). PointerTable_Allocate s p t) (PointerTable_FreeEntry s) (valid_ref s w)"
proof
  fix tbl x
  assume "table_ok (ExtractFreelistLink s) tbl" "table_room tbl" "valid_ref s w x"
  then show "\<exists>h tbl'. (case x of (p, t) \<Rightarrow> PointerTable_Allocate s p t) tbl = Some (h, tbl') \<and> h \<noteq> 0 \<and> pointer_view s tbl h = None \<and>
      table_ok (ExtractFreelistLink s) tbl' \<and> pointer_view s tbl' = (pointer_view s tbl)(h \<mapsto> x)"
    using Allocate_ok [OF assms] by (cases x) fastforce
next
  fix tbl h x
  assume "table_ok (ExtractFreelistLink s) tbl" "pointer_view s tbl h = Some x"
  then show "\<exists>tbl'. PointerTable_FreeEntry s h tbl = Some tbl' \<and> table_ok (ExtractFreelistLink s) tbl' \<and> pointer_view s tbl' = (pointer_view s tbl)(h := None)"
    by (rule Free_entry_ok [OF assms])
next
  fix tbl
  show "pointer_view s tbl 0 = None" by (simp add: pointer_view_def live_handle_def)
qed

interpretation external: handle_table "table_ok (ExtractFreelistLink external_scheme)" table_room "pointer_view external_scheme"
    "\<lambda>(p, t). PointerTable_Allocate external_scheme p t" "PointerTable_FreeEntry external_scheme" "valid_ref external_scheme 47"
  by (rule pointer_table_contract) (rule schemes_ok)

interpretation trusted: handle_table "table_ok (ExtractFreelistLink trusted_scheme)" table_room "pointer_view trusted_scheme"
    "\<lambda>(p, t). PointerTable_Allocate trusted_scheme p t" "PointerTable_FreeEntry trusted_scheme" "valid_ref trusted_scheme 48"
  by (rule pointer_table_contract) (rule schemes_ok)

interpretation indirect: handle_table "table_ok (ExtractFreelistLink indirect_scheme)" table_room "pointer_view indirect_scheme"
    "\<lambda>(p, t). PointerTable_Allocate indirect_scheme p t" "PointerTable_FreeEntry indirect_scheme" "valid_ref indirect_scheme 55"
  by (rule pointer_table_contract) (rule schemes_ok)

interpretation cppheap: handle_table "table_ok (ExtractFreelistLink cppheap_scheme)" table_room "pointer_view cppheap_scheme"
    "\<lambda>(p, t). PointerTable_Allocate cppheap_scheme p t" "PointerTable_FreeEntry cppheap_scheme" "valid_ref cppheap_scheme 48"
  by (rule pointer_table_contract) (rule schemes_ok)

subsection \<open>Code pointers\<close>

definition code_view :: "CodeEntry EntityTable \<Rightarrow> nat \<rightharpoonup> word64 \<times> word64" where
  "code_view tbl h = map_option (\<lambda>e. (code_object e, entrypoint e)) (live_handle code_link tbl h)"

lemma code_view_upd:
  "live_handle code_link tbl' = (live_handle code_link tbl)(h := e) \<Longrightarrow>
     code_view tbl' = (code_view tbl)(h := map_option (\<lambda>e. (code_object e, entrypoint e)) e)"
  by (simp add: code_view_def fun_eq_iff)

lemma code_entry_live: "code_link (MakeCodePointerEntry c e) = None"
  by (simp add: code_link_def MakeCodePointerEntry_def)

lemma code_Allocate_ok:
  assumes "table_ok code_link tbl" "table_room tbl"
  shows "\<exists>h tbl'. CodeTable_Allocate c e tbl = Some (h, tbl') \<and> h \<noteq> 0 \<and> h < 2 ^ 32 \<and> code_view tbl h = None \<and>
    table_ok code_link tbl' \<and> code_view tbl' = (code_view tbl)(h \<mapsto> (c, e))"
  using alloc_handle [OF assms code_entry_live [of c e], of blank_code_entry] code_view_upd
  unfolding CodeTable_Allocate_def by (fastforce simp: code_view_def MakeCodePointerEntry_def)

lemma code_update_ok:
  assumes ok: "table_ok code_link tbl" and h: "code_view tbl h = Some (c, e)" and f: "\<And>x. is_free (f x) = is_free x"
  shows "\<exists>tbl' x. code_update h f tbl = Some tbl' \<and> table_ok code_link tbl' \<and> code_object x = c \<and> entrypoint x = e \<and>
    code_view tbl' = (code_view tbl)(h \<mapsto> (code_object (f x), entrypoint (f x)))"
proof -
  obtain x where x: "live_handle code_link tbl h = Some x" "code_object x = c" "entrypoint x = e" using h by (auto simp: code_view_def)
  note d = live_handleD [OF x(1) ok]
  have "code_link (f x) = None" using d(6) f by (simp add: code_link_def split: if_splits)
  note o' = overwrite_handle [OF ok x(1) this]
  show ?thesis using o' code_view_upd [OF o'(3)] d x(2,3)
    by (intro exI [of _ "tbl\<lparr>entries := (entries tbl)[HandleToIndex h := f x]\<rparr>"] exI [of _ x]) (simp add: code_update_def)
qed

lemma code_Free_ok:
  assumes ok: "table_ok code_link tbl" and h: "code_view tbl h = Some x"
  shows "\<exists>tbl'. CodeTable_FreeEntry h tbl = Some tbl' \<and> table_ok code_link tbl' \<and> code_view tbl' = (code_view tbl)(h := None)"
proof -
  obtain e where e: "live_handle code_link tbl h = Some e" using h by (auto simp: code_view_def)
  have "h \<noteq> 0" using e by (simp add: live_handle_def split: if_splits)
  then show ?thesis using code_entry.free_handle [OF ok e] code_view_upd by (fastforce simp: CodeTable_FreeEntry_def)
qed

interpretation code: handle_table "table_ok code_link" table_room code_view "\<lambda>(c, e). CodeTable_Allocate c e" CodeTable_FreeEntry "\<lambda>_. True"
proof
  fix tbl x
  assume "table_ok code_link tbl" "table_room tbl"
  then show "\<exists>h tbl'. (case x of (c, e) \<Rightarrow> CodeTable_Allocate c e) tbl = Some (h, tbl') \<and> h \<noteq> 0 \<and> code_view tbl h = None \<and>
      table_ok code_link tbl' \<and> code_view tbl' = (code_view tbl)(h \<mapsto> x)"
    using code_Allocate_ok by (cases x) fastforce
next
  fix tbl h x
  assume "table_ok code_link tbl" "code_view tbl h = Some x"
  then show "\<exists>tbl'. CodeTable_FreeEntry h tbl = Some tbl' \<and> table_ok code_link tbl' \<and> code_view tbl' = (code_view tbl)(h := None)"
    by (rule code_Free_ok)
next
  fix tbl
  show "code_view tbl 0 = None" by (simp add: code_view_def live_handle_def)
qed

subsection \<open>Runs\<close>

text \<open>The states of a table under its calls, with the map from handles to references they build up.
  Only handles in use are set or freed.\<close>

inductive table_run :: "TaggingScheme \<Rightarrow> nat \<Rightarrow> word64 EntityTable \<Rightarrow> (nat \<rightharpoonup> word64 \<times> tag) \<Rightarrow> bool" for s w where
  run_new: "table_run s w empty_table Map.empty"
| run_alloc: "table_run s w tbl m \<Longrightarrow> table_room tbl \<Longrightarrow> valid_ref s w (p, t) \<Longrightarrow>
    PointerTable_Allocate s p t tbl = Some (h, tbl') \<Longrightarrow> table_run s w tbl' (m(h \<mapsto> (p, t)))"
| run_set: "table_run s w tbl m \<Longrightarrow> m h = Some x \<Longrightarrow> valid_ref s w (p, t) \<Longrightarrow>
    PointerTable_Set s h p t tbl = Some tbl' \<Longrightarrow> table_run s w tbl' (m(h \<mapsto> (p, t)))"
| run_free: "table_run s w tbl m \<Longrightarrow> m h = Some x \<Longrightarrow> PointerTable_FreeEntry s h tbl = Some tbl' \<Longrightarrow> table_run s w tbl' (m(h := None))"
| run_compact: "table_run s w tbl m \<Longrightarrow> table_run s w (PointerTable_Compact s tbl) m"

inductive code_run :: "CodeEntry EntityTable \<Rightarrow> (nat \<rightharpoonup> word64 \<times> word64) \<Rightarrow> bool" where
  code_new: "code_run empty_table Map.empty"
| code_alloc: "code_run tbl m \<Longrightarrow> table_room tbl \<Longrightarrow> CodeTable_Allocate c e tbl = Some (h, tbl') \<Longrightarrow> code_run tbl' (m(h \<mapsto> (c, e)))"
| code_set_entry: "code_run tbl m \<Longrightarrow> m h = Some (c, e) \<Longrightarrow> SetEntrypoint h v tbl = Some tbl' \<Longrightarrow> code_run tbl' (m(h \<mapsto> (c, v)))"
| code_set_object: "code_run tbl m \<Longrightarrow> m h = Some (c, e) \<Longrightarrow> SetCodeObject h v tbl = Some tbl' \<Longrightarrow> code_run tbl' (m(h \<mapsto> (v, e)))"
| code_free: "code_run tbl m \<Longrightarrow> m h = Some x \<Longrightarrow> CodeTable_FreeEntry h tbl = Some tbl' \<Longrightarrow> code_run tbl' (m(h := None))"

lemma empty_table_ok: "table_ok link empty_table" "live_handle link empty_table h = None"
  by (auto simp: empty_table_def live_handle_def live_entry_def kNullIndex_def intro!: table_okI [where ch = "[]"])

lemma table_run_view:
  assumes s: "scheme_ok s w" and run: "table_run s w tbl m"
  shows "table_ok (ExtractFreelistLink s) tbl \<and> pointer_view s tbl = m"
  using run
proof (induction rule: table_run.induct)
  case run_new
  then show ?case by (simp add: empty_table_ok pointer_view_def fun_eq_iff)
next
  case (run_alloc tbl m p t h tbl')
  then show ?case using Allocate_ok [OF s _ run_alloc.hyps(2,3)] by auto
next
  case (run_set tbl m h x p t tbl')
  then show ?case using Set_ok [OF s _ _ run_set.hyps(3), of tbl h x] by auto
next
  case (run_free tbl m h x tbl')
  then show ?case using Free_entry_ok [OF s, of tbl h x] by auto
next
  case (run_compact tbl m)
  then show ?case using freelist_entry.compact_handle [OF scheme_entry [OF s], of tbl]
    by (auto simp: PointerTable_Compact_def pointer_view_def fun_eq_iff)
qed

lemma code_run_view: "code_run tbl m \<Longrightarrow> table_ok code_link tbl \<and> code_view tbl = m"
proof (induction rule: code_run.induct)
  case code_new
  then show ?case by (simp add: empty_table_ok code_view_def fun_eq_iff)
next
  case (code_alloc tbl m c e h tbl')
  then show ?case using code_Allocate_ok [of tbl c e] by auto
next
  case (code_set_entry tbl m h c e v tbl')
  then show ?case using code_update_ok [of tbl h c e "\<lambda>e. e\<lparr>entrypoint := v\<rparr>"] by (auto simp: SetEntrypoint_def)
next
  case (code_set_object tbl m h c e v tbl')
  then show ?case using code_update_ok [of tbl h c e "\<lambda>e. e\<lparr>code_object := v\<rparr>"] by (auto simp: SetCodeObject_def)
next
  case (code_free tbl m h x tbl')
  then show ?case using code_Free_ok [of tbl h x] by auto
qed

subsection \<open>What a lookup returns\<close>

definition excludes_free :: "TaggingScheme \<Rightarrow> TagRange \<Rightarrow> bool" where
  "excludes_free s r \<longleftrightarrow> range_first r \<le> range_last r \<and> range_last r < kFreeEntryTag s"

lemma Get_view:
  assumes r: "excludes_free s r" and h: "h < 2 ^ 32"
  shows "PointerTable_Get s tbl h r =
    (case pointer_view s tbl h of Some (p, t) \<Rightarrow> if range_first r \<le> t \<and> t \<le> range_last r then p else 0 | None \<Rightarrow> 0)"
proof (cases "live_handle (ExtractFreelistLink s) tbl h")
  case None
  have "UntagAllowNullHandle s e r = 0" if "ExtractFreelistLink s e \<noteq> None" for e
    using that r by (auto simp: UntagAllowNullHandle_def CheckTag_ExtractTag TagRange_Contains_iff excludes_free_def link_None_iff)
  then show ?thesis using None handle_None [OF None _ h] by (auto simp: PointerTable_Get_def pointer_view_def)
next
  case (Some e)
  then show ?thesis using handle_Some [OF Some h] r
    by (simp add: PointerTable_Get_def pointer_view_def ref_of_def UntagAllowNullHandle_def CheckTag_ExtractTag TagRange_Contains_iff excludes_free_def)
qed

lemma Contains_view: "h < 2 ^ 32 \<Longrightarrow> PointerTable_Contains s tbl h \<longleftrightarrow> pointer_view s tbl h \<noteq> None"
proof (cases "live_handle (ExtractFreelistLink s) tbl h")
  case None
  assume "h < 2 ^ 32"
  then show ?thesis using None handle_None [OF None] by (cases "h = 0")
    (auto simp: PointerTable_Contains_def pointer_view_def ExtractFreelistLink_def ContainsFreelistLink_def split: if_splits)
next
  case (Some e)
  assume "h < 2 ^ 32"
  then show ?thesis using Some handle_Some [OF Some]
    by (auto simp: PointerTable_Contains_def pointer_view_def ExtractFreelistLink_def ContainsFreelistLink_def split: if_splits)
qed

lemma code_lookup_view:
  "h < 2 ^ 32 \<Longrightarrow> code_lookup tbl h field = (case live_handle code_link tbl h of Some e \<Rightarrow> field e | None \<Rightarrow> 0)"
  using handle_None [of code_link tbl h] handle_Some [of code_link tbl h]
  by (auto simp: code_lookup_def code_link_def split: option.splits if_splits)

lemma code_views:
  assumes "h < 2 ^ 32"
  shows "GetCodeObject tbl h = (case code_view tbl h of Some (c, e) \<Rightarrow> c | None \<Rightarrow> 0)"
    "GetEntrypoint tbl h = (case code_view tbl h of Some (c, e) \<Rightarrow> e | None \<Rightarrow> 0)"
    "CodeTable_Contains tbl h \<longleftrightarrow> code_view tbl h \<noteq> None"
proof -
  have free: "is_free e" if "code_link e \<noteq> None" for e using that by (simp add: code_link_def split: if_splits)
  have used: "\<not> is_free e" if "code_link e = None" for e using that by (simp add: code_link_def split: if_splits)
  show "GetCodeObject tbl h = (case code_view tbl h of Some (c, e) \<Rightarrow> c | None \<Rightarrow> 0)"
    "GetEntrypoint tbl h = (case code_view tbl h of Some (c, e) \<Rightarrow> e | None \<Rightarrow> 0)"
    by (simp_all add: GetCodeObject_def GetEntrypoint_def code_lookup_view [OF assms] code_view_def split: option.split)
  show "CodeTable_Contains tbl h \<longleftrightarrow> code_view tbl h \<noteq> None"
  proof (cases "live_handle code_link tbl h")
    case None
    then show ?thesis using handle_None [OF None _ assms] free by (auto simp: CodeTable_Contains_def code_view_def)
  next
    case (Some e)
    then show ?thesis using handle_Some [OF Some assms] used by (simp add: CodeTable_Contains_def code_view_def)
  qed
qed

subsection \<open>Runs for the witnesses\<close>

definition sample_table :: "word64 EntityTable" where
  "sample_table = \<lparr>entries = [Tag external_scheme 0x1000 7], free_list_head = kNullIndex\<rparr>"

lemma sample_ref: "valid_ref external_scheme 47 (0x1000, 7)"
  by (simp add: valid_ref_def payload_fits_def tag_fits_def external_scheme_def)

lemma sample_run: "table_run external_scheme 47 sample_table [1 \<mapsto> (0x1000, 7)]"
proof -
  have "PointerTable_Allocate external_scheme 0x1000 7 empty_table = Some (1, sample_table)"
    by (simp add: PointerTable_Allocate_def AllocateEntry_def empty_table_def kNullIndex_def IndexToHandle_def u32_def add32_def sample_table_def Let_def)
  from table_run.run_alloc [OF table_run.run_new _ sample_ref this] show ?thesis
    by (simp add: table_room_def empty_table_def kNullIndex_def)
qed

lemma sample_code_run:
  "code_run \<lparr>entries = [MakeCodePointerEntry 16 32], free_list_head = kNullIndex\<rparr> [1 \<mapsto> (16, 32)]"
proof -
  have "CodeTable_Allocate 16 32 empty_table = Some (1, \<lparr>entries = [MakeCodePointerEntry 16 32], free_list_head = kNullIndex\<rparr>)"
    by (simp add: CodeTable_Allocate_def AllocateEntry_def empty_table_def kNullIndex_def IndexToHandle_def u32_def add32_def Let_def)
  from code_run.code_alloc [OF code_run.code_new _ this] show ?thesis by (simp add: table_room_def empty_table_def kNullIndex_def)
qed

subsection \<open>Outside the contract\<close>

text \<open>Freeing a handle twice makes its entry link to itself: the next two allocations return the same handle.\<close>

lemma double_free_shares_handle:
  assumes "table_run external_scheme 47 tbl m" "m h = Some x" "valid_ref external_scheme 47 (p, t)" "valid_ref external_scheme 47 (q, u)"
  shows "\<exists>tbl1 tbl2 tbl3. PointerTable_FreeEntry external_scheme h tbl = Some tbl1 \<and> PointerTable_FreeEntry external_scheme h tbl1 = Some tbl2 \<and>
    PointerTable_Allocate external_scheme p t tbl2 = Some (h, tbl3) \<and> free_list_head tbl3 = HandleToIndex h"
proof -
  have v: "table_ok (ExtractFreelistLink external_scheme) tbl" "pointer_view external_scheme tbl h = Some x"
    using table_run_view [OF schemes_ok(1) assms(1)] assms(2) by auto
  obtain e where "live_handle (ExtractFreelistLink external_scheme) tbl h = Some e" using v(2) by (auto simp: pointer_view_def)
  note d = live_handleD [OF this v(1)]
  have "ExtractFreelistLink external_scheme (MakeFreelistEntry external_scheme (h - 1)) = Some (h - 1)"
    using d by (intro free_entry_link [OF schemes_ok(1)]) simp
  then show ?thesis using d IndexToHandle_id [of "h - 1"]
    by (simp add: PointerTable_FreeEntry_def FreeEntry_def PointerTable_Allocate_def AllocateEntry_def IsInBounds_def)
qed

text \<open>A pointer wider than the payload changes the tag it is stored under.\<close>

lemma wide_pointer_changes_tag: "ExtractTag external_scheme (Tag external_scheme (0x1000 + 2 ^ 48) 2) = 3"
  by (simp add: ExtractTag_def Tag_def external_scheme_def push_bit_eq_mult drop_bit_eq_div)

text \<open>The counter of tags goes on into the reserved ones.\<close>

lemma tag_counter_reaches_free:
  "fst (AllocateCppHeapPointerTag (snd (AllocateCppHeapPointerTagRange 0x7ffe first_wrappable_tag))) = kFreeEntryTag cppheap_scheme"
  by (simp add: AllocateCppHeapPointerTag_def AllocateCppHeapPointerTagRange_def first_wrappable_tag_def cppheap_scheme_def)

subsection \<open>The properties\<close>

text \<open>C26.  The four tables of tagged pointers implement maps from handles to tagged pointers.  After any
  sequence of allocations, updates and frees of handles in use, and compactions, a lookup
  returns the pointer stored under the handle if its tag is in the range asked for, and null
  for a wrong tag, a handle that was freed and a value that never was a handle; allocation
  returns a handle that is not in use and not null, and setting or freeing a handle in use
  never touches memory outside the table.\<close>

theorem pointer_tables_refine:
  assumes "(s, w) \<in> layouts" "table_run s w tbl m" "h < 2 ^ 32" "excludes_free s r" "valid_ref s w (p, t)"
  shows "PointerTable_Get s tbl h r =
      (case m h of Some (p, t) \<Rightarrow> if range_first r \<le> t \<and> t \<le> range_last r then p else 0 | None \<Rightarrow> 0) \<and>
    (PointerTable_Contains s tbl h \<longleftrightarrow> m h \<noteq> None) \<and>
    (table_room tbl \<longrightarrow> (\<exists>h' tbl'. PointerTable_Allocate s p t tbl = Some (h', tbl') \<and> h' \<noteq> 0 \<and> m h' = None \<and> table_run s w tbl' (m(h' \<mapsto> (p, t))))) \<and>
    (m h \<noteq> None \<longrightarrow> (\<exists>tbl'. PointerTable_Set s h p t tbl = Some tbl') \<and> (\<exists>tbl'. PointerTable_FreeEntry s h tbl = Some tbl'))"
proof -
  note s = layouts_ok [OF assms(1)]
  have v: "table_ok (ExtractFreelistLink s) tbl" "pointer_view s tbl = m" using table_run_view [OF s assms(2)] by auto
  have "\<exists>h' tbl'. PointerTable_Allocate s p t tbl = Some (h', tbl') \<and> h' \<noteq> 0 \<and> m h' = None \<and> table_run s w tbl' (m(h' \<mapsto> (p, t)))"
    if room: "table_room tbl"
    using Allocate_ok [OF s v(1) room assms(5)] table_run.run_alloc [OF assms(2) room assms(5)] v(2) by blast
  moreover have "(\<exists>tbl'. PointerTable_Set s h p t tbl = Some tbl') \<and> (\<exists>tbl'. PointerTable_FreeEntry s h tbl = Some tbl')" if live: "m h \<noteq> None"
  proof -
    obtain x where "pointer_view s tbl h = Some x" using live unfolding v(2) by (cases "m h") simp_all
    from Set_ok [OF s v(1) this assms(5)] Free_entry_ok [OF s v(1) this] show ?thesis by auto
  qed
  ultimately show ?thesis using Get_view [OF assms(4,3), of tbl] Contains_view [OF assms(3), of s tbl] v(2) by simp
qed

theorem pointer_tables_refine_witness:
  "PointerTable_Get external_scheme sample_table 1 \<lparr>range_first = 5, range_last = 9\<rparr> = 0x1000 \<and>
   PointerTable_Get external_scheme sample_table 1 \<lparr>range_first = 8, range_last = 9\<rparr> = 0 \<and>
   PointerTable_Get external_scheme sample_table 2 \<lparr>range_first = 5, range_last = 9\<rparr> = 0"
proof -
  have l: "(external_scheme, 47) \<in> layouts" by (simp add: layouts_def)
  have r: "excludes_free external_scheme \<lparr>range_first = 5, range_last = 9\<rparr>" "excludes_free external_scheme \<lparr>range_first = 8, range_last = 9\<rparr>"
    by (simp_all add: excludes_free_def external_scheme_def)
  show ?thesis
    using pointer_tables_refine [OF l sample_run _ r(1) sample_ref, of 1] pointer_tables_refine [OF l sample_run _ r(2) sample_ref, of 1]
      pointer_tables_refine [OF l sample_run _ r(1) sample_ref, of 2] by simp
qed

text \<open>The table of code pointers implements a map from handles to pairs of a code object and an
  entry point under any sequence of allocations, updates and frees of handles in use: both
  lookups return what was stored last, and null for a freed handle or a value that never was one.\<close>

theorem code_table_refines:
  assumes "code_run tbl m" "h < 2 ^ 32"
  shows "GetCodeObject tbl h = (case m h of Some (c, e) \<Rightarrow> c | None \<Rightarrow> 0) \<and>
    GetEntrypoint tbl h = (case m h of Some (c, e) \<Rightarrow> e | None \<Rightarrow> 0) \<and> (CodeTable_Contains tbl h \<longleftrightarrow> m h \<noteq> None) \<and>
    (table_room tbl \<longrightarrow> (\<exists>h' tbl'. CodeTable_Allocate c e tbl = Some (h', tbl') \<and> h' \<noteq> 0 \<and> m h' = None \<and> code_run tbl' (m(h' \<mapsto> (c, e)))))"
proof -
  have v: "table_ok code_link tbl" "code_view tbl = m" using code_run_view [OF assms(1)] by auto
  have "\<exists>h' tbl'. CodeTable_Allocate c e tbl = Some (h', tbl') \<and> h' \<noteq> 0 \<and> m h' = None \<and> code_run tbl' (m(h' \<mapsto> (c, e)))" if room: "table_room tbl"
    using code_Allocate_ok [OF v(1) room, of c e] code_run.code_alloc [OF assms(1) room] v(2) by blast
  then show ?thesis using code_views [OF assms(2), of tbl] v(2) by simp
qed

theorem code_table_refines_witness:
  "GetEntrypoint \<lparr>entries = [MakeCodePointerEntry 16 32], free_list_head = kNullIndex\<rparr> 1 = 32 \<and>
   GetCodeObject \<lparr>entries = [MakeCodePointerEntry 16 32], free_list_head = kNullIndex\<rparr> 1 = 16 \<and>
   GetEntrypoint \<lparr>entries = [MakeCodePointerEntry 16 32], free_list_head = kNullIndex\<rparr> 2 = 0"
  using code_table_refines [OF sample_code_run, of 1] code_table_refines [OF sample_code_run, of 2] by simp

text \<open>Tagged words lose nothing: a pointer and a tag that fit are read back as they were stored,
  and setting or clearing the mark bit changes neither, for each of the four layouts.\<close>

theorem tagged_word_roundtrip:
  assumes "(s, w) \<in> layouts" "payload_fits w p" "tag_fits w t"
  shows "payload_of s (Tag s p t) = p \<and> ExtractTag s (Tag s p t) = t \<and>
    payload_of s (SetMarkBit s (Tag s p t)) = p \<and> ExtractTag s (SetMarkBit s (Tag s p t)) = t \<and>
    ClearMarkBit s (SetMarkBit s (Tag s p t)) = Tag s p t \<and> \<not> HasMarkBitSet s (Tag s p t)"
proof -
  note s = layouts_ok [OF assms(1)]
  have m: "bit (kMarkBit s) n \<longleftrightarrow> n = w" for n using s by (auto simp: scheme_ok_def bit_simps)
  have "\<not> bit p w" using no_high_bits [of p w w] assms(2) by (auto simp: payload_fits_def)
  then have nb: "\<not> bit (Tag s p t) w" by (simp add: Tag_bit [OF s])
  have "ClearMarkBit s (SetMarkBit s (Tag s p t)) = Tag s p t"
    by (rule bit_eqI) (use nb in \<open>auto simp: ClearMarkBit_def SetMarkBit_def bit_simps m dest: bit_imp_le_length\<close>)
  then show ?thesis using mark_bit_invisible [OF s, of "Tag s p t"] ExtractTag_Tag [OF s assms(2,3)] payload_of_Tag [OF s assms(2)]
      mark_bit_invisible(6) [OF s, of "SetMarkBit s (Tag s p t)"] by simp
qed

theorem tagged_word_roundtrip_witness:
  "ExtractTag trusted_scheme (SetMarkBit trusted_scheme (Tag trusted_scheme 0x7fff00001000 2)) = 2 \<and>
   payload_of trusted_scheme (SetMarkBit trusted_scheme (Tag trusted_scheme 0x7fff00001000 2)) = 0x7fff00001000"
proof -
  have "(trusted_scheme, 48) \<in> layouts" "payload_fits 48 0x7fff00001000" "tag_fits 48 2"
    by (simp_all add: layouts_def payload_fits_def tag_fits_def)
  from tagged_word_roundtrip [OF this] show ?thesis by simp
qed

end
