(* ===== verification/Object_Header.thy ===== *)
theory Object_Header
  imports Voodoo_Prelude
begin

text \<open>
  The header of an object of the garbage-collected heap
  (\<open>WASMv8bindings/src/heap/internal/heap-object-header.h\<close>): two half words of bit fields with the index of
  the object's type, whether it is constructed, its size in units of the granularity and its mark
  (\<open>src/base/bit-field.h\<close>).
\<close>

unbundle bit_operations_syntax

definition kAllocationGranularity :: nat where "kAllocationGranularity = 8"
definition kMaxSize :: nat where "kMaxSize = 2 ^ 17 - 1"
definition kFreeListGCInfoIndex :: nat where "kFreeListGCInfoIndex = 0"

subsection \<open>Bit fields\<close>

definition encode_field :: "nat \<Rightarrow> nat \<Rightarrow> nat \<Rightarrow> 16 word" where
  "encode_field shift len v = push_bit shift (of_nat v AND mask len)"

definition decode_field :: "nat \<Rightarrow> nat \<Rightarrow> 16 word \<Rightarrow> nat" where
  "decode_field shift len w = unat (drop_bit shift w AND mask len)"

definition field_mask :: "nat \<Rightarrow> nat \<Rightarrow> 16 word" where
  "field_mask shift len = push_bit shift (mask len)"

record HeapObjectHeader =
  encoded_high :: "16 word"
  encoded_low :: "16 word"

definition EncodeSize :: "nat \<Rightarrow> 16 word" where
  "EncodeSize n = encode_field 1 15 (n div kAllocationGranularity)"

definition new_header :: "nat \<Rightarrow> nat \<Rightarrow> HeapObjectHeader" where
  "new_header n gc_info_index = \<lparr>encoded_high = encode_field 0 14 gc_info_index, encoded_low = EncodeSize n\<rparr>"

definition GetGCInfoIndex :: "HeapObjectHeader \<Rightarrow> nat" where
  "GetGCInfoIndex h = decode_field 0 14 (encoded_high h)"

definition AllocatedSize :: "HeapObjectHeader \<Rightarrow> nat" where
  "AllocatedSize h = decode_field 1 15 (encoded_low h) * kAllocationGranularity"

definition IsMarked :: "HeapObjectHeader \<Rightarrow> bool" where
  "IsMarked h \<longleftrightarrow> decode_field 0 1 (encoded_low h) \<noteq> 0"

text \<open>\<open>StoreEncoded\<close> replaces the bits under a mask.\<close>

definition store_bits :: "16 word \<Rightarrow> 16 word \<Rightarrow> 16 word \<Rightarrow> 16 word" where
  "store_bits half bits msk = half AND NOT msk OR bits"

definition Unmark :: "HeapObjectHeader \<Rightarrow> HeapObjectHeader" where
  "Unmark h = h\<lparr>encoded_low := store_bits (encoded_low h) (encode_field 0 1 0) (field_mask 0 1)\<rparr>"

definition TryMarkAtomic :: "HeapObjectHeader \<Rightarrow> bool \<times> HeapObjectHeader" where
  "TryMarkAtomic h =
     (if IsMarked h then (False, h)
      else (True, h\<lparr>encoded_low := store_bits (encoded_low h) (encode_field 0 1 1) (field_mask 0 1)\<rparr>))"

definition IsFree :: "HeapObjectHeader \<Rightarrow> bool" where
  "IsFree h \<longleftrightarrow> GetGCInfoIndex h = kFreeListGCInfoIndex"

definition IsInConstruction :: "HeapObjectHeader \<Rightarrow> bool" where
  "IsInConstruction h \<longleftrightarrow> decode_field 15 1 (encoded_high h) = 0"

definition MarkAsFullyConstructed :: "HeapObjectHeader \<Rightarrow> HeapObjectHeader" where
  "MarkAsFullyConstructed h = h\<lparr>encoded_high := store_bits (encoded_high h) (encode_field 15 1 1) (field_mask 15 1)\<rparr>"

subsection \<open>Laws of the fields\<close>

lemma decode_take_bit: "decode_field shift len w = unat (take_bit len (drop_bit shift w))"
  by (simp add: decode_field_def take_bit_eq_mask)

lemma decode_encode:
  assumes "shift + len \<le> 16" "v < 2 ^ len"
  shows "decode_field shift len (encode_field shift len v) = v"
proof -
  have "take_bit len (drop_bit shift (encode_field shift len v)) = take_bit len (of_nat v)"
    using assms(1) by (intro bit_eqI) (auto simp: encode_field_def bit_simps)
  moreover have "v < 2 ^ 16" using less_le_trans [OF assms(2) power_increasing [of len 16 "2 :: nat"]] assms(1) by simp
  ultimately show ?thesis using assms(2) by (simp add: decode_take_bit unsigned_take_bit_eq unat_of_nat take_bit_nat_eq_self)
qed

lemma decode_other:
  assumes "i + k \<le> j \<or> j + l \<le> i"
  shows "decode_field i k (encode_field j l v) = 0"
proof -
  have "take_bit k (drop_bit i (encode_field j l v)) = 0"
    using assms by (intro bit_eqI) (auto simp: encode_field_def bit_simps)
  then show ?thesis by (simp add: decode_take_bit)
qed

lemma new_header_fields [simp]:
  "8 dvd n \<Longrightarrow> n \<le> kMaxSize \<Longrightarrow> AllocatedSize (new_header n i) = n"
  "i < 2 ^ 14 \<Longrightarrow> GetGCInfoIndex (new_header n i) = i"
  "\<not> IsMarked (new_header n i)"
  "IsInConstruction (new_header n i)"
  by (auto simp: new_header_def AllocatedSize_def GetGCInfoIndex_def IsMarked_def IsInConstruction_def EncodeSize_def kAllocationGranularity_def
      kMaxSize_def decode_encode decode_other)

text \<open>Storing a field replaces it and leaves the bits of other fields alone.\<close>

lemma decode_store_same:
  assumes "shift + len \<le> 16" "v < 2 ^ len"
  shows "decode_field shift len (store_bits w (encode_field shift len v) (field_mask shift len)) = v"
proof -
  have "take_bit len (drop_bit shift (store_bits w (encode_field shift len v) (field_mask shift len))) =
    take_bit len (drop_bit shift (encode_field shift len v))"
    using assms(1) by (intro bit_eqI) (auto simp: store_bits_def field_mask_def encode_field_def bit_simps)
  then show ?thesis using decode_encode [OF assms] by (simp add: decode_take_bit)
qed

lemma decode_store_other:
  assumes "i + k \<le> j \<or> j + l \<le> i"
  shows "decode_field i k (store_bits w (encode_field j l v) (field_mask j l)) = decode_field i k w"
proof -
  have "take_bit k (drop_bit i (store_bits w (encode_field j l v) (field_mask j l))) = take_bit k (drop_bit i w)"
    using assms by (intro bit_eqI) (auto simp: store_bits_def field_mask_def encode_field_def bit_simps dest: bit_imp_le_length)
  then show ?thesis by (simp add: decode_take_bit)
qed

lemmas header_defs = AllocatedSize_def GetGCInfoIndex_def IsMarked_def IsInConstruction_def IsFree_def

lemma Unmark_fields [simp]:
  "AllocatedSize (Unmark h) = AllocatedSize h" "GetGCInfoIndex (Unmark h) = GetGCInfoIndex h" "\<not> IsMarked (Unmark h)"
  "IsFree (Unmark h) = IsFree h"
  using decode_store_same [of 0 1 0 "encoded_low h"] decode_store_other [of 1 15 0 1 "encoded_low h" 0]
  by (simp_all add: header_defs Unmark_def)

lemma TryMark_fields [simp]:
  "AllocatedSize (snd (TryMarkAtomic h)) = AllocatedSize h" "GetGCInfoIndex (snd (TryMarkAtomic h)) = GetGCInfoIndex h"
  "IsMarked (snd (TryMarkAtomic h))" "fst (TryMarkAtomic h) \<longleftrightarrow> \<not> IsMarked h" "IsFree (snd (TryMarkAtomic h)) = IsFree h"
  using decode_store_same [of 0 1 1 "encoded_low h"] decode_store_other [of 1 15 0 1 "encoded_low h" 1]
  by (simp_all add: header_defs TryMarkAtomic_def)

lemma Unmark_TryMark: "\<not> IsMarked h \<Longrightarrow> Unmark (snd (TryMarkAtomic h)) = h"
proof -
  assume n: "\<not> IsMarked h"
  let ?w = "encoded_low h"
  have "unat (take_bit 1 ?w) = 0" using n by (simp only: IsMarked_def decode_take_bit drop_bit_0 not_not id_apply)
  then have "take_bit 1 ?w = 0" by (simp only: unat_eq_zero)
  then have "\<not> bit ?w 0" by (metis bit_take_bit_iff bit_0_eq bot_apply less_numeral_extra(1) bot_bool_def)
  then have "store_bits (store_bits ?w (encode_field 0 1 1) (field_mask 0 1)) (encode_field 0 1 0) (field_mask 0 1) = ?w"
    by (intro bit_eqI) (auto simp: store_bits_def field_mask_def encode_field_def bit_simps intro!: Nat.gr0I)
  then show ?thesis using n by (simp add: Unmark_def TryMarkAtomic_def)
qed

lemma MarkAsFullyConstructed_fields [simp]:
  "AllocatedSize (MarkAsFullyConstructed h) = AllocatedSize h" "GetGCInfoIndex (MarkAsFullyConstructed h) = GetGCInfoIndex h"
  "IsMarked (MarkAsFullyConstructed h) = IsMarked h" "IsFree (MarkAsFullyConstructed h) = IsFree h"
  "\<not> IsInConstruction (MarkAsFullyConstructed h)"
  using decode_store_same [of 15 1 1 "encoded_high h"] decode_store_other [of 0 14 15 1 "encoded_high h" 1]
  by (simp_all add: header_defs MarkAsFullyConstructed_def)

end
