(* ===== verification/Gc_Free_List.thy ===== *)
theory Gc_Free_List
  imports Object_Header
begin

text \<open>
  The free list of the garbage-collected heap (\<open>WASMv8bindings/src/heap/internal/free-list.cc\<close>): free
  blocks in buckets by powers of two of their size.  A free block is a header of the free type in
  memory, so the operations work on the map of headers too.  The blocks linked from a head are the
  list of their addresses; \<open>None\<close> stands for undefined behaviour (a bucket out of range, a link that
  leads to no header).
\<close>

type_synonym headers = "nat \<Rightarrow> HeapObjectHeader option"

definition kPageSizeLog2 :: nat where "kPageSizeLog2 = 17"
definition kPageSize :: nat where "kPageSize = 2 ^ kPageSizeLog2"
definition kFreeListEntrySize :: nat where "kFreeListEntrySize = 16"

record FreeList =
  free_list_heads :: "nat list list"
  free_list_tails :: "nat option list"
  biggest_free_list_index :: nat

subsection \<open>Operations\<close>

text \<open>\<open>src/base/bits.h\<close>.\<close>

definition RoundDownToPowerOfTwo32 :: "32 word \<Rightarrow> 32 word" where
  "RoundDownToPowerOfTwo32 v =
     (if v = 0 then 0
      else let r = v;
               r = r OR drop_bit 1 r;
               r = r OR drop_bit 2 r;
               r = r OR drop_bit 4 r;
               r = r OR drop_bit 8 r;
               r = r OR drop_bit 16 r
           in r - drop_bit 1 r)"

text \<open>The loop \<open>while (value >>= 1) ++exponent\<close>.\<close>

function WhichPowerOfTwo :: "nat \<Rightarrow> nat" where
  "WhichPowerOfTwo v = (if v div 2 = 0 then 0 else Suc (WhichPowerOfTwo (v div 2)))"
  by auto
termination by (relation "measure (\<lambda>v. v)") auto

declare WhichPowerOfTwo.simps [simp del]

definition BucketIndexForSize :: "nat \<Rightarrow> nat" where
  "BucketIndexForSize n = WhichPowerOfTwo (unat (RoundDownToPowerOfTwo32 (of_nat n)))"

definition FreeList_Clear :: FreeList where
  "FreeList_Clear = \<lparr>free_list_heads = replicate kPageSizeLog2 [], free_list_tails = replicate kPageSizeLog2 None, biggest_free_list_index = 0\<rparr>"

definition FreeList_Add :: "nat \<times> nat \<Rightarrow> headers \<Rightarrow> FreeList \<Rightarrow> (headers \<times> FreeList) option" where
  "FreeList_Add block H fl =
     (case block of (address, n) \<Rightarrow>
        let H = H(address \<mapsto> new_header n kFreeListGCInfoIndex)
        in if n < kFreeListEntrySize then Some (H, fl)
           else do {
             let index = BucketIndexForSize (u32 n);
             bucket \<leftarrow> nth_opt (free_list_heads fl) index;
             Some (H, fl\<lparr>free_list_heads := (free_list_heads fl)[index := address # bucket],
                         biggest_free_list_index := max (biggest_free_list_index fl) index,
                         free_list_tails := (if bucket = [] then (free_list_tails fl)[index := Some address] else free_list_tails fl)\<rparr>) })"

definition FreeList_Unlink :: "nat \<Rightarrow> FreeList \<Rightarrow> FreeList" where
  "FreeList_Unlink index fl =
     (let rest = tl (free_list_heads fl ! index)
      in fl\<lparr>free_list_heads := (free_list_heads fl)[index := rest],
            free_list_tails := (if rest = [] then (free_list_tails fl)[index := None] else free_list_tails fl),
            biggest_free_list_index := index\<rparr>)"

fun FreeList_search :: "nat \<Rightarrow> headers \<Rightarrow> FreeList \<Rightarrow> nat \<Rightarrow> ((nat \<times> nat) option \<times> FreeList) option" where
  "FreeList_search n H fl 0 = Some (None, fl\<lparr>biggest_free_list_index := 0\<rparr>)"
| "FreeList_search n H fl (Suc i) = do {
     bucket \<leftarrow> nth_opt (free_list_heads fl) (Suc i);
     (case bucket of
        [] \<Rightarrow> if n > 2 ^ Suc i then Some (None, fl\<lparr>biggest_free_list_index := Suc i\<rparr>) else FreeList_search n H fl i
      | entry # _ \<Rightarrow> do {
          h \<leftarrow> H entry;
          if n > 2 ^ Suc i \<and> AllocatedSize h < n then Some (None, fl\<lparr>biggest_free_list_index := Suc i\<rparr>)
          else Some (Some (entry, AllocatedSize h), FreeList_Unlink (Suc i) fl) }) }"

definition FreeList_Allocate :: "nat \<Rightarrow> headers \<Rightarrow> FreeList \<Rightarrow> ((nat \<times> nat) option \<times> FreeList) option" where
  "FreeList_Allocate n H fl = FreeList_search n H fl (biggest_free_list_index fl)"

definition FreeList_Size :: "headers \<Rightarrow> FreeList \<Rightarrow> nat" where
  "FreeList_Size H fl = sum_list (map (\<lambda>e. AllocatedSize (the (H e))) (concat (free_list_heads fl)))"

definition FreeList_IsEmpty :: "FreeList \<Rightarrow> bool" where
  "FreeList_IsEmpty fl \<longleftrightarrow> (\<forall>bucket \<in> set (free_list_heads fl). bucket = [])"

subsection \<open>The bucket of a size\<close>

lemma WhichPowerOfTwo_power: "WhichPowerOfTwo (2 ^ n) = n"
proof (induction n)
  case 0
  show ?case by (subst WhichPowerOfTwo.simps) simp
next
  case (Suc n)
  have "(2 ^ Suc n :: nat) div 2 = 2 ^ n" by simp
  then show ?case using Suc.IH by (subst WhichPowerOfTwo.simps) simp
qed

text \<open>Each step doubles the stretch of lower bits that a bit spreads to.\<close>

lemma spread_step:
  fixes r v :: "32 word"
  assumes "\<And>n. bit r n \<longleftrightarrow> (\<exists>j<k. bit v (n + j))"
  shows "bit (r OR drop_bit k r) n \<longleftrightarrow> (\<exists>j<2 * k. bit v (n + j))"
proof -
  have "bit (r OR drop_bit k r) n \<longleftrightarrow> (\<exists>j<k. bit v (n + j)) \<or> (\<exists>j<k. bit v (k + n + j))"
    by (simp add: bit_or_iff bit_drop_bit_eq assms)
  also have "\<dots> \<longleftrightarrow> (\<exists>j<2 * k. bit v (n + j))" (is "?A \<or> ?B \<longleftrightarrow> ?C")
  proof
    assume ?C
    then obtain j where j: "j < 2 * k" "bit v (n + j)" by auto
    show "?A \<or> ?B"
    proof (cases "j < k")
      case False
      then have "j - k < k" "k + n + (j - k) = n + j" using j(1) by simp_all
      then show ?thesis using j(2) by metis
    qed (use j in auto)
  next
    assume "?A \<or> ?B"
    then show ?C
    proof
      assume ?B
      then obtain j where "j < k" "bit v (n + (k + j))" by (auto simp: ac_simps)
      then show ?C by (intro exI [of _ "k + j"]) simp
    next
      assume ?A
      then obtain j where "j < k" "bit v (n + j)" by auto
      then show ?C by (intro exI [of _ j]) simp
    qed
  qed
  finally show ?thesis .
qed

lemma top_bit:
  fixes v :: "32 word"
  assumes "2 ^ m \<le> unat v" "unat v < 2 ^ Suc m"
  shows "bit v m" "\<And>j. m < j \<Longrightarrow> \<not> bit v j"
proof -
  have bit_unat: "bit v j \<longleftrightarrow> bit (unat v) j" for j by (simp add: bit_unsigned_iff)
  have "unat v div 2 ^ m = 1" using assms by (intro div_nat_eqI) auto
  then show "bit v m" using bit_unat [of m] by (simp add: bit_iff_odd)
  show "\<not> bit v j" if "m < j" for j
  proof -
    have "(2 :: nat) ^ Suc m \<le> 2 ^ j" using that by (intro power_increasing) auto
    then have "unat v div 2 ^ j = 0" using assms(2) by simp
    then show ?thesis using bit_unat [of j] by (simp add: bit_iff_odd)
  qed
qed

lemma RoundDown_power:
  fixes v :: "32 word"
  assumes m: "2 ^ m \<le> unat v" "unat v < 2 ^ Suc m"
  shows "RoundDownToPowerOfTwo32 v = 2 ^ m"
proof -
  have m32: "m < 32" using top_bit(1) [OF m] bit_imp_le_length [of v m] by simp
  define r1 where "r1 = v OR drop_bit 1 v"
  define r2 where "r2 = r1 OR drop_bit 2 r1"
  define r3 where "r3 = r2 OR drop_bit 4 r2"
  define r4 where "r4 = r3 OR drop_bit 8 r3"
  define r5 where "r5 = r4 OR drop_bit 16 r4"
  have 0: "bit v n \<longleftrightarrow> (\<exists>j<1. bit v (n + j))" for n by simp
  have 1: "bit r1 n \<longleftrightarrow> (\<exists>j<2. bit v (n + j))" for n using spread_step [OF 0] by (simp add: r1_def)
  have 2: "bit r2 n \<longleftrightarrow> (\<exists>j<4. bit v (n + j))" for n using spread_step [OF 1] by (simp add: r2_def)
  have 3: "bit r3 n \<longleftrightarrow> (\<exists>j<8. bit v (n + j))" for n using spread_step [OF 2] by (simp add: r3_def)
  have 4: "bit r4 n \<longleftrightarrow> (\<exists>j<16. bit v (n + j))" for n using spread_step [OF 3] by (simp add: r4_def)
  have 5: "bit r5 n \<longleftrightarrow> (\<exists>j<32. bit v (n + j))" for n using spread_step [OF 4] by (simp add: r5_def)
  have b: "bit r5 n \<longleftrightarrow> n < Suc m" for n
  proof
    assume "bit r5 n"
    then obtain j where "bit v (n + j)" using 5 by auto
    then show "n < Suc m" using top_bit(2) [OF m, of "n + j"] by (meson leI le_add1 less_le_trans less_Suc_eq_le not_less)
  next
    assume "n < Suc m"
    then have "m - n < 32" "n + (m - n) = m" using m32 by auto
    then show "bit r5 n" using 5 top_bit(1) [OF m] by metis
  qed
  have r5: "r5 = mask (Suc m)"
    by (rule bit_eqI) (use b m32 in \<open>auto simp: bit_mask_iff\<close>)
  have d: "drop_bit 1 r5 = mask m"
    by (rule bit_eqI) (use b m32 in \<open>auto simp: bit_mask_iff bit_drop_bit_eq\<close>)
  have "v \<noteq> 0" using top_bit(1) [OF m] by auto
  then have "RoundDownToPowerOfTwo32 v = r5 - drop_bit 1 r5"
    by (simp only: RoundDownToPowerOfTwo32_def Let_def if_False r1_def r2_def r3_def r4_def r5_def)
  also have "\<dots> = 2 ^ m" unfolding d unfolding r5 by (simp add: mask_eq_exp_minus_1)
  finally show ?thesis .
qed

lemma BucketIndexForSize_eq:
  assumes "2 ^ m \<le> n" "n < 2 ^ Suc m" "m < 32"
  shows "BucketIndexForSize n = m"
proof -
  have "n < 2 ^ 32" using less_le_trans [OF assms(2) power_increasing [of "Suc m" 32 "2 :: nat"]] assms(3) by simp
  then have u: "unat (of_nat n :: 32 word) = n" by (simp add: unat_of_nat)
  have "unat (2 ^ m :: 32 word) = unat (of_nat (2 ^ m) :: 32 word)" by simp
  also have "\<dots> = 2 ^ m"
    using power_strict_increasing [OF assms(3), of "2 :: nat"] by (simp only: unat_of_nat) simp
  finally have "unat (2 ^ m :: 32 word) = 2 ^ m" .
  then show ?thesis
    unfolding BucketIndexForSize_def using RoundDown_power [of m "of_nat n"] assms(1,2) u
    by (simp only: WhichPowerOfTwo_power)
qed

lemma bucket_exists:
  assumes "0 < n" "n < kPageSize"
  obtains m where "BucketIndexForSize n = m" "m < kPageSizeLog2" "2 ^ m \<le> n" "n < 2 ^ Suc m"
proof -
  obtain m where m: "2 ^ m \<le> n" "n < 2 ^ (m + 1)" using ex_power_ivl1 [of 2 n] assms(1) by auto
  have "(2 :: nat) ^ m < 2 ^ 17" using m(1) assms(2) by (simp add: kPageSize_def kPageSizeLog2_def)
  then have "m < 17" using power_less_imp_less_exp [of "2 :: nat" m 17] by simp
  then show ?thesis using m BucketIndexForSize_eq [of m n] by (intro that [of m]) (simp_all add: kPageSizeLog2_def)
qed

subsection \<open>The invariant\<close>

definition list_blocks :: "FreeList \<Rightarrow> nat set" where
  "list_blocks fl = set (concat (free_list_heads fl))"

definition block_in_bucket :: "headers \<Rightarrow> nat \<Rightarrow> nat \<Rightarrow> bool" where
  "block_in_bucket H i e \<longleftrightarrow> (\<exists>h. H e = Some h \<and> IsFree h \<and> kFreeListEntrySize \<le> AllocatedSize h \<and>
     2 ^ i \<le> AllocatedSize h \<and> AllocatedSize h < 2 ^ Suc i)"

definition IsConsistent :: "FreeList \<Rightarrow> nat \<Rightarrow> bool" where
  "IsConsistent fl i \<longleftrightarrow>
     free_list_tails fl ! i = (if free_list_heads fl ! i = [] then None else Some (last (free_list_heads fl ! i)))"

definition free_list_ok :: "headers \<Rightarrow> FreeList \<Rightarrow> bool" where
  "free_list_ok H fl \<longleftrightarrow>
     length (free_list_heads fl) = kPageSizeLog2 \<and> length (free_list_tails fl) = kPageSizeLog2 \<and>
     biggest_free_list_index fl < kPageSizeLog2 \<and> distinct (concat (free_list_heads fl)) \<and>
     (\<forall>i < kPageSizeLog2. IsConsistent fl i \<and> (\<forall>e \<in> set (free_list_heads fl ! i). block_in_bucket H i e)) \<and>
     (\<forall>i < kPageSizeLog2. biggest_free_list_index fl < i \<longrightarrow> free_list_heads fl ! i = [])"

lemma FreeList_Clear_ok [simp]: "free_list_ok H FreeList_Clear" "list_blocks FreeList_Clear = {}"
  by (auto simp: free_list_ok_def FreeList_Clear_def IsConsistent_def list_blocks_def kPageSizeLog2_def)

lemma in_list_blocks: "e \<in> list_blocks fl \<longleftrightarrow> (\<exists>i < length (free_list_heads fl). e \<in> set (free_list_heads fl ! i))"
proof -
  have "e \<in> list_blocks fl \<longleftrightarrow> (\<exists>b \<in> set (free_list_heads fl). e \<in> set b)" by (auto simp: list_blocks_def)
  also have "\<dots> \<longleftrightarrow> (\<exists>i < length (free_list_heads fl). e \<in> set (free_list_heads fl ! i))"
    unfolding set_conv_nth [of "free_list_heads fl"] by blast
  finally show ?thesis .
qed

lemma list_block_header:
  assumes "free_list_ok H fl" "e \<in> list_blocks fl"
  obtains h where "H e = Some h" "IsFree h" "kFreeListEntrySize \<le> AllocatedSize h"
  using assms unfolding in_list_blocks free_list_ok_def block_in_bucket_def by metis

text \<open>The invariant speaks only of the type and the size of the blocks in the list.\<close>

lemma free_list_ok_cong:
  assumes "free_list_ok H fl"
    "\<And>e h. e \<in> list_blocks fl \<Longrightarrow> H e = Some h \<Longrightarrow> \<exists>h'. H' e = Some h' \<and> IsFree h' = IsFree h \<and> AllocatedSize h' = AllocatedSize h"
  shows "free_list_ok H' fl"
proof -
  have "block_in_bucket H' i e" if "i < kPageSizeLog2" "e \<in> set (free_list_heads fl ! i)" for i e
  proof -
    have "e \<in> list_blocks fl" using that assms(1) by (auto simp: in_list_blocks free_list_ok_def)
    moreover have "block_in_bucket H i e" using that assms(1) by (simp add: free_list_ok_def)
    ultimately show ?thesis using assms(2) unfolding block_in_bucket_def by metis
  qed
  then show ?thesis using assms(1) unfolding free_list_ok_def by blast
qed

lemma concat_update_cons:
  "i < length xss \<Longrightarrow> set (concat (xss[i := x # xss ! i])) = insert x (set (concat xss))"
  "i < length xss \<Longrightarrow> x \<notin> set (concat xss) \<Longrightarrow> distinct (concat xss) \<Longrightarrow> distinct (concat (xss[i := x # xss ! i]))"
proof -
  assume i: "i < length xss"
  have s: "xss = take i xss @ xss ! i # drop (Suc i) xss" using i by (rule id_take_nth_drop)
  have u: "xss[i := x # xss ! i] = take i xss @ (x # xss ! i) # drop (Suc i) xss" using i by (rule upd_conv_take_nth_drop)
  have c: "concat xss = concat (take i xss) @ xss ! i @ concat (drop (Suc i) xss)" by (subst s) simp
  show "set (concat (xss[i := x # xss ! i])) = insert x (set (concat xss))" unfolding u c by auto
  assume "x \<notin> set (concat xss)" "distinct (concat xss)"
  then show "distinct (concat (xss[i := x # xss ! i]))" unfolding u c by auto
qed

lemma concat_update_tl:
  assumes "i < length xss" "xss ! i = x # xs" "distinct (concat xss)"
  shows "set (concat (xss[i := xs])) = set (concat xss) - {x}" "distinct (concat (xss[i := xs]))"
proof -
  have s: "xss = take i xss @ xss ! i # drop (Suc i) xss" using assms(1) by (rule id_take_nth_drop)
  have u: "xss[i := xs] = take i xss @ xs # drop (Suc i) xss" using assms(1) by (rule upd_conv_take_nth_drop)
  have c: "concat xss = concat (take i xss) @ (x # xs) @ concat (drop (Suc i) xss)" by (subst s) (simp add: assms(2))
  have d: "distinct (concat (take i xss) @ (x # xs) @ concat (drop (Suc i) xss))" using assms(3) unfolding c .
  show "set (concat (xss[i := xs])) = set (concat xss) - {x}" unfolding u c using d by auto
  show "distinct (concat (xss[i := xs]))" unfolding u using d by auto
qed

lemma Add_ok:
  assumes ok: "free_list_ok H fl" and n: "8 dvd n" "0 < n" "n < kPageSize" and e: "e \<notin> list_blocks fl"
  shows "\<exists>fl'. FreeList_Add (e, n) H fl = Some (H(e \<mapsto> new_header n 0), fl') \<and> free_list_ok (H(e \<mapsto> new_header n 0)) fl' \<and>
    list_blocks fl' = list_blocks fl \<union> (if n < kFreeListEntrySize then {} else {e})"
proof -
  let ?H = "H(e \<mapsto> new_header n 0)"
  have keep: "free_list_ok ?H fl" by (rule free_list_ok_cong [OF ok]) (use e in auto)
  have hd: "AllocatedSize (new_header n 0) = n" "IsFree (new_header n 0)"
    using n by (simp_all add: IsFree_def kFreeListGCInfoIndex_def kPageSize_def kPageSizeLog2_def kMaxSize_def)
  show ?thesis
  proof (cases "n < kFreeListEntrySize")
    case True
    then show ?thesis using keep by (simp add: FreeList_Add_def kFreeListGCInfoIndex_def)
  next
    case False
    obtain m where m: "BucketIndexForSize n = m" "m < kPageSizeLog2" "2 ^ m \<le> n" "n < 2 ^ Suc m"
      using bucket_exists [OF n(2,3)] .
    have "n < 2 ^ 32" using n(3) by (simp add: kPageSize_def kPageSizeLog2_def)
    then have u: "u32 n = n" by (rule u32_id)
    have len: "length (free_list_heads fl) = kPageSizeLog2" "length (free_list_tails fl) = kPageSizeLog2" using ok by (simp_all add: free_list_ok_def)
    define b where "b = free_list_heads fl ! m"
    define fl' where "fl' = fl\<lparr>free_list_heads := (free_list_heads fl)[m := e # b],
       biggest_free_list_index := max (biggest_free_list_index fl) m,
       free_list_tails := (if b = [] then (free_list_tails fl)[m := Some e] else free_list_tails fl)\<rparr>"
    have add: "FreeList_Add (e, n) H fl = Some (?H, fl')"
      using False m(1,2) u len by (simp add: FreeList_Add_def Let_def fl'_def b_def kFreeListGCInfoIndex_def)
    have "list_blocks fl' = insert e (list_blocks fl)" "distinct (concat (free_list_heads fl'))"
      using concat_update_cons [of m "free_list_heads fl" e] e ok m(2) len
      by (simp_all add: fl'_def b_def list_blocks_def free_list_ok_def)
    moreover have "IsConsistent fl' i" "\<forall>x \<in> set (free_list_heads fl' ! i). block_in_bucket ?H i x" if "i < kPageSizeLog2" for i
    proof -
      show "IsConsistent fl' i"
        using keep that m(2) len by (cases "i = m") (auto simp: free_list_ok_def IsConsistent_def fl'_def b_def)
      have "block_in_bucket ?H m e" using hd False m(3,4) by (simp add: block_in_bucket_def)
      then show "\<forall>x \<in> set (free_list_heads fl' ! i). block_in_bucket ?H i x"
        using keep that m(2) len by (cases "i = m") (auto simp: free_list_ok_def fl'_def b_def)
    qed
    moreover have "free_list_heads fl' ! i = []" if "i < kPageSizeLog2" "biggest_free_list_index fl' < i" for i
      using ok that by (auto simp: free_list_ok_def fl'_def)
    ultimately have "free_list_ok ?H fl'"
      using ok m(2) by (auto simp: free_list_ok_def fl'_def)
    then show ?thesis using add False \<open>list_blocks fl' = insert e (list_blocks fl)\<close> by auto
  qed
qed

lemma Unlink_ok:
  assumes ok: "free_list_ok H fl" and i: "i < kPageSizeLog2" "free_list_heads fl ! i = e # rest" "\<forall>j < kPageSizeLog2. i < j \<longrightarrow> free_list_heads fl ! j = []"
  shows "free_list_ok H (FreeList_Unlink i fl)" "list_blocks (FreeList_Unlink i fl) = list_blocks fl - {e}"
proof -
  have len: "length (free_list_heads fl) = kPageSizeLog2" "length (free_list_tails fl) = kPageSizeLog2" and d: "distinct (concat (free_list_heads fl))"
    using ok by (simp_all add: free_list_ok_def)
  have c: "list_blocks (FreeList_Unlink i fl) = list_blocks fl - {e}" "distinct (concat (free_list_heads (FreeList_Unlink i fl)))"
    using concat_update_tl [of i "free_list_heads fl" e rest] i d len by (simp_all add: FreeList_Unlink_def Let_def list_blocks_def)
  show "list_blocks (FreeList_Unlink i fl) = list_blocks fl - {e}" by (rule c(1))
  have "IsConsistent (FreeList_Unlink i fl) j" "\<forall>x \<in> set (free_list_heads (FreeList_Unlink i fl) ! j). block_in_bucket H j x"
    if "j < kPageSizeLog2" for j
  proof -
    show "IsConsistent (FreeList_Unlink i fl) j"
      using ok that i len by (cases "j = i") (auto simp: free_list_ok_def IsConsistent_def FreeList_Unlink_def Let_def)
    have "\<forall>x \<in> set (free_list_heads fl ! j). block_in_bucket H j x" using ok that by (simp add: free_list_ok_def)
    then show "\<forall>x \<in> set (free_list_heads (FreeList_Unlink i fl) ! j). block_in_bucket H j x"
      using that i len by (cases "j = i") (auto simp: FreeList_Unlink_def Let_def)
  qed
  then show "free_list_ok H (FreeList_Unlink i fl)" using c(2) i len
    by (auto simp: free_list_ok_def FreeList_Unlink_def Let_def)
qed

text \<open>
  What a search from a bucket down finds: a block that is large enough, or nothing, and then every
  block of the list is smaller than twice the request.
\<close>

lemma search_ok:
  assumes ok: "free_list_ok H fl" and i: "i < kPageSizeLog2" "\<forall>j < kPageSizeLog2. i < j \<longrightarrow> free_list_heads fl ! j = []" and n: "2 \<le> n"
  shows "\<exists>r fl'. FreeList_search n H fl i = Some (r, fl') \<and> free_list_ok H fl' \<and>
    (case r of
       Some (e, k) \<Rightarrow> e \<in> list_blocks fl \<and> n \<le> k \<and> (\<exists>h. H e = Some h \<and> AllocatedSize h = k) \<and> list_blocks fl' = list_blocks fl - {e}
     | None \<Rightarrow> list_blocks fl' = list_blocks fl \<and> (\<forall>e \<in> list_blocks fl. \<forall>h. H e = Some h \<longrightarrow> AllocatedSize h < 2 * n))"
  using i
proof (induction i)
  case (0)
  have len: "length (free_list_heads fl) = kPageSizeLog2" using ok by (simp add: free_list_ok_def)
  have k: "(0::nat) < kPageSizeLog2" by (simp add: kPageSizeLog2_def)
  have "AllocatedSize h < 2 * n" if "e \<in> list_blocks fl" "H e = Some h" for e h
  proof -
    obtain j where j: "j < kPageSizeLog2" "e \<in> set (free_list_heads fl ! j)" using \<open>e \<in> list_blocks fl\<close> len by (auto simp: in_list_blocks)
    then have "j = 0" using 0 by (metis empty_iff list.set(1) neq0_conv)
    then have "block_in_bucket H 0 e" using ok j by (simp add: free_list_ok_def)
    then show ?thesis using that(2) n by (auto simp: block_in_bucket_def)
  qed
  moreover have "free_list_ok H (fl\<lparr>biggest_free_list_index := 0\<rparr>)" using ok 0 k by (auto simp: free_list_ok_def IsConsistent_def)
  ultimately show ?case by (auto simp: list_blocks_def)
next
  case (Suc i)
  have len: "length (free_list_heads fl) = kPageSizeLog2" using ok by (simp add: free_list_ok_def)
  let ?b = "free_list_heads fl ! Suc i"
  have stop: "free_list_ok H (fl\<lparr>biggest_free_list_index := Suc i\<rparr>)" using ok Suc.prems by (auto simp: free_list_ok_def IsConsistent_def)
  have small: "\<forall>e \<in> list_blocks fl. \<forall>h. H e = Some h \<longrightarrow> AllocatedSize h < 2 * n" if "2 ^ Suc i < n"
  proof (intro ballI allI impI)
    fix e h assume "e \<in> list_blocks fl" "H e = Some h"
    then obtain j where j: "j < kPageSizeLog2" "e \<in> set (free_list_heads fl ! j)" using len by (auto simp: in_list_blocks)
    then have "j \<le> Suc i" using Suc.prems(2) by (metis empty_iff list.set(1) not_less)
    then have "(2 :: nat) ^ Suc j \<le> 2 ^ Suc (Suc i)" by (intro power_increasing) auto
    moreover have "block_in_bucket H j e" using ok j by (simp add: free_list_ok_def)
    ultimately show "AllocatedSize h < 2 * n" using \<open>H e = Some h\<close> that by (auto simp: block_in_bucket_def)
  qed
  show ?case
  proof (cases ?b)
    case Nil
    show ?thesis
    proof (cases "n > 2 ^ Suc i")
      case True
      then show ?thesis using Nil Suc.prems(1) len stop small by (auto simp: list_blocks_def)
    next
      case False
      have "i < kPageSizeLog2" "\<forall>j < kPageSizeLog2. i < j \<longrightarrow> free_list_heads fl ! j = []"
        using Suc.prems Nil Suc_lessI [of i] by (auto, metis)
      from Suc.IH [OF this] show ?thesis using Nil False Suc.prems(1) len by simp
    qed
  next
    case (Cons e rest)
    have "block_in_bucket H (Suc i) e" using ok Suc.prems(1) Cons by (simp add: free_list_ok_def)
    then obtain h where h: "H e = Some h" "2 ^ Suc i \<le> AllocatedSize h" by (auto simp: block_in_bucket_def)
    have e: "e \<in> list_blocks fl" using Cons Suc.prems(1) len by (auto simp: in_list_blocks)
    show ?thesis
    proof (cases "n > 2 ^ Suc i \<and> AllocatedSize h < n")
      case True
      have "FreeList_search n H fl (Suc i) = Some (None, fl\<lparr>biggest_free_list_index := Suc i\<rparr>)"
        using True Cons Suc.prems(1) len h(1) by simp
      then show ?thesis using stop small [OF conjunct1 [OF True]] by (simp add: list_blocks_def)
    next
      case False
      have "FreeList_search n H fl (Suc i) = Some (Some (e, AllocatedSize h), FreeList_Unlink (Suc i) fl)"
        using False Cons Suc.prems(1) len h(1) by simp
      moreover have "n \<le> AllocatedSize h" using False h(2) by auto
      ultimately show ?thesis using e h(1) Unlink_ok [OF ok Suc.prems(1) Cons Suc.prems(2)] by simp
    qed
  qed
qed

lemma FreeList_Allocate_ok:
  assumes "free_list_ok H fl" "2 \<le> n"
  shows "\<exists>r fl'. FreeList_Allocate n H fl = Some (r, fl') \<and> free_list_ok H fl' \<and>
    (case r of
       Some (e, k) \<Rightarrow> e \<in> list_blocks fl \<and> n \<le> k \<and> (\<exists>h. H e = Some h \<and> AllocatedSize h = k) \<and> list_blocks fl' = list_blocks fl - {e}
     | None \<Rightarrow> list_blocks fl' = list_blocks fl \<and> (\<forall>e \<in> list_blocks fl. \<forall>h. H e = Some h \<longrightarrow> AllocatedSize h < 2 * n))"
  unfolding FreeList_Allocate_def using assms by (intro search_ok) (auto simp: free_list_ok_def)

end
