(* ===== verification/Persistent_Region.thy ===== *)
theory Persistent_Region
  imports Handle_Table
begin

text \<open>
  Roots of the garbage-collected heap (\<open>WASMv8bindings/include/cppgc/internal/persistent-node.h\<close> and
  \<open>cppgc/persistent.h\<close>): a region of nodes with a free list threaded through the unused ones, and the
  persistent handles that own the used nodes.  The slabs of 256 nodes are concatenated; a node is
  named by its index.  All owners of a region are traced by the same callback, which is therefore not
  part of a node.  \<open>None\<close> stands for undefined behaviour: a free list that leads to a used node, or a
  handle that does not exist.
\<close>

datatype PersistentNode = UsedNode nat | UnusedNode "nat option"

record PersistentRegion =
  nodes :: "PersistentNode list"
  node_list_head :: "nat option"
  nodes_in_use :: nat

definition new_region :: PersistentRegion where
  "new_region = \<lparr>nodes = [], node_list_head = None, nodes_in_use = 0\<rparr>"

definition InitializeAsFreeNode :: "nat \<Rightarrow> PersistentRegion \<Rightarrow> PersistentRegion" where
  "InitializeAsFreeNode i r = r\<lparr>nodes := (nodes r)[i := UnusedNode (node_list_head r)], node_list_head := Some i\<rparr>"

definition TryAllocateNodeFromFreeList :: "nat \<Rightarrow> PersistentRegion \<Rightarrow> (nat option \<times> PersistentRegion) option" where
  "TryAllocateNodeFromFreeList owner r =
     (case node_list_head r of
        None \<Rightarrow> Some (None, r)
      | Some i \<Rightarrow>
          (case nth_opt (nodes r) i of
             Some (UnusedNode nxt) \<Rightarrow>
               Some (Some i, r\<lparr>nodes := (nodes r)[i := UsedNode owner], node_list_head := nxt, nodes_in_use := nodes_in_use r + 1\<rparr>)
           | _ \<Rightarrow> None))"

definition RefillFreeListAndAllocateNode :: "nat \<Rightarrow> PersistentRegion \<Rightarrow> (nat option \<times> PersistentRegion) option" where
  "RefillFreeListAndAllocateNode owner r =
     (let n = length (nodes r);
          r = r\<lparr>nodes := nodes r @ replicate 256 (UnusedNode None)\<rparr>
      in TryAllocateNodeFromFreeList owner (fold InitializeAsFreeNode [n..<n + 256] r))"

definition AllocateNode :: "nat \<Rightarrow> PersistentRegion \<Rightarrow> (nat \<times> PersistentRegion) option" where
  "AllocateNode owner r = do {
     (node, r) \<leftarrow> TryAllocateNodeFromFreeList owner r;
     (case node of
        Some i \<Rightarrow> Some (i, r)
      | None \<Rightarrow> do {
          (node, r) \<leftarrow> RefillFreeListAndAllocateNode owner r;
          i \<leftarrow> node;
          Some (i, r) }) }"

definition FreeNode :: "nat \<Rightarrow> PersistentRegion \<Rightarrow> PersistentRegion option" where
  "FreeNode i r =
     (case nth_opt (nodes r) i of
        Some (UsedNode _) \<Rightarrow> Some ((InitializeAsFreeNode i r)\<lparr>nodes_in_use := nodes_in_use r - 1\<rparr>)
      | _ \<Rightarrow> None)"

definition UpdateOwner :: "nat \<Rightarrow> nat \<Rightarrow> PersistentRegion \<Rightarrow> PersistentRegion option" where
  "UpdateOwner i owner r =
     (case nth_opt (nodes r) i of
        Some (UsedNode _) \<Rightarrow> Some (r\<lparr>nodes := (nodes r)[i := UsedNode owner]\<rparr>)
      | _ \<Rightarrow> None)"

text \<open>\<open>Iterate\<close> traces the owners of used nodes in order and threads the unused ones anew.\<close>

definition iterate_node :: "nat \<Rightarrow> nat list \<times> PersistentRegion \<Rightarrow> nat list \<times> PersistentRegion" where
  "iterate_node i st =
     (case st of (owners, r) \<Rightarrow>
        (case nodes r ! i of
           UsedNode owner \<Rightarrow> (owners @ [owner], r)
         | UnusedNode _ \<Rightarrow> (owners, InitializeAsFreeNode i r)))"

definition Iterate :: "PersistentRegion \<Rightarrow> nat list \<times> PersistentRegion" where
  "Iterate r = fold iterate_node [0..<length (nodes r)] ([], r\<lparr>node_list_head := None\<rparr>)"

definition clear_node :: "nat \<Rightarrow> PersistentRegion \<Rightarrow> PersistentRegion" where
  "clear_node i r =
     (case nodes r ! i of
        UsedNode _ \<Rightarrow> (InitializeAsFreeNode i r)\<lparr>nodes_in_use := nodes_in_use r - 1\<rparr>
      | UnusedNode _ \<Rightarrow> r)"

definition ClearAllUsedNodes :: "PersistentRegion \<Rightarrow> PersistentRegion" where
  "ClearAllUsedNodes r = fold clear_node [0..<length (nodes r)] r"

subsection \<open>The invariant of a region\<close>

definition node_owner :: "PersistentRegion \<Rightarrow> nat \<Rightarrow> nat option" where
  "node_owner r i = (case nth_opt (nodes r) i of Some (UsedNode owner) \<Rightarrow> Some owner | _ \<Rightarrow> None)"

fun node_chain :: "PersistentNode list \<Rightarrow> nat option \<Rightarrow> nat list \<Rightarrow> bool" where
  "node_chain ns h [] \<longleftrightarrow> h = None"
| "node_chain ns h (i # ch) \<longleftrightarrow> h = Some i \<and> i < length ns \<and> (\<exists>k. ns ! i = UnusedNode k \<and> node_chain ns k ch)"

definition unused :: "PersistentNode list \<Rightarrow> nat set" where
  "unused ns = {i. i < length ns \<and> (\<exists>k. ns ! i = UnusedNode k)}"

definition used :: "PersistentNode list \<Rightarrow> nat set" where
  "used ns = {i. i < length ns \<and> (\<exists>w. ns ! i = UsedNode w)}"

definition region_ok :: "PersistentRegion \<Rightarrow> bool" where
  "region_ok r \<longleftrightarrow> nodes_in_use r = card (used (nodes r)) \<and>
     (\<exists>ch. node_chain (nodes r) (node_list_head r) ch \<and> distinct ch \<and> set ch = unused (nodes r))"

lemma finite_used [simp]: "finite (used ns)"
  by (simp add: used_def)

lemma used_iff: "i \<in> used ns \<longleftrightarrow> i < length ns \<and> i \<notin> unused ns"
  by (cases "ns ! i") (auto simp: used_def unused_def)

lemma node_owner_Some: "node_owner r i = Some w \<longleftrightarrow> i < length (nodes r) \<and> nodes r ! i = UsedNode w"
  by (auto simp: node_owner_def nth_opt_def split: PersistentNode.splits)

lemma node_owner_used: "node_owner r i \<noteq> None \<longleftrightarrow> i \<in> used (nodes r)"
  by (auto simp: node_owner_Some used_def)

lemma unused_update:
  "i < length ns \<Longrightarrow> unused (ns[i := UnusedNode k]) = insert i (unused ns)"
  "i < length ns \<Longrightarrow> unused (ns[i := UsedNode w]) = unused ns - {i}"
  by (auto simp: unused_def nth_list_update)

lemma used_update:
  "i < length ns \<Longrightarrow> used (ns[i := UnusedNode k]) = used ns - {i}"
  "i < length ns \<Longrightarrow> used (ns[i := UsedNode w]) = insert i (used ns)"
  by (auto simp: used_def nth_list_update)

lemma node_chain_update: "node_chain ns h ch \<Longrightarrow> i \<notin> set ch \<Longrightarrow> node_chain (ns[i := e]) h ch"
  by (induction ch arbitrary: h) auto

lemma region_okI:
  "nodes_in_use r = card (used (nodes r)) \<Longrightarrow> node_chain (nodes r) (node_list_head r) ch \<Longrightarrow> distinct ch \<Longrightarrow>
   set ch = unused (nodes r) \<Longrightarrow> region_ok r"
  unfolding region_ok_def by blast

lemma region_okE:
  assumes "region_ok r"
  obtains ch where "nodes_in_use r = card (used (nodes r))" "node_chain (nodes r) (node_list_head r) ch" "distinct ch"
    "set ch = unused (nodes r)"
  using assms unfolding region_ok_def by blast

lemma new_region_ok [simp]: "region_ok new_region"
  by (rule region_okI [where ch = "[]"]) (simp_all add: new_region_def used_def unused_def)

text \<open>Threading a stretch of unused nodes onto a free list that leads to none of them.\<close>

lemma thread_stretch:
  assumes "node_chain (nodes r) (node_list_head r) ch" "distinct ch" "set ch \<inter> {a..<b} = {}" "b \<le> length (nodes r)"
    "\<forall>i\<in>{a..<b}. i \<in> unused (nodes r)"
  shows "\<exists>ch'. node_chain (nodes (fold InitializeAsFreeNode [a..<b] r)) (node_list_head (fold InitializeAsFreeNode [a..<b] r)) ch' \<and>
    distinct ch' \<and> set ch' = set ch \<union> {a..<b} \<and> length (nodes (fold InitializeAsFreeNode [a..<b] r)) = length (nodes r) \<and>
    (\<forall>j. j \<notin> {a..<b} \<longrightarrow> nodes (fold InitializeAsFreeNode [a..<b] r) ! j = nodes r ! j) \<and>
    unused (nodes (fold InitializeAsFreeNode [a..<b] r)) = unused (nodes r) \<and>
    used (nodes (fold InitializeAsFreeNode [a..<b] r)) = used (nodes r) \<and>
    nodes_in_use (fold InitializeAsFreeNode [a..<b] r) = nodes_in_use r"
  using assms
proof (induction "b - a" arbitrary: a r ch)
  case 0
  then show ?case by (intro exI [of _ ch]) auto
next
  case (Suc n)
  let ?r = "InitializeAsFreeNode a r"
  have ab: "a < b" "[a..<b] = a # [Suc a..<b]" using Suc.hyps(2) by (simp_all add: upt_rec)
  have al: "a < length (nodes r)" "a \<notin> set ch" "a \<in> unused (nodes r)" using ab(1) Suc.prems by auto
  have 1: "node_chain (nodes ?r) (node_list_head ?r) (a # ch)"
    using node_chain_update [OF Suc.prems(1) al(2)] al(1) by (simp add: InitializeAsFreeNode_def)
  have 2: "unused (nodes ?r) = unused (nodes r)" "used (nodes ?r) = used (nodes r)" "length (nodes ?r) = length (nodes r)"
    "nodes_in_use ?r = nodes_in_use r" "\<forall>j. j \<noteq> a \<longrightarrow> nodes ?r ! j = nodes r ! j"
    using al by (auto simp: InitializeAsFreeNode_def unused_update used_update used_iff)
  have n: "n = b - Suc a" using Suc.hyps(2) by simp
  have 3: "distinct (a # ch)" "set (a # ch) \<inter> {Suc a..<b} = {}" "b \<le> length (nodes ?r)" "\<forall>i\<in>{Suc a..<b}. i \<in> unused (nodes ?r)"
    using Suc.prems al 2 by auto
  obtain ch' where "node_chain (nodes (fold InitializeAsFreeNode [Suc a..<b] ?r)) (node_list_head (fold InitializeAsFreeNode [Suc a..<b] ?r)) ch'"
    "distinct ch'" "set ch' = set (a # ch) \<union> {Suc a..<b}" "length (nodes (fold InitializeAsFreeNode [Suc a..<b] ?r)) = length (nodes ?r)"
    "\<forall>j. j \<notin> {Suc a..<b} \<longrightarrow> nodes (fold InitializeAsFreeNode [Suc a..<b] ?r) ! j = nodes ?r ! j"
    "unused (nodes (fold InitializeAsFreeNode [Suc a..<b] ?r)) = unused (nodes ?r)"
    "used (nodes (fold InitializeAsFreeNode [Suc a..<b] ?r)) = used (nodes ?r)"
    "nodes_in_use (fold InitializeAsFreeNode [Suc a..<b] ?r) = nodes_in_use ?r"
    using Suc.hyps(1) [OF n 1 3] by (elim exE conjE) (rule that)
  then show ?case unfolding ab(2) fold.simps o_apply using 2 ab(1) by (intro exI [of _ ch']) auto
qed

subsection \<open>Allocating and freeing nodes\<close>

lemma TryAllocateNode_ok:
  assumes "region_ok r"
  shows "node_list_head r = None \<and> unused (nodes r) = {} \<and> TryAllocateNodeFromFreeList w r = Some (None, r) \<or>
    (\<exists>i r'. TryAllocateNodeFromFreeList w r = Some (Some i, r') \<and> node_owner r i = None \<and> region_ok r' \<and>
       node_owner r' = (node_owner r)(i \<mapsto> w))"
proof -
  obtain ch where c: "nodes_in_use r = card (used (nodes r))" "node_chain (nodes r) (node_list_head r) ch" "distinct ch"
    "set ch = unused (nodes r)" using assms by (rule region_okE)
  show ?thesis
  proof (cases ch)
    case Nil
    then show ?thesis using c by (simp add: TryAllocateNodeFromFreeList_def)
  next
    case (Cons i js)
    obtain k where i: "node_list_head r = Some i" "i < length (nodes r)" "nodes r ! i = UnusedNode k" "node_chain (nodes r) k js"
      using c(2) Cons by auto
    let ?r = "r\<lparr>nodes := (nodes r)[i := UsedNode w], node_list_head := k, nodes_in_use := nodes_in_use r + 1\<rparr>"
    have "i \<notin> used (nodes r)" using i(3) by (simp add: used_def)
    then have "region_ok ?r" using c Cons i(2) node_chain_update [OF i(4)]
      by (intro region_okI [where ch = js]) (auto simp: used_update unused_update)
    moreover have "node_owner ?r = (node_owner r)(i \<mapsto> w)"
      using i(2) by (auto simp: fun_eq_iff node_owner_def nth_opt_def nth_list_update)
    ultimately show ?thesis using i by (auto simp: TryAllocateNodeFromFreeList_def node_owner_def)
  qed
qed

lemma RefillNode_ok:
  assumes "region_ok r" "node_list_head r = None" "unused (nodes r) = {}"
  shows "\<exists>r'. region_ok r' \<and> node_owner r' = node_owner r \<and> unused (nodes r') \<noteq> {} \<and>
    RefillFreeListAndAllocateNode w r = TryAllocateNodeFromFreeList w r'"
proof -
  let ?n = "length (nodes r)"
  let ?r = "r\<lparr>nodes := nodes r @ replicate 256 (UnusedNode None)\<rparr>"
  let ?f = "fold InitializeAsFreeNode [?n..<?n + 256] ?r"
  have u: "unused (nodes ?r) = {?n..<?n + 256}" "used (nodes ?r) = used (nodes r)"
    using assms(3) by (auto simp: unused_def used_def nth_append)
  obtain ch' where c: "node_chain (nodes ?f) (node_list_head ?f) ch'" "distinct ch'" "set ch' = {?n..<?n + 256}"
    "length (nodes ?f) = length (nodes ?r)" "\<forall>j. j \<notin> {?n..<?n + 256} \<longrightarrow> nodes ?f ! j = nodes ?r ! j"
    "unused (nodes ?f) = unused (nodes ?r)" "used (nodes ?f) = used (nodes ?r)" "nodes_in_use ?f = nodes_in_use ?r"
    using thread_stretch [of ?r "[]" ?n "?n + 256"] assms(2) u by auto
  have "region_ok ?f"
    by (rule region_okI [OF _ c(1,2)]) (use c u assms(1) in \<open>auto simp: region_ok_def\<close>)
  moreover have "node_owner ?f i = node_owner r i" for i
  proof (cases "i < ?n")
    case True
    then show ?thesis using c(4,5) by (simp add: node_owner_def nth_opt_def nth_append)
  next
    case False
    then have "i \<notin> used (nodes ?f)" unfolding c(7) u(2) by (simp add: used_def)
    then have "node_owner ?f i = None" using node_owner_used [of ?f i] by simp
    then show ?thesis using False by (simp add: node_owner_def nth_opt_def)
  qed
  ultimately show ?thesis using c(6) u(1)
    by (intro exI [of _ ?f]) (auto simp: RefillFreeListAndAllocateNode_def Let_def)
qed

lemma AllocateNode_ok:
  assumes "region_ok r"
  shows "\<exists>i r'. AllocateNode w r = Some (i, r') \<and> node_owner r i = None \<and> region_ok r' \<and> node_owner r' = (node_owner r)(i \<mapsto> w)"
  using TryAllocateNode_ok [OF assms, of w]
proof (elim disjE exE conjE)
  assume e: "node_list_head r = None" "unused (nodes r) = {}" "TryAllocateNodeFromFreeList w r = Some (None, r)"
  obtain r1 where r1: "region_ok r1" "node_owner r1 = node_owner r" "unused (nodes r1) \<noteq> {}"
    "RefillFreeListAndAllocateNode w r = TryAllocateNodeFromFreeList w r1" using RefillNode_ok [OF assms e(1,2), of w] by auto
  then show ?thesis using TryAllocateNode_ok [OF r1(1), of w] e(3) by (auto simp: AllocateNode_def)
qed (auto simp: AllocateNode_def)

lemma FreeNode_ok:
  assumes "region_ok r" "node_owner r i = Some w"
  shows "\<exists>r'. FreeNode i r = Some r' \<and> region_ok r' \<and> node_owner r' = (node_owner r)(i := None)"
proof -
  obtain ch where c: "nodes_in_use r = card (used (nodes r))" "node_chain (nodes r) (node_list_head r) ch" "distinct ch"
    "set ch = unused (nodes r)" using assms(1) by (rule region_okE)
  have i: "i < length (nodes r)" "nodes r ! i = UsedNode w" using assms(2) by (simp_all add: node_owner_Some)
  then have n: "i \<notin> set ch" "i \<in> used (nodes r)" by (auto simp: c(4) unused_def used_def)
  let ?r = "(InitializeAsFreeNode i r)\<lparr>nodes_in_use := nodes_in_use r - 1\<rparr>"
  have "region_ok ?r"
    by (rule region_okI [where ch = "i # ch"])
      (use c n i node_chain_update [OF c(2) n(1)] in \<open>auto simp: InitializeAsFreeNode_def unused_update used_update\<close>)
  moreover have "node_owner ?r = (node_owner r)(i := None)"
    using i(1) by (auto simp: fun_eq_iff node_owner_def nth_opt_def nth_list_update InitializeAsFreeNode_def)
  ultimately show ?thesis using i by (simp add: FreeNode_def)
qed

lemma UpdateOwner_ok:
  assumes "region_ok r" "node_owner r i = Some w"
  shows "\<exists>r'. UpdateOwner i v r = Some r' \<and> region_ok r' \<and> node_owner r' = (node_owner r)(i \<mapsto> v)"
proof -
  obtain ch where c: "nodes_in_use r = card (used (nodes r))" "node_chain (nodes r) (node_list_head r) ch" "distinct ch"
    "set ch = unused (nodes r)" using assms(1) by (rule region_okE)
  have i: "i < length (nodes r)" "nodes r ! i = UsedNode w" using assms(2) by (simp_all add: node_owner_Some)
  then have n: "i \<notin> set ch" "i \<in> used (nodes r)" by (auto simp: c(4) unused_def used_def)
  let ?r = "r\<lparr>nodes := (nodes r)[i := UsedNode v]\<rparr>"
  have "region_ok ?r"
    by (rule region_okI [where ch = ch])
      (use c n i node_chain_update [OF c(2) n(1)] in \<open>auto simp: unused_update used_update insert_absorb\<close>)
  moreover have "node_owner ?r = (node_owner r)(i \<mapsto> v)"
    using i(1) by (auto simp: fun_eq_iff node_owner_def nth_opt_def nth_list_update)
  ultimately show ?thesis using i by (simp add: UpdateOwner_def)
qed

text \<open>A region is a table of handles: node \<open>i\<close> has the handle \<open>i + 1\<close>.\<close>

definition region_look :: "PersistentRegion \<Rightarrow> nat \<Rightarrow> nat option" where
  "region_look r h = (if h = 0 then None else node_owner r (h - 1))"

lemma region_look_upd: "node_owner r' = (node_owner r)(i := x) \<Longrightarrow> region_look r' = (region_look r)(Suc i := x)"
  by (auto simp: region_look_def fun_eq_iff)

interpretation region: handle_table region_ok "\<lambda>_. True" region_look
  "\<lambda>w r. map_option (\<lambda>(i, r'). (i + 1, r')) (AllocateNode w r)" "\<lambda>h r. FreeNode (h - 1) r" "\<lambda>_. True"
proof
  fix r and w :: nat
  assume "region_ok r"
  from AllocateNode_ok [OF this, of w] obtain i r' where
    "AllocateNode w r = Some (i, r')" "node_owner r i = None" "region_ok r'" "node_owner r' = (node_owner r)(i \<mapsto> w)" by auto
  then show "\<exists>h t'. map_option (\<lambda>(i, r'). (i + 1, r')) (AllocateNode w r) = Some (h, t') \<and> h \<noteq> 0 \<and> region_look r h = None \<and>
      region_ok t' \<and> region_look t' = (region_look r)(h \<mapsto> w)"
    using region_look_upd by (intro exI [of _ "Suc i"] exI [of _ r']) (simp add: region_look_def)
next
  fix r h and w :: nat
  assume "region_ok r" "region_look r h = Some w"
  then obtain i where i: "h = Suc i" "node_owner r i = Some w" by (cases h) (auto simp: region_look_def)
  from FreeNode_ok [OF \<open>region_ok r\<close> i(2)]
  show "\<exists>t'. FreeNode (h - 1) r = Some t' \<and> region_ok t' \<and> region_look t' = (region_look r)(h := None)"
    using region_look_upd i(1) by auto
qed (simp add: region_look_def)

subsection \<open>Tracing the roots\<close>

definition owners_below :: "PersistentRegion \<Rightarrow> nat \<Rightarrow> nat list" where
  "owners_below r n = List.map_filter (node_owner r) [0..<n]"

lemma iterate_prefix:
  assumes "n \<le> length (nodes r)"
  shows "\<exists>r' ch. fold iterate_node [0..<n] ([], r\<lparr>node_list_head := None\<rparr>) = (owners_below r n, r') \<and>
    length (nodes r') = length (nodes r) \<and> node_owner r' = node_owner r \<and> nodes_in_use r' = nodes_in_use r \<and>
    (\<forall>j\<ge>n. nodes r' ! j = nodes r ! j) \<and>
    node_chain (nodes r') (node_list_head r') ch \<and> distinct ch \<and> set ch = unused (nodes r) \<inter> {..<n}"
  using assms
proof (induction n)
  case 0
  show ?case by (intro exI [of _ "r\<lparr>node_list_head := None\<rparr>"] exI [of _ "[]"]) (simp add: owners_below_def map_filter_simps node_owner_def fun_eq_iff)
next
  case (Suc n)
  obtain r' ch where i: "fold iterate_node [0..<n] ([], r\<lparr>node_list_head := None\<rparr>) = (owners_below r n, r')"
    "length (nodes r') = length (nodes r)" "node_owner r' = node_owner r" "nodes_in_use r' = nodes_in_use r"
    "\<forall>j\<ge>n. nodes r' ! j = nodes r ! j"
    "node_chain (nodes r') (node_list_head r') ch" "distinct ch" "set ch = unused (nodes r) \<inter> {..<n}"
    using Suc.IH [OF Suc_leD [OF Suc.prems]] by (elim exE conjE) (rule that)
  have n: "n < length (nodes r')" "nodes r' ! n = nodes r ! n" using Suc.prems i(2,5) by simp_all
  show ?case
  proof (cases "nodes r ! n")
    case (UsedNode w)
    have "node_owner r n = Some w" using UsedNode n i(2) by (simp add: node_owner_Some)
    then have "owners_below r (Suc n) = owners_below r n @ [w]"
      by (simp add: owners_below_def List.map_filter_def)
    moreover have "unused (nodes r) \<inter> {..<Suc n} = unused (nodes r) \<inter> {..<n}"
      using UsedNode by (auto simp: unused_def less_Suc_eq)
    moreover have "iterate_node n (owners_below r n, r') = (owners_below r n @ [w], r')" using UsedNode n(2) by (simp add: iterate_node_def)
    ultimately show ?thesis using i n by (intro exI [of _ r'] exI [of _ ch]) auto
  next
    case (UnusedNode k)
    let ?r = "InitializeAsFreeNode n r'"
    have "node_owner r n = None" using UnusedNode n i(2) by (simp add: node_owner_def)
    then have 1: "owners_below r (Suc n) = owners_below r n" by (simp add: owners_below_def List.map_filter_def)
    have 2: "set (n # ch) = unused (nodes r) \<inter> {..<Suc n}"
      using UnusedNode n(1) i(2) by (auto simp: i(8) unused_def less_Suc_eq)
    have 3: "node_chain (nodes ?r) (node_list_head ?r) (n # ch)"
      using node_chain_update [OF i(6), of n] n(1) i(8) by (simp add: InitializeAsFreeNode_def)
    have "node_owner ?r = node_owner r'"
      using n UnusedNode by (auto simp: fun_eq_iff InitializeAsFreeNode_def node_owner_def nth_opt_def nth_list_update)
    moreover have "iterate_node n (owners_below r n, r') = (owners_below r n, ?r)" using UnusedNode n(2) by (simp add: iterate_node_def)
    moreover have "length (nodes ?r) = length (nodes r')" "nodes_in_use ?r = nodes_in_use r'" "\<forall>j\<ge>Suc n. nodes ?r ! j = nodes r' ! j"
      by (simp_all add: InitializeAsFreeNode_def)
    ultimately show ?thesis using i n 1 2 3 by (intro exI [of _ ?r] exI [of _ "n # ch"]) auto
  qed
qed

lemma unused_by_owner: "unused (nodes r) = {i. i < length (nodes r) \<and> node_owner r i = None}"
proof -
  have "i \<in> unused (nodes r) \<longleftrightarrow> i < length (nodes r) \<and> node_owner r i = None" for i
    by (cases "nodes r ! i") (auto simp: unused_def node_owner_def nth_opt_def)
  then show ?thesis by auto
qed

lemma used_by_owner: "used (nodes r) = {i. node_owner r i \<noteq> None}"
  using node_owner_used [of r] by auto

lemma Iterate_ok:
  assumes "region_ok r"
  shows "\<exists>r'. Iterate r = (owners_below r (length (nodes r)), r') \<and> region_ok r' \<and> node_owner r' = node_owner r"
proof -
  obtain r' ch where i: "fold iterate_node [0..<length (nodes r)] ([], r\<lparr>node_list_head := None\<rparr>) = (owners_below r (length (nodes r)), r')"
    "length (nodes r') = length (nodes r)" "node_owner r' = node_owner r" "nodes_in_use r' = nodes_in_use r"
    "node_chain (nodes r') (node_list_head r') ch" "distinct ch" "set ch = unused (nodes r) \<inter> {..<length (nodes r)}"
    using iterate_prefix [OF order_refl, of r] by (elim exE conjE) (rule that)
  have "region_ok r'" by (rule region_okI [OF _ i(5,6)])
      (use i assms in \<open>auto simp: unused_by_owner used_by_owner region_ok_def\<close>)
  then show ?thesis using i by (auto simp: Iterate_def)
qed

lemma set_owners: "set (owners_below r (length (nodes r))) = ran (node_owner r)"
proof -
  have "w \<in> set (owners_below r (length (nodes r))) \<longleftrightarrow> (\<exists>i<length (nodes r). node_owner r i = Some w)" for w
    by (auto simp: owners_below_def List.map_filter_def intro: rev_image_eqI)
  moreover have "node_owner r i = Some w \<Longrightarrow> i < length (nodes r)" for i w by (simp add: node_owner_Some)
  ultimately show ?thesis unfolding ran_def by blast
qed

lemma distinct_owners:
  assumes "inj_on (node_owner r) (dom (node_owner r))"
  shows "distinct (owners_below r n)"
proof -
  let ?is = "filter (\<lambda>i. node_owner r i \<noteq> None) [0..<n]"
  have "inj_on (\<lambda>i. the (node_owner r i)) (set ?is)"
    by (rule inj_onI) (use assms in \<open>auto simp: inj_on_def dom_def\<close>)
  then show ?thesis by (simp add: owners_below_def List.map_filter_def distinct_map comp_def)
qed

lemma ClearAll_prefix:
  assumes "region_ok r" "n \<le> length (nodes r)"
  shows "region_ok (fold clear_node [0..<n] r) \<and> length (nodes (fold clear_node [0..<n] r)) = length (nodes r) \<and>
    node_owner (fold clear_node [0..<n] r) = (\<lambda>i. if i < n then None else node_owner r i)"
  using assms(2)
proof (induction n)
  case (Suc n)
  let ?r = "fold clear_node [0..<n] r"
  have i: "region_ok ?r" "length (nodes ?r) = length (nodes r)" "node_owner ?r = (\<lambda>i. if i < n then None else node_owner r i)"
    using Suc by simp_all
  show ?case
  proof (cases "nodes ?r ! n")
    case (UsedNode w)
    have "node_owner ?r n = Some w" using UsedNode i(2) Suc.prems by (simp add: node_owner_Some)
    from FreeNode_ok [OF i(1) this] obtain r' where r': "FreeNode n ?r = Some r'" "region_ok r'" "node_owner r' = (node_owner ?r)(n := None)" by auto
    have c: "clear_node n ?r = r'" using r'(1) UsedNode i(2) Suc.prems by (simp add: clear_node_def FreeNode_def)
    moreover have "length (nodes (clear_node n ?r)) = length (nodes ?r)" using UsedNode by (simp add: clear_node_def InitializeAsFreeNode_def)
    ultimately show ?thesis using r'(2,3) i by (auto simp: fun_eq_iff less_Suc_eq)
  next
    case (UnusedNode k)
    then have "node_owner ?r n = None" using i(2) Suc.prems by (simp add: node_owner_def)
    moreover have "clear_node n ?r = ?r" using UnusedNode by (simp add: clear_node_def)
    ultimately show ?thesis using i by (auto simp: fun_eq_iff less_Suc_eq)
  qed
qed (use assms in simp)

text \<open>Destroying a region leaves no node in use.\<close>

lemma ClearAllUsedNodes_ok:
  assumes "region_ok r"
  shows "region_ok (ClearAllUsedNodes r)" "nodes_in_use (ClearAllUsedNodes r) = 0"
proof -
  have c: "region_ok (ClearAllUsedNodes r)" "node_owner (ClearAllUsedNodes r) = (\<lambda>i. if i < length (nodes r) then None else node_owner r i)"
    using ClearAll_prefix [OF assms order_refl] by (simp_all add: ClearAllUsedNodes_def)
  show "region_ok (ClearAllUsedNodes r)" by (rule c(1))
  have "node_owner (ClearAllUsedNodes r) i = None" for i
    using c(2) node_owner_Some [of r i] by (cases "node_owner r i") auto
  then show "nodes_in_use (ClearAllUsedNodes r) = 0" using c(1) by (simp add: region_ok_def used_by_owner)
qed

end
