(* ===== verification/Gc_Roots.thy ===== *)
theory Gc_Roots
  imports Persistent_Region
begin

text \<open>
  Persistent handles (\<open>WASMv8bindings/include/cppgc/persistent.h\<close>): objects outside the heap that hold a
  pointer into it and register themselves with a region while the pointer is not null.  The handles
  of one kind, strong or weak, are kept together with their region.
\<close>

record BasicPersistent =
  persistent_value :: nat
  persistent_node :: "nat option"

record Persistents =
  region :: PersistentRegion
  handles :: "nat \<Rightarrow> BasicPersistent option"

definition no_persistents :: Persistents where
  "no_persistents = \<lparr>region = new_region, handles = Map.empty\<rparr>"

definition null_persistent :: BasicPersistent where
  "null_persistent = \<lparr>persistent_value = 0, persistent_node = None\<rparr>"

subsection \<open>Operations\<close>

text \<open>\<open>if (node_) region_->FreeNode(node_)\<close>.\<close>

definition free_own_node :: "BasicPersistent \<Rightarrow> PersistentRegion \<Rightarrow> PersistentRegion option" where
  "free_own_node q r = (case persistent_node q of None \<Rightarrow> Some r | Some i \<Rightarrow> FreeNode i r)"

definition construct_persistent :: "nat \<Rightarrow> Persistents \<Rightarrow> Persistents" where
  "construct_persistent w P = P\<lparr>handles := (handles P)(w \<mapsto> null_persistent)\<rparr>"

definition Persistent_Clear :: "nat \<Rightarrow> Persistents \<Rightarrow> Persistents option" where
  "Persistent_Clear w P = do {
     q \<leftarrow> handles P w;
     r \<leftarrow> free_own_node q (region P);
     Some (P\<lparr>region := r, handles := (handles P)(w \<mapsto> null_persistent)\<rparr>) }"

definition Persistent_Assign :: "nat \<Rightarrow> nat \<Rightarrow> Persistents \<Rightarrow> Persistents option" where
  "Persistent_Assign w raw P = do {
     q \<leftarrow> handles P w;
     r \<leftarrow> free_own_node q (region P);
     if raw = 0 then Some (P\<lparr>region := r, handles := (handles P)(w \<mapsto> null_persistent)\<rparr>)
     else do {
       (i, r) \<leftarrow> AllocateNode w r;
       Some (P\<lparr>region := r, handles := (handles P)(w \<mapsto> \<lparr>persistent_value = raw, persistent_node = Some i\<rparr>)\<rparr>) } }"

definition move_persistent :: "nat \<Rightarrow> nat \<Rightarrow> Persistents \<Rightarrow> Persistents option" where
  "move_persistent w other P = do {
     q \<leftarrow> handles P other;
     r \<leftarrow> (case persistent_node q of None \<Rightarrow> Some (region P) | Some i \<Rightarrow> UpdateOwner i w (region P));
     Some (P\<lparr>region := r, handles := (handles P)(w \<mapsto> q, other \<mapsto> null_persistent)\<rparr>) }"

definition destroy_persistent :: "nat \<Rightarrow> Persistents \<Rightarrow> Persistents option" where
  "destroy_persistent w P = do {
     P \<leftarrow> Persistent_Clear w P;
     Some (P\<lparr>handles := (handles P)(w := None)\<rparr>) }"

definition Persistent_ClearFromGC :: "nat \<Rightarrow> Persistents \<Rightarrow> Persistents option" where
  "Persistent_ClearFromGC w P = do {
     q \<leftarrow> handles P w;
     Some (P\<lparr>handles := (handles P)(w \<mapsto> q\<lparr>persistent_value := 0\<rparr>)\<rparr>) }"

subsection \<open>The invariant\<close>

definition root_value :: "Persistents \<Rightarrow> nat \<Rightarrow> nat option" where
  "root_value P w = map_option persistent_value (handles P w)"

text \<open>Used nodes and handles with a node point at each other, and a handle that is not null has a node.\<close>

definition persistents_ok :: "Persistents \<Rightarrow> bool" where
  "persistents_ok P \<longleftrightarrow> region_ok (region P) \<and>
     (\<forall>i w. node_owner (region P) i = Some w \<longleftrightarrow> (\<exists>q. handles P w = Some q \<and> persistent_node q = Some i)) \<and>
     (\<forall>w q. handles P w = Some q \<longrightarrow> persistent_value q \<noteq> 0 \<longrightarrow> persistent_node q \<noteq> None)"

lemma persistents_okD:
  assumes "persistents_ok P"
  shows "region_ok (region P)"
    "node_owner (region P) i = Some w \<longleftrightarrow> (\<exists>q. handles P w = Some q \<and> persistent_node q = Some i)"
    "handles P w = Some q \<Longrightarrow> persistent_value q \<noteq> 0 \<Longrightarrow> persistent_node q \<noteq> None"
  using assms unfolding persistents_ok_def by blast+

lemma no_persistents_ok [simp]: "persistents_ok no_persistents"
proof -
  have "node_owner new_region i = None" for i by (simp add: node_owner_def new_region_def nth_opt_def)
  then show ?thesis by (simp add: persistents_ok_def no_persistents_def)
qed

lemma no_root_values [simp]: "root_value no_persistents = Map.empty"
  by (simp add: root_value_def no_persistents_def fun_eq_iff)

lemma construct_ok:
  assumes "persistents_ok P" "handles P w = None"
  shows "persistents_ok (construct_persistent w P)" "root_value (construct_persistent w P) = (root_value P)(w \<mapsto> 0)"
proof -
  have "node_owner (region P) i \<noteq> Some w" for i using persistents_okD(2) [OF assms(1), of i w] assms(2) by simp
  then show "persistents_ok (construct_persistent w P)"
    using assms(1) by (auto simp: persistents_ok_def construct_persistent_def null_persistent_def)
  show "root_value (construct_persistent w P) = (root_value P)(w \<mapsto> 0)"
    by (auto simp: root_value_def construct_persistent_def null_persistent_def fun_eq_iff)
qed

text \<open>Freeing the node of a handle.\<close>

lemma free_own_node_ok:
  assumes ok: "persistents_ok P" and q: "handles P w = Some q"
  shows "\<exists>r. free_own_node q (region P) = Some r \<and> region_ok r \<and>
    (\<forall>i v. node_owner r i = Some v \<longleftrightarrow> v \<noteq> w \<and> node_owner (region P) i = Some v)"
proof (cases "persistent_node q")
  case None
  then have "node_owner (region P) i \<noteq> Some w" for i using persistents_okD(2) [OF ok, of i w] q by simp
  then show ?thesis using None persistents_okD(1) [OF ok] by (auto simp: free_own_node_def)
next
  case (Some i)
  then have i: "node_owner (region P) i = Some w" using persistents_okD(2) [OF ok] q by auto
  obtain r where r: "FreeNode i (region P) = Some r" "region_ok r" "node_owner r = (node_owner (region P))(i := None)"
    using FreeNode_ok [OF persistents_okD(1) [OF ok] i] by auto
  have u: "node_owner (region P) j = Some w \<Longrightarrow> j = i" for j using persistents_okD(2) [OF ok, of j w] q Some by auto
  have "node_owner r j = Some v \<longleftrightarrow> v \<noteq> w \<and> node_owner (region P) j = Some v" for j v
    using u [of j] i by (cases "j = i") (auto simp: r(3))
  then show ?thesis using r(1,2) Some by (simp add: free_own_node_def)
qed

lemma Assign_ok:
  assumes ok: "persistents_ok P" and w: "handles P w \<noteq> None"
  shows "\<exists>P'. Persistent_Assign w raw P = Some P' \<and> persistents_ok P' \<and> root_value P' = (root_value P)(w \<mapsto> raw)"
proof -
  obtain q where q: "handles P w = Some q" using w by blast
  obtain r where r: "free_own_node q (region P) = Some r" "region_ok r"
    "\<And>i v. node_owner r i = Some v \<longleftrightarrow> v \<noteq> w \<and> node_owner (region P) i = Some v" using free_own_node_ok [OF ok q] by auto
  show ?thesis
  proof (cases "raw = 0")
    case True
    let ?P = "P\<lparr>region := r, handles := (handles P)(w \<mapsto> null_persistent)\<rparr>"
    have "persistents_ok ?P" using ok r by (auto simp: persistents_ok_def null_persistent_def)
    then show ?thesis using True q r(1) by (auto simp: Persistent_Assign_def root_value_def null_persistent_def fun_eq_iff)
  next
    case False
    obtain i r' where r': "AllocateNode w r = Some (i, r')" "node_owner r i = None" "region_ok r'" "node_owner r' = (node_owner r)(i \<mapsto> w)"
      using AllocateNode_ok [OF r(2), of w] by auto
    let ?q = "\<lparr>persistent_value = raw, persistent_node = Some i\<rparr>"
    let ?P = "P\<lparr>region := r', handles := (handles P)(w \<mapsto> ?q)\<rparr>"
    have n: "node_owner r' j = Some v \<longleftrightarrow> (j = i \<and> v = w) \<or> (j \<noteq> i \<and> v \<noteq> w \<and> node_owner (region P) j = Some v)" for j v
      using r(3) r'(4) by auto
    have o: "v \<noteq> w \<Longrightarrow> node_owner (region P) i \<noteq> Some v" for v using r(3) [of i v] r'(2) by simp
    have "node_owner (region ?P) j = Some v \<longleftrightarrow> (\<exists>q. handles ?P v = Some q \<and> persistent_node q = Some j)" for j v
      using n [of j v] o persistents_okD(2) [OF ok, of j v] by (cases "v = w") auto
    then have "persistents_ok ?P" using ok r'(3) unfolding persistents_ok_def by auto
    then show ?thesis using False q r(1) r'(1) by (auto simp: Persistent_Assign_def root_value_def fun_eq_iff)
  qed
qed

lemma Persistent_Clear_ok:
  assumes "persistents_ok P" "handles P w \<noteq> None"
  shows "\<exists>P'. Persistent_Clear w P = Some P' \<and> persistents_ok P' \<and> root_value P' = (root_value P)(w \<mapsto> 0) \<and> handles P' w = Some null_persistent"
  using Assign_ok [OF assms, of 0] assms(2)
  by (auto simp: Persistent_Assign_def Persistent_Clear_def option_bind_Some_iff)

lemma destroy_persistent_ok:
  assumes "persistents_ok P" "handles P w \<noteq> None"
  shows "\<exists>P'. destroy_persistent w P = Some P' \<and> persistents_ok P' \<and> root_value P' = (root_value P)(w := None)"
proof -
  obtain P1 where P1: "Persistent_Clear w P = Some P1" "persistents_ok P1" "root_value P1 = (root_value P)(w \<mapsto> 0)" "handles P1 w = Some null_persistent"
    using Persistent_Clear_ok [OF assms] by auto
  have no: "node_owner (region P1) i \<noteq> Some w" for i using persistents_okD(2) [OF P1(2), of i w] P1(4) by (simp add: null_persistent_def)
  let ?P = "P1\<lparr>handles := (handles P1)(w := None)\<rparr>"
  have "persistents_ok ?P" using P1(2) no by (auto simp: persistents_ok_def)
  moreover have "root_value ?P = (root_value P1)(w := None)" by (auto simp: root_value_def fun_eq_iff)
  ultimately show ?thesis using P1(1,3) by (auto simp: destroy_persistent_def)
qed

lemma move_ok:
  assumes ok: "persistents_ok P" and w: "handles P w = None" and p: "handles P p = Some q"
  shows "\<exists>P'. move_persistent w p P = Some P' \<and> persistents_ok P' \<and> root_value P' = (root_value P)(w := root_value P p, p \<mapsto> 0)"
proof -
  have no: "node_owner (region P) i \<noteq> Some w" for i using persistents_okD(2) [OF ok, of i w] w by simp
  have ne: "w \<noteq> p" using w p by auto
  have "\<exists>r. (case persistent_node q of None \<Rightarrow> Some (region P) | Some i \<Rightarrow> UpdateOwner i w (region P)) = Some r \<and> region_ok r \<and>
    (\<forall>i v. node_owner r i = Some v \<longleftrightarrow> (if persistent_node q = Some i then v = w else node_owner (region P) i = Some v))"
  proof (cases "persistent_node q")
    case None
    then show ?thesis using persistents_okD(1) [OF ok] by auto
  next
    case (Some i)
    then have "node_owner (region P) i = Some p" using persistents_okD(2) [OF ok] p by auto
    from UpdateOwner_ok [OF persistents_okD(1) [OF ok] this, of w] show ?thesis using Some by auto
  qed
  then obtain r where r: "(case persistent_node q of None \<Rightarrow> Some (region P) | Some i \<Rightarrow> UpdateOwner i w (region P)) = Some r" "region_ok r"
    "\<And>i v. node_owner r i = Some v \<longleftrightarrow> (if persistent_node q = Some i then v = w else node_owner (region P) i = Some v)" by auto
  let ?P = "P\<lparr>region := r, handles := (handles P)(w \<mapsto> q, p \<mapsto> null_persistent)\<rparr>"
  have "node_owner (region ?P) i = Some v \<longleftrightarrow> (\<exists>q. handles ?P v = Some q \<and> persistent_node q = Some i)" for i v
    using r(3) [of i v] no [of i] ne p persistents_okD(2) [OF ok, of i v] persistents_okD(2) [OF ok, of i p]
    by (cases "v = w"; cases "v = p") (auto simp: null_persistent_def)
  moreover have "persistent_node q' \<noteq> None" if "handles ?P v = Some q'" "persistent_value q' \<noteq> 0" for v q'
    using that persistents_okD(3) [OF ok, of v q'] persistents_okD(3) [OF ok p] by (auto simp: null_persistent_def split: if_splits)
  ultimately have "persistents_ok ?P" using r(2) unfolding persistents_ok_def by simp
  moreover have "root_value ?P = (root_value P)(w := root_value P p, p \<mapsto> 0)"
    using p ne by (auto simp: root_value_def null_persistent_def fun_eq_iff)
  ultimately show ?thesis using p r(1) by (auto simp: move_persistent_def)
qed

lemma ClearFromGC_ok:
  assumes ok: "persistents_ok P" and w: "handles P w \<noteq> None"
  shows "\<exists>P'. Persistent_ClearFromGC w P = Some P' \<and> persistents_ok P' \<and> root_value P' = (root_value P)(w \<mapsto> 0) \<and> dom (handles P') = dom (handles P)"
proof -
  obtain q where q: "handles P w = Some q" using w by blast
  let ?P = "P\<lparr>handles := (handles P)(w \<mapsto> q\<lparr>persistent_value := 0\<rparr>)\<rparr>"
  have "node_owner (region ?P) i = Some v \<longleftrightarrow> (\<exists>q. handles ?P v = Some q \<and> persistent_node q = Some i)" for i v
    using persistents_okD(2) [OF ok, of i v] q by auto
  then have "persistents_ok ?P" using ok unfolding persistents_ok_def by auto
  then show ?thesis using q by (auto simp: Persistent_ClearFromGC_def root_value_def fun_eq_iff)
qed

subsection \<open>Tracing\<close>

text \<open>The handles a collection traces, each with its pointer.\<close>

definition traced_roots :: "Persistents \<Rightarrow> nat list" where
  "traced_roots P = fst (Iterate (region P))"

definition after_trace :: "Persistents \<Rightarrow> Persistents" where
  "after_trace P = P\<lparr>region := snd (Iterate (region P))\<rparr>"

lemma node_owner_inj:
  assumes "persistents_ok P"
  shows "inj_on (node_owner (region P)) (dom (node_owner (region P)))"
proof (rule inj_onI)
  fix i j assume d: "i \<in> dom (node_owner (region P))" and e: "node_owner (region P) i = node_owner (region P) j"
  from d obtain w where "node_owner (region P) i = Some w" by blast
  with e have "node_owner (region P) i = Some w" "node_owner (region P) j = Some w" by simp_all
  then show "i = j" using persistents_okD(2) [OF assms, of _ w] by (metis option.inject)
qed

lemma traced_roots_ok:
  assumes ok: "persistents_ok P"
  shows "distinct (traced_roots P)" "set (traced_roots P) = {w. \<exists>q. handles P w = Some q \<and> persistent_node q \<noteq> None}"
    "persistents_ok (after_trace P)" "root_value (after_trace P) = root_value P" "handles (after_trace P) = handles P"
proof -
  obtain r' where r': "Iterate (region P) = (owners_below (region P) (length (nodes (region P))), r')" "region_ok r'"
    "node_owner r' = node_owner (region P)" using Iterate_ok [OF persistents_okD(1) [OF ok]] by auto
  show "distinct (traced_roots P)" using distinct_owners [OF node_owner_inj [OF ok]] by (simp add: traced_roots_def r'(1))
  have "set (traced_roots P) = ran (node_owner (region P))" by (simp add: traced_roots_def r'(1) set_owners)
  also have "\<dots> = {w. \<exists>q. handles P w = Some q \<and> persistent_node q \<noteq> None}"
    using persistents_okD(2) [OF ok] unfolding ran_def by blast
  finally show "set (traced_roots P) = {w. \<exists>q. handles P w = Some q \<and> persistent_node q \<noteq> None}" .
  show "persistents_ok (after_trace P)" using ok r' by (simp add: persistents_ok_def after_trace_def)
  show "handles (after_trace P) = handles P" by (simp add: after_trace_def)
  show "root_value (after_trace P) = root_value P" by (rule ext) (simp add: root_value_def after_trace_def)
qed

lemma traced_roots_cover:
  assumes "persistents_ok P" "root_value P w = Some p" "p \<noteq> 0"
  shows "w \<in> set (traced_roots P)"
  using assms persistents_okD(3) [OF assms(1), of w] by (auto simp: traced_roots_ok(2) root_value_def)

end
