(* ===== verification/Gc_Heap.thy ===== *)
theory Gc_Heap
  imports Gc_Free_List Gc_Roots
begin

text \<open>
  The garbage-collected heap (\<open>WASMv8bindings/src/heap/internal/heap.cc\<close>, \<open>heap.h\<close>, \<open>normal-page.h\<close>,
  \<open>marking-visitor.h\<close>): pages with a linear allocation buffer and a free list, large objects, marking
  from the persistent handles, and sweeping.

  Memory is the map of the headers in it.  Of the payload of an object only its members are
  modelled: the slots its \<open>Trace\<close> method visits, in that order.  Pointers to objects are the addresses
  of their payloads, as in the code, and 0 is null.  Finalizers leave the heap alone; their calls are
  logged.  What \<open>operator new\<close> (or the cage, for the pages of a sandboxed heap) returns for the blocks
  one call asks for is the argument \<open>new\<close> of the operations that allocate.  The result \<open>None\<close> stands
  for undefined behaviour: a header read where none was written, a walk that never moves on.
\<close>

datatype Member = StrongMember nat | WeakMember nat

record GcHeap =
  memory :: headers
  normal_pages :: "nat list"
  free_list :: FreeList
  lab_start :: nat
  lab_size :: nat
  large_objects :: "nat list"
  members :: "nat \<Rightarrow> Member list"
  strong_persistents :: Persistents
  weak_persistents :: Persistents
  finalized :: "nat list"

definition PayloadSize :: nat where "PayloadSize = kPageSize - kAllocationGranularity"
definition kLargeObjectSizeThreshold :: nat where "kLargeObjectSizeThreshold = kPageSize div 2"

definition FromObject :: "nat \<Rightarrow> nat" where "FromObject p = p - kAllocationGranularity"
definition ObjectStart :: "nat \<Rightarrow> nat" where "ObjectStart a = a + kAllocationGranularity"

definition new_heap :: GcHeap where
  "new_heap = \<lparr>memory = Map.empty, normal_pages = [], free_list = FreeList_Clear, lab_start = 0, lab_size = 0, large_objects = [],
     members = (\<lambda>_. []), strong_persistents = no_persistents, weak_persistents = no_persistents, finalized = []\<rparr>"

subsection \<open>Marking\<close>

datatype WeakSlot = MemberSlot nat nat | PersistentSlot nat

text \<open>The back of the worklist, where objects are pushed and popped, is the head of the list.\<close>

record MarkingVisitor =
  worklist :: "nat list"
  weak_edges :: "(nat \<times> WeakSlot) list"

definition Visit :: "nat \<Rightarrow> headers \<times> MarkingVisitor \<Rightarrow> (headers \<times> MarkingVisitor) option" where
  "Visit p st = (case st of (H, v) \<Rightarrow> do {
     h \<leftarrow> H (FromObject p);
     let (marked_now, h) = TryMarkAtomic h;
     Some (H(FromObject p \<mapsto> h), if marked_now then v\<lparr>worklist := p # worklist v\<rparr> else v) })"

definition TraceStrong :: "nat \<Rightarrow> headers \<times> MarkingVisitor \<Rightarrow> (headers \<times> MarkingVisitor) option" where
  "TraceStrong p st = (if p = 0 then Some st else Visit p st)"

definition TraceWeak :: "nat \<Rightarrow> WeakSlot \<Rightarrow> headers \<times> MarkingVisitor \<Rightarrow> headers \<times> MarkingVisitor" where
  "TraceWeak p slot st = (case st of (H, v) \<Rightarrow> if p = 0 then (H, v) else (H, v\<lparr>weak_edges := weak_edges v @ [(p, slot)]\<rparr>))"

fun trace_members :: "nat \<Rightarrow> nat \<Rightarrow> Member list \<Rightarrow> headers \<times> MarkingVisitor \<Rightarrow> (headers \<times> MarkingVisitor) option" where
  "trace_members p i [] st = Some st"
| "trace_members p i (StrongMember q # ms) st = do { st \<leftarrow> TraceStrong q st; trace_members p (Suc i) ms st }"
| "trace_members p i (WeakMember q # ms) st = trace_members p (Suc i) ms (TraceWeak q (MemberSlot p i) st)"

fun RunToFixpoint :: "nat \<Rightarrow> (nat \<Rightarrow> Member list) \<Rightarrow> headers \<times> MarkingVisitor \<Rightarrow> (headers \<times> MarkingVisitor) option" where
  "RunToFixpoint fuel M (H, v) =
     (case worklist v of
        [] \<Rightarrow> Some (H, v)
      | p # rest \<Rightarrow>
          (case fuel of
             0 \<Rightarrow> None
           | Suc fuel \<Rightarrow> do {
               st \<leftarrow> trace_members p 0 (M p) (H, v\<lparr>worklist := rest\<rparr>);
               RunToFixpoint fuel M st }))"

fun trace_strong_roots :: "Persistents \<Rightarrow> nat list \<Rightarrow> headers \<times> MarkingVisitor \<Rightarrow> (headers \<times> MarkingVisitor) option" where
  "trace_strong_roots P [] st = Some st"
| "trace_strong_roots P (w # ws) st = do {
     q \<leftarrow> handles P w;
     st \<leftarrow> TraceStrong (persistent_value q) st;
     trace_strong_roots P ws st }"

fun trace_weak_roots :: "Persistents \<Rightarrow> nat list \<Rightarrow> headers \<times> MarkingVisitor \<Rightarrow> (headers \<times> MarkingVisitor) option" where
  "trace_weak_roots P [] st = Some st"
| "trace_weak_roots P (w # ws) st = do {
     q \<leftarrow> handles P w;
     trace_weak_roots P ws (TraceWeak (persistent_value q) (PersistentSlot w) st) }"

text \<open>\<open>entry.clear(entry.slot)\<close>: \<open>ClearFromGC\<close> of the member or the handle the slot belongs to.\<close>

definition clear_slot :: "WeakSlot \<Rightarrow> GcHeap \<Rightarrow> GcHeap option" where
  "clear_slot slot s =
     (case slot of
        MemberSlot p i \<Rightarrow> Some (s\<lparr>members := (members s)(p := (members s p)[i := WeakMember 0])\<rparr>)
      | PersistentSlot w \<Rightarrow> do {
          P \<leftarrow> Persistent_ClearFromGC w (weak_persistents s);
          Some (s\<lparr>weak_persistents := P\<rparr>) })"

fun ProcessWeakEdges :: "(nat \<times> WeakSlot) list \<Rightarrow> GcHeap \<Rightarrow> GcHeap option" where
  "ProcessWeakEdges [] s = Some s"
| "ProcessWeakEdges ((target, slot) # es) s = do {
     h \<leftarrow> memory s (FromObject target);
     s \<leftarrow> (if IsMarked h then Some s else clear_slot slot s);
     ProcessWeakEdges es s }"

text \<open>No heap has more objects than its pages and its list of large objects can hold.\<close>

definition mark_fuel :: "GcHeap \<Rightarrow> nat" where
  "mark_fuel s = length (normal_pages s) * (PayloadSize div kAllocationGranularity) + length (large_objects s)"

definition Mark :: "GcHeap \<Rightarrow> GcHeap option" where
  "Mark s = do {
     let (strong_owners, strong_region) = Iterate (region (strong_persistents s));
     st \<leftarrow> trace_strong_roots (strong_persistents s) strong_owners (memory s, \<lparr>worklist = [], weak_edges = []\<rparr>);
     st \<leftarrow> RunToFixpoint (mark_fuel s) (members s) st;
     let (weak_owners, weak_region) = Iterate (region (weak_persistents s));
     (H, v) \<leftarrow> trace_weak_roots (weak_persistents s) weak_owners st;
     ProcessWeakEdges (weak_edges v)
       (s\<lparr>memory := H, strong_persistents := (strong_persistents s)\<lparr>region := strong_region\<rparr>,
          weak_persistents := (weak_persistents s)\<lparr>region := weak_region\<rparr>\<rparr>) }"

subsection \<open>Sweeping\<close>

definition ReplaceLinearAllocationBuffer :: "nat \<Rightarrow> nat \<Rightarrow> GcHeap \<Rightarrow> GcHeap option" where
  "ReplaceLinearAllocationBuffer new_start new_size s = do {
     s \<leftarrow> (if lab_size s > 0 then do {
              (H, fl) \<leftarrow> FreeList_Add (lab_start s, lab_size s) (memory s) (free_list s);
              Some (s\<lparr>memory := H, free_list := fl\<rparr>) }
            else Some s);
     Some (s\<lparr>lab_start := new_start, lab_size := new_size\<rparr>) }"

text \<open>
  The walk of \<open>SweepNormalPage\<close> from an address to the end of the page.  The other arguments are the
  start of the current run of free cells (0: none), the bytes that live on, the runs staged, the headers
  and the objects finalized.
\<close>

function sweep_walk :: "nat \<Rightarrow> nat \<Rightarrow> nat \<Rightarrow> nat \<Rightarrow> (nat \<times> nat) list \<Rightarrow> headers \<Rightarrow> nat list
    \<Rightarrow> (headers \<times> nat list \<times> nat \<times> (nat \<times> nat) list) option" where
  "sweep_walk current end free_run_start live_bytes free_runs H fin =
     (if current < end then
        (case H current of
           None \<Rightarrow> None
         | Some h \<Rightarrow>
             (if AllocatedSize h = 0 then None
              else if IsFree h \<or> \<not> IsMarked h then
                sweep_walk (current + AllocatedSize h) end (if free_run_start = 0 then current else free_run_start)
                  live_bytes free_runs H (if IsFree h then fin else fin @ [ObjectStart current])
              else
                sweep_walk (current + AllocatedSize h) end 0 (live_bytes + AllocatedSize h)
                  (if free_run_start = 0 then free_runs else free_runs @ [(free_run_start, current - free_run_start)])
                  (H(current \<mapsto> Unmark h)) fin))
      else Some (H, fin, live_bytes,
        if free_run_start = 0 then free_runs else free_runs @ [(free_run_start, end - free_run_start)]))"
  by pat_completeness auto
termination
  by (relation "measure (\<lambda>(current, e, _). e - current)") auto

declare sweep_walk.simps [simp del]

definition SweepNormalPage :: "nat \<Rightarrow> GcHeap \<Rightarrow> (GcHeap \<times> nat \<times> (nat \<times> nat) list) option" where
  "SweepNormalPage page s = do {
     (H, fin, live_bytes, free_runs) \<leftarrow> sweep_walk page (page + PayloadSize) 0 0 [] (memory s) (finalized s);
     Some (s\<lparr>memory := H, finalized := fin\<rparr>, live_bytes, free_runs) }"

definition erase :: "nat \<Rightarrow> nat \<Rightarrow> headers \<Rightarrow> headers" where
  "erase a n H = (\<lambda>x. if a \<le> x \<and> x < a + n then None else H x)"

definition NormalPage_Destroy :: "nat \<Rightarrow> GcHeap \<Rightarrow> GcHeap" where
  "NormalPage_Destroy page s = s\<lparr>memory := erase page kPageSize (memory s)\<rparr>"

fun add_runs :: "(nat \<times> nat) list \<Rightarrow> GcHeap \<Rightarrow> GcHeap option" where
  "add_runs [] s = Some s"
| "add_runs (run # runs) s = do {
     (H, fl) \<leftarrow> FreeList_Add run (memory s) (free_list s);
     add_runs runs (s\<lparr>memory := H, free_list := fl\<rparr>) }"

fun sweep_pages :: "nat list \<Rightarrow> nat list \<Rightarrow> GcHeap \<Rightarrow> (nat list \<times> GcHeap) option" where
  "sweep_pages [] surviving s = Some (surviving, s)"
| "sweep_pages (page # pages) surviving s = do {
     (s, live_bytes, free_runs) \<leftarrow> SweepNormalPage page s;
     if live_bytes = 0 then sweep_pages pages surviving (NormalPage_Destroy page s)
     else do {
       s \<leftarrow> add_runs free_runs s;
       sweep_pages pages (surviving @ [page]) s } }"

fun sweep_large :: "nat list \<Rightarrow> nat list \<Rightarrow> GcHeap \<Rightarrow> (nat list \<times> GcHeap) option" where
  "sweep_large [] surviving s = Some (surviving, s)"
| "sweep_large (a # as) surviving s = do {
     h \<leftarrow> memory s a;
     if IsMarked h then sweep_large as (surviving @ [a]) (s\<lparr>memory := (memory s)(a \<mapsto> Unmark h)\<rparr>)
     else sweep_large as surviving
       (s\<lparr>finalized := finalized s @ [ObjectStart a], memory := erase a (AllocatedSize h) (memory s)\<rparr>) }"

definition Sweep :: "GcHeap \<Rightarrow> GcHeap option" where
  "Sweep s = do {
     s \<leftarrow> ReplaceLinearAllocationBuffer 0 0 s;
     (pages, s) \<leftarrow> sweep_pages (normal_pages s) [] (s\<lparr>free_list := FreeList_Clear\<rparr>);
     (larges, s) \<leftarrow> sweep_large (large_objects s) [] s;
     Some (s\<lparr>normal_pages := pages, large_objects := larges\<rparr>) }"

text \<open>The platform runs each of the two jobs once, before \<open>PostJob\<close> returns.\<close>

definition CollectGarbage :: "GcHeap \<Rightarrow> GcHeap option" where
  "CollectGarbage s = do { s \<leftarrow> Mark s; Sweep s }"

subsection \<open>Allocation\<close>

definition RoundUp :: "64 word \<Rightarrow> 64 word \<Rightarrow> 64 word" where
  "RoundUp n alignment = (n + alignment - 1) AND NOT (alignment - 1)"

definition allocation_size_of :: "nat \<Rightarrow> nat" where
  "allocation_size_of object_size = unat (RoundUp (8 + of_nat object_size) (of_nat kAllocationGranularity))"

datatype Allocation = Allocated nat | Aborts string

definition AllocateLarge :: "nat option \<Rightarrow> nat \<Rightarrow> nat \<Rightarrow> GcHeap \<Rightarrow> Allocation \<times> GcHeap" where
  "AllocateLarge block n index s =
     (case block of
        None \<Rightarrow> (Aborts ''Oilpan: large allocation.'', s)
      | Some base \<Rightarrow> (Allocated (ObjectStart base),
          s\<lparr>memory := (memory s)(base \<mapsto> new_header n index), large_objects := large_objects s @ [base]\<rparr>))"

definition RefillLinearAllocationBuffer :: "nat option \<Rightarrow> nat \<Rightarrow> GcHeap \<Rightarrow> (bool \<times> GcHeap) option" where
  "RefillLinearAllocationBuffer page n s = do {
     (block, fl) \<leftarrow> FreeList_Allocate n (memory s) (free_list s);
     (case block of
        Some (address, k) \<Rightarrow> do {
          s \<leftarrow> ReplaceLinearAllocationBuffer address k (s\<lparr>free_list := fl\<rparr>);
          Some (True, s) }
      | None \<Rightarrow>
          (case page of
             None \<Rightarrow> Some (False, s\<lparr>free_list := fl\<rparr>)
           | Some p \<Rightarrow> do {
               s \<leftarrow> ReplaceLinearAllocationBuffer p PayloadSize (s\<lparr>free_list := fl, normal_pages := normal_pages s @ [p]\<rparr>);
               Some (True, s) })) }"

definition lab_Allocate :: "nat \<Rightarrow> nat \<Rightarrow> GcHeap \<Rightarrow> Allocation \<times> GcHeap" where
  "lab_Allocate n index s =
     (Allocated (ObjectStart (lab_start s)),
      s\<lparr>memory := (memory s)(lab_start s \<mapsto> new_header n index), lab_start := lab_start s + n, lab_size := lab_size s - n\<rparr>)"

definition AllocateNormal :: "(nat \<Rightarrow> nat option) \<Rightarrow> nat \<Rightarrow> nat \<Rightarrow> GcHeap \<Rightarrow> (Allocation \<times> GcHeap) option" where
  "AllocateNormal new n index s =
     (if lab_size s < n then do {
        (refilled, s) \<leftarrow> RefillLinearAllocationBuffer (new 0) n s;
        if refilled then Some (lab_Allocate n index s)
        else do {
          s \<leftarrow> CollectGarbage s;
          (refilled, s) \<leftarrow> RefillLinearAllocationBuffer (new 1) n s;
          if refilled then Some (lab_Allocate n index s) else Some (Aborts ''Oilpan: normal allocation.'', s) } }
      else Some (lab_Allocate n index s))"

definition Heap_Allocate :: "(nat \<Rightarrow> nat option) \<Rightarrow> nat \<Rightarrow> nat \<Rightarrow> GcHeap \<Rightarrow> (Allocation \<times> GcHeap) option" where
  "Heap_Allocate new object_size index s =
     (let n = allocation_size_of object_size
      in if \<not> n \<le> kMaxSize then Some (Aborts ''CHECK'', s)
         else if n \<ge> kLargeObjectSizeThreshold then Some (AllocateLarge (new 0) n index s)
         else AllocateNormal new n index s)"

text \<open>
  \<open>MakeGarbageCollected\<close>: the constructor leaves the given members behind, then the object is marked
  as constructed.
\<close>

definition MakeGarbageCollected :: "(nat \<Rightarrow> nat option) \<Rightarrow> nat \<Rightarrow> nat \<Rightarrow> Member list \<Rightarrow> GcHeap \<Rightarrow> (Allocation \<times> GcHeap) option" where
  "MakeGarbageCollected new object_size index ms s = do {
     (r, s) \<leftarrow> Heap_Allocate new object_size index s;
     (case r of
        Aborts e \<Rightarrow> Some (Aborts e, s)
      | Allocated p \<Rightarrow> do {
          h \<leftarrow> memory s (FromObject p);
          Some (Allocated p, s\<lparr>members := (members s)(p := ms), memory := (memory s)(FromObject p \<mapsto> MarkAsFullyConstructed h)\<rparr>) }) }"

subsection \<open>Destruction\<close>

function destroy_walk :: "nat \<Rightarrow> nat \<Rightarrow> headers \<Rightarrow> nat list \<Rightarrow> nat list option" where
  "destroy_walk current end H fin =
     (if current < end then
        (case H current of
           None \<Rightarrow> None
         | Some h \<Rightarrow>
             (if AllocatedSize h = 0 then None
              else destroy_walk (current + AllocatedSize h) end H (if IsFree h then fin else fin @ [ObjectStart current])))
      else Some fin)"
  by pat_completeness auto
termination
  by (relation "measure (\<lambda>(current, e, _). e - current)") auto

declare destroy_walk.simps [simp del]

fun destroy_pages :: "nat list \<Rightarrow> GcHeap \<Rightarrow> GcHeap option" where
  "destroy_pages [] s = Some s"
| "destroy_pages (page # pages) s = do {
     fin \<leftarrow> destroy_walk page (page + PayloadSize) (memory s) (finalized s);
     destroy_pages pages (NormalPage_Destroy page (s\<lparr>finalized := fin\<rparr>)) }"

fun destroy_large :: "nat list \<Rightarrow> GcHeap \<Rightarrow> GcHeap option" where
  "destroy_large [] s = Some s"
| "destroy_large (a # as) s = do {
     h \<leftarrow> memory s a;
     destroy_large as (s\<lparr>finalized := finalized s @ [ObjectStart a], memory := erase a (AllocatedSize h) (memory s)\<rparr>) }"

definition destroy_heap :: "GcHeap \<Rightarrow> GcHeap option" where
  "destroy_heap s = do {
     s \<leftarrow> ReplaceLinearAllocationBuffer 0 0 s;
     s \<leftarrow> destroy_pages (normal_pages s) s;
     s \<leftarrow> destroy_large (large_objects s) s;
     Some (s\<lparr>normal_pages := [], large_objects := []\<rparr>) }"

subsection \<open>What the program does between collections\<close>

definition assign_member :: "nat \<Rightarrow> nat \<Rightarrow> nat \<Rightarrow> GcHeap \<Rightarrow> GcHeap" where
  "assign_member p i q s =
     (case nth_opt (members s p) i of
        None \<Rightarrow> s
      | Some m \<Rightarrow> s\<lparr>members := (members s)(p := (members s p)[i := (case m of StrongMember _ \<Rightarrow> StrongMember q | WeakMember _ \<Rightarrow> WeakMember q)])\<rparr>)"

end
