(* ===== verification/Gc_Layout.thy ===== *)
theory Gc_Layout
  imports Gc_Heap
begin

text \<open>
  The layout of the garbage-collected heap: every page is tiled by cells, which are objects, free
  cells or the linear allocation buffer; pages and large objects do not overlap; and every pointer the
  program holds is null or points to an object.
\<close>

subsection \<open>Tilings\<close>

fun tiles :: "nat \<Rightarrow> (nat \<times> nat) list \<Rightarrow> nat \<Rightarrow> bool" where
  "tiles a [] e \<longleftrightarrow> a = e"
| "tiles a ((x, n) # zs) e \<longleftrightarrow> x = a \<and> 0 < n \<and> 8 dvd n \<and> tiles (a + n) zs e"

lemma tiles_append: "tiles a (xs @ ys) e \<longleftrightarrow> (\<exists>m. tiles a xs m \<and> tiles m ys e)"
  by (induction xs arbitrary: a) auto

lemma tiles_length: "tiles a zs e \<Longrightarrow> a + 8 * length zs \<le> e"
proof (induction zs arbitrary: a)
  case (Cons z zs)
  obtain x n where z: "z = (x, n)" by (cases z)
  then have "8 \<le> n" "tiles (a + n) zs e" using Cons.prems by (auto dest: dvd_imp_le)
  then show ?case using Cons.IH [of "a + n"] by simp
qed simp

lemma tiles_dvd: "tiles a zs e \<Longrightarrow> 8 dvd e - a"
proof (induction zs arbitrary: a)
  case (Cons z zs)
  obtain x n where z: "z = (x, n)" by (cases z)
  then have n: "8 dvd n" "tiles (a + n) zs e" using Cons.prems by auto
  have "8 dvd e - (a + n)" by (rule Cons.IH [OF n(2)])
  moreover have "e - a = (e - (a + n)) + n" using tiles_length [OF n(2)] by simp
  ultimately show ?case using n(1) by (metis dvd_add)
qed simp

lemma tiles_in:
  assumes "tiles a zs e" "(x, n) \<in> set zs"
  shows "a \<le> x" "x + n \<le> e" "0 < n" "8 dvd n" "8 dvd x - a"
proof -
  obtain us vs where z: "zs = us @ (x, n) # vs" using assms(2) by (meson split_list)
  then obtain m where m: "tiles a us m" "m = x" "0 < n" "8 dvd n" "tiles (x + n) vs e" using assms(1) by (auto simp: tiles_append)
  show "a \<le> x" "x + n \<le> e" "0 < n" "8 dvd n" "8 dvd x - a"
    using m tiles_length [OF m(1)] tiles_length [OF m(5)] tiles_dvd [OF m(1)] by simp_all
qed

lemma tiles_disjoint:
  assumes "tiles a zs e" "(x, n) \<in> set zs" "(y, k) \<in> set zs"
  shows "(x, n) = (y, k) \<or> x + n \<le> y \<or> y + k \<le> x"
  using assms
proof (induction zs arbitrary: a)
  case (Cons z zs)
  obtain w m where z: "z = (w, m)" by (cases z)
  then have t: "w = a" "tiles (a + m) zs e" using Cons.prems(1) by auto
  show ?case
    using Cons.IH [OF t(2)] Cons.prems(2,3) z t(1) tiles_in(1) [OF t(2)] by auto
qed simp

lemma tiles_distinct: "tiles a zs e \<Longrightarrow> distinct (map fst zs)"
proof (induction zs arbitrary: a)
  case (Cons z zs)
  obtain x n where z: "z = (x, n)" by (cases z)
  then have n: "x = a" "0 < n" "tiles (a + n) zs e" using Cons.prems by auto
  then have "x \<notin> fst ` set zs" using tiles_in(1) [OF n(3)] by fastforce
  then show ?case using Cons.IH [OF n(3)] z by simp
qed simp

lemma tiles_split:
  assumes "tiles a zs e" "(x, n) \<in> set zs"
  obtains us vs where "zs = us @ (x, n) # vs" "tiles a us x" "0 < n" "8 dvd n" "tiles (x + n) vs e"
    "(x, n) \<notin> set us" "(x, n) \<notin> set vs"
proof -
  obtain us vs where z: "zs = us @ (x, n) # vs" using assms(2) by (meson split_list)
  moreover have "distinct zs" using tiles_distinct [OF assms(1)] by (rule distinct_map [THEN iffD1, THEN conjunct1])
  ultimately show ?thesis using assms(1) by (intro that [of us vs]) (auto simp: tiles_append)
qed

text \<open>Tilings that agree on the sizes of their cells are equal.\<close>

lemma tiles_unique:
  assumes "tiles a zs e" "tiles a ys e" "\<And>x n. (x, n) \<in> set zs \<Longrightarrow> f x = Some n" "\<And>x n. (x, n) \<in> set ys \<Longrightarrow> f x = Some n"
  shows "zs = ys"
  using assms
proof (induction zs arbitrary: a ys)
  case Nil
  then show ?case by (cases ys) (auto dest!: tiles_length)
next
  case (Cons z zs)
  obtain x n where z: "z = (x, n)" by (cases z)
  have "ys \<noteq> []" using Cons.prems(1,2) tiles_length [OF Cons.prems(1)] by auto
  then obtain y k ys' where ys: "ys = (y, k) # ys'" by (metis neq_Nil_conv surj_pair)
  have e: "x = a" "y = a" "f x = Some n" "f y = Some k" using Cons.prems z ys by auto
  then have "n = k" by simp
  moreover have "zs = ys'" by (rule Cons.IH [of "a + n"]) (use Cons.prems z ys e \<open>n = k\<close> in auto)
  ultimately show ?case using z ys e by simp
qed

subsection \<open>Cells and objects\<close>

text \<open>The size of the cell at an address: the linear allocation buffer has no header.\<close>

definition is_lab :: "GcHeap \<Rightarrow> nat \<Rightarrow> bool" where
  "is_lab s a \<longleftrightarrow> 0 < lab_size s \<and> a = lab_start s"

definition cell_size :: "GcHeap \<Rightarrow> nat \<Rightarrow> nat option" where
  "cell_size s a = (if is_lab s a then Some (lab_size s) else map_option AllocatedSize (memory s a))"

definition page_tiling :: "GcHeap \<Rightarrow> nat \<Rightarrow> (nat \<times> nat) list \<Rightarrow> bool" where
  "page_tiling s p zs \<longleftrightarrow> tiles p zs (p + PayloadSize) \<and> (\<forall>(x, n) \<in> set zs. cell_size s x = Some n)"

definition page_cell :: "GcHeap \<Rightarrow> nat \<Rightarrow> bool" where
  "page_cell s a \<longleftrightarrow> (\<exists>p \<in> set (normal_pages s). \<exists>zs n. page_tiling s p zs \<and> (a, n) \<in> set zs)"

definition object_header :: "GcHeap \<Rightarrow> nat \<Rightarrow> bool" where
  "object_header s a \<longleftrightarrow> (page_cell s a \<and> \<not> is_lab s a \<and> (\<exists>h. memory s a = Some h \<and> \<not> IsFree h)) \<or> a \<in> set (large_objects s)"

definition heap_objects :: "GcHeap \<Rightarrow> nat set" where
  "heap_objects s = ObjectStart ` {a. object_header s a}"

text \<open>Blocks of memory that do not overlap.\<close>

definition no_overlap :: "nat \<Rightarrow> nat \<Rightarrow> nat \<Rightarrow> nat \<Rightarrow> bool" where
  "no_overlap a n b k \<longleftrightarrow> a + n \<le> b \<or> b + k \<le> a"

definition large_size :: "GcHeap \<Rightarrow> nat \<Rightarrow> nat" where
  "large_size s a = AllocatedSize (the (memory s a))"

definition gc_blocks_apart :: "GcHeap \<Rightarrow> bool" where
  "gc_blocks_apart s \<longleftrightarrow> distinct (normal_pages s) \<and> distinct (large_objects s) \<and>
     (\<forall>p \<in> set (normal_pages s). 0 < p \<and> 8 dvd p \<and>
        (\<forall>q \<in> set (normal_pages s). p \<noteq> q \<longrightarrow> no_overlap p kPageSize q kPageSize) \<and>
        (\<forall>a \<in> set (large_objects s). no_overlap p kPageSize a (large_size s a))) \<and>
     (\<forall>a \<in> set (large_objects s). 0 < a \<and> 8 dvd a \<and>
        (\<forall>b \<in> set (large_objects s). a \<noteq> b \<longrightarrow> no_overlap a (large_size s a) b (large_size s b)))"

definition large_ok :: "GcHeap \<Rightarrow> bool" where
  "large_ok s \<longleftrightarrow> (\<forall>a \<in> set (large_objects s). \<exists>h. memory s a = Some h \<and> \<not> IsFree h \<and> \<not> IsMarked h \<and> 8 \<le> AllocatedSize h)"

definition layout_ok :: "GcHeap \<Rightarrow> bool" where
  "layout_ok s \<longleftrightarrow> gc_blocks_apart s \<and> large_ok s \<and>
     (\<forall>p \<in> set (normal_pages s). \<exists>zs. page_tiling s p zs) \<and>
     (0 < lab_size s \<longrightarrow> page_cell s (lab_start s)) \<and>
     (\<forall>a. page_cell s a \<longrightarrow> \<not> is_lab s a \<longrightarrow> \<not> IsMarked (the (memory s a))) \<and>
     free_list_ok (memory s) (free_list s) \<and>
     (\<forall>a \<in> list_blocks (free_list s). page_cell s a \<and> \<not> is_lab s a)"

fun pointer_of :: "Member \<Rightarrow> nat" where
  "pointer_of (StrongMember p) = p"
| "pointer_of (WeakMember p) = p"

definition pointers_ok :: "GcHeap \<Rightarrow> bool" where
  "pointers_ok s \<longleftrightarrow>
     (\<forall>p \<in> heap_objects s. \<forall>m \<in> set (members s p). pointer_of m \<in> insert 0 (heap_objects s)) \<and>
     (\<forall>w p. root_value (strong_persistents s) w = Some p \<longrightarrow> p \<in> insert 0 (heap_objects s)) \<and>
     (\<forall>w p. root_value (weak_persistents s) w = Some p \<longrightarrow> p \<in> insert 0 (heap_objects s))"

definition gc_heap_ok :: "GcHeap \<Rightarrow> bool" where
  "gc_heap_ok s \<longleftrightarrow> layout_ok s \<and> pointers_ok s \<and> persistents_ok (strong_persistents s) \<and> persistents_ok (weak_persistents s)"

subsection \<open>Consequences\<close>

lemma kPageSize_val [simp]: "kPageSize = 131072" "PayloadSize = 131064"
  by (simp_all add: kPageSize_def kPageSizeLog2_def PayloadSize_def kAllocationGranularity_def)

lemma FromObject_ObjectStart [simp]: "FromObject (ObjectStart a) = a"
  by (simp add: FromObject_def ObjectStart_def)

lemma ObjectStart_inj [simp]: "ObjectStart a = ObjectStart b \<longleftrightarrow> a = b"
  by (simp add: ObjectStart_def)

lemma ObjectStart_pos [simp]: "ObjectStart a \<noteq> 0"
  by (simp add: ObjectStart_def kAllocationGranularity_def)

lemma heap_object_iff: "p \<in> heap_objects s \<longleftrightarrow> ObjectStart (FromObject p) = p \<and> object_header s (FromObject p)"
proof
  assume "ObjectStart (FromObject p) = p \<and> object_header s (FromObject p)"
  then show "p \<in> heap_objects s" unfolding heap_objects_def by (metis imageI mem_Collect_eq)
qed (auto simp: heap_objects_def)

lemma ObjectStart_in [simp]: "ObjectStart a \<in> heap_objects s \<longleftrightarrow> object_header s a"
  by (auto simp: heap_objects_def)

lemma layout_okD:
  assumes "layout_ok s"
  shows "gc_blocks_apart s" "large_ok s" "\<And>p. p \<in> set (normal_pages s) \<Longrightarrow> \<exists>zs. page_tiling s p zs"
    "0 < lab_size s \<Longrightarrow> page_cell s (lab_start s)" "\<And>a. page_cell s a \<Longrightarrow> \<not> is_lab s a \<Longrightarrow> \<not> IsMarked (the (memory s a))"
    "free_list_ok (memory s) (free_list s)" "\<And>a. a \<in> list_blocks (free_list s) \<Longrightarrow> page_cell s a \<and> \<not> is_lab s a"
  using assms unfolding layout_ok_def by blast+

lemma page_tiling_unique: "page_tiling s p zs \<Longrightarrow> page_tiling s p ys \<Longrightarrow> zs = ys"
  unfolding page_tiling_def by (auto intro!: tiles_unique [where f = "cell_size s"])

lemma page_tiling_bounds:
  assumes "page_tiling s p zs" "(x, n) \<in> set zs"
  shows "p \<le> x" "x + n \<le> p + PayloadSize" "0 < n" "8 dvd n" "cell_size s x = Some n"
  using assms tiles_in [of p zs "p + PayloadSize" x n] unfolding page_tiling_def by auto

lemma page_cellE:
  assumes "page_cell s a"
  obtains p zs n where "p \<in> set (normal_pages s)" "page_tiling s p zs" "(a, n) \<in> set zs"
  using assms unfolding page_cell_def by blast

lemma page_cell_header:
  assumes "page_cell s a" "\<not> is_lab s a"
  shows "\<exists>h. memory s a = Some h \<and> cell_size s a = Some (AllocatedSize h) \<and> 0 < AllocatedSize h \<and> 8 dvd AllocatedSize h"
proof -
  obtain p zs n where z: "p \<in> set (normal_pages s)" "page_tiling s p zs" "(a, n) \<in> set zs" using assms(1) by (rule page_cellE)
  have "map_option AllocatedSize (memory s a) = Some n" using page_tiling_bounds(5) [OF z(2,3)] assms(2) by (simp add: cell_size_def)
  then obtain h where "memory s a = Some h" "AllocatedSize h = n" by blast
  then show ?thesis using page_tiling_bounds(3,4) [OF z(2,3)] assms(2) by (simp add: cell_size_def)
qed

text \<open>An address inside the payload of a page belongs to that page only.\<close>

lemma page_of:
  assumes "gc_blocks_apart s" "p \<in> set (normal_pages s)" "q \<in> set (normal_pages s)" "p \<le> a" "a < p + kPageSize" "q \<le> a" "a < q + kPageSize"
  shows "p = q"
proof (rule ccontr)
  assume "p \<noteq> q"
  then have "no_overlap p kPageSize q kPageSize" using assms(1-3) by (simp add: gc_blocks_apart_def)
  then show False using assms(4-7) by (simp only: no_overlap_def) linarith
qed

lemma large_not_in_page:
  assumes "gc_blocks_apart s" "p \<in> set (normal_pages s)" "a \<in> set (large_objects s)" "0 < large_size s a"
  shows "a < p \<or> p + kPageSize \<le> a"
proof -
  have "no_overlap p kPageSize a (large_size s a)" using assms(1-3) by (simp add: gc_blocks_apart_def)
  then show ?thesis using assms(4) by (simp only: no_overlap_def) linarith
qed

lemma large_okD: "large_ok s \<Longrightarrow> a \<in> set (large_objects s) \<Longrightarrow>
  \<exists>h. memory s a = Some h \<and> \<not> IsFree h \<and> \<not> IsMarked h \<and> 8 \<le> AllocatedSize h \<and> large_size s a = AllocatedSize h"
  unfolding large_ok_def large_size_def by force

lemma page_cell_in_page:
  assumes "page_tiling s p zs" "(a, n) \<in> set zs"
  shows "p \<le> a" "a < p + kPageSize" "a + n \<le> p + PayloadSize" "a + n < p + kPageSize"
  using page_tiling_bounds [OF assms] by simp_all

lemma cell_of_page:
  assumes "gc_blocks_apart s" "page_cell s a" "p \<in> set (normal_pages s)" "page_tiling s p zs" "p \<le> a" "a < p + kPageSize"
  shows "\<exists>n. (a, n) \<in> set zs"
proof -
  obtain q ys n where q: "q \<in> set (normal_pages s)" "page_tiling s q ys" "(a, n) \<in> set ys" using assms(2) by (rule page_cellE)
  have "q = p" using page_of [OF assms(1) q(1) assms(3) page_cell_in_page(1,2) [OF q(2,3)] assms(5,6)] .
  then show ?thesis using page_tiling_unique [OF assms(4)] q by blast
qed

lemma object_header_memory:
  assumes "layout_ok s" "object_header s a"
  shows "\<exists>h. memory s a = Some h \<and> \<not> IsFree h \<and> \<not> IsMarked h \<and> 8 \<le> AllocatedSize h"
proof (cases "a \<in> set (large_objects s)")
  case True
  then show ?thesis using large_okD [OF layout_okD(2) [OF assms(1)]] by blast
next
  case False
  then have c: "page_cell s a" "\<not> is_lab s a" "\<exists>h. memory s a = Some h \<and> \<not> IsFree h" using assms(2) by (auto simp: object_header_def)
  then show ?thesis using page_cell_header [OF c(1,2)] layout_okD(5) [OF assms(1) c(1,2)] by (auto dest: dvd_imp_le)
qed

text \<open>The cells of the pages fit the fuel of marking.\<close>

lemma cells_card:
  assumes "page_tiling s p zs"
  shows "length zs \<le> PayloadSize div kAllocationGranularity"
  using tiles_length [of p zs "p + PayloadSize"] assms by (simp add: page_tiling_def kAllocationGranularity_def)

lemma objects_bounded:
  assumes "layout_ok s"
  shows "finite (heap_objects s)" "card (heap_objects s) \<le> mark_fuel s"
proof -
  obtain Z where Z: "\<And>p. p \<in> set (normal_pages s) \<Longrightarrow> page_tiling s p (Z p)" using layout_okD(3) [OF assms] by metis
  let ?c = "(\<Union>p \<in> set (normal_pages s). fst ` set (Z p))"
  have sub: "{a. object_header s a} \<subseteq> ?c \<union> set (large_objects s)"
  proof
    fix a assume "a \<in> {a. object_header s a}"
    then consider "a \<in> set (large_objects s)" | "page_cell s a" by (auto simp: object_header_def)
    then show "a \<in> ?c \<union> set (large_objects s)"
    proof cases
      case 2
      then obtain p zs n where "p \<in> set (normal_pages s)" "page_tiling s p zs" "(a, n) \<in> set zs" by (rule page_cellE)
      then show ?thesis using page_tiling_unique [OF Z] by force
    qed simp
  qed
  have fin: "finite (?c \<union> set (large_objects s))" by simp
  have "card ?c \<le> (\<Sum>p \<in> set (normal_pages s). card (fst ` set (Z p)))" by (rule card_UN_le) simp
  also have "\<dots> \<le> (\<Sum>p \<in> set (normal_pages s). PayloadSize div kAllocationGranularity)"
  proof (rule sum_mono)
    fix p assume "p \<in> set (normal_pages s)"
    then have "length (Z p) \<le> PayloadSize div kAllocationGranularity" by (intro cells_card [OF Z])
    moreover have "card (fst ` set (Z p)) \<le> length (Z p)" using card_length [of "map fst (Z p)"] by simp
    ultimately show "card (fst ` set (Z p)) \<le> PayloadSize div kAllocationGranularity" by simp
  qed
  also have "\<dots> \<le> length (normal_pages s) * (PayloadSize div kAllocationGranularity)" using card_length [of "normal_pages s"] by simp
  finally have "card (?c \<union> set (large_objects s)) \<le> mark_fuel s"
    using card_Un_le [of ?c "set (large_objects s)"] card_length [of "large_objects s"] by (simp only: mark_fuel_def)
  moreover have "card {a. object_header s a} \<le> card (?c \<union> set (large_objects s))" by (rule card_mono [OF fin sub])
  moreover have "card (heap_objects s) \<le> card {a. object_header s a}"
    unfolding heap_objects_def by (rule card_image_le) (rule finite_subset [OF sub fin])
  ultimately show "card (heap_objects s) \<le> mark_fuel s" by simp
  show "finite (heap_objects s)" unfolding heap_objects_def by (rule finite_imageI [OF finite_subset [OF sub fin]])
qed

lemma new_heap_ok: "gc_heap_ok new_heap"
proof -
  have "layout_ok new_heap" by (simp add: layout_ok_def gc_blocks_apart_def large_ok_def new_heap_def page_cell_def)
  then show ?thesis by (simp add: gc_heap_ok_def pointers_ok_def new_heap_def heap_objects_def object_header_def page_cell_def)
qed

lemma new_heap_empty: "heap_objects new_heap = {}"
  by (simp add: heap_objects_def object_header_def page_cell_def new_heap_def)

end
