(* ===== verification/Gc_Marking.thy ===== *)
theory Gc_Marking
  imports Gc_Layout
begin

text \<open>
  Marking marks exactly the objects that the strong persistent handles reach through strong members, and
  clears exactly the weak members and handles whose object is not among them.
\<close>

subsection \<open>The object graph\<close>

inductive reaches :: "(nat \<Rightarrow> Member list) \<Rightarrow> nat set \<Rightarrow> nat \<Rightarrow> bool" for M roots where
  root: "p \<in> roots \<Longrightarrow> p \<noteq> 0 \<Longrightarrow> reaches M roots p"
| member: "reaches M roots p \<Longrightarrow> StrongMember q \<in> set (M p) \<Longrightarrow> q \<noteq> 0 \<Longrightarrow> reaches M roots q"

definition strong_roots :: "GcHeap \<Rightarrow> nat set" where
  "strong_roots s = ran (root_value (strong_persistents s))"

definition live_objects :: "GcHeap \<Rightarrow> nat set" where
  "live_objects s = {p. reaches (members s) (strong_roots s) p}"

fun clear_dead :: "nat set \<Rightarrow> Member \<Rightarrow> Member" where
  "clear_dead R (StrongMember p) = StrongMember p"
| "clear_dead R (WeakMember p) = WeakMember (if p \<in> R then p else 0)"

definition strong_pointers :: "Member list \<Rightarrow> nat set" where
  "strong_pointers ms = {q. StrongMember q \<in> set ms \<and> q \<noteq> 0}"

fun member_edges :: "nat \<Rightarrow> nat \<Rightarrow> Member list \<Rightarrow> (nat \<times> WeakSlot) list" where
  "member_edges p i [] = []"
| "member_edges p i (StrongMember q # ms) = member_edges p (Suc i) ms"
| "member_edges p i (WeakMember q # ms) = (if q = 0 then [] else [(q, MemberSlot p i)]) @ member_edges p (Suc i) ms"

lemma strong_pointers_simps [simp]:
  "strong_pointers [] = {}"
  "strong_pointers (StrongMember q # ms) = (if q = 0 then {} else {q}) \<union> strong_pointers ms"
  "strong_pointers (WeakMember q # ms) = strong_pointers ms"
  by (auto simp: strong_pointers_def)

lemma member_edges_iff:
  "(q, slot) \<in> set (member_edges p i ms) \<longleftrightarrow> (\<exists>j < length ms. slot = MemberSlot p (i + j) \<and> ms ! j = WeakMember q \<and> q \<noteq> 0)"
proof (induction ms arbitrary: i)
  case (Cons m ms)
  have "(\<exists>j < length (m # ms). slot = MemberSlot p (i + j) \<and> (m # ms) ! j = WeakMember q \<and> q \<noteq> 0) \<longleftrightarrow>
    (slot = MemberSlot p i \<and> m = WeakMember q \<and> q \<noteq> 0) \<or>
    (\<exists>j < length ms. slot = MemberSlot p (Suc i + j) \<and> ms ! j = WeakMember q \<and> q \<noteq> 0)" (is "?L \<longleftrightarrow> ?R")
    by (simp add: Ex_less_Suc2)
  then show ?case using Cons.IH [of "Suc i"] by (cases m) auto
qed simp

definition marking_graph :: "headers \<Rightarrow> nat set \<Rightarrow> (nat \<Rightarrow> Member list) \<Rightarrow> bool" where
  "marking_graph H Ob M \<longleftrightarrow>
     (\<forall>p \<in> Ob. ObjectStart (FromObject p) = p \<and> (\<exists>h. H (FromObject p) = Some h \<and> \<not> IsMarked h)) \<and>
     (\<forall>p \<in> Ob. \<forall>m \<in> set (M p). pointer_of m \<in> insert 0 Ob)"

text \<open>The headers when the objects of a set are marked.\<close>

definition marks :: "headers \<Rightarrow> nat set \<Rightarrow> headers" where
  "marks H X = (\<lambda>a. if a \<in> FromObject ` X then map_option (\<lambda>h. snd (TryMarkAtomic h)) (H a) else H a)"

lemma marks_empty [simp]: "marks H {} = H"
  by (simp add: marks_def fun_eq_iff)

lemma marking_graph_object:
  assumes "marking_graph H Ob M" "p \<in> Ob"
  shows "ObjectStart (FromObject p) = p" "\<exists>h. H (FromObject p) = Some h \<and> \<not> IsMarked h"
  using assms unfolding marking_graph_def by blast+

lemma FromObject_in:
  assumes "marking_graph H Ob M" "p \<in> Ob" "X \<subseteq> Ob"
  shows "FromObject p \<in> FromObject ` X \<longleftrightarrow> p \<in> X"
proof
  assume "FromObject p \<in> FromObject ` X"
  then obtain q where q: "q \<in> X" "FromObject p = FromObject q" by auto
  then have "p = q" using marking_graph_object(1) [OF assms(1,2)] marking_graph_object(1) [OF assms(1), of q] assms(3) by (metis subsetD)
  then show "p \<in> X" using q(1) by simp
qed simp

lemma TryMark_marked: "IsMarked h \<Longrightarrow> TryMarkAtomic h = (False, h)"
  by (simp add: TryMarkAtomic_def)

lemma TryMark_unmarked: "\<not> IsMarked h \<Longrightarrow> TryMarkAtomic h = (True, snd (TryMarkAtomic h))"
  by (simp add: TryMarkAtomic_def)

lemma Visit_marks:
  assumes g: "marking_graph H Ob M" "p \<in> Ob" "X \<subseteq> Ob"
  shows "Visit p (marks H X, v) = Some (marks H (insert p X), if p \<in> X then v else v\<lparr>worklist := p # worklist v\<rparr>)"
proof -
  obtain h where h: "H (FromObject p) = Some h" "\<not> IsMarked h" using marking_graph_object(2) [OF g(1,2)] by auto
  show ?thesis
  proof (cases "p \<in> X")
    case True
    have 1: "marks H X (FromObject p) = Some (snd (TryMarkAtomic h))" using True h by (simp add: marks_def)
    have 2: "TryMarkAtomic (snd (TryMarkAtomic h)) = (False, snd (TryMarkAtomic h))" by (rule TryMark_marked) simp
    have "insert p X = X" using True by blast
    then show ?thesis using True 1 2 by (simp add: Visit_def fun_upd_idem)
  next
    case False
    have 1: "marks H X (FromObject p) = Some h" using False h FromObject_in [OF g] by (simp add: marks_def)
    have "(marks H X)(FromObject p \<mapsto> snd (TryMarkAtomic h)) = marks H (insert p X)"
      using h by (auto simp: marks_def fun_eq_iff)
    moreover obtain h' where "TryMarkAtomic h = (True, h')" using TryMark_unmarked [OF h(2)] by blast
    ultimately show ?thesis using False 1 by (simp add: Visit_def)
  qed
qed

lemma TraceStrong_marks:
  assumes "marking_graph H Ob M" "p \<in> insert 0 Ob" "X \<subseteq> Ob"
  shows "TraceStrong p (marks H X, v) = Some (marks H ((if p = 0 then {} else {p}) \<union> X),
    if p = 0 \<or> p \<in> X then v else v\<lparr>worklist := p # worklist v\<rparr>)"
  using assms Visit_marks [of H Ob M p X v] by (auto simp: TraceStrong_def)

subsection \<open>Tracing an object\<close>

lemma trace_members_marks:
  assumes "marking_graph H Ob M" "X \<subseteq> Ob" "\<forall>m \<in> set ms. pointer_of m \<in> insert 0 Ob"
  shows "\<exists>new. trace_members p i ms (marks H X, v) = Some (marks H (X \<union> strong_pointers ms),
      v\<lparr>worklist := new @ worklist v, weak_edges := weak_edges v @ member_edges p i ms\<rparr>) \<and>
    distinct new \<and> set new = strong_pointers ms - X"
  using assms(2,3)
proof (induction ms arbitrary: i X v)
  case (Cons m ms)
  show ?case
  proof (cases m)
    case (StrongMember q)
    let ?X = "(if q = 0 then {} else {q}) \<union> X"
    let ?v = "if q = 0 \<or> q \<in> X then v else v\<lparr>worklist := q # worklist v\<rparr>"
    have q: "q \<in> insert 0 Ob" using Cons.prems(2) StrongMember by simp
    have "?X \<subseteq> Ob" using q Cons.prems(1) by auto
    then obtain new where n: "trace_members p (Suc i) ms (marks H ?X, ?v) = Some (marks H (?X \<union> strong_pointers ms),
      ?v\<lparr>worklist := new @ worklist ?v, weak_edges := weak_edges ?v @ member_edges p (Suc i) ms\<rparr>)"
      "distinct new" "set new = strong_pointers ms - ?X"
      using Cons.IH [of ?X "Suc i" ?v] Cons.prems(2) by auto
    have t: "TraceStrong q (marks H X, v) = Some (marks H ?X, ?v)" by (rule TraceStrong_marks [OF assms(1) q Cons.prems(1)])
    let ?new = "new @ (if q = 0 \<or> q \<in> X then [] else [q])"
    have "trace_members p i (m # ms) (marks H X, v) = trace_members p (Suc i) ms (marks H ?X, ?v)"
      using t StrongMember by simp
    then show ?thesis unfolding n(1) using n(2,3) StrongMember
      by (intro exI [of _ ?new]) (auto simp: Un_assoc Un_left_commute)
  next
    case (WeakMember q)
    let ?v = "if q = 0 then v else v\<lparr>weak_edges := weak_edges v @ [(q, MemberSlot p i)]\<rparr>"
    obtain new where n: "trace_members p (Suc i) ms (marks H X, ?v) = Some (marks H (X \<union> strong_pointers ms),
      ?v\<lparr>worklist := new @ worklist ?v, weak_edges := weak_edges ?v @ member_edges p (Suc i) ms\<rparr>)"
      "distinct new" "set new = strong_pointers ms - X"
      using Cons.IH [of X "Suc i" ?v] Cons.prems by auto
    have "trace_members p i (m # ms) (marks H X, v) = trace_members p (Suc i) ms (marks H X, ?v)"
      using WeakMember by (simp add: TraceWeak_def)
    then show ?thesis unfolding n(1) using n(2,3) WeakMember by (intro exI [of _ new]) auto
  qed
qed (simp add: exI [of _ "[]"])

subsection \<open>The fixpoint\<close>

definition black :: "nat set \<Rightarrow> MarkingVisitor \<Rightarrow> nat set" where
  "black X v = X - set (worklist v)"

definition mark_inv :: "nat set \<Rightarrow> (nat \<Rightarrow> Member list) \<Rightarrow> nat set \<Rightarrow> nat set \<Rightarrow> MarkingVisitor \<Rightarrow> bool" where
  "mark_inv Ob M roots X v \<longleftrightarrow> X \<subseteq> Ob \<and> roots - {0} \<subseteq> X \<and> X \<subseteq> {p. reaches M roots p} \<and>
     distinct (worklist v) \<and> set (worklist v) \<subseteq> X \<and> (\<forall>p \<in> black X v. strong_pointers (M p) \<subseteq> X) \<and>
     set (weak_edges v) = (\<Union>p \<in> black X v. set (member_edges p 0 (M p)))"

lemma mark_step:
  assumes g: "marking_graph H Ob M" and i: "mark_inv Ob M roots X v" and w: "worklist v = p # rest"
  shows "\<exists>X' v'. trace_members p 0 (M p) (marks H X, v\<lparr>worklist := rest\<rparr>) = Some (marks H X', v') \<and>
    mark_inv Ob M roots X' v' \<and> X \<subseteq> X' \<and> card (Ob - X') + length (worklist v') < card (Ob - X) + length (worklist v) \<or> infinite Ob"
proof (cases "finite Ob")
  case fin: True
  have p: "p \<in> X" "p \<in> Ob" "X \<subseteq> Ob" "p \<notin> set rest" "distinct rest" "set rest \<subseteq> X" using i w by (auto simp: mark_inv_def)
  have ms: "\<forall>m \<in> set (M p). pointer_of m \<in> insert 0 Ob" using g p(2) unfolding marking_graph_def by blast
  let ?S = "strong_pointers (M p)"
  obtain new where n: "trace_members p 0 (M p) (marks H X, v\<lparr>worklist := rest\<rparr>) = Some (marks H (X \<union> ?S),
      v\<lparr>worklist := new @ rest, weak_edges := weak_edges v @ member_edges p 0 (M p)\<rparr>)"
    "distinct new" "set new = ?S - X"
    using trace_members_marks [OF g p(3) ms, of p 0 "v\<lparr>worklist := rest\<rparr>"] by auto
  let ?v = "v\<lparr>worklist := new @ rest, weak_edges := weak_edges v @ member_edges p 0 (M p)\<rparr>"
  have S: "?S \<subseteq> Ob" using ms by (force simp: strong_pointers_def)
  have R: "?S \<subseteq> {q. reaches M roots q}"
    using i p(1) by (auto simp: mark_inv_def strong_pointers_def intro: reaches.member)
  have b: "black (X \<union> ?S) ?v = insert p (black X v)"
    using n(3) p w by (auto simp: black_def)
  have m: "mark_inv Ob M roots (X \<union> ?S) ?v"
    unfolding mark_inv_def b using i p n(2,3) S R w
    by (auto simp: mark_inv_def)
  have c: "card (Ob - X) = card (Ob - (X \<union> ?S)) + length new"
  proof -
    have "Ob - X = (Ob - (X \<union> ?S)) \<union> set new" "(Ob - (X \<union> ?S)) \<inter> set new = {}" using S n(3) by auto
    then have "card (Ob - X) = card (Ob - (X \<union> ?S)) + card (set new)" using fin by (metis card_Un_disjoint finite_Diff finite_Un)
    then show ?thesis using distinct_card [OF n(2)] by simp
  qed
  show ?thesis using n(1) m c w by (intro disjI1 exI [of _ "X \<union> ?S"] exI [of _ ?v]) auto
qed simp

lemma fixpoint_marks:
  assumes g: "marking_graph H Ob M" "finite Ob"
  shows "mark_inv Ob M roots X v \<Longrightarrow> card (Ob - X) + length (worklist v) \<le> fuel \<Longrightarrow>
    \<exists>X' v'. RunToFixpoint fuel M (marks H X, v) = Some (marks H X', v') \<and> mark_inv Ob M roots X' v' \<and> worklist v' = []"
proof (induction fuel arbitrary: X v)
  case 0
  then show ?case by (intro exI [of _ X] exI [of _ v]) simp
next
  case (Suc fuel)
  show ?case
  proof (cases "worklist v")
    case Nil
    then show ?thesis using Suc.prems by (intro exI [of _ X] exI [of _ v]) simp
  next
    case (Cons p rest)
    obtain X' v' where s: "trace_members p 0 (M p) (marks H X, v\<lparr>worklist := rest\<rparr>) = Some (marks H X', v')"
      "mark_inv Ob M roots X' v'" "card (Ob - X') + length (worklist v') < card (Ob - X) + length (worklist v)"
      using mark_step [OF g(1) Suc.prems(1) Cons] g(2) by auto
    then have "card (Ob - X') + length (worklist v') \<le> fuel" using Suc.prems(2) by simp
    from Suc.IH [OF s(2) this] show ?thesis using Cons s(1) by simp
  qed
qed

lemma fixpoint_exact:
  assumes "mark_inv Ob M roots X v" "worklist v = []"
  shows "X = {p. reaches M roots p}"
proof
  show "X \<subseteq> {p. reaches M roots p}" using assms(1) by (simp add: mark_inv_def)
  have "p \<in> X" if "reaches M roots p" for p using that
  proof induction
    case (root p)
    then show ?case using assms(1) by (auto simp: mark_inv_def)
  next
    case (member p q)
    then have "strong_pointers (M p) \<subseteq> X" using assms by (simp add: mark_inv_def black_def)
    then show ?case using member by (auto simp: strong_pointers_def)
  qed
  then show "{p. reaches M roots p} \<subseteq> X" by auto
qed

subsection \<open>Roots\<close>

lemma trace_strong_roots_marks:
  assumes g: "marking_graph H Ob M" and "\<forall>w p. root_value P w = Some p \<longrightarrow> p \<in> insert 0 Ob"
    "X \<subseteq> Ob" "\<forall>w \<in> set ws. handles P w \<noteq> None"
  shows "\<exists>new. trace_strong_roots P ws (marks H X, v) = Some (marks H (X \<union> {p. p \<noteq> 0 \<and> (\<exists>w \<in> set ws. root_value P w = Some p)}),
      v\<lparr>worklist := new @ worklist v\<rparr>) \<and> distinct new \<and>
    set new = {p. p \<noteq> 0 \<and> (\<exists>w \<in> set ws. root_value P w = Some p)} - X"
  using assms(3,4)
proof (induction ws arbitrary: X v)
  case (Cons w ws)
  obtain q where q: "handles P w = Some q" using Cons.prems(2) by auto
  define x where "x = persistent_value q"
  have r: "root_value P w = Some x" using q by (simp add: root_value_def x_def)
  have x: "x \<in> insert 0 Ob" using assms(2) r by blast
  let ?X = "(if x = 0 then {} else {x}) \<union> X"
  let ?v = "if x = 0 \<or> x \<in> X then v else v\<lparr>worklist := x # worklist v\<rparr>"
  let ?R = "\<lambda>ws. {p. p \<noteq> 0 \<and> (\<exists>w \<in> set ws. root_value P w = Some p)}"
  have R: "?R (w # ws) = (if x = 0 then {} else {x}) \<union> ?R ws" using r by auto
  have "?X \<subseteq> Ob" using x Cons.prems(1) by auto
  then obtain new where n: "trace_strong_roots P ws (marks H ?X, ?v) = Some (marks H (?X \<union> ?R ws), ?v\<lparr>worklist := new @ worklist ?v\<rparr>)"
    "distinct new" "set new = ?R ws - ?X"
    using Cons.IH [of ?X ?v] Cons.prems(2) by auto
  have t: "TraceStrong x (marks H X, v) = Some (marks H ?X, ?v)" by (rule TraceStrong_marks [OF g x Cons.prems(1)])
  have "trace_strong_roots P (w # ws) (marks H X, v) = trace_strong_roots P ws (marks H ?X, ?v)" using q t by (simp add: x_def)
  then show ?case unfolding n(1) R using n(2,3)
    by (intro exI [of _ "new @ (if x = 0 \<or> x \<in> X then [] else [x])"]) (auto simp: Un_assoc Un_left_commute)
qed (simp add: exI [of _ "[]"])

lemma trace_weak_roots_edges:
  assumes "\<forall>w \<in> set ws. handles P w \<noteq> None"
  shows "\<exists>es. trace_weak_roots P ws (H, v) = Some (H, v\<lparr>weak_edges := weak_edges v @ es\<rparr>) \<and>
    set es = {(p, PersistentSlot w) | p w. w \<in> set ws \<and> root_value P w = Some p \<and> p \<noteq> 0}"
  using assms
proof (induction ws arbitrary: v)
  case (Cons w ws)
  obtain q where q: "handles P w = Some q" using Cons.prems by auto
  define x where "x = persistent_value q"
  have r: "root_value P w = Some x" using q by (simp add: root_value_def x_def)
  let ?e = "if x = 0 then [] else [(x, PersistentSlot w)]"
  obtain es where e: "trace_weak_roots P ws (H, v\<lparr>weak_edges := weak_edges v @ ?e\<rparr>) = Some (H, v\<lparr>weak_edges := (weak_edges v @ ?e) @ es\<rparr>)"
    "set es = {(p, PersistentSlot w) | p w. w \<in> set ws \<and> root_value P w = Some p \<and> p \<noteq> 0}"
    using Cons.IH [of "v\<lparr>weak_edges := weak_edges v @ ?e\<rparr>"] Cons.prems by auto
  have "trace_weak_roots P (w # ws) (H, v) = trace_weak_roots P ws (H, v\<lparr>weak_edges := weak_edges v @ ?e\<rparr>)"
    using q by (simp add: TraceWeak_def x_def)
  then show ?case unfolding e(1) using e(2) r by (intro exI [of _ "?e @ es"]) auto
qed (simp add: exI [of _ "[]"])

subsection \<open>Weak edges\<close>

definition clear_slots :: "WeakSlot set \<Rightarrow> nat \<Rightarrow> Member list \<Rightarrow> Member list" where
  "clear_slots D p ms = map (\<lambda>i. if MemberSlot p i \<in> D then WeakMember 0 else ms ! i) [0..<length ms]"

definition clear_handles :: "WeakSlot set \<Rightarrow> (nat \<Rightarrow> nat option) \<Rightarrow> nat \<Rightarrow> nat option" where
  "clear_handles D V w = (if PersistentSlot w \<in> D then Some 0 else V w)"

definition same_but_weak :: "GcHeap \<Rightarrow> GcHeap \<Rightarrow> bool" where
  "same_but_weak s s' \<longleftrightarrow> s' = s\<lparr>members := members s', weak_persistents := weak_persistents s'\<rparr>"

lemma clear_slots_empty [simp]: "clear_slots {} p ms = ms" "clear_handles {} V = V"
  by (simp_all add: clear_slots_def clear_handles_def map_nth fun_eq_iff)

lemma clear_slots_insert:
  "clear_slots D q (((members s)(p := (members s p)[i := WeakMember 0])) q) = clear_slots (insert (MemberSlot p i) D) q (members s q)"
  by (auto simp: clear_slots_def nth_list_update)

lemma ProcessWeakEdges_ok:
  assumes "\<forall>(q, slot) \<in> set es. \<exists>h. memory s (FromObject q) = Some h"
    "\<forall>(q, slot) \<in> set es. \<forall>w. slot = PersistentSlot w \<longrightarrow> handles (weak_persistents s) w \<noteq> None" "persistents_ok (weak_persistents s)"
    "D = {slot. \<exists>q. (q, slot) \<in> set es \<and> \<not> IsMarked (the (memory s (FromObject q)))}"
  shows "\<exists>s'. ProcessWeakEdges es s = Some s' \<and> same_but_weak s s' \<and> persistents_ok (weak_persistents s') \<and>
    members s' = (\<lambda>p. clear_slots D p (members s p)) \<and>
    root_value (weak_persistents s') = clear_handles D (root_value (weak_persistents s))"
  using assms
proof (induction es arbitrary: s D)
  case Nil
  then show ?case by (auto simp: same_but_weak_def)
next
  case (Cons e es)
  obtain q slot where e: "e = (q, slot)" by (cases e)
  obtain h where h: "memory s (FromObject q) = Some h" using Cons.prems(1) e by auto
  let ?D = "\<lambda>s. {slot. \<exists>q. (q, slot) \<in> set es \<and> \<not> IsMarked (the (memory s (FromObject q)))}"
  show ?case
  proof (cases "IsMarked h")
    case True
    have "D = ?D s" using Cons.prems(4) e h True by auto
    with Cons.IH [of s D] Cons.prems show ?thesis using e h True by simp
  next
    case False
    have D: "D = insert slot (?D s)" using Cons.prems(4) e h False by auto
    show ?thesis
    proof (cases slot)
      case (MemberSlot p i)
      let ?s = "s\<lparr>members := (members s)(p := (members s p)[i := WeakMember 0])\<rparr>"
      obtain s' where s': "ProcessWeakEdges es ?s = Some s'" "same_but_weak ?s s'" "persistents_ok (weak_persistents s')"
        "members s' = (\<lambda>p. clear_slots (?D s) p (members ?s p))"
        "root_value (weak_persistents s') = clear_handles (?D s) (root_value (weak_persistents s))"
        using Cons.IH [of ?s "?D s"] Cons.prems by auto
      have "members s' = (\<lambda>q. clear_slots D q (members s q))" unfolding s'(4) D MemberSlot
        by (rule ext) (use clear_slots_insert [where s = s and p = p and i = i] in simp)
      moreover have "clear_handles D V = clear_handles (?D s) V" for V unfolding D MemberSlot by (simp add: clear_handles_def fun_eq_iff)
      moreover have "same_but_weak s s'" using s'(2) unfolding same_but_weak_def by (metis GcHeap.surjective GcHeap.update_convs(7,9))
      ultimately show ?thesis using s' e h False MemberSlot by (intro exI [of _ s']) (simp add: clear_slot_def)
    next
      case (PersistentSlot w)
      have "handles (weak_persistents s) w \<noteq> None" using Cons.prems(2) e PersistentSlot by auto
      then obtain P where P: "Persistent_ClearFromGC w (weak_persistents s) = Some P" "persistents_ok P"
        "root_value P = (root_value (weak_persistents s))(w \<mapsto> 0)" "dom (handles P) = dom (handles (weak_persistents s))"
        using ClearFromGC_ok [OF Cons.prems(3)] by blast
      let ?s = "s\<lparr>weak_persistents := P\<rparr>"
      have dom: "handles P w = None \<longleftrightarrow> handles (weak_persistents s) w = None" for w using P(4) by (metis domIff)
      obtain s' where s': "ProcessWeakEdges es ?s = Some s'" "same_but_weak ?s s'" "persistents_ok (weak_persistents s')"
        "members s' = (\<lambda>p. clear_slots (?D s) p (members s p))"
        "root_value (weak_persistents s') = clear_handles (?D s) (root_value P)"
        using Cons.IH [of ?s "?D s"] Cons.prems P(2) dom by auto
      have "root_value (weak_persistents s') = clear_handles D (root_value (weak_persistents s))"
        unfolding s'(5) P(3) D PersistentSlot by (auto simp: clear_handles_def fun_eq_iff)
      moreover have "clear_slots D p ms = clear_slots (?D s) p ms" for p ms unfolding D PersistentSlot by (simp add: clear_slots_def)
      moreover have "same_but_weak s s'" using s'(2) unfolding same_but_weak_def by (metis GcHeap.surjective GcHeap.update_convs(7,9))
      ultimately show ?thesis using s' e h False PersistentSlot P(1) by (intro exI [of _ s']) (simp add: clear_slot_def)
    qed
  qed
qed

subsection \<open>The mark phase\<close>

lemma heap_graph:
  assumes "gc_heap_ok s"
  shows "marking_graph (memory s) (heap_objects s) (members s)"
proof -
  have l: "layout_ok s" using assms by (simp add: gc_heap_ok_def)
  have "ObjectStart (FromObject p) = p \<and> (\<exists>h. memory s (FromObject p) = Some h \<and> \<not> IsMarked h)" if in_heap: "p \<in> heap_objects s" for p
  proof -
    obtain a where "p = ObjectStart a" "object_header s a" using in_heap unfolding heap_objects_def by blast
    then show ?thesis using object_header_memory [OF l, of a] by auto
  qed
  then show ?thesis using assms unfolding marking_graph_def gc_heap_ok_def pointers_ok_def by blast
qed

lemma reachable_objects:
  assumes "gc_heap_ok s"
  shows "live_objects s \<subseteq> heap_objects s"
proof -
  have "p \<in> heap_objects s" if "reaches (members s) (strong_roots s) p" for p using that
  proof induction
    case (root p)
    then show ?case using assms by (auto simp: gc_heap_ok_def pointers_ok_def strong_roots_def ran_def)
  next
    case (member p q)
    then have "pointer_of (StrongMember q) \<in> insert 0 (heap_objects s)" using assms unfolding gc_heap_ok_def pointers_ok_def by blast
    then show ?case using member by simp
  qed
  then show ?thesis by (auto simp: live_objects_def)
qed

lemma marks_marked:
  assumes "marking_graph H Ob M" "p \<in> Ob" "X \<subseteq> Ob"
  shows "\<exists>h. marks H X (FromObject p) = Some h \<and> (IsMarked h \<longleftrightarrow> p \<in> X)"
  using marking_graph_object(2) [OF assms(1,2)] FromObject_in [OF assms] by (auto simp: marks_def)

theorem Mark_ok:
  assumes ok: "gc_heap_ok s"
  shows "\<exists>s'. Mark s = Some s' \<and> memory s' = marks (memory s) (live_objects s) \<and>
    members s' = (\<lambda>p. if p \<in> live_objects s then map (clear_dead (live_objects s)) (members s p) else members s p) \<and>
    persistents_ok (strong_persistents s') \<and> persistents_ok (weak_persistents s') \<and>
    root_value (strong_persistents s') = root_value (strong_persistents s) \<and>
    root_value (weak_persistents s') = (\<lambda>w. map_option (\<lambda>p. if p \<in> live_objects s then p else 0) (root_value (weak_persistents s) w)) \<and>
    normal_pages s' = normal_pages s \<and> free_list s' = free_list s \<and> lab_start s' = lab_start s \<and> lab_size s' = lab_size s \<and>
    large_objects s' = large_objects s \<and> finalized s' = finalized s"
proof -
  let ?Ob = "heap_objects s" and ?P = "strong_persistents s" and ?W = "weak_persistents s"
  have l: "layout_ok s" and ps: "persistents_ok ?P" "persistents_ok ?W" and pt: "pointers_ok s" using ok by (simp_all add: gc_heap_ok_def)
  note g = heap_graph [OF ok]
  have hs: "\<forall>w \<in> set (traced_roots ?P). handles ?P w \<noteq> None" "\<forall>w \<in> set (traced_roots ?W). handles ?W w \<noteq> None"
    using traced_roots_ok(2) [OF ps(1)] traced_roots_ok(2) [OF ps(2)] by auto
  let ?R0 = "{p. p \<noteq> 0 \<and> (\<exists>w \<in> set (traced_roots ?P). root_value ?P w = Some p)}"
  have R0: "?R0 = strong_roots s - {0}" using traced_roots_cover [OF ps(1)] by (auto simp: strong_roots_def ran_def)
  have rp: "\<forall>w p. root_value ?P w = Some p \<longrightarrow> p \<in> insert 0 ?Ob" using pt unfolding pointers_ok_def by blast
  obtain new where n: "trace_strong_roots ?P (traced_roots ?P) (memory s, \<lparr>worklist = [], weak_edges = []\<rparr>) =
      Some (marks (memory s) ?R0, \<lparr>worklist = new, weak_edges = []\<rparr>)" "distinct new" "set new = ?R0"
    using trace_strong_roots_marks [OF g rp empty_subsetI hs(1), where v = "\<lparr>worklist = [], weak_edges = []\<rparr>"] by auto
  have sub: "?R0 \<subseteq> ?Ob" using rp by blast
  have i: "mark_inv ?Ob (members s) (strong_roots s) ?R0 \<lparr>worklist = new, weak_edges = []\<rparr>"
    using sub n(2,3) unfolding mark_inv_def black_def R0 by (auto intro: reaches.root)
  have "card (?Ob - ?R0) + length new = card ?Ob"
    using objects_bounded(1) [OF l] sub n(2,3) card_Diff_subset [of ?R0 ?Ob] card_mono [of ?Ob ?R0] finite_subset [OF sub]
    by (simp add: distinct_card [symmetric])
  then have f: "card (?Ob - ?R0) + length (worklist \<lparr>worklist = new, weak_edges = []\<rparr>) \<le> mark_fuel s"
    using objects_bounded(2) [OF l] by simp
  obtain X v where x: "RunToFixpoint (mark_fuel s) (members s) (marks (memory s) ?R0, \<lparr>worklist = new, weak_edges = []\<rparr>) = Some (marks (memory s) X, v)"
    "mark_inv ?Ob (members s) (strong_roots s) X v" "worklist v = []"
    using fixpoint_marks [OF g objects_bounded(1) [OF l] i f] by auto
  have X: "X = live_objects s" using fixpoint_exact [OF x(2,3)] by (simp add: live_objects_def)
  have we: "set (weak_edges v) = (\<Union>p \<in> live_objects s. set (member_edges p 0 (members s p)))"
    using x(2,3) by (simp add: mark_inv_def black_def X)
  obtain es where es: "trace_weak_roots ?W (traced_roots ?W) (marks (memory s) X, v) = Some (marks (memory s) X, v\<lparr>weak_edges := weak_edges v @ es\<rparr>)"
    "set es = {(p, PersistentSlot w) | p w. w \<in> set (traced_roots ?W) \<and> root_value ?W w = Some p \<and> p \<noteq> 0}"
    using trace_weak_roots_edges [OF hs(2)] by blast
  have es2: "set es = {(p, PersistentSlot w) | p w. root_value ?W w = Some p \<and> p \<noteq> 0}"
    unfolding es(2) using traced_roots_cover [OF ps(2)] by blast
  let ?s = "s\<lparr>memory := marks (memory s) X, strong_persistents := after_trace ?P, weak_persistents := after_trace ?W\<rparr>"
  let ?es = "weak_edges v @ es"
  obtain a b c d where it: "Iterate (region ?P) = (a, b)" "Iterate (region ?W) = (c, d)" by (meson surj_pair)
  have M: "Mark s = ProcessWeakEdges ?es ?s"
    using n(1) x(1) es(1) by (simp add: Mark_def traced_roots_def after_trace_def it del: RunToFixpoint.simps)
  have Xs: "X \<subseteq> ?Ob" using reachable_objects [OF ok] X by simp
  have q: "q \<in> ?Ob" if edge: "(q, slot) \<in> set ?es" for q slot
  proof -
    consider (m) p where "p \<in> live_objects s" "(q, slot) \<in> set (member_edges p 0 (members s p))" | (h) w where "root_value ?W w = Some q" "q \<noteq> 0"
      using edge unfolding set_append we es2 by blast
    then show ?thesis
    proof cases
      case m
      then obtain j where "j < length (members s p)" "members s p ! j = WeakMember q" "q \<noteq> 0" unfolding member_edges_iff by blast
      moreover have "p \<in> ?Ob" using m(1) reachable_objects [OF ok] by blast
      ultimately show ?thesis using pt unfolding pointers_ok_def by (metis nth_mem pointer_of.simps(2) insertE)
    next
      case h
      then show ?thesis using pt unfolding pointers_ok_def by blast
    qed
  qed
  have mk: "\<exists>h. memory ?s (FromObject q) = Some h \<and> (IsMarked h \<longleftrightarrow> q \<in> live_objects s)" if "(q, slot) \<in> set ?es" for q slot
    using marks_marked [OF g q [OF that] Xs] X by simp
  define D where "D = {slot. \<exists>q. (q, slot) \<in> set ?es \<and> q \<notin> live_objects s}"
  have D: "D = {slot. \<exists>q. (q, slot) \<in> set ?es \<and> \<not> IsMarked (the (memory ?s (FromObject q)))}"
    unfolding D_def using mk by fastforce
  have "\<forall>(q, slot) \<in> set ?es. \<exists>h. memory ?s (FromObject q) = Some h" using mk by blast
  moreover have "\<forall>(q, slot) \<in> set ?es. \<forall>w. slot = PersistentSlot w \<longrightarrow> handles (weak_persistents ?s) w \<noteq> None"
    unfolding set_append we es2 by (auto simp: member_edges_iff traced_roots_ok(5) [OF ps(2)] root_value_def)
  moreover have "persistents_ok (weak_persistents ?s)" using traced_roots_ok(3) [OF ps(2)] by simp
  ultimately obtain s' where s': "ProcessWeakEdges ?es ?s = Some s'" "same_but_weak ?s s'" "persistents_ok (weak_persistents s')"
    "members s' = (\<lambda>p. clear_slots D p (members ?s p))"
    "root_value (weak_persistents s') = clear_handles D (root_value (weak_persistents ?s))"
    using ProcessWeakEdges_ok [OF _ _ _ D] by blast
  have Dm: "MemberSlot p i \<in> D \<longleftrightarrow> p \<in> live_objects s \<and> i < length (members s p) \<and> (\<exists>q. members s p ! i = WeakMember q \<and> q \<noteq> 0 \<and> q \<notin> live_objects s)" for p i
    unfolding D_def set_append we es2 by (auto simp: member_edges_iff)
  have Dp: "PersistentSlot w \<in> D \<longleftrightarrow> (\<exists>p. root_value ?W w = Some p \<and> p \<noteq> 0 \<and> p \<notin> live_objects s)" for w
    unfolding D_def set_append we es2 by (auto simp: member_edges_iff)
  have z: "0 \<notin> live_objects s" unfolding live_objects_def by (auto elim: reaches.cases)
  have "members s' p = (if p \<in> live_objects s then map (clear_dead (live_objects s)) (members s p) else members s p)" for p
  proof (cases "p \<in> live_objects s")
    case True
    have "clear_slots D p (members s p) ! i = clear_dead (live_objects s) (members s p ! i)" if "i < length (members s p)" for i
      using that Dm [of p i] True z by (cases "members s p ! i") (auto simp: clear_slots_def)
    then have "clear_slots D p (members s p) = map (clear_dead (live_objects s)) (members s p)"
      by (intro nth_equalityI) (simp_all add: clear_slots_def)
    then show ?thesis using True by (simp add: s'(4))
  next
    case False
    then have "clear_slots D p (members s p) = members s p" using Dm [of p] by (simp add: clear_slots_def map_nth)
    then show ?thesis using False by (simp add: s'(4))
  qed
  then have m: "members s' = (\<lambda>p. if p \<in> live_objects s then map (clear_dead (live_objects s)) (members s p) else members s p)" by blast
  have "root_value (weak_persistents s') w = map_option (\<lambda>p. if p \<in> live_objects s then p else 0) (root_value ?W w)" for w
    using Dp [of w] z by (cases "root_value ?W w") (auto simp: s'(5) clear_handles_def traced_roots_ok(4) [OF ps(2)])
  then have r: "root_value (weak_persistents s') = (\<lambda>w. map_option (\<lambda>p. if p \<in> live_objects s then p else 0) (root_value ?W w))" by blast
  obtain A B where s'': "s' = ?s\<lparr>members := A, weak_persistents := B\<rparr>" using s'(2) unfolding same_but_weak_def by blast
  show ?thesis using M s'(1,3) m r traced_roots_ok(3,4) [OF ps(1)] unfolding s'' by (simp add: X)
qed

end
