(* ===== verification/Gc_Sweeping.thy ===== *)
theory Gc_Sweeping
  imports Gc_Marking
begin

text \<open>
  Sweeping keeps the marked objects where they are, finalizes every other object once, and leaves each
  page that still holds an object tiled by its objects and by free cells in the free list.
\<close>

definition walkable :: "headers \<Rightarrow> nat \<Rightarrow> (nat \<times> nat) list \<Rightarrow> bool" where
  "walkable H p zs \<longleftrightarrow> tiles p zs (p + PayloadSize) \<and> (\<forall>(x, n) \<in> set zs. \<exists>h. H x = Some h \<and> AllocatedSize h = n)"

definition live :: "headers \<Rightarrow> nat \<Rightarrow> bool" where
  "live H x \<longleftrightarrow> (\<exists>h. H x = Some h \<and> \<not> IsFree h \<and> IsMarked h)"

definition dead :: "headers \<Rightarrow> nat \<Rightarrow> bool" where
  "dead H x \<longleftrightarrow> (\<exists>h. H x = Some h \<and> \<not> IsFree h \<and> \<not> IsMarked h)"

subsection \<open>The walk over a page\<close>

lemma sweep_walk_ok:
  assumes "tiles cur zs e" "\<forall>(x, n) \<in> set zs. \<exists>h. H x = Some h \<and> AllocatedSize h = n" "0 < cur"
    "frs = 0 \<or> frs < cur \<and> 8 dvd cur - frs \<and> \<not> live H frs"
  shows "\<exists>lb rs ys. sweep_walk cur e frs lv runs H fin =
      Some (\<lambda>a. if a \<in> fst ` set zs \<and> live H a then map_option Unmark (H a) else H a,
        fin @ map ObjectStart (filter (dead H) (map fst zs)), lv + lb, runs @ rs) \<and>
    (lb = 0 \<longleftrightarrow> (\<forall>z \<in> set zs. \<not> live H (fst z))) \<and> tiles (if frs = 0 then cur else frs) ys e \<and>
    rs = filter (\<lambda>z. \<not> live H (fst z)) ys \<and> filter (\<lambda>z. live H (fst z)) zs = filter (\<lambda>z. live H (fst z)) ys"
  using assms
proof (induction zs arbitrary: cur frs lv runs H fin)
  case Nil
  then have "cur = e" by simp
  let ?rs = "if frs = 0 then [] else [(frs, e - frs)]"
  show ?case using Nil \<open>cur = e\<close>
    by (intro exI [of _ 0] exI [of _ ?rs]) (auto simp: sweep_walk.simps [of e])
next
  case (Cons z zs)
  obtain n where z: "z = (cur, n)" "0 < n" "8 dvd n" "tiles (cur + n) zs e" using Cons.prems(1) by (cases z) auto
  obtain h where h: "H cur = Some h" "AllocatedSize h = n" using Cons.prems(2) z(1) by auto
  have e: "cur < e" using tiles_length [OF z(4)] z(2) by simp
  have nin: "cur \<notin> fst ` set zs" using tiles_in(1) [OF z(4)] z(2) by fastforce
  show ?case
  proof (cases "IsFree h \<or> \<not> IsMarked h")
    case True
    let ?frs = "if frs = 0 then cur else frs"
    let ?fin = "if IsFree h then fin else fin @ [ObjectStart cur]"
    have w: "sweep_walk cur e frs lv runs H fin = sweep_walk (cur + n) e ?frs lv runs H ?fin"
      using e h True z(2) by (subst sweep_walk.simps) auto
    have nl: "\<not> live H cur" using True h(1) by (simp add: live_def)
    have c: "?frs = 0 \<or> ?frs < cur + n \<and> 8 dvd cur + n - ?frs \<and> \<not> live H ?frs"
    proof (cases "frs = 0")
      case False
      then have f: "frs < cur" "8 dvd cur - frs" "\<not> live H frs" using Cons.prems(4) by auto
      have "cur + n - frs = (cur - frs) + n" using f(1) by simp
      then have "8 dvd cur + n - frs" using f(2) z(3) by (metis dvd_add)
      then show ?thesis using f False by simp
    qed (use nl z(2,3) in simp)
    have d: "?fin @ map ObjectStart (filter (dead H) (map fst zs)) = fin @ map ObjectStart (filter (dead H) (map fst (z # zs)))"
      using True h(1) z(1) by (auto simp: dead_def)
    have m: "(\<lambda>a. if a \<in> fst ` set zs \<and> live H a then map_option Unmark (H a) else H a) =
      (\<lambda>a. if a \<in> fst ` set (z # zs) \<and> live H a then map_option Unmark (H a) else H a)" using nl z(1) by (auto simp: fun_eq_iff)
    have "?frs \<noteq> 0" using Cons.prems(3) by simp
    then show ?thesis using Cons.IH [OF z(4) _ _ c, of lv runs ?fin] Cons.prems(2,3) nl z(1) unfolding w d m by simp
  next
    case False
    let ?H = "H(cur \<mapsto> Unmark h)"
    let ?runs = "if frs = 0 then runs else runs @ [(frs, cur - frs)]"
    have w: "sweep_walk cur e frs lv runs H fin = sweep_walk (cur + n) e 0 (lv + n) ?runs ?H fin"
      using e h False z(2) by (subst sweep_walk.simps) simp
    have lv: "live H cur" "\<not> dead H cur" using False h(1) by (simp_all add: live_def dead_def)
    have same: "live ?H x = live H x" "dead ?H x = dead H x" if "x \<noteq> cur" for x using that by (simp_all add: live_def dead_def)
    have hs: "\<forall>(x, n) \<in> set zs. \<exists>h. ?H x = Some h \<and> AllocatedSize h = n"
    proof (intro ballI, clarify)
      fix x k assume x: "(x, k) \<in> set zs"
      then have "x \<noteq> cur" using nin by force
      then show "\<exists>h'. ?H x = Some h' \<and> AllocatedSize h' = k" using Cons.prems(2) x by auto
    qed
    have pos: "0 < cur + n" using z(2) by simp
    obtain lb rs ys where i: "sweep_walk (cur + n) e 0 (lv + n) ?runs ?H fin =
      Some (\<lambda>a. if a \<in> fst ` set zs \<and> live ?H a then map_option Unmark (?H a) else ?H a,
        fin @ map ObjectStart (filter (dead ?H) (map fst zs)), (lv + n) + lb, ?runs @ rs)"
      "tiles (cur + n) ys e" "rs = filter (\<lambda>z. \<not> live ?H (fst z)) ys" "filter (\<lambda>z. live ?H (fst z)) zs = filter (\<lambda>z. live ?H (fst z)) ys"
      using Cons.IH [OF z(4) hs pos, of 0 "lv + n" ?runs fin, OF disjI1 [OF refl], unfolded if_True simp_thms]
      by (elim exE conjE) (rule that)
    have nz: "fst z \<noteq> cur" if "z \<in> set zs" for z using that nin by auto
    have ny: "fst z \<noteq> cur" if "z \<in> set ys" for z using that tiles_in(1) [OF i(2), of "fst z" "snd z"] z(2) by auto
    have rs: "rs = filter (\<lambda>z. \<not> live H (fst z)) ys" unfolding i(3) by (rule filter_cong) (simp_all add: same ny)
    have lz: "filter (\<lambda>z. live H (fst z)) zs = filter (\<lambda>z. live H (fst z)) ys"
    proof -
      have "filter (\<lambda>z. live H (fst z)) zs = filter (\<lambda>z. live ?H (fst z)) zs" by (rule filter_cong) (simp_all add: same nz)
      also have "\<dots> = filter (\<lambda>z. live H (fst z)) ys" unfolding i(4) by (rule filter_cong) (simp_all add: same ny)
      finally show ?thesis .
    qed
    have d: "filter (dead ?H) (map fst zs) = filter (dead H) (map fst (z # zs))"
    proof -
      have "filter (dead ?H) (map fst zs) = filter (dead H) (map fst zs)" by (rule filter_cong) (use nz same in auto)
      then show ?thesis using lv(2) z(1) by simp
    qed
    have m: "(\<lambda>a. if a \<in> fst ` set zs \<and> live ?H a then map_option Unmark (?H a) else ?H a) =
      (\<lambda>a. if a \<in> fst ` set (z # zs) \<and> live H a then map_option Unmark (H a) else H a)"
    proof (rule ext)
      fix a
      show "(if a \<in> fst ` set zs \<and> live ?H a then map_option Unmark (?H a) else ?H a) =
        (if a \<in> fst ` set (z # zs) \<and> live H a then map_option Unmark (H a) else H a)"
        using nin lv(1) h(1) z(1) same [of a] by (cases "a = cur") auto
    qed
    let ?pre = "if frs = 0 then [] else [(frs, cur - frs)]"
    have t: "tiles (if frs = 0 then cur else frs) (?pre @ z # ys) e"
      using i(2) z(1-3) Cons.prems(4) by auto
    have pre: "filter (\<lambda>z. \<not> live H (fst z)) ?pre = ?pre" "filter (\<lambda>z. live H (fst z)) ?pre = []" using Cons.prems(4) by auto
    show ?thesis unfolding w i(1) d m
      by (intro exI [of _ "n + lb"] exI [of _ "?pre @ rs"] exI [of _ "?pre @ z # ys"] conjI)
        (use t pre rs lz lv(1) z(1,2) in \<open>auto simp: add.assoc\<close>)
  qed
qed

subsection \<open>Adding the free runs\<close>

lemma add_runs_ok:
  assumes "free_list_ok (memory s) (free_list s)" "distinct (map fst rs)"
    "\<forall>(x, n) \<in> set rs. 8 dvd n \<and> 0 < n \<and> n < kPageSize \<and> x \<notin> list_blocks (free_list s)"
  shows "\<exists>s'. add_runs rs s = Some s' \<and> s' = s\<lparr>memory := memory s', free_list := free_list s'\<rparr> \<and>
    free_list_ok (memory s') (free_list s') \<and> list_blocks (free_list s') \<subseteq> list_blocks (free_list s) \<union> fst ` set rs \<and>
    (\<forall>a. a \<notin> fst ` set rs \<longrightarrow> memory s' a = memory s a) \<and> (\<forall>(x, n) \<in> set rs. memory s' x = Some (new_header n 0))"
  using assms
proof (induction rs arbitrary: s)
  case (Cons r rs)
  obtain x n where r: "r = (x, n)" by (cases r)
  obtain fl where a: "FreeList_Add (x, n) (memory s) (free_list s) = Some ((memory s)(x \<mapsto> new_header n 0), fl)"
    "free_list_ok ((memory s)(x \<mapsto> new_header n 0)) fl" "list_blocks fl = list_blocks (free_list s) \<union> (if n < kFreeListEntrySize then {} else {x})"
    using Add_ok [OF Cons.prems(1), of n x] Cons.prems(3) r by auto
  let ?s = "s\<lparr>memory := (memory s)(x \<mapsto> new_header n 0), free_list := fl\<rparr>"
  have x: "x \<notin> fst ` set rs" and d: "distinct (map fst rs)" using Cons.prems(2) r by auto
  have f: "\<forall>(y, k) \<in> set rs. 8 dvd k \<and> 0 < k \<and> k < kPageSize \<and> y \<notin> list_blocks (free_list ?s)"
  proof (intro ballI, clarify)
    fix y k assume y: "(y, k) \<in> set rs"
    then have "y \<noteq> x" using x by force
    moreover have "8 dvd k \<and> 0 < k \<and> k < kPageSize \<and> y \<notin> list_blocks (free_list s)" using Cons.prems(3) y by force
    ultimately show "8 dvd k \<and> 0 < k \<and> k < kPageSize \<and> y \<notin> list_blocks (free_list ?s)" by (simp add: a(3))
  qed
  have ok: "free_list_ok (memory ?s) (free_list ?s)" using a(2) by simp
  obtain s' where s': "add_runs rs ?s = Some s'" "s' = ?s\<lparr>memory := memory s', free_list := free_list s'\<rparr>"
    "free_list_ok (memory s') (free_list s')" "list_blocks (free_list s') \<subseteq> list_blocks (free_list ?s) \<union> fst ` set rs"
    "\<forall>a. a \<notin> fst ` set rs \<longrightarrow> memory s' a = memory ?s a" "\<forall>(x, n) \<in> set rs. memory s' x = Some (new_header n 0)"
    using Cons.IH [OF ok d f] by blast
  have "memory s' x = Some (new_header n 0)" using s'(5) x by simp
  moreover have "s' = s\<lparr>memory := memory s', free_list := free_list s'\<rparr>" by (subst s'(2)) simp
  moreover have "list_blocks (free_list s') \<subseteq> list_blocks (free_list s) \<union> fst ` set (r # rs)"
    using s'(4) a(3) r by (auto split: if_splits)
  ultimately show ?case using s'(1,3,5,6) a(1) r by (intro exI [of _ s']) auto
qed simp

subsection \<open>One page\<close>

text \<open>What sweeping makes of a page that keeps an object.\<close>

definition page_swept :: "headers \<Rightarrow> (nat \<times> nat) list \<Rightarrow> headers \<Rightarrow> nat \<Rightarrow> (nat \<times> nat) list \<Rightarrow> bool" where
  "page_swept H zs H' p ys \<longleftrightarrow> tiles p ys (p + PayloadSize) \<and>
     filter (\<lambda>z. live H (fst z)) zs = filter (\<lambda>z. live H (fst z)) ys \<and>
     (\<forall>(x, n) \<in> set ys. H' x = (if live H x then map_option Unmark (H x) else Some (new_header n 0)))"

definition outside :: "nat \<Rightarrow> nat \<Rightarrow> bool" where
  "outside p a \<longleftrightarrow> a < p \<or> p + kPageSize \<le> a"

definition has_live :: "headers \<Rightarrow> (nat \<times> nat) list \<Rightarrow> bool" where
  "has_live H zs \<longleftrightarrow> (\<exists>z \<in> set zs. live H (fst z))"

lemma sweep_page_ok:
  assumes w: "walkable (memory s) p zs" "0 < p" and fl: "free_list_ok (memory s) (free_list s)" "\<forall>a \<in> list_blocks (free_list s). outside p a"
  shows "\<exists>s'. sweep_pages (p # ps) surviving s = sweep_pages ps (if has_live (memory s) zs then surviving @ [p] else surviving) s' \<and>
    s' = s\<lparr>memory := memory s', free_list := free_list s', finalized := finalized s @ map ObjectStart (filter (dead (memory s)) (map fst zs))\<rparr> \<and>
    (\<forall>a. outside p a \<longrightarrow> memory s' a = memory s a) \<and> free_list_ok (memory s') (free_list s') \<and>
    (if has_live (memory s) zs
     then \<exists>ys. page_swept (memory s) zs (memory s') p ys \<and>
       list_blocks (free_list s') \<subseteq> list_blocks (free_list s) \<union> {x. x \<in> fst ` set ys \<and> \<not> live (memory s) x}
     else list_blocks (free_list s') = list_blocks (free_list s))"
proof -
  let ?H = "memory s" and ?e = "p + PayloadSize"
  let ?H1 = "\<lambda>a. if a \<in> fst ` set zs \<and> live ?H a then map_option Unmark (?H a) else ?H a"
  let ?fin = "finalized s @ map ObjectStart (filter (dead ?H) (map fst zs))"
  have t: "tiles p zs ?e" and hs: "\<forall>(x, n) \<in> set zs. \<exists>h. ?H x = Some h \<and> AllocatedSize h = n" using w(1) by (simp_all add: walkable_def)
  obtain lb rs ys where i: "sweep_walk p ?e 0 0 [] ?H (finalized s) = Some (?H1, ?fin, lb, rs)"
    "lb = 0 \<longleftrightarrow> (\<forall>z \<in> set zs. \<not> live ?H (fst z))" "tiles p ys ?e"
    "rs = filter (\<lambda>z. \<not> live ?H (fst z)) ys" "filter (\<lambda>z. live ?H (fst z)) zs = filter (\<lambda>z. live ?H (fst z)) ys"
    using sweep_walk_ok [OF t hs w(2), of 0 0 "[]" "finalized s"] by auto
  let ?s1 = "s\<lparr>memory := ?H1, finalized := ?fin\<rparr>"
  have sw: "SweepNormalPage p s = Some (?s1, lb, rs)" using i(1) by (simp add: SweepNormalPage_def)
  have inz: "\<not> outside p a" if "a \<in> fst ` set zs" for a using that tiles_in(1,2,3) [OF t] by (fastforce simp: outside_def)
  have iny: "\<not> outside p a" if "a \<in> fst ` set ys" for a using that tiles_in(1,2,3) [OF i(3)] by (fastforce simp: outside_def)
  have out1: "?H1 a = ?H a" if "outside p a" for a using that inz by auto
  have keep: "free_list_ok H' (free_list s)" if "\<forall>a. outside p a \<longrightarrow> H' a = ?H a" for H'
    using free_list_ok_cong [OF fl(1), of H'] that fl(2) by auto
  have lb: "lb = 0 \<longleftrightarrow> \<not> has_live ?H zs" using i(2) by (auto simp: has_live_def)
  show ?thesis
  proof (cases "has_live ?H zs")
    case False
    let ?s' = "NormalPage_Destroy p ?s1"
    have out: "\<forall>a. outside p a \<longrightarrow> memory ?s' a = ?H a" using inz by (auto simp: NormalPage_Destroy_def erase_def outside_def)
    have "sweep_pages (p # ps) surviving s = sweep_pages ps surviving ?s'" using sw lb False by simp
    then show ?thesis using False out keep [OF out] by (intro exI [of _ ?s']) (simp add: NormalPage_Destroy_def)
  next
    case True
    have d: "distinct (map fst rs)" using tiles_distinct [OF i(3)] by (simp add: i(4) distinct_map_filter)
    have ok1: "free_list_ok (memory ?s1) (free_list ?s1)" using keep [of ?H1] out1 by simp
    have rs: "(x, n) \<in> set rs \<longleftrightarrow> (x, n) \<in> set ys \<and> \<not> live ?H x" for x n by (simp add: i(4))
    have "\<forall>(x, n) \<in> set rs. 8 dvd n \<and> 0 < n \<and> n < kPageSize \<and> x \<notin> list_blocks (free_list ?s1)"
    proof (intro ballI, clarify)
      fix x n assume "(x, n) \<in> set rs"
      then have y: "(x, n) \<in> set ys" by (simp add: rs)
      have "\<not> outside p x" using iny y by force
      then show "8 dvd n \<and> 0 < n \<and> n < kPageSize \<and> x \<notin> list_blocks (free_list ?s1)"
        using tiles_in [OF i(3) y] fl(2) by auto
    qed
    then obtain s' where s': "add_runs rs ?s1 = Some s'" "s' = ?s1\<lparr>memory := memory s', free_list := free_list s'\<rparr>"
      "free_list_ok (memory s') (free_list s')" "list_blocks (free_list s') \<subseteq> list_blocks (free_list ?s1) \<union> fst ` set rs"
      "\<forall>a. a \<notin> fst ` set rs \<longrightarrow> memory s' a = memory ?s1 a" "\<forall>(x, n) \<in> set rs. memory s' x = Some (new_header n 0)"
      using add_runs_ok [OF ok1 d] by blast
    have nr: "x \<notin> fst ` set rs" if "live ?H x" for x using that by (auto simp: i(4))
    have "memory s' x = (if live ?H x then map_option Unmark (?H x) else Some (new_header n 0))" if y: "(x, n) \<in> set ys" for x n
    proof (cases "live ?H x")
      case True
      have "(x, n) \<in> set (filter (\<lambda>z. live ?H (fst z)) zs)" using y True unfolding i(5) by simp
      then have "x \<in> fst ` set zs" by force
      then show ?thesis using s'(5) nr [OF True] True by simp
    next
      case False
      then show ?thesis using s'(6) rs y by auto
    qed
    then have ps: "page_swept ?H zs (memory s') p ys" using i(3,5) by (auto simp: page_swept_def)
    have "a \<notin> fst ` set rs" if "outside p a" for a
    proof
      assume "a \<in> fst ` set rs"
      then have "a \<in> fst ` set ys" by (auto simp: i(4))
      then show False using iny that by blast
    qed
    then have out: "\<forall>a. outside p a \<longrightarrow> memory s' a = ?H a" using s'(5) out1 by simp
    have "list_blocks (free_list s') \<subseteq> list_blocks (free_list s) \<union> {x. x \<in> fst ` set ys \<and> \<not> live ?H x}"
      using s'(4) by (auto simp: i(4))
    moreover have "sweep_pages (p # ps) surviving s = sweep_pages ps (surviving @ [p]) s'" using sw lb True s'(1) by simp
    moreover have "s' = s\<lparr>memory := memory s', free_list := free_list s', finalized := ?fin\<rparr>" by (subst s'(2)) simp
    ultimately show ?thesis using True out s'(3) ps by (intro exI [of _ s']) auto
  qed
qed

subsection \<open>All pages\<close>

text \<open>What is said of a page depends on the headers inside it only.\<close>

lemma page_cong:
  assumes "tiles p zs (p + PayloadSize)" "\<forall>a. \<not> outside p a \<longrightarrow> H a = H' a"
  shows "walkable H p zs = walkable H' p zs" "has_live H zs = has_live H' zs"
    "filter (dead H) (map fst zs) = filter (dead H') (map fst zs)" "page_swept H zs K p ys = page_swept H' zs K p ys"
proof -
  have i: "H x = H' x" "live H x = live H' x" "dead H x = dead H' x" if "tiles p us (p + PayloadSize)" "(x, n) \<in> set us" for us x n
    using tiles_in [OF that] assms(2) by (auto simp: outside_def live_def dead_def)
  note z = i [OF assms(1)]
  show "walkable H p zs = walkable H' p zs" unfolding walkable_def by (intro conj_cong ball_cong) (use z(1) in auto)
  show "has_live H zs = has_live H' zs" unfolding has_live_def by (rule bex_cong) (use z(2) in auto)
  show "filter (dead H) (map fst zs) = filter (dead H') (map fst zs)" by (rule filter_cong) (use z(3) in auto)
  have f: "filter (\<lambda>z. live H (fst z)) zs = filter (\<lambda>z. live H' (fst z)) zs" by (rule filter_cong) (use z(2) in auto)
  show "page_swept H zs K p ys = page_swept H' zs K p ys"
  proof (cases "tiles p ys (p + PayloadSize)")
    case True
    note y = i [OF True]
    have "filter (\<lambda>z. live H (fst z)) ys = filter (\<lambda>z. live H' (fst z)) ys" by (rule filter_cong) (use y(2) in auto)
    moreover have "(\<forall>(x, n) \<in> set ys. K x = (if live H x then map_option Unmark (H x) else Some (new_header n 0))) \<longleftrightarrow>
      (\<forall>(x, n) \<in> set ys. K x = (if live H' x then map_option Unmark (H' x) else Some (new_header n 0)))"
      by (rule ball_cong) (use y(1,2) in auto)
    ultimately show ?thesis using f by (simp only: page_swept_def)
  qed (simp add: page_swept_def)
qed

lemma page_swept_cong:
  assumes "page_swept H zs K p ys" "\<forall>a. \<not> outside p a \<longrightarrow> K' a = K a"
  shows "page_swept H zs K' p ys"
proof -
  have t: "tiles p ys (p + PayloadSize)" using assms(1) by (simp add: page_swept_def)
  have "K' x = K x" if "(x, n) \<in> set ys" for x n using tiles_in [OF t that] assms(2) by (auto simp: outside_def)
  then show ?thesis using assms(1) unfolding page_swept_def by fastforce
qed

lemma apart_outside:
  assumes "no_overlap p kPageSize q kPageSize" "\<not> outside q a"
  shows "outside p a"
  using assms unfolding no_overlap_def outside_def by auto

lemma sweep_pages_ok:
  assumes "\<forall>p \<in> set ps. walkable (memory s) p (Z p) \<and> 0 < p" "distinct ps"
    "\<forall>p \<in> set ps. \<forall>q \<in> set ps. p \<noteq> q \<longrightarrow> no_overlap p kPageSize q kPageSize" "free_list_ok (memory s) (free_list s)"
    "\<forall>a \<in> list_blocks (free_list s). \<forall>p \<in> set ps. outside p a"
  shows "\<exists>s'. sweep_pages ps surviving s = Some (surviving @ filter (\<lambda>p. has_live (memory s) (Z p)) ps, s') \<and>
    s' = s\<lparr>memory := memory s', free_list := free_list s',
      finalized := finalized s @ concat (map (\<lambda>p. map ObjectStart (filter (dead (memory s)) (map fst (Z p)))) ps)\<rparr> \<and>
    (\<forall>a. (\<forall>p \<in> set ps. outside p a) \<longrightarrow> memory s' a = memory s a) \<and> free_list_ok (memory s') (free_list s') \<and>
    (\<forall>p \<in> set ps. has_live (memory s) (Z p) \<longrightarrow> (\<exists>ys. page_swept (memory s) (Z p) (memory s') p ys)) \<and>
    (\<forall>a \<in> list_blocks (free_list s'). a \<in> list_blocks (free_list s) \<or>
      (\<exists>p \<in> set ps. has_live (memory s) (Z p) \<and> (\<exists>ys. page_swept (memory s) (Z p) (memory s') p ys \<and> a \<in> fst ` set ys \<and> \<not> live (memory s) a)))"
  using assms
proof (induction ps arbitrary: s surviving)
  case Nil
  then show ?case by (intro exI [of _ s]) simp
next
  case (Cons p ps)
  let ?H = "memory s"
  let ?surv = "if has_live ?H (Z p) then surviving @ [p] else surviving"
  have p: "walkable ?H p (Z p)" "0 < p" "\<forall>a \<in> list_blocks (free_list s). outside p a" using Cons.prems(1,5) by simp_all
  obtain s1 where s1: "sweep_pages (p # ps) surviving s = sweep_pages ps ?surv s1"
    "s1 = s\<lparr>memory := memory s1, free_list := free_list s1, finalized := finalized s @ map ObjectStart (filter (dead ?H) (map fst (Z p)))\<rparr>"
    "\<forall>a. outside p a \<longrightarrow> memory s1 a = ?H a" "free_list_ok (memory s1) (free_list s1)"
    "if has_live ?H (Z p)
     then \<exists>ys. page_swept ?H (Z p) (memory s1) p ys \<and> list_blocks (free_list s1) \<subseteq> list_blocks (free_list s) \<union> {x. x \<in> fst ` set ys \<and> \<not> live ?H x}
     else list_blocks (free_list s1) = list_blocks (free_list s)"
    using sweep_page_ok [OF p(1,2) Cons.prems(4) p(3), of ps surviving] by blast
  have ap: "no_overlap p kPageSize q kPageSize" "no_overlap q kPageSize p kPageSize" if "q \<in> set ps" for q
    using Cons.prems(2,3) that by (simp_all, metis+)
  have agree: "\<forall>a. \<not> outside q a \<longrightarrow> memory s1 a = ?H a" if "q \<in> set ps" for q
    using s1(3) apart_outside [OF ap(1) [OF that]] by blast
  have tq: "tiles q (Z q) (q + PayloadSize)" if "q \<in> set ps" for q using Cons.prems(1) that by (simp add: walkable_def)
  note cong = page_cong [OF tq agree]
  have bl: "\<forall>a \<in> list_blocks (free_list s1). \<forall>q \<in> set ps. outside q a"
  proof (intro ballI)
    fix a q assume a: "a \<in> list_blocks (free_list s1)" and q: "q \<in> set ps"
    show "outside q a"
    proof (cases "a \<in> list_blocks (free_list s)")
      case True
      then show ?thesis using Cons.prems(5) q by simp
    next
      case False
      then have "\<exists>ys. page_swept ?H (Z p) (memory s1) p ys \<and> a \<in> fst ` set ys"
        using a s1(5) by (cases "has_live ?H (Z p)") (simp_all, blast)
      then obtain ys where ys: "page_swept ?H (Z p) (memory s1) p ys" "a \<in> fst ` set ys" by blast
      then obtain n where n: "(a, n) \<in> set ys" by auto
      have "tiles p ys (p + PayloadSize)" using ys(1) by (simp add: page_swept_def)
      from tiles_in [OF this n] have "\<not> outside p a" by (simp add: outside_def)
      then show ?thesis by (rule apart_outside [OF ap(2) [OF q]])
    qed
  qed
  have w1: "\<forall>q \<in> set ps. walkable (memory s1) q (Z q) \<and> 0 < q" using cong(1) Cons.prems(1) by simp
  have d1: "distinct ps" "\<forall>p \<in> set ps. \<forall>q \<in> set ps. p \<noteq> q \<longrightarrow> no_overlap p kPageSize q kPageSize" using Cons.prems(2,3) by simp_all
  obtain s' where s': "sweep_pages ps ?surv s1 = Some (?surv @ filter (\<lambda>p. has_live (memory s1) (Z p)) ps, s')"
    "s' = s1\<lparr>memory := memory s', free_list := free_list s',
      finalized := finalized s1 @ concat (map (\<lambda>p. map ObjectStart (filter (dead (memory s1)) (map fst (Z p)))) ps)\<rparr>"
    "\<forall>a. (\<forall>p \<in> set ps. outside p a) \<longrightarrow> memory s' a = memory s1 a" "free_list_ok (memory s') (free_list s')"
    "\<forall>p \<in> set ps. has_live (memory s1) (Z p) \<longrightarrow> (\<exists>ys. page_swept (memory s1) (Z p) (memory s') p ys)"
    "\<forall>a \<in> list_blocks (free_list s'). a \<in> list_blocks (free_list s1) \<or>
      (\<exists>p \<in> set ps. has_live (memory s1) (Z p) \<and> (\<exists>ys. page_swept (memory s1) (Z p) (memory s') p ys \<and> a \<in> fst ` set ys \<and> \<not> live (memory s1) a))"
    using Cons.IH [OF w1 d1 s1(4) bl, of ?surv] by (elim exE conjE) (rule that)
  have keep_p: "page_swept ?H (Z p) (memory s') p ys" if "page_swept ?H (Z p) (memory s1) p ys" for ys
    by (rule page_swept_cong [OF that]) (use s'(3) apart_outside [OF ap(2)] in blast)
  have fl: "filter (\<lambda>p. has_live (memory s1) (Z p)) ps = filter (\<lambda>p. has_live ?H (Z p)) ps" by (rule filter_cong) (simp_all add: cong(2))
  have dd: "concat (map (\<lambda>p. map ObjectStart (filter (dead (memory s1)) (map fst (Z p)))) ps) =
    concat (map (\<lambda>p. map ObjectStart (filter (dead ?H) (map fst (Z p)))) ps)" by (simp add: cong(3) cong: map_cong)
  have "sweep_pages (p # ps) surviving s = Some (surviving @ filter (\<lambda>p. has_live ?H (Z p)) (p # ps), s')"
    using s1(1) s'(1) fl by simp
  moreover have "s' = s\<lparr>memory := memory s', free_list := free_list s',
      finalized := finalized s @ concat (map (\<lambda>p. map ObjectStart (filter (dead ?H) (map fst (Z p)))) (p # ps))\<rparr>"
    by (subst s'(2), subst s1(2)) (simp add: dd, subst s1(2), simp)
  moreover have "\<forall>a. (\<forall>q \<in> set (p # ps). outside q a) \<longrightarrow> memory s' a = ?H a" using s'(3) s1(3) by simp
  moreover have "\<forall>q \<in> set (p # ps). has_live ?H (Z q) \<longrightarrow> (\<exists>ys. page_swept ?H (Z q) (memory s') q ys)"
    using s'(5) s1(5) keep_p cong(2,4) by (auto split: if_splits)
  moreover have "a \<in> list_blocks (free_list s) \<or>
      (\<exists>q \<in> set (p # ps). has_live ?H (Z q) \<and> (\<exists>ys. page_swept ?H (Z q) (memory s') q ys \<and> a \<in> fst ` set ys \<and> \<not> live ?H a))"
    if a: "a \<in> list_blocks (free_list s')" for a
  proof (cases "a \<in> list_blocks (free_list s1)")
    case old: True
    show ?thesis
    proof (cases "has_live ?H (Z p)")
      case True
      then obtain ys where ys: "page_swept ?H (Z p) (memory s1) p ys"
        "list_blocks (free_list s1) \<subseteq> list_blocks (free_list s) \<union> {x. x \<in> fst ` set ys \<and> \<not> live ?H x}" using s1(5) by auto
      then have "a \<in> list_blocks (free_list s) \<or> a \<in> fst ` set ys \<and> \<not> live ?H a" using old by blast
      then show ?thesis using keep_p [OF ys(1)] True by (meson list.set_intros(1))
    qed (use s1(5) old in simp)
  next
    case False
    then obtain q ys where q: "q \<in> set ps" "has_live (memory s1) (Z q)" "page_swept (memory s1) (Z q) (memory s') q ys" "a \<in> fst ` set ys" "\<not> live (memory s1) a"
      using s'(6) a by blast
    have ps: "page_swept ?H (Z q) (memory s') q ys" using q(3) cong(4) [OF q(1) q(1)] by simp
    have "\<not> outside q a" using q(4) tiles_in [of q ys "q + PayloadSize" a] ps by (auto simp: page_swept_def outside_def)
    then have "\<not> live ?H a" using q(5) agree [OF q(1)] by (simp add: live_def)
    then show ?thesis using q cong(2) [OF q(1) q(1)] ps by auto
  qed
  ultimately show ?case using s'(4) by (intro exI [of _ s']) blast
qed

subsection \<open>Large objects\<close>

lemma sweep_large_ok:
  assumes "distinct as" "\<forall>a \<in> set as. \<exists>h. memory s a = Some h \<and> 0 < AllocatedSize h"
    "\<forall>a \<in> set as. \<forall>b \<in> set as. a \<noteq> b \<longrightarrow> no_overlap a (large_size s a) b (large_size s b)"
  shows "\<exists>s'. sweep_large as surviving s = Some (surviving @ filter (\<lambda>a. IsMarked (the (memory s a))) as, s') \<and>
    s' = s\<lparr>memory := memory s', finalized := finalized s @ map ObjectStart (filter (\<lambda>a. \<not> IsMarked (the (memory s a))) as)\<rparr> \<and>
    (\<forall>x. (\<forall>a \<in> set as. no_overlap a (large_size s a) x 1) \<longrightarrow> memory s' x = memory s x) \<and>
    (\<forall>a \<in> set as. IsMarked (the (memory s a)) \<longrightarrow> memory s' a = map_option Unmark (memory s a))"
  using assms
proof (induction as arbitrary: s surviving)
  case Nil
  then show ?case by (intro exI [of _ s]) simp
next
  case (Cons a as)
  obtain h where h: "memory s a = Some h" "0 < AllocatedSize h" using Cons.prems(2) by auto
  let ?s = "if IsMarked h then s\<lparr>memory := (memory s)(a \<mapsto> Unmark h)\<rparr>
    else s\<lparr>finalized := finalized s @ [ObjectStart a], memory := erase a (AllocatedSize h) (memory s)\<rparr>"
  have same: "memory ?s x = memory s x" if "no_overlap a (large_size s a) x 1" for x
    using that h by (auto simp: no_overlap_def erase_def large_size_def)
  have ap: "no_overlap a (large_size s a) b (large_size s b)" "0 < large_size s b" if "b \<in> set as" for b
    using Cons.prems that by (auto simp: large_size_def)
  have sb: "memory ?s b = memory s b" "large_size ?s b = large_size s b" if "b \<in> set as" for b
  proof -
    show "memory ?s b = memory s b" using ap [OF that] by (intro same) (auto simp: no_overlap_def)
    then show "large_size ?s b = large_size s b" by (simp add: large_size_def)
  qed
  have d: "distinct as" using Cons.prems(1) by simp
  have hb: "\<forall>b \<in> set as. \<exists>h. memory ?s b = Some h \<and> 0 < AllocatedSize h" using Cons.prems(2) sb(1) by simp
  have ab: "\<forall>b \<in> set as. \<forall>c \<in> set as. b \<noteq> c \<longrightarrow> no_overlap b (large_size ?s b) c (large_size ?s c)" using Cons.prems(3) sb(2) by simp
  let ?surv = "if IsMarked h then surviving @ [a] else surviving"
  obtain s' where s': "sweep_large as ?surv ?s = Some (?surv @ filter (\<lambda>a. IsMarked (the (memory ?s a))) as, s')"
    "s' = ?s\<lparr>memory := memory s', finalized := finalized ?s @ map ObjectStart (filter (\<lambda>a. \<not> IsMarked (the (memory ?s a))) as)\<rparr>"
    "\<forall>x. (\<forall>a \<in> set as. no_overlap a (large_size ?s a) x 1) \<longrightarrow> memory s' x = memory ?s x"
    "\<forall>a \<in> set as. IsMarked (the (memory ?s a)) \<longrightarrow> memory s' a = map_option Unmark (memory ?s a)"
    using Cons.IH [OF d hb ab, of ?surv] by blast
  have f: "filter (\<lambda>a. IsMarked (the (memory ?s a))) as = filter (\<lambda>a. IsMarked (the (memory s a))) as"
    "filter (\<lambda>a. \<not> IsMarked (the (memory ?s a))) as = filter (\<lambda>a. \<not> IsMarked (the (memory s a))) as"
    by (rule filter_cong; use sb in simp)+
  have "sweep_large (a # as) surviving s = sweep_large as ?surv ?s" using h(1) by simp
  then have "sweep_large (a # as) surviving s = Some (surviving @ filter (\<lambda>a. IsMarked (the (memory s a))) (a # as), s')"
    unfolding s'(1) f using h(1) by simp
  moreover have "s' = s\<lparr>memory := memory s', finalized := finalized s @ map ObjectStart (filter (\<lambda>a. \<not> IsMarked (the (memory s a))) (a # as))\<rparr>"
    by (subst s'(2)) (use f h(1) in simp)
  moreover have "memory s' x = memory s x" if x: "\<forall>b \<in> set (a # as). no_overlap b (large_size s b) x 1" for x
  proof -
    have "memory s' x = memory ?s x" using s'(3) x sb(2) by simp
    also have "\<dots> = memory s x" by (rule same) (use x in simp)
    finally show ?thesis .
  qed
  moreover have "memory s' b = map_option Unmark (memory s b)" if b: "b \<in> set (a # as)" "IsMarked (the (memory s b))" for b
  proof (cases "b = a")
    case True
    have "no_overlap c (large_size ?s c) a 1" if "c \<in> set as" for c
      using ap [OF that] sb(2) [OF that] h by (auto simp: no_overlap_def large_size_def)
    then have "memory s' a = memory ?s a" using s'(3) by blast
    then show ?thesis using True b(2) h(1) by simp
  next
    case False
    then show ?thesis using s'(4) b sb(1) by simp
  qed
  ultimately show ?case by (intro exI [of _ s']) blast
qed

end
