(* ===== verification/Gc_Collection.thy ===== *)
theory Gc_Collection
  imports Gc_Sweeping
begin

text \<open>
  A collection as a whole: marking followed by sweeping keeps the invariant of the heap, and what
  remains are exactly the objects reachable from the strong persistent handles.
\<close>

subsection \<open>Giving the allocation buffer back\<close>

definition flushed :: "GcHeap \<Rightarrow> headers" where
  "flushed s = (if 0 < lab_size s then (memory s)(lab_start s \<mapsto> new_header (lab_size s) 0) else memory s)"

lemma ReplaceLAB_ok:
  assumes "free_list_ok (memory s) (free_list s)"
    "0 < lab_size s \<Longrightarrow> 8 dvd lab_size s \<and> lab_size s < kPageSize \<and> lab_start s \<notin> list_blocks (free_list s)"
  shows "\<exists>fl. ReplaceLinearAllocationBuffer a n s = Some (s\<lparr>memory := flushed s, free_list := fl, lab_start := a, lab_size := n\<rparr>) \<and>
    free_list_ok (flushed s) fl \<and> list_blocks (free_list s) \<subseteq> list_blocks fl \<and>
    list_blocks fl \<subseteq> list_blocks (free_list s) \<union> {x. is_lab s x}"
proof (cases "0 < lab_size s")
  case True
  then show ?thesis using Add_ok [OF assms(1), of "lab_size s" "lab_start s"] assms(2)
    by (auto simp: ReplaceLinearAllocationBuffer_def flushed_def is_lab_def split: if_splits)
next
  case False
  then show ?thesis using assms(1) by (auto simp: ReplaceLinearAllocationBuffer_def flushed_def intro!: exI [of _ "free_list s"])
qed

lemma lab_bounds:
  assumes "layout_ok s" "0 < lab_size s"
  shows "8 dvd lab_size s" "lab_size s < kPageSize" "lab_start s \<notin> list_blocks (free_list s)"
    "\<exists>p zs. p \<in> set (normal_pages s) \<and> page_tiling s p zs \<and> (lab_start s, lab_size s) \<in> set zs"
proof -
  obtain p zs n where z: "p \<in> set (normal_pages s)" "page_tiling s p zs" "(lab_start s, n) \<in> set zs"
    using layout_okD(4) [OF assms] by (rule page_cellE)
  have "n = lab_size s" using page_tiling_bounds(5) [OF z(2,3)] assms(2) by (simp add: cell_size_def is_lab_def)
  then show "8 dvd lab_size s" "lab_size s < kPageSize"
    "\<exists>p zs. p \<in> set (normal_pages s) \<and> page_tiling s p zs \<and> (lab_start s, lab_size s) \<in> set zs"
    using page_tiling_bounds [OF z(2,3)] z by auto
  show "lab_start s \<notin> list_blocks (free_list s)" using layout_okD(7) [OF assms(1)] assms(2) by (auto simp: is_lab_def)
qed

lemma new_header_size:
  "8 dvd n \<Longrightarrow> n < kPageSize \<Longrightarrow> AllocatedSize (new_header n 0) = n" "IsFree (new_header n 0)" "\<not> IsMarked (new_header n i)"
  by (simp_all add: kMaxSize_def IsFree_def kFreeListGCInfoIndex_def)

subsection \<open>The headers after marking and flushing\<close>

lemma marks_shape:
  "marks H X a = None \<longleftrightarrow> H a = None"
  "map_option AllocatedSize (marks H X a) = map_option AllocatedSize (H a)"
  "map_option IsFree (marks H X a) = map_option IsFree (H a)"
  by (cases "H a"; simp add: marks_def)+

lemma marks_Some:
  assumes "H a = Some h"
  shows "\<exists>h'. marks H X a = Some h' \<and> AllocatedSize h' = AllocatedSize h \<and> IsFree h' = IsFree h"
  using assms by (auto simp: marks_def)

definition marked_flushed :: "GcHeap \<Rightarrow> headers" where
  "marked_flushed s = (if 0 < lab_size s then (marks (memory s) (live_objects s))(lab_start s \<mapsto> new_header (lab_size s) 0)
    else marks (memory s) (live_objects s))"

lemma marked_flushed_cell:
  assumes ok: "gc_heap_ok s" and p: "page_cell s x"
  shows "live (marked_flushed s) x \<longleftrightarrow> ObjectStart x \<in> live_objects s"
    "dead (marked_flushed s) x \<longleftrightarrow> ObjectStart x \<in> heap_objects s - live_objects s"
    "\<exists>h. marked_flushed s x = Some h \<and> cell_size s x = Some (AllocatedSize h)"
    "ObjectStart x \<in> live_objects s \<Longrightarrow> map_option Unmark (marked_flushed s x) = memory s x"
proof -
  have l: "layout_ok s" using ok by (simp add: gc_heap_ok_def)
  note sub = reachable_objects [OF ok]
  have nl: "x \<notin> set (large_objects s)"
  proof
    assume x: "x \<in> set (large_objects s)"
    obtain q zs n where q: "q \<in> set (normal_pages s)" "page_tiling s q zs" "(x, n) \<in> set zs" using p by (rule page_cellE)
    have "0 < large_size s x" using large_okD [OF layout_okD(2) [OF l] x] by auto
    from large_not_in_page [OF layout_okD(1) [OF l] q(1) x this] show False using page_cell_in_page [OF q(2,3)] by auto
  qed
  have "(live (marked_flushed s) x \<longleftrightarrow> ObjectStart x \<in> live_objects s) \<and>
      (dead (marked_flushed s) x \<longleftrightarrow> ObjectStart x \<in> heap_objects s - live_objects s) \<and>
      (\<exists>h. marked_flushed s x = Some h \<and> cell_size s x = Some (AllocatedSize h)) \<and>
      (ObjectStart x \<in> live_objects s \<longrightarrow> map_option Unmark (marked_flushed s x) = memory s x)"
  proof (cases "is_lab s x")
    case True
    then have x: "x = lab_start s" "0 < lab_size s" by (simp_all add: is_lab_def)
    have "\<not> object_header s x" using True nl by (simp add: object_header_def)
    moreover have "ObjectStart x \<notin> live_objects s" using sub calculation by auto
    ultimately show ?thesis
      using x lab_bounds [OF l x(2)] new_header_size [of "lab_size s"] True
      by (simp add: marked_flushed_def live_def dead_def cell_size_def)
  next
    case False
    then have m: "marked_flushed s x = marks (memory s) (live_objects s) x" by (auto simp: marked_flushed_def is_lab_def)
    obtain h where h: "memory s x = Some h" "cell_size s x = Some (AllocatedSize h)" using page_cell_header [OF p False] by blast
    have um: "\<not> IsMarked h" using layout_okD(5) [OF l p False] h(1) by simp
    have f: "x \<in> FromObject ` live_objects s \<longleftrightarrow> ObjectStart x \<in> live_objects s"
    proof
      assume "x \<in> FromObject ` live_objects s"
      then obtain q where "q \<in> live_objects s" "x = FromObject q" by blast
      then show "ObjectStart x \<in> live_objects s" using sub heap_object_iff by (metis subsetD)
    qed (metis FromObject_ObjectStart imageI)
    have o: "ObjectStart x \<in> heap_objects s \<longleftrightarrow> \<not> IsFree h" using p False nl h(1) by (auto simp: object_header_def)
    show ?thesis
    proof (cases "ObjectStart x \<in> live_objects s")
      case True
      then have "\<not> IsFree h" using sub o by blast
      then show ?thesis using True f h um o unfolding m marks_def live_def dead_def by (simp add: Unmark_TryMark)
    next
      case False
      then show ?thesis using f h um o unfolding m marks_def live_def dead_def by simp
    qed
  qed
  then show "live (marked_flushed s) x \<longleftrightarrow> ObjectStart x \<in> live_objects s"
    "dead (marked_flushed s) x \<longleftrightarrow> ObjectStart x \<in> heap_objects s - live_objects s"
    "\<exists>h. marked_flushed s x = Some h \<and> cell_size s x = Some (AllocatedSize h)"
    "ObjectStart x \<in> live_objects s \<Longrightarrow> map_option Unmark (marked_flushed s x) = memory s x"
    by blast+
qed

lemma marked_flushed_large:
  assumes ok: "gc_heap_ok s" and a: "a \<in> set (large_objects s)"
  shows "\<exists>h. memory s a = Some h \<and> marked_flushed s a = Some (if ObjectStart a \<in> live_objects s then snd (TryMarkAtomic h) else h) \<and> \<not> IsMarked h"
proof -
  have l: "layout_ok s" using ok by (simp add: gc_heap_ok_def)
  obtain h where h: "memory s a = Some h" "\<not> IsMarked h" "8 \<le> AllocatedSize h" "large_size s a = AllocatedSize h"
    using large_okD [OF layout_okD(2) [OF l] a] by blast
  have "a \<noteq> lab_start s" if lab: "0 < lab_size s"
  proof
    assume e: "a = lab_start s"
    obtain p zs where z: "p \<in> set (normal_pages s)" "page_tiling s p zs" "(lab_start s, lab_size s) \<in> set zs" using lab_bounds(4) [OF l lab] by blast
    have "0 < large_size s a" using h by simp
    from large_not_in_page [OF layout_okD(1) [OF l] z(1) a this] show False using page_cell_in_page [OF z(2,3)] e by auto
  qed
  then have m: "marked_flushed s a = marks (memory s) (live_objects s) a" by (auto simp: marked_flushed_def)
  have f: "a \<in> FromObject ` live_objects s \<longleftrightarrow> ObjectStart a \<in> live_objects s"
  proof
    assume "a \<in> FromObject ` live_objects s"
    then obtain q where "q \<in> live_objects s" "a = FromObject q" by blast
    then show "ObjectStart a \<in> live_objects s" using reachable_objects [OF ok] heap_object_iff by (metis subsetD)
  qed (metis FromObject_ObjectStart imageI)
  show ?thesis using h f by (simp add: m marks_def)
qed

subsection \<open>The state after a collection\<close>

definition kept :: "GcHeap \<Rightarrow> nat \<Rightarrow> bool" where
  "kept s a \<longleftrightarrow> ObjectStart a \<in> live_objects s"

definition swept_page :: "GcHeap \<Rightarrow> nat \<Rightarrow> headers \<Rightarrow> (nat \<times> nat) list \<Rightarrow> bool" where
  "swept_page s p K ys \<longleftrightarrow> tiles p ys (p + PayloadSize) \<and>
     (\<forall>(x, n) \<in> set ys. if kept s x then page_cell s x \<and> \<not> is_lab s x \<and> K x = memory s x \<and> map_option AllocatedSize (K x) = Some n
        else K x = Some (new_header n 0)) \<and>
     (\<forall>zs. page_tiling s p zs \<longrightarrow> (\<forall>z \<in> set zs. kept s (fst z) \<longrightarrow> z \<in> set ys))"

definition collected :: "GcHeap \<Rightarrow> GcHeap \<Rightarrow> bool" where
  "collected s s' \<longleftrightarrow>
     members s' = (\<lambda>p. if p \<in> live_objects s then map (clear_dead (live_objects s)) (members s p) else members s p) \<and>
     persistents_ok (strong_persistents s') \<and> persistents_ok (weak_persistents s') \<and>
     root_value (strong_persistents s') = root_value (strong_persistents s) \<and>
     root_value (weak_persistents s') = (\<lambda>w. map_option (\<lambda>p. if p \<in> live_objects s then p else 0) (root_value (weak_persistents s) w)) \<and>
     normal_pages s' = filter (\<lambda>p. \<exists>zs z. page_tiling s p zs \<and> z \<in> set zs \<and> kept s (fst z)) (normal_pages s) \<and>
     large_objects s' = filter (kept s) (large_objects s) \<and> lab_size s' = 0 \<and>
     (\<forall>p \<in> set (normal_pages s'). \<exists>ys. swept_page s p (memory s') ys) \<and>
     (\<forall>a \<in> set (large_objects s'). memory s' a = memory s a) \<and>
     free_list_ok (memory s') (free_list s') \<and>
     (\<forall>a \<in> list_blocks (free_list s'). \<exists>p \<in> set (normal_pages s'). \<exists>ys. swept_page s p (memory s') ys \<and> a \<in> fst ` set ys)"

lemma swept_pageI:
  assumes ok: "gc_heap_ok s" and p: "p \<in> set (normal_pages s)" "page_tiling s p zs" and sw: "page_swept (marked_flushed s) zs K p ys"
  shows "swept_page s p K ys"
proof -
  let ?F = "marked_flushed s"
  have t: "tiles p ys (p + PayloadSize)" and f: "filter (\<lambda>z. live ?F (fst z)) zs = filter (\<lambda>z. live ?F (fst z)) ys"
    and k: "\<forall>(x, n) \<in> set ys. K x = (if live ?F x then map_option Unmark (?F x) else Some (new_header n 0))"
    using sw by (simp_all add: page_swept_def)
  have pc: "page_cell s x" if "(x, n) \<in> set zs" for x n using that p by (auto simp: page_cell_def)
  note cell = marked_flushed_cell [OF ok pc]
  have sub: "(x, n) \<in> set zs" if "(x, n) \<in> set ys" "live ?F x" for x n
  proof -
    have "(x, n) \<in> set (filter (\<lambda>z. live ?F (fst z)) zs)" unfolding f using that by simp
    then show ?thesis by simp
  qed
  have a: "if kept s x then page_cell s x \<and> \<not> is_lab s x \<and> K x = memory s x \<and> map_option AllocatedSize (K x) = Some n else K x = Some (new_header n 0)"
    if y: "(x, n) \<in> set ys" for x n
  proof (cases "live ?F x")
    case True
    note z = sub [OF y True]
    have r: "ObjectStart x \<in> live_objects s" using cell(1) [OF z] True by simp
    have K: "K x = memory s x" using k y True cell(4) [OF z r] by auto
    have o: "object_header s x" using r reachable_objects [OF ok] by auto
    have "\<not> is_lab s x"
    proof
      assume "is_lab s x"
      then have "?F x = Some (new_header (lab_size s) 0)" by (simp add: marked_flushed_def is_lab_def)
      then show False using True by (simp add: live_def new_header_size)
    qed
    moreover have "cell_size s x = Some n" by (rule page_tiling_bounds(5) [OF p(2) z])
    ultimately show ?thesis using r K pc [OF z] by (simp add: kept_def cell_size_def)
  next
    case False
    then have K: "K x = Some (new_header n 0)" using k y by auto
    have "\<not> kept s x"
    proof
      assume kx: "kept s x"
      then have o: "object_header s x" using reachable_objects [OF ok] by (auto simp: kept_def)
      have l: "layout_ok s" using ok by (simp add: gc_heap_ok_def)
      have b: "p \<le> x" "x < p + kPageSize" using tiles_in [OF t y] by simp_all
      have "x \<notin> set (large_objects s)"
        using large_not_in_page [OF layout_okD(1) [OF l] p(1), of x] large_okD [OF layout_okD(2) [OF l], of x] b by fastforce
      then have c: "page_cell s x" using o by (simp add: object_header_def)
      then obtain m where m: "(x, m) \<in> set zs" using cell_of_page [OF layout_okD(1) [OF l] c p b] by blast
      then show False using cell(1) [OF m] kx False by (simp add: kept_def)
    qed
    then show ?thesis using K by simp
  qed
  have "z \<in> set ys" if "page_tiling s p us" "z \<in> set us" "kept s (fst z)" for us z
  proof -
    have "us = zs" using page_tiling_unique [OF that(1) p(2)] .
    then have "z \<in> set (filter (\<lambda>z. live ?F (fst z)) zs)" using that cell(1) [of "fst z" "snd z"] by (simp add: kept_def)
    then show ?thesis unfolding f by simp
  qed
  then show ?thesis unfolding swept_page_def using t a by (intro conjI) blast+
qed

lemma distinct_concat_map:
  assumes "distinct ps" "\<And>p. p \<in> set ps \<Longrightarrow> distinct (f p)" "\<And>p q. p \<in> set ps \<Longrightarrow> q \<in> set ps \<Longrightarrow> p \<noteq> q \<Longrightarrow> set (f p) \<inter> set (f q) = {}"
  shows "distinct (concat (map f ps))"
  using assms
proof (induction ps)
  case (Cons p ps)
  have "set (f p) \<inter> set (f q) = {}" if "q \<in> set ps" for q using Cons.prems(1,3) that by (intro Cons.prems(3)) auto
  then show ?case using Cons by auto
qed simp

text \<open>The objects finalized: the unreachable ones, each once.\<close>

lemma finalized_log:
  assumes ok: "gc_heap_ok s" and Z': "\<forall>p \<in> set (normal_pages s). page_tiling s p (Z p)"
    and log: "log = concat (map (\<lambda>p. map ObjectStart (filter (dead (marked_flushed s)) (map fst (Z p)))) (normal_pages s)) @
      map ObjectStart (filter (\<lambda>a. \<not> kept s a) (large_objects s))"
  shows "distinct log \<and> set log = heap_objects s - live_objects s"
proof -
  note Z = bspec [OF Z']
  have l: "layout_ok s" and ba: "gc_blocks_apart s" using ok by (simp_all add: gc_heap_ok_def layout_ok_def)
  let ?F = "marked_flushed s"
  let ?f = "\<lambda>p. map ObjectStart (filter (dead ?F) (map fst (Z p)))"
  have pc: "page_cell s x" if "p \<in> set (normal_pages s)" "x \<in> fst ` set (Z p)" for p x using that Z by (force simp: page_cell_def)
  have inp: "p \<le> x" "x < p + kPageSize" if p: "p \<in> set (normal_pages s)" and x: "x \<in> fst ` set (Z p)" for p x
  proof -
    obtain n where "(x, n) \<in> set (Z p)" using x by auto
    then show "p \<le> x" "x < p + kPageSize" using page_cell_in_page [OF Z [OF p]] by blast+
  qed
  have sf: "set (?f p) = ObjectStart ` {x \<in> fst ` set (Z p). dead ?F x}" for p by auto
  have nl: "x \<notin> set (large_objects s)" if p: "p \<in> set (normal_pages s)" and x: "x \<in> fst ` set (Z p)" for p x
  proof
    assume a: "x \<in> set (large_objects s)"
    have "0 < large_size s x" using large_okD [OF layout_okD(2) [OF l] a] by auto
    from large_not_in_page [OF ba p a this] show False using inp [OF p x] by simp
  qed
  have "distinct (concat (map ?f (normal_pages s)))"
  proof (rule distinct_concat_map)
    show "distinct (normal_pages s)" using ba by (simp add: gc_blocks_apart_def)
    show "distinct (?f p)" if "p \<in> set (normal_pages s)" for p
      using tiles_distinct [of p "Z p" "p + PayloadSize"] Z [OF that] by (simp add: page_tiling_def distinct_map inj_on_def)
    show "set (?f p) \<inter> set (?f q) = {}" if pq: "p \<in> set (normal_pages s)" "q \<in> set (normal_pages s)" "p \<noteq> q" for p q
    proof (rule equals0I)
      fix y assume "y \<in> set (?f p) \<inter> set (?f q)"
      then obtain x where x: "x \<in> fst ` set (Z p)" "x \<in> fst ` set (Z q)" unfolding sf by (metis (no_types, lifting) IntE ObjectStart_inj imageE mem_Collect_eq)
      from page_of [OF ba pq(1,2) inp [OF pq(1) x(1)] inp [OF pq(2) x(2)]] pq(3) show False by simp
    qed
  qed
  moreover have "distinct (map ObjectStart (filter (\<lambda>a. \<not> kept s a) (large_objects s)))"
    using ba by (simp add: gc_blocks_apart_def distinct_map inj_on_def)
  moreover have "set (concat (map ?f (normal_pages s))) \<inter> set (map ObjectStart (filter (\<lambda>a. \<not> kept s a) (large_objects s))) = {}"
    using nl by fastforce
  ultimately have d: "distinct log" by (simp only: log distinct_append)
  have "ObjectStart x \<in> set log \<longleftrightarrow> ObjectStart x \<in> heap_objects s - live_objects s" for x
  proof -
    have "ObjectStart x \<in> set log \<longleftrightarrow> (\<exists>p \<in> set (normal_pages s). x \<in> fst ` set (Z p) \<and> dead ?F x) \<or> x \<in> set (large_objects s) \<and> \<not> kept s x"
      unfolding log by (auto simp: image_iff)
    also have "\<dots> \<longleftrightarrow> (page_cell s x \<and> ObjectStart x \<in> heap_objects s - live_objects s) \<or> x \<in> set (large_objects s) \<and> \<not> kept s x"
    proof -
      have "(\<exists>p \<in> set (normal_pages s). x \<in> fst ` set (Z p) \<and> dead ?F x) \<longleftrightarrow> page_cell s x \<and> dead ?F x"
      proof
        assume c: "page_cell s x \<and> dead ?F x"
        then obtain p zs n where "p \<in> set (normal_pages s)" "page_tiling s p zs" "(x, n) \<in> set zs" by (auto elim: page_cellE)
        then show "\<exists>p \<in> set (normal_pages s). x \<in> fst ` set (Z p) \<and> dead ?F x" using c page_tiling_unique [OF Z] by force
      qed (use pc in blast)
      then show ?thesis using marked_flushed_cell(2) [OF ok, of x] by blast
    qed
    also have "\<dots> \<longleftrightarrow> ObjectStart x \<in> heap_objects s - live_objects s" by (auto simp: object_header_def kept_def)
    finally show ?thesis .
  qed
  note char = this
  have form: "\<exists>x. p = ObjectStart x" if mem: "p \<in> set log \<union> heap_objects s" for p
  proof -
    have "p \<in> set log \<Longrightarrow> p \<in> range ObjectStart" unfolding log by auto
    moreover have "p \<in> heap_objects s \<Longrightarrow> p \<in> range ObjectStart" unfolding heap_objects_def by blast
    ultimately show ?thesis using mem by blast
  qed
  have "set log = heap_objects s - live_objects s"
  proof (rule set_eqI)
    fix p
    show "p \<in> set log \<longleftrightarrow> p \<in> heap_objects s - live_objects s"
    proof (cases "\<exists>x. p = ObjectStart x")
      case True
      then show ?thesis using char by blast
    qed (use form in blast)
  qed
  then show ?thesis using d by simp
qed

subsection \<open>The collection\<close>

lemma Sweep_ok:
  assumes ok: "gc_heap_ok s" and m: "memory s1 = marks (memory s) (live_objects s)" "normal_pages s1 = normal_pages s" "free_list s1 = free_list s"
    "lab_start s1 = lab_start s" "lab_size s1 = lab_size s" "large_objects s1 = large_objects s"
    and Z': "\<forall>p \<in> set (normal_pages s). page_tiling s p (Z p)"
  shows "\<exists>s'. Sweep s1 = Some s' \<and> s' = s1\<lparr>memory := memory s', normal_pages := normal_pages s', free_list := free_list s', lab_start := 0,
      lab_size := 0, large_objects := large_objects s', finalized := finalized s'\<rparr> \<and>
    normal_pages s' = filter (\<lambda>p. has_live (marked_flushed s) (Z p)) (normal_pages s) \<and>
    large_objects s' = filter (kept s) (large_objects s) \<and>
    (\<forall>p \<in> set (normal_pages s'). \<exists>ys. page_swept (marked_flushed s) (Z p) (memory s') p ys) \<and>
    (\<forall>a \<in> set (large_objects s'). memory s' a = memory s a) \<and> free_list_ok (memory s') (free_list s') \<and>
    (\<forall>a \<in> list_blocks (free_list s'). \<exists>p \<in> set (normal_pages s'). \<exists>ys. page_swept (marked_flushed s) (Z p) (memory s') p ys \<and> a \<in> fst ` set ys) \<and>
    finalized s' = finalized s1 @ concat (map (\<lambda>p. map ObjectStart (filter (dead (marked_flushed s)) (map fst (Z p)))) (normal_pages s)) @
      map ObjectStart (filter (\<lambda>a. \<not> kept s a) (large_objects s))"
proof -
  note Z = bspec [OF Z']
  have l: "layout_ok s" and ba: "gc_blocks_apart s" using ok by (simp_all add: gc_heap_ok_def layout_ok_def)
  let ?F = "marked_flushed s"
  have F: "flushed s1 = ?F" by (simp add: flushed_def marked_flushed_def m)
  have f1: "free_list_ok (memory s1) (free_list s1)"
    using free_list_ok_cong [OF layout_okD(6) [OF l], of "memory s1"] marks_Some unfolding m by blast
  have lab: "8 dvd lab_size s1 \<and> lab_size s1 < kPageSize \<and> lab_start s1 \<notin> list_blocks (free_list s1)" if "0 < lab_size s1"
    using lab_bounds [OF l] that unfolding m by blast
  obtain fl where r: "ReplaceLinearAllocationBuffer 0 0 s1 = Some (s1\<lparr>memory := ?F, free_list := fl, lab_start := 0, lab_size := 0\<rparr>)"
    using ReplaceLAB_ok [OF f1 lab, of 0 0] unfolding F by blast
  let ?s3 = "s1\<lparr>memory := ?F, lab_start := 0, lab_size := 0, free_list := FreeList_Clear\<rparr>"
  have w: "\<forall>p \<in> set (normal_pages s). walkable (memory ?s3) p (Z p) \<and> 0 < p"
  proof
    fix p assume p: "p \<in> set (normal_pages s)"
    have "\<exists>h. ?F x = Some h \<and> AllocatedSize h = n" if x: "(x, n) \<in> set (Z p)" for x n
    proof -
      have "page_cell s x" using x p Z [OF p] by (auto simp: page_cell_def)
      then show ?thesis using marked_flushed_cell(3) [OF ok] page_tiling_bounds(5) [OF Z [OF p] x] by fastforce
    qed
    moreover have "0 < p" using ba p by (simp add: gc_blocks_apart_def)
    ultimately show "walkable (memory ?s3) p (Z p) \<and> 0 < p" using Z [OF p] by (auto simp: walkable_def page_tiling_def)
  qed
  have da: "distinct (normal_pages s)" "\<forall>p \<in> set (normal_pages s). \<forall>q \<in> set (normal_pages s). p \<noteq> q \<longrightarrow> no_overlap p kPageSize q kPageSize"
    using ba by (simp_all add: gc_blocks_apart_def)
  let ?pages = "filter (\<lambda>p. has_live ?F (Z p)) (normal_pages s)"
  obtain s4 where s4: "sweep_pages (normal_pages s) [] ?s3 = Some (?pages, s4)"
    "s4 = ?s3\<lparr>memory := memory s4, free_list := free_list s4,
      finalized := finalized s1 @ concat (map (\<lambda>p. map ObjectStart (filter (dead ?F) (map fst (Z p)))) (normal_pages s))\<rparr>"
    "\<forall>a. (\<forall>p \<in> set (normal_pages s). outside p a) \<longrightarrow> memory s4 a = ?F a" "free_list_ok (memory s4) (free_list s4)"
    "\<forall>p \<in> set (normal_pages s). has_live ?F (Z p) \<longrightarrow> (\<exists>ys. page_swept ?F (Z p) (memory s4) p ys)"
    "\<forall>a \<in> list_blocks (free_list s4). \<exists>p \<in> set (normal_pages s). has_live ?F (Z p) \<and> (\<exists>ys. page_swept ?F (Z p) (memory s4) p ys \<and> a \<in> fst ` set ys \<and> \<not> live ?F a)"
    using sweep_pages_ok [OF w da, of "[]"] by auto
  have lo: "\<forall>p \<in> set (normal_pages s). outside p a" "memory s4 a = ?F a" if a: "a \<in> set (large_objects s)" for a
  proof -
    have "0 < large_size s a" using large_okD [OF layout_okD(2) [OF l] a] by auto
    then show "\<forall>p \<in> set (normal_pages s). outside p a" using large_not_in_page [OF ba _ a] by (simp add: outside_def)
    then show "memory s4 a = ?F a" using s4(3) by blast
  qed
  have ls: "large_size s4 a = large_size s a" "0 < large_size s a" "IsMarked (the (memory s4 a)) \<longleftrightarrow> kept s a"
    "\<exists>h. memory s4 a = Some h \<and> 0 < AllocatedSize h" "kept s a \<Longrightarrow> map_option Unmark (memory s4 a) = memory s a" if a: "a \<in> set (large_objects s)" for a
  proof -
    obtain h where h: "memory s a = Some h" "?F a = Some (if kept s a then snd (TryMarkAtomic h) else h)" "\<not> IsMarked h"
      using marked_flushed_large [OF ok a] by (auto simp: kept_def)
    have h8: "8 \<le> AllocatedSize h" "large_size s a = AllocatedSize h" using large_okD [OF layout_okD(2) [OF l] a] h(1) by auto
    have m4: "memory s4 a = Some (if kept s a then snd (TryMarkAtomic h) else h)" using lo(2) [OF a] h(2) by simp
    show "large_size s4 a = large_size s a" "0 < large_size s a" "IsMarked (the (memory s4 a)) \<longleftrightarrow> kept s a"
      "\<exists>h. memory s4 a = Some h \<and> 0 < AllocatedSize h" "kept s a \<Longrightarrow> map_option Unmark (memory s4 a) = memory s a"
      using h(1,3) h8 m4 by (simp_all add: large_size_def Unmark_TryMark)
  qed
  have dl: "distinct (large_objects s)" "\<forall>a \<in> set (large_objects s). \<exists>h. memory s4 a = Some h \<and> 0 < AllocatedSize h"
    "\<forall>a \<in> set (large_objects s). \<forall>b \<in> set (large_objects s). a \<noteq> b \<longrightarrow> no_overlap a (large_size s4 a) b (large_size s4 b)"
    using ba ls(1,4) by (simp_all add: gc_blocks_apart_def)
  have fm: "filter (\<lambda>a. IsMarked (the (memory s4 a))) (large_objects s) = filter (kept s) (large_objects s)"
    "filter (\<lambda>a. \<not> IsMarked (the (memory s4 a))) (large_objects s) = filter (\<lambda>a. \<not> kept s a) (large_objects s)"
    by (rule filter_cong; simp add: ls(3))+
  obtain s5 where s5: "sweep_large (large_objects s) [] s4 = Some (filter (kept s) (large_objects s), s5)"
    "s5 = s4\<lparr>memory := memory s5, finalized := finalized s4 @ map ObjectStart (filter (\<lambda>a. \<not> kept s a) (large_objects s))\<rparr>"
    "\<forall>x. (\<forall>a \<in> set (large_objects s). no_overlap a (large_size s4 a) x 1) \<longrightarrow> memory s5 x = memory s4 x"
    "\<forall>a \<in> set (large_objects s). IsMarked (the (memory s4 a)) \<longrightarrow> memory s5 a = map_option Unmark (memory s4 a)"
    using sweep_large_ok [OF dl, of "[]"] unfolding fm append_Nil by blast
  have inside: "memory s5 x = memory s4 x" if p: "p \<in> set (normal_pages s)" and x: "\<not> outside p x" for p x
  proof -
    have "no_overlap a (large_size s4 a) x 1" if a: "a \<in> set (large_objects s)" for a
    proof -
      have "no_overlap p kPageSize a (large_size s a)" using ba p a by (simp add: gc_blocks_apart_def)
      then show ?thesis using x ls(1) [OF a] by (simp only: no_overlap_def outside_def) linarith
    qed
    then show ?thesis using s5(3) by blast
  qed
  have swp: "page_swept ?F (Z p) (memory s5) p ys" if "p \<in> set (normal_pages s)" "page_swept ?F (Z p) (memory s4) p ys" for p ys
    by (rule page_swept_cong [OF that(2)]) (use inside [OF that(1)] in blast)
  have fl5: "free_list s5 = free_list s4" by (subst s5(2)) simp
  have bl: "\<exists>p \<in> set ?pages. \<exists>ys. page_swept ?F (Z p) (memory s5) p ys \<and> a \<in> fst ` set ys" "memory s5 a = memory s4 a"
    if a: "a \<in> list_blocks (free_list s4)" for a
  proof -
    obtain p ys where p: "p \<in> set (normal_pages s)" "has_live ?F (Z p)" "page_swept ?F (Z p) (memory s4) p ys" "a \<in> fst ` set ys"
      using s4(6) a by blast
    then show "\<exists>p \<in> set ?pages. \<exists>ys. page_swept ?F (Z p) (memory s5) p ys \<and> a \<in> fst ` set ys" using swp [OF p(1,3)] by auto
    obtain n where n: "(a, n) \<in> set ys" using p(4) by auto
    have "tiles p ys (p + PayloadSize)" using p(3) by (simp add: page_swept_def)
    from tiles_in [OF this n] have "\<not> outside p a" by (simp add: outside_def)
    then show "memory s5 a = memory s4 a" by (rule inside [OF p(1)])
  qed
  have f5: "free_list_ok (memory s5) (free_list s5)" unfolding fl5 by (rule free_list_ok_cong [OF s4(4)]) (use bl(2) in auto)
  let ?s' = "s5\<lparr>normal_pages := ?pages, large_objects := filter (kept s) (large_objects s)\<rparr>"
  have lo4: "large_objects s4 = large_objects s" by (subst s4(2)) (simp add: m)
  have S: "Sweep s1 = Some ?s'" using r s4(1) s5(1) by (simp add: Sweep_def m lo4)
  have fin: "finalized s5 = finalized s1 @ concat (map (\<lambda>p. map ObjectStart (filter (dead ?F) (map fst (Z p)))) (normal_pages s)) @
      map ObjectStart (filter (\<lambda>a. \<not> kept s a) (large_objects s))"
    by (subst s5(2), subst s4(2)) simp
  have sh: "s5 = s1\<lparr>memory := memory s5, free_list := free_list s5, lab_start := 0, lab_size := 0, finalized := finalized s5\<rparr>"
    by (subst s5(2), subst s4(2)) (simp add: fl5 fin, subst s4(2), simp)
  have "?s' = s1\<lparr>memory := memory ?s', normal_pages := normal_pages ?s', free_list := free_list ?s', lab_start := 0,
      lab_size := 0, large_objects := large_objects ?s', finalized := finalized ?s'\<rparr>" by (subst sh) simp
  moreover have "\<forall>p \<in> set ?pages. \<exists>ys. page_swept ?F (Z p) (memory s5) p ys" using s4(5) swp unfolding set_filter by blast
  moreover have "\<forall>a \<in> set (filter (kept s) (large_objects s)). memory s5 a = memory s a" using s5(4) ls(3,5) by auto
  moreover have "\<forall>a \<in> list_blocks (free_list s5). \<exists>p \<in> set ?pages. \<exists>ys. page_swept ?F (Z p) (memory s5) p ys \<and> a \<in> fst ` set ys"
    unfolding fl5 using bl(1) by blast
  ultimately show ?thesis using S f5 fin by (intro exI [of _ ?s']) simp
qed

lemma Collect_collected:
  assumes ok: "gc_heap_ok s"
  shows "\<exists>s' log. CollectGarbage s = Some s' \<and> collected s s' \<and> finalized s' = finalized s @ log \<and> distinct log \<and>
    set log = heap_objects s - live_objects s"
proof -
  have l: "layout_ok s" using ok by (simp add: gc_heap_ok_def)
  obtain s1 where s1: "Mark s = Some s1" "memory s1 = marks (memory s) (live_objects s)"
    "members s1 = (\<lambda>p. if p \<in> live_objects s then map (clear_dead (live_objects s)) (members s p) else members s p)"
    "persistents_ok (strong_persistents s1)" "persistents_ok (weak_persistents s1)"
    "root_value (strong_persistents s1) = root_value (strong_persistents s)"
    "root_value (weak_persistents s1) = (\<lambda>w. map_option (\<lambda>p. if p \<in> live_objects s then p else 0) (root_value (weak_persistents s) w))"
    "normal_pages s1 = normal_pages s" "free_list s1 = free_list s" "lab_start s1 = lab_start s" "lab_size s1 = lab_size s"
    "large_objects s1 = large_objects s" "finalized s1 = finalized s"
    using Mark_ok [OF ok] by (elim exE conjE) (rule that)
  obtain Z where Z': "\<forall>p \<in> set (normal_pages s). page_tiling s p (Z p)" using bchoice [of "set (normal_pages s)" "page_tiling s"] layout_okD(3) [OF l] by blast
  note Z = bspec [OF Z']
  let ?F = "marked_flushed s"
  let ?log = "concat (map (\<lambda>p. map ObjectStart (filter (dead ?F) (map fst (Z p)))) (normal_pages s)) @
      map ObjectStart (filter (\<lambda>a. \<not> kept s a) (large_objects s))"
  obtain s' where s': "Sweep s1 = Some s'" "s' = s1\<lparr>memory := memory s', normal_pages := normal_pages s', free_list := free_list s', lab_start := 0,
      lab_size := 0, large_objects := large_objects s', finalized := finalized s'\<rparr>"
    "normal_pages s' = filter (\<lambda>p. has_live ?F (Z p)) (normal_pages s)" "large_objects s' = filter (kept s) (large_objects s)"
    "\<forall>p \<in> set (normal_pages s'). \<exists>ys. page_swept ?F (Z p) (memory s') p ys"
    "\<forall>a \<in> set (large_objects s'). memory s' a = memory s a" "free_list_ok (memory s') (free_list s')"
    "\<forall>a \<in> list_blocks (free_list s'). \<exists>p \<in> set (normal_pages s'). \<exists>ys. page_swept ?F (Z p) (memory s') p ys \<and> a \<in> fst ` set ys"
    "finalized s' = finalized s1 @ ?log"
    using Sweep_ok [OF ok s1(2,8-12) Z'] by (elim exE conjE) (rule that)
  have hl: "has_live ?F (Z p) \<longleftrightarrow> (\<exists>zs z. page_tiling s p zs \<and> z \<in> set zs \<and> kept s (fst z))" if p: "p \<in> set (normal_pages s)" for p
  proof -
    have "live ?F (fst z) \<longleftrightarrow> kept s (fst z)" if z: "z \<in> set (Z p)" for z
    proof -
      have "page_cell s (fst z)" unfolding page_cell_def using p Z [OF p] z by (metis prod.collapse)
      then show ?thesis using marked_flushed_cell(1) [OF ok] by (simp add: kept_def)
    qed
    then show ?thesis unfolding has_live_def using Z [OF p] page_tiling_unique [OF Z [OF p]] by metis
  qed
  have np: "normal_pages s' = filter (\<lambda>p. \<exists>zs z. page_tiling s p zs \<and> z \<in> set zs \<and> kept s (fst z)) (normal_pages s)"
    unfolding s'(3) by (rule filter_cong) (simp_all only: hl)
  have ps: "p \<in> set (normal_pages s') \<Longrightarrow> p \<in> set (normal_pages s)" for p unfolding s'(3) by simp
  have sw: "swept_page s p (memory s') ys" if "p \<in> set (normal_pages s')" "page_swept ?F (Z p) (memory s') p ys" for p ys
    by (rule swept_pageI [OF ok ps [OF that(1)] Z [OF ps [OF that(1)]] that(2)])
  have eq: "members s' = members s1" "strong_persistents s' = strong_persistents s1" "weak_persistents s' = weak_persistents s1" "lab_size s' = 0"
    by (subst s'(2), simp)+
  have "collected s s'"
    unfolding collected_def eq
  proof (intro conjI)
    show "\<forall>p \<in> set (normal_pages s'). \<exists>ys. swept_page s p (memory s') ys" using s'(5) sw by blast
    show "\<forall>a \<in> list_blocks (free_list s'). \<exists>p \<in> set (normal_pages s'). \<exists>ys. swept_page s p (memory s') ys \<and> a \<in> fst ` set ys"
      using s'(8) sw by blast
  qed (use s1(3-7) np s'(4,6,7) in simp_all)
  moreover have "CollectGarbage s = Some s'" using s1(1) s'(1) by (simp add: CollectGarbage_def)
  ultimately show ?thesis using s'(9) s1(13) finalized_log [OF ok Z' refl] by (intro exI [of _ s'] exI [of _ ?log]) simp
qed

lemma swept_page_cell:
  assumes "swept_page s p K ys" "(x, n) \<in> set ys"
  shows "if kept s x then page_cell s x \<and> \<not> is_lab s x \<and> K x = memory s x \<and> map_option AllocatedSize (K x) = Some n
    else K x = Some (new_header n 0)"
  using assms unfolding swept_page_def by blast

lemma swept_tiling:
  assumes "swept_page s p (memory s') ys" "lab_size s' = 0"
  shows "page_tiling s' p ys"
proof -
  have t: "tiles p ys (p + PayloadSize)" using assms(1) by (simp add: swept_page_def)
  have "cell_size s' x = Some n" if y: "(x, n) \<in> set ys" for x n
  proof (cases "kept s x")
    case True
    then have "map_option AllocatedSize (memory s' x) = Some n" using swept_page_cell [OF assms(1) y] unfolding if_P [OF True] by blast
    then show ?thesis using assms(2) by (simp add: cell_size_def is_lab_def)
  next
    case False
    then have m: "memory s' x = Some (new_header n 0)" using swept_page_cell [OF assms(1) y] by simp
    have "n < kPageSize" using tiles_in [OF t y] by simp
    from new_header_size(1) [OF tiles_in(4) [OF t y] this] show ?thesis using m assms(2) by (simp add: cell_size_def is_lab_def)
  qed
  then show ?thesis using t by (auto simp: page_tiling_def)
qed

lemma collected_cells:
  assumes c: "collected s s'" and p: "p \<in> set (normal_pages s')"
  obtains ys where "swept_page s p (memory s') ys" "page_tiling s' p ys"
proof -
  obtain ys where "swept_page s p (memory s') ys" using c p unfolding collected_def by blast
  moreover have "lab_size s' = 0" using c by (simp add: collected_def)
  ultimately show ?thesis using swept_tiling that by blast
qed

lemma collected_cell:
  assumes c: "collected s s'" and x: "page_cell s' x"
  shows "if kept s x then page_cell s x \<and> \<not> is_lab s x \<and> memory s' x = memory s x else (\<exists>n. memory s' x = Some (new_header n 0))"
proof -
  obtain p zs n where z: "p \<in> set (normal_pages s')" "page_tiling s' p zs" "(x, n) \<in> set zs" using x by (rule page_cellE)
  obtain ys where ys: "swept_page s p (memory s') ys" "page_tiling s' p ys" using collected_cells [OF c z(1)] .
  have "(x, n) \<in> set ys" using page_tiling_unique [OF z(2) ys(2)] z(3) by simp
  from swept_page_cell [OF ys(1) this] show ?thesis by (cases "kept s x") auto
qed

lemma collected_objects:
  assumes ok: "gc_heap_ok s" and c: "collected s s'"
  shows "heap_objects s' = live_objects s"
proof -
  have lab: "\<not> is_lab s' x" for x using c by (simp add: collected_def is_lab_def)
  have lg: "large_objects s' = filter (kept s) (large_objects s)" using c by (simp add: collected_def)
  have "object_header s' x \<longleftrightarrow> kept s x" for x
  proof
    assume o: "object_header s' x"
    show "kept s x"
    proof (cases "x \<in> set (large_objects s')")
      case False
      then have p: "page_cell s' x" "\<exists>h. memory s' x = Some h \<and> \<not> IsFree h" using o by (simp_all add: object_header_def)
      show ?thesis using collected_cell [OF c p(1)] p(2) new_header_size(2) by (auto split: if_splits)
    qed (simp add: lg)
  next
    assume k: "kept s x"
    then have o: "object_header s x" using reachable_objects [OF ok] by (auto simp: kept_def)
    show "object_header s' x"
    proof (cases "x \<in> set (large_objects s)")
      case True
      then show ?thesis using k by (simp add: object_header_def lg)
    next
      case False
      then have p: "page_cell s x" "\<exists>h. memory s x = Some h \<and> \<not> IsFree h" using o by (simp_all add: object_header_def)
      obtain p zs n where z: "p \<in> set (normal_pages s)" "page_tiling s p zs" "(x, n) \<in> set zs" using p(1) by (rule page_cellE)
      have "\<exists>zs z. page_tiling s p zs \<and> z \<in> set zs \<and> kept s (fst z)" using z k by force
      then have ps: "p \<in> set (normal_pages s')" using c z(1) unfolding collected_def by simp
      obtain ys where ys: "swept_page s p (memory s') ys" "page_tiling s' p ys" using collected_cells [OF c ps] .
      have "(x, n) \<in> set ys" using ys(1) z(2,3) k unfolding swept_page_def by fastforce
      then have "page_cell s' x" using ps ys(2) unfolding page_cell_def by blast
      moreover from collected_cell [OF c this] have "memory s' x = memory s x" using k by simp
      ultimately show ?thesis using p(2) lab by (simp add: object_header_def)
    qed
  qed
  then have "heap_objects s' = ObjectStart ` {a. kept s a}" by (simp add: heap_objects_def)
  also have "\<dots> = live_objects s"
  proof -
    have "p \<in> ObjectStart ` {a. kept s a}" if "p \<in> live_objects s" for p
    proof -
      have "p \<in> heap_objects s" using reachable_objects [OF ok] that by blast
      then obtain a where "p = ObjectStart a" unfolding heap_objects_def by blast
      then show ?thesis using that by (simp add: kept_def image_iff)
    qed
    then show ?thesis by (auto simp: kept_def)
  qed
  finally show ?thesis .
qed

lemma collected_layout:
  assumes ok: "gc_heap_ok s" and c: "collected s s'"
  shows "layout_ok s'"
proof -
  have l: "layout_ok s" and ba: "gc_blocks_apart s" using ok by (simp_all add: gc_heap_ok_def layout_ok_def)
  have lab: "\<not> is_lab s' x" "lab_size s' = 0" for x using c by (simp_all add: collected_def is_lab_def)
  have lg: "set (large_objects s') \<subseteq> set (large_objects s)" "distinct (large_objects s')" "\<And>a. a \<in> set (large_objects s') \<Longrightarrow> memory s' a = memory s a"
    and pg: "set (normal_pages s') \<subseteq> set (normal_pages s)" "distinct (normal_pages s')"
    using c ba by (auto simp: collected_def gc_blocks_apart_def)
  have ls: "large_size s' a = large_size s a" if "a \<in> set (large_objects s')" for a using lg(3) [OF that] by (simp add: large_size_def)
  have "gc_blocks_apart s'" using ba lg(1) pg(1) ls by (simp add: gc_blocks_apart_def pg(2) lg(2) subset_iff)
  moreover have "large_ok s'" using layout_okD(2) [OF l] lg(1,3) by (auto simp: large_ok_def)
  moreover have "\<exists>zs. page_tiling s' p zs" if "p \<in> set (normal_pages s')" for p using collected_cells [OF c that] by blast
  moreover have "\<not> IsMarked (the (memory s' a))" if "page_cell s' a" for a
    using collected_cell [OF c that] layout_okD(5) [OF l] new_header_size(3) by (auto split: if_splits)
  moreover have "free_list_ok (memory s') (free_list s')" using c by (simp add: collected_def)
  moreover have "page_cell s' a" if fb: "a \<in> list_blocks (free_list s')" for a
  proof -
    obtain p ys where p: "p \<in> set (normal_pages s')" "swept_page s p (memory s') ys" "a \<in> fst ` set ys" using c fb unfolding collected_def by blast
    then obtain n where "(a, n) \<in> set ys" by auto
    then show ?thesis using swept_tiling [OF p(2) lab(2)] p(1) unfolding page_cell_def by blast
  qed
  ultimately show ?thesis using lab unfolding layout_ok_def by simp
qed

lemma collected_ok:
  assumes ok: "gc_heap_ok s" and c: "collected s s'"
  shows "gc_heap_ok s'"
proof -
  note ob = collected_objects [OF ok c]
  have p: "pointers_ok s" using ok by (simp add: gc_heap_ok_def)
  have "pointer_of m \<in> insert 0 (live_objects s)" if r: "r \<in> live_objects s" and m: "m \<in> set (members s' r)" for r m
  proof -
    have "members s' r = map (clear_dead (live_objects s)) (members s r)" using c r by (simp add: collected_def)
    then obtain m0 where m0: "m = clear_dead (live_objects s) m0" "m0 \<in> set (members s r)" using m by auto
    show ?thesis
    proof (cases m0)
      case (StrongMember q)
      then show ?thesis using m0 r reaches.member [of "members s" "strong_roots s" r q] by (auto simp: live_objects_def)
    qed (use m0 in simp)
  qed
  moreover have "q \<in> insert 0 (live_objects s)" if "root_value (strong_persistents s') w = Some q" for w q
    using that c by (auto simp: collected_def live_objects_def strong_roots_def ran_def intro!: reaches.root)
  moreover have "q \<in> insert 0 (live_objects s)" if "root_value (weak_persistents s') w = Some q" for w q
    using that c by (auto simp: collected_def split: if_splits)
  ultimately have "pointers_ok s'" unfolding pointers_ok_def ob by blast
  then show ?thesis using collected_layout [OF ok c] c by (simp add: gc_heap_ok_def collected_def)
qed

text \<open>A header and the members of an object that stays are as they were, but for cleared weak members.\<close>

lemma collected_keeps:
  assumes ok: "gc_heap_ok s" and c: "collected s s'" and p: "p \<in> live_objects s"
  shows "memory s' (FromObject p) = memory s (FromObject p)" "members s' p = map (clear_dead (live_objects s)) (members s p)"
proof -
  show "members s' p = map (clear_dead (live_objects s)) (members s p)" using c p by (simp add: collected_def)
  have "p \<in> heap_objects s'" using collected_objects [OF ok c] p by simp
  then obtain a where a: "p = ObjectStart a" "object_header s' a" unfolding heap_objects_def by blast
  then have k: "kept s a" using p by (simp add: kept_def)
  have "memory s' a = memory s a"
  proof (cases "a \<in> set (large_objects s')")
    case True
    then show ?thesis using c by (simp add: collected_def)
  next
    case False
    then have "page_cell s' a" using a(2) by (simp add: object_header_def)
    then show ?thesis using collected_cell [OF c] k by auto
  qed
  then show "memory s' (FromObject p) = memory s (FromObject p)" using a(1) by simp
qed

end
