(* ===== verification/Gc_Allocation.thy ===== *)
theory Gc_Allocation
  imports Gc_Collection
begin

text \<open>
  Allocation keeps the invariant of the heap: the new object lies in a block of its own, and the others
  stay as they were, except that a collection may run first when no page can be had.
\<close>

subsection \<open>Moves of the allocation buffer\<close>

definition same_objects :: "GcHeap \<Rightarrow> GcHeap \<Rightarrow> bool" where
  "same_objects s s' \<longleftrightarrow> heap_objects s' = heap_objects s \<and> (\<forall>a. object_header s a \<longrightarrow> memory s' a = memory s a) \<and>
     members s' = members s \<and> strong_persistents s' = strong_persistents s \<and> weak_persistents s' = weak_persistents s \<and>
     finalized s' = finalized s \<and> large_objects s' = large_objects s"

definition fresh_block :: "GcHeap \<Rightarrow> nat \<Rightarrow> nat \<Rightarrow> bool" where
  "fresh_block s a n \<longleftrightarrow> 0 < a \<and> 8 dvd a \<and> (\<forall>p \<in> set (normal_pages s). no_overlap p kPageSize a n) \<and>
     (\<forall>b \<in> set (large_objects s). no_overlap b (large_size s b) a n)"

lemma same_objects_ok:
  assumes "gc_heap_ok s" "same_objects s s'" "layout_ok s'"
  shows "gc_heap_ok s'"
  using assms by (simp add: gc_heap_ok_def same_objects_def pointers_ok_def)

lemma page_tiling_cong:
  assumes "page_tiling s p zs" "\<And>x n. (x, n) \<in> set zs \<Longrightarrow> cell_size s' x = cell_size s x"
  shows "page_tiling s' p zs"
  using assms unfolding page_tiling_def by fastforce

lemma page_cell_cong:
  assumes l: "layout_ok s" and same: "\<And>x. page_cell s x \<Longrightarrow> cell_size s' x = cell_size s x" and p: "normal_pages s' = normal_pages s"
  shows "q \<in> set (normal_pages s) \<Longrightarrow> page_tiling s' q zs \<longleftrightarrow> page_tiling s q zs" "page_cell s' a \<longleftrightarrow> page_cell s a"
proof -
  have t: "page_tiling s' q zs \<longleftrightarrow> page_tiling s q zs" if q: "q \<in> set (normal_pages s)" for q zs
  proof -
    obtain us where us: "page_tiling s q us" using layout_okD(3) [OF l q] by blast
    have "page_tiling s' q us" by (rule page_tiling_cong [OF us]) (use q us same in \<open>auto simp: page_cell_def\<close>)
    then show ?thesis using us page_tiling_unique by metis
  qed
  then show "q \<in> set (normal_pages s) \<Longrightarrow> page_tiling s' q zs \<longleftrightarrow> page_tiling s q zs" .
  show "page_cell s' a \<longleftrightarrow> page_cell s a" unfolding page_cell_def p using t by blast
qed

lemma flushed_at:
  "flushed s x = (if is_lab s x then Some (new_header (lab_size s) 0) else memory s x)"
  by (simp add: flushed_def is_lab_def)

lemma flushed_size:
  assumes "layout_ok s"
  shows "map_option AllocatedSize (flushed s x) = cell_size s x"
  using lab_bounds [OF assms] new_header_size(1) [of "lab_size s"] by (simp add: flushed_at cell_size_def is_lab_def)

lemma lab_not_large:
  assumes "layout_ok s" "is_lab s x"
  shows "x \<notin> set (large_objects s)"
proof
  assume a: "x \<in> set (large_objects s)"
  have lab: "0 < lab_size s" "x = lab_start s" using assms(2) by (simp_all add: is_lab_def)
  obtain p zs where z: "p \<in> set (normal_pages s)" "page_tiling s p zs" "(x, lab_size s) \<in> set zs" using lab_bounds(4) [OF assms(1) lab(1)] lab(2) by blast
  have "0 < large_size s x" using large_okD [OF layout_okD(2) [OF assms(1)] a] by auto
  from large_not_in_page [OF layout_okD(1) [OF assms(1)] z(1) a this] show False using page_cell_in_page [OF z(2,3)] by auto
qed

lemma flushed_object:
  assumes "layout_ok s" "object_header s a"
  shows "flushed s a = memory s a"
  using assms lab_not_large by (auto simp: flushed_at object_header_def)

lemma blocks_apart_same:
  assumes "gc_blocks_apart s" "normal_pages s' = normal_pages s" "large_objects s' = large_objects s"
    "\<And>a. a \<in> set (large_objects s) \<Longrightarrow> memory s' a = memory s a"
  shows "gc_blocks_apart s'"
  using assms unfolding gc_blocks_apart_def by (simp add: large_size_def)

lemma no_overlap_sym: "no_overlap a n b k \<Longrightarrow> no_overlap b k a n"
  by (auto simp: no_overlap_def)

lemma blocks_apart_page:
  assumes ba: "gc_blocks_apart s" and p: "fresh_block s p kPageSize" and s': "normal_pages s' = normal_pages s @ [p]" "large_objects s' = large_objects s"
    "\<And>a. a \<in> set (large_objects s) \<Longrightarrow> memory s' a = memory s a"
  shows "gc_blocks_apart s'"
proof -
  have n: "p \<notin> set (normal_pages s)" using p by (auto simp: fresh_block_def no_overlap_def)
  have ls: "large_size s' a = large_size s a" if "a \<in> set (large_objects s)" for a using s'(3) [OF that] by (simp add: large_size_def)
  have pp: "0 < p" "8 dvd p" "\<And>q. q \<in> set (normal_pages s) \<Longrightarrow> no_overlap p kPageSize q kPageSize \<and> no_overlap q kPageSize p kPageSize"
    "\<And>a. a \<in> set (large_objects s) \<Longrightarrow> no_overlap p kPageSize a (large_size s a)"
    using p no_overlap_sym unfolding fresh_block_def by blast+
  show ?thesis using ba n pp ls unfolding gc_blocks_apart_def s'(1,2) by (simp add: ball_Un)
qed

lemma blocks_apart_large:
  assumes ba: "gc_blocks_apart s" and b: "fresh_block s b n" "0 < n" and s': "normal_pages s' = normal_pages s" "large_objects s' = large_objects s @ [b]"
    "\<And>a. a \<in> set (large_objects s) \<Longrightarrow> memory s' a = memory s a" "large_size s' b = n" "\<And>a. a \<in> set (large_objects s) \<Longrightarrow> 0 < large_size s a"
  shows "gc_blocks_apart s'"
proof -
  have nb: "b \<notin> set (large_objects s)" using b s'(5) by (fastforce simp: fresh_block_def no_overlap_def)
  have ls: "large_size s' a = large_size s a" if "a \<in> set (large_objects s)" for a using s'(3) [OF that] by (simp add: large_size_def)
  have bb: "0 < b" "8 dvd b" "\<And>q. q \<in> set (normal_pages s) \<Longrightarrow> no_overlap q kPageSize b n"
    "\<And>a. a \<in> set (large_objects s) \<Longrightarrow> no_overlap b n a (large_size s a) \<and> no_overlap a (large_size s a) b n"
    using b(1) no_overlap_sym unfolding fresh_block_def by blast+
  show ?thesis using ba nb bb ls unfolding gc_blocks_apart_def s'(1,2) by (simp add: ball_Un s'(4))
qed

text \<open>The buffer moves to a block of the free list.\<close>

lemma refill_from_list:
  assumes l: "layout_ok s" and e: "e \<in> list_blocks (free_list s)" "memory s e = Some h" and fl: "free_list_ok (memory s) fl" "list_blocks fl = list_blocks (free_list s) - {e}"
  shows "\<exists>s'. ReplaceLinearAllocationBuffer e (AllocatedSize h) (s\<lparr>free_list := fl\<rparr>) = Some s' \<and> layout_ok s' \<and> same_objects s s' \<and>
    lab_size s' = AllocatedSize h \<and> normal_pages s' = normal_pages s"
proof -
  let ?s1 = "s\<lparr>free_list := fl\<rparr>" and ?k = "AllocatedSize h"
  have e': "page_cell s e" "\<not> is_lab s e" using layout_okD(7) [OF l e(1)] by simp_all
  have k: "0 < ?k" "cell_size s e = Some ?k" using page_cell_header [OF e'] e(2) by auto
  have hf: "IsFree h" using list_block_header [OF layout_okD(6) [OF l] e(1)] e(2) by auto
  have F: "flushed ?s1 = flushed s" by (simp add: flushed_def)
  have lab: "8 dvd lab_size ?s1 \<and> lab_size ?s1 < kPageSize \<and> lab_start ?s1 \<notin> list_blocks (free_list ?s1)" if "0 < lab_size ?s1"
    using lab_bounds [OF l] that fl(2) by auto
  have f1: "free_list_ok (memory ?s1) (free_list ?s1)" using fl(1) by simp
  obtain fl2 where r: "ReplaceLinearAllocationBuffer e ?k ?s1 = Some (?s1\<lparr>memory := flushed s, free_list := fl2, lab_start := e, lab_size := ?k\<rparr>)"
    "free_list_ok (flushed s) fl2" "list_blocks fl2 \<subseteq> list_blocks fl \<union> {x. is_lab s x}"
    using ReplaceLAB_ok [OF f1 lab, of e ?k] unfolding F by (auto simp: is_lab_def)
  define s' where "s' = ?s1\<lparr>memory := flushed s, free_list := fl2, lab_start := e, lab_size := ?k\<rparr>"
  have fields [simp]: "memory s' = flushed s" "free_list s' = fl2" "lab_start s' = e" "lab_size s' = ?k" "normal_pages s' = normal_pages s"
    "large_objects s' = large_objects s" "members s' = members s" "strong_persistents s' = strong_persistents s"
    "weak_persistents s' = weak_persistents s" "finalized s' = finalized s" by (simp_all add: s'_def)
  have il: "is_lab s' x \<longleftrightarrow> x = e" for x using k(1) by (simp add: is_lab_def)
  have c0: "cell_size s' x = (if x = e then Some ?k else map_option AllocatedSize (flushed s x))" for x
    using k(1) by (simp add: cell_size_def is_lab_def)
  have cs: "cell_size s' x = cell_size s x" for x unfolding c0 using flushed_size [OF l, of x] k(2) by simp
  have np: "normal_pages s' = normal_pages s" by simp
  note pc = page_cell_cong [OF l cs np]
  have ne: "e \<notin> set (large_objects s)"
  proof
    assume a: "e \<in> set (large_objects s)"
    then show False using large_okD [OF layout_okD(2) [OF l] a] e(2) hf by auto
  qed
  have oh: "object_header s' x \<longleftrightarrow> object_header s x" for x
    using ne hf e(2) e'(2) lab_not_large [OF l, of x] by (auto simp: object_header_def pc(2) il flushed_at new_header_size)
  have lm: "flushed s a = memory s a" if "a \<in> set (large_objects s)" for a
    by (rule flushed_object [OF l]) (simp add: object_header_def that)
  have "layout_ok s'"
    unfolding layout_ok_def
  proof (intro conjI)
    show "gc_blocks_apart s'" by (rule blocks_apart_same [OF layout_okD(1) [OF l]]) (simp_all add: lm)
    show "large_ok s'" using layout_okD(2) [OF l] lm by (simp add: large_ok_def)
    show "\<forall>p \<in> set (normal_pages s'). \<exists>zs. page_tiling s' p zs" using layout_okD(3) [OF l] pc(1) by auto
    show "0 < lab_size s' \<longrightarrow> page_cell s' (lab_start s')" unfolding pc(2) using e'(1) by simp
    show "\<forall>a. page_cell s' a \<longrightarrow> \<not> is_lab s' a \<longrightarrow> \<not> IsMarked (the (memory s' a))"
      unfolding pc(2) using layout_okD(5) [OF l] by (auto simp: flushed_at new_header_size)
    show "free_list_ok (memory s') (free_list s')" using r(2) by simp
    show "\<forall>a \<in> list_blocks (free_list s'). page_cell s' a \<and> \<not> is_lab s' a"
    proof
      fix a assume "a \<in> list_blocks (free_list s')"
      then have "a \<in> list_blocks (free_list s) - {e} \<or> is_lab s a" using r(3) fl(2) by auto
      then show "page_cell s' a \<and> \<not> is_lab s' a" unfolding pc(2) il
        using layout_okD(7) [OF l] layout_okD(4) [OF l] e'(2) by (auto simp: is_lab_def)
    qed
  qed
  moreover have "same_objects s s'" using oh flushed_object [OF l] by (simp add: same_objects_def heap_objects_def)
  ultimately show ?thesis using r(1) fields(4,5) unfolding s'_def by blast
qed

text \<open>The buffer moves to a new page.\<close>

lemma refill_from_page:
  assumes l: "layout_ok s" and p: "fresh_block s p kPageSize" and fl: "free_list_ok (memory s) fl" "list_blocks fl = list_blocks (free_list s)"
  shows "\<exists>s'. ReplaceLinearAllocationBuffer p PayloadSize (s\<lparr>free_list := fl, normal_pages := normal_pages s @ [p]\<rparr>) = Some s' \<and>
    layout_ok s' \<and> same_objects s s' \<and> lab_size s' = PayloadSize \<and> normal_pages s' = normal_pages s @ [p]"
proof -
  let ?s1 = "s\<lparr>free_list := fl, normal_pages := normal_pages s @ [p]\<rparr>"
  have F: "flushed ?s1 = flushed s" by (simp add: flushed_def)
  have lab: "8 dvd lab_size ?s1 \<and> lab_size ?s1 < kPageSize \<and> lab_start ?s1 \<notin> list_blocks (free_list ?s1)" if "0 < lab_size ?s1"
    using lab_bounds [OF l] that fl(2) by auto
  have f1: "free_list_ok (memory ?s1) (free_list ?s1)" using fl(1) by simp
  obtain fl2 where r: "ReplaceLinearAllocationBuffer p PayloadSize ?s1 = Some (?s1\<lparr>memory := flushed s, free_list := fl2, lab_start := p, lab_size := PayloadSize\<rparr>)"
    "free_list_ok (flushed s) fl2" "list_blocks fl2 \<subseteq> list_blocks fl \<union> {x. is_lab s x}"
    using ReplaceLAB_ok [OF f1 lab, of p PayloadSize] unfolding F by (auto simp: is_lab_def)
  define s' where "s' = ?s1\<lparr>memory := flushed s, free_list := fl2, lab_start := p, lab_size := PayloadSize\<rparr>"
  have fields [simp]: "memory s' = flushed s" "free_list s' = fl2" "lab_start s' = p" "lab_size s' = PayloadSize" "normal_pages s' = normal_pages s @ [p]"
    "large_objects s' = large_objects s" "members s' = members s" "strong_persistents s' = strong_persistents s"
    "weak_persistents s' = weak_persistents s" "finalized s' = finalized s" by (simp_all add: s'_def)
  have il: "is_lab s' x \<longleftrightarrow> x = p" for x by (simp add: is_lab_def)
  have pnew: "p \<noteq> x" if x: "page_cell s x" for x
  proof -
    obtain q zs n where q: "q \<in> set (normal_pages s)" "page_tiling s q zs" "(x, n) \<in> set zs" using x by (rule page_cellE)
    have "no_overlap q kPageSize p kPageSize" using p q(1) by (simp add: fresh_block_def)
    then show ?thesis using page_cell_in_page [OF q(2,3)] by (auto simp: no_overlap_def)
  qed
  have c0: "cell_size s' x = (if x = p then Some PayloadSize else map_option AllocatedSize (flushed s x))" for x
    by (simp add: cell_size_def is_lab_def)
  have cs: "cell_size s' x = cell_size s x" if "page_cell s x" for x
    unfolding c0 using flushed_size [OF l, of x] pnew [OF that] by simp
  have csp: "cell_size s' p = Some PayloadSize" by (simp add: cell_size_def is_lab_def)
  have pt: "page_tiling s' q zs" if "q \<in> set (normal_pages s)" "page_tiling s q zs" for q zs
    by (rule page_tiling_cong [OF that(2)]) (use that cs in \<open>auto simp: page_cell_def\<close>)
  have ptp: "page_tiling s' p [(p, PayloadSize)]" using csp by (simp add: page_tiling_def)
  have pc: "page_cell s' a \<longleftrightarrow> page_cell s a \<or> a = p" for a
  proof
    assume "page_cell s' a"
    then obtain q zs n where q: "q \<in> set (normal_pages s')" "page_tiling s' q zs" "(a, n) \<in> set zs" by (rule page_cellE)
    show "page_cell s a \<or> a = p"
    proof (cases "q \<in> set (normal_pages s)")
      case True
      then obtain us where us: "page_tiling s q us" using layout_okD(3) [OF l] by blast
      then have "us = zs" using page_tiling_unique [OF pt [OF True us] q(2)] by simp
      then show ?thesis using True us q(3) by (auto simp: page_cell_def)
    next
      case False
      then have "q = p" using q(1) by simp
      then show ?thesis using page_tiling_unique [OF ptp] q(2,3) by fastforce
    qed
  next
    assume "page_cell s a \<or> a = p"
    then show "page_cell s' a"
    proof
      assume "page_cell s a"
      then obtain q zs n where "q \<in> set (normal_pages s)" "page_tiling s q zs" "(a, n) \<in> set zs" by (rule page_cellE)
      then show ?thesis using pt unfolding page_cell_def by fastforce
    next
      assume "a = p"
      then show ?thesis using ptp unfolding page_cell_def by fastforce
    qed
  qed
  have lm: "flushed s a = memory s a" if "a \<in> set (large_objects s)" for a
    by (rule flushed_object [OF l]) (simp add: object_header_def that)
  have pl: "p \<notin> set (large_objects s)"
  proof
    assume a: "p \<in> set (large_objects s)"
    then have "0 < large_size s p" "no_overlap p (large_size s p) p kPageSize" using large_okD [OF layout_okD(2) [OF l] a] p by (auto simp: fresh_block_def)
    then show False by (simp add: no_overlap_def)
  qed
  have oh: "object_header s' x \<longleftrightarrow> object_header s x" for x
    using pl pnew lab_not_large [OF l, of x] by (auto simp: object_header_def pc il flushed_at new_header_size)
  have ba: "gc_blocks_apart s" by (rule layout_okD(1) [OF l])
  have "gc_blocks_apart s'" by (rule blocks_apart_page [OF ba p fields(5,6)]) (simp add: lm)
  moreover have "large_ok s'" using layout_okD(2) [OF l] lm by (simp add: large_ok_def)
  moreover have "\<exists>zs. page_tiling s' q zs" if "q \<in> set (normal_pages s')" for q
    using that layout_okD(3) [OF l] pt ptp by (auto, blast)
  moreover have "\<not> IsMarked (the (memory s' a))" if "page_cell s' a" "\<not> is_lab s' a" for a
    using that layout_okD(5) [OF l] by (auto simp: pc il flushed_at new_header_size)
  moreover have "page_cell s' a \<and> \<not> is_lab s' a" if fb: "a \<in> list_blocks (free_list s')" for a
  proof -
    have "a \<in> list_blocks (free_list s) \<or> is_lab s a" using r(3) fl(2) fb by auto
    then have a: "page_cell s a"
    proof
      assume "is_lab s a"
      then show ?thesis using layout_okD(4) [OF l] by (simp add: is_lab_def)
    qed (use layout_okD(7) [OF l] in blast)
    then show ?thesis using pc [of a] il [of a] pnew [OF a] by simp
  qed
  ultimately have "layout_ok s'" using r(2) pc unfolding layout_ok_def by simp
  moreover have "same_objects s s'" using oh flushed_object [OF l] by (simp add: same_objects_def heap_objects_def)
  ultimately show ?thesis using r(1) fields(4,5) unfolding s'_def by blast
qed

lemma RefillLAB_ok:
  assumes l: "layout_ok s" and n: "2 \<le> n" "n \<le> PayloadSize" and new: "\<forall>p. page = Some p \<longrightarrow> fresh_block s p kPageSize"
  shows "\<exists>b s'. RefillLinearAllocationBuffer page n s = Some (b, s') \<and> layout_ok s' \<and> same_objects s s' \<and>
    (if b then n \<le> lab_size s' else page = None) \<and> set (normal_pages s') \<subseteq> set (normal_pages s) \<union> set_option page \<and>
    (\<not> b \<longrightarrow> lab_size s' = lab_size s)"
proof -
  obtain r fl where a: "FreeList_Allocate n (memory s) (free_list s) = Some (r, fl)" "free_list_ok (memory s) fl"
    "case r of
       Some (e, k) \<Rightarrow> e \<in> list_blocks (free_list s) \<and> n \<le> k \<and> (\<exists>h. memory s e = Some h \<and> AllocatedSize h = k) \<and> list_blocks fl = list_blocks (free_list s) - {e}
     | None \<Rightarrow> list_blocks fl = list_blocks (free_list s) \<and> (\<forall>e \<in> list_blocks (free_list s). \<forall>h. memory s e = Some h \<longrightarrow> AllocatedSize h < 2 * n)"
    using FreeList_Allocate_ok [OF layout_okD(6) [OF l] n(1)] by blast
  show ?thesis
  proof (cases r)
    case (Some ek)
    obtain e k where ek: "ek = (e, k)" by (cases ek)
    obtain h where h: "e \<in> list_blocks (free_list s)" "n \<le> k" "memory s e = Some h" "AllocatedSize h = k" "list_blocks fl = list_blocks (free_list s) - {e}"
      using a(3) Some ek by auto
    obtain s' where "ReplaceLinearAllocationBuffer e (AllocatedSize h) (s\<lparr>free_list := fl\<rparr>) = Some s'" "layout_ok s'" "same_objects s s'"
      "lab_size s' = AllocatedSize h" "normal_pages s' = normal_pages s" using refill_from_list [OF l h(1,3) a(2) h(5)] by blast
    then show ?thesis using a(1) Some ek h(2,4) by (auto simp: RefillLinearAllocationBuffer_def)
  next
    case None
    then have fl: "list_blocks fl = list_blocks (free_list s)" using a(3) by simp
    show ?thesis
    proof (cases page)
      case (Some p)
      obtain s' where "ReplaceLinearAllocationBuffer p PayloadSize (s\<lparr>free_list := fl, normal_pages := normal_pages s @ [p]\<rparr>) = Some s'"
        "layout_ok s'" "same_objects s s'" "lab_size s' = PayloadSize" "normal_pages s' = normal_pages s @ [p]"
        using refill_from_page [OF l _ a(2) fl] new Some by blast
      then show ?thesis using a(1) None Some n(2) by (auto simp: RefillLinearAllocationBuffer_def)
    next
      case pNone: None
      let ?s' = "s\<lparr>free_list := fl\<rparr>"
      have same: "cell_size ?s' = cell_size s" "is_lab ?s' = is_lab s" by (auto simp: cell_size_def is_lab_def fun_eq_iff)
      have "page_cell ?s' = page_cell s" "page_tiling ?s' = page_tiling s" by (auto simp: page_cell_def page_tiling_def same fun_eq_iff)
      moreover have "object_header ?s' = object_header s" by (simp add: object_header_def fun_eq_iff same calculation)
      ultimately have "layout_ok ?s'" "same_objects s ?s'"
        using l a(2) fl by (simp_all add: layout_ok_def same same_objects_def heap_objects_def gc_blocks_apart_def large_ok_def large_size_def)
      then show ?thesis using a(1) None pNone by (auto simp: RefillLinearAllocationBuffer_def)
    qed
  qed
qed

subsection \<open>Disjointness\<close>

lemma cells_apart:
  assumes l: "layout_ok s" and x: "page_cell s x" "cell_size s x = Some n" and y: "page_cell s y" "cell_size s y = Some k" and ne: "x \<noteq> y"
  shows "no_overlap x n y k"
proof -
  obtain p zs n' where p: "p \<in> set (normal_pages s)" "page_tiling s p zs" "(x, n') \<in> set zs" using x(1) by (rule page_cellE)
  obtain q us k' where q: "q \<in> set (normal_pages s)" "page_tiling s q us" "(y, k') \<in> set us" using y(1) by (rule page_cellE)
  have nk: "n' = n" "k' = k" using page_tiling_bounds(5) [OF p(2,3)] page_tiling_bounds(5) [OF q(2,3)] x(2) y(2) by simp_all
  note b = page_cell_in_page [OF p(2,3)] page_cell_in_page [OF q(2,3)]
  show ?thesis
  proof (cases "p = q")
    case True
    then have "us = zs" using page_tiling_unique p(2) q(2) by blast
    then show ?thesis using tiles_disjoint [of p zs "p + PayloadSize" x n y k] p q nk ne by (auto simp: page_tiling_def no_overlap_def)
  next
    case False
    then have "no_overlap p kPageSize q kPageSize" using layout_okD(1) [OF l] p(1) q(1) by (simp add: gc_blocks_apart_def)
    then show ?thesis using b nk by (auto simp: no_overlap_def)
  qed
qed

definition object_size :: "GcHeap \<Rightarrow> nat \<Rightarrow> nat" where
  "object_size s p = AllocatedSize (the (memory s (FromObject p)))"

text \<open>The blocks of objects, headers included, do not overlap.\<close>

lemma headers_apart:
  assumes l: "layout_ok s" and x: "object_header s x" and y: "object_header s y" and ne: "x \<noteq> y"
  shows "no_overlap x (AllocatedSize (the (memory s x))) y (AllocatedSize (the (memory s y)))"
proof -
  have pl: "no_overlap a (AllocatedSize (the (memory s a))) b (large_size s b)"
    if a: "page_cell s a" "\<not> is_lab s a" and b: "b \<in> set (large_objects s)" for a b
  proof -
    obtain p zs n where p: "p \<in> set (normal_pages s)" "page_tiling s p zs" "(a, n) \<in> set zs" using a(1) by (rule page_cellE)
    have "n = AllocatedSize (the (memory s a))" using page_tiling_bounds(5) [OF p(2,3)] page_cell_header [OF a] by auto
    moreover have "no_overlap p kPageSize b (large_size s b)" using layout_okD(1) [OF l] p(1) b by (simp add: gc_blocks_apart_def)
    ultimately show ?thesis using page_cell_in_page [OF p(2,3)] by (auto simp: no_overlap_def)
  qed
  consider "x \<in> set (large_objects s)" "y \<in> set (large_objects s)" | "x \<in> set (large_objects s)" "page_cell s y" "\<not> is_lab s y"
    | "page_cell s x" "\<not> is_lab s x" "y \<in> set (large_objects s)" | "page_cell s x" "\<not> is_lab s x" "page_cell s y" "\<not> is_lab s y"
    using x y by (auto simp: object_header_def)
  then show ?thesis
  proof cases
    case 1
    then show ?thesis using layout_okD(1) [OF l] ne by (simp add: gc_blocks_apart_def large_size_def)
  next
    case 2
    then show ?thesis using no_overlap_sym [OF pl [OF 2(2,3,1)]] by (simp add: large_size_def)
  next
    case 3
    then show ?thesis using pl [OF 3] by (simp add: large_size_def)
  next
    case 4
    then show ?thesis using page_cell_header [OF 4(1,2)] page_cell_header [OF 4(3,4)] cells_apart [OF l 4(1) _ 4(3) _ ne] by auto
  qed
qed

lemma objects_apart:
  assumes "layout_ok s" "p \<in> heap_objects s" "q \<in> heap_objects s" "p \<noteq> q"
  shows "no_overlap (FromObject p) (object_size s p) (FromObject q) (object_size s q)"
proof -
  obtain x where x: "p = ObjectStart x" "object_header s x" using assms(2) unfolding heap_objects_def by blast
  obtain y where y: "q = ObjectStart y" "object_header s y" using assms(3) unfolding heap_objects_def by blast
  show ?thesis using headers_apart [OF assms(1) x(2) y(2)] assms(4) x(1) y(1) by (simp add: object_size_def)
qed

subsection \<open>Bumping the allocation buffer\<close>

lemma new_object_header:
  assumes "8 dvd n" "n \<le> kMaxSize" "0 < index" "index < 2 ^ 14"
  shows "AllocatedSize (new_header n index) = n" "\<not> IsFree (new_header n index)" "\<not> IsMarked (new_header n index)"
    "GetGCInfoIndex (new_header n index) = index"
  using assms by (simp_all add: IsFree_def kFreeListGCInfoIndex_def)

definition adds_object :: "GcHeap \<Rightarrow> GcHeap \<Rightarrow> nat \<Rightarrow> HeapObjectHeader \<Rightarrow> bool" where
  "adds_object s s' a h \<longleftrightarrow> \<not> object_header s a \<and> (\<forall>x. object_header s' x \<longleftrightarrow> object_header s x \<or> x = a) \<and>
     (\<forall>x. object_header s x \<longrightarrow> memory s' x = memory s x) \<and> memory s' a = Some h \<and>
     members s' = members s \<and> strong_persistents s' = strong_persistents s \<and> weak_persistents s' = weak_persistents s \<and> finalized s' = finalized s"

lemma lab_Allocate_ok:
  assumes l: "layout_ok s" and n: "0 < n" "8 dvd n" "n \<le> lab_size s" "n \<le> kMaxSize" and i: "0 < index" "index < 2 ^ 14"
    and s'_def: "s' = snd (lab_Allocate n index s)"
  shows "layout_ok s' \<and> adds_object s s' (lab_start s) (new_header n index) \<and> normal_pages s' = normal_pages s \<and> large_objects s' = large_objects s"
proof -
  let ?a = "lab_start s" and ?k = "lab_size s" and ?h = "new_header n index"
  note hd = new_object_header [OF n(2,4) i]
  have fields [simp]: "memory s' = (memory s)(?a \<mapsto> ?h)" "free_list s' = free_list s" "lab_start s' = ?a + n" "lab_size s' = ?k - n"
    "normal_pages s' = normal_pages s" "large_objects s' = large_objects s" "members s' = members s" "strong_persistents s' = strong_persistents s"
    "weak_persistents s' = weak_persistents s" "finalized s' = finalized s" by (simp_all add: s'_def lab_Allocate_def)
  have k: "0 < ?k" "is_lab s ?a" using n by (simp_all add: is_lab_def)
  have ca: "page_cell s ?a" "cell_size s ?a = Some ?k" using layout_okD(4) [OF l k(1)] k by (simp_all add: cell_size_def)
  have il: "is_lab s' x \<longleftrightarrow> n < ?k \<and> x = ?a + n" for x by (auto simp: is_lab_def)
  have nb: "x \<noteq> ?a + n" if x: "page_cell s x" "n < ?k" for x
  proof
    assume e: "x = ?a + n"
    then have "\<not> is_lab s x" using n(1) by (simp add: is_lab_def)
    from page_cell_header [OF x(1) this] obtain m where m: "cell_size s x = Some m" "0 < m" by auto
    have "no_overlap ?a ?k x m" by (rule cells_apart [OF l ca x(1) m(1)]) (use e n(1) in simp)
    then show False using e x(2) m(2) by (simp add: no_overlap_def)
  qed
  have cs: "cell_size s' x = cell_size s x" if x: "page_cell s x" "x \<noteq> ?a" for x
    using nb [OF x(1)] x(2) by (auto simp: cell_size_def il is_lab_def)
  have csa: "cell_size s' ?a = Some n" "n < ?k \<Longrightarrow> cell_size s' (?a + n) = Some (?k - n)" using hd n(1) by (auto simp: cell_size_def il is_lab_def)
  let ?new = "(?a, n) # (if n < ?k then [(?a + n, ?k - n)] else [])"
  have tile: "\<exists>zs'. page_tiling s' p zs' \<and> set zs' = {z \<in> set zs. fst z \<noteq> ?a} \<union> (if ?a \<in> fst ` set zs then set ?new else {})"
    if p: "p \<in> set (normal_pages s)" "page_tiling s p zs" for p zs
  proof (cases "?a \<in> fst ` set zs")
    case False
    have "page_tiling s' p zs" by (rule page_tiling_cong [OF p(2)]) (use p False cs in \<open>force simp: page_cell_def\<close>)
    moreover have "fst z \<noteq> ?a" if "z \<in> set zs" for z using False imageI [OF that, of fst] by metis
    ultimately show ?thesis using False by (intro exI [of _ zs]) auto
  next
    case True
    have tz: "tiles p zs (p + PayloadSize)" using p(2) by (simp add: page_tiling_def)
    have kz: "(?a, ?k) \<in> set zs" using True p(2) ca(2) by (fastforce simp: page_tiling_def)
    obtain us vs where u: "zs = us @ (?a, ?k) # vs" "tiles p us ?a" "8 dvd ?k" "tiles (?a + ?k) vs (p + PayloadSize)"
      using tiles_split [OF tz kz] by metis
    have "?a \<notin> fst ` set us" "?a \<notin> fst ` set vs" using tiles_distinct [OF tz] by (auto simp: u(1))
    then have d: "\<forall>z \<in> set us \<union> set vs. fst z \<noteq> ?a" by (metis UnE imageI)
    have "8 dvd ?k - n" using n(2,3) u(3) by (simp add: dvd_diff_nat)
    then have "tiles ?a (?new @ vs) (p + PayloadSize)" using n u(4) by (cases "n < ?k") auto
    then have t': "tiles p (us @ ?new @ vs) (p + PayloadSize)" using u(2) by (auto simp: tiles_append)
    have old: "cell_size s' x = Some m" if x: "(x, m) \<in> set us \<union> set vs" for x m
    proof -
      have z: "(x, m) \<in> set zs" "x \<noteq> ?a" using x bspec [OF d x] by (auto simp: u(1))
      have "page_cell s x" using z(1) p by (auto simp: page_cell_def)
      then show ?thesis using cs z page_tiling_bounds(5) [OF p(2) z(1)] by simp
    qed
    then have "page_tiling s' p (us @ ?new @ vs)" using t' csa by (auto simp: page_tiling_def)
    moreover have "set (us @ ?new @ vs) = {z \<in> set zs. fst z \<noteq> ?a} \<union> set ?new" using d by (auto simp: u(1))
    ultimately show ?thesis using True by (intro exI [of _ "us @ ?new @ vs"]) simp
  qed
  have pc: "page_cell s' x \<longleftrightarrow> page_cell s x \<or> n < ?k \<and> x = ?a + n" for x
  proof
    assume "page_cell s' x"
    then obtain p us m where p: "p \<in> set (normal_pages s)" "page_tiling s' p us" "(x, m) \<in> set us" by (auto elim: page_cellE)
    obtain zs where zs: "page_tiling s p zs" using layout_okD(3) [OF l p(1)] by blast
    obtain zs' where z': "page_tiling s' p zs'" "set zs' = {z \<in> set zs. fst z \<noteq> ?a} \<union> (if ?a \<in> fst ` set zs then set ?new else {})"
      using tile [OF p(1) zs] by blast
    have "(x, m) \<in> set zs'" using page_tiling_unique [OF p(2) z'(1)] p(3) by simp
    then show "page_cell s x \<or> n < ?k \<and> x = ?a + n" using z'(2) p(1) zs ca(1) by (auto simp: page_cell_def split: if_splits)
  next
    assume x: "page_cell s x \<or> n < ?k \<and> x = ?a + n"
    let ?y = "if page_cell s x then x else ?a"
    have "page_cell s ?y" using ca(1) by simp
    then obtain p zs m where p: "p \<in> set (normal_pages s)" "page_tiling s p zs" "(?y, m) \<in> set zs" by (rule page_cellE)
    obtain zs' where z': "page_tiling s' p zs'" "set zs' = {z \<in> set zs. fst z \<noteq> ?a} \<union> (if ?a \<in> fst ` set zs then set ?new else {})"
      using tile [OF p(1,2)] by blast
    have "\<exists>m. (x, m) \<in> set zs'"
    proof (cases "page_cell s x \<and> x \<noteq> ?a")
      case True
      then show ?thesis using p(3) z'(2) by auto
    next
      case False
      then have "?a \<in> fst ` set zs" "x = ?a \<or> n < ?k \<and> x = ?a + n" using p(3) x by (force split: if_splits)+
      then show ?thesis using z'(2) by (auto split: if_splits)
    qed
    then show "page_cell s' x" using p(1) z'(1) by (auto simp: page_cell_def)
  qed
  have nl: "?a \<notin> set (large_objects s)" by (rule lab_not_large [OF l k(2)])
  have no: "\<not> object_header s ?a" using nl k(2) by (simp add: object_header_def)
  have oh: "object_header s' x \<longleftrightarrow> object_header s x \<or> x = ?a" for x
    using nb [of x] no ca(1) hd(2) n(1) nl by (cases "x = ?a") (auto simp: object_header_def pc il is_lab_def)
  have keep: "memory s' x = memory s x" if "object_header s x" for x using that no by auto
  have "layout_ok s'"
    unfolding layout_ok_def
  proof (intro conjI)
    show "gc_blocks_apart s'" by (rule blocks_apart_same [OF layout_okD(1) [OF l]]) (use nl in auto)
    show "large_ok s'" using layout_okD(2) [OF l] nl by (auto simp: large_ok_def)
    show "\<forall>p \<in> set (normal_pages s'). \<exists>zs. page_tiling s' p zs" using tile layout_okD(3) [OF l] by simp blast
    show "0 < lab_size s' \<longrightarrow> page_cell s' (lab_start s')" by (simp add: pc)
    show "\<forall>x. page_cell s' x \<longrightarrow> \<not> is_lab s' x \<longrightarrow> \<not> IsMarked (the (memory s' x))"
      using layout_okD(5) [OF l] hd(3) by (auto simp: pc il is_lab_def)
    have b: "x \<noteq> ?a" if "x \<in> list_blocks (free_list s)" for x using layout_okD(7) [OF l that] k(2) by auto
    show "free_list_ok (memory s') (free_list s')" using free_list_ok_cong [OF layout_okD(6) [OF l], of "memory s'"] b by simp
    show "\<forall>x \<in> list_blocks (free_list s'). page_cell s' x \<and> \<not> is_lab s' x" using layout_okD(7) [OF l] nb by (auto simp: pc il)
  qed
  then show ?thesis using no oh keep by (simp add: adds_object_def)
qed

subsection \<open>Large objects\<close>

lemma AllocateLarge_ok:
  assumes l: "layout_ok s" and b: "fresh_block s b n" and n: "8 \<le> n" "8 dvd n" "n \<le> kMaxSize" and i: "0 < index" "index < 2 ^ 14"
    and s'_def: "s' = snd (AllocateLarge (Some b) n index s)"
  shows "layout_ok s' \<and> adds_object s s' b (new_header n index) \<and> normal_pages s' = normal_pages s \<and> large_objects s' = large_objects s @ [b]"
proof -
  let ?h = "new_header n index"
  note hd = new_object_header [OF n(2,3) i]
  have fields [simp]: "memory s' = (memory s)(b \<mapsto> ?h)" "free_list s' = free_list s" "lab_start s' = lab_start s" "lab_size s' = lab_size s"
    "normal_pages s' = normal_pages s" "large_objects s' = large_objects s @ [b]" "members s' = members s" "strong_persistents s' = strong_persistents s"
    "weak_persistents s' = weak_persistents s" "finalized s' = finalized s" by (simp_all add: s'_def AllocateLarge_def)
  have il: "is_lab s' x \<longleftrightarrow> is_lab s x" for x by (simp add: is_lab_def)
  have nb: "x \<noteq> b" if x: "page_cell s x" for x
  proof -
    obtain p zs m where p: "p \<in> set (normal_pages s)" "page_tiling s p zs" "(x, m) \<in> set zs" using x by (rule page_cellE)
    have "no_overlap p kPageSize b n" using b p(1) by (simp add: fresh_block_def)
    then show ?thesis using page_cell_in_page [OF p(2,3)] n(1) by (auto simp: no_overlap_def)
  qed
  have ls: "0 < large_size s a" if "a \<in> set (large_objects s)" for a using large_okD [OF layout_okD(2) [OF l] that] by auto
  have bl: "b \<notin> set (large_objects s)" using b ls n(1) by (fastforce simp: fresh_block_def no_overlap_def)
  have cs: "cell_size s' x = cell_size s x" if "page_cell s x" for x using nb [OF that] by (simp add: cell_size_def il)
  note pc = page_cell_cong [OF l cs fields(5)]
  have no: "\<not> object_header s b" using nb bl by (auto simp: object_header_def)
  have oh: "object_header s' x \<longleftrightarrow> object_header s x \<or> x = b" for x using nb by (auto simp: object_header_def pc(2) il)
  have "layout_ok s'"
    unfolding layout_ok_def
  proof (intro conjI)
    show "gc_blocks_apart s'"
      by (rule blocks_apart_large [OF layout_okD(1) [OF l] b _ fields(5,6)]) (use n(1) bl hd ls in \<open>auto simp: large_size_def\<close>)
    show "large_ok s'" using layout_okD(2) [OF l] hd n(1) bl by (auto simp: large_ok_def)
    show "\<forall>p \<in> set (normal_pages s'). \<exists>zs. page_tiling s' p zs" using layout_okD(3) [OF l] pc(1) by simp
    show "0 < lab_size s' \<longrightarrow> page_cell s' (lab_start s')" using layout_okD(4) [OF l] by (simp add: pc(2))
    show "\<forall>x. page_cell s' x \<longrightarrow> \<not> is_lab s' x \<longrightarrow> \<not> IsMarked (the (memory s' x))"
      using layout_okD(5) [OF l] hd(3) by (simp add: pc(2) il)
    have nf: "x \<noteq> b" if "x \<in> list_blocks (free_list s)" for x using layout_okD(7) [OF l that] nb by blast
    show "free_list_ok (memory s') (free_list s')" using free_list_ok_cong [OF layout_okD(6) [OF l], of "memory s'"] nf by simp
    show "\<forall>x \<in> list_blocks (free_list s'). page_cell s' x \<and> \<not> is_lab s' x" using layout_okD(7) [OF l] by (simp add: pc(2) il)
  qed
  then show ?thesis using no oh by (auto simp: adds_object_def)
qed

subsection \<open>The size of an allocation\<close>

lemma and_not_7: "unat (w AND NOT 7 :: 64 word) = unat w div 8 * 8"
proof -
  have m: "(7 :: 64 word) = mask 3" by (simp add: mask_eq_exp_minus_1)
  have "unat w div 8 * 8 = push_bit 3 (drop_bit 3 (unat w))" by (simp add: push_bit_eq_mult drop_bit_eq_div)
  also have "\<dots> = unat (w AND NOT 7)"
    unfolding m by (rule bit_eqI) (auto simp: bit_simps dest: bit_imp_le_length)
  finally show ?thesis by simp
qed

lemma allocation_size_eq:
  assumes "n < 2 ^ 64 - 15"
  shows "allocation_size_of n = (n + 15) div 8 * 8"
proof -
  have "unat (8 + of_nat n + 8 - 1 :: 64 word) = unat (of_nat (n + 15) :: 64 word)" by (simp add: ac_simps)
  also have "\<dots> = (n + 15) mod 2 ^ 64" by (simp only: unat_of_nat) simp
  also have "\<dots> = n + 15" using assms by simp
  finally have "unat (8 + of_nat n + 8 - 1 :: 64 word) = n + 15" .
  then show ?thesis using and_not_7 [of "8 + of_nat n + 8 - 1"]
    by (simp add: allocation_size_of_def RoundUp_def kAllocationGranularity_def)
qed

lemma allocation_size_bounds:
  assumes "n \<le> 131056"
  shows "8 \<le> allocation_size_of n" "8 dvd allocation_size_of n" "allocation_size_of n \<le> kMaxSize" "n + 8 \<le> allocation_size_of n"
  using assms allocation_size_eq [of n] by (auto simp: kMaxSize_def)

lemma allocation_refused:
  assumes "131056 < n" "n < 2 ^ 64 - 15"
  shows "kMaxSize < allocation_size_of n"
proof -
  have "(131072 :: nat) div 8 \<le> (n + 15) div 8" by (rule div_le_mono) (use assms(1) in simp)
  then show ?thesis using allocation_size_eq [OF assms(2)] by (simp add: kMaxSize_def)
qed

end
