(* ===== verification/Gc_Client.thy ===== *)
theory Gc_Client
  imports Gc_Allocation
begin

text \<open>
  The operations a program calls, on any heap that satisfies the invariant: allocation of objects,
  assignment of members and persistent handles, collection and the destruction of the heap.
\<close>

subsection \<open>Composition\<close>

lemma same_objects_header: "same_objects s s' \<Longrightarrow> object_header s' x \<longleftrightarrow> object_header s x"
  using ObjectStart_in [of x s] ObjectStart_in [of x s'] by (simp add: same_objects_def)

lemma same_objects_adds:
  assumes "same_objects s s1" "adds_object s1 s' a h"
  shows "adds_object s s' a h"
  using assms same_objects_header [OF assms(1)] by (auto simp: adds_object_def same_objects_def)

lemma same_objects_refl: "same_objects s s"
  by (simp add: same_objects_def)

lemma same_objects_reachable: "same_objects s s1 \<Longrightarrow> live_objects s1 = live_objects s"
  by (simp add: same_objects_def live_objects_def strong_roots_def)

lemma fresh_block_mono:
  assumes "fresh_block s a n" "set (normal_pages s') \<subseteq> set (normal_pages s)" "set (large_objects s') \<subseteq> set (large_objects s)"
    "\<And>b. b \<in> set (large_objects s') \<Longrightarrow> memory s' b = memory s b"
  shows "fresh_block s' a n"
  using assms by (auto simp: fresh_block_def large_size_def)

lemma gc_heap_okD:
  assumes "gc_heap_ok s"
  shows "layout_ok s" "pointers_ok s" "persistents_ok (strong_persistents s)" "persistents_ok (weak_persistents s)"
  using assms by (simp_all add: gc_heap_ok_def)

lemma same_objects_large:
  assumes "same_objects s s'" "a \<in> set (large_objects s')"
  shows "memory s' a = memory s a"
proof -
  have "object_header s a" using assms by (simp add: object_header_def same_objects_def)
  then show ?thesis using assms(1) by (simp add: same_objects_def)
qed

subsection \<open>Allocation\<close>

text \<open>The state the new object is added to: the heap as it was, or the heap after a collection.\<close>

definition allocates_from :: "(nat \<Rightarrow> nat option) \<Rightarrow> GcHeap \<Rightarrow> GcHeap \<Rightarrow> bool" where
  "allocates_from new s s0 \<longleftrightarrow> s0 = s \<or> new 0 = None \<and> (\<exists>s1. same_objects s s1 \<and> gc_heap_ok s1 \<and> collected s1 s0)"

definition host_blocks :: "(nat \<Rightarrow> nat option) \<Rightarrow> nat \<Rightarrow> GcHeap \<Rightarrow> bool" where
  "host_blocks new n s \<longleftrightarrow> (\<forall>k a. new k = Some a \<longrightarrow> fresh_block s a (if n < kLargeObjectSizeThreshold then kPageSize else n))"

lemma AllocateNormal_ok:
  assumes ok: "gc_heap_ok s" and n: "8 \<le> n" "8 dvd n" "n < kLargeObjectSizeThreshold" and i: "0 < index" "index < 2 ^ 14" and new: "host_blocks new n s"
  shows "\<exists>r s'. AllocateNormal new n index s = Some (r, s') \<and>
    (case r of
       Aborts e \<Rightarrow> new 0 = None
     | Allocated p \<Rightarrow> \<exists>s0 a. p = ObjectStart a \<and> allocates_from new s s0 \<and> gc_heap_ok s0 \<and> layout_ok s' \<and> adds_object s0 s' a (new_header n index))"
proof -
  have nk: "n \<le> kMaxSize" "2 \<le> n" "n \<le> PayloadSize" "0 < n" using n(1,3) by (simp_all add: kLargeObjectSizeThreshold_def kMaxSize_def)
  have bump: "\<exists>s'. lab_Allocate n index t = (Allocated (ObjectStart (lab_start t)), s') \<and> layout_ok s' \<and> adds_object s0 s' (lab_start t) (new_header n index)"
    if t: "layout_ok t" "n \<le> lab_size t" "same_objects s0 t" for s0 t
    using lab_Allocate_ok [OF t(1) nk(4) n(2) t(2) nk(1) i refl] same_objects_adds [OF t(3)] by (auto simp: lab_Allocate_def)
  have f: "fresh_block s p kPageSize" if "new k = Some p" for k p using new n(3) that by (auto simp: host_blocks_def)
  have f0: "\<forall>p. new 0 = Some p \<longrightarrow> fresh_block s p kPageSize" using f by blast
  note l = gc_heap_okD(1) [OF ok]
  show ?thesis
  proof (cases "lab_size s < n")
    case False
    then obtain s' where "lab_Allocate n index s = (Allocated (ObjectStart (lab_start s)), s')" "layout_ok s'" "adds_object s s' (lab_start s) (new_header n index)"
      using bump [OF l _ same_objects_refl] by auto
    then show ?thesis using False ok by (auto simp: AllocateNormal_def allocates_from_def)
  next
    case True
    obtain b s1 where r1: "RefillLinearAllocationBuffer (new 0) n s = Some (b, s1)" "layout_ok s1" "same_objects s s1"
      "if b then n \<le> lab_size s1 else new 0 = None" "set (normal_pages s1) \<subseteq> set (normal_pages s) \<union> set_option (new 0)"
      using RefillLAB_ok [OF l nk(2,3), of "new 0", OF f0] by (elim exE conjE) (rule that)
    show ?thesis
    proof (cases b)
      case bT: True
      then obtain s' where "lab_Allocate n index s1 = (Allocated (ObjectStart (lab_start s1)), s')" "layout_ok s'" "adds_object s s' (lab_start s1) (new_header n index)"
        using bump [OF r1(2) _ r1(3)] r1(4) by auto
      then show ?thesis using True bT r1(1) ok by (auto simp: AllocateNormal_def allocates_from_def)
    next
      case bF: False
      then have none: "new 0 = None" using r1(4) by simp
      have ok1: "gc_heap_ok s1" by (rule same_objects_ok [OF ok r1(3,2)])
      obtain s2 where c: "CollectGarbage s1 = Some s2" "collected s1 s2" using Collect_collected [OF ok1] by blast
      have ok2: "gc_heap_ok s2" by (rule collected_ok [OF ok1 c(2)])
      have sub: "set (normal_pages s2) \<subseteq> set (normal_pages s)" "set (large_objects s2) \<subseteq> set (large_objects s)"
        "\<And>a. a \<in> set (large_objects s2) \<Longrightarrow> memory s2 a = memory s a"
      proof -
        show "set (normal_pages s2) \<subseteq> set (normal_pages s)" using c(2) r1(5) none by (auto simp: collected_def)
        have "set (large_objects s2) \<subseteq> set (large_objects s1)" using c(2) by (auto simp: collected_def)
        then show "set (large_objects s2) \<subseteq> set (large_objects s)" using r1(3) by (simp add: same_objects_def)
        show "memory s2 a = memory s a" if "a \<in> set (large_objects s2)" for a
          using c(2) that same_objects_large [OF r1(3), of a] \<open>set (large_objects s2) \<subseteq> set (large_objects s1)\<close> by (auto simp: collected_def)
      qed
      have f2: "\<forall>p. new 1 = Some p \<longrightarrow> fresh_block s2 p kPageSize" using fresh_block_mono [OF f sub] by blast
      obtain b2 s3 where r2: "RefillLinearAllocationBuffer (new 1) n s2 = Some (b2, s3)" "layout_ok s3" "same_objects s2 s3"
        "if b2 then n \<le> lab_size s3 else new 1 = None"
        using RefillLAB_ok [OF gc_heap_okD(1) [OF ok2] nk(2,3), of "new 1", OF f2] by (elim exE conjE) (rule that)
      show ?thesis
      proof (cases b2)
        case bT: True
        then obtain s' where "lab_Allocate n index s3 = (Allocated (ObjectStart (lab_start s3)), s')" "layout_ok s'" "adds_object s2 s' (lab_start s3) (new_header n index)"
          using bump [OF r2(2) _ r2(3)] r2(4) by auto
        moreover have "allocates_from new s s2" using none r1(3) ok1 c(2) by (auto simp: allocates_from_def)
        ultimately show ?thesis using True bF bT r1(1) r2(1) c(1) ok2 by (auto simp: AllocateNormal_def)
      next
        case False
        then show ?thesis using True bF r1(1) r2(1) c(1) none by (simp add: AllocateNormal_def)
      qed
    qed
  qed
qed

lemma Heap_Allocate_ok:
  assumes ok: "gc_heap_ok s" and n: "nbytes \<le> 131056" and i: "0 < index" "index < 2 ^ 14"
    and new: "host_blocks new (allocation_size_of nbytes) s"
  shows "\<exists>r s'. Heap_Allocate new nbytes index s = Some (r, s') \<and>
    (case r of
       Aborts e \<Rightarrow> new 0 = None
     | Allocated p \<Rightarrow> \<exists>s0 a. p = ObjectStart a \<and> allocates_from new s s0 \<and> gc_heap_ok s0 \<and> layout_ok s' \<and>
         adds_object s0 s' a (new_header (allocation_size_of nbytes) index))"
proof -
  let ?n = "allocation_size_of nbytes"
  note b = allocation_size_bounds [OF n]
  show ?thesis
  proof (cases "?n < kLargeObjectSizeThreshold")
    case True
    then show ?thesis using AllocateNormal_ok [OF ok b(1,2) True i new] b(3) by (simp add: Heap_Allocate_def Let_def)
  next
    case False
    show ?thesis
    proof (cases "new 0")
      case None
      then show ?thesis using False b(3) by (simp add: Heap_Allocate_def Let_def AllocateLarge_def)
    next
      case (Some a)
      have f: "fresh_block s a ?n" using new Some False by (auto simp: host_blocks_def)
      obtain s' where s': "AllocateLarge (Some a) ?n index s = (Allocated (ObjectStart a), s')" by (simp add: AllocateLarge_def)
      have "layout_ok s' \<and> adds_object s s' a (new_header ?n index)"
        using AllocateLarge_ok [OF gc_heap_okD(1) [OF ok] f b(1-3) i refl] s' by simp
      then show ?thesis using False b(3) Some s' ok by (auto simp: Heap_Allocate_def Let_def allocates_from_def)
    qed
  qed
qed

lemma object_aligned:
  assumes l: "layout_ok s" and a: "object_header s a"
  shows "8 dvd a"
proof (cases "a \<in> set (large_objects s)")
  case True
  then show ?thesis using layout_okD(1) [OF l] by (simp add: gc_blocks_apart_def)
next
  case False
  then have "page_cell s a" using a by (simp add: object_header_def)
  then obtain p zs n where z: "p \<in> set (normal_pages s)" "page_tiling s p zs" "(a, n) \<in> set zs" by (rule page_cellE)
  have "8 dvd p" "p \<le> a" "8 dvd a - p"
    using layout_okD(1) [OF l] z tiles_in [of p zs "p + PayloadSize" a n] by (simp_all add: gc_blocks_apart_def page_tiling_def)
  then show ?thesis by (metis dvd_add le_add_diff_inverse)
qed

text \<open>Changing a header without changing its size, type or mark, and the members of objects.\<close>

lemma layout_touch:
  assumes l: "layout_ok s" and a: "object_header s a" "memory s a = Some h" and h: "AllocatedSize h' = AllocatedSize h" "IsFree h' = IsFree h" "IsMarked h' = IsMarked h"
    and s': "s' = s\<lparr>members := M, memory := (memory s)(a \<mapsto> h')\<rparr>"
  shows "layout_ok s'" "object_header s' x \<longleftrightarrow> object_header s x"
proof -
  have fields [simp]: "memory s' = (memory s)(a \<mapsto> h')" "free_list s' = free_list s" "lab_start s' = lab_start s" "lab_size s' = lab_size s"
    "normal_pages s' = normal_pages s" "large_objects s' = large_objects s" by (simp_all add: s')
  have il: "is_lab s' x \<longleftrightarrow> is_lab s x" for x by (simp add: is_lab_def)
  have cs: "cell_size s' x = cell_size s x" for x using a(2) h(1) by (simp add: cell_size_def il)
  note pc = page_cell_cong [OF l cs fields(5)]
  have mh: "\<not> IsMarked h" using object_header_memory [OF l a(1)] a(2) by simp
  have ls: "large_size s' b = large_size s b" for b using a(2) h(1) by (simp add: large_size_def)
  show "object_header s' x \<longleftrightarrow> object_header s x" using a(2) h(2) by (auto simp: object_header_def pc(2) il)
  show "layout_ok s'"
    unfolding layout_ok_def
  proof (intro conjI)
    show "gc_blocks_apart s'" using layout_okD(1) [OF l] by (simp add: gc_blocks_apart_def ls)
    show "large_ok s'" using layout_okD(2) [OF l] a(2) h by (fastforce simp: large_ok_def)
    show "\<forall>p \<in> set (normal_pages s'). \<exists>zs. page_tiling s' p zs" using layout_okD(3) [OF l] pc(1) by simp
    show "0 < lab_size s' \<longrightarrow> page_cell s' (lab_start s')" using layout_okD(4) [OF l] by (simp add: pc(2))
    show "\<forall>x. page_cell s' x \<longrightarrow> \<not> is_lab s' x \<longrightarrow> \<not> IsMarked (the (memory s' x))"
      using layout_okD(5) [OF l] mh h(3) by (auto simp: pc(2) il)
    show "free_list_ok (memory s') (free_list s')" unfolding fields(2)
      by (rule free_list_ok_cong [OF layout_okD(6) [OF l]]) (use a(2) h in auto)
    show "\<forall>x \<in> list_blocks (free_list s'). page_cell s' x \<and> \<not> is_lab s' x" using layout_okD(7) [OF l] by (simp add: pc(2) il)
  qed
qed

lemma objects_of_headers:
  assumes "\<And>x. object_header s' x \<longleftrightarrow> object_header s x \<or> x = a"
  shows "heap_objects s' = insert (ObjectStart a) (heap_objects s)"
  unfolding heap_objects_def assms by auto

lemma clear_dead_id:
  assumes "\<forall>m \<in> set ms. pointer_of m \<in> insert 0 R"
  shows "map (clear_dead R) ms = ms"
proof -
  have "clear_dead R m = m" if "m \<in> set ms" for m using assms that by (cases m) force+
  then show ?thesis by (simp add: map_idI)
qed

text \<open>The heap objects are added to, in terms of the heap before the call.\<close>

lemma allocates_from_objects:
  assumes ok: "gc_heap_ok s" and f: "allocates_from new s s0"
  shows "\<exists>Ob. (Ob = heap_objects s \<or> new 0 = None \<and> Ob = live_objects s) \<and> heap_objects s0 = Ob \<and>
    (\<forall>q \<in> Ob. memory s0 (FromObject q) = memory s (FromObject q) \<and> members s0 q = map (clear_dead Ob) (members s q))"
  using f unfolding allocates_from_def
proof
  assume s0: "s0 = s"
  have "map (clear_dead (heap_objects s)) (members s q) = members s q" if "q \<in> heap_objects s" for q
    by (rule clear_dead_id) (use gc_heap_okD(2) [OF ok] that in \<open>simp add: pointers_ok_def\<close>)
  then show ?thesis using s0 by (intro exI [of _ "heap_objects s"]) simp
next
  assume "new 0 = None \<and> (\<exists>s1. same_objects s s1 \<and> gc_heap_ok s1 \<and> collected s1 s0)"
  then obtain s1 where s1: "new 0 = None" "same_objects s s1" "gc_heap_ok s1" "collected s1 s0" by blast
  have r: "live_objects s1 = live_objects s" by (rule same_objects_reachable [OF s1(2)])
  have m: "memory s1 (FromObject q) = memory s (FromObject q)" "members s1 = members s" if "q \<in> live_objects s" for q
    using reachable_objects [OF ok] that s1(2) heap_object_iff by (auto simp: same_objects_def)
  show ?thesis
    using collected_objects [OF s1(3,4)] collected_keeps [OF s1(3,4)] m s1(1) unfolding r
    by (intro exI [of _ "live_objects s"]) auto
qed

lemma pointers_ok_more:
  assumes "\<And>q m. q \<in> heap_objects s' \<Longrightarrow> m \<in> set (members s' q) \<Longrightarrow> pointer_of m \<in> insert 0 (heap_objects s')" "pointers_ok s0"
    "strong_persistents s' = strong_persistents s0" "weak_persistents s' = weak_persistents s0" "heap_objects s0 \<subseteq> heap_objects s'"
  shows "pointers_ok s'"
  unfolding pointers_ok_def assms(3,4)
proof (intro conjI ballI allI impI)
  fix w p
  assume "root_value (strong_persistents s0) w = Some p"
  then have "p \<in> insert 0 (heap_objects s0)" using assms(2) unfolding pointers_ok_def by blast
  then show "p \<in> insert 0 (heap_objects s')" using assms(5) by blast
next
  fix w p
  assume "root_value (weak_persistents s0) w = Some p"
  then have "p \<in> insert 0 (heap_objects s0)" using assms(2) unfolding pointers_ok_def by blast
  then show "p \<in> insert 0 (heap_objects s')" using assms(5) by blast
qed (rule assms(1))

lemma Make_ok:
  assumes ok: "gc_heap_ok s" and n: "nbytes \<le> 131056" and i: "0 < index" "index < 2 ^ 14"
    and new: "host_blocks new (allocation_size_of nbytes) s"
    and ms: "\<forall>m \<in> set ms. pointer_of m \<in> insert 0 (live_objects s)"
  shows "\<exists>r s'. MakeGarbageCollected new nbytes index ms s = Some (r, s') \<and>
    (case r of
       Aborts e \<Rightarrow> new 0 = None
     | Allocated p \<Rightarrow> gc_heap_ok s' \<and> 8 dvd p \<and>
        memory s' (FromObject p) = Some (MarkAsFullyConstructed (new_header (allocation_size_of nbytes) index)) \<and> members s' p = ms \<and>
        (\<exists>Ob. (Ob = heap_objects s \<or> new 0 = None \<and> Ob = live_objects s) \<and> p \<notin> Ob \<and> heap_objects s' = insert p Ob \<and>
          (\<forall>q \<in> Ob. memory s' (FromObject q) = memory s (FromObject q) \<and> members s' q = map (clear_dead Ob) (members s q))))"
proof -
  let ?h = "new_header (allocation_size_of nbytes) index"
  obtain r s1 where a: "Heap_Allocate new nbytes index s = Some (r, s1)"
    "case r of Aborts e \<Rightarrow> new 0 = None
     | Allocated p \<Rightarrow> \<exists>s0 a. p = ObjectStart a \<and> allocates_from new s s0 \<and> gc_heap_ok s0 \<and> layout_ok s1 \<and> adds_object s0 s1 a ?h"
    using Heap_Allocate_ok [OF ok n i new] by blast
  show ?thesis
  proof (cases r)
    case (Aborts e)
    then show ?thesis using a by (simp add: MakeGarbageCollected_def)
  next
    case (Allocated p)
    obtain s0 a where p: "p = ObjectStart a" "allocates_from new s s0" "gc_heap_ok s0" "layout_ok s1" "adds_object s0 s1 a ?h"
      using a(2) Allocated by auto
    define s' where "s' = s1\<lparr>members := (members s1)(p := ms), memory := (memory s1)(a \<mapsto> MarkAsFullyConstructed ?h)\<rparr>"
    have ma: "memory s1 a = Some ?h" and oa: "object_header s1 a" using p(5) by (simp_all add: adds_object_def)
    have call: "MakeGarbageCollected new nbytes index ms s = Some (Allocated p, s')"
      using a(1) Allocated ma by (simp add: MakeGarbageCollected_def p(1) s'_def)
    note t = layout_touch [OF p(4) oa ma _ _ _ s'_def, simplified]
    obtain Ob where Ob: "Ob = heap_objects s \<or> new 0 = None \<and> Ob = live_objects s" "heap_objects s0 = Ob"
      "\<forall>q \<in> Ob. memory s0 (FromObject q) = memory s (FromObject q) \<and> members s0 q = map (clear_dead Ob) (members s q)"
      using allocates_from_objects [OF ok p(2)] by blast
    have hs': "heap_objects s' = insert p Ob"
      using objects_of_headers [of s' s0 a] t(2) p(5) Ob(2) by (simp add: adds_object_def p(1))
    have np: "p \<notin> Ob" using p(5) unfolding Ob(2) [symmetric] p(1) by (simp add: adds_object_def)
    have keep: "memory s' (FromObject q) = memory s (FromObject q) \<and> members s' q = map (clear_dead Ob) (members s q)" if q: "q \<in> Ob" for q
    proof -
      obtain x where x: "q = ObjectStart x" "object_header s0 x" using q unfolding Ob(2) [symmetric] heap_objects_def by blast
      have "x \<noteq> a" using x p(5) by (auto simp: adds_object_def)
      then have "memory s' x = memory s0 x" "members s' q = members s0 q" using x p(1,5) by (simp_all add: s'_def adds_object_def)
      then show ?thesis using bspec [OF Ob(3) q] by (simp add: x(1))
    qed
    have sub: "live_objects s \<subseteq> Ob" using Ob(1) reachable_objects [OF ok] by auto
    have "pointer_of m \<in> insert 0 (heap_objects s')" if "q \<in> heap_objects s'" "m \<in> set (members s' q)" for q m
    proof (cases "q = p")
      case True
      then show ?thesis using that(2) ms sub unfolding hs' by (auto simp: s'_def)
    next
      case False
      then have q: "q \<in> heap_objects s0" using that(1) hs' Ob(2) by simp
      have "members s' q = members s0 q" using False p(5) by (simp add: s'_def adds_object_def)
      then have "pointer_of m \<in> insert 0 (heap_objects s0)" using gc_heap_okD(2) [OF p(3)] q that(2) unfolding pointers_ok_def by metis
      then show ?thesis unfolding hs' Ob(2) by auto
    qed
    moreover have "strong_persistents s' = strong_persistents s0" "weak_persistents s' = weak_persistents s0" using p(5) by (simp_all add: s'_def adds_object_def)
    moreover have "heap_objects s0 \<subseteq> heap_objects s'" using hs' Ob(2) by auto
    ultimately have "pointers_ok s'" by (rule pointers_ok_more [OF _ gc_heap_okD(2) [OF p(3)]])
    then have "gc_heap_ok s'" using t(1) gc_heap_okD(3,4) [OF p(3)] p(5) by (simp add: gc_heap_ok_def s'_def adds_object_def)
    moreover have "8 dvd p" using object_aligned [OF p(4) oa] by (simp add: p(1) ObjectStart_def kAllocationGranularity_def)
    moreover have "memory s' (FromObject p) = Some (MarkAsFullyConstructed ?h)" "members s' p = ms" by (simp_all add: s'_def p(1))
    moreover have "\<exists>Ob. (Ob = heap_objects s \<or> new 0 = None \<and> Ob = live_objects s) \<and> p \<notin> Ob \<and> heap_objects s' = insert p Ob \<and>
          (\<forall>q \<in> Ob. memory s' (FromObject q) = memory s (FromObject q) \<and> members s' q = map (clear_dead Ob) (members s q))"
      using Ob(1) np hs' keep by blast
    ultimately show ?thesis unfolding call by (intro exI [of _ "Allocated p"] exI [of _ s'] conjI refl) (simp only: Allocation.case simp_thms)
  qed
qed

subsection \<open>A program on the heap\<close>

text \<open>
  The calls a program makes, with what it owes the heap: pointers it stores are null or objects, and
  what it hands to a constructor is rooted.  Assigning to a member or to a handle is an assignment of
  a pointer; persistent handles are named by the addresses where they live.
\<close>

datatype GcCall =
    NewObject "nat \<Rightarrow> nat option" nat nat "Member list"
  | SetMember nat nat nat
  | NewStrong nat | SetStrong nat nat | MoveStrong nat nat | DropStrong nat
  | NewWeak nat | SetWeak nat nat | MoveWeak nat nat | DropWeak nat
  | CollectNow

definition on_strong :: "(Persistents \<Rightarrow> Persistents option) \<Rightarrow> GcHeap \<Rightarrow> GcHeap option" where
  "on_strong f s = map_option (\<lambda>P. s\<lparr>strong_persistents := P\<rparr>) (f (strong_persistents s))"

definition on_weak :: "(Persistents \<Rightarrow> Persistents option) \<Rightarrow> GcHeap \<Rightarrow> GcHeap option" where
  "on_weak f s = map_option (\<lambda>P. s\<lparr>weak_persistents := P\<rparr>) (f (weak_persistents s))"

text \<open>The result says whether the process goes on.\<close>

fun gc_call :: "GcCall \<Rightarrow> GcHeap \<Rightarrow> (bool \<times> GcHeap) option" where
  "gc_call (NewObject new n index ms) s =
     map_option (\<lambda>(r, s'). (case r of Allocated _ \<Rightarrow> True | Aborts _ \<Rightarrow> False, s')) (MakeGarbageCollected new n index ms s)"
| "gc_call (SetMember p i q) s = Some (True, assign_member p i q s)"
| "gc_call (NewStrong w) s = map_option (Pair True) (on_strong (Some \<circ> construct_persistent w) s)"
| "gc_call (SetStrong w q) s = map_option (Pair True) (on_strong (Persistent_Assign w q) s)"
| "gc_call (MoveStrong w v) s = map_option (Pair True) (on_strong (move_persistent w v) s)"
| "gc_call (DropStrong w) s = map_option (Pair True) (on_strong (destroy_persistent w) s)"
| "gc_call (NewWeak w) s = map_option (Pair True) (on_weak (Some \<circ> construct_persistent w) s)"
| "gc_call (SetWeak w q) s = map_option (Pair True) (on_weak (Persistent_Assign w q) s)"
| "gc_call (MoveWeak w v) s = map_option (Pair True) (on_weak (move_persistent w v) s)"
| "gc_call (DropWeak w) s = map_option (Pair True) (on_weak (destroy_persistent w) s)"
| "gc_call CollectNow s = map_option (Pair True) (CollectGarbage s)"

fun gc_admissible :: "GcCall \<Rightarrow> GcHeap \<Rightarrow> bool" where
  "gc_admissible (NewObject new n index ms) s \<longleftrightarrow> n \<le> 131056 \<and> 0 < index \<and> index < 2 ^ 14 \<and> host_blocks new (allocation_size_of n) s \<and>
     (\<forall>m \<in> set ms. pointer_of m \<in> insert 0 (live_objects s))"
| "gc_admissible (SetMember p i q) s \<longleftrightarrow> p \<in> heap_objects s \<and> i < length (members s p) \<and> q \<in> insert 0 (heap_objects s)"
| "gc_admissible (NewStrong w) s \<longleftrightarrow> handles (strong_persistents s) w = None"
| "gc_admissible (SetStrong w q) s \<longleftrightarrow> handles (strong_persistents s) w \<noteq> None \<and> q \<in> insert 0 (heap_objects s)"
| "gc_admissible (MoveStrong w v) s \<longleftrightarrow> handles (strong_persistents s) w = None \<and> handles (strong_persistents s) v \<noteq> None"
| "gc_admissible (DropStrong w) s \<longleftrightarrow> handles (strong_persistents s) w \<noteq> None"
| "gc_admissible (NewWeak w) s \<longleftrightarrow> handles (weak_persistents s) w = None"
| "gc_admissible (SetWeak w q) s \<longleftrightarrow> handles (weak_persistents s) w \<noteq> None \<and> q \<in> insert 0 (heap_objects s)"
| "gc_admissible (MoveWeak w v) s \<longleftrightarrow> handles (weak_persistents s) w = None \<and> handles (weak_persistents s) v \<noteq> None"
| "gc_admissible (DropWeak w) s \<longleftrightarrow> handles (weak_persistents s) w \<noteq> None"
| "gc_admissible CollectNow s \<longleftrightarrow> True"

inductive gc_states :: "GcHeap \<Rightarrow> bool" where
  fresh_heap: "gc_states new_heap"
| heap_call: "gc_states s \<Longrightarrow> gc_admissible c s \<Longrightarrow> gc_call c s = Some (True, s') \<Longrightarrow> gc_states s'"

text \<open>Handles change no object.\<close>

lemma object_parts_cong:
  assumes "memory s' = memory s" "normal_pages s' = normal_pages s" "lab_start s' = lab_start s" "lab_size s' = lab_size s"
    "large_objects s' = large_objects s" "free_list s' = free_list s"
  shows "heap_objects s' = heap_objects s" "layout_ok s' = layout_ok s"
proof -
  have c: "cell_size s' = cell_size s" "is_lab s' = is_lab s" by (auto simp: cell_size_def is_lab_def assms fun_eq_iff)
  have p: "page_tiling s' = page_tiling s" by (auto simp: page_tiling_def c fun_eq_iff)
  have "page_cell s' = page_cell s" by (auto simp: page_cell_def p assms fun_eq_iff)
  then show "heap_objects s' = heap_objects s" "layout_ok s' = layout_ok s"
    by (simp_all add: heap_objects_def object_header_def layout_ok_def gc_blocks_apart_def large_ok_def large_size_def assms c p)
qed

lemma strong_ok:
  assumes ok: "gc_heap_ok s" and P: "persistents_ok P" and v: "\<And>w p. root_value P w = Some p \<Longrightarrow> p \<in> insert 0 (heap_objects s)"
  shows "gc_heap_ok (s\<lparr>strong_persistents := P\<rparr>)"
proof -
  note c = object_parts_cong [of "s\<lparr>strong_persistents := P\<rparr>" s, simplified]
  show ?thesis using ok P v by (auto simp: gc_heap_ok_def pointers_ok_def c)
qed

lemma weak_ok:
  assumes ok: "gc_heap_ok s" and P: "persistents_ok P" and v: "\<And>w p. root_value P w = Some p \<Longrightarrow> p \<in> insert 0 (heap_objects s)"
  shows "gc_heap_ok (s\<lparr>weak_persistents := P\<rparr>)"
proof -
  note c = object_parts_cong [of "s\<lparr>weak_persistents := P\<rparr>" s, simplified]
  show ?thesis using ok P v by (auto simp: gc_heap_ok_def pointers_ok_def c)
qed

text \<open>The operations on handles, over the values the handles hold.\<close>

lemma handle_calls:
  assumes ok: "persistents_ok P" and v: "\<forall>w p. root_value P w = Some p \<longrightarrow> p \<in> insert 0 Ob"
  shows "handles P w = None \<Longrightarrow> \<exists>P'. (Some \<circ> construct_persistent w) P = Some P' \<and> persistents_ok P' \<and> (\<forall>w p. root_value P' w = Some p \<longrightarrow> p \<in> insert 0 Ob)"
    "handles P w \<noteq> None \<Longrightarrow> q \<in> insert 0 Ob \<Longrightarrow>
      \<exists>P'. Persistent_Assign w q P = Some P' \<and> persistents_ok P' \<and> (\<forall>w p. root_value P' w = Some p \<longrightarrow> p \<in> insert 0 Ob)"
    "handles P w = None \<Longrightarrow> handles P x \<noteq> None \<Longrightarrow>
      \<exists>P'. move_persistent w x P = Some P' \<and> persistents_ok P' \<and> (\<forall>w p. root_value P' w = Some p \<longrightarrow> p \<in> insert 0 Ob)"
    "handles P w \<noteq> None \<Longrightarrow> \<exists>P'. destroy_persistent w P = Some P' \<and> persistents_ok P' \<and> (\<forall>w p. root_value P' w = Some p \<longrightarrow> p \<in> insert 0 Ob)"
proof -
  show "\<exists>P'. (Some \<circ> construct_persistent w) P = Some P' \<and> persistents_ok P' \<and> (\<forall>w p. root_value P' w = Some p \<longrightarrow> p \<in> insert 0 Ob)"
    if "handles P w = None"
    using construct_ok [OF ok that] v by (auto split: if_splits)
  show "\<exists>P'. Persistent_Assign w q P = Some P' \<and> persistents_ok P' \<and> (\<forall>w p. root_value P' w = Some p \<longrightarrow> p \<in> insert 0 Ob)"
    if "handles P w \<noteq> None" "q \<in> insert 0 Ob"
    using Assign_ok [OF ok that(1), of q] v that(2) by (auto split: if_splits)
  show "\<exists>P'. move_persistent w x P = Some P' \<and> persistents_ok P' \<and> (\<forall>w p. root_value P' w = Some p \<longrightarrow> p \<in> insert 0 Ob)"
    if wx: "handles P w = None" "handles P x \<noteq> None"
  proof -
    obtain y where "handles P x = Some y" using wx(2) by blast
    from move_ok [OF ok wx(1) this] show ?thesis using v by (auto split: if_splits)
  qed
  show "\<exists>P'. destroy_persistent w P = Some P' \<and> persistents_ok P' \<and> (\<forall>w p. root_value P' w = Some p \<longrightarrow> p \<in> insert 0 Ob)"
    if "handles P w \<noteq> None"
    using destroy_persistent_ok [OF ok that] v by (auto split: if_splits)
qed

lemma on_strong_ok:
  assumes "gc_heap_ok s" "\<exists>P'. f (strong_persistents s) = Some P' \<and> persistents_ok P' \<and> (\<forall>w p. root_value P' w = Some p \<longrightarrow> p \<in> insert 0 (heap_objects s))"
  shows "\<exists>s'. on_strong f s = Some s' \<and> gc_heap_ok s'"
  using assms strong_ok by (fastforce simp: on_strong_def)

lemma on_weak_ok:
  assumes "gc_heap_ok s" "\<exists>P'. f (weak_persistents s) = Some P' \<and> persistents_ok P' \<and> (\<forall>w p. root_value P' w = Some p \<longrightarrow> p \<in> insert 0 (heap_objects s))"
  shows "\<exists>s'. on_weak f s = Some s' \<and> gc_heap_ok s'"
  using assms weak_ok by (fastforce simp: on_weak_def)

lemma assign_member_ok:
  assumes ok: "gc_heap_ok s" and q: "q \<in> insert 0 (heap_objects s)"
  shows "gc_heap_ok (assign_member p i q s)"
proof (cases "i < length (members s p)")
  case False
  then show ?thesis using ok by (simp add: assign_member_def nth_opt_def)
next
  case True
  let ?m = "case members s p ! i of StrongMember _ \<Rightarrow> StrongMember q | WeakMember _ \<Rightarrow> WeakMember q"
  let ?s = "s\<lparr>members := (members s)(p := (members s p)[i := ?m])\<rparr>"
  have e: "assign_member p i q s = ?s" using True by (simp add: assign_member_def)
  note c = object_parts_cong [of ?s s, simplified]
  have m: "pointer_of ?m = q" by (simp split: Member.split)
  have pm: "pointer_of x \<in> insert 0 (heap_objects s)" if "y \<in> heap_objects s" "x \<in> set (members s y)" for x y
    using gc_heap_okD(2) [OF ok] that unfolding pointers_ok_def by blast
  have "pointer_of x \<in> insert 0 (heap_objects s)" if x: "y \<in> heap_objects s" "x \<in> set (members ?s y)" for x y
  proof (cases "y = p")
    case True
    then have "x \<in> insert ?m (set (members s p))" using x(2) set_update_subset_insert [of "members s p" i ?m] by auto
    then consider "x = ?m" | "x \<in> set (members s y)" using True by blast
    then show ?thesis
    proof cases
      case 1
      then show ?thesis using m q by simp
    qed (rule pm [OF x(1)])
  next
    case False
    then show ?thesis using pm [OF x(1)] x(2) by simp
  qed
  then show ?thesis using ok unfolding e gc_heap_ok_def pointers_ok_def c by simp
qed

theorem gc_call_ok:
  assumes ok: "gc_heap_ok s" and a: "gc_admissible c s"
  shows "\<exists>b s'. gc_call c s = Some (b, s') \<and> (b \<longrightarrow> gc_heap_ok s')"
proof -
  have sv: "\<forall>w p. root_value (strong_persistents s) w = Some p \<longrightarrow> p \<in> insert 0 (heap_objects s)"
    "\<forall>w p. root_value (weak_persistents s) w = Some p \<longrightarrow> p \<in> insert 0 (heap_objects s)"
    using gc_heap_okD(2) [OF ok] unfolding pointers_ok_def by blast+
  note hs = handle_calls [OF gc_heap_okD(3) [OF ok] sv(1)] and hw = handle_calls [OF gc_heap_okD(4) [OF ok] sv(2)]
  show ?thesis
  proof (cases c)
    case (NewObject new n index ms)
    then have ad: "n \<le> 131056" "0 < index" "index < 2 ^ 14" "host_blocks new (allocation_size_of n) s" "\<forall>m \<in> set ms. pointer_of m \<in> insert 0 (live_objects s)"
      using a by simp_all
    obtain r s' where r: "MakeGarbageCollected new n index ms s = Some (r, s')" "\<And>p. r = Allocated p \<Longrightarrow> gc_heap_ok s'"
      using Make_ok [OF ok ad] by (metis (no_types, lifting) Allocation.simps(5))
    then show ?thesis using NewObject by (cases r) auto
  next
    case (SetMember p i q)
    then have "gc_heap_ok (assign_member p i q s)" using assign_member_ok [OF ok] a by simp
    then show ?thesis using SetMember by auto
  next
    case (NewStrong w) then show ?thesis using on_strong_ok [OF ok, where f = "Some \<circ> construct_persistent w", OF hs(1)] a by auto
  next
    case (SetStrong w q) then show ?thesis using on_strong_ok [OF ok, where f = "Persistent_Assign w q", OF hs(2)] a by auto
  next
    case (MoveStrong w v) then show ?thesis using on_strong_ok [OF ok, where f = "move_persistent w v", OF hs(3)] a by auto
  next
    case (DropStrong w) then show ?thesis using on_strong_ok [OF ok, where f = "destroy_persistent w", OF hs(4)] a by auto
  next
    case (NewWeak w) then show ?thesis using on_weak_ok [OF ok, where f = "Some \<circ> construct_persistent w", OF hw(1)] a by auto
  next
    case (SetWeak w q) then show ?thesis using on_weak_ok [OF ok, where f = "Persistent_Assign w q", OF hw(2)] a by auto
  next
    case (MoveWeak w v) then show ?thesis using on_weak_ok [OF ok, where f = "move_persistent w v", OF hw(3)] a by auto
  next
    case (DropWeak w) then show ?thesis using on_weak_ok [OF ok, where f = "destroy_persistent w", OF hw(4)] a by auto
  next
    case CollectNow
    obtain s' where "CollectGarbage s = Some s'" "collected s s'" using Collect_collected [OF ok] by blast
    then show ?thesis using CollectNow collected_ok [OF ok] by auto
  qed
qed

lemma gc_states_ok: "gc_states s \<Longrightarrow> gc_heap_ok s"
proof (induction rule: gc_states.induct)
  case fresh_heap
  then show ?case by (rule new_heap_ok)
next
  case (heap_call s c s')
  then show ?case using gc_call_ok by fastforce
qed

subsection \<open>Destruction\<close>

lemma destroy_walk_ok:
  assumes "tiles cur zs e" "\<forall>(x, n) \<in> set zs. \<exists>h. H x = Some h \<and> AllocatedSize h = n \<and> \<not> IsMarked h"
  shows "destroy_walk cur e H fin = Some (fin @ map ObjectStart (filter (dead H) (map fst zs)))"
  using assms
proof (induction zs arbitrary: cur fin)
  case Nil
  then show ?case by (simp add: destroy_walk.simps)
next
  case (Cons z zs)
  obtain n where z: "z = (cur, n)" "0 < n" "tiles (cur + n) zs e" using Cons.prems(1) by (cases z) auto
  obtain h where h: "H cur = Some h" "AllocatedSize h = n" "\<not> IsMarked h" using Cons.prems(2) z(1) by auto
  have e: "cur < e" using tiles_length [OF z(3)] z(2) by simp
  let ?fin = "if IsFree h then fin else fin @ [ObjectStart cur]"
  have "destroy_walk cur e H fin = destroy_walk (cur + n) e H ?fin" using e h z(2) by (subst destroy_walk.simps) simp
  also have "\<dots> = Some (?fin @ map ObjectStart (filter (dead H) (map fst zs)))" by (rule Cons.IH [OF z(3)]) (use Cons.prems(2) in simp)
  moreover have "dead H cur \<longleftrightarrow> \<not> IsFree h" using h(1) by (simp add: dead_def h(3))
  ultimately show ?case using z(1) by simp
qed

definition destroyable :: "headers \<Rightarrow> nat \<Rightarrow> (nat \<times> nat) list \<Rightarrow> bool" where
  "destroyable H p zs \<longleftrightarrow> tiles p zs (p + PayloadSize) \<and> (\<forall>(x, n) \<in> set zs. \<exists>h. H x = Some h \<and> AllocatedSize h = n \<and> \<not> IsMarked h)"

lemma destroyable_cong:
  assumes "destroyable H p zs" "\<forall>a. \<not> outside p a \<longrightarrow> H' a = H a"
  shows "destroyable H' p zs"
proof -
  have t: "tiles p zs (p + PayloadSize)" using assms(1) by (simp add: destroyable_def)
  have "H' x = H x" if "(x, n) \<in> set zs" for x n using tiles_in [OF t that] assms(2) by (auto simp: outside_def)
  then show ?thesis using assms(1) unfolding destroyable_def by fastforce
qed

lemma destroy_pages_ok:
  assumes "\<forall>p \<in> set ps. destroyable (memory s) p (Z p)" "distinct ps" "\<forall>p \<in> set ps. \<forall>q \<in> set ps. p \<noteq> q \<longrightarrow> no_overlap p kPageSize q kPageSize"
  shows "\<exists>s'. destroy_pages ps s = Some s' \<and>
    s' = s\<lparr>memory := memory s', finalized := finalized s @ concat (map (\<lambda>p. map ObjectStart (filter (dead (memory s)) (map fst (Z p)))) ps)\<rparr> \<and>
    (\<forall>a. (\<forall>p \<in> set ps. outside p a) \<longrightarrow> memory s' a = memory s a) \<and> (\<forall>a. (\<exists>p \<in> set ps. \<not> outside p a) \<longrightarrow> memory s' a = None)"
  using assms
proof (induction ps arbitrary: s)
  case Nil
  then show ?case by (intro exI [of _ s]) simp
next
  case (Cons p ps)
  let ?fin = "finalized s @ map ObjectStart (filter (dead (memory s)) (map fst (Z p)))"
  define s1 where "s1 = NormalPage_Destroy p (s\<lparr>finalized := ?fin\<rparr>)"
  have m1: "memory s1 a = (if outside p a then memory s a else None)" for a by (auto simp: s1_def NormalPage_Destroy_def erase_def outside_def)
  have w: "destroy_walk p (p + PayloadSize) (memory s) (finalized s) = Some ?fin"
    using destroy_walk_ok [of p "Z p" "p + PayloadSize" "memory s"] Cons.prems(1) by (simp add: destroyable_def)
  have agree: "\<forall>a. \<not> outside q a \<longrightarrow> memory s1 a = memory s a" if "q \<in> set ps" for q
    using apart_outside [of p q] Cons.prems(2,3) that m1 by auto
  have d: "\<forall>q \<in> set ps. destroyable (memory s1) q (Z q)" using destroyable_cong agree Cons.prems(1) by (meson list.set_intros(2))
  have dd: "concat (map (\<lambda>q. map ObjectStart (filter (dead (memory s1)) (map fst (Z q)))) ps) =
    concat (map (\<lambda>q. map ObjectStart (filter (dead (memory s)) (map fst (Z q)))) ps)"
  proof (rule arg_cong [where f = concat], rule map_cong [OF refl])
    fix q
    assume q: "q \<in> set ps"
    then have t: "tiles q (Z q) (q + PayloadSize)" using Cons.prems(1) by (simp add: destroyable_def)
    from page_cong(3) [OF t agree [OF q]]
    show "map ObjectStart (filter (dead (memory s1)) (map fst (Z q))) = map ObjectStart (filter (dead (memory s)) (map fst (Z q)))"
      by simp
  qed
  obtain s' where s': "destroy_pages ps s1 = Some s'"
    "s' = s1\<lparr>memory := memory s', finalized := finalized s1 @ concat (map (\<lambda>p. map ObjectStart (filter (dead (memory s1)) (map fst (Z p)))) ps)\<rparr>"
    "\<forall>a. (\<forall>p \<in> set ps. outside p a) \<longrightarrow> memory s' a = memory s1 a" "\<forall>a. (\<exists>p \<in> set ps. \<not> outside p a) \<longrightarrow> memory s' a = None"
    using Cons.IH [OF d] Cons.prems(2,3) by auto
  have "s' = s\<lparr>memory := memory s', finalized := finalized s @ concat (map (\<lambda>p. map ObjectStart (filter (dead (memory s)) (map fst (Z p)))) (p # ps))\<rparr>"
    by (subst s'(2)) (simp add: dd, simp add: s1_def NormalPage_Destroy_def)
  moreover have "memory s' a = memory s a" if "\<forall>q \<in> set (p # ps). outside q a" for a using that s'(3) m1 by simp
  moreover have "memory s' a = None" if "\<exists>q \<in> set (p # ps). \<not> outside q a" for a
    using that s'(3,4) m1 by (cases "\<exists>q \<in> set ps. \<not> outside q a") auto
  moreover have "destroy_pages (p # ps) s = Some s'" using w s'(1) by (simp add: s1_def)
  ultimately show ?case by (intro exI [of _ s']) blast
qed

lemma destroy_large_ok:
  assumes "distinct as" "\<forall>a \<in> set as. \<exists>h. memory s a = Some h \<and> 0 < AllocatedSize h"
    "\<forall>a \<in> set as. \<forall>b \<in> set as. a \<noteq> b \<longrightarrow> no_overlap a (large_size s a) b (large_size s b)"
  shows "\<exists>s'. destroy_large as s = Some s' \<and> s' = s\<lparr>memory := memory s', finalized := finalized s @ map ObjectStart as\<rparr> \<and>
    (\<forall>a. memory s a = None \<longrightarrow> memory s' a = None) \<and> (\<forall>a \<in> set as. memory s' a = None)"
  using assms
proof (induction as arbitrary: s)
  case Nil
  then show ?case by (intro exI [of _ s]) simp
next
  case (Cons a as)
  obtain h where h: "memory s a = Some h" "0 < AllocatedSize h" using Cons.prems(2) by auto
  define s1 where "s1 = s\<lparr>finalized := finalized s @ [ObjectStart a], memory := erase a (AllocatedSize h) (memory s)\<rparr>"
  have sb: "memory s1 b = memory s b" "large_size s1 b = large_size s b" if b: "b \<in> set as" for b
  proof -
    have "no_overlap a (AllocatedSize h) b (large_size s b)" "0 < large_size s b" using Cons.prems b h by (auto simp: large_size_def)
    then show "memory s1 b = memory s b" by (auto simp: s1_def erase_def no_overlap_def)
    then show "large_size s1 b = large_size s b" by (simp add: large_size_def)
  qed
  obtain s' where s': "destroy_large as s1 = Some s'" "s' = s1\<lparr>memory := memory s', finalized := finalized s1 @ map ObjectStart as\<rparr>"
    "\<forall>a. memory s1 a = None \<longrightarrow> memory s' a = None" "\<forall>a \<in> set as. memory s' a = None"
    using Cons.IH [of s1] Cons.prems sb by auto
  have "memory s1 x = None" if "memory s x = None \<or> x = a" for x using that h by (auto simp: s1_def erase_def)
  moreover have "s' = s\<lparr>memory := memory s', finalized := finalized s @ map ObjectStart (a # as)\<rparr>" by (subst s'(2)) (simp add: s1_def)
  moreover have "destroy_large (a # as) s = Some s'" using h s'(1) by (simp add: s1_def)
  ultimately show ?case using s'(3,4) by (intro exI [of _ s']) auto
qed

lemma rootless_log:
  assumes ok: "gc_heap_ok s" and Z: "\<forall>p \<in> set (normal_pages s). page_tiling s p (Z p)"
    and log: "log = concat (map (\<lambda>p. map ObjectStart (filter (dead (flushed s)) (map fst (Z p)))) (normal_pages s)) @ map ObjectStart (large_objects s)"
  shows "distinct log \<and> set log = heap_objects s"
proof -
  let ?s = "s\<lparr>strong_persistents := no_persistents\<rparr>"
  have ok': "gc_heap_ok ?s" by (rule strong_ok [OF ok no_persistents_ok]) simp
  have r: "live_objects ?s = {}"
  proof -
    have "False" if "reaches (members ?s) (strong_roots ?s) p" for p using that by induction (simp_all add: strong_roots_def)
    then show ?thesis by (auto simp: live_objects_def)
  qed
  have mf: "marked_flushed ?s = flushed s" unfolding marked_flushed_def r by (simp add: flushed_def)
  have pt: "\<forall>p \<in> set (normal_pages ?s). page_tiling ?s p (Z p)" 
  proof -
    have "cell_size ?s = cell_size s" by (auto simp: cell_size_def is_lab_def fun_eq_iff)
    then show ?thesis using Z by (simp add: page_tiling_def)
  qed
  have k: "filter (\<lambda>a. \<not> kept ?s a) (large_objects ?s) = large_objects s" by (simp add: kept_def r)
  have "log = concat (map (\<lambda>p. map ObjectStart (filter (dead (marked_flushed ?s)) (map fst (Z p)))) (normal_pages ?s)) @
      map ObjectStart (filter (\<lambda>a. \<not> kept ?s a) (large_objects ?s))"
    unfolding log mf k by simp
  from finalized_log [OF ok' pt this] show ?thesis using object_parts_cong(1) [of ?s s] by (simp add: r)
qed

lemma destroy_heap_ok:
  assumes ok: "gc_heap_ok s"
  shows "\<exists>s' log. destroy_heap s = Some s' \<and> finalized s' = finalized s @ log \<and> distinct log \<and> set log = heap_objects s \<and>
    (\<forall>p \<in> heap_objects s. memory s' (FromObject p) = None)"
proof -
  have l: "layout_ok s" and ba: "gc_blocks_apart s" using ok by (simp_all add: gc_heap_ok_def layout_ok_def)
  obtain Z where Z: "\<forall>p \<in> set (normal_pages s). page_tiling s p (Z p)"
    using bchoice [of "set (normal_pages s)" "page_tiling s"] layout_okD(3) [OF l] by blast
  have lab: "8 dvd lab_size s \<and> lab_size s < kPageSize \<and> lab_start s \<notin> list_blocks (free_list s)" if "0 < lab_size s" using lab_bounds [OF l that] by blast
  obtain fl where r: "ReplaceLinearAllocationBuffer 0 0 s = Some (s\<lparr>memory := flushed s, free_list := fl, lab_start := 0, lab_size := 0\<rparr>)"
    using ReplaceLAB_ok [OF layout_okD(6) [OF l] lab, of 0 0] by blast
  define s1 where "s1 = s\<lparr>memory := flushed s, free_list := fl, lab_start := 0, lab_size := 0\<rparr>"
  have f1 [simp]: "memory s1 = flushed s" "finalized s1 = finalized s" "normal_pages s1 = normal_pages s" "large_objects s1 = large_objects s" by (simp_all add: s1_def)
  have d: "destroyable (flushed s) p (Z p)" if p: "p \<in> set (normal_pages s)" for p
  proof -
    have t: "page_tiling s p (Z p)" using Z p by blast
    have "\<exists>h. flushed s x = Some h \<and> AllocatedSize h = n \<and> \<not> IsMarked h" if x: "(x, n) \<in> set (Z p)" for x n
    proof -
      have pc: "page_cell s x" using p t x by (auto simp: page_cell_def)
      have "map_option AllocatedSize (flushed s x) = Some n" using flushed_size [OF l, of x] page_tiling_bounds(5) [OF t x] by simp
      then obtain h where h: "flushed s x = Some h" "AllocatedSize h = n" by blast
      have "\<not> IsMarked h" using h(1) layout_okD(5) [OF l pc] new_header_size(3) by (auto simp: flushed_at split: if_splits)
      then show ?thesis using h by blast
    qed
    then show ?thesis using t by (auto simp: destroyable_def page_tiling_def)
  qed
  have dp: "\<forall>p \<in> set (normal_pages s). destroyable (memory s1) p (Z p)" "distinct (normal_pages s)"
    "\<forall>p \<in> set (normal_pages s). \<forall>q \<in> set (normal_pages s). p \<noteq> q \<longrightarrow> no_overlap p kPageSize q kPageSize"
    using d ba by (simp_all add: gc_blocks_apart_def)
  obtain s2 where s2: "destroy_pages (normal_pages s) s1 = Some s2"
    "s2 = s1\<lparr>memory := memory s2, finalized := finalized s1 @ concat (map (\<lambda>p. map ObjectStart (filter (dead (memory s1)) (map fst (Z p)))) (normal_pages s))\<rparr>"
    "\<forall>a. (\<forall>p \<in> set (normal_pages s). outside p a) \<longrightarrow> memory s2 a = memory s1 a" "\<forall>a. (\<exists>p \<in> set (normal_pages s). \<not> outside p a) \<longrightarrow> memory s2 a = None"
    using destroy_pages_ok [OF dp] by blast
  have lg: "memory s2 a = memory s a" "0 < large_size s a" if a: "a \<in> set (large_objects s)" for a
  proof -
    show b: "0 < large_size s a" using large_okD [OF layout_okD(2) [OF l] a] by auto
    have "\<forall>p \<in> set (normal_pages s). outside p a" using large_not_in_page [OF ba _ a b] by (simp add: outside_def)
    then show "memory s2 a = memory s a" using s2(3) flushed_object [OF l, of a] a by (simp add: object_header_def)
  qed
  have dl: "distinct (large_objects s)" "\<forall>a \<in> set (large_objects s). \<exists>h. memory s2 a = Some h \<and> 0 < AllocatedSize h"
    "\<forall>a \<in> set (large_objects s). \<forall>b \<in> set (large_objects s). a \<noteq> b \<longrightarrow> no_overlap a (large_size s2 a) b (large_size s2 b)"
    using ba lg layout_okD(2) [OF l] by (fastforce simp: gc_blocks_apart_def large_ok_def large_size_def)+
  obtain s3 where s3: "destroy_large (large_objects s) s2 = Some s3" "s3 = s2\<lparr>memory := memory s3, finalized := finalized s2 @ map ObjectStart (large_objects s)\<rparr>"
    "\<forall>a. memory s2 a = None \<longrightarrow> memory s3 a = None" "\<forall>a \<in> set (large_objects s). memory s3 a = None"
    using destroy_large_ok [OF dl] by blast
  let ?s' = "s3\<lparr>normal_pages := [], large_objects := []\<rparr>"
  have l2: "large_objects s2 = large_objects s" by (subst s2(2)) simp
  have D: "destroy_heap s = Some ?s'" using r s2(1) s3(1) l2 by (simp add: destroy_heap_def s1_def)
  have fin: "finalized s3 = finalized s @ concat (map (\<lambda>p. map ObjectStart (filter (dead (flushed s)) (map fst (Z p)))) (normal_pages s)) @ map ObjectStart (large_objects s)"
    by (subst s3(2), subst s2(2)) simp
  have gone: "memory s3 a = None" if o: "object_header s a" for a
  proof (cases "a \<in> set (large_objects s)")
    case False
    then have "page_cell s a" using o by (simp add: object_header_def)
    then obtain p zs n where z: "p \<in> set (normal_pages s)" "page_tiling s p zs" "(a, n) \<in> set zs" by (rule page_cellE)
    then have "\<exists>p \<in> set (normal_pages s). \<not> outside p a"
      using page_cell_in_page(1,2) [OF z(2,3)] by (intro bexI [OF _ z(1)]) (simp add: outside_def)
    then show ?thesis using s2(4) s3(3) by blast
  qed (use s3(4) in blast)
  have "\<forall>p \<in> heap_objects s. memory ?s' (FromObject p) = None" using gone heap_object_iff by simp
  moreover note D fin rootless_log [OF ok Z refl]
  ultimately show ?thesis
    by (intro exI [of _ ?s'] exI [of _ "concat (map (\<lambda>p. map ObjectStart (filter (dead (flushed s)) (map fst (Z p)))) (normal_pages s)) @ map ObjectStart (large_objects s)"] conjI)
      (simp_all del: distinct_append set_append set_concat)
qed

end
