(* ===== verification/Gc_Properties.thy ===== *)
theory Gc_Properties
  imports Gc_Client
begin

text \<open>
  The garbage-collected heap as a program sees it: what a collection keeps and finalizes, what an
  allocation returns, and that no run of a program ever meets a dangling pointer.
\<close>

subsection \<open>Collection\<close>

text \<open>C29. A collection of any well-formed heap succeeds and leaves a well-formed heap whose objects are
  exactly those the strong persistent handles reach through strong members.  They keep their headers
  and their members, weak members that referred to anything else become null, and so do weak handles.
  Every other object is finalized exactly once and no object that lives is.
\<close>

theorem collect_garbage_exact:
  assumes ok: "gc_heap_ok s"
  shows "\<exists>s' log. CollectGarbage s = Some s' \<and> gc_heap_ok s' \<and> heap_objects s' = live_objects s \<and>
    (\<forall>p \<in> live_objects s. memory s' (FromObject p) = memory s (FromObject p) \<and>
       members s' p = map (clear_dead (live_objects s)) (members s p)) \<and>
    root_value (strong_persistents s') = root_value (strong_persistents s) \<and>
    root_value (weak_persistents s') =
      (\<lambda>w. map_option (\<lambda>p. if p \<in> live_objects s then p else 0) (root_value (weak_persistents s) w)) \<and>
    finalized s' = finalized s @ log \<and> distinct log \<and> set log = heap_objects s - live_objects s"
proof -
  obtain s' log where s': "CollectGarbage s = Some s'" "collected s s'" "finalized s' = finalized s @ log" "distinct log"
    "set log = heap_objects s - live_objects s"
    using Collect_collected [OF ok] by blast
  have roots: "root_value (strong_persistents s') = root_value (strong_persistents s)"
    "root_value (weak_persistents s') = (\<lambda>w. map_option (\<lambda>p. if p \<in> live_objects s then p else 0) (root_value (weak_persistents s) w))"
    using s'(2) by (simp_all add: collected_def)
  show ?thesis
    using s'(1,3-5) collected_ok [OF ok s'(2)] collected_objects [OF ok s'(2)] collected_keeps [OF ok s'(2)] roots
    by (intro exI [of _ s'] exI [of _ log]) blast
qed

text \<open>A heap with one object, which nothing refers to.\<close>

lemma fresh_first_block: "host_blocks (\<lambda>_. Some 8) k new_heap"
  by (simp add: host_blocks_def fresh_block_def new_heap_def)

lemma one_object_heap:
  obtains p s where "gc_states s" "heap_objects s = {p}" "finalized s = []" "strong_persistents s = no_persistents"
proof -
  note fresh = fresh_first_block [of "allocation_size_of 16"]
  have n: "(16 :: nat) \<le> 131056" "(0 :: nat) < 1" "(1 :: nat) < 2 ^ 14" by simp_all
  have none: "\<forall>m \<in> set []. pointer_of m \<in> insert 0 (live_objects new_heap)" by simp
  obtain r s where r: "Heap_Allocate (\<lambda>_. Some 8) 16 1 new_heap = Some (r, s)"
    "case r of Aborts e \<Rightarrow> (Some (8 :: nat)) = None
     | Allocated p \<Rightarrow> \<exists>s0 a. p = ObjectStart a \<and> allocates_from (\<lambda>_. Some 8) new_heap s0 \<and> gc_heap_ok s0 \<and> layout_ok s \<and>
         adds_object s0 s a (new_header (allocation_size_of 16) 1)"
    using Heap_Allocate_ok [OF new_heap_ok n fresh] by blast
  then obtain p s0 a where p: "r = Allocated p" "p = ObjectStart a" "allocates_from (\<lambda>_. Some 8) new_heap s0"
    "adds_object s0 s a (new_header (allocation_size_of 16) 1)" by (cases r) auto
  have s0: "s0 = new_heap" using p(3) by (simp add: allocates_from_def)
  have ad: "gc_admissible (NewObject (\<lambda>_. Some 8) 16 1 []) new_heap" using fresh n none by simp
  obtain h where h: "memory s a = Some h" using p(4) by (auto simp: adds_object_def)
  define s' where "s' = s\<lparr>members := (members s)(p := []), memory := (memory s)(a \<mapsto> MarkAsFullyConstructed h)\<rparr>"
  have m: "MakeGarbageCollected (\<lambda>_. Some 8) 16 1 [] new_heap = Some (Allocated p, s')"
    using r(1) p(1,2) h by (simp add: MakeGarbageCollected_def s'_def)
  then have "gc_call (NewObject (\<lambda>_. Some 8) 16 1 []) new_heap = Some (True, s')" by simp
  then have st: "gc_states s'" by (rule heap_call [OF fresh_heap ad])
  have "finalized s' = []" "strong_persistents s' = no_persistents"
    using p(4) by (simp_all add: s'_def s0 adds_object_def new_heap_def)
  moreover have "\<exists>p. heap_objects s' = {p}"
    using Make_ok [OF new_heap_ok n fresh none] m new_heap_empty by auto
  ultimately show ?thesis using that st by blast
qed

lemma rootless_live:
  assumes "strong_persistents s = no_persistents"
  shows "live_objects s = {}"
proof -
  have "False" if "reaches (members s) (strong_roots s) p" for p
    using that by induction (simp_all add: strong_roots_def assms)
  then show ?thesis by (auto simp: live_objects_def)
qed

theorem collect_garbage_exact_witness:
  "\<exists>s p s'. heap_objects s = {p} \<and> CollectGarbage s = Some s' \<and> heap_objects s' = {} \<and> finalized s' = [p]"
proof -
  obtain p s where s: "gc_states s" "heap_objects s = {p}" "finalized s = []" "strong_persistents s = no_persistents"
    by (rule one_object_heap)
  note l = rootless_live [OF s(4)]
  from collect_garbage_exact [OF gc_states_ok [OF s(1)]]
  obtain s' log where s': "CollectGarbage s = Some s'" "heap_objects s' = live_objects s" "finalized s' = finalized s @ log"
    "distinct log" "set log = heap_objects s - live_objects s" by blast
  have "set log = {p}" using s'(5) s(2) l by simp
  then have "log = [p]" using s'(4) distinct_card [of log] by (cases log; cases "tl log") auto
  then show ?thesis using s s' l by (intro exI [of _ s] exI [of _ p] exI [of _ s']) simp
qed

subsection \<open>Allocation\<close>



text \<open>
  The free list gives out a block that was in it, of at least the size asked for, and takes it out;
  it turns a request down only when every block in it is smaller than twice the request, although a
  block in the bucket of the request that is not its first may have fitted.
\<close>

theorem free_list_allocate_fits:
  assumes "free_list_ok H fl" "2 \<le> n"
  shows "\<exists>r fl'. FreeList_Allocate n H fl = Some (r, fl') \<and> free_list_ok H fl' \<and>
    (case r of
       Some (e, k) \<Rightarrow> e \<in> list_blocks fl \<and> n \<le> k \<and> (\<exists>h. H e = Some h \<and> AllocatedSize h = k) \<and> list_blocks fl' = list_blocks fl - {e}
     | None \<Rightarrow> list_blocks fl' = list_blocks fl \<and> (\<forall>e \<in> list_blocks fl. \<exists>h. H e = Some h \<and> AllocatedSize h < 2 * n))"
proof -
  obtain r fl' where r: "FreeList_Allocate n H fl = Some (r, fl')" "free_list_ok H fl'"
    "case r of
       Some (e, k) \<Rightarrow> e \<in> list_blocks fl \<and> n \<le> k \<and> (\<exists>h. H e = Some h \<and> AllocatedSize h = k) \<and> list_blocks fl' = list_blocks fl - {e}
     | None \<Rightarrow> list_blocks fl' = list_blocks fl \<and> (\<forall>e \<in> list_blocks fl. \<forall>h. H e = Some h \<longrightarrow> AllocatedSize h < 2 * n)"
    using FreeList_Allocate_ok [OF assms] by (elim exE conjE) (rule that)
  have "\<exists>h. H e = Some h" if "e \<in> list_blocks fl" for e using list_block_header [OF assms(1) that] by blast
  then show ?thesis using r by (cases r) fastforce+
qed

theorem free_list_allocate_fits_witness:
  "\<exists>H fl fl'. FreeList_Add (8, 64) Map.empty FreeList_Clear = Some (H, fl) \<and>
     FreeList_Allocate 32 H fl = Some (Some (8, 64), fl') \<and> list_blocks fl' = {}"
proof -
  obtain fl where fl: "FreeList_Add (8, 64) Map.empty FreeList_Clear = Some ([8 \<mapsto> new_header 64 0], fl)"
    "free_list_ok [8 \<mapsto> new_header 64 0] fl" "list_blocks fl = {8}"
    using Add_ok [of Map.empty FreeList_Clear 64 8] by (auto simp: kFreeListEntrySize_def)
  have a: "AllocatedSize (new_header 64 0) = 64" by (simp add: kMaxSize_def)
  show ?thesis using free_list_allocate_fits [OF fl(2), of 32] fl(1,3) a by (auto split: option.splits)
qed

subsection \<open>Programs\<close>

text \<open>C28. In every state a program reaches by allocating, assigning members and handles, moving and dropping
  handles and collecting, every further such call has a defined result; every object has a header, every
  member and every handle holds null or an object, and no two objects overlap.
\<close>

theorem gc_runs_never_dangle:
  assumes "gc_states s" "gc_admissible c s"
  shows "gc_call c s \<noteq> None \<and>
    (\<forall>p \<in> heap_objects s. (\<exists>h. memory s (FromObject p) = Some h \<and> \<not> IsFree h) \<and>
       (\<forall>m \<in> set (members s p). pointer_of m \<in> insert 0 (heap_objects s)) \<and>
       (\<forall>q \<in> heap_objects s. p = q \<or> no_overlap (FromObject p) (object_size s p) (FromObject q) (object_size s q))) \<and>
    ran (root_value (strong_persistents s)) \<union> ran (root_value (weak_persistents s)) \<subseteq> insert 0 (heap_objects s)"
proof -
  note ok = gc_states_ok [OF assms(1)]
  have l: "layout_ok s" and p: "pointers_ok s" using gc_heap_okD [OF ok] by blast+
  have h: "\<exists>h. memory s (FromObject p) = Some h \<and> \<not> IsFree h" if "p \<in> heap_objects s" for p
    using object_header_memory [OF l, of "FromObject p"] that heap_object_iff by auto
  have ap: "p = q \<or> no_overlap (FromObject p) (object_size s p) (FromObject q) (object_size s q)"
    if "p \<in> heap_objects s" "q \<in> heap_objects s" for p q using objects_apart [OF l that] by blast
  have r: "ran (root_value (strong_persistents s)) \<union> ran (root_value (weak_persistents s)) \<subseteq> insert 0 (heap_objects s)"
    using p unfolding pointers_ok_def ran_def by blast
  have m: "pointer_of m \<in> insert 0 (heap_objects s)" if "p \<in> heap_objects s" "m \<in> set (members s p)" for p m
    using p that unfolding pointers_ok_def by blast
  show ?thesis using gc_call_ok [OF ok assms(2)] h ap m r by (intro conjI ballI) auto
qed

theorem gc_runs_never_dangle_witness:
  "\<exists>s p. gc_states s \<and> heap_objects s = {p} \<and> gc_call CollectNow s \<noteq> None \<and> ran (root_value (weak_persistents s)) \<subseteq> {0, p}"
proof -
  obtain p s where s: "gc_states s" "heap_objects s = {p}" by (rule one_object_heap)
  show ?thesis using gc_runs_never_dangle [of s CollectNow] s by auto
qed

text \<open>C31. Destroying any well-formed heap finalizes every object on it exactly once, reachable or not, and
  leaves none of their headers behind.
\<close>

theorem destroy_heap_finalizes_all:
  assumes "gc_heap_ok s"
  shows "\<exists>s' log. destroy_heap s = Some s' \<and> finalized s' = finalized s @ log \<and> distinct log \<and> set log = heap_objects s \<and>
    (\<forall>p \<in> heap_objects s. memory s' (FromObject p) = None)"
  by (rule destroy_heap_ok [OF assms])

theorem destroy_heap_finalizes_all_witness:
  "\<exists>s p s'. heap_objects s = {p} \<and> destroy_heap s = Some s' \<and> finalized s' = [p]"
proof -
  obtain p s where s: "gc_states s" "heap_objects s = {p}" "finalized s = []" by (rule one_object_heap)
  from destroy_heap_finalizes_all [OF gc_states_ok [OF s(1)]]
  obtain s' log where s': "destroy_heap s = Some s'" "finalized s' = finalized s @ log" "distinct log" "set log = {p}"
    unfolding s(2) by blast
  have "log = [p]" using s'(3,4) distinct_card [of log] by (cases log; cases "tl log") auto
  then show ?thesis using s s' by (intro exI [of _ s] exI [of _ p] exI [of _ s']) simp
qed

subsection \<open>Two limits\<close>

text \<open>
  The free list may have no block for a request although one fits: of the bucket of the request it
  looks at the first block only.
\<close>

lemma free_list_misses_block:
  "\<exists>H fl H' fl' fl''. FreeList_Add (8, 56) Map.empty FreeList_Clear = Some (H, fl) \<and> FreeList_Add (80, 32) H fl = Some (H', fl') \<and>
     8 \<in> list_blocks fl' \<and> map_option AllocatedSize (H' 8) = Some 56 \<and> FreeList_Allocate 40 H' fl' = Some (None, fl'')"
proof -
  have ix: "BucketIndexForSize 56 = 5" "BucketIndexForSize 32 = 5" using BucketIndexForSize_eq [of 5] by simp_all
  have k: "kMaxSize = 131071" by (simp add: kMaxSize_def)
  have a: "AllocatedSize (new_header 32 0) = 32" "AllocatedSize (new_header 56 0) = 56" by (simp_all add: k)
  define fl where "fl xs = FreeList_Clear\<lparr>free_list_heads := (replicate 17 [])[5 := xs],
    free_list_tails := (replicate 17 None)[5 := Some 8], biggest_free_list_index := 5\<rparr>" for xs
  let ?H = "[8 \<mapsto> new_header 56 0]" and ?H' = "[8 \<mapsto> new_header 56 0, 80 \<mapsto> new_header 32 0]"
  have "FreeList_Add (8, 56) Map.empty FreeList_Clear = Some (?H, fl [8])"
    by (simp add: FreeList_Add_def FreeList_Clear_def fl_def kFreeListGCInfoIndex_def kFreeListEntrySize_def u32_def ix nth_opt_def kPageSizeLog2_def)
  moreover have "FreeList_Add (80, 32) ?H (fl [8]) = Some (?H', fl [80, 8])"
    by (simp add: FreeList_Add_def FreeList_Clear_def fl_def kFreeListGCInfoIndex_def kFreeListEntrySize_def u32_def ix nth_opt_def kPageSizeLog2_def)
  moreover have "8 \<in> list_blocks (fl [80, 8])" unfolding in_list_blocks by (intro exI [of _ 5]) (simp add: fl_def)
  moreover have "FreeList_Allocate 40 ?H' (fl [80, 8]) = Some (None, fl [80, 8]\<lparr>biggest_free_list_index := Suc 4\<rparr>)"
  proof -
    have b: "biggest_free_list_index (fl [80, 8]) = Suc 4" "free_list_heads (fl [80, 8]) ! Suc 4 = [80, 8]" "length (free_list_heads (fl [80, 8])) = 17"
      by (simp_all add: fl_def)
    show ?thesis unfolding FreeList_Allocate_def b(1) FreeList_search.simps nth_opt_def by (simp add: b(3) b(2) [simplified] a)
  qed
  ultimately show ?thesis using a(2)
    by (intro exI [of _ ?H] exI [of _ "fl [8]"] exI [of _ ?H'] exI [of _ "fl [80, 8]"] exI [of _ "fl [80, 8]\<lparr>biggest_free_list_index := Suc 4\<rparr>"] conjI) simp_all
qed

text \<open>
  A collection does not ask whether an object is still under construction: one that nothing refers to
  yet is finalized.  An allocation in a constructor may collect.
\<close>

lemma collects_under_construction:
  "\<exists>p s s'. Heap_Allocate (\<lambda>_. Some 8) 16 1 new_heap = Some (Allocated p, s) \<and> IsInConstruction (the (memory s (FromObject p))) \<and>
     CollectGarbage s = Some s' \<and> finalized s' = [p]"
proof -
  have n: "(16 :: nat) \<le> 131056" "(0 :: nat) < 1" "(1 :: nat) < 2 ^ 14" by simp_all
  obtain r s where r: "Heap_Allocate (\<lambda>_. Some 8) 16 1 new_heap = Some (r, s)"
    "case r of Aborts e \<Rightarrow> (Some (8 :: nat)) = None
     | Allocated p \<Rightarrow> \<exists>s0 a. p = ObjectStart a \<and> allocates_from (\<lambda>_. Some 8) new_heap s0 \<and> gc_heap_ok s0 \<and> layout_ok s \<and>
         adds_object s0 s a (new_header (allocation_size_of 16) 1)"
    using Heap_Allocate_ok [OF new_heap_ok n fresh_first_block] by blast
  then obtain p s0 a where p: "r = Allocated p" "p = ObjectStart a" "allocates_from (\<lambda>_. Some 8) new_heap s0" "layout_ok s"
    "adds_object s0 s a (new_header (allocation_size_of 16) 1)" by (cases r) auto
  have s0: "s0 = new_heap" using p(3) by (simp add: allocates_from_def)
  have ob: "heap_objects s = {p}" using objects_of_headers [of s s0 a] p(5) new_heap_empty by (simp add: adds_object_def s0 p(2))
  have pe: "strong_persistents s = no_persistents" "weak_persistents s = no_persistents" "members s = (\<lambda>_. [])" "finalized s = []"
    using p(5) by (simp_all add: adds_object_def s0 new_heap_def)
  have "gc_heap_ok s" using p(4) by (simp add: gc_heap_ok_def pointers_ok_def pe)
  from Collect_collected [OF this] obtain s' log where
    s': "CollectGarbage s = Some s'" "finalized s' = log" "distinct log" "set log = {p}"
    using rootless_live [OF pe(1)] by (auto simp: ob pe(4))
  have "log = [p]" using s'(3,4) distinct_card [of log] by (cases log; cases "tl log") auto
  moreover have "IsInConstruction (the (memory s (FromObject p)))" using p(2,5) by (simp add: adds_object_def)
  ultimately show ?thesis using r(1) p(1) s' by auto
qed

end
