(* ===== verification/Wire_Format.thy ===== *)
theory Wire_Format
  imports Voodoo_Prelude
begin

text \<open>
  Fixed-width little-endian numbers in byte buffers, and the places of the fields of a message
  header (\<open>WASMHolePunch/include/whp/codec.h\<close>, \<open>WASMCadidumBindings/.../lib/message_internal.h\<close> and
  \<open>lib/wire_primitives.h\<close>).  A read outside the buffer is \<open>None\<close>.
\<close>

named_theorems wire_simps \<open>reading back what was written\<close>

subsection \<open>Little-endian numbers\<close>

fun le_bytes :: "nat \<Rightarrow> nat \<Rightarrow> byte list" where
  "le_bytes 0 v = []"
| "le_bytes (Suc k) v = of_nat v # le_bytes k (v div 256)"

fun le_value :: "byte list \<Rightarrow> nat" where
  "le_value [] = 0"
| "le_value (b # bs) = unat b + 256 * le_value bs"

lemma length_le_bytes [simp]: "length (le_bytes k v) = k"
  by (induction k arbitrary: v) simp_all

lemma unat_byte: "unat (of_nat v :: byte) = v mod 256"
  by (simp add: unat_of_nat take_bit_eq_mod)

lemma le_value_bytes [wire_simps]: "v < 256 ^ k \<Longrightarrow> le_value (le_bytes k v) = v"
proof (induction k arbitrary: v)
  case (Suc k)
  then have "v div 256 < 256 ^ k" by (simp add: less_mult_imp_div_less mult.commute)
  with Suc.IH show ?case by (simp add: unat_byte)
qed simp

lemma le_bytes_value: "le_bytes (length bs) (le_value bs) = bs"
proof (induction bs)
  case (Cons b bs)
  have "unat b < 256" using unsigned_less [of b, where ?'a = nat] by simp
  then have "(unat b + 256 * le_value bs) div 256 = le_value bs" by simp
  moreover have "of_nat (unat b + 256 * le_value bs) = b"
    by (rule word_unat_eq_iff [THEN iffD2], subst unat_byte) (use \<open>unat b < 256\<close> in simp)
  ultimately show ?case using Cons.IH by simp
qed simp

lemma le_value_bound: "le_value bs < 256 ^ length bs"
proof (induction bs)
  case (Cons b bs)
  have "unat b < 256" using unsigned_less [of b, where ?'a = nat] by simp
  with Cons.IH show ?case by simp
qed simp

subsection \<open>Loads and stores\<close>

definition load :: "nat \<Rightarrow> byte list \<Rightarrow> nat \<Rightarrow> nat option" where
  "load k bs i = (if i + k \<le> length bs then Some (le_value (take k (drop i bs))) else None)"

definition store :: "nat \<Rightarrow> nat \<Rightarrow> nat \<Rightarrow> byte list \<Rightarrow> byte list" where
  "store k i v bs = take i bs @ le_bytes k v @ drop (i + k) bs"

lemma length_store [simp]: "i + k \<le> length bs \<Longrightarrow> length (store k i v bs) = length bs"
  by (simp add: store_def)

lemma load_SomeD:
  assumes "load k bs i = Some v"
  shows "i + k \<le> length bs" "v = le_value (take k (drop i bs))" "length (take k (drop i bs)) = k"
  using assms by (auto simp: load_def split: if_splits)

lemma load_bound: "load k bs i = Some v \<Longrightarrow> v < 256 ^ k"
  using load_SomeD [of k bs i v] le_value_bound [of "take k (drop i bs)"] by metis

lemma load_store_same [wire_simps]: "i + k \<le> length bs \<Longrightarrow> v < 256 ^ k \<Longrightarrow> load k (store k i v bs) i = Some v"
  by (simp add: load_def store_def le_value_bytes)

lemma load_store_other [wire_simps]:
  assumes "i + k \<le> length bs" "j + l \<le> i \<or> i + k \<le> j"
  shows "load l (store k i v bs) j = load l bs j"
proof (cases "j + l \<le> length bs")
  case True
  have "take l (drop j (store k i v bs)) = take l (drop j bs)"
  proof (cases "j + l \<le> i")
    case True
    then show ?thesis using assms(1) by (simp add: store_def drop_take)
  next
    case False
    then have "drop j (store k i v bs) = drop j bs" using assms by (auto simp: store_def)
    then show ?thesis by simp
  qed
  then show ?thesis using assms(1) by (simp add: load_def)
qed (use assms(1) in \<open>simp add: load_def\<close>)

lemma load_append [wire_simps]: "i + k \<le> length bs \<Longrightarrow> load k (bs @ cs) i = load k bs i"
  by (simp add: load_def)

lemma drop_store [wire_simps]: "i + k \<le> length bs \<Longrightarrow> i + k \<le> j \<Longrightarrow> drop j (store k i v bs) = drop j bs"
  by (simp add: store_def)

lemma store_append [wire_simps]: "i + k \<le> length bs \<Longrightarrow> store k i v (bs @ cs) = store k i v bs @ cs"
  by (simp add: store_def)

lemma store_load_id:
  assumes "load k bs i = Some v"
  shows "store k i v bs = bs"
proof -
  note l = load_SomeD [OF assms]
  have "le_bytes k v = take k (drop i bs)" using le_bytes_value [of "take k (drop i bs)"] l(2,3) by metis
  moreover have "take k (drop i bs) @ drop (i + k) bs = drop i bs" by (metis append_take_drop_id drop_drop add.commute)
  ultimately show ?thesis by (simp add: store_def)
qed

subsection \<open>The fields of a message header\<close>

text \<open>Offsets in \<open>MessageHeader\<close>, \<open>MessageHeaderV1\<close>, \<open>MessageHeaderV2\<close> and \<open>MessageHeaderV3\<close>.\<close>

abbreviation (input) "off_num_bytes \<equiv> 0 :: nat"
abbreviation (input) "off_version \<equiv> 4 :: nat"
abbreviation (input) "off_interface_id \<equiv> 8 :: nat"
abbreviation (input) "off_name \<equiv> 12 :: nat"
abbreviation (input) "off_flags \<equiv> 16 :: nat"
abbreviation (input) "off_trace_nonce \<equiv> 20 :: nat"
abbreviation (input) "off_request_id \<equiv> 24 :: nat"
abbreviation (input) "off_payload \<equiv> 32 :: nat"
abbreviation (input) "off_interface_ids \<equiv> 40 :: nat"
abbreviation (input) "off_timeticks \<equiv> 48 :: nat"

definition load32 :: "byte list \<Rightarrow> nat \<Rightarrow> nat option" where
  "load32 = load 4"

definition load64 :: "byte list \<Rightarrow> nat \<Rightarrow> nat option" where
  "load64 = load 8"

definition store32 :: "nat \<Rightarrow> nat \<Rightarrow> byte list \<Rightarrow> byte list" where
  "store32 = store 4"

definition store64 :: "nat \<Rightarrow> nat \<Rightarrow> byte list \<Rightarrow> byte list" where
  "store64 = store 8"

lemmas wire_defs = load32_def load64_def store32_def store64_def

text \<open>Flags of a message and ids of interfaces.\<close>

definition kFlagExpectsResponse :: nat where "kFlagExpectsResponse = 1"
definition kFlagIsResponse :: nat where "kFlagIsResponse = 2"
definition kPrimaryInterfaceId :: nat where "kPrimaryInterfaceId = 0"
definition kInvalidInterfaceId :: nat where "kInvalidInterfaceId = 0xFFFFFFFF"
definition kInterfaceIdNamespaceMask :: nat where "kInterfaceIdNamespaceMask = 0x80000000"

definition IsPrimaryInterfaceId :: "nat \<Rightarrow> bool" where
  "IsPrimaryInterfaceId i \<longleftrightarrow> i = kPrimaryInterfaceId"

definition IsValidInterfaceId :: "nat \<Rightarrow> bool" where
  "IsValidInterfaceId i \<longleftrightarrow> i \<noteq> kInvalidInterfaceId"

lemma load_drop_take: "i + k \<le> length bs \<Longrightarrow> load k bs i = Some (le_value (take k (drop i bs)))"
  by (simp add: load_def)

lemma load_shift: "load k (as @ bs) (length as + i) = load k bs i"
  by (simp add: load_def)

lemma load_le_bytes [wire_simps]: "v < 256 ^ k \<Longrightarrow> load k (le_bytes k v @ bs) 0 = Some v"
  by (simp add: load_def le_value_bytes)

end
