(* ===== verification/Mojo_Message.thy ===== *)
theory Mojo_Message
  imports Wire_Format
begin

text \<open>
  Messages of the bindings (\<open>WASMCadidumBindings/src/message.cc\<close>) and the reading and writing of their
  fields (\<open>lib/wire_primitives.h\<close>).  A message is its wire bytes, a version 2 header with the payload
  behind it, and the handles it carries.  A result \<open>None\<close> stands for an access outside the buffer.
\<close>

record MojoMessage =
  mm_buffer :: "byte list"
  mm_handles :: "nat list"

definition null_message :: MojoMessage where
  "null_message = \<lparr>mm_buffer = [], mm_handles = []\<rparr>"

definition IsNull :: "MojoMessage \<Rightarrow> bool" where
  "IsNull m \<longleftrightarrow> mm_buffer m = []"

definition kV2PayloadOffset :: nat where
  "kV2PayloadOffset = 48 - 32"

definition HeaderSizeForVersion :: "nat \<Rightarrow> nat" where
  "HeaderSizeForVersion version = (if version = 0 then 24 else if version = 1 then 32 else 48)"

definition make_message :: "nat \<Rightarrow> nat \<Rightarrow> nat \<Rightarrow> MojoMessage" where
  "make_message name flags interface_id =
     (let h = replicate 48 0;
          h = store32 off_num_bytes (length h) h;
          h = store32 off_version 2 h;
          h = store32 off_interface_id interface_id h;
          h = store32 off_name name h;
          h = store32 off_flags flags h;
          h = store32 off_trace_nonce 0 h;
          h = store64 off_request_id 0 h;
          h = store64 off_payload kV2PayloadOffset h;
          h = store64 off_interface_ids 0 h
      in \<lparr>mm_buffer = h, mm_handles = []\<rparr>)"

definition WritePayload :: "byte list \<Rightarrow> MojoMessage \<Rightarrow> MojoMessage option" where
  "WritePayload bytes m =
     (let b = mm_buffer m @ bytes
      in if length b < 4 then None
         else Some (m\<lparr>mm_buffer := store32 off_num_bytes (u32 (length b)) b\<rparr>))"

text \<open>Fields of the header.\<close>

definition version :: "MojoMessage \<Rightarrow> nat option" where
  "version m = load32 (mm_buffer m) off_version"

definition interface_id :: "MojoMessage \<Rightarrow> nat option" where
  "interface_id m = load32 (mm_buffer m) off_interface_id"

definition msg_name :: "MojoMessage \<Rightarrow> nat option" where
  "msg_name m = load32 (mm_buffer m) off_name"

definition flags :: "MojoMessage \<Rightarrow> nat option" where
  "flags m = load32 (mm_buffer m) off_flags"

definition request_id :: "MojoMessage \<Rightarrow> nat option" where
  "request_id m = load64 (mm_buffer m) off_request_id"

definition set_interface_id :: "nat \<Rightarrow> MojoMessage \<Rightarrow> MojoMessage" where
  "set_interface_id i m = m\<lparr>mm_buffer := store32 off_interface_id i (mm_buffer m)\<rparr>"

definition set_request_id :: "nat \<Rightarrow> MojoMessage \<Rightarrow> MojoMessage" where
  "set_request_id i m = m\<lparr>mm_buffer := store64 off_request_id i (mm_buffer m)\<rparr>"

definition AttachHandle :: "nat \<Rightarrow> MojoMessage \<Rightarrow> MojoMessage" where
  "AttachHandle h m = m\<lparr>mm_handles := mm_handles m @ [h]\<rparr>"

definition TakeHandles :: "MojoMessage \<Rightarrow> nat list \<times> MojoMessage" where
  "TakeHandles m = (mm_handles m, m\<lparr>mm_handles := []\<rparr>)"

text \<open>Where the payload starts, counted from the start of the buffer; the empty buffer has none.\<close>

definition payload :: "MojoMessage \<Rightarrow> nat option" where
  "payload m =
     do { v \<leftarrow> version m;
          if v < 2 then Some 32
          else do { offset \<leftarrow> load64 (mm_buffer m) off_payload;
                    if offset = 0 then Some 48 else Some ((off_payload + offset) mod 2 ^ 64) } }"

definition payload_num_bytes :: "MojoMessage \<Rightarrow> nat option" where
  "payload_num_bytes m =
     (if mm_buffer m = [] then Some 0 else do { p \<leftarrow> payload m; Some (sub32 (length (mm_buffer m)) p) })"

subsection \<open>Messages from the wire\<close>

text \<open>The second component says whether \<open>num_bytes\<close> was written through a pointer into a buffer that the
  growing vector had freed; \<open>capacity\<close> is what the vector has after it is resized to the header.  A
  null message is the answer to bytes that are refused.\<close>

definition incoming_payload :: "byte list \<Rightarrow> nat \<Rightarrow> (nat \<times> nat) option option" where
  "incoming_payload bytes v =
     (let start = HeaderSizeForVersion v
      in if 2 \<le> v then
           do { offset \<leftarrow> load64 bytes off_payload;
                if offset \<noteq> 0 then
                  (let p = (off_payload + offset) mod 2 ^ 64
                   in if length bytes < p then Some None else Some (Some (p, u32 (length bytes - p))))
                else Some (Some (start, u32 (length bytes - start))) }
         else Some (Some (start, u32 (length bytes - start))))"

definition WrapWireBytes :: "nat \<Rightarrow> byte list \<Rightarrow> nat list \<Rightarrow> (MojoMessage \<times> bool) option" where
  "WrapWireBytes capacity bytes handles =
     (if length bytes < 24 then Some (null_message, False)
      else do {
        v \<leftarrow> load32 bytes off_version;
        if 2 < v then Some (null_message, False)
        else if length bytes < HeaderSizeForVersion v then Some (null_message, False)
        else do {
          inc \<leftarrow> incoming_payload bytes v;
          case inc of
            None \<Rightarrow> Some (null_message, False)
          | Some (p, n) \<Rightarrow> do {
              request \<leftarrow> (if 1 \<le> v then load64 bytes off_request_id else Some 0);
              let h = take 24 bytes @ replicate 24 0;
              let h = store32 off_version 2 h;
              let h = store64 off_request_id request h;
              let h = store64 off_payload kV2PayloadOffset h;
              let h = store64 off_interface_ids 0 h;
              let b = h @ take n (drop p bytes);
              let dangling = capacity < length b;
              let b = (if dangling then b else store32 off_num_bytes (u32 (length b)) b);
              Some (\<lparr>mm_buffer = b, mm_handles = handles\<rparr>, dangling) } } })"

subsection \<open>Fields\<close>

definition WriteScalar :: "nat \<Rightarrow> nat \<Rightarrow> MojoMessage \<Rightarrow> MojoMessage option" where
  "WriteScalar k v m = WritePayload (le_bytes k v) m"

text \<open>The value and the new offset, or \<open>None\<close> inside for a truncated message.\<close>

definition ReadScalar :: "nat \<Rightarrow> MojoMessage \<Rightarrow> nat \<Rightarrow> (nat \<times> nat) option option" where
  "ReadScalar k m offset =
     do { p \<leftarrow> (if mm_buffer m = [] then Some 0 else payload m);
          avail \<leftarrow> payload_num_bytes m;
          if avail < add64 offset k then Some None
          else do { v \<leftarrow> load k (mm_buffer m) (p + offset); Some (Some (v, offset + k)) } }"

definition WriteString :: "byte list \<Rightarrow> MojoMessage \<Rightarrow> MojoMessage option" where
  "WriteString s m =
     do { m \<leftarrow> WriteScalar 4 (u32 (length s)) m; if s \<noteq> [] then WritePayload s m else Some m }"

definition ReadString :: "MojoMessage \<Rightarrow> nat \<Rightarrow> (byte list \<times> nat) option option" where
  "ReadString m offset =
     do { r \<leftarrow> ReadScalar 4 m offset;
          case r of
            None \<Rightarrow> Some None
          | Some (len, offset) \<Rightarrow>
              do { p \<leftarrow> payload m;
                   avail \<leftarrow> payload_num_bytes m;
                   if avail < add64 offset len then Some None
                   else if length (mm_buffer m) < p + offset + len then None
                   else Some (Some (take len (drop (p + offset) (mm_buffer m)), offset + len)) } }"

definition WriteStructHeader :: "nat \<Rightarrow> nat \<Rightarrow> MojoMessage \<Rightarrow> MojoMessage option" where
  "WriteStructHeader num_bytes ver m = do { m \<leftarrow> WriteScalar 4 num_bytes m; WriteScalar 4 ver m }"

definition ReadStructHeader :: "MojoMessage \<Rightarrow> nat \<Rightarrow> ((nat \<times> nat) \<times> nat) option option" where
  "ReadStructHeader m offset =
     do { r \<leftarrow> ReadScalar 4 m offset;
          case r of
            None \<Rightarrow> Some None
          | Some (num_bytes, offset) \<Rightarrow>
              do { r \<leftarrow> ReadScalar 4 m offset;
                   case r of None \<Rightarrow> Some None | Some (ver, offset) \<Rightarrow> Some (Some ((num_bytes, ver), offset)) } }"

text \<open>Patching a header at a place of the buffer.\<close>

definition PatchStructHeader :: "nat \<Rightarrow> nat \<Rightarrow> nat \<Rightarrow> byte list \<Rightarrow> byte list" where
  "PatchStructHeader dest num_bytes ver b = store32 (dest + 4) ver (store32 dest num_bytes b)"

definition PatchUint32 :: "nat \<Rightarrow> nat \<Rightarrow> byte list \<Rightarrow> byte list" where
  "PatchUint32 dest v b = store32 dest v b"

text \<open>Patching a struct header that was written blank gives the header written at once.\<close>

lemma patch_struct_header:
  "PatchStructHeader (length as) n v (as @ le_bytes 4 x @ le_bytes 4 y @ bs) = as @ le_bytes 4 n @ le_bytes 4 v @ bs"
  by (simp add: PatchStructHeader_def wire_defs store_def)

end
