(* ===== verification/Message_Properties.thy ===== *)
theory Message_Properties
  imports Mojo_Message
begin

text \<open>
  Properties of messages: the header of a message is well formed, fields are read back as they were
  written, and bytes from the wire are normalised to a version 2 message.
\<close>

subsection \<open>Well-formed messages\<close>

definition msg_ok :: "MojoMessage \<Rightarrow> bool" where
  "msg_ok m \<longleftrightarrow> 48 \<le> length (mm_buffer m) \<and> length (mm_buffer m) < 2 ^ 32 \<and> version m = Some 2 \<and>
     load64 (mm_buffer m) off_payload = Some 16"

definition payload_bytes :: "MojoMessage \<Rightarrow> byte list" where
  "payload_bytes m = drop 48 (mm_buffer m)"

text \<open>The fields of the header that a receiver looks at.\<close>

definition header_of :: "MojoMessage \<Rightarrow> nat option \<times> nat option \<times> nat option \<times> nat option" where
  "header_of m = (interface_id m, msg_name m, flags m, request_id m)"

lemma msg_ok_payload:
  assumes "msg_ok m"
  shows "payload m = Some 48" "payload_num_bytes m = Some (length (payload_bytes m))" "length (mm_buffer m) = 48 + length (payload_bytes m)"
  using assms by (auto simp: msg_ok_def payload_def payload_num_bytes_def payload_bytes_def sub32_id)

lemma make_message_ok:
  assumes "name < 2 ^ 32" "fl < 2 ^ 32" "iface < 2 ^ 32"
  shows "msg_ok (make_message name fl iface)" "payload_bytes (make_message name fl iface) = []"
    "header_of (make_message name fl iface) = (Some iface, Some name, Some fl, Some 0)"
  using assms by (simp_all add: msg_ok_def make_message_def Let_def payload_bytes_def header_of_def version_def interface_id_def msg_name_def
      flags_def request_id_def wire_defs wire_simps kV2PayloadOffset_def)

lemma WritePayload_ok:
  assumes ok: "msg_ok m" and len: "length (mm_buffer m) + length bytes < 2 ^ 32"
  shows "\<exists>m'. WritePayload bytes m = Some m' \<and> msg_ok m' \<and> payload_bytes m' = payload_bytes m @ bytes \<and>
    header_of m' = header_of m \<and> mm_handles m' = mm_handles m \<and> load32 (mm_buffer m') off_num_bytes = Some (length (mm_buffer m'))"
proof -
  have l: "48 \<le> length (mm_buffer m)" using ok by (simp add: msg_ok_def)
  then show ?thesis using ok len
    by (simp add: WritePayload_def Let_def msg_ok_def header_of_def payload_bytes_def version_def interface_id_def msg_name_def
        flags_def request_id_def wire_defs wire_simps u32_id)
qed

subsection \<open>Fields\<close>

datatype Field = Scalar nat nat | Str "byte list"
datatype Shape = ScalarOf nat | StrOf

fun field_bytes :: "Field \<Rightarrow> byte list" where
  "field_bytes (Scalar k v) = le_bytes k v"
| "field_bytes (Str s) = le_bytes 4 (length s) @ s"

fun field_ok :: "Field \<Rightarrow> bool" where
  "field_ok (Scalar k v) \<longleftrightarrow> k \<le> 8 \<and> v < 256 ^ k"
| "field_ok (Str s) \<longleftrightarrow> length s < 2 ^ 32"

fun shape_of :: "Field \<Rightarrow> Shape" where
  "shape_of (Scalar k v) = ScalarOf k"
| "shape_of (Str s) = StrOf"

fun write_field :: "Field \<Rightarrow> MojoMessage \<Rightarrow> MojoMessage option" where
  "write_field (Scalar k v) m = WriteScalar k v m"
| "write_field (Str s) m = WriteString s m"

fun read_field :: "Shape \<Rightarrow> MojoMessage \<Rightarrow> nat \<Rightarrow> (Field \<times> nat) option option" where
  "read_field (ScalarOf k) m i = map_option (map_option (\<lambda>(v, j). (Scalar k v, j))) (ReadScalar k m i)"
| "read_field StrOf m i = map_option (map_option (\<lambda>(s, j). (Str s, j))) (ReadString m i)"

text \<open>Fields in sequence, as generated code writes and reads them.\<close>

fun write_fields :: "Field list \<Rightarrow> MojoMessage \<Rightarrow> MojoMessage option" where
  "write_fields [] m = Some m"
| "write_fields (f # fs) m = do { m \<leftarrow> write_field f m; write_fields fs m }"

fun read_fields :: "Shape list \<Rightarrow> MojoMessage \<Rightarrow> nat \<Rightarrow> (Field list \<times> nat) option option" where
  "read_fields [] m i = Some (Some ([], i))"
| "read_fields (s # ss) m i =
     do { r \<leftarrow> read_field s m i;
          case r of
            None \<Rightarrow> Some None
          | Some (f, i) \<Rightarrow> do { r \<leftarrow> read_fields ss m i;
                               case r of None \<Rightarrow> Some None | Some (fs, i) \<Rightarrow> Some (Some (f # fs, i)) } }"

definition fields_bytes :: "Field list \<Rightarrow> byte list" where
  "fields_bytes fs = concat (map field_bytes fs)"

lemma fields_bytes_simps [simp]: "fields_bytes [] = []" "fields_bytes (f # fs) = field_bytes f @ fields_bytes fs"
  by (simp_all add: fields_bytes_def)

lemma write_field_ok:
  assumes ok: "msg_ok m" and len: "length (mm_buffer m) + length (field_bytes f) < 2 ^ 32" and f: "field_ok f"
  shows "\<exists>m'. write_field f m = Some m' \<and> msg_ok m' \<and> payload_bytes m' = payload_bytes m @ field_bytes f \<and>
    header_of m' = header_of m \<and> mm_handles m' = mm_handles m"
proof (cases f)
  case (Scalar k v)
  then show ?thesis using WritePayload_ok [OF ok, of "le_bytes k v"] len by (auto simp: WriteScalar_def)
next
  case (Str s)
  obtain m1 where m1: "WritePayload (le_bytes 4 (length s)) m = Some m1" "msg_ok m1"
    "payload_bytes m1 = payload_bytes m @ le_bytes 4 (length s)" "header_of m1 = header_of m" "mm_handles m1 = mm_handles m"
    using WritePayload_ok [OF ok, of "le_bytes 4 (length s)"] len Str by auto
  have l1: "length (mm_buffer m1) + length s < 2 ^ 32" using msg_ok_payload(3) [OF ok] msg_ok_payload(3) [OF m1(2)] m1(3) len Str by simp
  show ?thesis using WritePayload_ok [OF m1(2) l1] m1 Str f by (cases "s = []") (auto simp: WriteString_def WriteScalar_def u32_id)
qed

lemma write_fields_ok:
  "msg_ok m \<Longrightarrow> length (mm_buffer m) + length (fields_bytes fs) < 2 ^ 32 \<Longrightarrow> list_all field_ok fs \<Longrightarrow>
     \<exists>m'. write_fields fs m = Some m' \<and> msg_ok m' \<and> payload_bytes m' = payload_bytes m @ fields_bytes fs \<and>
       header_of m' = header_of m \<and> mm_handles m' = mm_handles m"
proof (induction fs arbitrary: m)
  case (Cons f fs)
  have "length (mm_buffer m) + length (field_bytes f) < 2 ^ 32" "field_ok f" using Cons.prems(2,3) by simp_all
  from write_field_ok [OF Cons.prems(1) this] obtain m1 where m1: "write_field f m = Some m1" "msg_ok m1"
    "payload_bytes m1 = payload_bytes m @ field_bytes f" "header_of m1 = header_of m" "mm_handles m1 = mm_handles m" by blast
  have "length (mm_buffer m1) + length (fields_bytes fs) < 2 ^ 32"
    using msg_ok_payload(3) [OF Cons.prems(1)] msg_ok_payload(3) [OF m1(2)] m1(3) Cons.prems(2) by simp
  with Cons.IH [OF m1(2)] Cons.prems(3) m1 show ?case by fastforce
qed simp

text \<open>Reading is decided by the payload alone.\<close>

lemma drop_payload: "drop (48 + i) (mm_buffer m) = drop i (payload_bytes m)"
  by (simp add: payload_bytes_def add.commute)

lemma ReadScalar_eq:
  assumes "msg_ok m" "i + k < 2 ^ 64"
  shows "ReadScalar k m i =
    Some (if i + k \<le> length (payload_bytes m) then Some (le_value (take k (drop i (payload_bytes m))), i + k) else None)"
proof -
  have ne: "mm_buffer m \<noteq> []" using assms(1) by (auto simp: msg_ok_def)
  have l: "load k (mm_buffer m) (48 + i) = (if i + k \<le> length (payload_bytes m) then Some (le_value (take k (drop i (payload_bytes m)))) else None)"
    using msg_ok_payload(3) [OF assms(1)] by (simp add: load_def drop_payload)
  show ?thesis using ne l assms(2) by (simp add: ReadScalar_def msg_ok_payload [OF assms(1)] add64_id)
qed

lemma ReadString_eq:
  assumes "msg_ok m" "i + 4 < 2 ^ 63"
  shows "ReadString m i = Some (
    if i + 4 \<le> length (payload_bytes m) then
      (let len = le_value (take 4 (drop i (payload_bytes m)))
       in if i + 4 + len \<le> length (payload_bytes m) then Some (take len (drop (i + 4) (payload_bytes m)), i + 4 + len) else None)
    else None)"
proof -
  let ?len = "le_value (take 4 (drop i (payload_bytes m)))"
  have "?len < 2 ^ 32" if "i + 4 \<le> length (payload_bytes m)" using that le_value_bound [of "take 4 (drop i (payload_bytes m))"] by simp
  then have a: "add64 (i + 4) ?len = i + 4 + ?len" if "i + 4 \<le> length (payload_bytes m)" using that assms(2) by (intro add64_id) force
  have s: "ReadScalar 4 m i = Some (if i + 4 \<le> length (payload_bytes m) then Some (?len, i + 4) else None)"
    using assms by (intro ReadScalar_eq) simp_all
  have d: "drop (48 + (i + 4)) (mm_buffer m) = drop (i + 4) (payload_bytes m)" by (rule drop_payload)
  show ?thesis
  proof (cases "i + 4 \<le> length (payload_bytes m)")
    case True
    then show ?thesis using a msg_ok_payload(3) [OF assms(1)]
      by (simp add: ReadString_def s Let_def msg_ok_payload(1,2) [OF assms(1)] d [simplified] add.assoc)
  qed (simp add: ReadString_def s)
qed

lemma read_field_written:
  assumes ok: "msg_ok m" and p: "payload_bytes m = pre @ field_bytes f @ post" and f: "field_ok f"
  shows "read_field (shape_of f) m (length pre) = Some (Some (f, length pre + length (field_bytes f)))"
proof -
  have len: "length (payload_bytes m) < 2 ^ 32" using ok msg_ok_payload(3) [OF ok] by (simp add: msg_ok_def)
  show ?thesis
  proof (cases f)
    case (Scalar k v)
    then have "length pre + k < 2 ^ 64" using len p by simp
    from ReadScalar_eq [OF ok this] show ?thesis using Scalar f by (simp add: p le_value_bytes)
  next
    case (Str s)
    then have "length pre + 4 < 2 ^ 63" "length s < 2 ^ 32" using len p by simp_all
    then show ?thesis using ReadString_eq [OF ok, of "length pre"] Str by (simp add: p le_value_bytes Let_def)
  qed
qed

lemma read_fields_written:
  "msg_ok m \<Longrightarrow> payload_bytes m = pre @ fields_bytes fs @ post \<Longrightarrow> list_all field_ok fs \<Longrightarrow>
     read_fields (map shape_of fs) m (length pre) = Some (Some (fs, length pre + length (fields_bytes fs)))"
proof (induction fs arbitrary: pre)
  case (Cons f fs)
  have p: "payload_bytes m = pre @ field_bytes f @ fields_bytes fs @ post" "payload_bytes m = (pre @ field_bytes f) @ fields_bytes fs @ post"
    using Cons.prems(2) by simp_all
  have "read_field (shape_of f) m (length pre) = Some (Some (f, length pre + length (field_bytes f)))"
    by (rule read_field_written [OF Cons.prems(1) p(1)]) (use Cons.prems(3) in simp)
  moreover have "read_fields (map shape_of fs) m (length (pre @ field_bytes f)) = Some (Some (fs, length (pre @ field_bytes f) + length (fields_bytes fs)))"
    by (rule Cons.IH [OF Cons.prems(1) p(2)]) (use Cons.prems(3) in simp)
  ultimately show ?case by (simp add: add.assoc)
qed simp

lemma read_field_truncated:
  assumes ok: "msg_ok m" and p: "payload_bytes m = pre @ take n (field_bytes f)" and n: "n < length (field_bytes f)" and f: "field_ok f"
  shows "read_field (shape_of f) m (length pre) = Some None"
proof -
  have len: "length (payload_bytes m) < 2 ^ 32" using ok msg_ok_payload(3) [OF ok] by (simp add: msg_ok_def)
  then have pre: "length pre < 2 ^ 32" by (simp add: p)
  have lp: "length (payload_bytes m) = length pre + n" using n by (simp add: p)
  show ?thesis
  proof (cases f)
    case (Scalar k v)
    then have "length pre + k < 2 ^ 64" using pre f by simp
    from ReadScalar_eq [OF ok this] show ?thesis using Scalar n lp by simp
  next
    case (Str s)
    have "take 4 (take n (le_bytes 4 (length s) @ s)) = le_bytes 4 (length s)" if "4 \<le> n" using that by (simp add: take_take)
    then have "le_value (take 4 (drop (length pre) (payload_bytes m))) = length s" if "4 \<le> n"
      using that f Str by (simp add: p le_value_bytes)
    then show ?thesis using ReadString_eq [OF ok, of "length pre"] pre n lp Str by (auto simp: Let_def)
  qed
qed

lemma read_fields_truncated:
  "msg_ok m \<Longrightarrow> payload_bytes m = pre @ take n (fields_bytes fs) \<Longrightarrow> n < length (fields_bytes fs) \<Longrightarrow> list_all field_ok fs \<Longrightarrow>
     read_fields (map shape_of fs) m (length pre) = Some None"
proof (induction fs arbitrary: pre n)
  case (Cons f fs)
  show ?case
  proof (cases "n < length (field_bytes f)")
    case True
    then have "payload_bytes m = pre @ take n (field_bytes f)" using Cons.prems(2) by simp
    from read_field_truncated [OF Cons.prems(1) this True] show ?thesis using Cons.prems(4) by simp
  next
    case False
    let ?n = "n - length (field_bytes f)"
    have p: "payload_bytes m = pre @ field_bytes f @ take ?n (fields_bytes fs)" using Cons.prems(2) False by simp
    then have p': "payload_bytes m = (pre @ field_bytes f) @ take ?n (fields_bytes fs)" by simp
    have "read_field (shape_of f) m (length pre) = Some (Some (f, length pre + length (field_bytes f)))"
      by (rule read_field_written [OF Cons.prems(1) p]) (use Cons.prems(4) in simp)
    moreover have "read_fields (map shape_of fs) m (length (pre @ field_bytes f)) = Some None"
      by (rule Cons.IH [OF Cons.prems(1) p']) (use Cons.prems(3,4) False in simp_all)
    ultimately show ?thesis by simp
  qed
qed simp

subsection \<open>Messages from the wire\<close>

text \<open>The part of the bytes that becomes the payload.\<close>

definition wire_start :: "byte list \<Rightarrow> nat" where
  "wire_start bytes =
     (case load32 bytes off_version of
        Some v \<Rightarrow> if v = 2 then (case load64 bytes off_payload of Some p \<Rightarrow> if p = 0 then 48 else (32 + p) mod 2 ^ 64 | None \<Rightarrow> 0)
                  else HeaderSizeForVersion v
      | None \<Rightarrow> 0)"

definition wire_ok :: "byte list \<Rightarrow> bool" where
  "wire_ok bytes \<longleftrightarrow> 24 \<le> length bytes \<and>
     (\<exists>v\<le>2. load32 bytes off_version = Some v \<and> HeaderSizeForVersion v \<le> length bytes) \<and> wire_start bytes \<le> length bytes"

lemma incoming_payload_eq:
  assumes "load32 bytes off_version = Some v" "v \<le> 2" "HeaderSizeForVersion v \<le> length bytes" "length bytes < 2 ^ 32"
  shows "incoming_payload bytes v =
    Some (if wire_start bytes \<le> length bytes then Some (wire_start bytes, length bytes - wire_start bytes) else None)"
proof (cases "v = 2")
  case True
  then obtain p where p: "load64 bytes off_payload = Some p" using assms(3) by (auto simp: wire_defs load_def HeaderSizeForVersion_def)
  have u: "u32 (length bytes - x) = length bytes - x" for x using assms(4) by (intro u32_id) simp
  show ?thesis using True assms p by (auto simp: incoming_payload_def wire_start_def Let_def HeaderSizeForVersion_def u not_le)
next
  case False
  have u: "u32 (length bytes - x) = length bytes - x" for x using assms(4) by (intro u32_id) simp
  show ?thesis using False assms by (auto simp: incoming_payload_def wire_start_def Let_def u)
qed

lemma normalised_header:
  assumes "24 \<le> length bytes" "r < 2 ^ 64"
  defines "h \<equiv> store64 off_interface_ids 0 (store64 off_payload kV2PayloadOffset (store64 off_request_id r (store32 off_version 2 (take 24 bytes @ replicate 24 0))))"
  shows "length h = 48" "load32 h off_version = Some 2" "load64 h off_payload = Some 16" "load64 h off_request_id = Some r"
    "load32 h off_interface_id = load32 bytes off_interface_id" "load32 h off_name = load32 bytes off_name" "load32 h off_flags = load32 bytes off_flags"
    "load32 h off_num_bytes = load32 bytes off_num_bytes"
proof -
  have t: "load 4 (take 24 bytes) i = load 4 bytes i" if "i + 4 \<le> 24" for i
    using load_append [of i 4 "take 24 bytes" "drop 24 bytes"] that assms(1) by simp
  show "length h = 48" "load32 h off_version = Some 2" "load64 h off_payload = Some 16" "load64 h off_request_id = Some r"
    "load32 h off_interface_id = load32 bytes off_interface_id" "load32 h off_name = load32 bytes off_name" "load32 h off_flags = load32 bytes off_flags"
    "load32 h off_num_bytes = load32 bytes off_num_bytes"
    using assms(1,2) t by (simp_all add: h_def wire_defs wire_simps kV2PayloadOffset_def)
qed

lemma Wrap_refused:
  assumes "\<not> wire_ok bytes" "length bytes < 2 ^ 32"
  shows "WrapWireBytes capacity bytes handles = Some (null_message, False)"
proof (cases "24 \<le> length bytes")
  case True
  then obtain v where v: "load32 bytes off_version = Some v" by (simp add: wire_defs load_def)
  show ?thesis
  proof (cases "v \<le> 2 \<and> HeaderSizeForVersion v \<le> length bytes")
    case vh: True
    then have "\<not> wire_start bytes \<le> length bytes" using assms(1) True v by (auto simp: wire_ok_def)
    then show ?thesis using True v vh incoming_payload_eq [OF v _ _ assms(2)] by (simp add: WrapWireBytes_def)
  next
    case False
    then show ?thesis using True v by (auto simp: WrapWireBytes_def)
  qed
qed (simp add: WrapWireBytes_def)

lemma Wrap_accepted:
  assumes "wire_ok bytes" "length bytes + 48 < 2 ^ 32"
  shows "\<exists>m d. WrapWireBytes capacity bytes handles = Some (m, d) \<and> msg_ok m \<and> mm_handles m = handles \<and>
    payload_bytes m = drop (wire_start bytes) bytes \<and>
    header_of m = (load32 bytes off_interface_id, load32 bytes off_name, load32 bytes off_flags,
      if load32 bytes off_version = Some 0 then Some 0 else load64 bytes off_request_id) \<and>
    (d \<longleftrightarrow> capacity < length (mm_buffer m)) \<and>
    load32 (mm_buffer m) off_num_bytes = (if d then load32 bytes off_num_bytes else Some (length (mm_buffer m)))"
proof -
  obtain v where v: "load32 bytes off_version = Some v" "v \<le> 2" "HeaderSizeForVersion v \<le> length bytes"
    and len: "24 \<le> length bytes" "wire_start bytes \<le> length bytes" using assms(1) by (auto simp: wire_ok_def)
  obtain r where r: "(if 1 \<le> v then load64 bytes off_request_id else Some 0) = Some r"
    using v(2,3) by (auto simp: wire_defs load_def HeaderSizeForVersion_def split: if_splits)
  have rb: "r < 2 ^ 64" using r load_bound [of 8 bytes off_request_id r] by (auto simp: wire_defs split: if_splits)
  define h where "h = store64 off_interface_ids 0 (store64 off_payload kV2PayloadOffset (store64 off_request_id r (store32 off_version 2 (take 24 bytes @ replicate 24 0))))"
  define b where "b = h @ drop (wire_start bytes) bytes"
  define b' where "b' = (if capacity < length b then b else store32 off_num_bytes (u32 (length b)) b)"
  note nh = normalised_header [OF len(1) rb, folded h_def]
  have w: "WrapWireBytes capacity bytes handles = Some (\<lparr>mm_buffer = b', mm_handles = handles\<rparr>, capacity < length b)"
    using v len r incoming_payload_eq [OF v] assms(2) by (simp add: WrapWireBytes_def Let_def h_def b_def b'_def)
  have lb: "48 \<le> length b" "length b < 2 ^ 32" using nh(1) assms(2) by (simp_all add: b_def)
  have ld: "load k b' i = load k h i" if "4 \<le> i" "i + k \<le> 48" for k i
    using that nh(1) lb by (simp add: b'_def b_def wire_defs wire_simps)
  have "length b' = length b" "drop 48 b' = drop (wire_start bytes) bytes" "load32 b' off_num_bytes = (if capacity < length b then load32 bytes off_num_bytes else Some (length b))"
    using nh lb by (simp_all add: b'_def b_def wire_defs wire_simps u32_id)
  then show ?thesis unfolding w using nh lb v r
    by (auto simp: msg_ok_def payload_bytes_def header_of_def version_def interface_id_def msg_name_def flags_def request_id_def wire_defs ld split: if_splits)
qed

lemma wrap_own_message:
  assumes ok: "msg_ok m" and len: "length (mm_buffer m) + 48 < 2 ^ 32"
  shows "\<exists>m' d. WrapWireBytes capacity (mm_buffer m) handles = Some (m', d) \<and> msg_ok m' \<and> mm_handles m' = handles \<and>
    payload_bytes m' = payload_bytes m \<and> header_of m' = header_of m"
proof -
  have st: "wire_start (mm_buffer m) = 48" using ok by (simp add: wire_start_def msg_ok_def version_def)
  have "wire_ok (mm_buffer m)" using ok st by (auto simp: wire_ok_def msg_ok_def version_def HeaderSizeForVersion_def)
  from Wrap_accepted [OF this len, of capacity handles] ok st show ?thesis
    by (auto simp: header_of_def interface_id_def msg_name_def flags_def request_id_def msg_ok_def version_def payload_bytes_def)
qed

lemma wire_roundtrip:
  assumes "name < 2 ^ 32" "fl < 2 ^ 32" "iface < 2 ^ 32" "list_all field_ok fs" "96 + length (fields_bytes fs) < 2 ^ 32"
  shows "\<exists>m m' d. write_fields fs (make_message name fl iface) = Some m \<and> WrapWireBytes capacity (mm_buffer m) handles = Some (m', d) \<and>
    msg_ok m' \<and> mm_handles m' = handles \<and> payload_bytes m' = fields_bytes fs \<and> header_of m' = (Some iface, Some name, Some fl, Some 0)"
proof -
  note mk = make_message_ok [OF assms(1-3)]
  have "length (mm_buffer (make_message name fl iface)) + length (fields_bytes fs) < 2 ^ 32"
    using msg_ok_payload(3) [OF mk(1)] mk(2) assms(5) by simp
  from write_fields_ok [OF mk(1) this assms(4)] obtain m where m: "write_fields fs (make_message name fl iface) = Some m" "msg_ok m"
    "payload_bytes m = fields_bytes fs" "header_of m = (Some iface, Some name, Some fl, Some 0)" using mk by auto
  have "length (mm_buffer m) + 48 < 2 ^ 32" using msg_ok_payload(3) [OF m(2)] m(3) assms(5) by simp
  from wrap_own_message [OF m(2) this, of capacity handles] m show ?thesis by auto
qed

subsection \<open>The properties\<close>

text \<open>C35.  Fields survive the wire.  A message built with any header fields and any sequence of scalar
  and string fields, sent as bytes and wrapped again at the receiver, has the same header
  fields, and reading the fields in order returns every one of them and ends at the end of the
  payload.\<close>

theorem fields_survive_the_wire:
  assumes "name < 2 ^ 32" "fl < 2 ^ 32" "iface < 2 ^ 32" "list_all field_ok fs" "96 + length (fields_bytes fs) < 2 ^ 32"
  shows "\<exists>m m' d. write_fields fs (make_message name fl iface) = Some m \<and> WrapWireBytes capacity (mm_buffer m) handles = Some (m', d) \<and>
    (interface_id m', msg_name m', flags m', request_id m') = (Some iface, Some name, Some fl, Some 0) \<and> mm_handles m' = handles \<and>
    payload_num_bytes m' = Some (length (fields_bytes fs)) \<and>
    read_fields (map shape_of fs) m' 0 = Some (Some (fs, length (fields_bytes fs)))"
proof -
  obtain m m' d where m: "write_fields fs (make_message name fl iface) = Some m" "WrapWireBytes capacity (mm_buffer m) handles = Some (m', d)"
    "msg_ok m'" "mm_handles m' = handles" "payload_bytes m' = fields_bytes fs" "header_of m' = (Some iface, Some name, Some fl, Some 0)"
    using wire_roundtrip [OF assms] by blast
  have "read_fields (map shape_of fs) m' 0 = Some (Some (fs, length (fields_bytes fs)))"
    using read_fields_written [OF m(3), of "[]" fs "[]"] m(5) assms(4) by simp
  then show ?thesis using m msg_ok_payload(2) [OF m(3)] by (intro exI [of _ m] exI [of _ m'] exI [of _ d]) (simp add: header_of_def)
qed

theorem fields_survive_the_wire_witness:
  "\<exists>m m' d. write_fields [Scalar 4 7, Str [104, 105]] (make_message 5 1 0) = Some m \<and> WrapWireBytes 48 (mm_buffer m) [] = Some (m', d) \<and>
     msg_name m' = Some 5 \<and> read_fields [ScalarOf 4, StrOf] m' 0 = Some (Some ([Scalar 4 7, Str [104, 105]], 10))"
  using fields_survive_the_wire [of 5 1 0 "[Scalar 4 7, Str [104, 105]]" 48 "[]"] by auto



text \<open>A truncated message is refused: when the payload is a proper prefix of the fields a reader
  expects, reading them fails and reads nothing outside the message.\<close>

theorem truncated_fields_refused:
  assumes "msg_ok m" "list_all field_ok fs" "payload_bytes m = take n (fields_bytes fs)" "n < length (fields_bytes fs)"
  shows "read_fields (map shape_of fs) m 0 = Some None"
  using read_fields_truncated [of m "[]" n fs] assms by simp

theorem truncated_fields_refused_witness:
  "\<exists>m. WritePayload [7, 0, 0] (make_message 5 1 0) = Some m \<and> read_fields [ScalarOf 4] m 0 = Some None"
proof -
  obtain m where m: "WritePayload [7, 0, 0] (make_message 5 1 0) = Some m" "msg_ok m" "payload_bytes m = [7, 0, 0]"
    using WritePayload_ok [OF make_message_ok(1) [of 5 1 0], of "[7, 0, 0]"] make_message_ok [of 5 1 0] msg_ok_payload(3) [OF make_message_ok(1) [of 5 1 0]] by auto
  have "[7, 0, 0] = take 3 (fields_bytes [Scalar 4 7])" by code_simp
  with truncated_fields_refused [of m "[Scalar 4 7]" 3] m show ?thesis by auto
qed

text \<open>The length of a wrapped message is written to freed memory: the header is filled in through
  a pointer taken before the payload is inserted, so that with the capacity the vector has after
  the header every accepted message with a payload makes the last store dangle, and the stored
  length is the sender's, not that of the normalised message.\<close>

theorem wrap_writes_freed_memory:
  assumes "wire_ok bytes" "length bytes + 48 < 2 ^ 32" "wire_start bytes < length bytes"
  shows "\<exists>m. WrapWireBytes 48 bytes handles = Some (m, True) \<and> load32 (mm_buffer m) off_num_bytes = load32 bytes off_num_bytes"
proof -
  obtain m d where w: "WrapWireBytes 48 bytes handles = Some (m, d)" "msg_ok m" "payload_bytes m = drop (wire_start bytes) bytes"
    "d \<longleftrightarrow> 48 < length (mm_buffer m)" "load32 (mm_buffer m) off_num_bytes = (if d then load32 bytes off_num_bytes else Some (length (mm_buffer m)))"
    using Wrap_accepted [OF assms(1,2), of 48 handles] by (elim exE conjE) (rule that)
  have "48 < length (mm_buffer m)" using msg_ok_payload(3) [OF w(2)] w(3) assms(3) by simp
  then show ?thesis using w by auto
qed

theorem wrap_writes_freed_memory_witness:
  "\<exists>m. WrapWireBytes 48 ([24, 0, 0, 0] @ replicate 20 0 @ [9]) [] = Some (m, True) \<and>
     load32 (mm_buffer m) off_num_bytes = Some 24"
proof -
  let ?b = "[24, 0, 0, 0] @ replicate 20 0 @ [9]"
  have v: "load32 ?b off_version = Some 0" by code_simp
  then have st: "wire_start ?b = 24" by (simp add: wire_start_def HeaderSizeForVersion_def)
  from this v have "wire_ok ?b" by (auto simp: wire_ok_def HeaderSizeForVersion_def)
  moreover have "load32 ?b off_num_bytes = Some 24" by code_simp
  ultimately show ?thesis using wrap_writes_freed_memory [of ?b "[]"] st by auto
qed

end
