(* ===== verification/Header_Validator.thy ===== *)
theory Header_Validator
  imports Wire_Format
begin

text \<open>
  The headers of HolePunch messages as a receiver sees them (\<open>WASMHolePunch/src/bindings/message.cc\<close>) and
  their validation (\<open>message_header_validator.cc\<close>).  A message is a list of bytes at an address;
  pointers in it are relative to their own place.  A read outside the bytes is \<open>None\<close>.
\<close>

definition addr_add :: "nat \<Rightarrow> nat \<Rightarrow> nat" where
  "addr_add p n = (p + n) mod 2 ^ 64"

text \<open>A read of four bytes at an address.\<close>

definition deref32 :: "nat \<Rightarrow> byte list \<Rightarrow> nat \<Rightarrow> nat option" where
  "deref32 base bytes p = (if base \<le> p then load32 bytes (p - base) else None)"

definition EncodePointer :: "nat \<Rightarrow> nat \<Rightarrow> nat" where
  "EncodePointer slot ptr = (if ptr = 0 then 0 else (ptr + 2 ^ 64 - slot) mod 2 ^ 64)"

definition DecodePointer :: "nat \<Rightarrow> nat \<Rightarrow> nat" where
  "DecodePointer slot offset = (if offset = 0 then 0 else addr_add slot offset)"

text \<open>The pointer stored at an offset of the message.\<close>

definition get_pointer :: "nat \<Rightarrow> byte list \<Rightarrow> nat \<Rightarrow> nat option" where
  "get_pointer base bytes slot = do { offset \<leftarrow> load64 bytes slot; Some (DecodePointer (base + slot) offset) }"

subsection \<open>Validation\<close>

definition ClaimMemory :: "nat \<Rightarrow> byte list \<Rightarrow> nat \<Rightarrow> nat \<Rightarrow> bool" where
  "ClaimMemory base bytes p n \<longleftrightarrow> \<not> (p < base \<or> base + length bytes < addr_add p n)"

definition ValidateStructHeaderAndClaimMemory :: "nat \<Rightarrow> byte list \<Rightarrow> bool option" where
  "ValidateStructHeaderAndClaimMemory base bytes =
     (if \<not> ClaimMemory base bytes base 8 then Some False
      else do { num_bytes \<leftarrow> load32 bytes off_num_bytes;
                if num_bytes < 8 then Some False else Some (ClaimMemory base bytes base num_bytes) })"

definition header_length_ok :: "nat \<Rightarrow> nat \<Rightarrow> bool" where
  "header_length_ok ver num_bytes \<longleftrightarrow>
     (if ver = 0 then num_bytes = 24 else if ver = 1 then num_bytes = 32 else if ver = 2 then num_bytes = 48
      else if ver = 3 then num_bytes = 56 else 56 \<le> num_bytes)"

text \<open>The loop over the interface ids, from an index on.\<close>

function ids_valid :: "nat \<Rightarrow> byte list \<Rightarrow> nat \<Rightarrow> nat \<Rightarrow> nat \<Rightarrow> bool option" where
  "ids_valid base bytes ids n i =
     (if n \<le> i then Some True
      else do { x \<leftarrow> deref32 base bytes (addr_add ids (4 * i));
                if \<not> IsValidInterfaceId x \<or> IsPrimaryInterfaceId x then Some False
                else ids_valid base bytes ids n (i + 1) })"
  by pat_completeness auto
termination
  by (relation "measure (\<lambda>(_, _, _, n, i). n - i)") auto

declare ids_valid.simps [simp del]

definition interface_ids_ok :: "nat \<Rightarrow> byte list \<Rightarrow> bool option" where
  "interface_ids_ok base bytes =
     do { offset \<leftarrow> load64 bytes off_interface_ids;
          if offset = 0 then Some True
          else (let arr = DecodePointer (base + off_interface_ids) offset
                in if \<not> ClaimMemory base bytes arr 8 then Some False
                   else do { n \<leftarrow> deref32 base bytes arr;
                             if n < 8 \<or> \<not> ClaimMemory base bytes arr n then Some False
                             else do { num_elements \<leftarrow> deref32 base bytes (addr_add arr 4);
                                       ids_valid base bytes (addr_add arr 8) num_elements 0 } }) }"

definition IsValidMessageHeader :: "nat \<Rightarrow> byte list \<Rightarrow> bool option" where
  "IsValidMessageHeader base bytes =
     do { ver \<leftarrow> load32 bytes off_version;
          num_bytes \<leftarrow> load32 bytes off_num_bytes;
          if \<not> header_length_ok ver num_bytes then Some False
          else do {
            fl \<leftarrow> load32 bytes off_flags;
            if ver = 0 \<and> fl mod 4 \<noteq> 0 then Some False
            else if fl mod 4 = 3 then Some False
            else if ver < 2 then Some True
            else do {
              offset \<leftarrow> load64 bytes off_payload;
              if offset = 0 then Some False
              else (let payload = DecodePointer (base + off_payload) offset; limit = base + length bytes
                    in if payload < base \<or> limit < payload then Some False
                       else if payload < limit \<and> \<not> ClaimMemory base bytes payload 1 then Some False
                       else interface_ids_ok base bytes) } } }"

definition MessageHeaderValidator_Accept :: "nat \<Rightarrow> byte list \<Rightarrow> bool option" where
  "MessageHeaderValidator_Accept base bytes =
     do { ok \<leftarrow> ValidateStructHeaderAndClaimMemory base bytes;
          if ok then IsValidMessageHeader base bytes else Some False }"

subsection \<open>Reading a message\<close>

definition whp_payload :: "nat \<Rightarrow> byte list \<Rightarrow> nat option" where
  "whp_payload base bytes =
     do { ver \<leftarrow> load32 bytes off_version;
          if ver < 2 then do { n \<leftarrow> load32 bytes off_num_bytes; Some (base + n) }
          else get_pointer base bytes off_payload }"

definition whp_payload_num_bytes :: "nat \<Rightarrow> byte list \<Rightarrow> nat option" where
  "whp_payload_num_bytes base bytes =
     do { ver \<leftarrow> load32 bytes off_version;
          if ver < 2 then do { n \<leftarrow> load32 bytes off_num_bytes; Some (sub32 (length bytes) n) }
          else do { start \<leftarrow> get_pointer base bytes off_payload;
                    limit \<leftarrow> get_pointer base bytes off_interface_ids;
                    Some (sub32 (if limit = 0 then base + length bytes else limit) start) } }"

definition payload_num_interface_ids :: "nat \<Rightarrow> byte list \<Rightarrow> nat option" where
  "payload_num_interface_ids base bytes =
     do { ver \<leftarrow> load32 bytes off_version;
          if ver < 2 then Some 0
          else do { offset \<leftarrow> load64 bytes off_interface_ids;
                    if offset = 0 then Some 0 else deref32 base bytes (addr_add (DecodePointer (base + off_interface_ids) offset) 4) } }"

subsection \<open>Building a message\<close>

text \<open>A version 3 header with the payload pointer behind it, and the growing of the payload.\<close>

definition EnsureHeaderV3 :: "nat \<Rightarrow> nat \<Rightarrow> byte list" where
  "EnsureHeaderV3 name fl =
     (let h = replicate 56 0;
          h = store32 off_num_bytes 56 h;
          h = store32 off_version 3 h;
          h = store32 off_name name h;
          h = store32 off_flags fl h
      in store64 off_payload (EncodePointer off_payload 56) h)"

definition AllocatePayload :: "nat \<Rightarrow> byte list \<Rightarrow> byte list" where
  "AllocatePayload n bytes = bytes @ replicate (u32 n) 0"

text \<open>The address \<open>AllocatePayload\<close> returns, that of the new bytes.\<close>

definition AllocatePayload_ptr :: "nat \<Rightarrow> nat \<Rightarrow> byte list \<Rightarrow> nat option" where
  "AllocatePayload_ptr base n bytes =
     do { let grown = AllocatePayload n bytes;
          p \<leftarrow> whp_payload base grown;
          avail \<leftarrow> whp_payload_num_bytes base grown;
          Some (addr_add p (sub32 avail (u32 n))) }"

subsection \<open>Strings\<close>

definition Align :: "nat \<Rightarrow> nat" where
  "Align n = (n + 7) div 8 * 8"

definition StringDataSize :: "nat \<Rightarrow> nat" where
  "StringDataSize num_chars = Align (8 + num_chars + 1)"

text \<open>The bytes a string occupies; the place before it is filled with \<open>old\<close> bytes.\<close>

definition EncodeString :: "byte list \<Rightarrow> byte list \<Rightarrow> byte list" where
  "EncodeString old s =
     (let d = store32 4 (u32 (length s)) old;
          d = store32 0 (u32 (StringDataSize (length s))) d
      in take 8 d @ s @ [0] @ drop (9 + length s) d)"

definition DecodeString :: "byte list \<Rightarrow> nat \<Rightarrow> byte list option option" where
  "DecodeString d max_bytes =
     do { num_bytes \<leftarrow> load32 d 0;
          if num_bytes < 8 \<or> max_bytes < num_bytes then Some None
          else do { num_elements \<leftarrow> load32 d 4;
                    if num_bytes < 8 + num_elements + 1 then Some None
                    else if length d < 8 + num_elements then None
                    else Some (Some (take num_elements (drop 8 d))) } }"

end
