(* ===== verification/Validator_Properties.thy ===== *)
theory Validator_Properties
  imports Header_Validator
begin

text \<open>
  Properties of the validation of message headers.
\<close>

definition has_no_ids :: "byte list \<Rightarrow> bool" where
  "has_no_ids bytes \<longleftrightarrow> (\<exists>v. load32 bytes off_version = Some v \<and> v < 2) \<or> load64 bytes off_interface_ids = Some 0"

lemma load_total: "i + k \<le> length bs \<Longrightarrow> \<exists>v. load k bs i = Some v"
  by (simp add: load_def)

lemma some_bool [simp]: "Ex Not" "\<exists>b. b"
  by (rule exI [of _ False], simp) (rule exI [of _ True], simp)

lemma le_value_zeros [simp]: "le_value (replicate k 0) = 0"
  by (induction k) simp_all

lemma load_zeros [wire_simps]: "i + k \<le> n \<Longrightarrow> load k (replicate n 0) i = Some 0"
  by (simp add: load_def min_def)

lemma ClaimMemory_start: "base + length bytes < 2 ^ 64 \<Longrightarrow> n < 2 ^ 32 \<Longrightarrow> base < 2 ^ 63 \<Longrightarrow> ClaimMemory base bytes base n \<longleftrightarrow> n \<le> length bytes"
  by (auto simp: ClaimMemory_def addr_add_def)

text \<open>What a structurally valid header gives: its length is inside the bytes.\<close>

lemma struct_header_cases:
  assumes "base + length bytes < 2 ^ 64" "base < 2 ^ 63"
  shows "ValidateStructHeaderAndClaimMemory base bytes = Some False \<or>
    ValidateStructHeaderAndClaimMemory base bytes = Some True \<and> (\<exists>n. load32 bytes off_num_bytes = Some n \<and> 8 \<le> n \<and> n \<le> length bytes)"
proof (cases "8 \<le> length bytes")
  case True
  then obtain n where n: "load32 bytes off_num_bytes = Some n" using load_total [of 0 4 bytes] by (auto simp: wire_defs)
  then have "n < 2 ^ 32" using load_bound [of 4 bytes 0 n] by (simp add: wire_defs)
  then show ?thesis using True n assms ClaimMemory_start [of base bytes n] ClaimMemory_start [of base bytes 8]
    by (auto simp: ValidateStructHeaderAndClaimMemory_def)
next
  case False
  then show ?thesis using ClaimMemory_start [of base bytes 8] assms by (simp add: ValidateStructHeaderAndClaimMemory_def)
qed

lemma header_fields_readable:
  assumes "header_length_ok v n" "n \<le> length bytes"
  shows "\<exists>fl. load32 bytes off_flags = Some fl" "2 \<le> v \<Longrightarrow> \<exists>p. load64 bytes off_payload = Some p" "2 \<le> v \<Longrightarrow> \<exists>p. load64 bytes off_interface_ids = Some p"
  using assms load_total [of 16 4 bytes] load_total [of 32 8 bytes] load_total [of 40 8 bytes]
  by (auto simp: header_length_ok_def wire_defs split: if_splits)

text \<open>An accepted message.\<close>

lemma accepted_header:
  assumes acc: "MessageHeaderValidator_Accept base bytes = Some True" and addr: "base + length bytes < 2 ^ 64" "base < 2 ^ 63"
  shows "\<exists>v n fl. load32 bytes off_version = Some v \<and> load32 bytes off_num_bytes = Some n \<and> load32 bytes off_flags = Some fl \<and>
    header_length_ok v n \<and> n \<le> length bytes \<and> fl mod 4 \<noteq> 3 \<and> (v = 0 \<longrightarrow> fl mod 4 = 0) \<and>
    (2 \<le> v \<longrightarrow> (\<exists>p. load64 bytes off_payload = Some p \<and> p \<noteq> 0 \<and> base \<le> addr_add (base + 32) p \<and> addr_add (base + 32) p \<le> base + length bytes) \<and>
       interface_ids_ok base bytes = Some True)"
proof -
  have s: "ValidateStructHeaderAndClaimMemory base bytes = Some True" "IsValidMessageHeader base bytes = Some True"
    using acc by (auto simp: MessageHeaderValidator_Accept_def option_bind_Some_iff split: if_splits)
  obtain n where n: "load32 bytes off_num_bytes = Some n" "n \<le> length bytes" using struct_header_cases [OF addr] s(1) by auto
  show ?thesis using s(2) n
    by (auto simp: IsValidMessageHeader_def option_bind_Some_iff DecodePointer_def Let_def split: if_splits)
qed

lemma validator_total:
  assumes addr: "base + length bytes < 2 ^ 64" "base < 2 ^ 63" and ids: "has_no_ids bytes \<or> length bytes < 48"
  shows "\<exists>b. MessageHeaderValidator_Accept base bytes = Some b"
proof (cases "ValidateStructHeaderAndClaimMemory base bytes = Some True")
  case True
  then obtain n where n: "load32 bytes off_num_bytes = Some n" "8 \<le> n" "n \<le> length bytes" using struct_header_cases [OF addr] by auto
  then obtain v where v: "load32 bytes off_version = Some v" using load_total [of 4 4 bytes] by (auto simp: wire_defs)
  have "\<exists>b. IsValidMessageHeader base bytes = Some b"
  proof (cases "header_length_ok v n")
    case ok: True
    obtain fl where fl: "load32 bytes off_flags = Some fl" using header_fields_readable(1) [OF ok n(3)] by blast
    show ?thesis
    proof (cases "2 \<le> v")
      case v2: True
      obtain p where p: "load64 bytes off_payload = Some p" using header_fields_readable(2) [OF ok n(3) v2] by blast
      have "48 \<le> length bytes" using ok v2 n(3) by (auto simp: header_length_ok_def split: if_splits)
      then have "load64 bytes off_interface_ids = Some 0" using ids v v2 by (auto simp: has_no_ids_def)
      then show ?thesis using v n(1) fl ok v2 p
        by (simp add: IsValidMessageHeader_def interface_ids_ok_def Let_def)
    next
      case False
      then show ?thesis using v n(1) fl ok by (simp add: IsValidMessageHeader_def)
    qed
  next
    case False
    then show ?thesis using v n(1) by (simp add: IsValidMessageHeader_def)
  qed
  then show ?thesis using True by (simp add: MessageHeaderValidator_Accept_def)
next
  case False
  then show ?thesis using struct_header_cases [OF addr] by (auto simp: MessageHeaderValidator_Accept_def)
qed

subsection \<open>Interface ids\<close>

lemma ids_valid_sound:
  "ids_valid base bytes ids n i = Some True \<Longrightarrow> i \<le> j \<Longrightarrow> j < n \<Longrightarrow>
     \<exists>x. deref32 base bytes (addr_add ids (4 * j)) = Some x \<and> IsValidInterfaceId x \<and> \<not> IsPrimaryInterfaceId x"
proof (induction base bytes ids n i rule: ids_valid.induct)
  case (1 base bytes ids n i)
  have *: "\<not> n \<le> i" using 1 by simp
  from 1(2) * obtain x where x: "deref32 base bytes (addr_add ids (4 * i)) = Some x" "IsValidInterfaceId x" "\<not> IsPrimaryInterfaceId x"
    "ids_valid base bytes ids n (i + 1) = Some True"
    by (subst (asm) ids_valid.simps) (auto simp: option_bind_Some_iff split: if_splits)
  show ?case
  proof (cases "j = i")
    case True
    then show ?thesis using x by blast
  next
    case False
    then show ?thesis using 1(1) [OF * x(1) _ x(4)] x(2,3) 1(3,4) by simp
  qed
qed

subsection \<open>Messages built here\<close>

lemma header_v3_fields:
  assumes "name < 2 ^ 32" "fl < 2 ^ 32"
  shows "length (EnsureHeaderV3 name fl) = 56" "load32 (EnsureHeaderV3 name fl) off_version = Some 3"
    "load32 (EnsureHeaderV3 name fl) off_num_bytes = Some 56" "load32 (EnsureHeaderV3 name fl) off_flags = Some fl"
    "load32 (EnsureHeaderV3 name fl) off_name = Some name" "load64 (EnsureHeaderV3 name fl) off_payload = Some 24"
    "load64 (EnsureHeaderV3 name fl) off_interface_ids = Some 0"
  using assms by (simp_all add: EnsureHeaderV3_def Let_def wire_defs wire_simps EncodePointer_def)

lemma sub32_shift: "n < 2 ^ 32 \<Longrightarrow> sub32 (b + n) b = n"
proof -
  assume n: "n < 2 ^ 32"
  define q r where "q = b div 2 ^ 32" and "r = b mod 2 ^ 32"
  have "b = 2 ^ 32 * q + r" "r < 2 ^ 32" by (simp_all add: q_def r_def)
  then have "b + (2 ^ 32 - r) = 2 ^ 32 * (q + 1)" by simp
  then have "b + (2 ^ 32 - b mod 2 ^ 32) = 2 ^ 32 * (b div 2 ^ 32 + 1)" by (simp only: q_def r_def)
  then have "b + n + (2 ^ 32 - b mod 2 ^ 32) = n + 2 ^ 32 * (b div 2 ^ 32 + 1)" by simp
  then show ?thesis using n by (simp only: sub32_def mod_mult_self2 mod_less)
qed

text \<open>A message as \<open>Message(name, flags)\<close> and calls of \<open>AllocatePayload\<close> build it.\<close>

lemma built_fields:
  assumes "name < 2 ^ 32" "fl < 2 ^ 32"
  shows "load32 (EnsureHeaderV3 name fl @ pl) off_version = Some 3" "load32 (EnsureHeaderV3 name fl @ pl) off_num_bytes = Some 56"
    "load32 (EnsureHeaderV3 name fl @ pl) off_flags = Some fl" "load64 (EnsureHeaderV3 name fl @ pl) off_payload = Some 24"
    "load64 (EnsureHeaderV3 name fl @ pl) off_interface_ids = Some 0"
  using header_v3_fields [OF assms] by (simp_all add: wire_defs load_append)

lemma built_accepted:
  assumes "name < 2 ^ 32" "fl < 2 ^ 32" "0 < base" "base < 2 ^ 63" "56 + length pl < 2 ^ 32"
  shows "MessageHeaderValidator_Accept base (EnsureHeaderV3 name fl @ pl) = Some (fl mod 4 \<noteq> 3)"
    "whp_payload base (EnsureHeaderV3 name fl @ pl) = Some (base + 56)"
    "whp_payload_num_bytes base (EnsureHeaderV3 name fl @ pl) = Some (length pl)"
proof -
  note f = built_fields [OF assms(1,2), of pl]
  have c: "ClaimMemory base (EnsureHeaderV3 name fl @ pl) base n \<longleftrightarrow> n \<le> 56 + length pl" if "n < 2 ^ 32" for n
    using ClaimMemory_start [of base "EnsureHeaderV3 name fl @ pl" n] that assms(4,5) header_v3_fields(1) [OF assms(1,2)] by simp
  have p: "addr_add (base + 32) 24 = base + 56" using assms(4) by (simp add: addr_add_def)
  have c1: "ClaimMemory base (EnsureHeaderV3 name fl @ pl) (base + 56) (Suc 0)" if "pl \<noteq> []"
  proof -
    have "addr_add (base + 56) (Suc 0) = base + 57" using assms(4) by (simp add: addr_add_def)
    then show ?thesis using that header_v3_fields(1) [OF assms(1,2)] by (cases pl) (simp_all add: ClaimMemory_def)
  qed
  show "MessageHeaderValidator_Accept base (EnsureHeaderV3 name fl @ pl) = Some (fl mod 4 \<noteq> 3)"
    using f c p c1 header_v3_fields(1) [OF assms(1,2)]
    by (cases "pl = []") (simp_all add: MessageHeaderValidator_Accept_def ValidateStructHeaderAndClaimMemory_def IsValidMessageHeader_def header_length_ok_def
        interface_ids_ok_def Let_def DecodePointer_def)
  show "whp_payload base (EnsureHeaderV3 name fl @ pl) = Some (base + 56)" using f p by (simp add: whp_payload_def get_pointer_def DecodePointer_def)
  have "sub32 (base + 56 + length pl) (base + 56) = length pl" using assms(5) by (simp add: sub32_shift)
  then show "whp_payload_num_bytes base (EnsureHeaderV3 name fl @ pl) = Some (length pl)"
    using f p header_v3_fields(1) [OF assms(1,2)] by (simp add: whp_payload_num_bytes_def get_pointer_def DecodePointer_def add.assoc)
qed

subsection \<open>The properties\<close>

text \<open>C37.  Validation of headers.  For every message without interface ids, whatever its bytes, the
  validator decides without reading outside the bytes; when it accepts, the payload lies inside
  the message, its reported length is exactly what is left of the message, and the message is
  not a request and a response at once.\<close>

theorem validated_messages_framed:
  assumes "has_no_ids bytes" "base + length bytes < 2 ^ 64" "0 < base" "base < 2 ^ 63" "length bytes < 2 ^ 32"
  shows "\<exists>b. MessageHeaderValidator_Accept base bytes = Some b \<and>
    (b \<longrightarrow> (\<exists>p fl. whp_payload base bytes = Some p \<and> base \<le> p \<and> p \<le> base + length bytes \<and>
      whp_payload_num_bytes base bytes = Some (base + length bytes - p) \<and> payload_num_interface_ids base bytes = Some 0 \<and>
      load32 bytes off_flags = Some fl \<and> fl mod 4 \<noteq> 3))"
proof -
  obtain b where b: "MessageHeaderValidator_Accept base bytes = Some b" using validator_total [OF assms(2,4)] assms(1) by auto
  have "\<exists>p fl. whp_payload base bytes = Some p \<and> base \<le> p \<and> p \<le> base + length bytes \<and>
      whp_payload_num_bytes base bytes = Some (base + length bytes - p) \<and> payload_num_interface_ids base bytes = Some 0 \<and>
      load32 bytes off_flags = Some fl \<and> fl mod 4 \<noteq> 3" if bt: b
  proof -
    have acc: "MessageHeaderValidator_Accept base bytes = Some True" using b bt by simp
    obtain v n fl where h: "load32 bytes off_version = Some v" "load32 bytes off_num_bytes = Some n" "load32 bytes off_flags = Some fl"
      "n \<le> length bytes" "fl mod 4 \<noteq> 3"
      "2 \<le> v \<longrightarrow> (\<exists>p. load64 bytes off_payload = Some p \<and> p \<noteq> 0 \<and> base \<le> addr_add (base + 32) p \<and> addr_add (base + 32) p \<le> base + length bytes)"
      using accepted_header [OF acc assms(2,4)] by auto
    show ?thesis
    proof (cases "2 \<le> v")
      case True
      then obtain p where p: "load64 bytes off_payload = Some p" "p \<noteq> 0" "base \<le> addr_add (base + 32) p" "addr_add (base + 32) p \<le> base + length bytes"
        using h(6) by blast
      have ids: "load64 bytes off_interface_ids = Some 0" using assms(1) h(1) True by (auto simp: has_no_ids_def)
      have "sub32 (base + length bytes) (addr_add (base + 32) p) = base + length bytes - addr_add (base + 32) p"
        using sub32_shift [of "base + length bytes - addr_add (base + 32) p" "addr_add (base + 32) p"] p(3,4) assms(5) by simp
      then show ?thesis using h True p ids
        by (simp add: whp_payload_def whp_payload_num_bytes_def payload_num_interface_ids_def get_pointer_def DecodePointer_def)
    next
      case False
      then show ?thesis using h(1-5) assms(5)
        by (simp add: whp_payload_def whp_payload_num_bytes_def payload_num_interface_ids_def sub32_id)
    qed
  qed
  then show ?thesis using b by blast
qed

theorem validated_messages_framed_witness:
  "\<exists>b. MessageHeaderValidator_Accept 4096 ([24, 0, 0, 0] @ replicate 20 0 @ [9]) = Some b"
proof -
  let ?b = "[24, 0, 0, 0] @ replicate 20 0 @ [9]"
  have "load32 ?b off_version = Some 0" by code_simp
  then have "has_no_ids ?b" by (auto simp: has_no_ids_def)
  from validated_messages_framed [OF this, of 4096] show ?thesis by auto
qed

text \<open>Messages built here are accepted.  A message with any name, any flags that are not request
  and response at once, and a payload allocated in any two steps passes the validator of a
  receiver, at whatever address its bytes lie; each allocation returns the address of its own
  new bytes, and the payload is exactly the allocated bytes.\<close>

theorem built_messages_accepted:
  assumes "name < 2 ^ 32" "fl < 2 ^ 32" "0 < base" "base < 2 ^ 63" "56 + i + j < 2 ^ 32"
  shows "MessageHeaderValidator_Accept base (AllocatePayload j (AllocatePayload i (EnsureHeaderV3 name fl))) = Some (fl mod 4 \<noteq> 3) \<and>
    whp_payload base (AllocatePayload j (AllocatePayload i (EnsureHeaderV3 name fl))) = Some (base + 56) \<and>
    whp_payload_num_bytes base (AllocatePayload j (AllocatePayload i (EnsureHeaderV3 name fl))) = Some (i + j) \<and>
    AllocatePayload_ptr base i (EnsureHeaderV3 name fl) = Some (base + 56) \<and>
    AllocatePayload_ptr base j (AllocatePayload i (EnsureHeaderV3 name fl)) = Some (base + 56 + i)"
proof (intro conjI)
  have u: "u32 i = i" "u32 j = j" using assms(5) by (simp_all add: u32_id)
  note b2 = built_accepted [OF assms(1-4), of "replicate i 0 @ replicate j 0"]
  note b1 = built_accepted [OF assms(1-4), of "replicate i 0"]
  show "MessageHeaderValidator_Accept base (AllocatePayload j (AllocatePayload i (EnsureHeaderV3 name fl))) = Some (fl mod 4 \<noteq> 3)"
    "whp_payload base (AllocatePayload j (AllocatePayload i (EnsureHeaderV3 name fl))) = Some (base + 56)"
    "whp_payload_num_bytes base (AllocatePayload j (AllocatePayload i (EnsureHeaderV3 name fl))) = Some (i + j)"
    using b2 assms(5) by (simp_all add: AllocatePayload_def u)
  show "AllocatePayload_ptr base i (EnsureHeaderV3 name fl) = Some (base + 56)"
    using b1 assms(4,5) by (simp add: AllocatePayload_ptr_def AllocatePayload_def u addr_add_def sub32_id)
  show "AllocatePayload_ptr base j (AllocatePayload i (EnsureHeaderV3 name fl)) = Some (base + 56 + i)"
    using b2 assms(4,5) by (simp add: AllocatePayload_ptr_def AllocatePayload_def u addr_add_def sub32_id)
qed

theorem built_messages_accepted_witness:
  "MessageHeaderValidator_Accept 4096 (AllocatePayload 8 (AllocatePayload 16 (EnsureHeaderV3 7 1))) = Some True"
  using built_messages_accepted [of 7 1 4096 16 8] by simp

subsection \<open>Strings\<close>

lemma StringDataSize_bounds: "9 + n \<le> StringDataSize n" "StringDataSize n < n + 17"
  by (simp_all add: StringDataSize_def Align_def)

lemma load_take: "i + k \<le> n \<Longrightarrow> n \<le> length bs \<Longrightarrow> load k (take n bs) i = load k bs i"
  by (simp add: load_def drop_take min_absorb1)

text \<open>Strings survive: what \<open>EncodeString\<close> writes at a place large enough, \<open>DecodeString\<close> reads
  back, whatever was there before.\<close>

theorem string_roundtrip:
  assumes "length s + 17 < 2 ^ 32" "StringDataSize (length s) \<le> length old" "StringDataSize (length s) \<le> max_bytes"
  shows "DecodeString (EncodeString old s) max_bytes = Some (Some s)"
proof -
  define d where "d = store32 0 (u32 (StringDataSize (length s))) (store32 4 (u32 (length s)) old)"
  have l: "9 + length s \<le> length old" using assms(2) StringDataSize_bounds(1) [of "length s"] by simp
  have ld: "length d = length old" using l by (simp add: d_def wire_defs)
  have e: "EncodeString old s = take 8 d @ s @ [0] @ drop (9 + length s) d" by (simp add: EncodeString_def d_def Let_def)
  have sz: "u32 (StringDataSize (length s)) = StringDataSize (length s)" "u32 (length s) = length s"
    using StringDataSize_bounds(2) [of "length s"] assms(1) by (simp_all add: u32_id)
  have "load32 (EncodeString old s) 0 = Some (StringDataSize (length s))" "load32 (EncodeString old s) 4 = Some (length s)"
    using l ld sz StringDataSize_bounds(2) [of "length s"] assms(1)
    by (simp_all add: e wire_defs load_append load_take, simp_all add: d_def wire_defs wire_simps)
  moreover have "take (length s) (drop 8 (EncodeString old s)) = s" "8 + length s \<le> length (EncodeString old s)" using l ld by (simp_all add: e)
  ultimately show ?thesis using StringDataSize_bounds(1) [of "length s"] assms(3) by (simp add: DecodeString_def)
qed

theorem string_roundtrip_witness:
  "DecodeString (EncodeString (replicate 16 0) [104, 105]) 16 = Some (Some [104, 105])"
  using string_roundtrip [of "[104, 105]" "replicate 16 0" 16] by (simp add: StringDataSize_def Align_def)

subsection \<open>What the validator lets through\<close>

text \<open>The count of interface ids is not compared with the length of their array.  A message whose ids
  sit at its very end, with any positive count, makes the validator read behind the message.\<close>

definition ids_past_the_end :: "nat \<Rightarrow> byte list" where
  "ids_past_the_end n = store32 60 n (store32 56 8 (AllocatePayload 8 (store64 off_interface_ids 16 (EnsureHeaderV3 7 0))))"

lemma ids_past_the_end_fields:
  assumes "n < 2 ^ 32"
  shows "length (ids_past_the_end n) = 64" "load32 (ids_past_the_end n) off_version = Some 3" "load32 (ids_past_the_end n) off_num_bytes = Some 56"
    "load32 (ids_past_the_end n) off_flags = Some 0" "load64 (ids_past_the_end n) off_payload = Some 24"
    "load64 (ids_past_the_end n) off_interface_ids = Some 16" "load32 (ids_past_the_end n) 56 = Some 8" "load32 (ids_past_the_end n) 60 = Some n"
  using assms header_v3_fields [of 7 0]
  by (simp_all add: ids_past_the_end_def AllocatePayload_def u32_def wire_defs wire_simps)

text \<open>C38.  The validator reads outside the message: for every address and every positive count of
  interface ids, the message with an array header of eight bytes at its end is read past that end.\<close>

theorem validator_reads_outside:
  assumes "0 < n" "n < 2 ^ 32" "0 < base" "base < 2 ^ 63"
  shows "MessageHeaderValidator_Accept base (ids_past_the_end n) = None"
proof -
  note f = ids_past_the_end_fields [OF assms(2)]
  have a: "addr_add (base + 32) 24 = base + 56" "addr_add (base + 40) 16 = base + 56" "addr_add (base + 56) 4 = base + 60"
    "addr_add (base + 56) 8 = base + 64" "addr_add (base + 64) 0 = base + 64" "addr_add (base + 56) (Suc 0) = base + 57"
    "addr_add base 8 = base + 8" "addr_add base 56 = base + 56"
    using assms(4) by (simp_all add: addr_add_def)
  have "ids_valid base (ids_past_the_end n) (base + 64) n 0 = None"
    using assms(1) f(1) a by (subst ids_valid.simps) (simp add: deref32_def wire_defs load_def)
  then show ?thesis using f a
    by (simp add: MessageHeaderValidator_Accept_def ValidateStructHeaderAndClaimMemory_def IsValidMessageHeader_def header_length_ok_def
        interface_ids_ok_def Let_def DecodePointer_def ClaimMemory_def deref32_def)
qed

theorem validator_reads_outside_witness:
  "MessageHeaderValidator_Accept 4096 (ids_past_the_end 1) = None"
  using validator_reads_outside [of 1 4096] by simp

text \<open>A claim that wraps around the address space is granted.\<close>

lemma claim_wraps: "base + length bytes < 2 ^ 64 \<Longrightarrow> base \<le> p \<Longrightarrow> p < 2 ^ 64 \<Longrightarrow> 2 ^ 64 \<le> p + n \<Longrightarrow> n \<le> 2 ^ 64 \<Longrightarrow>
    p + n - 2 ^ 64 \<le> base + length bytes \<Longrightarrow> ClaimMemory base bytes p n"
  by (simp add: ClaimMemory_def addr_add_def mod_if)

end
