(* ===== verification/Raw_Pipe.thy ===== *)
theory Raw_Pipe
  imports Whp_Channel
begin

text \<open>
  Whole messages over a pipe (\<open>WASMCadidumKernel/src/message_pipe.cc\<close>), on top of the system core.
  The \<open>Mojo\<close> entry points forward to the \<open>Whp\<close> ones through the system thunks.
\<close>

definition WriteMessageRaw :: "Env \<Rightarrow> WhpHandle \<Rightarrow> byte list \<Rightarrow> WhpHandle list \<Rightarrow> Core \<Rightarrow> (WhpResult \<times> Core) option" where
  "WriteMessageRaw env pipe bytes handles c = do {
     (r, mo, c) \<leftarrow> WhpCreateMessage True c;
     if r \<noteq> WHP_RESULT_OK then Some (r, c)
     else do {
       message \<leftarrow> mo;
       (r, _, c) \<leftarrow> WhpAppendMessageData message (length bytes) handles True c;
       if r \<noteq> WHP_RESULT_OK then do { (_, c) \<leftarrow> WhpDestroyMessage env message c; Some (r, c) }
       else do {
         c \<leftarrow> (if bytes \<noteq> [] then fill_message message bytes c else Some c);
         WhpWriteMessage env pipe message c } } }"

text \<open>The bytes and the handles read are returned with the result.  The first call of
  \<open>MojoGetMessageData\<close> only asks for the sizes.\<close>

definition ReadMessageRaw :: "Env \<Rightarrow> WhpHandle \<Rightarrow> Core \<Rightarrow> (WhpResult \<times> (byte list \<times> WhpHandle list) option \<times> Core) option" where
  "ReadMessageRaw env pipe c = do {
     (r, mo, c) \<leftarrow> WhpReadMessage pipe True c;
     if r \<noteq> WHP_RESULT_OK then Some (r, None, c)
     else do {
       message \<leftarrow> mo;
       (_, num_bytes, _, _, num_handles, c) \<leftarrow> WhpGetMessageData message False (Some 0) c;
       n \<leftarrow> num_handles;
       (r, num_bytes', bytes, handles, _, c) \<leftarrow> WhpGetMessageData message (0 < n) (Some n) c;
       len \<leftarrow> num_bytes;
       (_, c) \<leftarrow> WhpDestroyMessage env message c;
       Some (r, Some (if r = WHP_RESULT_OK then take len (the bytes) else replicate len 0,
                      case handles of None \<Rightarrow> [] | Some hs \<Rightarrow> hs), c) } }"

lemma set_obj_same: "Lookup c h = Some s \<Longrightarrow> sl_obj s = ob \<Longrightarrow> set_obj h ob c = c"
  by (auto simp: set_obj_def Lookup_Some_iff)

lemma fill_nothing: "core_inv c \<Longrightarrow> fill_message h [] c = Some c"
  by (cases rule: message_of_cases [of c h]) (auto simp: fill_message_def set_obj_same)

text \<open>A write is a \<open>send\<close>, up to what becomes of a message that is refused.\<close>

lemma write_raw_sent:
  assumes con: "connected h k c" and s: "send env h bs c = Some (ok, c')"
  shows "\<exists>r c2. WriteMessageRaw env h bs [] c = Some (r, c2) \<and> (ok \<longleftrightarrow> r = WHP_RESULT_OK) \<and> (ok \<longrightarrow> c2 = c')"
proof -
  have inv: "core_inv c" "handle_room 0 c" "free_list c \<noteq> []" using con by (auto simp: connected_def)
  obtain m c1 where c1: "Alloc KMessage (OMessage new_message) c = Some (m, c1)" "core_inv c1"
    "Lookup c1 = (Lookup c)(m \<mapsto> \<lparr>sl_kind = KMessage, sl_obj = OMessage new_message\<rparr>)"
    by (rule Alloc_message [OF inv])
  have m: "Lookup c1 m = Some \<lparr>sl_kind = KMessage, sl_obj = OMessage new_message\<rparr>" by (simp add: c1(3))
  obtain c2 c3 n where c2: "WhpAppendMessageData m (length bs) [] True c1 = Some (WHP_RESULT_OK, n, c2)" "fill_message m bs c2 = Some c3" "core_inv c3"
    by (rule new_message_ready [OF c1(2) m, of bs])
  have "core_inv c2" using WhpAppendMessageData_safe [OF c1(2), of m "length bs" "[]" True] c2(1) by auto
  then have "bs = [] \<Longrightarrow> c2 = c3" using c2(2) fill_nothing [of c2 m] by simp
  moreover have "\<exists>r c4. WhpWriteMessage env h m c3 = Some (r, c4) \<and> (ok \<longleftrightarrow> r = WHP_RESULT_OK) \<and> (ok \<longrightarrow> c4 = c')"
    using s c1(1) c2 by (auto simp: send_def WhpCreateMessage_def option_bind_Some_iff split: if_splits)
  ultimately show ?thesis using c1(1) c2 by (auto simp: WriteMessageRaw_def WhpCreateMessage_def)
qed

text \<open>Reading the messages without handles that a connected pipe holds.\<close>

lemma read_raw_connected:
  assumes con: "connected h k c" and small: "list_all (\<lambda>bs. length bs < 2 ^ 32) (in_flight k c)"
  shows "\<exists>c'. connected h k c' \<and> (case in_flight k c of
      [] \<Rightarrow> ReadMessageRaw env k c = Some (WHP_RESULT_SHOULD_WAIT, None, c') \<and> in_flight k c' = []
    | bs # rest \<Rightarrow> ReadMessageRaw env k c = Some (WHP_RESULT_OK, Some (bs, []), c') \<and> in_flight k c' = rest)"
proof -
  from con obtain sid e where inv: "core_inv c" and o: "owner c h sid e" "owner c k sid (1 - e)"
    and q: "list_all (\<lambda>m. msg_destructor m = None \<and> msg_serializer m = None \<and> msg_handles m = []) (queues (pipe_heap c ! sid) (1 - e))"
    by (auto simp: connected_def)
  obtain r c' where r: "recv env k c = Some (r, c')" "connected h k c'"
    "case r of None \<Rightarrow> in_flight k c = [] \<and> in_flight k c' = [] | Some bs \<Rightarrow> in_flight k c = bs # in_flight k c'"
    using recv_spec [OF con, of env] by blast
  have fl: "in_flight k c = map msg_bytes (queues (pipe_heap c ! sid) (1 - e))" using in_flight_owner [OF inv o(2)] by simp
  have pe: "pipe_end_of k c = Some (Some (\<lparr>pe_state = sid, pe_end = 1 - e\<rparr>, pipe_heap c ! sid))" by (rule owner_pipe_end [OF inv o(2)])
  show ?thesis
  proof (cases "queues (pipe_heap c ! sid) (1 - e)")
    case Nil
    have "e = 0 \<or> e = 1" using core_inv_owner [OF inv o(1)] by auto
    then have "1 - (1 - e) = e" by auto
    then have "ReadMessageRaw env k c = Some (WHP_RESULT_SHOULD_WAIT, None, c)"
      using pe Nil owner_open [OF inv o] by (simp add: ReadMessageRaw_def WhpReadMessage_def)
    then show ?thesis using con fl Nil by auto
  next
    case (Cons x rest)
    have x: "msg_handles x = []" "length (msg_bytes x) < 2 ^ 32" using q small fl Cons by simp_all
    let ?ps' = "(pipe_heap c ! sid)\<lparr>queues := (queues (pipe_heap c ! sid))(1 - e := rest)\<rparr>"
    let ?c0 = "set_pipe sid ?ps' c"
    have lim: "sid < length (pipe_heap c)" using core_inv_owner(1) [OF inv o(1)] .
    have i0: "core_inv ?c0" "handle_room 0 ?c0" "free_list ?c0 \<noteq> []"
      using core_inv_set_pipe [OF inv lim, of ?ps'] con by (auto simp: connected_def handle_room_def set_pipe_def)
    obtain m c1 where a: "Alloc KMessage (OMessage x) ?c0 = Some (m, c1)" "core_inv c1"
      "Lookup c1 = (Lookup ?c0)(m \<mapsto> \<lparr>sl_kind = KMessage, sl_obj = OMessage x\<rparr>)"
      by (rule Alloc_message [OF i0])
    have ms: "message_of m c1 = Some (Some x)" by (simp add: message_of_def a(3))
    have rd: "WhpReadMessage k True c = Some (WHP_RESULT_OK, Some m, c1)" using pe Cons a(1) by (simp add: WhpReadMessage_def)
    have g: "WhpGetMessageData m False n c1 =
        Some (WHP_RESULT_OK, Some (length (msg_bytes x)), Some (msg_bytes x), None, map_option (\<lambda>_. 0) n, c1)" for n
      using ms x by (simp add: WhpGetMessageData_def Let_def u32_id)
    have d: "\<exists>r'. WhpDestroyMessage env m c1 = Some (r', c')" "r = Some (msg_bytes x)"
      using r(1) rd g by (auto simp: recv_def option_bind_Some_iff)
    then have "ReadMessageRaw env k c = Some (WHP_RESULT_OK, Some (msg_bytes x, []), c')"
      using rd g by (auto simp: ReadMessageRaw_def)
    then show ?thesis using r d(2) fl Cons by auto
  qed
qed

text \<open>A message that a full queue refuses is never freed: its handle stays in the table.\<close>

lemma refused_write_leaks:
  assumes con: "connected h k c" and w: "WriteMessageRaw env h bs [] c = Some (r, c')" "r \<noteq> WHP_RESULT_OK"
  shows "r = WHP_RESULT_RESOURCE_EXHAUSTED \<and> (\<exists>m x. Lookup c m = None \<and> message_of m c' = Some (Some x) \<and> msg_bytes x = bs)"
proof -
  from con obtain sid e where inv: "core_inv c" "handle_room 0 c" "free_list c \<noteq> []" and o: "owner c h sid e" "owner c k sid (1 - e)"
    by (auto simp: connected_def)
  obtain m c1 where c1: "Alloc KMessage (OMessage new_message) c = Some (m, c1)" "core_inv c1" "Lookup c m = None"
    "Lookup c1 = (Lookup c)(m \<mapsto> \<lparr>sl_kind = KMessage, sl_obj = OMessage new_message\<rparr>)" "owner c1 = owner c" "pipe_heap c1 = pipe_heap c"
    by (rule Alloc_message [OF inv])
  have m: "Lookup c1 m = Some \<lparr>sl_kind = KMessage, sl_obj = OMessage new_message\<rparr>" by (simp add: c1(4))
  define x where "x = new_message\<lparr>msg_bytes := bs, msg_committed := True\<rparr>"
  have x: "msg_committed x" "msg_serializer x = None" "msg_bytes x = bs" by (simp_all add: x_def new_message_def)
  obtain c2 c3 n where c3: "WhpAppendMessageData m (length bs) [] True c1 = Some (WHP_RESULT_OK, n, c2)" "fill_message m bs c2 = Some c3" "core_inv c3"
    "owner c3 = owner c1" "pipe_heap c3 = pipe_heap c1" "Lookup c3 m = Some \<lparr>sl_kind = KMessage, sl_obj = OMessage x\<rparr>"
    unfolding x_def by (rule new_message_ready [OF c1(2) m, of bs])
  have "core_inv c2" using WhpAppendMessageData_safe [OF c1(2), of m "length bs" "[]" True] c3(1) by auto
  then have "bs = [] \<Longrightarrow> c2 = c3" using c3(2) fill_nothing [of c2 m] by simp
  then have wr: "WhpWriteMessage env h m c3 = Some (r, c')" using w(1) c1(1) c3 by (auto simp: WriteMessageRaw_def WhpCreateMessage_def split: if_splits)
  have o3: "owner c3 h sid e" "owner c3 k sid (1 - e)" using o c1 c3 by simp_all
  have "r = WHP_RESULT_RESOURCE_EXHAUSTED \<and> c' = c3"
    using write_ready [OF c3(3) o3 c3(6) _ _ x(1,2), of env, symmetric, unfolded wr] w(2) by (auto simp: Let_def option_bind_Some_iff split: if_splits)
  moreover have "message_of m c3 = Some (Some x)" by (simp add: message_of_def c3(6))
  ultimately show ?thesis using c1(3) x(3) by blast
qed

end
