(* ===== verification/Connector.thy ===== *)
theory Connector
  imports Raw_Pipe Mojo_Message
begin

text \<open>
  The connector of a pipe (\<open>WASMCadidumBindings/src/connector.cc\<close>): it writes messages, drains the
  incoming ones into its receiver, and turns a failure into a closed pipe and one call of the
  error handler.  The connector's fields are a record that the router extends; the receiver and
  the error handler are functions on the extended state.  The traps behind the two watchers are
  not part of this state: a watcher is installed or not.
\<close>

record Connector =
  cn_core :: Core
  cn_pipe :: "WhpHandle option"
  cn_read_watcher :: bool
  cn_closed_watcher :: bool
  cn_error :: bool
  cn_paused :: bool
  cn_error_handler :: bool

definition CancelWatchers :: "'a Connector_scheme \<Rightarrow> 'a Connector_scheme" where
  "CancelWatchers s = s\<lparr>cn_read_watcher := False, cn_closed_watcher := False\<rparr>"

definition StartReceiving :: "'a Connector_scheme \<Rightarrow> 'a Connector_scheme" where
  "StartReceiving s =
     (if cn_pipe s = None \<or> cn_read_watcher s then s else s\<lparr>cn_read_watcher := True, cn_closed_watcher := True\<rparr>)"

definition PauseIncomingMethodCallProcessing :: "'a Connector_scheme \<Rightarrow> 'a Connector_scheme" where
  "PauseIncomingMethodCallProcessing s = CancelWatchers (s\<lparr>cn_paused := True\<rparr>)"

definition ResumeIncomingMethodCallProcessing :: "'a Connector_scheme \<Rightarrow> 'a Connector_scheme" where
  "ResumeIncomingMethodCallProcessing s = (if \<not> cn_paused s then s else StartReceiving (s\<lparr>cn_paused := False\<rparr>))"

text \<open>\<open>pipe_.reset()\<close> closes the handle.\<close>

definition reset_pipe :: "Env \<Rightarrow> 'a Connector_scheme \<Rightarrow> 'a Connector_scheme option" where
  "reset_pipe env s =
     (case cn_pipe s of
        None \<Rightarrow> Some s
      | Some h \<Rightarrow> do { (_, c) \<leftarrow> WhpClose env h (cn_core s); Some (s\<lparr>cn_core := c, cn_pipe := None\<rparr>) })"

definition RaiseError :: "Env \<Rightarrow> ('a Connector_scheme \<Rightarrow> 'a Connector_scheme) \<Rightarrow> 'a Connector_scheme \<Rightarrow> 'a Connector_scheme option" where
  "RaiseError env on_error s =
     (if cn_error s then Some s
      else do {
        s \<leftarrow> reset_pipe env (CancelWatchers (s\<lparr>cn_error := True\<rparr>));
        Some (if cn_error_handler s then on_error (s\<lparr>cn_error_handler := False\<rparr>) else s) })"

definition CloseMessagePipe :: "Env \<Rightarrow> 'a Connector_scheme \<Rightarrow> 'a Connector_scheme option" where
  "CloseMessagePipe env s = reset_pipe env (CancelWatchers s)"

definition PassMessagePipe :: "'a Connector_scheme \<Rightarrow> WhpHandle option \<times> 'a Connector_scheme" where
  "PassMessagePipe s = (cn_pipe s, (CancelWatchers s)\<lparr>cn_pipe := None\<rparr>)"

definition Connector_Accept :: "Env \<Rightarrow> ('a Connector_scheme \<Rightarrow> 'a Connector_scheme) \<Rightarrow> MojoMessage \<Rightarrow> 'a Connector_scheme \<Rightarrow>
    (bool \<times> 'a Connector_scheme) option" where
  "Connector_Accept env on_error m s =
     (case cn_pipe s of
        None \<Rightarrow> Some (False, s)
      | Some h \<Rightarrow>
          if cn_error s then Some (False, s)
          else do {
            let (handles, m) = TakeHandles m;
            (r, c) \<leftarrow> WriteMessageRaw env h (mm_buffer m) handles (cn_core s);
            let s = s\<lparr>cn_core := c\<rparr>;
            if r \<noteq> WHP_RESULT_OK then do { s \<leftarrow> RaiseError env on_error s; Some (False, s) }
            else Some (True, s) })"

text \<open>The loop over the available messages; a receiver of \<open>None\<close> is the unset one.  A loop that has
  not ended after \<open>fuel\<close> messages is \<open>None\<close>.\<close>

fun ReadAllAvailableMessages ::
    "Env \<Rightarrow> nat \<Rightarrow> (MojoMessage \<Rightarrow> 'a Connector_scheme \<Rightarrow> (bool \<times> 'a Connector_scheme) option) option \<Rightarrow>
     ('a Connector_scheme \<Rightarrow> 'a Connector_scheme) \<Rightarrow> nat \<Rightarrow> 'a Connector_scheme \<Rightarrow> 'a Connector_scheme option" where
  "ReadAllAvailableMessages env cap receiver on_error 0 s = None"
| "ReadAllAvailableMessages env cap receiver on_error (Suc fuel) s = do {
     (r, data, c) \<leftarrow> ReadMessageRaw env (case cn_pipe s of None \<Rightarrow> 0 | Some h \<Rightarrow> h) (cn_core s);
     let s = s\<lparr>cn_core := c\<rparr>;
     if r = WHP_RESULT_SHOULD_WAIT then Some s
     else if r \<noteq> WHP_RESULT_OK then RaiseError env on_error s
     else do {
       (bytes, handles) \<leftarrow> data;
       (m, _) \<leftarrow> WrapWireBytes cap bytes handles;
       if IsNull m then RaiseError env on_error s
       else do {
         (ok, s) \<leftarrow> (case receiver of None \<Rightarrow> Some (True, s) | Some accept \<Rightarrow> accept m s);
         if \<not> ok then RaiseError env on_error s
         else if cn_error s \<or> cn_paused s then Some s
         else ReadAllAvailableMessages env cap receiver on_error fuel s } } }"

definition OnReadable ::
    "Env \<Rightarrow> nat \<Rightarrow> (MojoMessage \<Rightarrow> 'a Connector_scheme \<Rightarrow> (bool \<times> 'a Connector_scheme) option) option \<Rightarrow>
     ('a Connector_scheme \<Rightarrow> 'a Connector_scheme) \<Rightarrow> nat \<Rightarrow> WhpResult \<Rightarrow> 'a Connector_scheme \<Rightarrow> 'a Connector_scheme option" where
  "OnReadable env cap receiver on_error fuel result s =
     (if cn_paused s \<or> cn_error s then Some s
      else if result \<noteq> WHP_RESULT_OK then RaiseError env on_error s
      else ReadAllAvailableMessages env cap receiver on_error fuel s)"

definition OnPeerClosed ::
    "Env \<Rightarrow> nat \<Rightarrow> (MojoMessage \<Rightarrow> 'a Connector_scheme \<Rightarrow> (bool \<times> 'a Connector_scheme) option) option \<Rightarrow>
     ('a Connector_scheme \<Rightarrow> 'a Connector_scheme) \<Rightarrow> nat \<Rightarrow> 'a Connector_scheme \<Rightarrow> 'a Connector_scheme option" where
  "OnPeerClosed env cap receiver on_error fuel s =
     (if cn_paused s \<or> cn_error s then Some s
      else do {
        s \<leftarrow> ReadAllAvailableMessages env cap receiver on_error fuel s;
        RaiseError env on_error s })"

end
