(* ===== verification/Multiplex_Router.thy ===== *)
theory Multiplex_Router
  imports Connector
begin

text \<open>
  The router of a pipe (\<open>WASMCadidumBindings/src/lib/multiplex_router.cc\<close>): it multiplexes the primary
  interface and associated interfaces over one connector.  Clients and callbacks are numbers; a
  call of one is an event of the log.  What a client answers is the parameter \<open>verdict\<close>, a function of all
  that was delivered before; clients do not call the router back while they handle a message.
\<close>

datatype RouterEvent =
    Delivered nat MojoMessage
  | RanClosure nat
  | RanWithReason nat nat "byte list"

record Endpoint =
  ep_client :: "nat option"
  ep_queued_messages :: "MojoMessage list"
  ep_peer_closed_handler :: "nat option"
  ep_peer_closed_with_reason_handler :: "nat option"
  ep_refs :: int

record Router = Connector +
  rt_namespace_bit :: bool
  rt_next_id_value :: nat
  rt_endpoints :: "nat \<rightharpoonup> Endpoint"
  rt_primary_client :: "nat option"
  rt_connection_error_handler :: "nat option"
  rt_connection_error_with_reason_handler :: "nat option"
  rt_disconnect_custom_reason :: nat
  rt_disconnect_description :: "byte list"
  rt_flush_done :: bool
  rt_log :: "RouterEvent list"

type_synonym Verdict = "RouterEvent list \<Rightarrow> nat \<Rightarrow> MojoMessage \<Rightarrow> bool"

definition new_endpoint :: Endpoint where
  "new_endpoint = \<lparr>ep_client = None, ep_queued_messages = [], ep_peer_closed_handler = None,
     ep_peer_closed_with_reason_handler = None, ep_refs = 0\<rparr>"

definition Router_Create :: "Core \<Rightarrow> WhpHandle option \<Rightarrow> bool \<Rightarrow> Router" where
  "Router_Create c pipe set_namespace_bit =
     \<lparr>cn_core = c, cn_pipe = pipe, cn_read_watcher = False, cn_closed_watcher = False, cn_error = False, cn_paused = False,
      cn_error_handler = True, rt_namespace_bit = set_namespace_bit, rt_next_id_value = 1, rt_endpoints = Map.empty,
      rt_primary_client = None, rt_connection_error_handler = None, rt_connection_error_with_reason_handler = None,
      rt_disconnect_custom_reason = 0, rt_disconnect_description = [], rt_flush_done = False, rt_log = []\<rparr>"

definition AttachPrimaryClient :: "nat \<Rightarrow> Router \<Rightarrow> Router" where
  "AttachPrimaryClient client s = s\<lparr>rt_primary_client := Some client\<rparr>"

definition DetachPrimaryClient :: "Router \<Rightarrow> Router" where
  "DetachPrimaryClient s = s\<lparr>rt_primary_client := None\<rparr>"

definition put_endpoint :: "nat \<Rightarrow> Endpoint \<Rightarrow> Router \<Rightarrow> Router" where
  "put_endpoint iid ep s = s\<lparr>rt_endpoints := (rt_endpoints s)(iid \<mapsto> ep)\<rparr>"

definition FindOrCreateEndpoint :: "nat \<Rightarrow> Router \<Rightarrow> Endpoint \<times> Router" where
  "FindOrCreateEndpoint iid s =
     (case rt_endpoints s iid of Some ep \<Rightarrow> (ep, s) | None \<Rightarrow> (new_endpoint, put_endpoint iid new_endpoint s))"

definition MintInterfaceId :: "Router \<Rightarrow> nat \<times> Router" where
  "MintInterfaceId s =
     (let iid = rt_next_id_value s;
          s = s\<lparr>rt_next_id_value := u32 (rt_next_id_value s + 1)\<rparr>
      in (if rt_namespace_bit s then or iid kInterfaceIdNamespaceMask else iid, s))"

definition MaybeEraseEndpoint :: "nat \<Rightarrow> Router \<Rightarrow> Router" where
  "MaybeEraseEndpoint iid s =
     (case rt_endpoints s iid of
        None \<Rightarrow> s
      | Some ep \<Rightarrow> if ep_refs ep \<le> 0 \<and> ep_client ep = None \<and> ep_queued_messages ep = []
                   then s\<lparr>rt_endpoints := (rt_endpoints s)(iid := None)\<rparr> else s)"

definition RetainEndpoint :: "nat \<Rightarrow> Router \<Rightarrow> Router" where
  "RetainEndpoint iid s = (let (ep, s) = FindOrCreateEndpoint iid s in put_endpoint iid (ep\<lparr>ep_refs := ep_refs ep + 1\<rparr>) s)"

definition DropEndpointHandle :: "nat \<Rightarrow> Router \<Rightarrow> Router" where
  "DropEndpointHandle iid s =
     (case rt_endpoints s iid of
        None \<Rightarrow> s
      | Some ep \<Rightarrow> MaybeEraseEndpoint iid
                     (if 0 < ep_refs ep then put_endpoint iid (ep\<lparr>ep_refs := ep_refs ep - 1\<rparr>) s else s))"

text \<open>A handle for an endpoint retains it; the handle itself is the id.\<close>

definition CreateLocalEndpointHandle :: "nat \<Rightarrow> Router \<Rightarrow> Router" where
  "CreateLocalEndpointHandle iid s = RetainEndpoint iid (snd (FindOrCreateEndpoint iid s))"

definition CreatePairPendingAssociation :: "Router \<Rightarrow> nat \<times> Router" where
  "CreatePairPendingAssociation s = (let (iid, s) = MintInterfaceId s in (iid, CreateLocalEndpointHandle iid s))"

definition DetachEndpointClient :: "nat \<Rightarrow> Router \<Rightarrow> Router" where
  "DetachEndpointClient iid s =
     MaybeEraseEndpoint iid
       (case rt_endpoints s iid of None \<Rightarrow> s | Some ep \<Rightarrow> put_endpoint iid (ep\<lparr>ep_client := None\<rparr>) s)"

definition SetPeerClosedHandler :: "nat \<Rightarrow> nat \<Rightarrow> Router \<Rightarrow> Router" where
  "SetPeerClosedHandler iid handler s =
     (let (ep, s) = FindOrCreateEndpoint iid s in put_endpoint iid (ep\<lparr>ep_peer_closed_handler := Some handler\<rparr>) s)"

definition SetPeerClosedWithReasonHandler :: "nat \<Rightarrow> nat \<Rightarrow> Router \<Rightarrow> Router" where
  "SetPeerClosedWithReasonHandler iid handler s =
     (let (ep, s) = FindOrCreateEndpoint iid s in put_endpoint iid (ep\<lparr>ep_peer_closed_with_reason_handler := Some handler\<rparr>) s)"

definition emit :: "RouterEvent \<Rightarrow> Router \<Rightarrow> Router" where
  "emit ev s = s\<lparr>rt_log := rt_log s @ [ev]\<rparr>"

definition OnPipeError :: "Router \<Rightarrow> Router" where
  "OnPipeError s =
     (case rt_connection_error_with_reason_handler s of
        Some k \<Rightarrow> emit (RanWithReason k (rt_disconnect_custom_reason s) (rt_disconnect_description s))
                    (s\<lparr>rt_connection_error_with_reason_handler := None\<rparr>)
      | None \<Rightarrow> (case rt_connection_error_handler s of
                   Some k \<Rightarrow> emit (RanClosure k) (s\<lparr>rt_connection_error_handler := None\<rparr>)
                 | None \<Rightarrow> s))"

abbreviation Router_RaiseError :: "Env \<Rightarrow> Router \<Rightarrow> Router option" where
  "Router_RaiseError env \<equiv> RaiseError env OnPipeError"

definition SendMessage :: "Env \<Rightarrow> MojoMessage \<Rightarrow> Router \<Rightarrow> (bool \<times> Router) option" where
  "SendMessage env m s = Connector_Accept env OnPipeError m s"

text \<open>\<open>client->Accept(&message)\<close>.\<close>

definition client_accept :: "Verdict \<Rightarrow> nat \<Rightarrow> MojoMessage \<Rightarrow> Router \<Rightarrow> bool \<times> Router" where
  "client_accept verdict client m s = (verdict (rt_log s) client m, emit (Delivered client m) s)"

fun deliver_queued :: "Env \<Rightarrow> Verdict \<Rightarrow> nat \<Rightarrow> MojoMessage list \<Rightarrow> Router \<Rightarrow> Router option" where
  "deliver_queued env verdict iid [] s = Some s"
| "deliver_queued env verdict iid (m # ms) s =
     do { ep \<leftarrow> rt_endpoints s iid;
          case ep_client ep of
            None \<Rightarrow> Router_RaiseError env s
          | Some client \<Rightarrow>
              (let (ok, s) = client_accept verdict client m s
               in if ok then deliver_queued env verdict iid ms s else Router_RaiseError env s) }"

definition AttachEndpointClient :: "Env \<Rightarrow> Verdict \<Rightarrow> nat \<Rightarrow> nat option \<Rightarrow> Router \<Rightarrow> Router option" where
  "AttachEndpointClient env verdict iid client s =
     (let (ep, s) = FindOrCreateEndpoint iid s;
          ep = ep\<lparr>ep_client := client\<rparr>
      in if ep_queued_messages ep = [] \<or> client = None then Some (put_endpoint iid ep s)
         else deliver_queued env verdict iid (ep_queued_messages ep) (put_endpoint iid (ep\<lparr>ep_queued_messages := []\<rparr>) s))"

definition closed_notice :: "nat \<Rightarrow> nat \<Rightarrow> byte list \<Rightarrow> MojoMessage option" where
  "closed_notice iid custom_reason description =
     do { m \<leftarrow> WriteScalar 4 iid (make_message 0 0 kInvalidInterfaceId);
          if custom_reason \<noteq> 0 \<or> description \<noteq> []
          then do { m \<leftarrow> WriteScalar 4 custom_reason m; WriteString description m }
          else Some m }"

definition NotifyPeerEndpointClosed :: "Env \<Rightarrow> nat \<Rightarrow> nat \<Rightarrow> byte list \<Rightarrow> Router \<Rightarrow> Router option" where
  "NotifyPeerEndpointClosed env iid custom_reason description s =
     do { m \<leftarrow> closed_notice iid custom_reason description;
          (_, s) \<leftarrow> Connector_Accept env OnPipeError m s;
          Some s }"

definition NotifyDisconnectReason :: "Env \<Rightarrow> nat \<Rightarrow> byte list \<Rightarrow> Router \<Rightarrow> Router option" where
  "NotifyDisconnectReason env custom_reason description s =
     NotifyPeerEndpointClosed env kPrimaryInterfaceId custom_reason description s"

definition CloseEndpoint :: "Env \<Rightarrow> nat \<Rightarrow> Router \<Rightarrow> Router option" where
  "CloseEndpoint env iid s =
     do { s \<leftarrow> NotifyPeerEndpointClosed env iid 0 [] s;
          let s = (case rt_endpoints s iid of None \<Rightarrow> s | Some ep \<Rightarrow> put_endpoint iid (ep\<lparr>ep_client := None\<rparr>) s);
          Some (DropEndpointHandle iid s) }"

subsection \<open>Incoming messages\<close>

definition kPipeControlFlushName :: nat where
  "kPipeControlFlushName = 1"

definition run_closed_handler :: "nat \<Rightarrow> nat \<Rightarrow> byte list \<Rightarrow> Router \<Rightarrow> Router" where
  "run_closed_handler closed_id custom_reason description s =
     (case rt_endpoints s closed_id of
        None \<Rightarrow> s
      | Some ep \<Rightarrow>
          (case ep_peer_closed_with_reason_handler ep of
             Some k \<Rightarrow> emit (RanWithReason k custom_reason description)
                         (put_endpoint closed_id (ep\<lparr>ep_peer_closed_with_reason_handler := None\<rparr>) s)
           | None \<Rightarrow>
               (case ep_peer_closed_handler ep of
                  Some k \<Rightarrow> emit (RanClosure k) (put_endpoint closed_id (ep\<lparr>ep_peer_closed_handler := None\<rparr>) s)
                | None \<Rightarrow> s)))"

text \<open>The payload of a notice: the closed id, and the reason when there is more.  \<open>None\<close> inside is
  a payload that does not parse.\<close>

definition read_closed_notice :: "MojoMessage \<Rightarrow> (nat \<times> nat \<times> byte list) option option" where
  "read_closed_notice m =
     do { r \<leftarrow> ReadScalar 4 m 0;
          case r of
            None \<Rightarrow> Some None
          | Some (closed_id, offset) \<Rightarrow>
              do { avail \<leftarrow> payload_num_bytes m;
                   if offset < avail
                   then do { r \<leftarrow> ReadScalar 4 m offset;
                             case r of
                               None \<Rightarrow> Some None
                             | Some (custom_reason, offset) \<Rightarrow>
                                 do { r \<leftarrow> ReadString m offset;
                                      case r of
                                        None \<Rightarrow> Some None
                                      | Some (description, _) \<Rightarrow> Some (Some (closed_id, custom_reason, description)) } }
                   else Some (Some (closed_id, 0, [])) } }"

definition HandlePipeControlMessage :: "Env \<Rightarrow> MojoMessage \<Rightarrow> Router \<Rightarrow> (bool \<times> Router) option" where
  "HandlePipeControlMessage env m s =
     do { name \<leftarrow> msg_name m;
          fl \<leftarrow> flags m;
          if name = kPipeControlFlushName
          then if bit fl 1 then Some (True, s\<lparr>rt_flush_done := True\<rparr>)
               else do { rid \<leftarrow> request_id m;
                         let pong = set_request_id rid (make_message kPipeControlFlushName kFlagIsResponse kInvalidInterfaceId);
                         (_, s) \<leftarrow> Connector_Accept env OnPipeError pong s;
                         Some (True, s) }
          else do { r \<leftarrow> read_closed_notice m;
                    case r of
                      None \<Rightarrow> Some (False, s)
                    | Some (closed_id, custom_reason, description) \<Rightarrow>
                        (let s = (if IsPrimaryInterfaceId closed_id
                                  then s\<lparr>rt_disconnect_custom_reason := custom_reason, rt_disconnect_description := description\<rparr>
                                  else s)
                         in Some (True, run_closed_handler closed_id custom_reason description s)) } }"

definition Router_Accept :: "Env \<Rightarrow> Verdict \<Rightarrow> MojoMessage \<Rightarrow> Router \<Rightarrow> (bool \<times> Router) option" where
  "Router_Accept env verdict m s =
     do { iid \<leftarrow> interface_id m;
          if iid = kInvalidInterfaceId then HandlePipeControlMessage env m s
          else if IsPrimaryInterfaceId iid then
            (case rt_primary_client s of
               Some client \<Rightarrow> Some (client_accept verdict client m s)
             | None \<Rightarrow> Some (True, s))
          else (let (ep, s) = FindOrCreateEndpoint iid s
                in case ep_client ep of
                     Some client \<Rightarrow> Some (client_accept verdict client m s)
                   | None \<Rightarrow> Some (True, put_endpoint iid (ep\<lparr>ep_queued_messages := ep_queued_messages ep @ [m]\<rparr>) s)) }"

definition Router_OnReadable :: "Env \<Rightarrow> nat \<Rightarrow> Verdict \<Rightarrow> nat \<Rightarrow> WhpResult \<Rightarrow> Router \<Rightarrow> Router option" where
  "Router_OnReadable env cap verdict fuel result s =
     OnReadable env cap (Some (Router_Accept env verdict)) OnPipeError fuel result s"

subsection \<open>Version control messages\<close>

definition HandleQueryVersionMessage :: "Env \<Rightarrow> MojoMessage \<Rightarrow> nat \<Rightarrow> nat \<Rightarrow> Router \<Rightarrow> (bool \<times> Router) option" where
  "HandleQueryVersionMessage env m iid ver s =
     do { rid \<leftarrow> request_id m;
          let response = set_request_id rid (make_message 0xFFFFFFFF kFlagIsResponse iid);
          response \<leftarrow> WriteScalar 4 0 response;
          response \<leftarrow> WriteScalar 4 ver response;
          SendMessage env response s }"

definition HandleRequireVersionMessage :: "MojoMessage \<Rightarrow> nat \<Rightarrow> bool option" where
  "HandleRequireVersionMessage m ver =
     do { r \<leftarrow> ReadScalar 4 m 0;
          case r of
            None \<Rightarrow> Some False
          | Some (tag, offset) \<Rightarrow>
              if tag \<noteq> 0 then Some False
              else do { r \<leftarrow> ReadScalar 4 m offset;
                        case r of None \<Rightarrow> Some False | Some (required_version, _) \<Rightarrow> Some (required_version \<le> ver) } }"

end
