(* ===== verification/Router_Properties.thy ===== *)
theory Router_Properties
  imports Multiplex_Router Message_Properties Whp_Properties
begin

text \<open>
  Properties of the router: interface ids never clash between the two sides of a pipe, every endpoint
  receives its messages in order and once, and a closing reason arrives as it was given.
\<close>

subsection \<open>Interface ids\<close>

fun create_pairs :: "nat \<Rightarrow> Router \<Rightarrow> nat list \<times> Router" where
  "create_pairs 0 s = ([], s)"
| "create_pairs (Suc n) s =
     (let (i, s) = CreatePairPendingAssociation s; (ids, s) = create_pairs n s in (i # ids, s))"

lemma FindOrCreate_frame [simp]:
  "rt_next_id_value (snd (FindOrCreateEndpoint i s)) = rt_next_id_value s"
  "rt_namespace_bit (snd (FindOrCreateEndpoint i s)) = rt_namespace_bit s"
  by (simp_all add: FindOrCreateEndpoint_def put_endpoint_def split: option.split)

lemma CreateLocal_frame [simp]:
  "rt_next_id_value (CreateLocalEndpointHandle i s) = rt_next_id_value s"
  "rt_namespace_bit (CreateLocalEndpointHandle i s) = rt_namespace_bit s"
  by (simp_all add: CreateLocalEndpointHandle_def RetainEndpoint_def FindOrCreateEndpoint_def put_endpoint_def split_beta split: option.split)

lemma or_namespace: "i < 2 ^ 31 \<Longrightarrow> or i kInterfaceIdNamespaceMask = i + (2 ^ 31 :: nat)"
proof -
  assume "i < 2 ^ 31"
  then have "set_bit 31 i = i + (2 ^ 31 :: nat)" by (simp add: set_bit_eq bit_iff_odd)
  then show ?thesis by (simp add: set_bit_eq_or kInterfaceIdNamespaceMask_def push_bit_eq_mult)
qed

lemma create_pairs_ids:
  "rt_next_id_value s + n \<le> 2 ^ 31 \<Longrightarrow>
     fst (create_pairs n s) = map (\<lambda>i. if rt_namespace_bit s then i + 2 ^ 31 else i) [rt_next_id_value s..<rt_next_id_value s + n]"
proof (induction n arbitrary: s)
  case (Suc n)
  let ?i = "rt_next_id_value s"
  let ?s = "CreateLocalEndpointHandle (if rt_namespace_bit s then or ?i kInterfaceIdNamespaceMask else ?i) (s\<lparr>rt_next_id_value := u32 (?i + 1)\<rparr>)"
  have u: "u32 (?i + 1) = ?i + 1" using Suc.prems by (intro u32_id) simp
  have "fst (create_pairs n ?s) = map (\<lambda>i. if rt_namespace_bit s then i + 2 ^ 31 else i) [?i + 1..<?i + 1 + n]"
    using Suc.IH [of ?s] Suc.prems u by simp
  moreover have "[?i..<?i + Suc n] = ?i # [?i + 1..<?i + 1 + n]" by (simp add: upt_rec)
  ultimately show ?case using or_namespace [of ?i] Suc.prems
    by (simp add: CreatePairPendingAssociation_def MintInterfaceId_def Let_def split_beta)
qed simp

text \<open>C39.  Interface ids never clash.  The ids that the two routers of a pipe mint, up to the limit of
  the 31 bits each side has, are all distinct, also between the two sides, and none is the
  primary or the invalid id.\<close>

theorem interface_ids_unique:
  assumes "n < 2 ^ 31 - 1" "m < 2 ^ 31 - 1"
  shows "distinct (fst (create_pairs n (Router_Create c h False)) @ fst (create_pairs m (Router_Create c' k True))) \<and>
    list_all (\<lambda>i. IsValidInterfaceId i \<and> \<not> IsPrimaryInterfaceId i)
      (fst (create_pairs n (Router_Create c h False)) @ fst (create_pairs m (Router_Create c' k True)))"
proof -
  have a: "fst (create_pairs n (Router_Create c h False)) = [1..<1 + n]" "fst (create_pairs m (Router_Create c' k True)) = map (\<lambda>i. i + 2 ^ 31) [1..<1 + m]"
    using create_pairs_ids [of "Router_Create c h False" n] create_pairs_ids [of "Router_Create c' k True" m] assms by (simp_all add: Router_Create_def)
  show ?thesis using assms unfolding a
    by (auto simp: distinct_map inj_on_def list_all_iff IsValidInterfaceId_def IsPrimaryInterfaceId_def kInvalidInterfaceId_def kPrimaryInterfaceId_def)
qed

theorem interface_ids_unique_witness:
  "distinct (fst (create_pairs 3 (Router_Create initial_core None False)) @ fst (create_pairs 2 (Router_Create initial_core None True)))"
  using interface_ids_unique [of 3 2 initial_core None initial_core None] by simp

text \<open>The ids do run out: the last one of the side with the namespace bit is the invalid id.\<close>

lemma last_id_is_invalid:
  "rt_namespace_bit s \<Longrightarrow> rt_next_id_value s = 2 ^ 31 - 1 \<Longrightarrow> fst (MintInterfaceId s) = kInvalidInterfaceId"
  using or_namespace [of "2 ^ 31 - 1"] by (simp add: MintInterfaceId_def Let_def kInvalidInterfaceId_def)

subsection \<open>Sessions of a router\<close>

datatype RouterOp =
    OpAttach nat "nat option" | OpDetach nat | OpRetain nat | OpDrop nat | OpClose nat | OpCreatePair
  | OpCreateLocal nat | OpClosedHandler nat nat | OpClosedReasonHandler nat nat | OpPrimary "nat option"
  | OpSend MojoMessage | OpArrive MojoMessage

text \<open>An arrival is what the connector's loop does with one message.\<close>

fun router_op :: "Env \<Rightarrow> Verdict \<Rightarrow> RouterOp \<Rightarrow> Router \<Rightarrow> Router option" where
  "router_op env vd (OpAttach i client) s = AttachEndpointClient env vd i client s"
| "router_op env vd (OpDetach i) s = Some (DetachEndpointClient i s)"
| "router_op env vd (OpRetain i) s = Some (RetainEndpoint i s)"
| "router_op env vd (OpDrop i) s = Some (DropEndpointHandle i s)"
| "router_op env vd (OpClose i) s = CloseEndpoint env i s"
| "router_op env vd OpCreatePair s = Some (snd (CreatePairPendingAssociation s))"
| "router_op env vd (OpCreateLocal i) s = Some (CreateLocalEndpointHandle i s)"
| "router_op env vd (OpClosedHandler i k) s = Some (SetPeerClosedHandler i k s)"
| "router_op env vd (OpClosedReasonHandler i k) s = Some (SetPeerClosedWithReasonHandler i k s)"
| "router_op env vd (OpPrimary client) s =
     Some (case client of Some k \<Rightarrow> AttachPrimaryClient k s | None \<Rightarrow> DetachPrimaryClient s)"
| "router_op env vd (OpSend m) s = map_option snd (SendMessage env m s)"
| "router_op env vd (OpArrive m) s =
     do { (ok, s) \<leftarrow> Router_Accept env vd m s; if ok then Some s else Router_RaiseError env s }"

fun router_run :: "Env \<Rightarrow> Verdict \<Rightarrow> RouterOp list \<Rightarrow> Router \<Rightarrow> Router option" where
  "router_run env vd [] s = Some s"
| "router_run env vd (p # ps) s = do { s \<leftarrow> router_op env vd p s; router_run env vd ps s }"

text \<open>The messages for an endpoint: delivered, still queued, and arrived.\<close>

fun delivered_to :: "nat \<Rightarrow> RouterEvent list \<Rightarrow> MojoMessage list" where
  "delivered_to i [] = []"
| "delivered_to i (Delivered _ m # evs) = (if interface_id m = Some i then [m] else []) @ delivered_to i evs"
| "delivered_to i (_ # evs) = delivered_to i evs"

definition queued_for :: "nat \<Rightarrow> Router \<Rightarrow> MojoMessage list" where
  "queued_for i s = (case rt_endpoints s i of None \<Rightarrow> [] | Some ep \<Rightarrow> ep_queued_messages ep)"

fun arrived_for :: "nat \<Rightarrow> RouterOp list \<Rightarrow> MojoMessage list" where
  "arrived_for i [] = []"
| "arrived_for i (OpArrive m # ps) = (if interface_id m = Some i then [m] else []) @ arrived_for i ps"
| "arrived_for i (_ # ps) = arrived_for i ps"

lemma delivered_append [simp]: "delivered_to i (xs @ ys) = delivered_to i xs @ delivered_to i ys"
  by (induction i xs rule: delivered_to.induct) auto

definition attached :: "nat \<Rightarrow> Router \<Rightarrow> bool" where
  "attached i s \<longleftrightarrow> (case rt_endpoints s i of None \<Rightarrow> False | Some ep \<Rightarrow> ep_client ep \<noteq> None)"

text \<open>What an operation may change: nothing about deliveries and queues.\<close>

definition quiet_change :: "Router \<Rightarrow> Router \<Rightarrow> bool" where
  "quiet_change s s' \<longleftrightarrow> (\<forall>i. delivered_to i (rt_log s') = delivered_to i (rt_log s)) \<and>
     (\<forall>i. queued_for i s' = queued_for i s) \<and> (\<forall>i. attached i s' \<longrightarrow> attached i s) \<and> cn_error s' = cn_error s"

lemma quiet_refl [simp]: "quiet_change s s"
  by (simp add: quiet_change_def)

lemma quiet_trans: "quiet_change s t \<Longrightarrow> quiet_change t u \<Longrightarrow> quiet_change s u"
  by (simp add: quiet_change_def)

named_theorems quiet_intros \<open>operations that leave deliveries and queues alone\<close>

lemma quiet_put [quiet_intros]:
  "ep_queued_messages ep = queued_for i s \<Longrightarrow> ep_client ep = None \<or> attached i s \<Longrightarrow> quiet_change s (put_endpoint i ep s)"
  by (auto simp: quiet_change_def put_endpoint_def queued_for_def attached_def split: if_splits)

lemma queued_for_endpoint [simp]: "rt_endpoints s i = Some ep \<Longrightarrow> queued_for i s = ep_queued_messages ep"
  by (simp add: queued_for_def)

lemma attached_endpoint [simp]: "rt_endpoints s i = Some ep \<Longrightarrow> attached i s \<longleftrightarrow> ep_client ep \<noteq> None"
  by (simp add: attached_def)

lemma FindOrCreate_cases:
  obtains ep t where "FindOrCreateEndpoint i s = (ep, t)" "rt_endpoints t i = Some ep" "ep_queued_messages ep = queued_for i s" "quiet_change s t"
proof (cases "rt_endpoints s i")
  case None
  show ?thesis by (rule that [of new_endpoint "put_endpoint i new_endpoint s"])
      (use None in \<open>auto simp: FindOrCreateEndpoint_def put_endpoint_def new_endpoint_def quiet_change_def queued_for_def attached_def\<close>)
next
  case (Some ep)
  show ?thesis by (rule that [of ep s]) (use Some in \<open>auto simp: FindOrCreateEndpoint_def\<close>)
qed

lemma quiet_Retain [quiet_intros]: "quiet_change s (RetainEndpoint i s)"
proof -
  obtain ep t where f: "FindOrCreateEndpoint i s = (ep, t)" "rt_endpoints t i = Some ep" "quiet_change s t" by (rule FindOrCreate_cases)
  have "quiet_change t (put_endpoint i (ep\<lparr>ep_refs := ep_refs ep + 1\<rparr>) t)" by (rule quiet_put) (use f(2) in auto)
  with f(3) show ?thesis by (simp add: RetainEndpoint_def f(1) quiet_trans)
qed

lemma quiet_FindOrCreate [quiet_intros]: "quiet_change s (snd (FindOrCreateEndpoint i s))"
  by (rule FindOrCreate_cases [of i s]) simp

lemma quiet_CreateLocal [quiet_intros]: "quiet_change s (CreateLocalEndpointHandle i s)"
  unfolding CreateLocalEndpointHandle_def by (rule quiet_trans [OF quiet_FindOrCreate quiet_Retain])

lemma quiet_CreatePair [quiet_intros]: "quiet_change s (snd (CreatePairPendingAssociation s))"
proof -
  have "quiet_change s (s\<lparr>rt_next_id_value := n\<rparr>)" for n by (simp add: quiet_change_def queued_for_def attached_def)
  then show ?thesis by (simp add: CreatePairPendingAssociation_def MintInterfaceId_def Let_def split_beta quiet_trans [OF _ quiet_CreateLocal])
qed

lemma quiet_MaybeErase [quiet_intros]: "quiet_change s (MaybeEraseEndpoint i s)"
  by (auto simp: MaybeEraseEndpoint_def quiet_change_def queued_for_def attached_def split: option.split)

lemma quiet_Drop [quiet_intros]: "quiet_change s (DropEndpointHandle i s)"
proof (cases "rt_endpoints s i")
  case (Some ep)
  then have "quiet_change s (if 0 < ep_refs ep then put_endpoint i (ep\<lparr>ep_refs := ep_refs ep - 1\<rparr>) s else s)"
    by (auto intro: quiet_put)
  with Some show ?thesis by (simp add: DropEndpointHandle_def quiet_trans [OF _ quiet_MaybeErase])
qed (simp add: DropEndpointHandle_def)

lemma quiet_forget_client: "quiet_change s (case rt_endpoints s i of None \<Rightarrow> s | Some ep \<Rightarrow> put_endpoint i (ep\<lparr>ep_client := None\<rparr>) s)"
  by (auto split: option.split intro: quiet_put)

lemma quiet_Detach [quiet_intros]: "quiet_change s (DetachEndpointClient i s)"
  unfolding DetachEndpointClient_def by (rule quiet_trans [OF quiet_forget_client quiet_MaybeErase])

lemma quiet_handlers [quiet_intros]:
  "quiet_change s (SetPeerClosedHandler i k s)" "quiet_change s (SetPeerClosedWithReasonHandler i k s)"
proof -
  obtain ep t where f: "FindOrCreateEndpoint i s = (ep, t)" "rt_endpoints t i = Some ep" "quiet_change s t" by (rule FindOrCreate_cases)
  have "quiet_change t (put_endpoint i (ep\<lparr>ep_peer_closed_handler := Some k\<rparr>) t)"
    "quiet_change t (put_endpoint i (ep\<lparr>ep_peer_closed_with_reason_handler := Some k\<rparr>) t)" using f(2) by (auto intro!: quiet_put)
  with f(3) show "quiet_change s (SetPeerClosedHandler i k s)" "quiet_change s (SetPeerClosedWithReasonHandler i k s)"
    by (simp_all add: SetPeerClosedHandler_def SetPeerClosedWithReasonHandler_def f(1) quiet_trans)
qed

subsection \<open>Errors\<close>

lemma OnPipeError_error [simp]: "cn_error (OnPipeError s) = cn_error s"
  by (simp add: OnPipeError_def emit_def split: option.split)

lemma RaiseError_error: "Router_RaiseError env s = Some t \<Longrightarrow> cn_error t"
  by (auto simp: RaiseError_def reset_pipe_def CancelWatchers_def option_bind_Some_iff split: if_splits option.splits)

lemma quiet_core [simp]: "quiet_change s (s\<lparr>cn_core := c\<rparr>)"
  by (simp add: quiet_change_def queued_for_def attached_def)

lemma Connector_Accept_quiet:
  assumes "Connector_Accept env OnPipeError m s = Some (ok, t)"
  shows "cn_error t \<or> quiet_change s t"
proof (cases "cn_pipe s = None \<or> cn_error s")
  case True
  then show ?thesis using assms by (auto simp: Connector_Accept_def split: option.splits)
next
  case False
  then obtain h where h: "cn_pipe s = Some h" by auto
  obtain r c where w: "WriteMessageRaw env h (mm_buffer m) (mm_handles m) (cn_core s) = Some (r, c)"
    using assms False h by (auto simp: Connector_Accept_def TakeHandles_def option_bind_Some_iff)
  show ?thesis
  proof (cases "r = WHP_RESULT_OK")
    case True
    then show ?thesis using assms False h w by (auto simp: Connector_Accept_def TakeHandles_def)
  next
    case r: False
    then have "\<exists>u. Router_RaiseError env (s\<lparr>cn_core := c\<rparr>) = Some u \<and> t = u"
      using assms False h w by (auto simp: Connector_Accept_def TakeHandles_def option_bind_Some_iff)
    then show ?thesis using RaiseError_error by blast
  qed
qed

lemma Notify_quiet: "NotifyPeerEndpointClosed env i r d s = Some t \<Longrightarrow> cn_error t \<or> quiet_change s t"
  by (auto simp: NotifyPeerEndpointClosed_def option_bind_Some_iff dest!: Connector_Accept_quiet)

lemma quiet_error: "quiet_change s t \<Longrightarrow> cn_error t = cn_error s"
  by (simp add: quiet_change_def)

lemma Close_quiet:
  assumes "CloseEndpoint env i s = Some t"
  shows "cn_error t \<or> quiet_change s t"
proof -
  obtain u where u: "NotifyPeerEndpointClosed env i 0 [] s = Some u"
    "t = DropEndpointHandle i (case rt_endpoints u i of None \<Rightarrow> u | Some ep \<Rightarrow> put_endpoint i (ep\<lparr>ep_client := None\<rparr>) u)"
    using assms by (auto simp: CloseEndpoint_def option_bind_Some_iff)
  have "quiet_change u t" unfolding u(2) by (rule quiet_trans [OF quiet_forget_client quiet_Drop])
  then show ?thesis using Notify_quiet [OF u(1)] quiet_trans quiet_error by blast
qed

lemma run_closed_quiet: "quiet_change s (run_closed_handler i r d s)"
  by (auto simp: run_closed_handler_def emit_def put_endpoint_def quiet_change_def queued_for_def attached_def split: option.split)

lemma Control_quiet:
  assumes "HandlePipeControlMessage env m s = Some (ok, t)"
  shows "cn_error t \<or> quiet_change s t"
proof -
  obtain name fl where nf: "msg_name m = Some name" "flags m = Some fl" using assms by (auto simp: HandlePipeControlMessage_def option_bind_Some_iff)
  show ?thesis
  proof (cases "name = kPipeControlFlushName")
    case True
    then show ?thesis using assms nf
      by (auto simp: HandlePipeControlMessage_def option_bind_Some_iff split: if_splits dest!: Connector_Accept_quiet)
        (simp add: quiet_change_def queued_for_def attached_def)
  next
    case False
    then obtain r where r: "read_closed_notice m = Some r" using assms nf by (auto simp: HandlePipeControlMessage_def option_bind_Some_iff)
    have q: "quiet_change s (run_closed_handler i cr d (s\<lparr>rt_disconnect_custom_reason := x, rt_disconnect_description := y\<rparr>))" for i cr d x y
      by (rule quiet_trans [OF _ run_closed_quiet]) (simp add: quiet_change_def queued_for_def attached_def)
    show ?thesis using assms nf r False run_closed_quiet q
      by (cases r) (auto simp: HandlePipeControlMessage_def Let_def split: prod.splits if_splits)
  qed
qed

subsection \<open>Delivery\<close>

lemma deliver_queued_log:
  "deliver_queued env vd i ms s = Some t \<Longrightarrow> \<not> cn_error t \<Longrightarrow> rt_endpoints s i = Some ep \<Longrightarrow>
     rt_endpoints t = rt_endpoints s \<and> rt_log t = rt_log s @ map (Delivered (the (ep_client ep))) ms \<and> cn_error t = cn_error s"
proof (induction ms arbitrary: s)
  case (Cons m ms)
  show ?case
  proof (cases "ep_client ep")
    case None
    then show ?thesis using Cons.prems RaiseError_error [of env s t] by auto
  next
    case (Some cl)
    let ?s = "emit (Delivered cl m) s"
    have ok: "deliver_queued env vd i ms ?s = Some t"
      using Cons.prems Some RaiseError_error [of env ?s t] by (auto simp: client_accept_def split: if_splits)
    have "rt_endpoints ?s i = Some ep" using Cons.prems(3) by (simp add: emit_def)
    from Cons.IH [OF ok Cons.prems(2) this] Some show ?thesis by (simp add: emit_def)
  qed
qed simp

lemma delivered_own: "\<forall>m\<in>set ms. interface_id m = Some i \<Longrightarrow> delivered_to j (map (Delivered cl) ms) = (if j = i then ms else [])"
  by (induction ms) auto

definition routed :: "nat \<Rightarrow> bool" where
  "routed i \<longleftrightarrow> i \<noteq> kInvalidInterfaceId \<and> \<not> IsPrimaryInterfaceId i"

definition fifo_ok :: "(nat \<Rightarrow> MojoMessage list) \<Rightarrow> Router \<Rightarrow> bool" where
  "fifo_ok arr s \<longleftrightarrow> (\<forall>i. (\<forall>m\<in>set (queued_for i s). interface_id m = Some i) \<and> (attached i s \<longrightarrow> queued_for i s = []) \<and>
     (if routed i then delivered_to i (rt_log s) @ queued_for i s = arr i else queued_for i s = []))"

lemma fifo_ok_quiet: "fifo_ok arr s \<Longrightarrow> quiet_change s t \<Longrightarrow> fifo_ok arr t"
  by (simp add: fifo_ok_def quiet_change_def)

lemma Attach_fifo:
  assumes "AttachEndpointClient env vd i client s = Some t" "\<not> cn_error t" "fifo_ok arr s"
  shows "fifo_ok arr t \<and> \<not> cn_error s"
proof -
  obtain ep u where f: "FindOrCreateEndpoint i s = (ep, u)" "rt_endpoints u i = Some ep" "ep_queued_messages ep = queued_for i s" "quiet_change s u"
    by (rule FindOrCreate_cases)
  have u: "fifo_ok arr u" "cn_error u = cn_error s" using assms(3) f(4) fifo_ok_quiet quiet_error by blast+
  show ?thesis
  proof (cases "ep_queued_messages ep = [] \<or> client = None")
    case True
    then have t: "t = put_endpoint i (ep\<lparr>ep_client := client\<rparr>) u" using assms(1) f(1) by (simp add: AttachEndpointClient_def Let_def)
    have q: "queued_for j t = queued_for j u" "attached j t \<longleftrightarrow> (if j = i then client \<noteq> None else attached j u)" for j
      using f(2) by (simp_all add: t put_endpoint_def queued_for_def attached_def)
    have "rt_log t = rt_log u" "cn_error t = cn_error u" by (simp_all add: t put_endpoint_def)
    then show ?thesis using u assms(2) True f(2) by (auto simp: fifo_ok_def q)
  next
    case False
    let ?ep = "ep\<lparr>ep_client := client, ep_queued_messages := []\<rparr>"
    let ?w = "put_endpoint i ?ep u"
    have d: "deliver_queued env vd i (ep_queued_messages ep) ?w = Some t" using assms(1) f(1) False by (simp add: AttachEndpointClient_def Let_def)
    have "rt_endpoints ?w i = Some ?ep" by (simp add: put_endpoint_def)
    from deliver_queued_log [OF d assms(2) this]
    have t: "rt_endpoints t = (rt_endpoints u)(i \<mapsto> ?ep)" "rt_log t = rt_log u @ map (Delivered (the client)) (ep_queued_messages ep)" "cn_error t = cn_error u"
      by (simp_all add: put_endpoint_def)
    have own: "\<forall>m\<in>set (ep_queued_messages ep). interface_id m = Some i" using u(1) f(2) by (auto simp: fifo_ok_def dest: spec [of _ i])
    have q: "queued_for j t = (if j = i then [] else queued_for j u)" for j by (simp add: queued_for_def t(1))
    have a: "attached j t \<longleftrightarrow> (if j = i then client \<noteq> None else attached j u)" for j by (simp add: attached_def t(1))
    have "delivered_to j (rt_log t) @ queued_for j t = delivered_to j (rt_log u) @ queued_for j u" for j
      using f(2) by (simp add: t(2) delivered_own [OF own] q)
    then show ?thesis using u t(3) assms(2) by (auto simp: fifo_ok_def q a)
  qed
qed

lemma Accept_fifo:
  assumes "Router_Accept env vd m s = Some (True, t)" "\<not> cn_error t" "fifo_ok arr s"
  shows "fifo_ok (\<lambda>i. arr i @ (if interface_id m = Some i then [m] else [])) t \<and> \<not> cn_error s"
proof -
  obtain i where i: "interface_id m = Some i" using assms(1) by (auto simp: Router_Accept_def option_bind_Some_iff)
  consider (control) "i = kInvalidInterfaceId" | (primary) "IsPrimaryInterfaceId i" "i \<noteq> kInvalidInterfaceId" | (assoc) "routed i"
    by (auto simp: routed_def)
  then show ?thesis
  proof cases
    case control
    then have "quiet_change s t" using Control_quiet [of env m s True t] assms(1,2) i by (simp add: Router_Accept_def)
    then have "fifo_ok arr t" "cn_error t = cn_error s" using assms(3) fifo_ok_quiet quiet_error by blast+
    then show ?thesis using i assms(2) control by (auto simp: fifo_ok_def routed_def)
  next
    case primary
    then have "t = s \<or> (\<exists>cl. t = emit (Delivered cl m) s)"
      using assms(1) i by (auto simp: Router_Accept_def client_accept_def split: option.splits)
    then have "rt_endpoints t = rt_endpoints s" "\<forall>j. routed j \<longrightarrow> delivered_to j (rt_log t) = delivered_to j (rt_log s)" "cn_error t = cn_error s"
      using i primary by (auto simp: emit_def routed_def)
    moreover from this(1) have "queued_for j t = queued_for j s" "attached j t = attached j s" for j by (simp_all add: queued_for_def attached_def)
    moreover have "\<not> routed i" using primary by (simp add: routed_def)
    ultimately show ?thesis using assms(2,3) i unfolding fifo_ok_def by auto
  next
    case assoc
    obtain ep u where f: "FindOrCreateEndpoint i s = (ep, u)" "rt_endpoints u i = Some ep" "ep_queued_messages ep = queued_for i s" "quiet_change s u"
      by (rule FindOrCreate_cases)
    have u: "fifo_ok arr u" "cn_error u = cn_error s" using assms(3) f(4) fifo_ok_quiet quiet_error by blast+
    show ?thesis
    proof (cases "ep_client ep")
      case None
      then have t: "t = put_endpoint i (ep\<lparr>ep_queued_messages := ep_queued_messages ep @ [m]\<rparr>) u"
        using assms(1) i assoc f(1) by (simp add: Router_Accept_def routed_def)
      have q: "queued_for j t = queued_for j u @ (if j = i then [m] else [])" for j using f(2) by (simp add: t put_endpoint_def queued_for_def)
      have a: "attached j t = attached j u" for j using f(2) by (simp add: t put_endpoint_def attached_def)
      have na: "\<not> attached i u" using f(2) None by simp
      have "rt_log t = rt_log u" "cn_error t = cn_error u" by (simp_all add: t put_endpoint_def)
      then show ?thesis using u assms(2) i assoc na by (auto simp: fifo_ok_def q a)
    next
      case (Some cl)
      then have t: "t = emit (Delivered cl m) u" using assms(1) i assoc f(1) by (simp add: Router_Accept_def routed_def client_accept_def)
      have q: "queued_for j t = queued_for j u" for j by (simp add: t emit_def queued_for_def)
      have q': "attached j t = attached j u" for j by (simp add: t emit_def attached_def)
      have l: "rt_log t = rt_log u @ [Delivered cl m]" "cn_error t = cn_error u" by (simp_all add: t emit_def)
      have "queued_for i u = []" using u(1) f(2) Some by (auto simp: fifo_ok_def dest: spec [of _ i])
      moreover from this have "delivered_to i (rt_log u) = arr i" using u(1) assoc by (auto simp: fifo_ok_def dest: spec [of _ i])
      ultimately show ?thesis using u assms(2) i assoc by (auto simp: fifo_ok_def q q' l)
    qed
  qed
qed

text \<open>Every other operation leaves deliveries and queues alone.\<close>

lemma op_quiet:
  assumes "router_op env vd p s = Some t" "\<nexists>m. p = OpArrive m" "\<nexists>i cl. p = OpAttach i cl"
  shows "cn_error t \<or> quiet_change s t"
proof -
  have prim: "quiet_change s (case cl of Some k \<Rightarrow> AttachPrimaryClient k s | None \<Rightarrow> DetachPrimaryClient s)" for cl
    by (auto simp: AttachPrimaryClient_def DetachPrimaryClient_def quiet_change_def queued_for_def attached_def split: option.split)
  show ?thesis
    using assms prim by (cases p) (auto intro: quiet_intros simp: SendMessage_def dest!: Connector_Accept_quiet Close_quiet)
qed

lemma router_op_fifo:
  assumes "router_op env vd p s = Some t" "\<not> cn_error t" "fifo_ok arr s"
  shows "fifo_ok (\<lambda>i. arr i @ arrived_for i [p]) t \<and> \<not> cn_error s"
proof (cases "\<exists>m. p = OpArrive m")
  case True
  then obtain m where p: "p = OpArrive m" by blast
  obtain ok u where u: "Router_Accept env vd m s = Some (ok, u)" "(if ok then Some u else Router_RaiseError env u) = Some t"
    using assms(1) p by (auto simp: option_bind_Some_iff)
  then have "ok" using RaiseError_error assms(2) by (cases ok) auto
  then show ?thesis using Accept_fifo [of env vd m s t arr] u assms(2,3) p by simp
next
  case False
  then have a: "arrived_for i [p] = []" for i by (cases p) auto
  show ?thesis
  proof (cases "\<exists>i cl. p = OpAttach i cl")
    case True
    then show ?thesis using Attach_fifo assms a by auto
  next
    case na: False
    have "quiet_change s t" using op_quiet [OF assms(1) False na] assms(2) by simp
    then show ?thesis using assms(2,3) fifo_ok_quiet quiet_error by (simp add: a)
  qed
qed

text \<open>An error is never taken back.\<close>

lemma put_endpoint_error [simp]: "cn_error (put_endpoint i ep s) = cn_error s"
  by (simp add: put_endpoint_def)

lemma emit_error [simp]: "cn_error (emit ev s) = cn_error s"
  by (simp add: emit_def)

lemma FindOrCreate_error [simp]: "FindOrCreateEndpoint i s = (ep, t) \<Longrightarrow> cn_error t = cn_error s"
  by (auto simp: FindOrCreateEndpoint_def split: option.splits)

lemma deliver_queued_error: "deliver_queued env vd i ms s = Some t \<Longrightarrow> cn_error s \<Longrightarrow> cn_error t"
  by (induction ms arbitrary: s) (auto simp: option_bind_Some_iff client_accept_def split: option.splits if_splits dest: RaiseError_error)

lemma Attach_error: "AttachEndpointClient env vd i client s = Some t \<Longrightarrow> cn_error s \<Longrightarrow> cn_error t"
  by (cases "FindOrCreateEndpoint i s") (auto simp: AttachEndpointClient_def Let_def split: if_splits dest!: deliver_queued_error)

lemma Accept_error:
  assumes "Router_Accept env vd m s = Some (ok, t)" "cn_error s"
  shows "cn_error t"
proof -
  obtain i where i: "interface_id m = Some i" using assms(1) by (auto simp: Router_Accept_def option_bind_Some_iff)
  show ?thesis
  proof (cases "i = kInvalidInterfaceId")
    case True
    then have "HandlePipeControlMessage env m s = Some (ok, t)" using assms(1) i by (simp add: Router_Accept_def)
    from Control_quiet [OF this] show ?thesis using assms(2) quiet_error by auto
  next
    case False
    then show ?thesis using assms i
      by (cases "FindOrCreateEndpoint i s") (auto simp: Router_Accept_def client_accept_def split: if_splits option.splits)
  qed
qed

lemma error_stays:
  assumes "router_op env vd p s = Some t" "cn_error s"
  shows "cn_error t"
proof (cases "(\<exists>m. p = OpArrive m) \<or> (\<exists>i cl. p = OpAttach i cl)")
  case True
  then show ?thesis using assms by (auto simp: option_bind_Some_iff split: if_splits dest: Accept_error Attach_error RaiseError_error)
next
  case False
  then have "cn_error t \<or> quiet_change s t" using op_quiet [OF assms(1)] by blast
  then show ?thesis using assms(2) quiet_error by auto
qed

lemma router_run_error: "router_run env vd ps s = Some t \<Longrightarrow> cn_error s \<Longrightarrow> cn_error t"
  by (induction ps arbitrary: s) (auto simp: option_bind_Some_iff dest: error_stays)

lemma arrived_for_Cons: "arrived_for i (p # ps) = arrived_for i [p] @ arrived_for i ps"
  by (cases p) auto

lemma router_run_fifo:
  "router_run env vd ps s = Some t \<Longrightarrow> \<not> cn_error t \<Longrightarrow> fifo_ok arr s \<Longrightarrow> fifo_ok (\<lambda>i. arr i @ arrived_for i ps) t \<and> \<not> cn_error s"
proof (induction ps arbitrary: s arr)
  case (Cons p ps)
  obtain u where u: "router_op env vd p s = Some u" "router_run env vd ps u = Some t" using Cons.prems(1) by (auto simp: option_bind_Some_iff)
  have nu: "\<not> cn_error u" using router_run_error [OF u(2)] Cons.prems(2) by blast
  from router_op_fifo [OF u(1) nu Cons.prems(3)] Cons.IH [OF u(2) Cons.prems(2), of "\<lambda>i. arr i @ arrived_for i [p]"]
  show ?case by (simp add: arrived_for_Cons [of _ p ps])
qed simp

lemma fifo_ok_created: "fifo_ok (\<lambda>_. []) (Router_Create c h b)"
  by (simp add: fifo_ok_def Router_Create_def queued_for_def attached_def)

text \<open>C33.  Every endpoint gets its messages in order and once.  In any session of a router (clients
  attached and detached, handles created, dropped and closed, messages sent and arriving for any
  interface, in any order) that ends without a connection error, the messages delivered for an
  associated interface followed by those still queued for it are exactly those that arrived for
  it, in order; while a client is attached nothing waits in its queue.\<close>

theorem endpoint_messages_fifo:
  assumes "router_run env vd ops (Router_Create c h b) = Some s" "\<not> cn_error s" "IsValidInterfaceId i" "\<not> IsPrimaryInterfaceId i"
  shows "delivered_to i (rt_log s) @ queued_for i s = arrived_for i ops \<and> (attached i s \<longrightarrow> queued_for i s = [])"
  using router_run_fifo [OF assms(1,2) fifo_ok_created] assms(3,4)
  by (auto simp: fifo_ok_def routed_def IsValidInterfaceId_def dest: spec [of _ i])

definition accept_all :: Verdict where
  "accept_all = (\<lambda>_ _ _. True)"

lemma demo_message_ids: "interface_id (make_message 7 0 5) = Some 5"
  using make_message_ok(3) [of 7 0 5] by (simp add: header_of_def)

theorem endpoint_messages_fifo_witness:
  "\<exists>s. router_run idle_env accept_all [OpArrive (make_message 7 0 5), OpAttach 5 (Some 1)] (Router_Create initial_core None False) = Some s \<and>
     delivered_to 5 (rt_log s) @ queued_for 5 s = [make_message 7 0 5]"
proof -
  let ?ops = "[OpArrive (make_message 7 0 5), OpAttach 5 (Some 1)]"
  obtain s where s: "router_run idle_env accept_all ?ops (Router_Create initial_core None False) = Some s" "\<not> cn_error s"
    by (simp add: Router_Accept_def demo_message_ids kInvalidInterfaceId_def IsPrimaryInterfaceId_def kPrimaryInterfaceId_def FindOrCreateEndpoint_def
        Router_Create_def put_endpoint_def new_endpoint_def AttachEndpointClient_def Let_def client_accept_def accept_all_def emit_def)
  then show ?thesis using endpoint_messages_fifo [OF s, of 5]
    by (simp add: demo_message_ids IsValidInterfaceId_def kInvalidInterfaceId_def IsPrimaryInterfaceId_def kPrimaryInterfaceId_def)
qed

subsection \<open>Closing reasons\<close>

lemma write_fields_last:
  "write_fields [] = Some" "write_fields [Str d] = WriteString d" "write_fields [Scalar k v, Str d] = (\<lambda>m. WriteScalar k v m \<bind> WriteString d)"
proof -
  show a: "write_fields [] = Some" by (rule ext) simp
  show b: "write_fields [Str d] = WriteString d" for d by (rule ext) (simp add: a)
  show "write_fields [Scalar k v, Str d] = (\<lambda>m. WriteScalar k v m \<bind> WriteString d)" by (rule ext) (simp add: b)
qed

lemma closed_notice_fields:
  "closed_notice i r d = write_fields (if r \<noteq> 0 \<or> d \<noteq> [] then [Scalar 4 i, Scalar 4 r, Str d] else [Scalar 4 i]) (make_message 0 0 kInvalidInterfaceId)"
  by (simp add: closed_notice_def write_fields_last del: write_fields.simps(1))

lemma read_closed_notice_written:
  assumes "msg_ok m" "i < 2 ^ 32" "r < 2 ^ 32" "length d < 2 ^ 32"
    "payload_bytes m = fields_bytes (if r \<noteq> 0 \<or> d \<noteq> [] then [Scalar 4 i, Scalar 4 r, Str d] else [Scalar 4 i])"
  shows "read_closed_notice m = Some (Some (i, r, d))"
proof (cases "r \<noteq> 0 \<or> d \<noteq> []")
  case True
  then have p: "payload_bytes m = le_bytes 4 i @ le_bytes 4 r @ le_bytes 4 (length d) @ d" using assms(5) by simp
  have r: "ReadScalar 4 m 0 = Some (Some (i, 4))" "ReadScalar 4 m 4 = Some (Some (r, 8))" "ReadString m 8 = Some (Some (d, 12 + length d))"
    using read_field_written [OF assms(1), of "[]" "Scalar 4 i" "le_bytes 4 r @ le_bytes 4 (length d) @ d"]
      read_field_written [OF assms(1), of "le_bytes 4 i" "Scalar 4 r" "le_bytes 4 (length d) @ d"]
      read_field_written [OF assms(1), of "le_bytes 4 i @ le_bytes 4 r" "Str d" "[]"] assms(2-4) p by auto
  have "payload_num_bytes m = Some (12 + length d)" using msg_ok_payload(2) [OF assms(1)] p by simp
  then show ?thesis by (simp add: read_closed_notice_def r)
next
  case False
  then have p: "payload_bytes m = le_bytes 4 i" using assms(5) by simp
  then show ?thesis using False assms msg_ok_payload(2) [OF assms(1)] ReadScalar_eq [OF assms(1), of 0 4]
    by (simp add: read_closed_notice_def le_value_bytes)
qed

text \<open>A closing reason arrives as it was given.  The notice that one router builds for a closed
  endpoint, sent as bytes and wrapped at the peer, makes the peer's router run the handler
  registered for that endpoint with exactly the custom reason and the description, and run it
  only once.\<close>

theorem closing_reason_arrives:
  assumes "i < 2 ^ 32" "r < 2 ^ 32" "200 + length d < 2 ^ 32"
    "rt_endpoints s i = Some ep" "ep_peer_closed_with_reason_handler ep = Some k"
  shows "\<exists>m m' dangling t. closed_notice i r d = Some m \<and> WrapWireBytes cap (mm_buffer m) [] = Some (m', dangling) \<and>
    Router_Accept env vd m' s = Some (True, t) \<and> rt_log t = rt_log s @ [RanWithReason k r d] \<and>
    rt_endpoints t i = Some (ep\<lparr>ep_peer_closed_with_reason_handler := None\<rparr>)"
proof -
  let ?fs = "if r \<noteq> 0 \<or> d \<noteq> [] then [Scalar 4 i, Scalar 4 r, Str d] else [Scalar 4 i]"
  have "list_all field_ok ?fs" "96 + length (fields_bytes ?fs) < 2 ^ 32" using assms(1-3) by auto
  from wire_roundtrip [OF _ _ _ this, of 0 0 kInvalidInterfaceId cap "[]"] obtain m m' dg where
    m: "closed_notice i r d = Some m" "WrapWireBytes cap (mm_buffer m) [] = Some (m', dg)" "msg_ok m'"
      "payload_bytes m' = fields_bytes ?fs" "header_of m' = (Some kInvalidInterfaceId, Some 0, Some 0, Some 0)"
    by (auto simp: closed_notice_fields kInvalidInterfaceId_def)
  have n: "read_closed_notice m' = Some (Some (i, r, d))" using read_closed_notice_written [OF m(3) assms(1,2) _ m(4)] assms(3) by simp
  have h: "interface_id m' = Some kInvalidInterfaceId" "msg_name m' = Some 0" "flags m' = Some 0" using m(5) by (simp_all add: header_of_def)
  show ?thesis using m(1,2) assms(4,5) n h
    by (simp add: Router_Accept_def HandlePipeControlMessage_def kPipeControlFlushName_def run_closed_handler_def Let_def emit_def put_endpoint_def)
qed

theorem closing_reason_arrives_witness:
  "\<exists>m m' dangling t. closed_notice 5 9 [104, 105] = Some m \<and> WrapWireBytes 48 (mm_buffer m) [] = Some (m', dangling) \<and>
     Router_Accept idle_env accept_all m' (SetPeerClosedWithReasonHandler 5 3 (Router_Create initial_core None False)) = Some (True, t) \<and>
     rt_log t = [RanWithReason 3 9 [104, 105]]"
proof -
  let ?s = "SetPeerClosedWithReasonHandler 5 3 (Router_Create initial_core None False)"
  have "rt_endpoints ?s 5 = Some (new_endpoint\<lparr>ep_peer_closed_with_reason_handler := Some 3\<rparr>)" "rt_log ?s = []"
    by (simp_all add: SetPeerClosedWithReasonHandler_def FindOrCreateEndpoint_def Router_Create_def put_endpoint_def)
  from closing_reason_arrives [OF _ _ _ this(1), of 9 "[104, 105]" 3 48 idle_env accept_all] this(2) show ?thesis by auto
qed

end
