(* ===== verification/Pipe_To_Client.thy ===== *)
theory Pipe_To_Client
  imports Router_Properties
begin

text \<open>
  A whole path through the stack: messages accepted by a connector are written to a HolePunch pipe,
  read from its other end by the peer's connector, normalised, and handed by its router to the
  primary client.
\<close>

fun send_messages :: "Env \<Rightarrow> (Connector \<Rightarrow> Connector) \<Rightarrow> MojoMessage list \<Rightarrow> Connector \<Rightarrow> (bool \<times> Connector) option" where
  "send_messages env on_error [] s = Some (True, s)"
| "send_messages env on_error (m # ms) s =
     do { (ok, s) \<leftarrow> Connector_Accept env on_error m s; if ok then send_messages env on_error ms s else Some (False, s) }"

text \<open>A message that fits: well formed, without handles, for the primary interface.\<close>

definition plain_message :: "MojoMessage \<Rightarrow> bool" where
  "plain_message m \<longleftrightarrow> msg_ok m \<and> length (mm_buffer m) + 48 < 2 ^ 32 \<and> mm_handles m = [] \<and> interface_id m = Some kPrimaryInterfaceId"

lemma send_messages_in_flight:
  "send_messages env on_error ms s = Some (True, t) \<Longrightarrow> cn_pipe s = Some h \<Longrightarrow> connected h k (cn_core s) \<Longrightarrow> list_all plain_message ms \<Longrightarrow>
     connected h k (cn_core t) \<and> in_flight k (cn_core t) = in_flight k (cn_core s) @ map mm_buffer ms"
proof (induction ms arbitrary: s)
  case (Cons m ms)
  obtain ok c where sd: "send env h (mm_buffer m) (cn_core s) = Some (ok, c)" "connected h k c"
    "in_flight k c = in_flight k (cn_core s) @ (if ok then [mm_buffer m] else [])" using send_spec [OF Cons.prems(3)] by blast
  obtain r c2 where w: "WriteMessageRaw env h (mm_buffer m) [] (cn_core s) = Some (r, c2)" "ok \<longleftrightarrow> r = WHP_RESULT_OK" "ok \<longrightarrow> c2 = c"
    using write_raw_sent [OF Cons.prems(3) sd(1)] by blast
  obtain u where a: "Connector_Accept env on_error m s = Some (True, u)" "send_messages env on_error ms u = Some (True, t)"
    using Cons.prems(1) by (auto simp: option_bind_Some_iff split: if_splits)
  have nh: "mm_handles m = []" using Cons.prems(4) by (simp add: plain_message_def)
  have "r = WHP_RESULT_OK \<and> u = s\<lparr>cn_core := c2\<rparr>"
    using a(1) Cons.prems(2) w(1) nh by (auto simp: Connector_Accept_def TakeHandles_def Let_def option_bind_Some_iff split: if_splits)
  then have "u = s\<lparr>cn_core := c\<rparr>" "ok" using w by simp_all
  with Cons.IH [OF a(2)] sd Cons.prems(2,4) show ?case by simp
qed simp

lemma plain_wrap:
  assumes "plain_message m"
  shows "\<exists>m' d. WrapWireBytes cap (mm_buffer m) [] = Some (m', d) \<and> \<not> IsNull m' \<and> interface_id m' = Some kPrimaryInterfaceId \<and>
    header_of m' = header_of m \<and> payload_bytes m' = payload_bytes m"
proof -
  obtain m' d where w: "WrapWireBytes cap (mm_buffer m) [] = Some (m', d)" "msg_ok m'" "payload_bytes m' = payload_bytes m" "header_of m' = header_of m"
    using wrap_own_message [of m cap "[]"] assms by (auto simp: plain_message_def)
  then show ?thesis using assms by (auto simp: IsNull_def msg_ok_def header_of_def plain_message_def)
qed

lemma read_all_delivers:
  "connected h k (cn_core s) \<Longrightarrow> in_flight k (cn_core s) = map mm_buffer ms \<Longrightarrow> list_all plain_message ms \<Longrightarrow> cn_pipe s = Some k \<Longrightarrow>
   \<not> cn_error s \<Longrightarrow> \<not> cn_paused s \<Longrightarrow> rt_primary_client s = Some cl \<Longrightarrow> \<forall>l m. vd l cl m \<Longrightarrow> length ms < fuel \<Longrightarrow>
   \<exists>t ms'. ReadAllAvailableMessages env cap (Some (Router_Accept env vd)) OnPipeError fuel s = Some t \<and> \<not> cn_error t \<and>
     rt_log t = rt_log s @ map (Delivered cl) ms' \<and> in_flight k (cn_core t) = [] \<and>
     list_all2 (\<lambda>m m'. header_of m' = header_of m \<and> payload_bytes m' = payload_bytes m) ms ms'"
proof (induction ms arbitrary: s fuel)
  case Nil
  obtain f where f: "fuel = Suc f" using Nil(9) by (cases fuel) simp_all
  obtain c where "ReadMessageRaw env k (cn_core s) = Some (WHP_RESULT_SHOULD_WAIT, None, c)" "in_flight k c = []"
    using read_raw_connected [OF Nil(1), of env] Nil(2) by auto
  then show ?case using Nil(4,5) f by (intro exI [of _ "s\<lparr>cn_core := c\<rparr>"] exI [of _ "[]"]) simp
next
  case (Cons m ms)
  obtain f where f: "fuel = Suc f" "length ms < f" using Cons.prems(9) by (cases fuel) auto
  have pm: "plain_message m" "list_all plain_message ms" using Cons.prems(3) by simp_all
  have small: "list_all (\<lambda>bs. length bs < 2 ^ 32) (in_flight k (cn_core s))"
    using Cons.prems(2,3) by (auto simp: list_all_iff plain_message_def)
  obtain c where c: "connected h k c" "ReadMessageRaw env k (cn_core s) = Some (WHP_RESULT_OK, Some (mm_buffer m, []), c)" "in_flight k c = map mm_buffer ms"
    using read_raw_connected [OF Cons.prems(1) small, of env] Cons.prems(2) by auto
  obtain m' d where w: "WrapWireBytes cap (mm_buffer m) [] = Some (m', d)" "\<not> IsNull m'" "interface_id m' = Some kPrimaryInterfaceId"
    "header_of m' = header_of m" "payload_bytes m' = payload_bytes m" using plain_wrap [OF pm(1)] by blast
  let ?u = "emit (Delivered cl m') (s\<lparr>cn_core := c\<rparr>)"
  have a: "Router_Accept env vd m' (s\<lparr>cn_core := c\<rparr>) = Some (True, ?u)"
    using w(3) Cons.prems(7,8) by (simp add: Router_Accept_def kPrimaryInterfaceId_def kInvalidInterfaceId_def IsPrimaryInterfaceId_def client_accept_def)
  have u: "cn_core ?u = c" "cn_pipe ?u = Some k" "\<not> cn_error ?u" "\<not> cn_paused ?u" "rt_primary_client ?u = Some cl" "rt_log ?u = rt_log s @ [Delivered cl m']"
    using Cons.prems(4-7) by (simp_all add: emit_def)
  have "ReadAllAvailableMessages env cap (Some (Router_Accept env vd)) OnPipeError fuel s =
      ReadAllAvailableMessages env cap (Some (Router_Accept env vd)) OnPipeError f ?u"
    using c(2) w(1,2) a u(3,4) Cons.prems(4) f(1) by simp
  moreover obtain t ms' where t: "ReadAllAvailableMessages env cap (Some (Router_Accept env vd)) OnPipeError f ?u = Some t" "\<not> cn_error t"
    "rt_log t = rt_log ?u @ map (Delivered cl) ms'" "in_flight k (cn_core t) = []"
    "list_all2 (\<lambda>m m'. header_of m' = header_of m \<and> payload_bytes m' = payload_bytes m) ms ms'"
    using Cons.IH [of ?u f, OF _ _ pm(2) u(2-5) Cons.prems(8) f(2), unfolded u(1), OF c(1,3)] by (elim exE conjE) (rule that)
  ultimately show ?case using w(4,5) u(6) by (intro exI [of _ t] exI [of _ "m' # ms'"]) simp
qed

text \<open>C32.  From one end to the other.  When a connector has accepted a sequence of messages for the
  primary interface on one end of a pipe that was empty, and the pipe's other end becomes readable, its
  router hands its client exactly these messages, in order, with the same header fields and the
  same payload, reads the pipe empty, and reports no error.\<close>

theorem messages_end_to_end:
  assumes "connected h k (cn_core a)" "in_flight k (cn_core a) = []" "cn_pipe a = Some h" "list_all plain_message ms"
    "send_messages env on_error ms a = Some (True, a')"
    "cn_core s = cn_core a'" "cn_pipe s = Some k" "\<not> cn_error s" "\<not> cn_paused s" "rt_primary_client s = Some cl" "\<forall>l m. vd l cl m"
    "length ms < fuel"
  shows "\<exists>t ms'. Router_OnReadable env cap vd fuel WHP_RESULT_OK s = Some t \<and> \<not> cn_error t \<and>
    rt_log t = rt_log s @ map (Delivered cl) ms' \<and> in_flight k (cn_core t) = [] \<and>
    list_all2 (\<lambda>m m'. header_of m' = header_of m \<and> payload_bytes m' = payload_bytes m) ms ms'"
proof -
  have "connected h k (cn_core s)" "in_flight k (cn_core s) = map mm_buffer ms"
    using send_messages_in_flight [OF assms(5,3,1,4)] assms(2,6) by simp_all
  from read_all_delivers [where vd = vd, OF this assms(4,7-12)] show ?thesis using assms(8,9) by (simp add: Router_OnReadable_def OnReadable_def)
qed

subsection \<open>A message through a pipe\<close>

definition demo_sender :: Connector where
  "demo_sender = \<lparr>cn_core = demo_core, cn_pipe = Some 1, cn_read_watcher = False, cn_closed_watcher = False, cn_error = False,
     cn_paused = False, cn_error_handler = False\<rparr>"

lemma demo_write: "\<exists>c. WriteMessageRaw idle_env 1 bs [] demo_core = Some (WHP_RESULT_OK, c)" if "length bs < 2 ^ 32"
  using that
  by (simp add: WriteMessageRaw_def demo_eq WhpCreateMessage_def Alloc_def WhpAppendMessageData_def message_of_def Lookup_def Let_def
      fill_message_def set_obj_def new_message_def WhpWriteMessage_def WhpSerializeMessage_def write_locked_def pipe_end_of_def new_pipe_def
      CollectTrapEvents_def Free_def set_pipe_def wrap_simps list_update_numeral)

theorem messages_end_to_end_witness:
  "\<exists>a' t ms'. send_messages idle_env (\<lambda>s. s) [make_message 7 0 0] demo_sender = Some (True, a') \<and>
     Router_OnReadable idle_env 48 accept_all 2 WHP_RESULT_OK (AttachPrimaryClient 4 (Router_Create (cn_core a') (Some 2) False)) = Some t \<and>
     rt_log t = map (Delivered 4) ms' \<and> length ms' = 1"
proof -
  let ?m = "make_message 7 0 0"
  have plain: "plain_message ?m" using make_message_ok [of 7 0 0] msg_ok_payload(3) [OF make_message_ok(1) [of 7 0 0]]
    by (simp add: plain_message_def header_of_def kPrimaryInterfaceId_def) (simp add: make_message_def Let_def)
  have len: "length (mm_buffer ?m) < 2 ^ 32" using plain by (simp add: plain_message_def)
  obtain c where c: "WriteMessageRaw idle_env 1 (mm_buffer ?m) [] demo_core = Some (WHP_RESULT_OK, c)" using demo_write [OF len] by blast
  have s: "send_messages idle_env (\<lambda>s. s) [?m] demo_sender = Some (True, demo_sender\<lparr>cn_core := c\<rparr>)"
    using c plain by (simp add: Connector_Accept_def demo_sender_def TakeHandles_def plain_message_def)
  let ?s = "AttachPrimaryClient 4 (Router_Create c (Some 2) False)"
  have r: "cn_core ?s = c" "cn_pipe ?s = Some 2" "\<not> cn_error ?s" "\<not> cn_paused ?s" "rt_primary_client ?s = Some 4" "rt_log ?s = []"
    by (simp_all add: AttachPrimaryClient_def Router_Create_def)
  have "in_flight 2 demo_core = []" using in_flight_owner [OF demo_inv demo_owner(2)] by (simp add: demo_eq new_pipe_def)
  then have "\<exists>t ms'. Router_OnReadable idle_env 48 accept_all 2 WHP_RESULT_OK ?s = Some t \<and> \<not> cn_error t \<and>
      rt_log t = rt_log ?s @ map (Delivered 4) ms' \<and> in_flight 2 (cn_core t) = [] \<and>
      list_all2 (\<lambda>m m'. header_of m' = header_of m \<and> payload_bytes m' = payload_bytes m) [?m] ms'"
    using plain demo_connected r
    by (intro messages_end_to_end [OF _ _ _ _ s, where h = 1 and k = 2]) (simp_all add: demo_sender_def accept_all_def)
  then show ?thesis using s r(6) list_all2_lengthD by fastforce
qed

end
