(* ===== verification/Endpoint_Handles.thy ===== *)
theory Endpoint_Handles
  imports Router_Properties
begin

text \<open>
  Handles to the endpoints of a router (\<open>ScopedInterfaceEndpointHandle\<close> in
  \<open>WASMCadidumBindings/src/associated_group.cc\<close>): they retain and close endpoints as they are created,
  moved, reset and destroyed.  A handle object is a number; the map says which objects refer to the
  router, and with which id.  The count of references of an endpoint is the number of its handles.
\<close>

record Handles =
  eh_router :: Router
  eh_live :: "nat \<rightharpoonup> nat"

definition construct_handle :: "nat \<Rightarrow> nat \<Rightarrow> Handles \<Rightarrow> Handles" where
  "construct_handle x i st = st\<lparr>eh_router := RetainEndpoint i (eh_router st), eh_live := (eh_live st)(x \<mapsto> i)\<rparr>"

definition CloseIfNecessary :: "Env \<Rightarrow> nat \<Rightarrow> Handles \<Rightarrow> Handles option" where
  "CloseIfNecessary env x st =
     (case eh_live st x of
        None \<Rightarrow> Some st
      | Some i \<Rightarrow> do { s \<leftarrow> CloseEndpoint env i (eh_router st); Some (st\<lparr>eh_router := s\<rparr>) })"

definition forget_handle :: "nat \<Rightarrow> Handles \<Rightarrow> Handles" where
  "forget_handle x st = st\<lparr>eh_live := (eh_live st)(x := None)\<rparr>"

definition move_construct :: "nat \<Rightarrow> nat \<Rightarrow> Handles \<Rightarrow> Handles" where
  "move_construct x y st = forget_handle y (st\<lparr>eh_live := (eh_live st)(x := eh_live st y)\<rparr>)"

definition move_assign :: "Env \<Rightarrow> nat \<Rightarrow> nat \<Rightarrow> Handles \<Rightarrow> Handles option" where
  "move_assign env x y st =
     (if x = y then Some st
      else do { st \<leftarrow> CloseIfNecessary env x st; Some (forget_handle y (st\<lparr>eh_live := (eh_live st)(x := eh_live st y)\<rparr>)) })"

definition handle_reset :: "Env \<Rightarrow> nat \<Rightarrow> Handles \<Rightarrow> Handles option" where
  "handle_reset env x st = do { st \<leftarrow> CloseIfNecessary env x st; Some (forget_handle x st) }"

definition ReleaseWithoutClosing :: "nat \<Rightarrow> Handles \<Rightarrow> nat \<times> Handles" where
  "ReleaseWithoutClosing x st =
     (case eh_live st x of
        None \<Rightarrow> (kInvalidInterfaceId, forget_handle x st)
      | Some i \<Rightarrow> (i, forget_handle x (st\<lparr>eh_router := DropEndpointHandle i (eh_router st)\<rparr>)))"

subsection \<open>Sessions\<close>

text \<open>Objects are constructed where there is none; destruction closes like \<open>reset\<close>.  Everything else
  a router does may happen in between.\<close>

datatype HandleOp =
    NewPair nat | NewLocal nat nat | MoveConstruct nat nat | MoveAssign nat nat | Reset nat | Release nat | RouterStep RouterOp

fun handle_free :: "RouterOp \<Rightarrow> bool" where
  "handle_free (OpRetain _) = False"
| "handle_free (OpDrop _) = False"
| "handle_free (OpClose _) = False"
| "handle_free OpCreatePair = False"
| "handle_free (OpCreateLocal _) = False"
| "handle_free _ = True"

fun handle_op :: "Env \<Rightarrow> Verdict \<Rightarrow> HandleOp \<Rightarrow> Handles \<Rightarrow> Handles option" where
  "handle_op env vd (NewPair x) st =
     (if eh_live st x \<noteq> None then None
      else (let (i, s) = MintInterfaceId (eh_router st)
            in Some (construct_handle x i (st\<lparr>eh_router := snd (FindOrCreateEndpoint i s)\<rparr>))))"
| "handle_op env vd (NewLocal x i) st =
     (if eh_live st x \<noteq> None then None
      else Some (construct_handle x i (st\<lparr>eh_router := snd (FindOrCreateEndpoint i (eh_router st))\<rparr>)))"
| "handle_op env vd (MoveConstruct x y) st = (if eh_live st x \<noteq> None \<or> x = y then None else Some (move_construct x y st))"
| "handle_op env vd (MoveAssign x y) st = move_assign env x y st"
| "handle_op env vd (Reset x) st = handle_reset env x st"
| "handle_op env vd (Release x) st = Some (snd (ReleaseWithoutClosing x st))"
| "handle_op env vd (RouterStep p) st =
     (if handle_free p then do { s \<leftarrow> router_op env vd p (eh_router st); Some (st\<lparr>eh_router := s\<rparr>) } else None)"

fun handle_run :: "Env \<Rightarrow> Verdict \<Rightarrow> HandleOp list \<Rightarrow> Handles \<Rightarrow> Handles option" where
  "handle_run env vd [] st = Some st"
| "handle_run env vd (p # ps) st = do { st \<leftarrow> handle_op env vd p st; handle_run env vd ps st }"

subsection \<open>References\<close>

definition refs_of :: "nat \<Rightarrow> Router \<Rightarrow> int" where
  "refs_of i s = (case rt_endpoints s i of None \<Rightarrow> 0 | Some ep \<Rightarrow> ep_refs ep)"

definition live_refs :: "nat \<Rightarrow> (nat \<rightharpoonup> nat) \<Rightarrow> int" where
  "live_refs i m = int (card {x. m x = Some i})"

definition refs_ok :: "Handles \<Rightarrow> bool" where
  "refs_ok st \<longleftrightarrow> finite (dom (eh_live st)) \<and> (\<forall>i. refs_of i (eh_router st) = live_refs i (eh_live st))"

lemma finite_live: "finite (dom m) \<Longrightarrow> finite {x. m x = Some i}"
  by (rule finite_subset [of _ "dom m"]) auto

lemma live_refs_new: "finite (dom m) \<Longrightarrow> m x = None \<Longrightarrow> live_refs i (m(x \<mapsto> j)) = live_refs i m + (if i = j then 1 else 0)"
proof -
  assume fin: "finite (dom m)" and x: "m x = None"
  have "{y. (m(x \<mapsto> j)) y = Some i} = (if i = j then insert x {y. m y = Some i} else {y. m y = Some i})" using x by auto
  then show ?thesis using finite_live [OF fin, of i] x by (cases "i = j") (auto simp: live_refs_def simp del: fun_upd_apply)
qed

lemma live_refs_gone:
  assumes fin: "finite (dom m)"
  shows "live_refs i (m(x := None)) = live_refs i m - (if m x = Some i then 1 else 0)"
proof (cases "m x")
  case None
  then show ?thesis by (simp add: fun_upd_idem)
next
  case (Some j)
  have "m = (m(x := None))(x \<mapsto> j)" using Some by auto
  then have "live_refs i m = live_refs i ((m(x := None))(x \<mapsto> j))" by simp
  also have "\<dots> = live_refs i (m(x := None)) + (if i = j then 1 else 0)" by (rule live_refs_new) (use fin in simp_all)
  finally show ?thesis using Some by auto
qed

text \<open>Moving an entry keeps the counts.\<close>

lemma live_refs_move:
  assumes fin: "finite (dom m)" and x: "m x = None" "x \<noteq> y"
  shows "live_refs i (m(x := m y, y := None)) = live_refs i m"
proof (cases "m y")
  case None
  then show ?thesis using x by (simp add: fun_upd_idem)
next
  case (Some j)
  have "live_refs i (m(x := m y, y := None)) = live_refs i (m(x \<mapsto> j)) - (if i = j then 1 else 0)"
    using live_refs_gone [of "m(x \<mapsto> j)" i y] fin Some x(2) by (auto simp: fun_upd_twist)
  then show ?thesis using live_refs_new [OF fin x(1)] by simp
qed

lemma live_refs_pos: "finite (dom m) \<Longrightarrow> m x = Some i \<Longrightarrow> 0 < live_refs i m"
  using finite_live [of m i] by (auto simp: live_refs_def card_gt_0_iff)

subsection \<open>What the router does to the references\<close>

lemma refs_FindOrCreate [simp]: "refs_of i (snd (FindOrCreateEndpoint j s)) = refs_of i s"
  by (auto simp: FindOrCreateEndpoint_def refs_of_def put_endpoint_def new_endpoint_def split: option.split)

lemma refs_put: "refs_of i (put_endpoint j ep s) = (if i = j then ep_refs ep else refs_of i s)"
  by (simp add: refs_of_def put_endpoint_def)

lemma refs_Retain: "refs_of i (RetainEndpoint j s) = refs_of i s + (if i = j then 1 else 0)"
proof -
  obtain ep t where f: "FindOrCreateEndpoint j s = (ep, t)" "rt_endpoints t j = Some ep" by (rule FindOrCreate_cases)
  have "refs_of i t = refs_of i s" for i using refs_FindOrCreate [of i j s] f(1) by simp
  moreover have "refs_of j t = ep_refs ep" using f(2) by (simp add: refs_of_def)
  ultimately show ?thesis by (auto simp: RetainEndpoint_def f(1) refs_put)
qed

lemma refs_MaybeErase: "0 \<le> refs_of j s \<Longrightarrow> refs_of i (MaybeEraseEndpoint j s) = refs_of i s"
  by (auto simp: MaybeEraseEndpoint_def refs_of_def split: option.split)

lemma refs_Drop: "0 < refs_of j s \<Longrightarrow> refs_of i (DropEndpointHandle j s) = refs_of i s - (if i = j then 1 else 0)"
proof -
  assume pos: "0 < refs_of j s"
  then obtain ep where ep: "rt_endpoints s j = Some ep" "0 < ep_refs ep" by (auto simp: refs_of_def split: option.splits)
  let ?s = "put_endpoint j (ep\<lparr>ep_refs := ep_refs ep - 1\<rparr>) s"
  have "refs_of i (MaybeEraseEndpoint j ?s) = refs_of i ?s" by (rule refs_MaybeErase) (use ep(2) in \<open>simp add: refs_put\<close>)
  moreover have "refs_of j s = ep_refs ep" using ep(1) by (simp add: refs_of_def)
  ultimately show ?thesis using ep by (simp add: DropEndpointHandle_def refs_put)
qed

lemma OnPipeError_endpoints [simp]: "rt_endpoints (OnPipeError s) = rt_endpoints s"
  by (simp add: OnPipeError_def emit_def split: option.split)

lemma RaiseError_endpoints: "Router_RaiseError env s = Some t \<Longrightarrow> rt_endpoints t = rt_endpoints s"
  by (auto simp: RaiseError_def reset_pipe_def CancelWatchers_def option_bind_Some_iff split: if_splits option.splits)

lemma Connector_Accept_endpoints: "Connector_Accept env OnPipeError m s = Some (ok, t) \<Longrightarrow> rt_endpoints t = rt_endpoints s"
  by (auto simp: Connector_Accept_def TakeHandles_def Let_def option_bind_Some_iff split: option.splits if_splits dest!: RaiseError_endpoints)

lemma refs_Close:
  assumes "CloseEndpoint env j s = Some t" "0 < refs_of j s"
  shows "refs_of i t = refs_of i s - (if i = j then 1 else 0)"
proof -
  obtain u where u: "NotifyPeerEndpointClosed env j 0 [] s = Some u"
    "t = DropEndpointHandle j (case rt_endpoints u j of None \<Rightarrow> u | Some ep \<Rightarrow> put_endpoint j (ep\<lparr>ep_client := None\<rparr>) u)"
    using assms(1) by (auto simp: CloseEndpoint_def option_bind_Some_iff)
  have "rt_endpoints u = rt_endpoints s" using u(1) by (auto simp: NotifyPeerEndpointClosed_def option_bind_Some_iff dest!: Connector_Accept_endpoints)
  then have "refs_of i (case rt_endpoints u j of None \<Rightarrow> u | Some ep \<Rightarrow> put_endpoint j (ep\<lparr>ep_client := None\<rparr>) u) = refs_of i s" for i
    by (auto simp: refs_of_def put_endpoint_def split: option.split)
  with refs_Drop [of j _ i] assms(2) show ?thesis by (simp add: u(2))
qed

lemma deliver_endpoints: "deliver_queued env vd i ms s = Some t \<Longrightarrow> rt_endpoints t = rt_endpoints s"
proof (induction ms arbitrary: s)
  case (Cons m ms)
  obtain ep where ep: "rt_endpoints s i = Some ep" using Cons.prems by (auto simp: option_bind_Some_iff)
  show ?case
  proof (cases "ep_client ep")
    case None
    then show ?thesis using Cons.prems ep RaiseError_endpoints by simp
  next
    case (Some cl)
    let ?s = "emit (Delivered cl m) s"
    have e: "rt_endpoints ?s = rt_endpoints s" by (simp add: emit_def)
    show ?thesis
    proof (cases "vd (rt_log s) cl m")
      case True
      then have "deliver_queued env vd i ms ?s = Some t" using Cons.prems ep Some by (simp add: client_accept_def)
      from Cons.IH [OF this] e show ?thesis by simp
    next
      case False
      then have "Router_RaiseError env ?s = Some t" using Cons.prems ep Some by (simp add: client_accept_def)
      from RaiseError_endpoints [OF this] e show ?thesis by simp
    qed
  qed
qed simp

lemma refs_endpoints: "rt_endpoints t = rt_endpoints s \<Longrightarrow> refs_of i t = refs_of i s"
  by (simp add: refs_of_def)

lemma refs_Attach:
  assumes "AttachEndpointClient env vd j client s = Some t"
  shows "refs_of i t = refs_of i s"
proof -
  obtain ep u where f: "FindOrCreateEndpoint j s = (ep, u)" "rt_endpoints u j = Some ep" by (rule FindOrCreate_cases)
  have u: "refs_of i u = refs_of i s" for i using refs_FindOrCreate [of i j s] f(1) by simp
  have p: "refs_of i (put_endpoint j ep' u) = refs_of i s" if "ep_refs ep' = ep_refs ep" for i ep'
    using that u [of i] f(2) by (auto simp: refs_put) (auto simp: refs_of_def)
  show ?thesis
  proof (cases "ep_queued_messages ep = [] \<or> client = None")
    case True
    then show ?thesis using assms f(1) p by (auto simp: AttachEndpointClient_def Let_def)
  next
    case False
    then have "deliver_queued env vd j (ep_queued_messages ep) (put_endpoint j (ep\<lparr>ep_client := client, ep_queued_messages := []\<rparr>) u) = Some t"
      using assms f(1) by (auto simp: AttachEndpointClient_def Let_def)
    from refs_endpoints [OF deliver_endpoints [OF this]] show ?thesis using p by simp
  qed
qed

lemma refs_run_closed: "refs_of i (run_closed_handler j r d s) = refs_of i s"
  by (auto simp: run_closed_handler_def emit_def put_endpoint_def refs_of_def split: option.split)

lemma refs_Control:
  assumes "HandlePipeControlMessage env m s = Some (ok, t)"
  shows "refs_of i t = refs_of i s"
proof -
  obtain name fl where nf: "msg_name m = Some name" "flags m = Some fl" using assms by (auto simp: HandlePipeControlMessage_def option_bind_Some_iff)
  show ?thesis
  proof (cases "name = kPipeControlFlushName")
    case True
    then show ?thesis using assms nf
      by (auto simp: HandlePipeControlMessage_def option_bind_Some_iff intro!: refs_endpoints split: if_splits dest!: Connector_Accept_endpoints)
  next
    case False
    then obtain r where r: "read_closed_notice m = Some r" using assms nf by (auto simp: HandlePipeControlMessage_def option_bind_Some_iff)
    have q: "refs_of i (run_closed_handler j cr d (s\<lparr>rt_disconnect_custom_reason := x, rt_disconnect_description := y\<rparr>)) = refs_of i s" for j cr d x y
      unfolding refs_run_closed by (simp add: refs_of_def)
    show ?thesis using assms nf r False refs_run_closed q
      by (cases r) (auto simp: HandlePipeControlMessage_def Let_def split: prod.splits if_splits)
  qed
qed

lemma refs_Accept:
  assumes "Router_Accept env vd m s = Some (ok, t)"
  shows "refs_of i t = refs_of i s"
proof -
  obtain j where j: "interface_id m = Some j" using assms by (auto simp: Router_Accept_def option_bind_Some_iff)
  obtain ep u where f: "FindOrCreateEndpoint j s = (ep, u)" "rt_endpoints u j = Some ep" by (rule FindOrCreate_cases)
  have u: "refs_of i u = refs_of i s" "ep_refs ep = refs_of j u" using refs_FindOrCreate [of i j s] f by (simp_all add: refs_of_def)
  have e: "refs_of i (emit ev w) = refs_of i w" for ev w by (simp add: refs_of_def emit_def)
  have p: "refs_of i (put_endpoint j ep' u) = refs_of i s" if "ep_refs ep' = ep_refs ep" for ep' using that u by (auto simp: refs_put)
  show ?thesis
  proof (cases "j = kInvalidInterfaceId")
    case True
    then show ?thesis using assms j refs_Control by (simp add: Router_Accept_def)
  next
    case False
    then show ?thesis using assms j f(1) e p u(1)
      by (auto simp: Router_Accept_def client_accept_def split: if_splits option.splits)
  qed
qed

lemma refs_router_op:
  assumes "router_op env vd p s = Some t" "handle_free p" "\<forall>j. 0 \<le> refs_of j s"
  shows "refs_of i t = refs_of i s"
proof (cases p)
  case (OpArrive m)
  then obtain ok u where u: "Router_Accept env vd m s = Some (ok, u)" "(if ok then Some u else Router_RaiseError env u) = Some t"
    using assms(1) by (auto simp: option_bind_Some_iff)
  have "refs_of i t = refs_of i u" using u(2) RaiseError_endpoints [of env u t] by (auto split: if_splits intro: refs_endpoints)
  with refs_Accept [OF u(1)] show ?thesis by simp
next
  case (OpDetach j)
  let ?u = "case rt_endpoints s j of None \<Rightarrow> s | Some ep \<Rightarrow> put_endpoint j (ep\<lparr>ep_client := None\<rparr>) s"
  have u: "refs_of k ?u = refs_of k s" for k by (auto simp: refs_of_def put_endpoint_def split: option.split)
  have "refs_of i (MaybeEraseEndpoint j ?u) = refs_of i ?u" by (rule refs_MaybeErase) (use assms(3) u in simp)
  with u assms(1) OpDetach show ?thesis by (auto simp: DetachEndpointClient_def)
next
  case (OpClosedHandler j k)
  obtain ep u where f: "FindOrCreateEndpoint j s = (ep, u)" "rt_endpoints u j = Some ep" by (rule FindOrCreate_cases)
  have "refs_of i u = refs_of i s" "ep_refs ep = refs_of j u" using refs_FindOrCreate [of i j s] f by (simp_all add: refs_of_def)
  then show ?thesis using assms(1) OpClosedHandler f(1) by (auto simp: SetPeerClosedHandler_def refs_put)
next
  case (OpClosedReasonHandler j k)
  obtain ep u where f: "FindOrCreateEndpoint j s = (ep, u)" "rt_endpoints u j = Some ep" by (rule FindOrCreate_cases)
  have "refs_of i u = refs_of i s" "ep_refs ep = refs_of j u" using refs_FindOrCreate [of i j s] f by (simp_all add: refs_of_def)
  then show ?thesis using assms(1) OpClosedReasonHandler f(1) by (auto simp: SetPeerClosedWithReasonHandler_def refs_put)
next
  case (OpAttach j client)
  then show ?thesis using assms(1) refs_Attach by simp
next
  case (OpSend m)
  then show ?thesis using assms(1) by (auto simp: SendMessage_def intro!: refs_endpoints dest!: Connector_Accept_endpoints)
next
  case (OpPrimary client)
  then show ?thesis using assms(1) by (auto simp: AttachPrimaryClient_def DetachPrimaryClient_def refs_of_def split: option.splits)
qed (use assms(2) in simp_all)

subsection \<open>The count of references\<close>

lemma refs_ok_nonneg: "refs_ok st \<Longrightarrow> 0 \<le> refs_of i (eh_router st)"
  by (simp add: refs_ok_def live_refs_def)

lemma refs_ok_construct:
  assumes "refs_ok st" "eh_live st x = None" "\<forall>i. refs_of i s = refs_of i (eh_router st)"
  shows "refs_ok (construct_handle x j (st\<lparr>eh_router := s\<rparr>))"
  using assms live_refs_new [of "eh_live st" x] by (auto simp: refs_ok_def construct_handle_def refs_Retain)

lemma close_then_forget:
  assumes ok: "refs_ok st" and c: "CloseIfNecessary env x st = Some st'"
  shows "refs_ok (forget_handle x st')" "eh_live st' = eh_live st"
proof -
  have fin: "finite (dom (eh_live st))" using ok by (simp add: refs_ok_def)
  show l: "eh_live st' = eh_live st" using c by (auto simp: CloseIfNecessary_def option_bind_Some_iff split: option.splits)
  have "refs_of i (eh_router st') = refs_of i (eh_router st) - (if eh_live st x = Some i then 1 else 0)" for i
  proof (cases "eh_live st x")
    case (Some j)
    then obtain s where s: "CloseEndpoint env j (eh_router st) = Some s" "st' = st\<lparr>eh_router := s\<rparr>"
      using c by (auto simp: CloseIfNecessary_def option_bind_Some_iff)
    have "0 < refs_of j (eh_router st)" using ok live_refs_pos [OF fin Some] by (simp add: refs_ok_def)
    from refs_Close [OF s(1) this, of i] show ?thesis using Some s(2) by auto
  qed (use c in \<open>simp add: CloseIfNecessary_def\<close>)
  then show "refs_ok (forget_handle x st')" using ok fin l live_refs_gone [OF fin] by (simp add: refs_ok_def forget_handle_def)
qed

lemma handle_op_refs:
  assumes ok: "refs_ok st" and p: "handle_op env vd p st = Some st'"
  shows "refs_ok st'"
proof (cases p)
  case (NewPair x)
  obtain i s where m: "MintInterfaceId (eh_router st) = (i, s)" by fastforce
  have "refs_of j s = refs_of j (eh_router st)" for j using m by (auto simp: MintInterfaceId_def Let_def refs_of_def)
  then show ?thesis using NewPair p m ok refs_ok_construct [of st x "snd (FindOrCreateEndpoint i s)" i] by (auto split: if_splits)
next
  case (NewLocal x i)
  then show ?thesis using p ok refs_ok_construct [of st x "snd (FindOrCreateEndpoint i (eh_router st))" i] by (auto split: if_splits)
next
  case (MoveConstruct x y)
  then show ?thesis using p ok live_refs_move [of "eh_live st" x y]
    by (auto simp: move_construct_def forget_handle_def refs_ok_def split: if_splits)
next
  case (MoveAssign x y)
  show ?thesis
  proof (cases "x = y")
    case True
    then show ?thesis using MoveAssign p ok by (simp add: move_assign_def)
  next
    case False
    then obtain u where u: "CloseIfNecessary env x st = Some u" "st' = forget_handle y (u\<lparr>eh_live := (eh_live u)(x := eh_live u y)\<rparr>)"
      using MoveAssign p by (auto simp: move_assign_def option_bind_Some_iff)
    have f: "refs_ok (forget_handle x u)" by (rule close_then_forget(1) [OF ok u(1)])
    have "live_refs i ((eh_live u)(x := eh_live u y, y := None)) = live_refs i ((eh_live u)(x := None))" for i
      using live_refs_move [of "(eh_live u)(x := None)" x y i] f False by (simp add: refs_ok_def forget_handle_def)
    then show ?thesis using f by (simp add: u(2) refs_ok_def forget_handle_def)
  qed
next
  case (Reset x)
  then show ?thesis using p close_then_forget(1) [OF ok] by (auto simp: handle_reset_def option_bind_Some_iff)
next
  case (Release x)
  have fin: "finite (dom (eh_live st))" using ok by (simp add: refs_ok_def)
  show ?thesis
  proof (cases "eh_live st x")
    case None
    then show ?thesis using Release p ok by (auto simp: ReleaseWithoutClosing_def forget_handle_def refs_ok_def fun_upd_idem)
  next
    case (Some j)
    have "0 < refs_of j (eh_router st)" using ok live_refs_pos [OF fin Some] by (simp add: refs_ok_def)
    from refs_Drop [OF this] show ?thesis using Release p ok Some live_refs_gone [OF fin, of _ x]
      by (auto simp: ReleaseWithoutClosing_def forget_handle_def refs_ok_def)
  qed
next
  case (RouterStep q)
  then obtain s where s: "router_op env vd q (eh_router st) = Some s" "handle_free q" "st' = st\<lparr>eh_router := s\<rparr>"
    using p by (auto simp: option_bind_Some_iff split: if_splits)
  have "refs_of i s = refs_of i (eh_router st)" for i by (rule refs_router_op [OF s(1,2)]) (use refs_ok_nonneg [OF ok] in blast)
  then show ?thesis using ok s(3) by (simp add: refs_ok_def)
qed

lemma handle_run_refs: "handle_run env vd ps st = Some st' \<Longrightarrow> refs_ok st \<Longrightarrow> refs_ok st'"
  by (induction ps arbitrary: st) (auto simp: option_bind_Some_iff dest: handle_op_refs)

text \<open>C34.  References are counted exactly.  In every session of handles (created for fresh or given
  ids, moved, assigned, reset, released) interleaved with anything else the router does, the count of
  references of every endpoint is the number of live handles to it; so the endpoint of a live
  handle is never erased.\<close>

theorem endpoint_refs_exact:
  assumes "handle_run env vd ps \<lparr>eh_router = Router_Create c h b, eh_live = Map.empty\<rparr> = Some st"
  shows "refs_of i (eh_router st) = int (card {x. eh_live st x = Some i}) \<and> finite {x. eh_live st x = Some i} \<and>
    (eh_live st x = Some i \<longrightarrow> rt_endpoints (eh_router st) i \<noteq> None)"
proof -
  have "refs_ok \<lparr>eh_router = Router_Create c h b, eh_live = Map.empty\<rparr>" by (simp add: refs_ok_def refs_of_def live_refs_def Router_Create_def)
  from handle_run_refs [OF assms this] have ok: "refs_ok st" .
  then have "finite (dom (eh_live st))" "refs_of i (eh_router st) = live_refs i (eh_live st)" by (simp_all add: refs_ok_def)
  then show ?thesis using finite_live [of "eh_live st" i] live_refs_pos [of "eh_live st" x i]
    by (auto simp: live_refs_def refs_of_def split: option.splits)
qed

theorem endpoint_refs_exact_witness:
  "\<exists>st. handle_run idle_env accept_all [NewLocal 0 5, NewLocal 1 5, MoveConstruct 2 0, Release 1]
      \<lparr>eh_router = Router_Create initial_core None False, eh_live = Map.empty\<rparr> = Some st \<and>
     refs_of 5 (eh_router st) = int (card {x. eh_live st x = Some 5})"
proof -
  obtain st where st: "handle_run idle_env accept_all [NewLocal 0 5, NewLocal 1 5, MoveConstruct 2 0, Release 1]
      \<lparr>eh_router = Router_Create initial_core None False, eh_live = Map.empty\<rparr> = Some st"
    by (simp add: construct_handle_def move_construct_def forget_handle_def)
  then show ?thesis using endpoint_refs_exact [OF st, of 5] by blast
qed

end
