(* ===== verification/Response_Dispatcher.thy ===== *)
theory Response_Dispatcher
  imports Mojo_Message
begin

text \<open>
  Responses and the calls they answer (\<open>WASMCadidumBindings/.../lib/response_dispatcher.h\<close>).  A proxy stamps
  every call that expects a response with a fresh request id and keeps its handler until the
  response arrives.  A handler is a number; a call of one is returned.
\<close>

record ResponseDispatcher =
  rd_next_request_id :: nat
  rd_pending :: "nat \<rightharpoonup> nat"

definition new_dispatcher :: ResponseDispatcher where
  "new_dispatcher = \<lparr>rd_next_request_id = 1, rd_pending = Map.empty\<rparr>"

text \<open>\<open>emplace\<close> keeps an entry that is already there.\<close>

definition RegisterPendingResponse :: "nat \<Rightarrow> ResponseDispatcher \<Rightarrow> nat \<times> ResponseDispatcher" where
  "RegisterPendingResponse handler d =
     (let i = rd_next_request_id d
      in (i, d\<lparr>rd_next_request_id := add64 i 1,
                rd_pending := (if rd_pending d i = None then (rd_pending d)(i \<mapsto> handler) else rd_pending d)\<rparr>))"

text \<open>The handler that runs, if any.\<close>

definition DispatchResponse :: "MojoMessage \<Rightarrow> ResponseDispatcher \<Rightarrow> (nat option \<times> ResponseDispatcher) option" where
  "DispatchResponse m d =
     do { i \<leftarrow> request_id m;
          case rd_pending d i of
            None \<Rightarrow> Some (None, d)
          | Some handler \<Rightarrow> Some (Some handler, d\<lparr>rd_pending := (rd_pending d)(i := None)\<rparr>) }"

definition has_pending_responses :: "ResponseDispatcher \<Rightarrow> bool" where
  "has_pending_responses d \<longleftrightarrow> rd_pending d \<noteq> Map.empty"

subsection \<open>Sessions\<close>

datatype CallOp = Call nat | Response MojoMessage

text \<open>The requests made, with their handlers, and the responses handled.\<close>

fun calls_run :: "CallOp list \<Rightarrow> ResponseDispatcher \<Rightarrow> ((nat \<times> nat) list \<times> (nat \<times> nat) list \<times> ResponseDispatcher) option" where
  "calls_run [] d = Some ([], [], d)"
| "calls_run (Call h # ps) d =
     (let (i, d) = RegisterPendingResponse h d
      in do { (reqs, resps, d) \<leftarrow> calls_run ps d; Some ((i, h) # reqs, resps, d) })"
| "calls_run (Response m # ps) d =
     do { (r, d) \<leftarrow> DispatchResponse m d;
          i \<leftarrow> request_id m;
          (reqs, resps, d) \<leftarrow> calls_run ps d;
          Some (reqs, (case r of None \<Rightarrow> resps | Some h \<Rightarrow> (i, h) # resps), d) }"

definition pending_below :: "ResponseDispatcher \<Rightarrow> bool" where
  "pending_below d \<longleftrightarrow> (\<forall>i. rd_pending d i \<noteq> None \<longrightarrow> i < rd_next_request_id d)"

definition calls_ok :: "ResponseDispatcher \<Rightarrow> (nat \<times> nat) list \<Rightarrow> (nat \<times> nat) list \<Rightarrow> ResponseDispatcher \<Rightarrow> bool" where
  "calls_ok d reqs resps d' \<longleftrightarrow>
     map fst reqs = [rd_next_request_id d..<rd_next_request_id d + length reqs] \<and> distinct (map fst resps) \<and>
     (\<forall>i h. (i, h) \<in> set resps \<longrightarrow> rd_pending d i = Some h \<or> (i, h) \<in> set reqs) \<and>
     (\<forall>i h. rd_pending d' i = Some h \<longleftrightarrow> (rd_pending d i = Some h \<or> (i, h) \<in> set reqs) \<and> i \<notin> fst ` set resps)"

lemma calls_ok_call:
  assumes "pending_below d" "rd_next_request_id d + 1 < 2 ^ 64"
    "calls_ok (snd (RegisterPendingResponse h d)) reqs resps d'"
  shows "calls_ok d ((rd_next_request_id d, h) # reqs) resps d'"
proof -
  let ?i = "rd_next_request_id d"
  have n: "rd_pending d ?i = None" using assms(1) unfolding pending_below_def by (metis less_irrefl)
  have d: "rd_next_request_id (snd (RegisterPendingResponse h d)) = ?i + 1" "rd_pending (snd (RegisterPendingResponse h d)) = (rd_pending d)(?i \<mapsto> h)"
    using n assms(2) by (simp_all add: RegisterPendingResponse_def Let_def add64_id)
  have p: "rd_pending (snd (RegisterPendingResponse h d)) j = Some k \<longleftrightarrow> rd_pending d j = Some k \<or> (j, k) = (?i, h)" for j k
    using n by (auto simp: d(2))
  have "[?i..<?i + Suc (length reqs)] = ?i # [?i + 1..<?i + 1 + length reqs]" by (simp add: upt_rec)
  then show ?thesis using assms(3) unfolding calls_ok_def p d(1) by auto
qed

lemma calls_ok_response:
  assumes "pending_below d" "rd_pending d i = Some h" "calls_ok (d\<lparr>rd_pending := (rd_pending d)(i := None)\<rparr>) reqs resps d'"
  shows "calls_ok d reqs ((i, h) # resps) d'"
proof -
  have "i < rd_next_request_id d" using assms(1,2) by (auto simp: pending_below_def)
  moreover have "j \<in> set [rd_next_request_id d..<rd_next_request_id d + length reqs]" if "(j, k) \<in> set reqs" for j k
    using that assms(3) by (metis calls_ok_def ResponseDispatcher.select_convs(1) ResponseDispatcher.simps(4) ResponseDispatcher.update_convs(2) ResponseDispatcher.surjective fst_conv image_eqI list.set_map)
  ultimately have no: "(i, k) \<notin> set reqs" for k by fastforce
  moreover have "(i, k) \<in> set resps \<Longrightarrow> (i, k) \<in> set reqs" for k using assms(3) by (force simp: calls_ok_def)
  ultimately have "i \<notin> fst ` set resps" by force
  moreover have "rd_pending (d\<lparr>rd_pending := (rd_pending d)(i := None)\<rparr>) j = Some k \<longleftrightarrow> rd_pending d j = Some k \<and> j \<noteq> i" for j k by simp
  note calls_ok_def [of "d\<lparr>rd_pending := (rd_pending d)(i := None)\<rparr>", unfolded this]
  ultimately show ?thesis using assms(2,3) no by (auto simp: calls_ok_def [of d])
qed

lemma calls_run_ok:
  "calls_run ps d = Some (reqs, resps, d') \<Longrightarrow> rd_next_request_id d + length ps < 2 ^ 64 \<Longrightarrow> pending_below d \<Longrightarrow> calls_ok d reqs resps d'"
proof (induction ps d arbitrary: reqs resps d' rule: calls_run.induct)
  case (1 d)
  then show ?case by (simp add: calls_ok_def)
next
  case (2 h ps d)
  let ?d = "snd (RegisterPendingResponse h d)"
  obtain reqs' where r: "calls_run ps ?d = Some (reqs', resps, d')" "reqs = (rd_next_request_id d, h) # reqs'"
    using 2(2) by (auto simp: RegisterPendingResponse_def Let_def option_bind_Some_iff)
  have n: "rd_next_request_id ?d = rd_next_request_id d + 1" using 2(3) by (simp add: RegisterPendingResponse_def Let_def add64_id)
  have "pending_below ?d" using 2(4) n by (auto simp: pending_below_def RegisterPendingResponse_def Let_def less_Suc_eq split: if_splits)
  then have "calls_ok ?d reqs' resps d'" using 2(1) [OF refl prod.collapse r(1)] n 2(3) by simp
  from calls_ok_call [OF 2(4) _ this] show ?case using 2(3) r(2) by simp
next
  case (3 m ps d)
  obtain r d1 i resps' where r: "DispatchResponse m d = Some (r, d1)" "request_id m = Some i" "calls_run ps d1 = Some (reqs, resps', d')"
    "resps = (case r of None \<Rightarrow> resps' | Some h \<Rightarrow> (i, h) # resps')"
    using 3(2) by (auto simp: option_bind_Some_iff)
  show ?case
  proof (cases "rd_pending d i")
    case None
    then have "r = None" "d1 = d" using r(1,2) by (simp_all add: DispatchResponse_def)
    then show ?thesis using 3(1) [OF r(1) _ r(2) r(3)] 3(3,4) r(4) by simp
  next
    case (Some h)
    then have d: "r = Some h" "d1 = d\<lparr>rd_pending := (rd_pending d)(i := None)\<rparr>" using r(1,2) by (simp_all add: DispatchResponse_def)
    have "pending_below d1" using 3(4) by (auto simp: d(2) pending_below_def)
    then have "calls_ok d1 reqs resps' d'" using 3(1) [OF r(1) _ r(2) r(3)] 3(3) by (simp add: d(2))
    from calls_ok_response [OF 3(4) Some this [unfolded d(2)]] show ?thesis using r(4) d(1) by simp
  qed
qed

text \<open>C40.  Responses find their calls.  In every session of calls and incoming responses, whatever ids
  the responses carry, the calls get distinct request ids, every response handled runs the handler
  of the call with its id, no call is answered twice, and the calls still pending are exactly those
  not answered.\<close>

theorem responses_matched:
  assumes "calls_run ps new_dispatcher = Some (reqs, resps, d)" "length ps < 2 ^ 64 - 1"
  shows "distinct (map fst reqs) \<and> distinct (map fst resps) \<and> set resps \<subseteq> set reqs \<and>
    (\<forall>i h. rd_pending d i = Some h \<longleftrightarrow> (i, h) \<in> set reqs - set resps)"
proof -
  have "calls_ok new_dispatcher reqs resps d" by (rule calls_run_ok [OF assms(1)]) (use assms(2) in \<open>simp_all add: new_dispatcher_def pending_below_def\<close>)
  then have c: "map fst reqs = [1..<1 + length reqs]" "distinct (map fst resps)" "set resps \<subseteq> set reqs"
    "\<And>i h. rd_pending d i = Some h \<longleftrightarrow> (i, h) \<in> set reqs \<and> i \<notin> fst ` set resps"
    by (auto simp: calls_ok_def new_dispatcher_def)
  have dr: "distinct (map fst reqs)" unfolding c(1) by simp
  have "i \<notin> fst ` set resps \<longleftrightarrow> (i, h) \<notin> set resps" if "(i, h) \<in> set reqs" for i h
  proof -
    have "h' = h" if "(i, h') \<in> set resps" for h' using that \<open>(i, h) \<in> set reqs\<close> c(3) dr by (metis eq_key_imp_eq_value subsetD)
    then show ?thesis by force
  qed
  then show ?thesis using c(2-4) dr by auto
qed

theorem responses_matched_witness:
  "\<exists>reqs resps d. calls_run [Call 7, Call 8, Response (set_request_id 2 (make_message 1 2 0))] new_dispatcher = Some (reqs, resps, d) \<and>
     distinct (map fst resps) \<and> set resps \<subseteq> set reqs"
proof -
  have "request_id (set_request_id 2 (make_message 1 2 0)) = Some 2" by code_simp
  then obtain reqs resps d where r: "calls_run [Call 7, Call 8, Response (set_request_id 2 (make_message 1 2 0))] new_dispatcher = Some (reqs, resps, d)"
    by (simp add: new_dispatcher_def RegisterPendingResponse_def Let_def DispatchResponse_def add64_id)
  then show ?thesis using responses_matched [OF r] by auto
qed

end
