(* ===== verification/Spec2Isabelle.thy ===== *)
theory Spec2Isabelle
  imports Whp_Properties Parser_Properties Names_Properties Loader_Properties Intern_Properties Mojovm_Properties
    Cage_Properties Pointer_Properties Gc_Properties
    Message_Properties Validator_Properties Router_Properties Pipe_To_Client Endpoint_Handles Response_Dispatcher
begin

text \<open>
  A verification development of voodoo: the IDL compiler \<open>voodoomc\<close>, the message system it
  compiles for, and the memory it runs on.

  \<^bold>\<open>The program.\<close>  A voodoom file describes interfaces.  \<open>voodoomc\<close> (\<open>src/src\<close>) tokenizes it, parses
  it together with the files it imports, and numbers its types and methods.  At run time messages
  of these interfaces travel through \<^emph>\<open>HolePunch\<close> (\<open>WASMHolePunch\<close>), a library of handles, message
  pipes, data pipes, traps and shared buffers; \<^emph>\<open>Cadidum\<close> (\<open>WASMCadidumKernel\<close>,
  \<open>WASMCadidumBindings\<close>) frames messages, drains pipes and multiplexes several interfaces over one
  pipe; \<^emph>\<open>SafeSpace\<close> (\<open>WASMSafeSpace\<close>) keeps untrusted memory in a cage and pointers out of it in
  tables.  A generated proxy writes a message with a connector, the connector writes it to a
  message pipe of the core, the connector of the other end reads and normalises it, and its router
  hands it to the endpoint the interface id names.

  \<^bold>\<open>Conventions.\<close>  \<open>Voodoo_Prelude\<close> has the fixed-width arithmetic of the sources written out on
  natural numbers, checked list access and the shared lemma collections.  Undefined behaviour, a
  failed \<open>CHECK\<close> and a thrown exception are values: an operation returns an option or a sum, and the
  theorems say when which branch is taken.  State is passed explicitly as one record per class.

  \<^bold>\<open>HolePunch system core\<close> (\<open>system/core.cc\<close>).  \<open>Whp_Types\<close> holds the records of the core,
  \<open>Whp_Handles\<close> the handle table, \<open>Whp_Signals\<close> signals and the collection of trap events,
  \<open>Whp_Api\<close> and \<open>Whp_Buffers\<close> one definition per \<open>extern "C"\<close> call, and \<open>Whp_System\<close> the calls as one step
  function and its reachable states.  \<open>Data_Ring\<close> is the ring buffer of data pipes.  \<open>Whp_Invariant\<close>,
  \<open>Whp_Pairs\<close>, \<open>Whp_Traps\<close>, \<open>Whp_Safety\<close> and \<open>Whp_Channel\<close> prove the invariant of the core, what traps
  see, and that pipes are channels; \<open>Whp_Properties\<close> states what clients may rely on.  Interfaces:
  \<open>Handle_Table\<close> (fresh handles, lookup after insertion, freed handles mean nothing) and
  \<open>Fifo_Channel\<close> (what is received is what was sent, in order), both interpreted on the model.

  \<^bold>\<open>voodoomc front end.\<close>  \<open>Voodoom_Lexer\<close> (\<open>lexer.cc\<close>) and \<open>Lexer_Properties\<close>: the tokenizer inverts
  printing and classifies every token.  \<open>Voodoom_Ast\<close> (\<open>ast.h\<close>); \<open>Voodoom_Scan\<close>, \<open>Parse_Monad\<close>,
  \<open>Voodoom_Types\<close>, \<open>Voodoom_Decls\<close>, \<open>Voodoom_Bodies\<close>, \<open>Embed_Order\<close>, \<open>Voodoom_EnableIf\<close> and \<open>Voodoom_Parser\<close>
  (\<open>parser.cc\<close>): the whole recursive-descent parser, in the order of the source.  \<open>Parser_Progress\<close>
  shows that it ends, \<open>Parser_Validity\<close> that what it returns is valid, \<open>Embed_Acyclic\<close> that the check
  for by-value cycles is exact, \<open>Type_Printing\<close> that types are read back from their print,
  \<open>Enum_Prescan\<close> and \<open>Names_Properties\<close> that the scans ahead of parsing agree with it;
  \<open>Parser_Properties\<close> collects the statements.  \<open>Path_Names\<close> and \<open>Module_Loader\<close> (\<open>module_loader.cc\<close>) with
  \<open>Loader_Invariant\<close> and \<open>Loader_Properties\<close>: a loaded graph is what the files say, imports first, and
  import cycles are reported exactly.  \<open>Type_Intern\<close> and \<open>Intern_Properties\<close> (\<open>type_intern.cc\<close>): the numbers of
  types; the contract of such a table is the locale \<open>interner\<close>.  \<open>Mojovm_Hash\<close>, \<open>Mojovm\<close> and
  \<open>Mojovm_Properties\<close> (\<open>mojovm.cc\<close>): ordinals by hashing and calls by name, whose caches are invisible.

  \<^bold>\<open>SafeSpace.\<close>  \<open>Cage_Allocator\<close>, \<open>Cage_Safety\<close> and \<open>Cage_Properties\<close> (\<open>sandbox.cc\<close>): blocks are
  aligned, inside the cage and disjoint; the locale \<open>block_allocator\<close> of \<open>Buffer_Heap\<close> gives its clients
  isolated buffers.  \<open>Tagged_Payload\<close>, \<open>Entity_Table\<close>, \<open>Pointer_Tables\<close> and \<open>Pointer_Properties\<close>: the
  pointer tables refine maps from handles to tagged pointers, in 64-bit words.

  \<^bold>\<open>Garbage-collected heap\<close> (\<open>WASMv8bindings/src/heap/internal\<close>, \<open>include/cppgc\<close>).  \<open>Object_Header\<close> has the bit
  fields of headers, \<open>Persistent_Region\<close> the nodes of persistent handles (a \<open>handle_table\<close>), \<open>Gc_Roots\<close> the
  handles, \<open>Gc_Free_List\<close> the bucketed free list and \<open>Gc_Heap\<close> marking, sweeping, allocation and destruction as
  in \<open>heap.cc\<close>.  \<open>Gc_Layout\<close> states the invariant: pages are tiled by cells, blocks are disjoint, pointers are
  null or objects.  \<open>Gc_Marking\<close> shows that marking is exact reachability, \<open>Gc_Sweeping\<close> and \<open>Gc_Collection\<close>
  that a collection leaves exactly the reachable objects, \<open>Gc_Allocation\<close> that allocation keeps the others
  apart, \<open>Gc_Client\<close> that every call of a program keeps the invariant; \<open>Gc_Properties\<close> states what follows.

  \<^bold>\<open>Bindings.\<close>  \<open>Wire_Format\<close> has little-endian fields in byte buffers.  \<open>Mojo_Message\<close> and
  \<open>Message_Properties\<close> (\<open>WASMCadidumBindings/src/message.cc\<close>): fields survive the wire and bytes from the wire are
  normalised.  \<open>Header_Validator\<close> and \<open>Validator_Properties\<close> (\<open>WASMHolePunch/src/bindings\<close>): what the validator
  accepts is framed by the message, what is built is accepted, and where it reads too far.
  \<open>Raw_Pipe\<close> and \<open>Connector\<close> put whole messages on a pipe of the core; \<open>Multiplex_Router\<close>,
  \<open>Router_Properties\<close>, \<open>Endpoint_Handles\<close> and \<open>Response_Dispatcher\<close> model the router, its handles and the
  pending responses; \<open>Pipe_To_Client\<close> composes connector, core and router.

  \<^bold>\<open>Fuel and bounds.\<close>  The loops of the parser have as fuel the number of tokens left, which
  \<open>Parser_Progress\<close> shows to be enough, so running out is not an outcome of \<open>Parse\<close>.  The embedding check
  has the number of declarations as fuel.  The loader takes its fuel as an argument; with
  finitely many readable files a sufficient one is computed in \<open>Loader_Properties\<close>.  The draining loop
  of the connector has fuel for the messages read in one call; \<open>Pipe_To_Client\<close> shows that one more than
  the number of waiting messages is enough.  Marking has as fuel the cells that fit the pages and the large objects; \<open>Gc_Layout\<close> shows that there are
  no more objects, so it always ends.  Where a counter of the source is a plain
  \<open>int\<close> that counts characters or tokens it is unbounded in the model; where wrap-around can be
  reached it is written out, and the theorems that need its absence say so.

  \<^bold>\<open>Arguments of the model.\<close>  The reader of files and directory trees, the memory the host maps the cage
  at, the operating-system handles behind shared buffers, the clock of the core's host and the answers of
  clients of the router are arguments of the definitions that use them.

  \<^bold>\<open>Not modelled.\<close>  The generators (\<open>cpp_generator.cc\<close> of \<open>voodoomc\<close>, the generators of \<open>WASMBruja\<close>) print C++
  text, whose meaning is that of a C++ compiler.  Invitations, the executor, sockets and threads
  of HolePunch are operating-system calls.  The Thunker forwards calls through
  function pointers.  Watchers, remotes and receivers of Cadidum post to the executor.  The second
  compiler and the DOM runtime of \<open>WASMBruja\<close> and the V8 facade of \<open>WASMv8bindings\<close> are separate
  programs built on third-party interfaces.  Of the payload of a collected object only its
  members are modelled, its finalizer is a log entry that leaves the heap alone, and the platform runs each
  phase of a collection once; the pages a sandboxed heap takes from the cage are blocks from a parameter.
\<close>

end
